(* ===== verification/CBC_Prelude.thy ===== *)
theory CBC_Prelude
  imports Main "HOL-Library.Word"
begin

text \<open>
  Shared vocabulary of the development: the widths of Go's unsigned integers, Go's
  \<open>(value, error)\<close> results as sums (\<open>Inl\<close> the error, \<open>Inr\<close> the value), the two loop
  shapes the code uses over fallible operations, and the collections of hints that the
  component theories add to.
\<close>

section \<open>Integers and results\<close>

type_synonym byte = "8 word"
type_synonym u16 = "16 word"
type_synonym u32 = "32 word"
type_synonym u64 = "64 word"

named_theorems winv_intros \<open>writer operations keep the writer invariant\<close>
named_theorems wext_intros \<open>writer operations only append bits\<close>
named_theorems codec_simps \<open>a read at the place of a write returns what was written\<close>
named_theorems db_simps \<open>the tables after one statement\<close>

text \<open>
  \<open>v, err := m; if err != nil { return err }; k v\<close>: every early return on an error.
\<close>

definition andThen :: "'e + 'a \<Rightarrow> ('a \<Rightarrow> 'e + 'b) \<Rightarrow> 'e + 'b" where
  "andThen m k = (case m of Inl e \<Rightarrow> Inl e | Inr v \<Rightarrow> k v)"

text \<open>\<open>if cond { return err }\<close> before the rest of the body.\<close>

definition failIf :: "bool \<Rightarrow> 'e \<Rightarrow> 'e + 'a \<Rightarrow> 'e + 'a" where
  "failIf c e k = (if c then Inl e else k)"

text \<open>\<open>return ..., fmt.Errorf("...: %w", err)\<close>: an error wrapped on its way up.\<close>

definition wrapErr :: "('e \<Rightarrow> 'f) \<Rightarrow> 'e + 'a \<Rightarrow> 'f + 'a" where
  "wrapErr f m = (case m of Inl e \<Rightarrow> Inl (f e) | Inr v \<Rightarrow> Inr v)"

lemma andThen_simps [simp]:
  "andThen (Inl e) k = Inl e"
  "andThen (Inr v) k = k v"
  by (simp_all add: andThen_def)

lemma andThen_eq_Inr:
  "andThen m k = Inr y \<longleftrightarrow> (\<exists>x. m = Inr x \<and> k x = Inr y)"
  by (cases m) auto

lemma andThen_eq_Inl:
  "andThen m k = Inl e \<longleftrightarrow> m = Inl e \<or> (\<exists>x. m = Inr x \<and> k x = Inl e)"
  by (cases m) auto

lemma andThen_assoc: "andThen (andThen m f) g = andThen m (\<lambda>x. andThen (f x) g)"
  by (cases m) auto

lemma failIf_simps [simp]:
  "failIf True e k = Inl e"
  "failIf False e k = k"
  by (simp_all add: failIf_def)

lemma failIf_eq_Inr [simp]: "failIf c e k = Inr y \<longleftrightarrow> \<not> c \<and> k = Inr y"
  by (simp add: failIf_def)

lemma wrapErr_simps [simp]:
  "wrapErr f (Inl e) = Inl (f e)"
  "wrapErr f (Inr v) = Inr v"
  by (simp_all add: wrapErr_def)

lemma wrapErr_eq_Inr [simp]: "wrapErr f m = Inr v \<longleftrightarrow> m = Inr v"
  by (cases m) auto

section \<open>Loops over fallible operations\<close>

text \<open>
  \<open>for _, x := range xs { if s, err = f(s, x); err != nil { return err } }\<close>.
\<close>

fun foldE :: "('s \<Rightarrow> 'a \<Rightarrow> 'e + 's) \<Rightarrow> 's \<Rightarrow> 'a list \<Rightarrow> 'e + 's" where
  "foldE f s [] = Inr s"
| "foldE f s (x # xs) = andThen (f s x) (\<lambda>s'. foldE f s' xs)"

text \<open>
  \<open>for i := 0; i < n; i++ { v, err := get(); ...; out = append(out, v) }\<close>.
\<close>

fun repeatE :: "('s \<Rightarrow> 'e + ('a \<times> 's)) \<Rightarrow> nat \<Rightarrow> 's \<Rightarrow> 'e + ('a list \<times> 's)" where
  "repeatE g 0 s = Inr ([], s)"
| "repeatE g (Suc n) s =
     andThen (g s) (\<lambda>(x, s'). andThen (repeatE g n s') (\<lambda>(xs, s''). Inr (x # xs, s'')))"

text \<open>\<open>for i, x := range xs { y, err := f(x); ...; out[i] = y }\<close>.\<close>

fun mapE :: "('a \<Rightarrow> 'e + 'b) \<Rightarrow> 'a list \<Rightarrow> 'e + 'b list" where
  "mapE f [] = Inr []"
| "mapE f (x # xs) = andThen (f x) (\<lambda>y. andThen (mapE f xs) (\<lambda>ys. Inr (y # ys)))"

lemma foldE_append: "foldE f s (xs @ ys) = andThen (foldE f s xs) (\<lambda>s'. foldE f s' ys)"
  by (induction xs arbitrary: s) (auto simp: andThen_assoc)

lemma foldE_inv:
  assumes "foldE f s xs = Inr s'" and "I s"
    and "\<And>s x s'. I s \<Longrightarrow> x \<in> set xs \<Longrightarrow> f s x = Inr s' \<Longrightarrow> I s'"
  shows "I s'"
  using assms(1,2,3)
proof (induction xs arbitrary: s)
  case Nil
  then show ?case by simp
next
  case (Cons x xs)
  from Cons.prems(1) obtain t where t: "f s x = Inr t" "foldE f t xs = Inr s'"
    by (auto simp: andThen_eq_Inr)
  have "I t" by (rule Cons.prems(3) [OF Cons.prems(2) _ t(1)]) simp
  then show ?case
  proof (rule Cons.IH [OF t(2)])
    fix u y v
    assume "I u" "y \<in> set xs" "f u y = Inr v"
    then show "I v" by (intro Cons.prems(3) [of u y v]) simp_all
  qed
qed

lemma repeatE_length: "repeatE g n s = Inr (xs, s') \<Longrightarrow> length xs = n"
  by (induction n arbitrary: s xs s') (auto simp: andThen_eq_Inr)

lemma mapE_Inr: "mapE f xs = Inr ys \<Longrightarrow> length ys = length xs \<and>
    (\<forall>i < length xs. f (xs ! i) = Inr (ys ! i))"
  by (induction xs arbitrary: ys) (auto simp: andThen_eq_Inr nth_Cons split: nat.splits)

lemma mapE_total: "(\<And>x. x \<in> set xs \<Longrightarrow> f x = Inr (g x)) \<Longrightarrow> mapE f xs = Inr (map g xs)"
  by (induction xs) auto

section \<open>Lists and bits\<close>

text \<open>The number of octets that \<open>n\<close> bits need is \<open>(n + 7) div 8\<close>.\<close>

lemma ceil8_ge: "n \<le> 8 * (((n::nat) + 7) div 8)"
  by presburger

lemma ceil8_le: "((n::nat) + 7) div 8 \<le> Suc (n div 8)"
  by presburger

lemma ceil8_mult [simp]: "(8 * (a::nat) + 7) div 8 = a"
  by simp

lemma div8_le: "8 * (a::nat) \<le> i \<Longrightarrow> a \<le> i div 8"
  using div_le_mono [of "8 * a" i 8] by simp

lemma div8_less: "(i::nat) < 8 * a \<Longrightarrow> i div 8 < a"
  by (simp add: less_mult_imp_div_less mult.commute)

lemma map_upt_add: "map f [0..<m + n] = map f [0..<m] @ map (\<lambda>i. f (m + i)) [0..<n]"
  by (induction n) (auto simp: upt_Suc_append)

text \<open>The \<open>n\<close> low bits of a value, most significant first: the order every field is sent in.\<close>

definition msb_bits :: "nat \<Rightarrow> 'a::len word \<Rightarrow> bool list" where
  "msb_bits n v = map (\<lambda>i. bit v (n - 1 - i)) [0..<n]"

lemma length_msb_bits [simp]: "length (msb_bits n v) = n"
  by (simp add: msb_bits_def)

lemma nth_msb_bits [simp]: "i < n \<Longrightarrow> msb_bits n v ! i = bit v (n - 1 - i)"
  by (simp add: msb_bits_def)

lemma msb_bits_Suc: "msb_bits (Suc n) v = bit v n # msb_bits n v"
  by (rule nth_equalityI) (auto simp: nth_Cons split: nat.split)

text \<open>Reading bits back: shift left, or in the next bit.\<close>

definition shift_in :: "'a::len word \<Rightarrow> bool \<Rightarrow> 'a word" where
  "shift_in v b = or (push_bit 1 v) (of_bool b)"

lemma bit_shift_in:
  "bit (shift_in (v::'a::len word) b) k \<longleftrightarrow> k < LENGTH('a) \<and> (if k = 0 then b else bit v (k - 1))"
proof (cases "k < LENGTH('a)")
  case True
  then show ?thesis
    by (cases k) (auto simp: shift_in_def bit_or_iff bit_push_bit_iff bit_of_bool_iff
        simp del: push_bit_Suc push_bit_of_0 one_div_two_eq_zero)
next
  case False
  then show ?thesis by (auto dest: bit_imp_le_length)
qed

lemma bit_foldl_shift_in:
  "bit (foldl shift_in (0::'a::len word) bs) k \<longleftrightarrow>
     k < LENGTH('a) \<and> k < length bs \<and> bs ! (length bs - 1 - k)"
proof (induction bs arbitrary: k rule: rev_induct)
  case Nil
  then show ?case by simp
next
  case (snoc b bs)
  show ?case
  proof (cases k)
    case 0
    then show ?thesis by (simp add: bit_shift_in)
  next
    case (Suc j)
    then show ?thesis
      by (auto simp: bit_shift_in snoc nth_append)
  qed
qed

lemma foldl_shift_in_msb_bits:
  assumes "n \<le> LENGTH('a)"
  shows "foldl shift_in (0::'a::len word) (msb_bits n (v::'a word)) = take_bit n v"
proof (rule bit_word_eqI)
  fix k assume "k < LENGTH('a)"
  then show "bit (foldl shift_in (0::'a word) (msb_bits n v)) k = bit (take_bit n v) k"
    by (auto simp: bit_foldl_shift_in bit_simps)
qed

lemma take_bit_of_nat_less: "m < 2 ^ n \<Longrightarrow> take_bit n (word_of_nat m :: 'a::len word) = word_of_nat m"
  by (simp add: take_bit_of_nat take_bit_nat_eq_self)

end
