(* ===== verification/Sbcap_Bits.thy ===== *)
theory Sbcap_Bits
  imports CBC_Prelude
begin

text \<open>
  \<open>internal/sbcap/bits.go\<close>: the most-significant-bit-first writer and reader under the
  Aligned PER codec. The operations are translated step by step (the byte index, the bit
  position, the growth of the buffer). The abstract view is the sequence of bits: the writer
  invariant says that the buffer is exactly as long as its bits need and zero beyond them,
  writing appends bits (\<open>wext\<close>), and a reader that stands where a writer stood reads back
  what was written (\<open>carries\<close>). The last section is the interface of a wire codec, a pair of
  a put and a get, and the loop over a list that every list-valued field of the protocol uses.
\<close>

unbundle bit_operations_syntax

section \<open>Writer and reader\<close>

datatype sbcap_error =
    UnexpectedEnd nat                    \<comment> \<open>unexpected end of PDU while reading n bits\<close>
  | NotAligned                           \<comment> \<open>reader not octet-aligned\<close>
  | UnexpectedEndOctets int              \<comment> \<open>unexpected end of PDU reading n octets\<close>
  | ValueOutOfRange int int int
  | RangeTooWide int
  | OpenTypeTooLong nat
  | FragmentedOpenType
  | EmptyPDU
  | ExtensionUnsupported
  | OptionalUnsupported
  | BadFixedLength nat nat               \<comment> \<open>expected, got\<close>
  | BadPLMNLength
  | ECIOutOfRange u32
  | TACOutOfRange u32
  | BadScope int
  | BadWarningArea
  | BadContentsLength nat
  | UnsupportedAlternative int
  | NotThisPDU                           \<comment> \<open>PDU is not the expected message\<close>
  | MissingIE int
  | BadProcedure int
  | UnsupportedENBID int
  | UnsupportedSmallNumber
  | InIE int sbcap_error                 \<comment> \<open>decode (name of the IE): ...\<close>

record bitWriter =
  wbuf :: "byte list"
  wnbit :: nat

record bitReader =
  rbuf :: "byte list"
  rnbit :: nat

definition newBitWriter :: bitWriter where
  "newBitWriter = \<lparr>wbuf = [], wnbit = 0\<rparr>"

definition newBitReader :: "byte list \<Rightarrow> bitReader" where
  "newBitReader b = \<lparr>rbuf = b, rnbit = 0\<rparr>"

text \<open>\<open>for byteIdx >= len(w.buf) { w.buf = append(w.buf, 0) }\<close>.\<close>

definition growTo :: "nat \<Rightarrow> byte list \<Rightarrow> byte list" where
  "growTo byteIdx buf = buf @ replicate (Suc byteIdx - length buf) 0"

definition putBit :: "bitWriter \<Rightarrow> u64 \<Rightarrow> nat \<Rightarrow> bitWriter" where
  "putBit w value i =
     (let byteIdx = wnbit w div 8;
          buf = growTo byteIdx (wbuf w);
          buf' = (if drop_bit i value AND 1 \<noteq> 0
                  then buf[byteIdx := buf ! byteIdx OR push_bit (7 - wnbit w mod 8) 1]
                  else buf)
      in \<lparr>wbuf = buf', wnbit = Suc (wnbit w)\<rparr>)"

fun putBits :: "bitWriter \<Rightarrow> u64 \<Rightarrow> nat \<Rightarrow> bitWriter" where
  "putBits w value 0 = w"
| "putBits w value (Suc i) = putBits (putBit w value i) value i"

definition alignW :: "bitWriter \<Rightarrow> bitWriter" where
  "alignW w = (let r = wnbit w mod 8 in if r \<noteq> 0 then putBits w 0 (8 - r) else w)"

definition putOctets :: "bitWriter \<Rightarrow> byte list \<Rightarrow> bitWriter" where
  "putOctets w b = \<lparr>wbuf = wbuf w @ b, wnbit = wnbit w + length b * 8\<rparr>"

text \<open>
  The reader's loop; \<open>count\<close> is the width asked for, which the error reports, and the
  second count is the number of bits still to read.
\<close>

fun getBitsLoop :: "nat \<Rightarrow> nat \<Rightarrow> u64 \<Rightarrow> bitReader \<Rightarrow> sbcap_error + (u64 \<times> bitReader)" where
  "getBitsLoop count 0 v r = Inr (v, r)"
| "getBitsLoop count (Suc k) v r =
     (let byteIdx = rnbit r div 8
      in if byteIdx \<ge> length (rbuf r) then Inl (UnexpectedEnd count)
         else let b = drop_bit (7 - rnbit r mod 8) (rbuf r ! byteIdx) AND 1
              in getBitsLoop count k (push_bit 1 v OR ucast b) (r\<lparr>rnbit := Suc (rnbit r)\<rparr>))"

definition getBits :: "nat \<Rightarrow> bitReader \<Rightarrow> sbcap_error + (u64 \<times> bitReader)" where
  "getBits count r = getBitsLoop count count 0 r"

definition alignR :: "bitReader \<Rightarrow> sbcap_error + bitReader" where
  "alignR r = (let rem = rnbit r mod 8
               in if rem \<noteq> 0 then andThen (getBits (8 - rem) r) (\<lambda>(_, r'). Inr r') else Inr r)"

definition readOctets :: "int \<Rightarrow> bitReader \<Rightarrow> sbcap_error + (byte list \<times> bitReader)" where
  "readOctets n r =
     (if rnbit r mod 8 \<noteq> 0 then Inl NotAligned
      else let start = rnbit r div 8
           in if n < 0 \<or> int start + n > int (length (rbuf r)) then Inl (UnexpectedEndOctets n)
              else Inr (take (nat n) (drop start (rbuf r)), r\<lparr>rnbit := rnbit r + nat n * 8\<rparr>))"

definition remainingBits :: "bitReader \<Rightarrow> int" where
  "remainingBits r = int (length (rbuf r)) * 8 - int (rnbit r)"

section \<open>The bits of a buffer\<close>

definition bufbit :: "byte list \<Rightarrow> nat \<Rightarrow> bool" where
  "bufbit b i = bit (b ! (i div 8)) (7 - i mod 8)"

text \<open>The bits a writer has written and the bits a reader has still to read.\<close>

definition wbits :: "bitWriter \<Rightarrow> bool list" where
  "wbits w = map (bufbit (wbuf w)) [0..<wnbit w]"

definition rbits :: "bitReader \<Rightarrow> bool list" where
  "rbits r = map (bufbit (rbuf r)) [rnbit r..<8 * length (rbuf r)]"

text \<open>Exactly the octets the bits need, and zeros after the last bit.\<close>

definition winv :: "bitWriter \<Rightarrow> bool" where
  "winv w \<longleftrightarrow> length (wbuf w) = (wnbit w + 7) div 8 \<and>
     (\<forall>i. wnbit w \<le> i \<and> i < 8 * length (wbuf w) \<longrightarrow> \<not> bufbit (wbuf w) i)"

text \<open>\<open>w'\<close> has all bits of \<open>w\<close> and more after them.\<close>

definition wext :: "bitWriter \<Rightarrow> bitWriter \<Rightarrow> bool" where
  "wext w w' \<longleftrightarrow> wnbit w \<le> wnbit w' \<and>
     (\<forall>i < wnbit w. bufbit (wbuf w') i = bufbit (wbuf w) i)"

text \<open>The reader's buffer begins with the bits of \<open>w\<close>.\<close>

definition carries :: "bitReader \<Rightarrow> bitWriter \<Rightarrow> bool" where
  "carries r w \<longleftrightarrow> wnbit w \<le> 8 * length (rbuf r) \<and>
     (\<forall>i < wnbit w. bufbit (rbuf r) i = bufbit (wbuf w) i)"

lemma wext_refl [simp, intro]: "wext w w"
  by (simp add: wext_def)

lemma wext_trans [trans]: "wext a b \<Longrightarrow> wext b c \<Longrightarrow> wext a c"
  by (auto simp: wext_def)

lemma carries_wext: "carries r w' \<Longrightarrow> wext w w' \<Longrightarrow> carries r w"
  by (auto simp: carries_def wext_def)

lemma carries_rnbit [simp]: "carries (r\<lparr>rnbit := n\<rparr>) w = carries r w"
  by (simp add: carries_def)

lemma winv_new [simp, intro]: "winv newBitWriter"
  by (simp add: winv_def newBitWriter_def)

lemma winv_length: "winv w \<Longrightarrow> length (wbuf w) = (wnbit w + 7) div 8"
  by (simp add: winv_def)

lemma carries_written: "winv w \<Longrightarrow> carries (newBitReader (wbuf w)) w"
  by (auto simp: carries_def winv_def newBitReader_def)

lemma carries_prefix: "winv w \<Longrightarrow> carries (newBitReader (wbuf w @ junk)) w"
  by (auto simp: carries_def winv_def newBitReader_def bufbit_def nth_append)

lemma bufbit_append1: "i < 8 * length b \<Longrightarrow> bufbit (b @ c) i = bufbit b i"
  by (simp add: bufbit_def nth_append less_mult_imp_div_less mult.commute)

lemma bufbit_append2: "bufbit (b @ c) (8 * length b + i) = bufbit c i"
  by (simp add: bufbit_def nth_append)

section \<open>Writing appends bits\<close>

lemma putBit_wnbit [simp]: "wnbit (putBit w v i) = Suc (wnbit w)"
  by (simp add: putBit_def Let_def)

lemma putBits_wnbit [simp]: "wnbit (putBits w v n) = wnbit w + n"
  by (induction n arbitrary: w) simp_all

lemma bit_and_1: "drop_bit i (v :: 'a::len word) AND 1 \<noteq> 0 \<longleftrightarrow> bit v i"
  by (simp add: and_one_eq bit_iff_odd_drop_bit odd_iff_mod_2_eq_one)

lemma growTo_winv:
  assumes "winv w"
  shows "length (growTo (wnbit w div 8) (wbuf w)) = Suc (wnbit w div 8)"
    and "i < 8 * Suc (wnbit w div 8) \<Longrightarrow>
      bufbit (growTo (wnbit w div 8) (wbuf w)) i = (i < wnbit w \<and> bufbit (wbuf w) i)"
proof -
  let ?b = "wbuf w" and ?n = "wnbit w"
  from assms have len: "length ?b = (?n + 7) div 8" by (rule winv_length)
  show "length (growTo (?n div 8) ?b) = Suc (?n div 8)"
    using len ceil8_le [of ?n] by (simp add: growTo_def)
  assume i: "i < 8 * Suc (?n div 8)"
  show "bufbit (growTo (?n div 8) ?b) i = (i < ?n \<and> bufbit ?b i)"
  proof (cases "i < 8 * length ?b")
    case True
    then have "bufbit (growTo (?n div 8) ?b) i = bufbit ?b i"
      by (simp add: growTo_def bufbit_append1)
    moreover from assms True have "\<not> i < ?n \<Longrightarrow> \<not> bufbit ?b i"
      by (simp add: winv_def)
    ultimately show ?thesis by blast
  next
    case False
    then have le: "length ?b \<le> i div 8" by (simp add: div8_le)
    moreover from False len have "\<not> i < ?n" using ceil8_ge [of ?n] by simp
    moreover have "i div 8 - length ?b < Suc (?n div 8) - length ?b"
      using le div8_less [OF i] by (intro diff_less_mono) simp_all
    ultimately show ?thesis by (simp add: growTo_def bufbit_def nth_append)
  qed
qed

lemma bufbit_set:
  assumes "j < length b" "k < 8" "i < 8 * length b"
  shows "bufbit (b[j := b ! j OR 2 ^ (7 - k)]) i = (i = 8 * j + k \<or> bufbit b i)"
proof (cases "i div 8 = j")
  case True
  define m where "m = i mod 8"
  have m: "m < 8" by (simp add: m_def)
  have i: "i = 8 * j + m" using True mult_div_mod_eq [of 8 i] by (simp add: m_def)
  have "(7 - k = 7 - m) = (m = k)" using assms(2) m by arith
  then show ?thesis
    using True assms i m by (auto simp: bufbit_def bit_simps)
next
  case False
  then have "i \<noteq> 8 * j + k" using assms(2) by auto
  with False show ?thesis by (simp add: bufbit_def)
qed

lemma putBit_bits:
  assumes "winv w" and "i \<le> wnbit w"
  shows "bufbit (wbuf (putBit w v k)) i = (if i = wnbit w then bit v k else bufbit (wbuf w) i)"
    and "winv (putBit w v k)"
proof -
  let ?j = "wnbit w div 8" and ?g = "growTo (wnbit w div 8) (wbuf w)"
  note g = growTo_winv [OF assms(1)]
  have wb: "wbuf (putBit w v k) =
      (if bit v k then ?g[?j := ?g ! ?j OR push_bit (7 - wnbit w mod 8) 1] else ?g)"
    by (simp add: putBit_def Let_def bit_and_1)
  have bits: "bufbit (wbuf (putBit w v k)) l =
      (if l = wnbit w then bit v k else l < wnbit w \<and> bufbit (wbuf w) l)"
    if "l < 8 * Suc ?j" for l
    using that by (simp add: wb g bufbit_set)
  have "wnbit w < 8 * Suc ?j" by arith
  with assms(2) have "i < 8 * Suc ?j" by simp
  from bits [OF this] assms(2)
  show "bufbit (wbuf (putBit w v k)) i = (if i = wnbit w then bit v k else bufbit (wbuf w) i)"
    by auto
  have "length (wbuf (putBit w v k)) = Suc ?j" by (simp add: wb g)
  then show "winv (putBit w v k)"
    by (auto simp: winv_def bits)
qed

lemma putBits_bits:
  assumes "winv w"
  shows "winv (putBits w v n)"
    and "i < wnbit w + n \<Longrightarrow> bufbit (wbuf (putBits w v n)) i =
      (if i < wnbit w then bufbit (wbuf w) i else msb_bits n v ! (i - wnbit w))"
proof -
  have "winv (putBits w v n) \<and> (\<forall>i < wnbit w + n. bufbit (wbuf (putBits w v n)) i =
      (if i < wnbit w then bufbit (wbuf w) i else msb_bits n v ! (i - wnbit w)))"
    using assms
  proof (induction n arbitrary: w)
    case 0
    then show ?case by simp
  next
    case (Suc n)
    note one = putBit_bits [OF Suc.prems]
    let ?w = "putBit w v n"
    have IH: "winv (putBits ?w v n)"
      "\<And>i. i < Suc (wnbit w) + n \<Longrightarrow> bufbit (wbuf (putBits ?w v n)) i =
        (if i < Suc (wnbit w) then bufbit (wbuf ?w) i else msb_bits n v ! (i - Suc (wnbit w)))"
      using Suc.IH [OF one(2) [OF le_refl, of v n]] by simp_all
    have "bufbit (wbuf (putBits ?w v n)) i =
        (if i < wnbit w then bufbit (wbuf w) i else msb_bits (Suc n) v ! (i - wnbit w))"
      if i: "i < wnbit w + Suc n" for i
    proof (cases "i \<le> wnbit w")
      case True
      with i show ?thesis by (simp add: IH(2) one msb_bits_Suc)
    next
      case False
      then have "i - wnbit w = Suc (i - Suc (wnbit w))" by simp
      with False i show ?thesis by (simp add: IH(2) msb_bits_Suc)
    qed
    with IH(1) show ?case by simp
  qed
  then show "winv (putBits w v n)"
    and "i < wnbit w + n \<Longrightarrow> bufbit (wbuf (putBits w v n)) i =
      (if i < wnbit w then bufbit (wbuf w) i else msb_bits n v ! (i - wnbit w))"
    by auto
qed

lemma winv_putBits [winv_intros, simp]: "winv w \<Longrightarrow> winv (putBits w v n)"
  by (rule putBits_bits)

lemma wext_putBits [wext_intros, simp]: "winv w \<Longrightarrow> wext w (putBits w v n)"
  by (simp add: wext_def putBits_bits)

lemma winv_putBit [winv_intros, simp]: "winv w \<Longrightarrow> winv (putBit w v i)"
  by (rule putBit_bits(2) [OF _ le_refl])

lemma wext_putBit [wext_intros, simp]: "winv w \<Longrightarrow> wext w (putBit w v i)"
  by (simp add: wext_def putBit_bits(1))

lemma wbits_putBits: "winv w \<Longrightarrow> wbits (putBits w v n) = wbits w @ msb_bits n v"
  by (rule nth_equalityI) (auto simp: wbits_def putBits_bits nth_append)

lemma winv_alignW [winv_intros, simp]: "winv w \<Longrightarrow> winv (alignW w)"
  by (simp add: alignW_def Let_def)

lemma wext_alignW [wext_intros, simp]: "winv w \<Longrightarrow> wext w (alignW w)"
  by (simp add: alignW_def Let_def)

lemma wnbit_alignW: "wnbit (alignW w) = 8 * ((wnbit w + 7) div 8)"
proof (cases "wnbit w mod 8 = 0")
  case True
  then show ?thesis by (auto simp: alignW_def)
next
  case False
  define q k where "q = wnbit w div 8" and "k = wnbit w mod 8"
  have "wnbit w = 8 * q + k" "k < 8" "0 < k" using False by (simp_all add: q_def k_def)
  moreover from this have "(8 * q + k + 7) div 8 = Suc q" by simp
  ultimately show ?thesis by (simp add: alignW_def Let_def)
qed

lemma alignW_mod8 [simp]: "wnbit (alignW w) mod 8 = 0"
  by (simp add: wnbit_alignW)

lemma alignW_id [simp]: "wnbit w mod 8 = 0 \<Longrightarrow> alignW w = w"
  by (simp add: alignW_def)

lemma winv_aligned_length: "winv w \<Longrightarrow> wnbit w mod 8 = 0 \<Longrightarrow> wnbit w = 8 * length (wbuf w)"
  by (auto simp: winv_length)

lemma putOctets_wnbit [simp]: "wnbit (putOctets w b) = wnbit w + length b * 8"
  by (simp add: putOctets_def)

lemma winv_putOctets [winv_intros]:
  assumes "winv w" "wnbit w mod 8 = 0"
  shows "winv (putOctets w b)"
proof -
  have "wnbit w + length b * 8 = 8 * (length (wbuf w) + length b)"
    using winv_aligned_length [OF assms] by simp
  then show ?thesis by (auto simp: winv_def putOctets_def simp del: distrib_left_numeral)
qed

lemma wext_putOctets [wext_intros]:
  assumes "winv w" "wnbit w mod 8 = 0"
  shows "wext w (putOctets w b)"
  using winv_aligned_length [OF assms]
  by (simp add: wext_def putOctets_def bufbit_append1)

section \<open>Reading back\<close>

lemma ucast_bit_1: "ucast (drop_bit i (x :: byte) AND 1) = (of_bool (bit x i) :: u64)"
  by (simp add: and_one_eq bit_iff_odd_drop_bit mod2_eq_if)

lemma getBitsLoop_ok:
  "rnbit r + k \<le> 8 * length (rbuf r) \<Longrightarrow>
   getBitsLoop c k v r = Inr (foldl shift_in v (map (\<lambda>i. bufbit (rbuf r) (rnbit r + i)) [0..<k]),
     r\<lparr>rnbit := rnbit r + k\<rparr>)"
proof (induction k arbitrary: v r)
  case 0
  then show ?case by simp
next
  case (Suc k)
  then have "rnbit r div 8 < length (rbuf r)" by arith
  moreover have "map (\<lambda>i. bufbit (rbuf r) (rnbit r + i)) [0..<Suc k] =
      bufbit (rbuf r) (rnbit r) # map (\<lambda>i. bufbit (rbuf r) (Suc (rnbit r + i))) [0..<k]"
    by (simp add: upt_conv_Cons map_Suc_upt [symmetric] del: upt_Suc)
  ultimately show ?case
    using Suc by (simp add: Let_def ucast_bit_1 bufbit_def shift_in_def)
qed

lemma getBitsLoop_end:
  "8 * length (rbuf r) < rnbit r + k \<Longrightarrow> 0 < k \<Longrightarrow>
   getBitsLoop c k v r = Inl (UnexpectedEnd c)"
proof (induction k arbitrary: v r)
  case 0
  then show ?case by simp
next
  case (Suc k)
  show ?case
  proof (cases "rnbit r div 8 \<ge> length (rbuf r)")
    case True
    then show ?thesis by simp
  next
    case False
    with Suc.prems(1) have "0 < k" by (cases k) auto
    with False Suc show ?thesis by (simp add: Let_def)
  qed
qed

text \<open>The two outcomes of a read: the next bits, or the error when the buffer ends first.\<close>

lemma getBits_ok:
  "rnbit r + n \<le> 8 * length (rbuf r) \<Longrightarrow>
   getBits n r = Inr (foldl shift_in 0 (take n (rbits r)), r\<lparr>rnbit := rnbit r + n\<rparr>)"
  by (simp add: getBits_def getBitsLoop_ok rbits_def take_map)
     (simp add: take_upt map_add_upt [symmetric] comp_def add.commute)

lemma getBits_end:
  "8 * length (rbuf r) < rnbit r + n \<Longrightarrow> 0 < n \<Longrightarrow> getBits n r = Inl (UnexpectedEnd n)"
  by (simp add: getBits_def getBitsLoop_end)

lemma getBits_Inr:
  "getBits n r = Inr (v, r') \<longleftrightarrow> (n = 0 \<or> rnbit r + n \<le> 8 * length (rbuf r)) \<and>
     v = foldl shift_in 0 (take n (rbits r)) \<and> r' = r\<lparr>rnbit := rnbit r + n\<rparr>"
proof (cases "n = 0")
  case True
  then show ?thesis by (auto simp: getBits_def)
next
  case False
  then show ?thesis
    by (cases "rnbit r + n \<le> 8 * length (rbuf r)") (auto simp: getBits_ok getBits_end)
qed

text \<open>The value a read returns has no bit above its width.\<close>

lemma getBits_bit: "getBits n r = Inr (v, r') \<Longrightarrow> bit v k \<Longrightarrow> k < n"
  by (auto simp: getBits_Inr bit_foldl_shift_in)

lemma getBits_take_bit: "getBits n r = Inr (v, r') \<Longrightarrow> take_bit n v = v"
  by (rule bit_word_eqI) (auto simp: bit_take_bit_iff dest: getBits_bit)

lemma getBits_unat: "getBits n r = Inr (v, r') \<Longrightarrow> unat v < 2 ^ n"
  using getBits_take_bit [of n r v r']
  by (metis take_bit_nat_less_exp unsigned_take_bit_eq)

text \<open>Read after write, for a field of \<open>n\<close> bits.\<close>

lemma getBits_putBits [codec_simps]:
  assumes "winv w" "rnbit r = wnbit w" "carries r (putBits w v n)" "n \<le> 64"
  shows "getBits n r = Inr (take_bit n v, r\<lparr>rnbit := wnbit w + n\<rparr>)"
proof -
  from assms have le: "rnbit r + n \<le> 8 * length (rbuf r)"
    by (simp add: carries_def)
  have "take n (rbits r) = msb_bits n v"
    using le assms
    by (intro nth_equalityI)
       (auto simp: rbits_def carries_def putBits_bits take_map)
  with le assms(2,4) show ?thesis
    by (simp add: getBits_ok foldl_shift_in_msb_bits)
qed

lemma alignR_alignW [codec_simps]:
  assumes "winv w" "rnbit r = wnbit w" "carries r (alignW w)"
  shows "alignR r = Inr (r\<lparr>rnbit := wnbit (alignW w)\<rparr>)"
proof (cases "wnbit w mod 8 = 0")
  case True
  with assms(2) show ?thesis by (simp add: alignR_def flip: assms(2))
next
  case False
  with assms have "carries r (putBits w 0 (8 - wnbit w mod 8))" by (simp add: alignW_def)
  from getBits_putBits [OF assms(1,2) this] False assms(2)
  show ?thesis by (simp add: alignR_def alignW_def Let_def)
qed

lemma nth_bufbit_eqI:
  assumes "\<And>k. k < 8 \<Longrightarrow> bufbit b (8 * i + k) = bufbit c (8 * j + k)"
  shows "b ! i = c ! j"
proof (rule bit_word_eqI)
  fix k assume "k < LENGTH(8)"
  then obtain m where m: "m < 8" "k = 7 - m" by (intro that [of "7 - k"]) simp_all
  with assms [of m] show "bit (b ! i) k = bit (c ! j) k"
    by (simp add: bufbit_def)
qed

lemma readOctets_putOctets [codec_simps]:
  assumes "winv w" "wnbit w mod 8 = 0" "rnbit r = wnbit w" "carries r (putOctets w b)"
    and "n = int (length b)"
  shows "readOctets n r = Inr (b, r\<lparr>rnbit := wnbit w + length b * 8\<rparr>)"
proof -
  let ?s = "wnbit w div 8"
  have w: "wnbit w = 8 * length (wbuf w)" "?s = length (wbuf w)"
    using winv_aligned_length [OF assms(1,2)] by simp_all
  from assms(4) w have len: "?s + length b \<le> length (rbuf r)"
    by (simp add: carries_def putOctets_def)
  have "take (length b) (drop ?s (rbuf r)) = b"
  proof (rule nth_equalityI)
    show "length (take (length b) (drop ?s (rbuf r))) = length b"
      using len by simp
    fix i assume "i < length (take (length b) (drop ?s (rbuf r)))"
    then have i: "i < length b" by simp
    have "rbuf r ! (?s + i) = b ! i"
    proof (rule nth_bufbit_eqI)
      fix k :: nat assume k: "k < 8"
      have "bufbit (rbuf r) (8 * (?s + i) + k) = bufbit (wbuf w @ b) (8 * (?s + i) + k)"
        using assms(4) w i k by (simp add: carries_def putOctets_def)
      also have "\<dots> = bufbit b (8 * i + k)"
        using bufbit_append2 [of "wbuf w" b "8 * i + k"] w
        by (simp add: distrib_left add.assoc)
      finally show "bufbit (rbuf r) (8 * (?s + i) + k) = bufbit b (8 * i + k)" .
    qed
    with i len show "take (length b) (drop ?s (rbuf r)) ! i = b ! i" by simp
  qed
  with assms len show ?thesis by (simp add: readOctets_def Let_def)
qed

section \<open>The interface of a wire codec\<close>

text \<open>A read looks at the bits it consumes and at nothing after them.\<close>

definition withJunk :: "bitReader \<Rightarrow> byte list \<Rightarrow> bitReader" where
  "withJunk r junk = r\<lparr>rbuf := rbuf r @ junk\<rparr>"

lemma withJunk_sel [simp]:
  "rbuf (withJunk r junk) = rbuf r @ junk"
  "rnbit (withJunk r junk) = rnbit r"
  "withJunk r junk\<lparr>rnbit := n\<rparr> = withJunk (r\<lparr>rnbit := n\<rparr>) junk"
  by (simp_all add: withJunk_def)

lemma withJunk_new: "newBitReader (b @ junk) = withJunk (newBitReader b) junk"
  by (simp add: withJunk_def newBitReader_def)

lemma newBitReader_sel [simp]: "rbuf (newBitReader b) = b" "rnbit (newBitReader b) = 0"
  by (simp_all add: newBitReader_def)

text \<open>
  The reader side: a successful read leaves the buffer, moves forward inside it, and gives the
  same value when more octets follow.
\<close>

locale wire_reader =
  fixes get :: "bitReader \<Rightarrow> sbcap_error + ('b \<times> bitReader)"
  assumes get_buf: "get r = Inr (x, r') \<Longrightarrow> rbuf r' = rbuf r"
    and get_forward: "get r = Inr (x, r') \<Longrightarrow> rnbit r \<le> rnbit r'"
    and get_inside: "get r = Inr (x, r') \<Longrightarrow> rnbit r \<le> 8 * length (rbuf r) \<Longrightarrow>
      rnbit r' \<le> 8 * length (rbuf r)"
    and get_stable: "get r = Inr (x, r') \<Longrightarrow> rnbit r \<le> 8 * length (rbuf r) \<Longrightarrow>
      get (withJunk r junk) = Inr (x, withJunk r' junk)"
begin

lemma repeat_buf: "repeatE get n r = Inr (xs, r') \<Longrightarrow> rbuf r' = rbuf r"
  by (induction n arbitrary: r xs r') (auto simp: andThen_eq_Inr dest!: get_buf)

lemma repeat_forward: "repeatE get n r = Inr (xs, r') \<Longrightarrow> rnbit r \<le> rnbit r'"
  by (induction n arbitrary: r xs r') (auto simp: andThen_eq_Inr dest!: get_forward intro: order_trans)

lemma repeat_inside:
  "repeatE get n r = Inr (xs, r') \<Longrightarrow> rnbit r \<le> 8 * length (rbuf r) \<Longrightarrow>
   rnbit r' \<le> 8 * length (rbuf r)"
proof (induction n arbitrary: r xs r')
  case 0
  then show ?case by simp
next
  case (Suc n)
  from Suc.prems(1) obtain x s ys where
    s: "get r = Inr (x, s)" "repeatE get n s = Inr (ys, r')" by (auto simp: andThen_eq_Inr)
  from get_inside [OF s(1) Suc.prems(2)] Suc.IH [OF s(2)] get_buf [OF s(1)]
  show ?case by simp
qed

lemma repeat_stable:
  "repeatE get n r = Inr (xs, r') \<Longrightarrow> rnbit r \<le> 8 * length (rbuf r) \<Longrightarrow>
   repeatE get n (withJunk r junk) = Inr (xs, withJunk r' junk)"
proof (induction n arbitrary: r xs r')
  case 0
  then show ?case by simp
next
  case (Suc n)
  from Suc.prems(1) obtain x s ys where
    s: "get r = Inr (x, s)" "repeatE get n s = Inr (ys, r')" "xs = x # ys"
    by (auto simp: andThen_eq_Inr)
  have "rnbit s \<le> 8 * length (rbuf s)"
    using get_inside [OF s(1) Suc.prems(2)] get_buf [OF s(1)] by simp
  with Suc.IH [OF s(2)] get_stable [OF s(1) Suc.prems(2)] s(3) show ?case by simp
qed

end

text \<open>
  A put and a get of the same field. \<open>ok\<close> is the set of values the put accepts, \<open>val\<close> what
  the get returns for a value put: the same value, except where the format forgets something.
\<close>

locale wire_codec = wire_reader get
  for get :: "bitReader \<Rightarrow> sbcap_error + ('b \<times> bitReader)" +
  fixes put :: "bitWriter \<Rightarrow> 'a \<Rightarrow> sbcap_error + bitWriter"
    and ok :: "'a \<Rightarrow> bool"
    and val :: "'a \<Rightarrow> 'b"
  assumes put_iff: "winv w \<Longrightarrow> (\<exists>w'. put w x = Inr w') \<longleftrightarrow> ok x"
    and put_winv: "winv w \<Longrightarrow> put w x = Inr w' \<Longrightarrow> winv w'"
    and put_wext: "winv w \<Longrightarrow> put w x = Inr w' \<Longrightarrow> wext w w'"
    and get_put: "winv w \<Longrightarrow> put w x = Inr w' \<Longrightarrow> rnbit r = wnbit w \<Longrightarrow> carries r w' \<Longrightarrow>
      get r = Inr (val x, r\<lparr>rnbit := wnbit w'\<rparr>)"
begin

text \<open>One field read at its place, with \<open>w'\<close> all that was written after it.\<close>

lemma step:
  assumes "winv w" "put w x = Inr w1" "wext w1 w'" "carries r w'" "rnbit r = wnbit w"
  shows "get r = Inr (val x, r\<lparr>rnbit := wnbit w1\<rparr>)"
  by (rule get_put [OF assms(1,2,5) carries_wext [OF assms(4,3)]])

lemma fold_winv_wext:
  "winv w \<Longrightarrow> foldE put w xs = Inr w' \<Longrightarrow> winv w' \<and> wext w w'"
proof (induction xs arbitrary: w)
  case Nil
  then show ?case by simp
next
  case (Cons x xs)
  from Cons.prems(2) obtain v where v: "put w x = Inr v" "foldE put v xs = Inr w'"
    by (auto simp: andThen_eq_Inr)
  from Cons.IH [OF put_winv [OF Cons.prems(1) v(1)] v(2)] put_wext [OF Cons.prems(1) v(1)]
  show ?case by (blast intro: wext_trans)
qed

lemma fold_iff: "winv w \<Longrightarrow> (\<exists>w'. foldE put w xs = Inr w') \<longleftrightarrow> (\<forall>x \<in> set xs. ok x)"
proof (induction xs arbitrary: w)
  case Nil
  then show ?case by simp
next
  case (Cons x xs)
  show ?case
  proof (cases "put w x")
    case (Inl e)
    with put_iff [OF Cons.prems, of x] show ?thesis by simp
  next
    case (Inr v)
    with put_iff [OF Cons.prems, of x] Cons.IH [OF put_winv [OF Cons.prems Inr]]
    show ?thesis by simp
  qed
qed

text \<open>The loop of gets reads back the loop of puts.\<close>

lemma repeat_fold:
  "winv w \<Longrightarrow> foldE put w xs = Inr w' \<Longrightarrow> rnbit r = wnbit w \<Longrightarrow> carries r w' \<Longrightarrow>
   repeatE get (length xs) r = Inr (map val xs, r\<lparr>rnbit := wnbit w'\<rparr>)"
proof (induction xs arbitrary: w r)
  case Nil
  then show ?case by simp
next
  case (Cons x xs)
  from Cons.prems(2) obtain v where v: "put w x = Inr v" "foldE put v xs = Inr w'"
    by (auto simp: andThen_eq_Inr)
  have inv: "winv v" by (rule put_winv [OF Cons.prems(1) v(1)])
  have "carries r v"
    using fold_winv_wext [OF inv v(2)] Cons.prems(4) by (blast intro: carries_wext)
  then have "get r = Inr (val x, r\<lparr>rnbit := wnbit v\<rparr>)"
    by (rule get_put [OF Cons.prems(1) v(1) Cons.prems(3)])
  moreover have "repeatE get (length xs) (r\<lparr>rnbit := wnbit v\<rparr>) =
      Inr (map val xs, r\<lparr>rnbit := wnbit v\<rparr>\<lparr>rnbit := wnbit w'\<rparr>)"
    using Cons.prems(4) by (intro Cons.IH [OF inv v(2)]) simp_all
  ultimately show ?case by simp
qed

end

section \<open>The primitive fields\<close>

text \<open>The reads of the codec are built from these three.\<close>

lemma getBits_reader [simp]: "wire_reader (getBits n)"
proof
  fix r x r' junk
  assume g: "getBits n r = Inr (x, r')"
  then show "rbuf r' = rbuf r" and "rnbit r \<le> rnbit r'" by (auto simp: getBits_Inr)
  assume in_r: "rnbit r \<le> 8 * length (rbuf r)"
  with g show "rnbit r' \<le> 8 * length (rbuf r)" by (auto simp: getBits_Inr)
  from g in_r have le: "rnbit r + n \<le> 8 * length (rbuf r)"
    and x: "x = foldl shift_in 0 (take n (rbits r))" and r': "r' = r\<lparr>rnbit := rnbit r + n\<rparr>"
    by (auto simp: getBits_Inr)
  have "take n (rbits (withJunk r junk)) = take n (rbits r)"
    using le by (intro nth_equalityI) (auto simp: rbits_def bufbit_append1)
  with le x r' show "getBits n (withJunk r junk) = Inr (x, withJunk r' junk)"
    by (simp add: getBits_ok)
qed

lemma readOctets_reader [simp]: "wire_reader (readOctets n)"
  by unfold_locales
    (auto simp: readOctets_def Let_def split: if_splits)

lemma bits_codec:
  "n \<le> 64 \<Longrightarrow> wire_codec (getBits n) (\<lambda>w v. Inr (putBits w v n)) (\<lambda>_. True) (take_bit n)"
  by (intro wire_codec.intro getBits_reader wire_codec_axioms.intro)
     (auto simp: codec_simps)

text \<open>The same steps for the primitive operations, in the middle of a longer message.\<close>

lemma bits_step:
  assumes "winv w" "wext (putBits w v n) w'" "carries r w'" "rnbit r = wnbit w" "n \<le> 64"
  shows "getBits n r = Inr (take_bit n v, r\<lparr>rnbit := wnbit w + n\<rparr>)"
  by (rule getBits_putBits [OF assms(1,4) carries_wext [OF assms(3,2)] assms(5)])

lemma align_step:
  assumes "winv w" "wext (alignW w) w'" "carries r w'" "rnbit r = wnbit w"
  shows "alignR r = Inr (r\<lparr>rnbit := wnbit (alignW w)\<rparr>)"
  by (rule alignR_alignW [OF assms(1,4) carries_wext [OF assms(3,2)]])

lemma octets_step:
  assumes "winv w" "wnbit w mod 8 = 0" "wext (putOctets w b) w'" "carries r w'" "rnbit r = wnbit w"
    and "n = int (length b)"
  shows "readOctets n r = Inr (b, r\<lparr>rnbit := wnbit w + length b * 8\<rparr>)"
  by (rule readOctets_putOctets [OF assms(1,2,5) carries_wext [OF assms(4,3)] assms(6)])

text \<open>Readers compose: sequencing, alignment, failure, choice and loops.\<close>

named_theorems reader_intros \<open>compositions of reads are reads\<close>

declare getBits_reader [reader_intros] readOctets_reader [reader_intros]

lemma reader_return [reader_intros]: "wire_reader (\<lambda>r. Inr (c, r))"
  by unfold_locales auto

lemma reader_fail [reader_intros]: "wire_reader (\<lambda>r. Inl e)"
  by unfold_locales auto

lemma reader_if [reader_intros]:
  "wire_reader f \<Longrightarrow> wire_reader g \<Longrightarrow> wire_reader (\<lambda>r. if c then f r else g r)"
  by (cases c) simp_all

lemma reader_failIf [reader_intros]:
  "wire_reader f \<Longrightarrow> wire_reader (\<lambda>r. failIf c e (f r))"
  by (cases c) (simp_all add: reader_fail)

lemma reader_bind [reader_intros]:
  assumes "wire_reader g" and "\<And>x. wire_reader (k x)"
  shows "wire_reader (\<lambda>r. andThen (g r) (\<lambda>(x, r'). k x r'))"
proof
  fix r x r' junk
  assume "andThen (g r) (\<lambda>(x, r'). k x r') = Inr (x, r')"
  then obtain y s where s: "g r = Inr (y, s)" "k y s = Inr (x, r')"
    by (auto simp: andThen_eq_Inr)
  note g = wire_reader.get_buf [OF assms(1) s(1)] wire_reader.get_forward [OF assms(1) s(1)]
  note k = wire_reader.get_buf [OF assms(2) s(2)] wire_reader.get_forward [OF assms(2) s(2)]
  from g k show "rbuf r' = rbuf r" and "rnbit r \<le> rnbit r'" by simp_all
  assume in_r: "rnbit r \<le> 8 * length (rbuf r)"
  have in_s: "rnbit s \<le> 8 * length (rbuf s)"
    using wire_reader.get_inside [OF assms(1) s(1) in_r] g by simp
  show "rnbit r' \<le> 8 * length (rbuf r)"
    using wire_reader.get_inside [OF assms(2) s(2) in_s] g by simp
  show "andThen (g (withJunk r junk)) (\<lambda>(x, r'). k x r') = Inr (x, withJunk r' junk)"
    using wire_reader.get_stable [OF assms(1) s(1) in_r]
      wire_reader.get_stable [OF assms(2) s(2) in_s] by simp
qed

lemma reader_repeat [reader_intros]: "wire_reader g \<Longrightarrow> wire_reader (repeatE g n)"
  by unfold_locales
    (blast intro: wire_reader.repeat_buf wire_reader.repeat_forward wire_reader.repeat_inside
      wire_reader.repeat_stable)+

lemma alignR_alt: "andThen (alignR r) k =
    andThen (andThen (getBits (if rnbit r mod 8 = 0 then 0 else 8 - rnbit r mod 8) r)
      (\<lambda>(_, r'). Inr r')) k"
  by (simp add: alignR_def Let_def getBits_def)

lemma reader_align [reader_intros]:
  assumes "wire_reader k"
  shows "wire_reader (\<lambda>r. andThen (alignR r) k)"
proof
  fix r x r' junk
  assume a: "andThen (alignR r) k = Inr (x, r')"
  define n where "n = (if rnbit r mod 8 = 0 then 0 else 8 - rnbit r mod 8)"
  have eq: "andThen (alignR s) k = andThen (getBits n s) (\<lambda>(_, r'). k r')"
    if "rnbit s = rnbit r" for s
    using that by (simp add: alignR_alt andThen_assoc n_def case_prod_unfold)
  have rd: "wire_reader (\<lambda>s. andThen (getBits n s) (\<lambda>(_, r'). k r'))"
    by (intro reader_bind getBits_reader assms)
  from a have a': "andThen (getBits n r) (\<lambda>(_, r'). k r') = Inr (x, r')" by (simp add: eq)
  from wire_reader.get_buf [OF rd a'] wire_reader.get_forward [OF rd a']
  show "rbuf r' = rbuf r" and "rnbit r \<le> rnbit r'" .
  assume "rnbit r \<le> 8 * length (rbuf r)"
  from wire_reader.get_inside [OF rd a' this] wire_reader.get_stable [OF rd a' this, of junk]
  show "rnbit r' \<le> 8 * length (rbuf r)"
    and "andThen (alignR (withJunk r junk)) k = Inr (x, withJunk r' junk)"
    by (simp_all add: eq)
qed

text \<open>The one-bit preamble fields (extension and optional bits) and the 28-bit cell identity.\<close>

interpretation preamble: wire_codec "getBits 1" "\<lambda>w v. Inr (putBits w v 1)" "\<lambda>_. True" "take_bit 1"
  by (rule bits_codec) simp

interpretation cell_id: wire_codec "getBits 28" "\<lambda>w v. Inr (putBits w v 28)" "\<lambda>_. True" "take_bit 28"
  by (rule bits_codec) simp

end
