(* ===== verification/Sbcap_Aper.thy ===== *)
theory Sbcap_Aper
  imports Sbcap_Bits
begin

text \<open>
  \<open>internal/sbcap/aper.go\<close>: the Aligned PER constrained whole number and open type. Go's
  \<open>int64\<close> bounds and values are \<open>int\<close>: every caller passes bounds between 0 and 65535, where
  \<open>ub - lb + 1\<close> and \<open>value - lb\<close> cannot overflow. The value on the wire is a \<open>64 word\<close>.
\<close>

section \<open>Operations\<close>

text \<open>\<open>for (1 << n) < rng { n++ }\<close>, called for ranges up to 255 only.\<close>

function bitsForFrom :: "nat \<Rightarrow> int \<Rightarrow> nat" where
  "bitsForFrom n rng = (if (2::int) ^ n < rng then bitsForFrom (Suc n) rng else n)"
  by pat_completeness auto
termination
proof (relation "measure (\<lambda>(n, rng). nat (rng - 2 ^ n))", goal_cases)
  case (2 n rng)
  have "(0::int) < 2 ^ n" by simp
  with 2 show ?case by simp
qed simp

declare bitsForFrom.simps [simp del]

definition bitsFor :: "int \<Rightarrow> nat" where
  "bitsFor rng = bitsForFrom 0 rng"

definition putConstrainedWholeNumber ::
    "bitWriter \<Rightarrow> int \<Rightarrow> int \<Rightarrow> int \<Rightarrow> sbcap_error + bitWriter" where
  "putConstrainedWholeNumber w lb ub value =
     (if value < lb \<or> value > ub then Inl (ValueOutOfRange value lb ub)
      else let rng = ub - lb + 1; v = (word_of_int (value - lb) :: u64)
      in if rng = 1 then Inr w
         else if rng \<le> 255 then Inr (putBits w v (bitsFor rng))
         else if rng = 256 then Inr (putBits (alignW w) v 8)
         else if rng \<le> 65536 then Inr (putBits (alignW w) v 16)
         else Inl (RangeTooWide rng))"

definition getConstrainedWholeNumber ::
    "int \<Rightarrow> int \<Rightarrow> bitReader \<Rightarrow> sbcap_error + (int \<times> bitReader)" where
  "getConstrainedWholeNumber lb ub r =
     (let rng = ub - lb + 1
      in if rng = 1 then Inr (lb, r)
         else if rng \<le> 255 then
           andThen (getBits (bitsFor rng) r) (\<lambda>(v, r). Inr (lb + sint v, r))
         else if rng = 256 then
           andThen (alignR r) (\<lambda>r. andThen (getBits 8 r) (\<lambda>(v, r). Inr (lb + sint v, r)))
         else if rng \<le> 65536 then
           andThen (alignR r) (\<lambda>r. andThen (getBits 16 r) (\<lambda>(v, r). Inr (lb + sint v, r)))
         else Inl (RangeTooWide rng))"

definition putOpenType :: "bitWriter \<Rightarrow> byte list \<Rightarrow> sbcap_error + bitWriter" where
  "putOpenType w content =
     (let w = alignW w;
          content = (if length content = 0 then [0] else content);
          n = length content
      in andThen
           (if n \<le> 127 then Inr (putBits w (word_of_nat n) 8)
            else if n < 16384 then Inr (putBits w (word_of_nat n OR 0x8000) 16)
            else Inl (OpenTypeTooLong n))
           (\<lambda>w. Inr (putOctets w content)))"

definition getOpenType :: "bitReader \<Rightarrow> sbcap_error + (byte list \<times> bitReader)" where
  "getOpenType r =
     andThen (alignR r) (\<lambda>r.
     andThen (getBits 8 r) (\<lambda>(first, r).
       if first AND 0x80 = 0 then readOctets (sint (first AND 0x7f)) r
       else if first AND 0x40 = 0 then
         andThen (getBits 8 r) (\<lambda>(second, r).
           readOctets (sint (push_bit 8 (first AND 0x3f) OR second)) r)
       else Inl FragmentedOpenType))"

section \<open>The width of a small range\<close>

lemma bitsForFrom_ge: "rng \<le> 2 ^ bitsForFrom n rng"
  by (induction n rng rule: bitsForFrom.induct) (subst bitsForFrom.simps, auto)

lemma bitsForFrom_le: "rng \<le> 2 ^ m \<Longrightarrow> n \<le> m \<Longrightarrow> bitsForFrom n rng \<le> m"
proof (induction n rng rule: bitsForFrom.induct)
  case (1 n rng)
  show ?case
  proof (cases "(2::int) ^ n < rng")
    case True
    with "1.prems" have "n \<noteq> m" by auto
    with 1 True show ?thesis by (subst bitsForFrom.simps) simp
  next
    case False
    with "1.prems" show ?thesis by (subst bitsForFrom.simps) simp
  qed
qed

text \<open>\<open>bitsFor\<close> is the least width that holds \<open>0 .. rng - 1\<close>.\<close>

lemma bitsFor_ge: "rng \<le> 2 ^ bitsFor rng"
  by (simp add: bitsFor_def bitsForFrom_ge)

lemma bitsFor_le: "rng \<le> 2 ^ m \<Longrightarrow> bitsFor rng \<le> m"
  by (simp add: bitsFor_def bitsForFrom_le)

lemma bitsFor_le8: "rng \<le> 255 \<Longrightarrow> bitsFor rng \<le> 8"
  by (rule bitsFor_le) simp

lemma bitsFor_3: "bitsFor 3 = 2"
  by (simp add: bitsFor_def bitsForFrom.simps)

section \<open>Constrained whole numbers round trip\<close>

lemma sint_take_bit_of_int:
  assumes "0 \<le> x" "x < 2 ^ n" "n < 64"
  shows "sint (take_bit n (word_of_int x :: u64)) = x"
proof -
  have "x < 2 ^ 63" using assms(2,3) power_increasing [of n 63 "2::int"] by simp
  moreover have "take_bit n (word_of_int x :: u64) = word_of_int x"
    using assms(1,2) by (simp add: take_bit_of_int take_bit_int_eq_self)
  ultimately show ?thesis
    using assms(1) by (simp add: signed_of_int signed_take_bit_int_eq_self)
qed

lemma cwn_reader [reader_intros]: "wire_reader (getConstrainedWholeNumber lb ub)"
  unfolding getConstrainedWholeNumber_def Let_def
  by (intro reader_intros)

lemma putCWN_iff:
  "(\<exists>w'. putConstrainedWholeNumber w lb ub x = Inr w') \<longleftrightarrow> lb \<le> x \<and> x \<le> ub \<and> ub - lb < 65536"
  by (auto simp: putConstrainedWholeNumber_def Let_def)

lemma putCWN_winv_wext:
  assumes "winv w" "putConstrainedWholeNumber w lb ub x = Inr w'"
  shows "winv w' \<and> wext w w'"
  using assms
  by (auto simp: putConstrainedWholeNumber_def Let_def split: if_splits
      intro: wext_trans [OF wext_alignW])

lemma getCWN_putCWN:
  assumes "winv w" "putConstrainedWholeNumber w lb ub x = Inr w'" "rnbit r = wnbit w" "carries r w'"
  shows "getConstrainedWholeNumber lb ub r = Inr (x, r\<lparr>rnbit := wnbit w'\<rparr>)"
proof -
  let ?v = "word_of_int (x - lb) :: u64"
  from assms(2) have x: "lb \<le> x" "x \<le> ub" "ub - lb < 65536"
    using putCWN_iff [of w lb ub x] by blast+
  consider "ub - lb + 1 = 1" | "1 < ub - lb + 1" "ub - lb + 1 \<le> 255"
    | "ub - lb + 1 = 256" | "256 < ub - lb + 1" "ub - lb + 1 \<le> 65536"
    using x by linarith
  then show ?thesis
  proof cases
    case 1
    with assms x show ?thesis
      by (auto simp: putConstrainedWholeNumber_def getConstrainedWholeNumber_def)
  next
    case 2
    let ?n = "bitsFor (ub - lb + 1)"
    have w': "w' = putBits w ?v ?n"
      using assms(2) 2 x by (simp add: putConstrainedWholeNumber_def Let_def)
    have n: "?n \<le> 8" "ub - lb + 1 \<le> 2 ^ ?n"
      using 2 by (simp_all add: bitsFor_le8 bitsFor_ge)
    have "sint (take_bit ?n ?v) = x - lb"
      using x n by (intro sint_take_bit_of_int) auto
    with 2 assms n w' show ?thesis
      using getBits_putBits [of w r ?v ?n] by (simp add: getConstrainedWholeNumber_def)
  next
    case 3
    have w': "w' = putBits (alignW w) ?v 8"
      using assms(2) 3 x by (simp add: putConstrainedWholeNumber_def Let_def)
    have "sint (take_bit 8 ?v) = x - lb"
      using x 3 by (intro sint_take_bit_of_int) auto
    with 3 assms w' show ?thesis
      using align_step [of w w' r] bits_step [of "alignW w" ?v 8 w' "r\<lparr>rnbit := wnbit (alignW w)\<rparr>"]
      by (simp add: getConstrainedWholeNumber_def)
  next
    case 4
    have w': "w' = putBits (alignW w) ?v 16"
      using assms(2) 4 x by (simp add: putConstrainedWholeNumber_def Let_def)
    have "sint (take_bit 16 ?v) = x - lb"
      using x 4 by (intro sint_take_bit_of_int) auto
    with 4 assms w' show ?thesis
      using align_step [of w w' r] bits_step [of "alignW w" ?v 16 w' "r\<lparr>rnbit := wnbit (alignW w)\<rparr>"]
      by (simp add: getConstrainedWholeNumber_def)
  qed
qed

lemma cwn_codec:
  "wire_codec (getConstrainedWholeNumber lb ub) (\<lambda>w. putConstrainedWholeNumber w lb ub)
     (\<lambda>x. lb \<le> x \<and> x \<le> ub \<and> ub - lb < 65536) (\<lambda>x. x)"
  by (intro wire_codec.intro wire_codec_axioms.intro cwn_reader)
     (auto simp: putCWN_iff putCWN_winv_wext getCWN_putCWN)

text \<open>
  The numbers of the protocol: 16-bit counts and identifiers, the three-valued criticality and
  choice index, the 8-bit procedure code and cause, and a list count of 1 to 65535.
\<close>

interpretation num16: wire_codec "getConstrainedWholeNumber 0 65535"
    "\<lambda>w. putConstrainedWholeNumber w 0 65535" "\<lambda>x. 0 \<le> x \<and> x \<le> 65535 \<and> 65535 - 0 < (65536::int)" "\<lambda>x. x"
  by (rule cwn_codec)

interpretation num3: wire_codec "getConstrainedWholeNumber 0 2"
    "\<lambda>w. putConstrainedWholeNumber w 0 2" "\<lambda>x. 0 \<le> x \<and> x \<le> 2 \<and> 2 - 0 < (65536::int)" "\<lambda>x. x"
  by (rule cwn_codec)

interpretation num8: wire_codec "getConstrainedWholeNumber 0 255"
    "\<lambda>w. putConstrainedWholeNumber w 0 255" "\<lambda>x. 0 \<le> x \<and> x \<le> 255 \<and> 255 - 0 < (65536::int)" "\<lambda>x. x"
  by (rule cwn_codec)

interpretation count16: wire_codec "getConstrainedWholeNumber 1 65535"
    "\<lambda>w. putConstrainedWholeNumber w 1 65535" "\<lambda>x. 1 \<le> x \<and> x \<le> 65535 \<and> 65535 - 1 < (65536::int)" "\<lambda>x. x"
  by (rule cwn_codec)

section \<open>Open types round trip\<close>

lemma openType_reader [reader_intros]: "wire_reader getOpenType"
  unfolding getOpenType_def by (intro reader_intros)

text \<open>An empty value travels as one zero octet.\<close>

definition widen :: "byte list \<Rightarrow> byte list" where
  "widen content = (if content = [] then [0] else content)"

lemma widen_simps [simp]: "widen [] = [0]" "c \<noteq> [] \<Longrightarrow> widen c = c" "widen c \<noteq> []"
  by (simp_all add: widen_def)

lemma putOpenType_eq:
  "putOpenType w content =
     (let n = length (widen content); w = alignW w
      in if n \<le> 127 then Inr (putOctets (putBits w (word_of_nat n) 8) (widen content))
         else if n < 16384 then
           Inr (putOctets (putBits w (word_of_nat n OR 0x8000) 16) (widen content))
         else Inl (OpenTypeTooLong n))"
  by (auto simp: putOpenType_def widen_def Let_def)

lemma putOpenType_iff: "(\<exists>w'. putOpenType w c = Inr w') \<longleftrightarrow> length c < 16384"
  by (auto simp: putOpenType_eq Let_def widen_def)

text \<open>The writer just before the content, and the three outcomes of the length.\<close>

definition openHeader :: "bitWriter \<Rightarrow> nat \<Rightarrow> bitWriter" where
  "openHeader w n = (if n \<le> 127 then putBits (alignW w) (word_of_nat n) 8
                     else putBits (alignW w) (word_of_nat n OR 0x8000) 16)"

lemma putOpenType_Inr:
  "putOpenType w c = Inr w' \<longleftrightarrow> length c < 16384 \<and>
     w' = putOctets (openHeader w (length (widen c))) (widen c)"
  by (auto simp: putOpenType_eq Let_def openHeader_def widen_def)

lemma openHeader_wnbit:
  "wnbit (openHeader w n) = wnbit (alignW w) + (if n \<le> 127 then 8 else 16)"
  by (simp add: openHeader_def)

lemma openHeader_mod8 [simp]: "wnbit (openHeader w n) mod 8 = 0"
proof -
  obtain q where "wnbit (alignW w) = 8 * q" by (auto simp: wnbit_alignW)
  then show ?thesis by (simp add: openHeader_wnbit)
qed

lemma openHeader_winv: "winv w \<Longrightarrow> winv (openHeader w n)"
  by (simp add: openHeader_def)

lemma openHeader_wext: "winv w \<Longrightarrow> wext (alignW w) (openHeader w n)"
  by (simp add: openHeader_def)

lemma putOpenType_winv_wext:
  assumes "winv w" "putOpenType w c = Inr w'"
  shows "winv w'" and "wext w w'"
proof -
  let ?h = "openHeader w (length (widen c))"
  have w': "w' = putOctets ?h (widen c)" using assms(2) by (simp add: putOpenType_Inr)
  note h = openHeader_winv [OF assms(1), of "length (widen c)"]
  show "winv w'" by (simp add: w' h winv_putOctets)
  have "wext w ?h"
    by (rule wext_trans [OF wext_alignW [OF assms(1)] openHeader_wext [OF assms(1)]])
  also have "wext ?h w'" by (simp add: w' h wext_putOctets)
  finally show "wext w w'" .
qed

text \<open>The two forms of the length, as the reader tests them.\<close>

lemma short_length:
  assumes "n \<le> 127"
  shows "take_bit 8 (word_of_nat n :: u64) AND 0x80 = 0"
    and "sint (take_bit 8 (word_of_nat n :: u64) AND 0x7f) = int n"
proof -
  have "take_bit 8 (word_of_nat n :: u64) = word_of_nat n"
    using assms by (intro take_bit_of_nat_less) simp
  moreover have "\<forall>n \<in> {..127::nat}. (word_of_nat n :: u64) AND 0x80 = 0 \<and>
      sint ((word_of_nat n :: u64) AND 0x7f) = int n"
    by code_simp
  ultimately show "take_bit 8 (word_of_nat n :: u64) AND 0x80 = 0"
    and "sint (take_bit 8 (word_of_nat n :: u64) AND 0x7f) = int n"
    using assms by auto
qed

lemma long_length:
  assumes "n < 16384"
  defines "v \<equiv> take_bit 16 (word_of_nat n OR 0x8000 :: u64)"
  shows "drop_bit 8 v AND 0x80 \<noteq> 0" and "drop_bit 8 v AND 0x40 = 0"
    and "sint (push_bit 8 (drop_bit 8 v AND 0x3f) OR take_bit 8 v) = int n"
proof -
  have "n < 2 ^ 14" using assms(1) by simp
  then have bn: "bit n k \<Longrightarrow> k < 14" for k
    by (metis bit_take_bit_iff take_bit_nat_eq_self)
  have c: "(0x8000 :: u64) = 2 ^ 15" "(0x80 :: u64) = 2 ^ 7" "(0x40 :: u64) = 2 ^ 6"
    "(0x3f :: u64) = mask 6"
    by (simp_all add: mask_eq_exp_minus_1)
  show "drop_bit 8 v AND 0x80 \<noteq> 0" and "drop_bit 8 v AND 0x40 = 0"
    unfolding v_def c and_exp_eq_0_iff_not_bit by (auto simp: bit_simps dest: bn)
  have "(0x8000 :: int) = 2 ^ 15" by simp
  then have b15: "bit (0x8000 :: int) k = (k = 15)" for k
    by (simp only: bit_exp_iff) auto
  have "push_bit 8 (drop_bit 8 v AND 0x3f) OR take_bit 8 v = word_of_nat n"
    unfolding v_def c(4) by (rule bit_word_eqI) (auto simp: bit_simps b15 dest: bn)
  then show "sint (push_bit 8 (drop_bit 8 v AND 0x3f) OR take_bit 8 v) = int n"
    using assms(1) by (simp add: signed_of_nat signed_take_bit_int_eq_self)
qed

text \<open>A field written in two parts; the reader takes a 16-bit length as two octets.\<close>

lemma putBits_add: "putBits w v (n + m) = putBits (putBits w (drop_bit m v) n) v m"
proof (induction n arbitrary: w)
  case 0
  then show ?case by simp
next
  case (Suc n)
  have "putBit w (drop_bit m v) n = putBit w v (n + m)"
    by (simp add: putBit_def add.commute)
  with Suc show ?case by simp
qed

lemma putBits_16: "putBits w v 16 = putBits (putBits w (drop_bit 8 v) 8) v 8"
  using putBits_add [of w v 8 8] by simp

lemma getOpenType_putOpenType:
  assumes "winv w" "putOpenType w c = Inr w'" "rnbit r = wnbit w" "carries r w'"
  shows "getOpenType r = Inr (widen c, r\<lparr>rnbit := wnbit w'\<rparr>)"
proof -
  let ?n = "length (widen c)" and ?a = "alignW w"
  let ?h = "openHeader w ?n"
  have n: "?n < 16384" and w': "w' = putOctets ?h (widen c)"
    using assms(2) by (auto simp: putOpenType_Inr widen_def)
  note h = openHeader_winv [OF assms(1), of ?n]
  have e2: "wext ?h w'" by (simp add: w' h wext_putOctets)
  have e1: "wext ?a w'"
    by (rule wext_trans [OF openHeader_wext [OF assms(1)] e2])
  note al = align_step [OF assms(1) e1 assms(4,3)]
  let ?r = "r\<lparr>rnbit := wnbit ?a\<rparr>" and ?r2 = "r\<lparr>rnbit := wnbit ?h\<rparr>"
  have oct: "readOctets (int ?n) ?r2 = Inr (widen c, r\<lparr>rnbit := wnbit w'\<rparr>)"
    using octets_step [OF h openHeader_mod8, of "widen c" w' ?r2 "int ?n"] assms(4) w'
    by simp
  show ?thesis
  proof (cases "?n \<le> 127")
    case True
    then have "?h = putBits ?a (word_of_nat ?n) 8" by (simp add: openHeader_def)
    with bits_step [of ?a "word_of_nat ?n" 8 w' ?r] e2 assms(1,4)
    have "getBits 8 ?r = Inr (take_bit 8 (word_of_nat ?n), ?r2)" by simp
    with al oct short_length [OF True] show ?thesis by (simp add: getOpenType_def)
  next
    case False
    let ?v = "word_of_nat ?n OR 0x8000 :: u64"
    let ?m = "putBits ?a (drop_bit 8 ?v) 8"
    have hm: "?h = putBits ?m ?v 8" using False by (simp add: openHeader_def putBits_16)
    have em: "wext ?m w'"
      by (rule wext_trans [OF wext_putBits e2 [unfolded hm]]) (simp add: assms(1))
    let ?rm = "r\<lparr>rnbit := wnbit ?m\<rparr>"
    have "getBits 8 ?r = Inr (take_bit 8 (drop_bit 8 ?v), ?rm)"
      using bits_step [of ?a "drop_bit 8 ?v" 8 w' ?r] em assms(1,4) by simp
    moreover have "getBits 8 ?rm = Inr (take_bit 8 ?v, ?r2)"
      using bits_step [of ?m ?v 8 w' ?rm] e2 hm assms(1,4) by simp
    moreover have "take_bit 8 (drop_bit 8 ?v) = drop_bit 8 (take_bit 16 ?v)"
      by (simp add: drop_bit_take_bit)
    moreover have "take_bit 8 ?v = take_bit 8 (take_bit 16 ?v)" by simp
    ultimately show ?thesis
      using al oct long_length [OF n] by (simp add: getOpenType_def)
  qed
qed

lemma openType_codec: "wire_codec getOpenType putOpenType (\<lambda>c. length c < 16384) widen"
  by (intro wire_codec.intro wire_codec_axioms.intro openType_reader)
     (auto simp: putOpenType_iff putOpenType_winv_wext getOpenType_putOpenType)

interpretation openType: wire_codec getOpenType putOpenType "\<lambda>c. length c < 16384" widen
  by (rule openType_codec)

end
