(* ===== verification/Sbcap_Pdu.thy ===== *)
theory Sbcap_Pdu
  imports Sbcap_Aper
begin

text \<open>
  \<open>internal/sbcap/pdu.go\<close>: protocol IEs and their container, the message body and the
  SBC-AP-PDU envelope. The lemmas give, for the encoders, when they succeed and how many octets
  they write, and for the decoders that they return what was encoded, whatever octets follow.
\<close>

section \<open>Operations\<close>

definition critReject :: int where "critReject = 0"
definition critIgnore :: int where "critIgnore = 1"
definition critNotify :: int where "critNotify = 2"

definition pduInitiating :: int where "pduInitiating = 0"
definition pduSuccessful :: int where "pduSuccessful = 1"
definition pduUnsuccessful :: int where "pduUnsuccessful = 2"

definition procWriteReplaceWarning :: int where "procWriteReplaceWarning = 0"
definition procStopWarning :: int where "procStopWarning = 1"
definition procErrorIndication :: int where "procErrorIndication = 2"

lemmas pdu_consts =
  critReject_def critIgnore_def critNotify_def
  pduInitiating_def pduSuccessful_def pduUnsuccessful_def
  procWriteReplaceWarning_def procStopWarning_def procErrorIndication_def

record protocolIE =
  ie_id :: int
  ie_criticality :: int
  ie_value :: "byte list"

text \<open>The bodies of the two loops over IEs.\<close>

definition putIE :: "bitWriter \<Rightarrow> protocolIE \<Rightarrow> sbcap_error + bitWriter" where
  "putIE w ie =
     andThen (putConstrainedWholeNumber w 0 65535 (ie_id ie)) (\<lambda>w.
     andThen (putConstrainedWholeNumber w 0 2 (ie_criticality ie)) (\<lambda>w.
     putOpenType w (ie_value ie)))"

definition putIEContainer :: "bitWriter \<Rightarrow> protocolIE list \<Rightarrow> sbcap_error + bitWriter" where
  "putIEContainer w ies =
     andThen (putConstrainedWholeNumber w 0 65535 (int (length ies))) (\<lambda>w. foldE putIE w ies)"

definition getIE :: "bitReader \<Rightarrow> sbcap_error + (protocolIE \<times> bitReader)" where
  "getIE r =
     andThen (getConstrainedWholeNumber 0 65535 r) (\<lambda>(i, r).
     andThen (getConstrainedWholeNumber 0 2 r) (\<lambda>(crit, r).
     andThen (getOpenType r) (\<lambda>(value, r).
     Inr (\<lparr>ie_id = i, ie_criticality = crit, ie_value = value\<rparr>, r))))"

definition getIEContainer :: "bitReader \<Rightarrow> sbcap_error + (protocolIE list \<times> bitReader)" where
  "getIEContainer r =
     andThen (getConstrainedWholeNumber 0 65535 r) (\<lambda>(count, r). repeatE getIE (nat count) r)"

text \<open>\<open>(ie, true)\<close> and \<open>(protocolIE{}, false)\<close> are \<open>Some ie\<close> and \<open>None\<close>.\<close>

fun findIE :: "protocolIE list \<Rightarrow> int \<Rightarrow> protocolIE option" where
  "findIE [] i = None"
| "findIE (ie # ies) i = (if ie_id ie = i then Some ie else findIE ies i)"

definition encodeMessageBody :: "protocolIE list \<Rightarrow> sbcap_error + byte list" where
  "encodeMessageBody ies =
     (let w = putBits newBitWriter 0 1; w = putBits w 0 1
      in andThen (putIEContainer w ies) (\<lambda>w. Inr (wbuf w)))"

text \<open>The reads of \<open>decodeMessageBody\<close> and \<open>decodePDU\<close>, with the reader they run on made explicit.\<close>

definition readMessageBody :: "bitReader \<Rightarrow> sbcap_error + (protocolIE list \<times> bitReader)" where
  "readMessageBody r =
     andThen (getBits 1 r) (\<lambda>(ext, r).
     failIf (ext \<noteq> 0) ExtensionUnsupported (
     andThen (getBits 1 r) (\<lambda>(extPresent, r).
     failIf (extPresent \<noteq> 0) OptionalUnsupported (
     getIEContainer r))))"

definition decodeMessageBody :: "byte list \<Rightarrow> sbcap_error + protocolIE list" where
  "decodeMessageBody content =
     andThen (readMessageBody (newBitReader content)) (\<lambda>(ies, _). Inr ies)"

definition encodePDU :: "int \<Rightarrow> int \<Rightarrow> int \<Rightarrow> protocolIE list \<Rightarrow> sbcap_error + byte list" where
  "encodePDU choiceIndex procedureCode criticality ies =
     andThen (encodeMessageBody ies) (\<lambda>body.
     let w = putBits newBitWriter 0 1 in
     andThen (putConstrainedWholeNumber w 0 2 choiceIndex) (\<lambda>w.
     andThen (putConstrainedWholeNumber w 0 255 procedureCode) (\<lambda>w.
     andThen (putConstrainedWholeNumber w 0 2 criticality) (\<lambda>w.
     andThen (putOpenType w body) (\<lambda>w.
     Inr (wbuf w))))))"

record decodedPDU =
  choiceIndex :: int
  procedureCode :: int
  pdu_criticality :: int
  ies :: "protocolIE list"

definition readEnvelope ::
    "bitReader \<Rightarrow> sbcap_error + ((int \<times> int \<times> int \<times> byte list) \<times> bitReader)" where
  "readEnvelope r =
     andThen (getBits 1 r) (\<lambda>(ext, r).
     failIf (ext \<noteq> 0) ExtensionUnsupported (
     andThen (getConstrainedWholeNumber 0 2 r) (\<lambda>(idx, r).
     andThen (getConstrainedWholeNumber 0 255 r) (\<lambda>(proc, r).
     andThen (getConstrainedWholeNumber 0 2 r) (\<lambda>(crit, r).
     andThen (getOpenType r) (\<lambda>(body, r).
     Inr ((idx, proc, crit, body), r)))))))"

definition decodePDU :: "byte list \<Rightarrow> sbcap_error + decodedPDU" where
  "decodePDU pdu =
     (if length pdu = 0 then Inl EmptyPDU
      else andThen (readEnvelope (newBitReader pdu)) (\<lambda>((idx, proc, crit, body), _).
           andThen (decodeMessageBody body) (\<lambda>ies.
           Inr \<lparr>choiceIndex = idx, procedureCode = proc, pdu_criticality = crit, ies = ies\<rparr>)))"

section \<open>One IE\<close>

text \<open>What comes back of an IE: its value with an empty one widened to a zero octet.\<close>

definition sentIE :: "protocolIE \<Rightarrow> protocolIE" where
  "sentIE ie = ie\<lparr>ie_value := widen (ie_value ie)\<rparr>"

definition okIE :: "protocolIE \<Rightarrow> bool" where
  "okIE ie \<longleftrightarrow> 0 \<le> ie_id ie \<and> ie_id ie \<le> 65535 \<and>
     0 \<le> ie_criticality ie \<and> ie_criticality ie \<le> 2 \<and> length (ie_value ie) < 16384"

text \<open>Octets on the wire: two of identifier, one of criticality, the length and the value.\<close>

definition openTypeOctets :: "nat \<Rightarrow> nat" where
  "openTypeOctets n = (let n = max 1 n in (if n \<le> 127 then 1 else 2) + n)"

definition ieOctets :: "protocolIE \<Rightarrow> nat" where
  "ieOctets ie = 3 + openTypeOctets (length (ie_value ie))"

lemma sentIE_sel [simp]:
  "ie_id (sentIE ie) = ie_id ie" "ie_criticality (sentIE ie) = ie_criticality ie"
  "ie_value (sentIE ie) = widen (ie_value ie)"
  by (simp_all add: sentIE_def)

lemma length_widen: "length (widen c) = max 1 (length c)"
  by (cases c) (simp_all add: widen_def)

lemma putIE_Inr: "putIE w ie = Inr w' \<longleftrightarrow>
    (\<exists>w1 w2. putConstrainedWholeNumber w 0 65535 (ie_id ie) = Inr w1 \<and>
      putConstrainedWholeNumber w1 0 2 (ie_criticality ie) = Inr w2 \<and>
      putOpenType w2 (ie_value ie) = Inr w')"
  by (auto simp: putIE_def andThen_eq_Inr)

lemma putIE_iff: "(\<exists>w'. putIE w ie = Inr w') \<longleftrightarrow> okIE ie"
proof -
  have a: "(\<exists>w1. putConstrainedWholeNumber w 0 65535 (ie_id ie) = Inr w1) \<longleftrightarrow>
      0 \<le> ie_id ie \<and> ie_id ie \<le> 65535" by (simp add: putCWN_iff)
  have b: "(\<exists>w2. putConstrainedWholeNumber w1 0 2 (ie_criticality ie) = Inr w2) \<longleftrightarrow>
      0 \<le> ie_criticality ie \<and> ie_criticality ie \<le> 2" for w1 by (simp add: putCWN_iff)
  from a b putOpenType_iff show ?thesis unfolding putIE_Inr okIE_def by blast
qed

lemma putIE_winv_wext:
  assumes "winv w" "putIE w ie = Inr w'"
  shows "winv w'" and "wext w w'"
proof -
  from assms(2) obtain w1 w2 where s: "putConstrainedWholeNumber w 0 65535 (ie_id ie) = Inr w1"
    "putConstrainedWholeNumber w1 0 2 (ie_criticality ie) = Inr w2"
    "putOpenType w2 (ie_value ie) = Inr w'" by (auto simp: putIE_Inr)
  note i1 = num16.put_winv [OF assms(1) s(1)] num16.put_wext [OF assms(1) s(1)]
  note i2 = num3.put_winv [OF i1(1) s(2)] num3.put_wext [OF i1(1) s(2)]
  note i3 = openType.put_winv [OF i2(1) s(3)] openType.put_wext [OF i2(1) s(3)]
  show "winv w'" by (rule i3)
  show "wext w w'" using i1(2) i2(2) i3(2) by (blast intro: wext_trans)
qed

lemma getIE_putIE:
  assumes "winv w" "putIE w ie = Inr w'" "rnbit r = wnbit w" "carries r w'"
  shows "getIE r = Inr (sentIE ie, r\<lparr>rnbit := wnbit w'\<rparr>)"
proof -
  from assms(2) obtain w1 w2 where s: "putConstrainedWholeNumber w 0 65535 (ie_id ie) = Inr w1"
    "putConstrainedWholeNumber w1 0 2 (ie_criticality ie) = Inr w2"
    "putOpenType w2 (ie_value ie) = Inr w'" by (auto simp: putIE_Inr)
  have i1: "winv w1" by (rule num16.put_winv [OF assms(1) s(1)])
  have i2: "winv w2" by (rule num3.put_winv [OF i1 s(2)])
  have e2: "wext w2 w'" by (rule openType.put_wext [OF i2 s(3)])
  have e1: "wext w1 w'" by (rule wext_trans [OF num3.put_wext [OF i1 s(2)] e2])
  note num16.step [OF assms(1) s(1) e1 assms(4,3)]
  moreover note num3.step [OF i1 s(2) e2, of "r\<lparr>rnbit := wnbit w1\<rparr>"]
  moreover note openType.step [OF i2 s(3) wext_refl, of "r\<lparr>rnbit := wnbit w2\<rparr>"]
  ultimately show ?thesis using assms(4) by (simp add: getIE_def sentIE_def)
qed

lemma getIE_reader [reader_intros]: "wire_reader getIE"
  unfolding getIE_def by (intro reader_intros)

interpretation ie: wire_codec getIE putIE okIE sentIE
  by (intro wire_codec.intro wire_codec_axioms.intro getIE_reader)
     (auto simp: putIE_iff putIE_winv_wext getIE_putIE)

section \<open>The container and the message body\<close>

lemma putIEContainer_Inr: "putIEContainer w is = Inr w' \<longleftrightarrow>
    (\<exists>w1. putConstrainedWholeNumber w 0 65535 (int (length is)) = Inr w1 \<and>
      foldE putIE w1 is = Inr w')"
  by (auto simp: putIEContainer_def andThen_eq_Inr)

lemma getIEContainer_reader [reader_intros]: "wire_reader getIEContainer"
  unfolding getIEContainer_def by (intro reader_intros)

lemma container_codec:
  "wire_codec getIEContainer putIEContainer
     (\<lambda>is. length is \<le> 65535 \<and> (\<forall>i \<in> set is. okIE i)) (map sentIE)"
proof (intro wire_codec.intro wire_codec_axioms.intro getIEContainer_reader)
  fix w w' :: bitWriter and r and "is" :: "protocolIE list"
  assume w: "winv w"
  have count: "(\<exists>w1. putConstrainedWholeNumber w 0 65535 (int (length is)) = Inr w1) \<longleftrightarrow>
      length is \<le> 65535" by (simp add: putCWN_iff)
  show "(\<exists>w'. putIEContainer w is = Inr w') \<longleftrightarrow> length is \<le> 65535 \<and> (\<forall>i \<in> set is. okIE i)"
    using count num16.put_winv [OF w] ie.fold_iff unfolding putIEContainer_Inr by blast
  assume "putIEContainer w is = Inr w'"
  then obtain w1 where s: "putConstrainedWholeNumber w 0 65535 (int (length is)) = Inr w1"
    "foldE putIE w1 is = Inr w'" by (auto simp: putIEContainer_Inr)
  have i1: "winv w1" by (rule num16.put_winv [OF w s(1)])
  have i2: "winv w'" "wext w1 w'" using ie.fold_winv_wext [OF i1 s(2)] by simp_all
  show "winv w'" by (rule i2)
  show "wext w w'" by (rule wext_trans [OF num16.put_wext [OF w s(1)] i2(2)])
  assume r: "rnbit r = wnbit w" "carries r w'"
  note num16.step [OF w s(1) i2(2) r(2,1)]
  moreover note ie.repeat_fold [OF i1 s(2), of "r\<lparr>rnbit := wnbit w1\<rparr>"]
  ultimately show "getIEContainer r = Inr (map sentIE is, r\<lparr>rnbit := wnbit w'\<rparr>)"
    using r(2) by (simp add: getIEContainer_def)
qed

interpretation container: wire_codec getIEContainer putIEContainer
    "\<lambda>is. length is \<le> 65535 \<and> (\<forall>i \<in> set is. okIE i)" "map sentIE"
  by (rule container_codec)

text \<open>The writer after the two preamble bits.\<close>

definition bodyStart :: bitWriter where
  "bodyStart = putBits (putBits newBitWriter 0 1) 0 1"

lemma bodyStart_winv [simp]: "winv bodyStart"
  by (simp add: bodyStart_def)

lemma bodyStart_wnbit [simp]: "wnbit bodyStart = 2"
  by (simp add: bodyStart_def newBitWriter_def)

lemma encodeMessageBody_Inr: "encodeMessageBody is = Inr b \<longleftrightarrow>
    (\<exists>w. putIEContainer bodyStart is = Inr w \<and> b = wbuf w)"
  by (auto simp: encodeMessageBody_def andThen_eq_Inr bodyStart_def)

lemma encodeMessageBody_iff:
  "(\<exists>b. encodeMessageBody is = Inr b) \<longleftrightarrow> length is \<le> 65535 \<and> (\<forall>i \<in> set is. okIE i)"
  using container.put_iff [OF bodyStart_winv, of "is"] by (auto simp: encodeMessageBody_Inr)

lemma readMessageBody_reader [reader_intros]: "wire_reader readMessageBody"
  unfolding readMessageBody_def by (intro reader_intros)

lemma readMessageBody_encode:
  assumes "putIEContainer bodyStart is = Inr w" "rnbit r = 0" "carries r w"
  shows "readMessageBody r = Inr (map sentIE is, r\<lparr>rnbit := wnbit w\<rparr>)"
proof -
  let ?w1 = "putBits newBitWriter 0 1"
  have e2: "wext bodyStart w" by (rule container.put_wext [OF bodyStart_winv assms(1)])
  have e1: "wext ?w1 w"
    by (rule wext_trans [OF _ e2]) (simp add: bodyStart_def)
  have n: "wnbit newBitWriter = 0" by (simp add: newBitWriter_def)
  note preamble.step [OF winv_new refl e1 assms(3)]
  moreover note preamble.step [OF _ refl e2 [unfolded bodyStart_def], of "r\<lparr>rnbit := wnbit ?w1\<rparr>"]
  moreover note container.step [OF bodyStart_winv assms(1) wext_refl, of "r\<lparr>rnbit := wnbit bodyStart\<rparr>"]
  ultimately show ?thesis using assms(2,3) n by (simp add: readMessageBody_def numeral_2_eq_2)
qed

theorem decodeMessageBody_encode:
  assumes "encodeMessageBody is = Inr b"
  shows "decodeMessageBody (b @ junk) = Inr (map sentIE is)"
proof -
  from assms obtain w where w: "putIEContainer bodyStart is = Inr w" "b = wbuf w"
    by (auto simp: encodeMessageBody_Inr)
  have "winv w" by (rule container.put_winv [OF bodyStart_winv w(1)])
  then have "carries (newBitReader (b @ junk)) w" using w(2) by (simp add: carries_prefix)
  from readMessageBody_encode [OF w(1) _ this] show ?thesis
    by (simp add: decodeMessageBody_def)
qed

section \<open>Octet counts\<close>

lemma putCWN16_wnbit:
  "putConstrainedWholeNumber w 0 65535 x = Inr w' \<Longrightarrow> wnbit w' = wnbit (alignW w) + 16"
  by (auto simp: putConstrainedWholeNumber_def split: if_splits)

lemma putCWN8_wnbit:
  "putConstrainedWholeNumber w 0 255 x = Inr w' \<Longrightarrow> wnbit w' = wnbit (alignW w) + 8"
  by (auto simp: putConstrainedWholeNumber_def split: if_splits)

lemma putCWN3_wnbit:
  "putConstrainedWholeNumber w 0 2 x = Inr w' \<Longrightarrow> wnbit w' = wnbit w + 2"
  by (auto simp: putConstrainedWholeNumber_def bitsFor_3 split: if_splits)

lemma putOpenType_octets:
  assumes "putOpenType w c = Inr w'"
  shows "wnbit w' = wnbit (alignW w) + 8 * openTypeOctets (length c)"
  using assms by (auto simp: putOpenType_Inr openHeader_wnbit openTypeOctets_def length_widen Let_def)

lemma putIE_octets:
  assumes "putIE w ie = Inr w'" "wnbit w mod 8 = 0"
  shows "wnbit w' = wnbit w + 8 * ieOctets ie" and "wnbit w' mod 8 = 0"
proof -
  from assms(1) obtain w1 w2 where s: "putConstrainedWholeNumber w 0 65535 (ie_id ie) = Inr w1"
    "putConstrainedWholeNumber w1 0 2 (ie_criticality ie) = Inr w2"
    "putOpenType w2 (ie_value ie) = Inr w'" by (auto simp: putIE_Inr)
  obtain q where q: "wnbit w = 8 * q" using assms(2) by auto
  have "wnbit w2 = 8 * (q + 2) + 2"
    using putCWN16_wnbit [OF s(1)] putCWN3_wnbit [OF s(2)] assms(2) q by simp
  then have "wnbit (alignW w2) = 8 * (q + 3)" by (simp add: wnbit_alignW)
  with putOpenType_octets [OF s(3)] q
  show "wnbit w' = wnbit w + 8 * ieOctets ie" by (simp add: ieOctets_def)
  with assms(2) show "wnbit w' mod 8 = 0" by simp
qed

lemma foldIE_octets:
  "foldE putIE w is = Inr w' \<Longrightarrow> wnbit w mod 8 = 0 \<Longrightarrow>
   wnbit w' = wnbit w + 8 * sum_list (map ieOctets is)"
proof (induction "is" arbitrary: w)
  case Nil
  then show ?case by simp
next
  case (Cons i "is")
  from Cons.prems(1) obtain v where v: "putIE w i = Inr v" "foldE putIE v is = Inr w'"
    by (auto simp: andThen_eq_Inr)
  with putIE_octets [OF v(1) Cons.prems(2)] Cons.IH [OF v(2)] show ?case by simp
qed

theorem encodeMessageBody_length:
  assumes "encodeMessageBody is = Inr b"
  shows "length b = 3 + sum_list (map ieOctets is)"
proof -
  from assms obtain w1 w where
    s: "putConstrainedWholeNumber bodyStart 0 65535 (int (length is)) = Inr w1"
      "foldE putIE w1 is = Inr w" and b: "b = wbuf w"
    by (auto simp: encodeMessageBody_Inr putIEContainer_Inr)
  have n1: "wnbit w1 = 24" using putCWN16_wnbit [OF s(1)] by (simp add: wnbit_alignW)
  have "winv w1" by (rule num16.put_winv [OF bodyStart_winv s(1)])
  then have "winv w" using ie.fold_winv_wext [OF _ s(2)] by simp
  from winv_length [OF this] foldIE_octets [OF s(2)] n1 b show ?thesis by simp
qed

section \<open>The envelope\<close>

definition okPDU :: "int \<Rightarrow> int \<Rightarrow> int \<Rightarrow> protocolIE list \<Rightarrow> bool" where
  "okPDU ci pc cr is \<longleftrightarrow> 0 \<le> ci \<and> ci \<le> 2 \<and> 0 \<le> pc \<and> pc \<le> 255 \<and> 0 \<le> cr \<and> cr \<le> 2 \<and>
     length is \<le> 65535 \<and> (\<forall>i \<in> set is. okIE i) \<and> 3 + sum_list (map ieOctets is) < 16384"

lemma encodePDU_Inr: "encodePDU ci pc cr is = Inr p \<longleftrightarrow>
    (\<exists>b w1 w2 w3 w4. encodeMessageBody is = Inr b \<and>
      putConstrainedWholeNumber (putBits newBitWriter 0 1) 0 2 ci = Inr w1 \<and>
      putConstrainedWholeNumber w1 0 255 pc = Inr w2 \<and>
      putConstrainedWholeNumber w2 0 2 cr = Inr w3 \<and>
      putOpenType w3 b = Inr w4 \<and> p = wbuf w4)"
  by (auto simp: encodePDU_def andThen_eq_Inr)

lemma encodePDU_success: "(\<exists>p. encodePDU ci pc cr is = Inr p) \<longleftrightarrow> okPDU ci pc cr is"
proof -
  have b: "(\<exists>b. encodeMessageBody is = Inr b \<and> length b < 16384) \<longleftrightarrow>
      length is \<le> 65535 \<and> (\<forall>i \<in> set is. okIE i) \<and> 3 + sum_list (map ieOctets is) < 16384"
    using encodeMessageBody_iff [of "is"] encodeMessageBody_length [of "is"] by auto
  have c3: "(\<exists>w'. putConstrainedWholeNumber w 0 2 x = Inr w') \<longleftrightarrow> 0 \<le> x \<and> x \<le> 2" for w x
    by (simp add: putCWN_iff)
  have c8: "(\<exists>w'. putConstrainedWholeNumber w 0 255 x = Inr w') \<longleftrightarrow> 0 \<le> x \<and> x \<le> 255" for w x
    by (simp add: putCWN_iff)
  show ?thesis
  proof
    assume "\<exists>p. encodePDU ci pc cr is = Inr p"
    then obtain b w1 w2 w3 w4 where s: "encodeMessageBody is = Inr b"
      "putConstrainedWholeNumber (putBits newBitWriter 0 1) 0 2 ci = Inr w1"
      "putConstrainedWholeNumber w1 0 255 pc = Inr w2"
      "putConstrainedWholeNumber w2 0 2 cr = Inr w3" "putOpenType w3 b = Inr w4"
      unfolding encodePDU_Inr by blast
    have "0 \<le> ci \<and> ci \<le> 2" using s(2) c3 by blast
    moreover have "0 \<le> pc \<and> pc \<le> 255" using s(3) c8 by blast
    moreover have "0 \<le> cr \<and> cr \<le> 2" using s(4) c3 by blast
    moreover have "length b < 16384" using s(5) putOpenType_iff by blast
    ultimately show "okPDU ci pc cr is" using b s(1) unfolding okPDU_def by blast
  next
    assume ok: "okPDU ci pc cr is"
    with b obtain b where "encodeMessageBody is = Inr b" "length b < 16384"
      unfolding okPDU_def by blast
    moreover obtain w1 where "putConstrainedWholeNumber (putBits newBitWriter 0 1) 0 2 ci = Inr w1"
      using ok c3 unfolding okPDU_def by blast
    moreover obtain w2 where "putConstrainedWholeNumber w1 0 255 pc = Inr w2"
      using ok c8 unfolding okPDU_def by blast
    moreover obtain w3 where "putConstrainedWholeNumber w2 0 2 cr = Inr w3"
      using ok c3 unfolding okPDU_def by blast
    moreover obtain w4 where "putOpenType w3 b = Inr w4"
      using \<open>length b < 16384\<close> putOpenType_iff by blast
    ultimately show "\<exists>p. encodePDU ci pc cr is = Inr p" unfolding encodePDU_Inr by blast
  qed
qed

lemma readEnvelope_reader [reader_intros]: "wire_reader readEnvelope"
  unfolding readEnvelope_def by (intro reader_intros)

lemma envelope_written:
  assumes "encodePDU ci pc cr is = Inr p"
  obtains b w where "encodeMessageBody is = Inr b" "winv w" "p = wbuf w" "b \<noteq> []"
    "wnbit w = 8 * (3 + openTypeOctets (length b))"
    "\<And>r. rnbit r = 0 \<Longrightarrow> carries r w \<Longrightarrow> readEnvelope r = Inr ((ci, pc, cr, b), r\<lparr>rnbit := wnbit w\<rparr>)"
proof -
  let ?w0 = "putBits newBitWriter 0 1"
  from assms obtain b w1 w2 w3 w where b: "encodeMessageBody is = Inr b"
    and s: "putConstrainedWholeNumber ?w0 0 2 ci = Inr w1"
      "putConstrainedWholeNumber w1 0 255 pc = Inr w2"
      "putConstrainedWholeNumber w2 0 2 cr = Inr w3" "putOpenType w3 b = Inr w"
    and p: "p = wbuf w" by (auto simp: encodePDU_Inr)
  have nb: "b \<noteq> []" using encodeMessageBody_length [OF b] by auto
  have n0: "wnbit newBitWriter = 0" by (simp add: newBitWriter_def)
  have i0: "winv ?w0" by simp
  have i1: "winv w1" by (rule num3.put_winv [OF i0 s(1)])
  have i2: "winv w2" by (rule num8.put_winv [OF i1 s(2)])
  have i3: "winv w3" by (rule num3.put_winv [OF i2 s(3)])
  have e3: "wext w3 w" by (rule openType.put_wext [OF i3 s(4)])
  have e2: "wext w2 w" by (rule wext_trans [OF num3.put_wext [OF i2 s(3)] e3])
  have e1: "wext w1 w" by (rule wext_trans [OF num8.put_wext [OF i1 s(2)] e2])
  have e0: "wext ?w0 w" by (rule wext_trans [OF num3.put_wext [OF i0 s(1)] e1])
  have "wnbit w1 = 3" using putCWN3_wnbit [OF s(1)] n0 by simp
  then have "wnbit w2 = 16" using putCWN8_wnbit [OF s(2)] by (simp add: wnbit_alignW)
  then have "wnbit w3 = 18" using putCWN3_wnbit [OF s(3)] by simp
  then have n: "wnbit w = 8 * (3 + openTypeOctets (length b))"
    using putOpenType_octets [OF s(4)] by (simp add: wnbit_alignW)
  have rd: "readEnvelope r = Inr ((ci, pc, cr, b), r\<lparr>rnbit := wnbit w\<rparr>)"
    if r: "rnbit r = 0" "carries r w" for r
  proof -
    note preamble.step [OF winv_new refl e0 r(2)]
    moreover note num3.step [OF i0 s(1) e1, of "r\<lparr>rnbit := wnbit ?w0\<rparr>"]
    moreover note num8.step [OF i1 s(2) e2, of "r\<lparr>rnbit := wnbit w1\<rparr>"]
    moreover note num3.step [OF i2 s(3) e3, of "r\<lparr>rnbit := wnbit w2\<rparr>"]
    moreover note openType.step [OF i3 s(4) wext_refl, of "r\<lparr>rnbit := wnbit w3\<rparr>"]
    ultimately show ?thesis using r n0 nb by (simp add: readEnvelope_def)
  qed
  show ?thesis
    by (rule that [OF b openType.put_winv [OF i3 s(4)] p nb n rd])
qed

text \<open>Decoding returns what was encoded, whatever octets follow the PDU.\<close>

theorem decode_encode:
  assumes "encodePDU ci pc cr is = Inr p"
  shows "decodePDU (p @ junk) =
    Inr \<lparr>choiceIndex = ci, procedureCode = pc, pdu_criticality = cr, ies = map sentIE is\<rparr>"
proof -
  obtain b w where e: "encodeMessageBody is = Inr b" "winv w" "p = wbuf w"
    "wnbit w = 8 * (3 + openTypeOctets (length b))"
    and rd: "\<And>r. rnbit r = 0 \<Longrightarrow> carries r w \<Longrightarrow>
      readEnvelope r = Inr ((ci, pc, cr, b), r\<lparr>rnbit := wnbit w\<rparr>)"
    by (rule envelope_written [OF assms]) blast
  have "readEnvelope (newBitReader (p @ junk)) =
      Inr ((ci, pc, cr, b), newBitReader (p @ junk)\<lparr>rnbit := wnbit w\<rparr>)"
    using e(2,3) by (intro rd) (simp_all add: carries_prefix)
  moreover have "p \<noteq> []" using winv_length [OF e(2)] e(3,4) by auto
  moreover have "decodeMessageBody b = Inr (map sentIE is)"
    using decodeMessageBody_encode [OF e(1), of "[]"] by simp
  ultimately show ?thesis by (simp add: decodePDU_def)
qed

theorem encodePDU_length:
  assumes "encodePDU ci pc cr is = Inr p"
  shows "length p = 3 + openTypeOctets (3 + sum_list (map ieOctets is))"
  using envelope_written [OF assms] winv_length encodeMessageBody_length
  by (metis add.commute ceil8_mult)

text \<open>A PDU that decodes still decodes, to the same result, with any octets after it.\<close>

theorem decodePDU_ignores_trailing:
  assumes "decodePDU pdu = Inr d"
  shows "decodePDU (pdu @ junk) = Inr d"
proof -
  from assms obtain x r' where x: "readEnvelope (newBitReader pdu) = Inr (x, r')"
    by (auto simp: decodePDU_def andThen_eq_Inr split: if_splits)
  have "readEnvelope (newBitReader (pdu @ junk)) = Inr (x, withJunk r' junk)"
    unfolding withJunk_new
    by (rule wire_reader.get_stable [OF readEnvelope_reader x]) simp
  with assms x show ?thesis by (cases x) (auto simp: decodePDU_def split: if_splits)
qed

end
