(* ===== verification/Sbcap_Ies.thy ===== *)
theory Sbcap_Ies
  imports Sbcap_Pdu
begin

text \<open>
  \<open>internal/sbcap/ies.go\<close>: the values of the individual IEs, among them the E-UTRAN CGI, the
  TAI and the Warning-Area-List. CGI and TAI are wire codecs for every PLMN, so the list loops
  round-trip by the lemmas of that interface.
\<close>

section \<open>Operations\<close>

definition idCause :: int where "idCause = 1"
definition idDataCodingScheme :: int where "idDataCodingScheme = 3"
definition idMessageIdentifier :: int where "idMessageIdentifier = 5"
definition idNumberOfBroadcastsRequested :: int where "idNumberOfBroadcastsRequested = 7"
definition idRepetitionPeriod :: int where "idRepetitionPeriod = 10"
definition idSerialNumber :: int where "idSerialNumber = 11"
definition idWarningAreaList :: int where "idWarningAreaList = 15"
definition idWarningMessageContent :: int where "idWarningMessageContent = 16"
definition idConcurrentWarningMessageIndicator :: int where
  "idConcurrentWarningMessageIndicator = 20"
definition idSendWriteReplaceWarningIndication :: int where
  "idSendWriteReplaceWarningIndication = 24"

lemmas ie_ids = idCause_def idDataCodingScheme_def idMessageIdentifier_def
  idNumberOfBroadcastsRequested_def idRepetitionPeriod_def idSerialNumber_def
  idWarningAreaList_def idWarningMessageContent_def idConcurrentWarningMessageIndicator_def
  idSendWriteReplaceWarningIndication_def

definition encode16 :: "u16 \<Rightarrow> byte list" where
  "encode16 v = [ucast (drop_bit 8 v), ucast v]"

definition decode16 :: "byte list \<Rightarrow> sbcap_error + u16" where
  "decode16 b =
     (if length b \<noteq> 2 then Inl (BadFixedLength 2 (length b))
      else Inr (push_bit 8 (ucast (b ! 0)) OR ucast (b ! 1)))"

definition encode8 :: "byte \<Rightarrow> byte list" where
  "encode8 v = [v]"

definition decode8 :: "byte list \<Rightarrow> sbcap_error + byte" where
  "decode8 b = (if length b \<noteq> 1 then Inl (BadFixedLength 1 (length b)) else Inr (b ! 0))"

definition encodeConstrainedInt :: "int \<Rightarrow> int \<Rightarrow> int \<Rightarrow> sbcap_error + byte list" where
  "encodeConstrainedInt lb ub value =
     andThen (putConstrainedWholeNumber newBitWriter lb ub value) (\<lambda>w. Inr (wbuf w))"

definition decodeConstrainedInt :: "byte list \<Rightarrow> int \<Rightarrow> int \<Rightarrow> sbcap_error + int" where
  "decodeConstrainedInt content lb ub =
     andThen (getConstrainedWholeNumber lb ub (newBitReader content)) (\<lambda>(v, _). Inr v)"

definition encodeWarningMessageContent :: "byte list \<Rightarrow> sbcap_error + byte list" where
  "encodeWarningMessageContent data =
     andThen (putConstrainedWholeNumber newBitWriter 1 9600 (int (length data))) (\<lambda>w.
     Inr (wbuf (putOctets (alignW w) data)))"

definition decodeWarningMessageContent :: "byte list \<Rightarrow> sbcap_error + byte list" where
  "decodeWarningMessageContent content =
     andThen (getConstrainedWholeNumber 1 9600 (newBitReader content)) (\<lambda>(n, r).
     andThen (alignR r) (\<lambda>r.
     andThen (readOctets n r) (\<lambda>(b, _). Inr b)))"

definition encodeEUTRANCGI :: "bitWriter \<Rightarrow> byte list \<Rightarrow> u32 \<Rightarrow> sbcap_error + bitWriter" where
  "encodeEUTRANCGI w plmn eci =
     failIf (length plmn \<noteq> 3) BadPLMNLength (
     failIf (eci > 0x0fffffff) (ECIOutOfRange eci) (
     let w = putBits w 0 1;
         w = putBits w 0 1;
         w = alignW w;
         w = putOctets w plmn;
         w = alignW w
     in Inr (putBits w (ucast eci) 28)))"

definition decodeEUTRANCGI :: "bitReader \<Rightarrow> sbcap_error + ((byte list \<times> u32) \<times> bitReader)" where
  "decodeEUTRANCGI r =
     andThen (getBits 1 r) (\<lambda>(ext, r).
     failIf (ext \<noteq> 0) ExtensionUnsupported (
     andThen (getBits 1 r) (\<lambda>(optExt, r).
     failIf (optExt \<noteq> 0) OptionalUnsupported (
     andThen (alignR r) (\<lambda>r.
     andThen (readOctets 3 r) (\<lambda>(plmn, r).
     andThen (alignR r) (\<lambda>r.
     andThen (getBits 28 r) (\<lambda>(v, r).
     Inr ((plmn, ucast v), r)))))))))"

definition encodeTAI :: "bitWriter \<Rightarrow> byte list \<Rightarrow> u16 \<Rightarrow> sbcap_error + bitWriter" where
  "encodeTAI w plmn tac =
     failIf (length plmn \<noteq> 3) BadPLMNLength (
     let w = putBits w 0 1;
         w = alignW w;
         w = putOctets w plmn
     in Inr (putBits w (ucast tac) 16))"

definition decodeTAI :: "bitReader \<Rightarrow> sbcap_error + ((byte list \<times> u16) \<times> bitReader)" where
  "decodeTAI r =
     andThen (getBits 1 r) (\<lambda>(optExt, r).
     failIf (optExt \<noteq> 0) OptionalUnsupported (
     andThen (alignR r) (\<lambda>r.
     andThen (readOctets 3 r) (\<lambda>(plmn, r).
     andThen (getBits 16 r) (\<lambda>(v, r).
     Inr ((plmn, ucast v), r))))))"

definition warningAreaCellIDList :: int where "warningAreaCellIDList = 0"
definition warningAreaTrackingAreas :: int where "warningAreaTrackingAreas = 1"

definition encodeWarningAreaListCells :: "byte list \<Rightarrow> u32 list \<Rightarrow> sbcap_error + byte list" where
  "encodeWarningAreaListCells plmn ecis =
     (let w = putBits newBitWriter 0 1 in
      andThen (putConstrainedWholeNumber w 0 2 warningAreaCellIDList) (\<lambda>w.
      andThen (putConstrainedWholeNumber w 1 65535 (int (length ecis))) (\<lambda>w.
      andThen (foldE (\<lambda>w eci. encodeEUTRANCGI w plmn eci) w ecis) (\<lambda>w.
      Inr (wbuf w)))))"

definition encodeWarningAreaListTAIs :: "byte list \<Rightarrow> u16 list \<Rightarrow> sbcap_error + byte list" where
  "encodeWarningAreaListTAIs plmn tacs =
     (let w = putBits newBitWriter 0 1 in
      andThen (putConstrainedWholeNumber w 0 2 warningAreaTrackingAreas) (\<lambda>w.
      andThen (putConstrainedWholeNumber w 1 65535 (int (length tacs))) (\<lambda>w.
      andThen (foldE (\<lambda>w tac. encodeTAI w plmn tac) w tacs) (\<lambda>w.
      Inr (wbuf w)))))"

record warningArea =
  isCellList :: bool
  wa_plmn :: "byte list"
  wa_ecis :: "u32 list"
  wa_tacs :: "u16 list"

text \<open>The loop assigns \<open>wa.plmn\<close> in every round: the PLMN of the last entry stays.\<close>

definition lastPLMN :: "(byte list \<times> 'a) list \<Rightarrow> byte list" where
  "lastPLMN xs = foldl (\<lambda>_ x. fst x) [] xs"

definition decodeWarningAreaList :: "byte list \<Rightarrow> sbcap_error + warningArea" where
  "decodeWarningAreaList content =
     andThen (getBits 1 (newBitReader content)) (\<lambda>(ext, r).
     failIf (ext \<noteq> 0) ExtensionUnsupported (
     andThen (getConstrainedWholeNumber 0 2 r) (\<lambda>(idx, r).
     if idx = warningAreaCellIDList then
       andThen (getConstrainedWholeNumber 1 65535 r) (\<lambda>(count, r).
       andThen (repeatE decodeEUTRANCGI (nat count) r) (\<lambda>(xs, _).
       Inr \<lparr>isCellList = True, wa_plmn = lastPLMN xs, wa_ecis = map snd xs, wa_tacs = []\<rparr>))
     else if idx = warningAreaTrackingAreas then
       andThen (getConstrainedWholeNumber 1 65535 r) (\<lambda>(count, r).
       andThen (repeatE decodeTAI (nat count) r) (\<lambda>(xs, _).
       Inr \<lparr>isCellList = False, wa_plmn = lastPLMN xs, wa_ecis = [], wa_tacs = map snd xs\<rparr>))
     else Inl (UnsupportedAlternative idx))))"

section \<open>Fixed-size values\<close>

lemma decode16_encode16 [simp]: "decode16 (encode16 v) = Inr v"
proof -
  have "push_bit 8 (ucast (ucast (drop_bit 8 v) :: byte)) OR ucast (ucast v :: byte) = v"
    by (rule bit_word_eqI) (auto simp: bit_simps)
  then show ?thesis by (simp add: decode16_def encode16_def)
qed

lemma length_encode [simp]: "length (encode16 v) = 2" "length (encode8 c) = 1"
  "encode16 v \<noteq> []" "encode8 c \<noteq> []"
  by (simp_all add: encode16_def encode8_def)

lemma decode8_encode8 [simp]: "decode8 (encode8 v) = Inr v"
  by (simp add: decode8_def encode8_def)

lemma decode16_iff: "(\<exists>v. decode16 b = Inr v) \<longleftrightarrow> length b = 2"
  by (simp add: decode16_def)

section \<open>Integers and the message content\<close>

lemma encodeConstrainedInt_iff:
  "(\<exists>b. encodeConstrainedInt lb ub x = Inr b) \<longleftrightarrow> lb \<le> x \<and> x \<le> ub \<and> ub - lb < 65536"
  using putCWN_iff [of newBitWriter lb ub x] by (auto simp: encodeConstrainedInt_def andThen_eq_Inr)

lemma decodeConstrainedInt_encode:
  assumes "encodeConstrainedInt lb ub x = Inr b"
  shows "decodeConstrainedInt (b @ junk) lb ub = Inr x"
proof -
  from assms obtain w where w: "putConstrainedWholeNumber newBitWriter lb ub x = Inr w" "b = wbuf w"
    by (auto simp: encodeConstrainedInt_def andThen_eq_Inr)
  have "winv w" using putCWN_winv_wext [OF winv_new w(1)] by simp
  then have "carries (newBitReader (b @ junk)) w" using w(2) by (simp add: carries_prefix)
  from getCWN_putCWN [OF winv_new w(1) _ this]
  show ?thesis by (simp add: decodeConstrainedInt_def newBitWriter_def)
qed

lemma encodeConstrainedInt_length:
  assumes "encodeConstrainedInt lb ub x = Inr b" "ub - lb \<ge> 255"
  shows "length b = (if ub - lb = 255 then 1 else 2)"
proof -
  from assms obtain w where w: "putConstrainedWholeNumber newBitWriter lb ub x = Inr w" "b = wbuf w"
    by (auto simp: encodeConstrainedInt_def andThen_eq_Inr)
  have "winv w" using putCWN_winv_wext [OF winv_new w(1)] by simp
  moreover have "wnbit w = (if ub - lb = 255 then 8 else 16)"
    using w(1) assms(2)
    by (auto simp: putConstrainedWholeNumber_def newBitWriter_def alignW_def Let_def split: if_splits)
  ultimately show ?thesis using w(2) by (simp add: winv_length split: if_splits)
qed

lemma contentLength_written:
  assumes "putConstrainedWholeNumber newBitWriter 1 9600 x = Inr w"
  shows "winv w" "wnbit w = 16"
  using assms putCWN_winv_wext [OF winv_new assms]
  by (auto simp: putConstrainedWholeNumber_def newBitWriter_def alignW_def Let_def split: if_splits)

lemma encodeWarningMessageContent_Inr:
  "encodeWarningMessageContent data = Inr b \<longleftrightarrow>
     (\<exists>w. putConstrainedWholeNumber newBitWriter 1 9600 (int (length data)) = Inr w \<and>
       b = wbuf (putOctets w data))"
  by (auto simp: encodeWarningMessageContent_def andThen_eq_Inr contentLength_written)

lemma encodeWarningMessageContent_iff:
  "(\<exists>b. encodeWarningMessageContent data = Inr b) \<longleftrightarrow> 1 \<le> length data \<and> length data \<le> 9600"
  using putCWN_iff [of newBitWriter 1 9600 "int (length data)"]
  by (auto simp: encodeWarningMessageContent_Inr)

lemma encodeWarningMessageContent_length:
  assumes "encodeWarningMessageContent data = Inr b"
  shows "length b = 2 + length data"
  using assms contentLength_written winv_length
  by (fastforce simp: encodeWarningMessageContent_Inr putOctets_def)

theorem decodeWarningMessageContent_encode:
  assumes "encodeWarningMessageContent data = Inr b"
  shows "decodeWarningMessageContent (b @ junk) = Inr data"
proof -
  from assms obtain w where
    w: "putConstrainedWholeNumber newBitWriter 1 9600 (int (length data)) = Inr w"
    and b: "b = wbuf (putOctets w data)" by (auto simp: encodeWarningMessageContent_Inr)
  note i = contentLength_written [OF w]
  have m: "wnbit w mod 8 = 0" by (simp add: i)
  have c: "carries (newBitReader (b @ junk)) (putOctets w data)"
    unfolding b by (intro carries_prefix winv_putOctets i m)
  let ?r = "newBitReader (b @ junk)"
  have n: "wnbit newBitWriter = 0" by (simp add: newBitWriter_def)
  have "carries ?r w" by (rule carries_wext [OF c wext_putOctets [OF i(1) m]])
  note getCWN_putCWN [OF winv_new w _ this]
  moreover have "alignR (?r\<lparr>rnbit := wnbit w\<rparr>) = Inr (?r\<lparr>rnbit := wnbit w\<rparr>)"
    by (simp add: alignR_def i)
  moreover note octets_step [OF i(1) m wext_refl, where b = data and r = "?r\<lparr>rnbit := wnbit w\<rparr>"
      and n = "int (length data)"]
  ultimately show ?thesis using c n by (simp add: decodeWarningMessageContent_def)
qed

section \<open>Cell identities and tracking areas\<close>

lemma cgi_reader [reader_intros]: "wire_reader decodeEUTRANCGI"
  unfolding decodeEUTRANCGI_def by (intro reader_intros)

lemma tai_reader [reader_intros]: "wire_reader decodeTAI"
  unfolding decodeTAI_def by (intro reader_intros)

definition okCGI :: "byte list \<Rightarrow> u32 \<Rightarrow> bool" where
  "okCGI plmn eci \<longleftrightarrow> length plmn = 3 \<and> eci \<le> 0x0fffffff"

lemma encodeEUTRANCGI_iff: "(\<exists>w'. encodeEUTRANCGI w plmn eci = Inr w') \<longleftrightarrow> okCGI plmn eci"
  by (auto simp: encodeEUTRANCGI_def okCGI_def Let_def not_less)

lemma eci_28: "eci \<le> 0x0fffffff \<Longrightarrow> ucast (take_bit 28 (ucast (eci :: u32) :: u64)) = eci"
proof -
  assume "eci \<le> 0x0fffffff"
  then have "unat eci < 2 ^ 28" by (simp add: word_le_nat_alt)
  then have "unat (take_bit 28 eci) = unat eci"
    by (simp add: unsigned_take_bit_eq take_bit_nat_eq_self)
  then have "take_bit 28 eci = eci" by (simp only: word_unat_eq_iff)
  then have bits: "bit eci k \<Longrightarrow> k < 28" for k by (metis bit_take_bit_iff)
  show ?thesis by (rule bit_word_eqI) (auto simp: bit_simps dest: bits)
qed

lemma tac_16: "ucast (take_bit 16 (ucast (tac :: u16) :: u64)) = tac"
  by (rule bit_word_eqI) (auto simp: bit_simps)

text \<open>The writer after the preamble bits and the PLMN of a cell identity.\<close>

lemma cgi_codec:
  "wire_codec decodeEUTRANCGI (\<lambda>w eci. encodeEUTRANCGI w plmn eci) (okCGI plmn) (\<lambda>eci. (plmn, eci))"
proof (intro wire_codec.intro wire_codec_axioms.intro cgi_reader)
  fix w w' :: bitWriter and r and eci :: u32
  assume w: "winv w"
  show "(\<exists>w'. encodeEUTRANCGI w plmn eci = Inr w') \<longleftrightarrow> okCGI plmn eci"
    by (rule encodeEUTRANCGI_iff)
  assume e: "encodeEUTRANCGI w plmn eci = Inr w'"
  then have ok: "okCGI plmn eci" using encodeEUTRANCGI_iff by blast
  define w1 w2 w3 w4 where "w1 = putBits w 0 1" and "w2 = putBits w1 0 1" and "w3 = alignW w2"
    and "w4 = putOctets w3 plmn"
  have m3: "wnbit w3 mod 8 = 0" by (simp add: w3_def)
  have m4: "wnbit w4 mod 8 = 0" using m3 by (simp add: w4_def)
  have w': "w' = putBits w4 (ucast eci) 28"
    using e ok m4 by (simp add: encodeEUTRANCGI_def okCGI_def w1_def w2_def w3_def w4_def Let_def not_less)
  have i1: "winv w1" and i2: "winv w2" and i3: "winv w3"
    using w by (simp_all add: w1_def w2_def w3_def)
  have i4: "winv w4" using i3 m3 by (simp add: w4_def winv_putOctets)
  have e4: "wext w4 w'" using i4 by (simp add: w')
  have e3: "wext w3 w'" using wext_putOctets [OF i3 m3] e4 unfolding w4_def by (rule wext_trans)
  have e2: "wext w2 w'" using wext_alignW [OF i2] e3 unfolding w3_def by (rule wext_trans)
  have e1: "wext w1 w'" using wext_putBits [OF i1] e2 unfolding w2_def by (rule wext_trans)
  show "winv w'" using i4 by (simp add: w')
  show "wext w w'" using wext_putBits [OF w] e1 unfolding w1_def by (rule wext_trans)
  assume r: "rnbit r = wnbit w" "carries r w'"
  have l3: "3 = int (length plmn)" using ok by (simp add: okCGI_def)
  have n: "wnbit w1 = wnbit w + 1" "wnbit w2 = wnbit w1 + 1" "wnbit w4 = wnbit w3 + length plmn * 8"
    by (simp_all add: w1_def w2_def w4_def)
  have g1: "getBits 1 r = Inr (0, r\<lparr>rnbit := wnbit w1\<rparr>)"
    using bits_step [OF w e1 [unfolded w1_def] r(2,1)] n by simp
  have g2: "getBits 1 (r\<lparr>rnbit := wnbit w1\<rparr>) = Inr (0, r\<lparr>rnbit := wnbit w2\<rparr>)"
    using bits_step [OF i1 e2 [unfolded w2_def], of "r\<lparr>rnbit := wnbit w1\<rparr>"] r(2) n by simp
  have g3: "alignR (r\<lparr>rnbit := wnbit w2\<rparr>) = Inr (r\<lparr>rnbit := wnbit w3\<rparr>)"
    using align_step [OF i2 e3 [unfolded w3_def], of "r\<lparr>rnbit := wnbit w2\<rparr>"] r(2)
    by (simp add: w3_def)
  have g4: "readOctets 3 (r\<lparr>rnbit := wnbit w3\<rparr>) = Inr (plmn, r\<lparr>rnbit := wnbit w4\<rparr>)"
    using octets_step [OF i3 m3 e4 [unfolded w4_def], of "r\<lparr>rnbit := wnbit w3\<rparr>" 3] r(2) l3 n by simp
  have g5: "alignR (r\<lparr>rnbit := wnbit w4\<rparr>) = Inr (r\<lparr>rnbit := wnbit w4\<rparr>)"
    using m4 by (simp add: alignR_def)
  have g6: "getBits 28 (r\<lparr>rnbit := wnbit w4\<rparr>) = Inr (take_bit 28 (ucast eci), r\<lparr>rnbit := wnbit w'\<rparr>)"
    using bits_step [OF i4, of "ucast eci" 28 w' "r\<lparr>rnbit := wnbit w4\<rparr>"] r(2) by (simp add: w')
  show "decodeEUTRANCGI r = Inr ((plmn, eci), r\<lparr>rnbit := wnbit w'\<rparr>)"
    using ok by (simp add: decodeEUTRANCGI_def g1 g2 g3 g4 g5 g6 okCGI_def eci_28 del: One_nat_def)
qed

interpretation cgi: wire_codec decodeEUTRANCGI "\<lambda>w eci. encodeEUTRANCGI w plmn eci" "okCGI plmn"
    "\<lambda>eci. (plmn, eci)" for plmn
  by (rule cgi_codec)

lemma tai_codec:
  "wire_codec decodeTAI (\<lambda>w tac. encodeTAI w plmn tac) (\<lambda>_. length plmn = 3) (\<lambda>tac. (plmn, tac))"
proof (intro wire_codec.intro wire_codec_axioms.intro tai_reader)
  fix w w' :: bitWriter and r and tac :: u16
  assume w: "winv w"
  show "(\<exists>w'. encodeTAI w plmn tac = Inr w') \<longleftrightarrow> length plmn = 3"
    by (simp add: encodeTAI_def Let_def)
  assume e: "encodeTAI w plmn tac = Inr w'"
  then have ok: "length plmn = 3" by (simp add: encodeTAI_def)
  define w1 w3 w4 where "w1 = putBits w 0 1" and "w3 = alignW w1" and "w4 = putOctets w3 plmn"
  have m3: "wnbit w3 mod 8 = 0" by (simp add: w3_def)
  have w': "w' = putBits w4 (ucast tac) 16"
    using e ok by (simp add: encodeTAI_def w1_def w3_def w4_def Let_def)
  have i1: "winv w1" and i3: "winv w3" using w by (simp_all add: w1_def w3_def)
  have i4: "winv w4" using i3 m3 by (simp add: w4_def winv_putOctets)
  have e4: "wext w4 w'" using i4 by (simp add: w')
  have e3: "wext w3 w'" using wext_putOctets [OF i3 m3] e4 unfolding w4_def by (rule wext_trans)
  have e1: "wext w1 w'" using wext_alignW [OF i1] e3 unfolding w3_def by (rule wext_trans)
  show "winv w'" using i4 by (simp add: w')
  show "wext w w'" using wext_putBits [OF w] e1 unfolding w1_def by (rule wext_trans)
  assume r: "rnbit r = wnbit w" "carries r w'"
  have n: "wnbit w1 = wnbit w + 1" "wnbit w4 = wnbit w3 + length plmn * 8"
    by (simp_all add: w1_def w4_def)
  have g1: "getBits 1 r = Inr (0, r\<lparr>rnbit := wnbit w1\<rparr>)"
    using bits_step [OF w e1 [unfolded w1_def] r(2,1)] n by simp
  have g3: "alignR (r\<lparr>rnbit := wnbit w1\<rparr>) = Inr (r\<lparr>rnbit := wnbit w3\<rparr>)"
    using align_step [OF i1 e3 [unfolded w3_def], of "r\<lparr>rnbit := wnbit w1\<rparr>"] r(2)
    by (simp add: w3_def)
  have g4: "readOctets 3 (r\<lparr>rnbit := wnbit w3\<rparr>) = Inr (plmn, r\<lparr>rnbit := wnbit w4\<rparr>)"
    using octets_step [OF i3 m3 e4 [unfolded w4_def], of "r\<lparr>rnbit := wnbit w3\<rparr>" 3] r(2) ok n by simp
  have g6: "getBits 16 (r\<lparr>rnbit := wnbit w4\<rparr>) = Inr (take_bit 16 (ucast tac), r\<lparr>rnbit := wnbit w'\<rparr>)"
    using bits_step [OF i4, of "ucast tac" 16 w' "r\<lparr>rnbit := wnbit w4\<rparr>"] r(2) by (simp add: w')
  show "decodeTAI r = Inr ((plmn, tac), r\<lparr>rnbit := wnbit w'\<rparr>)"
    by (simp add: decodeTAI_def g1 g3 g4 g6 tac_16 del: One_nat_def)
qed

interpretation tai: wire_codec decodeTAI "\<lambda>w tac. encodeTAI w plmn tac" "\<lambda>_. length plmn = 3"
    "\<lambda>tac. (plmn, tac)" for plmn
  by (rule tai_codec)

section \<open>Warning areas\<close>

text \<open>
  A list value as both kinds of area write it: an extension bit, the alternative, a count and the
  entries. Stated once for every codec.
\<close>

definition putArea :: "int \<Rightarrow> (bitWriter \<Rightarrow> 'a \<Rightarrow> sbcap_error + bitWriter) \<Rightarrow> 'a list \<Rightarrow> sbcap_error + bitWriter" where
  "putArea alt put xs =
     andThen (putConstrainedWholeNumber (putBits newBitWriter 0 1) 0 2 alt) (\<lambda>w.
     andThen (putConstrainedWholeNumber w 1 65535 (int (length xs))) (\<lambda>w.
     foldE put w xs))"

lemma encodeCells_putArea:
  "encodeWarningAreaListCells plmn ecis =
     andThen (putArea 0 (\<lambda>w eci. encodeEUTRANCGI w plmn eci) ecis) (\<lambda>w. Inr (wbuf w))"
  by (simp add: encodeWarningAreaListCells_def putArea_def warningAreaCellIDList_def andThen_assoc
      del: putBits.simps)

lemma encodeTAIs_putArea:
  "encodeWarningAreaListTAIs plmn tacs =
     andThen (putArea 1 (\<lambda>w tac. encodeTAI w plmn tac) tacs) (\<lambda>w. Inr (wbuf w))"
  by (simp add: encodeWarningAreaListTAIs_def putArea_def warningAreaTrackingAreas_def andThen_assoc
      del: putBits.simps)

lemma putArea_Inr: "putArea alt put xs = Inr w \<longleftrightarrow>
    (\<exists>w1 w2. putConstrainedWholeNumber (putBits newBitWriter 0 1) 0 2 alt = Inr w1 \<and>
      putConstrainedWholeNumber w1 1 65535 (int (length xs)) = Inr w2 \<and> foldE put w2 xs = Inr w)"
  by (auto simp: putArea_def andThen_eq_Inr)

lemma putCount_wnbit:
  "putConstrainedWholeNumber w 1 65535 x = Inr w' \<Longrightarrow> wnbit w' = wnbit (alignW w) + 16"
  by (auto simp: putConstrainedWholeNumber_def split: if_splits)

lemma putArea_start:
  assumes "putConstrainedWholeNumber (putBits newBitWriter 0 1) 0 2 alt = Inr w1"
    and "putConstrainedWholeNumber w1 1 65535 n = Inr w2"
  shows "winv w1" "winv w2" "wnbit w2 = 24"
proof -
  have i0: "winv (putBits newBitWriter 0 1)" by simp
  show i1: "winv w1" by (rule num3.put_winv [OF i0 assms(1)])
  show "winv w2" by (rule count16.put_winv [OF i1 assms(2)])
  have "wnbit w1 = 3" using putCWN3_wnbit [OF assms(1)] by (simp add: newBitWriter_def)
  then show "wnbit w2 = 24" using putCount_wnbit [OF assms(2)] by (simp add: wnbit_alignW)
qed

context wire_codec
begin

lemma area_iff:
  assumes "0 \<le> alt" "alt \<le> 2"
  shows "(\<exists>w. putArea alt put xs = Inr w) \<longleftrightarrow> xs \<noteq> [] \<and> length xs \<le> 65535 \<and> (\<forall>x \<in> set xs. ok x)"
proof -
  obtain w1 where w1: "putConstrainedWholeNumber (putBits newBitWriter 0 1) 0 2 alt = Inr w1"
    using assms putCWN_iff [of "putBits newBitWriter 0 1" 0 2 alt] by auto
  have c: "(\<exists>w2. putConstrainedWholeNumber w1 1 65535 (int (length xs)) = Inr w2) \<longleftrightarrow>
      xs \<noteq> [] \<and> length xs \<le> 65535"
    by (auto simp: putCWN_iff Suc_le_eq)
  have f: "(\<exists>w. foldE put w2 xs = Inr w) \<longleftrightarrow> (\<forall>x \<in> set xs. ok x)"
    if "putConstrainedWholeNumber w1 1 65535 (int (length xs)) = Inr w2" for w2
    by (rule fold_iff [OF putArea_start(2) [OF w1 that]])
  have "(\<exists>w. putArea alt put xs = Inr w) \<longleftrightarrow>
      (\<exists>w2. putConstrainedWholeNumber w1 1 65535 (int (length xs)) = Inr w2 \<and>
        (\<exists>w. foldE put w2 xs = Inr w))"
    unfolding putArea_Inr w1 by auto
  with c f show ?thesis by blast
qed

lemma area_winv: "putArea alt put xs = Inr w \<Longrightarrow> winv w"
  using putArea_start(2) fold_winv_wext by (fastforce simp: putArea_Inr)

lemma area_read:
  assumes "putArea alt put xs = Inr w" "rnbit r = 0" "carries r w"
  obtains r1 r2 r3 where "getBits 1 r = Inr (0, r1)"
    "getConstrainedWholeNumber 0 2 r1 = Inr (alt, r2)"
    "getConstrainedWholeNumber 1 65535 r2 = Inr (int (length xs), r3)"
    "repeatE get (length xs) r3 = Inr (map val xs, r\<lparr>rnbit := wnbit w\<rparr>)"
proof -
  let ?w0 = "putBits newBitWriter 0 1"
  from assms(1) obtain w1 w2 where s: "putConstrainedWholeNumber ?w0 0 2 alt = Inr w1"
    "putConstrainedWholeNumber w1 1 65535 (int (length xs)) = Inr w2" "foldE put w2 xs = Inr w"
    by (auto simp: putArea_Inr)
  have i0: "winv ?w0" by simp
  note i1 = putArea_start(1) [OF s(1,2)] and i2 = putArea_start(2) [OF s(1,2)]
  have e2: "wext w2 w" using fold_winv_wext [OF i2 s(3)] by simp
  have e1: "wext w1 w" by (rule wext_trans [OF count16.put_wext [OF i1 s(2)] e2])
  have e0: "wext ?w0 w" by (rule wext_trans [OF num3.put_wext [OF i0 s(1)] e1])
  have n0: "wnbit newBitWriter = 0" by (simp add: newBitWriter_def)
  show ?thesis
  proof (rule that)
    show "getBits 1 r = Inr (0, r\<lparr>rnbit := wnbit ?w0\<rparr>)"
      using preamble.step [OF winv_new refl e0 assms(3)] assms(2) n0 by simp
    show "getConstrainedWholeNumber 0 2 (r\<lparr>rnbit := wnbit ?w0\<rparr>) = Inr (alt, r\<lparr>rnbit := wnbit w1\<rparr>)"
      using num3.step [OF i0 s(1) e1, of "r\<lparr>rnbit := wnbit ?w0\<rparr>"] assms(3) by simp
    show "getConstrainedWholeNumber 1 65535 (r\<lparr>rnbit := wnbit w1\<rparr>) =
        Inr (int (length xs), r\<lparr>rnbit := wnbit w2\<rparr>)"
      using count16.step [OF i1 s(2) e2, of "r\<lparr>rnbit := wnbit w1\<rparr>"] assms(3) by simp
    show "repeatE get (length xs) (r\<lparr>rnbit := wnbit w2\<rparr>) = Inr (map val xs, r\<lparr>rnbit := wnbit w\<rparr>)"
      using repeat_fold [OF i2 s(3), of "r\<lparr>rnbit := wnbit w2\<rparr>"] assms(3) by simp
  qed
qed

end

lemma encodeCells_iff:
  "(\<exists>b. encodeWarningAreaListCells plmn ecis = Inr b) \<longleftrightarrow>
     ecis \<noteq> [] \<and> length ecis \<le> 65535 \<and> (\<forall>e \<in> set ecis. okCGI plmn e)"
  using cgi.area_iff [of 0 plmn ecis] by (auto simp: encodeCells_putArea andThen_eq_Inr)

lemma encodeTAIs_iff:
  "(\<exists>b. encodeWarningAreaListTAIs plmn tacs = Inr b) \<longleftrightarrow>
     tacs \<noteq> [] \<and> length tacs \<le> 65535 \<and> length plmn = 3"
  using tai.area_iff [of 1 plmn tacs] by (auto simp: encodeTAIs_putArea andThen_eq_Inr neq_Nil_conv)

lemma lastPLMN_const: "xs \<noteq> [] \<Longrightarrow> lastPLMN (map (\<lambda>x. (p, x)) xs) = p"
  by (induction xs rule: rev_induct) (simp_all add: lastPLMN_def)

theorem decode_cells:
  assumes "encodeWarningAreaListCells plmn ecis = Inr b"
  shows "decodeWarningAreaList (b @ junk) =
    Inr \<lparr>isCellList = True, wa_plmn = plmn, wa_ecis = ecis, wa_tacs = []\<rparr>"
proof -
  from assms obtain w where w: "putArea 0 (\<lambda>w eci. encodeEUTRANCGI w plmn eci) ecis = Inr w"
    "b = wbuf w" by (auto simp: encodeCells_putArea andThen_eq_Inr)
  have "ecis \<noteq> []" using assms encodeCells_iff by blast
  then have l: "lastPLMN (map (\<lambda>x. (plmn, x)) ecis) = plmn" by (rule lastPLMN_const)
  have "carries (newBitReader (b @ junk)) w"
    using cgi.area_winv [OF w(1)] w(2) by (simp add: carries_prefix)
  from cgi.area_read [OF w(1) _ this] obtain r1 r2 r3 where
    r: "getBits 1 (newBitReader (b @ junk)) = Inr (0, r1)"
      "getConstrainedWholeNumber 0 2 r1 = Inr (0, r2)"
      "getConstrainedWholeNumber 1 65535 r2 = Inr (int (length ecis), r3)"
      "repeatE decodeEUTRANCGI (length ecis) r3 =
        Inr (map (\<lambda>x. (plmn, x)) ecis, newBitReader (b @ junk)\<lparr>rnbit := wnbit w\<rparr>)"
    by auto
  show ?thesis
    unfolding decodeWarningAreaList_def r(1)
    by (simp add: r(2-4) warningAreaCellIDList_def l comp_def)
qed

theorem decode_tais:
  assumes "encodeWarningAreaListTAIs plmn tacs = Inr b"
  shows "decodeWarningAreaList (b @ junk) =
    Inr \<lparr>isCellList = False, wa_plmn = plmn, wa_ecis = [], wa_tacs = tacs\<rparr>"
proof -
  from assms obtain w where w: "putArea 1 (\<lambda>w tac. encodeTAI w plmn tac) tacs = Inr w"
    "b = wbuf w" by (auto simp: encodeTAIs_putArea andThen_eq_Inr)
  have "tacs \<noteq> []" using assms encodeTAIs_iff by blast
  then have l: "lastPLMN (map (\<lambda>x. (plmn, x)) tacs) = plmn" by (rule lastPLMN_const)
  have "carries (newBitReader (b @ junk)) w"
    using tai.area_winv [OF w(1)] w(2) by (simp add: carries_prefix)
  from tai.area_read [OF w(1) _ this] obtain r1 r2 r3 where
    r: "getBits 1 (newBitReader (b @ junk)) = Inr (0, r1)"
      "getConstrainedWholeNumber 0 2 r1 = Inr (1, r2)"
      "getConstrainedWholeNumber 1 65535 r2 = Inr (int (length tacs), r3)"
      "repeatE decodeTAI (length tacs) r3 =
        Inr (map (\<lambda>x. (plmn, x)) tacs, newBitReader (b @ junk)\<lparr>rnbit := wnbit w\<rparr>)"
    by auto
  show ?thesis
    unfolding decodeWarningAreaList_def r(1)
    by (simp add: r(2-4) warningAreaCellIDList_def warningAreaTrackingAreas_def l comp_def)
qed

text \<open>Octets: a cell takes seven, a tracking area six.\<close>

lemma encodeEUTRANCGI_wnbit:
  "encodeEUTRANCGI w plmn eci = Inr w' \<Longrightarrow> wnbit w' = 8 * ((wnbit w + 9) div 8) + 52"
  by (auto simp: encodeEUTRANCGI_def Let_def wnbit_alignW failIf_def split: if_splits)

lemma encodeTAI_wnbit:
  "encodeTAI w plmn tac = Inr w' \<Longrightarrow> wnbit w' = 8 * ((wnbit w + 8) div 8) + 40"
  by (auto simp: encodeTAI_def Let_def wnbit_alignW failIf_def split: if_splits)

lemma foldCGI_wnbit:
  "foldE (\<lambda>w eci. encodeEUTRANCGI w plmn eci) w ecis = Inr w' \<Longrightarrow> wnbit w = 8 * q + 4 \<Longrightarrow>
   wnbit w' = 8 * q + 4 + 56 * length ecis"
proof (induction ecis arbitrary: w q)
  case Nil
  then show ?case by simp
next
  case (Cons e es)
  from Cons.prems(1) obtain v where v: "encodeEUTRANCGI w plmn e = Inr v"
    "foldE (\<lambda>w eci. encodeEUTRANCGI w plmn eci) v es = Inr w'" by (auto simp: andThen_eq_Inr)
  have "wnbit v = 8 * (q + 7) + 4" using encodeEUTRANCGI_wnbit [OF v(1)] Cons.prems(2) by simp
  from Cons.IH [OF v(2) this] show ?case by simp
qed

lemma foldTAI_wnbit:
  "foldE (\<lambda>w tac. encodeTAI w plmn tac) w tacs = Inr w' \<Longrightarrow> wnbit w = 8 * q \<Longrightarrow>
   wnbit w' = 8 * q + 48 * length tacs"
proof (induction tacs arbitrary: w q)
  case Nil
  then show ?case by simp
next
  case (Cons e es)
  from Cons.prems(1) obtain v where v: "encodeTAI w plmn e = Inr v"
    "foldE (\<lambda>w tac. encodeTAI w plmn tac) v es = Inr w'" by (auto simp: andThen_eq_Inr)
  have "wnbit v = 8 * (q + 6)" using encodeTAI_wnbit [OF v(1)] Cons.prems(2) by simp
  from Cons.IH [OF v(2) this] show ?case by simp
qed

theorem encodeCells_length:
  assumes "encodeWarningAreaListCells plmn ecis = Inr b"
  shows "length b = 4 + 7 * length ecis"
proof -
  from assms obtain w where w: "putArea 0 (\<lambda>w eci. encodeEUTRANCGI w plmn eci) ecis = Inr w"
    "b = wbuf w" by (auto simp: encodeCells_putArea andThen_eq_Inr)
  from assms encodeCells_iff obtain e es where ecis: "ecis = e # es" by (meson neq_Nil_conv)
  from w(1) obtain w1 w2 where
    s: "putConstrainedWholeNumber (putBits newBitWriter 0 1) 0 2 0 = Inr w1"
      "putConstrainedWholeNumber w1 1 65535 (int (length ecis)) = Inr w2"
      "foldE (\<lambda>w eci. encodeEUTRANCGI w plmn eci) w2 ecis = Inr w"
    by (auto simp: putArea_Inr)
  from s(3) ecis obtain v where v: "encodeEUTRANCGI w2 plmn e = Inr v"
    "foldE (\<lambda>w eci. encodeEUTRANCGI w plmn eci) v es = Inr w" by (auto simp: andThen_eq_Inr)
  have "wnbit v = 8 * 10 + 4"
    using encodeEUTRANCGI_wnbit [OF v(1)] putArea_start(3) [OF s(1,2)] by simp
  from foldCGI_wnbit [OF v(2) this] winv_length [OF cgi.area_winv [OF w(1)]]
  show ?thesis using w(2) ecis by simp
qed

theorem encodeTAIs_length:
  assumes "encodeWarningAreaListTAIs plmn tacs = Inr b"
  shows "length b = 3 + 6 * length tacs"
proof -
  from assms obtain w where w: "putArea 1 (\<lambda>w tac. encodeTAI w plmn tac) tacs = Inr w"
    "b = wbuf w" by (auto simp: encodeTAIs_putArea andThen_eq_Inr)
  from w(1) obtain w1 w2 where
    s: "putConstrainedWholeNumber (putBits newBitWriter 0 1) 0 2 1 = Inr w1"
      "putConstrainedWholeNumber w1 1 65535 (int (length tacs)) = Inr w2"
      "foldE (\<lambda>w tac. encodeTAI w plmn tac) w2 tacs = Inr w"
    by (auto simp: putArea_Inr)
  have "wnbit w2 = 8 * 3" using putArea_start(3) [OF s(1,2)] by simp
  from foldTAI_wnbit [OF s(3) this] winv_length [OF tai.area_winv [OF w(1)]]
  show ?thesis using w(2) by simp
qed

end
