(* ===== verification/Sbcap_Layout.thy ===== *)
theory Sbcap_Layout
  imports Sbcap_Ies
begin

text \<open>
  A reference description of the wire format in whole octets, and the proof that the bit-by-bit
  encoders of \<open>pdu.go\<close> and \<open>ies.go\<close> produce exactly it. Concrete PDUs are computed from here.
\<close>

section \<open>Writers are determined by their bits\<close>

lemma writer_eqI:
  assumes "winv w" "winv v" "wbits w = wbits v"
  shows "w = v"
proof -
  have n: "wnbit w = wnbit v" using arg_cong [OF assms(3), of length] by (simp add: wbits_def)
  then have l: "length (wbuf w) = length (wbuf v)" using assms(1,2) by (simp add: winv_length)
  have b: "bufbit (wbuf w) i = bufbit (wbuf v) i" if "i < 8 * length (wbuf w)" for i
  proof (cases "i < wnbit w")
    case True
    then show ?thesis using arg_cong [OF assms(3), of "\<lambda>xs. xs ! i"] n by (simp add: wbits_def)
  next
    case False
    then show ?thesis using assms(1,2) that n l by (auto simp: winv_def)
  qed
  have "wbuf w = wbuf v"
  proof (rule nth_equalityI [OF l])
    fix i assume "i < length (wbuf w)"
    then show "wbuf w ! i = wbuf v ! i" by (intro nth_bufbit_eqI b) simp
  qed
  with n show ?thesis by simp
qed

lemma putBits_cong: "(\<And>k. k < n \<Longrightarrow> bit v k = bit u k) \<Longrightarrow> putBits w v n = putBits w u n"
  by (induction n arbitrary: w) (simp_all add: putBit_def bit_and_1)

text \<open>Zeros written after a value are a shifted value.\<close>

lemma putBits_zeros: "putBits (putBits w v n) 0 m = putBits w (push_bit m v) (n + m)"
  if "n + m \<le> 64"
proof -
  have "putBits w v n = putBits w (drop_bit m (push_bit m v)) n"
    using that by (intro putBits_cong) (auto simp: bit_simps)
  moreover have "putBits u 0 m = putBits u (push_bit m v) m" for u
    by (rule putBits_cong) (simp add: bit_simps)
  ultimately show ?thesis by (simp add: putBits_add)
qed

lemma putBits_8:
  assumes "winv w" "wnbit w mod 8 = 0"
  shows "putBits w v 8 = putOctets w [ucast v]"
proof (rule writer_eqI)
  show "winv (putBits w v 8)" using assms by simp
  show "winv (putOctets w [ucast v])" by (rule winv_putOctets [OF assms])
  have l: "wnbit w = 8 * length (wbuf w)" by (rule winv_aligned_length [OF assms])
  show "wbits (putBits w v 8) = wbits (putOctets w [ucast v])"
    unfolding wbits_putBits [OF assms(1)]
  proof (rule nth_equalityI)
    fix i assume "i < length (wbits w @ msb_bits 8 v)"
    then have i: "i < wnbit w + 8" by (simp add: wbits_def)
    show "(wbits w @ msb_bits 8 v) ! i = wbits (putOctets w [ucast v]) ! i"
    proof (cases "i < wnbit w")
      case True
      then show ?thesis using l by (simp add: wbits_def putOctets_def nth_append bufbit_append1)
    next
      case False
      then obtain k where k: "i = 8 * length (wbuf w) + k" "k < 8" using i l
        by (metis add_diff_inverse_nat nat_add_left_cancel_less)
      moreover have "7 - k < 8" by arith
      ultimately have "bufbit (wbuf w @ [ucast v]) i = bit v (7 - k)"
        by (simp add: bufbit_append2 bufbit_def bit_ucast_iff)
      then show ?thesis using k l by (simp add: wbits_def putOctets_def nth_append)
    qed
  qed (simp add: wbits_def)
qed

lemma putOctets_append: "putOctets (putOctets w b) c = putOctets w (b @ c)"
  by (simp add: putOctets_def)

text \<open>A 16-bit field on an octet boundary is two octets.\<close>

lemma putBits_16_octets:
  assumes "winv w" "wnbit w mod 8 = 0"
  shows "putBits w v 16 = putOctets w [ucast (drop_bit 8 v), ucast v]"
proof -
  have a: "winv (putOctets w [ucast (drop_bit 8 v)])" by (rule winv_putOctets [OF assms])
  have b: "wnbit (putOctets w [ucast (drop_bit 8 v)]) mod 8 = 0" using assms(2) by simp
  show ?thesis
    using putBits_8 [OF a b, of v]
    by (simp add: putBits_16 putBits_8 [OF assms, of "drop_bit 8 v"] putOctets_append)
qed

text \<open>A field of at most eight bits and the padding after it are one octet.\<close>

lemma alignW_putBits:
  assumes "winv w" "wnbit w mod 8 = 0" "0 < n" "n \<le> 8"
  shows "alignW (putBits w v n) = putOctets w [push_bit (8 - n) (ucast v)]"
proof -
  have m: "(wnbit w + n) mod 8 = n mod 8" using assms(2) by (simp add: mod_add_eq [symmetric])
  have "alignW (putBits w v n) = putBits (putBits w v n) 0 (8 - n)"
  proof (cases "n = 8")
    case True
    then show ?thesis using m by simp
  next
    case False
    then show ?thesis using m assms(3,4) by (simp add: alignW_def)
  qed
  also have "\<dots> = putBits w (push_bit (8 - n) v) 8" using assms(4) by (simp add: putBits_zeros)
  also have "\<dots> = putOctets w [ucast (push_bit (8 - n) v)]" by (rule putBits_8 [OF assms(1,2)])
  also have "(ucast (push_bit (8 - n) v) :: byte) = push_bit (8 - n) (ucast v)"
    by (rule bit_word_eqI) (auto simp: bit_simps)
  finally show ?thesis .
qed

lemma wbuf_alignW: "winv w \<Longrightarrow> wbuf (alignW w) = wbuf w"
proof -
  assume w: "winv w"
  let ?r = "wnbit w mod 8"
  have l: "length (wbuf (alignW w)) = length (wbuf w)"
    using w by (simp add: winv_length wnbit_alignW)
  have b: "bufbit (wbuf (alignW w)) i = bufbit (wbuf w) i" if i: "i < 8 * length (wbuf w)" for i
  proof (cases "i < wnbit w")
    case True
    then show ?thesis using wext_alignW [OF w] by (simp add: wext_def)
  next
    case False
    then have "\<not> bufbit (wbuf w) i" using w i by (simp add: winv_def)
    moreover have "\<not> bufbit (wbuf (alignW w)) i"
    proof (cases "?r = 0")
      case True
      then show ?thesis using \<open>\<not> bufbit (wbuf w) i\<close> by simp
    next
      case r: False
      have i2: "i < wnbit w + (8 - ?r)"
      proof -
        have "i < wnbit (alignW w)" using i w by (simp add: winv_length wnbit_alignW)
        with r show ?thesis by (simp add: alignW_def)
      qed
      then show ?thesis using r False putBits_bits(2) [OF w i2, of 0] by (simp add: alignW_def)
    qed
    ultimately show ?thesis by simp
  qed
  show ?thesis
  proof (rule nth_equalityI [OF l])
    fix i assume "i < length (wbuf (alignW w))"
    then show "wbuf (alignW w) ! i = wbuf w ! i" using l by (intro nth_bufbit_eqI b) simp
  qed
qed

section \<open>Open types, IEs and PDUs in octets\<close>

definition lengthLayout :: "nat \<Rightarrow> byte list" where
  "lengthLayout n =
     (if n \<le> 127 then [word_of_nat n] else [word_of_nat (n div 256) OR 0x80, word_of_nat n])"

definition openTypeLayout :: "byte list \<Rightarrow> byte list" where
  "openTypeLayout c = lengthLayout (length (widen c)) @ widen c"

definition ieLayout :: "protocolIE \<Rightarrow> byte list" where
  "ieLayout ie = encode16 (word_of_int (ie_id ie)) @ [push_bit 6 (word_of_int (ie_criticality ie))] @
     openTypeLayout (ie_value ie)"

definition bodyLayout :: "protocolIE list \<Rightarrow> byte list" where
  "bodyLayout is = [0] @ encode16 (word_of_nat (length is)) @ concat (map ieLayout is)"

definition pduLayout :: "int \<Rightarrow> int \<Rightarrow> int \<Rightarrow> protocolIE list \<Rightarrow> byte list" where
  "pduLayout ci pc cr is =
     [push_bit 5 (word_of_int ci), word_of_int pc, push_bit 6 (word_of_int cr)] @
     openTypeLayout (bodyLayout is)"

definition aligned :: "bitWriter \<Rightarrow> bool" where
  "aligned w \<longleftrightarrow> winv w \<and> wnbit w mod 8 = 0"

lemma aligned_new [simp]: "aligned newBitWriter"
  by (simp add: aligned_def newBitWriter_def winv_def)

lemma new_writer [simp]: "wbuf newBitWriter = []" "wnbit newBitWriter = 0"
  by (simp_all add: newBitWriter_def)

lemma wbuf_putOctets [simp]: "wbuf (putOctets w b) = wbuf w @ b"
  by (simp add: putOctets_def)

lemma aligned_putOctets [simp]: "aligned w \<Longrightarrow> aligned (putOctets w b)"
  by (simp add: aligned_def winv_putOctets)

lemma aligned_alignW: "winv w \<Longrightarrow> aligned (alignW w)"
  by (simp add: aligned_def)

lemma alignW_aligned [simp]: "aligned w \<Longrightarrow> alignW w = w"
  by (simp add: aligned_def)

lemma put16_layout:
  assumes "aligned w"
  shows "putBits w (ucast (v :: u16)) 16 = putOctets w (encode16 v)"
proof -
  have "(ucast (drop_bit 8 (ucast v :: u64)) :: byte) = ucast (drop_bit 8 v)"
    by (rule bit_word_eqI) (auto simp: bit_simps)
  moreover have "(ucast (ucast v :: u64) :: byte) = ucast v"
    by (rule bit_word_eqI) (auto simp: bit_simps)
  ultimately show ?thesis
    using putBits_16_octets [of w "ucast v"] assms by (simp add: aligned_def encode16_def)
qed

lemma put16_int_layout:
  assumes "aligned w"
  shows "putBits w (word_of_int x) 16 = putOctets w (encode16 (word_of_int x))"
proof -
  have "putBits w (word_of_int x) 16 = putBits w (ucast (word_of_int x :: u16)) 16"
    by (rule putBits_cong) (auto simp: bit_simps)
  with put16_layout [OF assms] show ?thesis by simp
qed

lemma cwn16_layout:
  assumes "aligned (alignW w)"
  shows "putConstrainedWholeNumber w 0 65535 x = Inr w' \<longleftrightarrow>
    0 \<le> x \<and> x \<le> 65535 \<and> w' = putOctets (alignW w) (encode16 (word_of_int x))"
  using put16_int_layout [OF assms, of x] by (auto simp: putConstrainedWholeNumber_def)

lemma cwn3_layout:
  assumes "aligned w"
  shows "putConstrainedWholeNumber w 0 2 x = Inr w' \<longleftrightarrow>
    0 \<le> x \<and> x \<le> 2 \<and> w' = putBits w (word_of_int x) 2"
  by (auto simp: putConstrainedWholeNumber_def bitsFor_3)

lemma alignW_crit:
  assumes "aligned w"
  shows "alignW (putBits w (word_of_int x) 2) = putOctets w [push_bit 6 (word_of_int x)]"
proof -
  have "(ucast (word_of_int x :: u64) :: byte) = word_of_int x"
    by (rule bit_word_eqI) (auto simp: bit_simps)
  with alignW_putBits [of w 2 "word_of_int x"] assms show ?thesis by (simp add: aligned_def)
qed

lemma lengthLayout_long:
  assumes "n < 16384"
  shows "[ucast (drop_bit 8 (word_of_nat n OR 0x8000 :: u64)), ucast (word_of_nat n OR 0x8000 :: u64)] =
    [word_of_nat (n div 256) OR 0x80, word_of_nat n :: byte]"
proof -
  have p: "(0x8000 :: u64) = push_bit 15 1" "(0x80 :: byte) = push_bit 7 1" by simp_all
  have "(ucast (drop_bit 8 (word_of_nat n OR 0x8000 :: u64)) :: byte) = word_of_nat (n div 256) OR 0x80"
  proof (rule bit_word_eqI)
    fix k assume "k < LENGTH(8)"
    moreover have "n div 256 = drop_bit 8 n" by (simp add: drop_bit_eq_div)
    ultimately show "bit (ucast (drop_bit 8 (word_of_nat n OR 0x8000 :: u64)) :: byte) k =
        bit (word_of_nat (n div 256) OR 0x80 :: byte) k"
      unfolding p by (auto simp: bit_simps simp del: push_bit_of_1)
  qed
  moreover have "(ucast (word_of_nat n OR 0x8000 :: u64) :: byte) = word_of_nat n"
    unfolding p by (rule bit_word_eqI) (auto simp: bit_simps simp del: push_bit_of_1)
  ultimately show ?thesis by simp
qed

lemma openType_layout:
  assumes "aligned (alignW w)"
  shows "putOpenType w c = Inr w' \<longleftrightarrow>
    length c < 16384 \<and> w' = putOctets (alignW w) (openTypeLayout c)"
proof -
  let ?n = "length (widen c)"
  have a: "winv (alignW w)" "wnbit (alignW w) mod 8 = 0" using assms by (simp_all add: aligned_def)
  have "openHeader w ?n = putOctets (alignW w) (lengthLayout ?n)" if "length c < 16384"
  proof -
    have n: "?n < 16384" using that by (simp add: widen_def)
    have "(ucast (word_of_nat ?n :: u64) :: byte) = word_of_nat ?n"
      by (rule bit_word_eqI) (auto simp: bit_simps)
    then show ?thesis
      by (cases "?n \<le> 127")
        (simp_all only: openHeader_def lengthLayout_def putBits_8 [OF a] putBits_16_octets [OF a]
          lengthLayout_long [OF n] if_True if_False)
  qed
  then show ?thesis by (auto simp: putOpenType_Inr openTypeLayout_def putOctets_append)
qed

lemma putIE_layout:
  assumes "aligned w"
  shows "putIE w ie = Inr w' \<longleftrightarrow> okIE ie \<and> w' = putOctets w (ieLayout ie)"
proof -
  let ?w1 = "putOctets w (encode16 (word_of_int (ie_id ie)))"
  have a1: "aligned ?w1" using assms by simp
  have a2: "aligned (alignW (putBits ?w1 (word_of_int (ie_criticality ie)) 2))"
    unfolding alignW_crit [OF a1] using a1 by simp
  have a0: "aligned (alignW w)" using assms by simp
  show ?thesis
    unfolding putIE_Inr cwn16_layout [OF a0]
    using cwn3_layout [OF a1] openType_layout [OF a2] alignW_crit [OF a1] assms
    by (auto simp: okIE_def ieLayout_def putOctets_append)
qed

lemma foldIE_layout:
  "aligned w \<Longrightarrow> foldE putIE w is = Inr w' \<longleftrightarrow>
     (\<forall>i \<in> set is. okIE i) \<and> w' = putOctets w (concat (map ieLayout is))"
proof (induction "is" arbitrary: w)
  case Nil
  then show ?case by (auto simp: putOctets_def)
next
  case (Cons i "is")
  have "foldE putIE w (i # is) = Inr w' \<longleftrightarrow>
      okIE i \<and> foldE putIE (putOctets w (ieLayout i)) is = Inr w'"
    using putIE_layout [OF Cons.prems] by (auto simp: andThen_eq_Inr)
  with Cons.IH [of "putOctets w (ieLayout i)"] Cons.prems show ?case
    by (auto simp: putOctets_append)
qed

lemma body_layout: "encodeMessageBody is = Inr b \<longleftrightarrow>
    length is \<le> 65535 \<and> (\<forall>i \<in> set is. okIE i) \<and> b = bodyLayout is"
proof -
  have s: "putBits newBitWriter 0 1 = putBits newBitWriter 0 (0 + 1)" by simp
  have "bodyStart = putBits newBitWriter 0 2"
    using putBits_zeros [of 1 1 newBitWriter 0] by (simp add: bodyStart_def numeral_2_eq_2)
  then have st: "alignW bodyStart = putOctets newBitWriter [0]"
    using alignW_putBits [of newBitWriter 2 0] by simp
  have a: "aligned (alignW bodyStart)" by (simp add: st)
  let ?w = "putOctets newBitWriter ([0] @ encode16 (word_of_nat (length is)))"
  have e: "encodeMessageBody is = Inr (bodyLayout is)"
    if "\<forall>i \<in> set is. okIE i" "length is \<le> 65535"
  proof -
    have "foldE putIE ?w is = Inr (putOctets ?w (concat (map ieLayout is)))"
      using foldIE_layout [of ?w "is"] that(1) by simp
    moreover have "putConstrainedWholeNumber bodyStart 0 65535 (int (length is)) = Inr ?w"
      using that(2) by (simp add: cwn16_layout [OF a] st putOctets_append)
    moreover have "wbuf (putOctets ?w (concat (map ieLayout is))) = bodyLayout is"
      by (simp add: bodyLayout_def putOctets_def)
    ultimately show ?thesis unfolding encodeMessageBody_Inr putIEContainer_Inr by metis
  qed
  show ?thesis using e encodeMessageBody_iff [of "is"] by auto
qed

text \<open>The encoder is the layout, exactly where the parts fit their fields.\<close>

lemma pdu_layout: "encodePDU ci pc cr is = Inr p \<longleftrightarrow> okPDU ci pc cr is \<and> p = pduLayout ci pc cr is"
proof -
  let ?w0 = "putBits newBitWriter 0 1" and ?w2 = "putOctets newBitWriter [push_bit 5 (word_of_int ci), word_of_int pc]"
  have e: "p = pduLayout ci pc cr is" if p: "encodePDU ci pc cr is = Inr p" for p
  proof -
    from p obtain b w1 w2 w3 w4 where s: "encodeMessageBody is = Inr b"
      "putConstrainedWholeNumber ?w0 0 2 ci = Inr w1"
      "putConstrainedWholeNumber w1 0 255 pc = Inr w2"
      "putConstrainedWholeNumber w2 0 2 cr = Inr w3" "putOpenType w3 b = Inr w4" "p = wbuf w4"
      unfolding encodePDU_Inr by blast
    have "w1 = putBits ?w0 (word_of_int ci) 2" and ci: "0 \<le> ci" "ci \<le> 2"
      using s(2) by (auto simp: putConstrainedWholeNumber_def bitsFor_3 split: if_splits)
    moreover have "ci = 0 \<or> ci = 1 \<or> ci = 2" using ci by linarith
    then have "drop_bit 2 (word_of_int ci :: u64) = 0" by (elim disjE) simp_all
    then have "?w0 = putBits newBitWriter (drop_bit 2 (word_of_int ci)) 1" by simp
    ultimately have "w1 = putBits (putBits newBitWriter (drop_bit 2 (word_of_int ci)) 1) (word_of_int ci) 2"
      by simp
    then have "w1 = putBits newBitWriter (word_of_int ci) (1 + 2)" unfolding putBits_add .
    moreover have "(1::nat) + 2 = 3" by simp
    ultimately have "w1 = putBits newBitWriter (word_of_int ci) 3" by (simp only:)
    then have "alignW w1 = putOctets newBitWriter [push_bit 5 (ucast (word_of_int ci :: u64))]"
      using alignW_putBits [of newBitWriter 3 "word_of_int ci"] by simp
    moreover have ub: "(ucast (word_of_int x :: u64) :: byte) = word_of_int x" for x
      by (rule bit_word_eqI) (auto simp: bit_simps)
    ultimately have w1: "alignW w1 = putOctets newBitWriter [push_bit 5 (word_of_int ci)]" by simp
    have "w2 = putBits (alignW w1) (word_of_int pc) 8"
      using s(3) by (auto simp: putConstrainedWholeNumber_def split: if_splits)
    then have w2: "w2 = ?w2"
      using putBits_8 [of "alignW w1" "word_of_int pc"] aligned_putOctets [OF aligned_new]
      by (simp add: w1 ub aligned_def putOctets_append)
    then have a2: "aligned w2" by simp
    have w3: "alignW w3 = putOctets w2 [push_bit 6 (word_of_int cr)]"
      using s(4) alignW_crit [OF a2] by (simp add: cwn3_layout [OF a2])
    then have "aligned (alignW w3)" using a2 by simp
    with s(5) have "w4 = putOctets (alignW w3) (openTypeLayout b)" by (simp add: openType_layout)
    then show ?thesis
      using s(1,6) w2 w3
      by (simp add: body_layout pduLayout_def putOctets_append)
  qed
  then show ?thesis using encodePDU_success [of ci pc cr "is"] by blast
qed

section \<open>Warning areas in octets\<close>

definition be32 :: "u32 \<Rightarrow> byte list" where
  "be32 v = [ucast (drop_bit 24 v), ucast (drop_bit 16 v), ucast (drop_bit 8 v), ucast v]"

definition taisLayout :: "byte list \<Rightarrow> u16 list \<Rightarrow> byte list" where
  "taisLayout plmn tacs =
     [0x20] @ encode16 (word_of_nat (length tacs) - 1) @ concat (map (\<lambda>t. [0] @ plmn @ encode16 t) tacs)"

text \<open>The four spare bits after an identity hold the preamble and padding of the next.\<close>

definition cellsLayout :: "byte list \<Rightarrow> u32 list \<Rightarrow> byte list" where
  "cellsLayout plmn ecis =
     [0] @ encode16 (word_of_nat (length ecis) - 1) @ [0] @
     concat (map (\<lambda>e. plmn @ be32 (push_bit 4 e)) ecis)"

lemma count_layout:
  assumes "aligned (alignW w)"
  shows "putConstrainedWholeNumber w 1 65535 (int n) = Inr w' \<longleftrightarrow>
    1 \<le> n \<and> n \<le> 65535 \<and> w' = putOctets (alignW w) (encode16 (word_of_nat n - 1))"
  using put16_int_layout [OF assms, of "int n - 1"] by (auto simp: putConstrainedWholeNumber_def)

lemma alignW_alt:
  assumes "putConstrainedWholeNumber (putBits newBitWriter 0 1) 0 2 alt = Inr w"
  shows "alignW w = putOctets newBitWriter [push_bit 5 (word_of_int alt)]"
proof -
  have "w = putBits (putBits newBitWriter 0 1) (word_of_int alt) 2" and alt: "0 \<le> alt" "alt \<le> 2"
    using assms by (auto simp: putConstrainedWholeNumber_def bitsFor_3 split: if_splits)
  moreover have "alt = 0 \<or> alt = 1 \<or> alt = 2" using alt by linarith
  then have "drop_bit 2 (word_of_int alt :: u64) = 0" by (elim disjE) simp_all
  ultimately have "w = putBits newBitWriter (word_of_int alt) (1 + 2)" unfolding putBits_add by simp
  moreover have "(1::nat) + 2 = 3" by simp
  ultimately have "w = putBits newBitWriter (word_of_int alt) 3" by (simp only:)
  moreover have "(ucast (word_of_int alt :: u64) :: byte) = word_of_int alt"
    by (rule bit_word_eqI) (auto simp: bit_simps)
  ultimately show ?thesis using alignW_putBits [of newBitWriter 3 "word_of_int alt"] by simp
qed

lemma encodeTAI_layout:
  assumes "aligned w"
  shows "encodeTAI w plmn tac = Inr w' \<longleftrightarrow>
    length plmn = 3 \<and> w' = putOctets w ([0] @ plmn @ encode16 tac)"
proof -
  have "alignW (putBits w 0 1) = putOctets w [0]"
    using alignW_putBits [of w 1 0] assms by (simp add: aligned_def del: One_nat_def)
  then show ?thesis
    using put16_layout [of "putOctets w (0 # plmn)" tac] assms
    by (auto simp: encodeTAI_def putOctets_append simp del: One_nat_def)
qed

lemma foldTAI_layout:
  "aligned w \<Longrightarrow> length plmn = 3 \<Longrightarrow>
   foldE (\<lambda>w tac. encodeTAI w plmn tac) w tacs =
     Inr (putOctets w (concat (map (\<lambda>t. [0] @ plmn @ encode16 t) tacs)))"
proof (induction tacs arbitrary: w)
  case Nil
  then show ?case by (simp add: putOctets_def)
next
  case (Cons t ts)
  then have "encodeTAI w plmn t = Inr (putOctets w ([0] @ plmn @ encode16 t))"
    using encodeTAI_layout [of w plmn t] by simp
  with Cons show ?case by (simp add: putOctets_append)
qed

lemma tais_layout: "encodeWarningAreaListTAIs plmn tacs = Inr b \<longleftrightarrow>
    tacs \<noteq> [] \<and> length tacs \<le> 65535 \<and> length plmn = 3 \<and> b = taisLayout plmn tacs"
proof -
  have e: "b = taisLayout plmn tacs" if b: "encodeWarningAreaListTAIs plmn tacs = Inr b" for b
  proof -
    from b obtain w w1 w2 where
      s: "putConstrainedWholeNumber (putBits newBitWriter 0 1) 0 2 1 = Inr w1"
        "putConstrainedWholeNumber w1 1 65535 (int (length tacs)) = Inr w2"
        "foldE (\<lambda>w tac. encodeTAI w plmn tac) w2 tacs = Inr w" "b = wbuf w"
      by (auto simp: encodeTAIs_putArea putArea_Inr andThen_eq_Inr)
    have l: "length plmn = 3" using b encodeTAIs_iff by blast
    have a: "alignW w1 = putOctets newBitWriter [0x20]" using alignW_alt [OF s(1)] by simp
    then have a2: "w2 = putOctets newBitWriter ([0x20] @ encode16 (word_of_nat (length tacs) - 1))"
      using s(2) count_layout [of w1] by (simp add: putOctets_append)
    then have "aligned w2" by simp
    from foldTAI_layout [OF this l, of tacs] s(3)
    have "w = putOctets w2 (concat (map (\<lambda>t. [0] @ plmn @ encode16 t) tacs))" by simp
    then show ?thesis by (simp add: s(4) a2 taisLayout_def)
  qed
  then show ?thesis using encodeTAIs_iff [of plmn tacs] by blast
qed

lemma put32_layout:
  assumes "aligned w"
  shows "putBits w (ucast (v :: u32)) 32 = putOctets w (be32 v)"
proof -
  let ?h = "ucast (drop_bit 16 v) :: u16" and ?l = "ucast v :: u16"
  have "putBits w (ucast v) (16 + 16) =
      putBits (putBits w (drop_bit 16 (ucast v)) 16) (ucast v) 16" by (rule putBits_add)
  also have "putBits w (drop_bit 16 (ucast v)) 16 = putBits w (ucast ?h) 16"
    by (rule putBits_cong) (auto simp: bit_simps)
  also have "putBits u (ucast v) 16 = putBits u (ucast ?l) 16" for u
    by (rule putBits_cong) (auto simp: bit_simps)
  finally have "putBits w (ucast v) 32 = putOctets w (encode16 ?h @ encode16 ?l)"
    using assms by (simp add: put16_layout putOctets_append del: putBits.simps)
  moreover have "encode16 ?h @ encode16 ?l = be32 v"
    by (auto simp: encode16_def be32_def intro!: bit_word_eqI simp: bit_simps)
  ultimately show ?thesis by simp
qed

text \<open>Where the PLMN of the next cell starts.\<close>

definition nextCell :: "bitWriter \<Rightarrow> bitWriter" where
  "nextCell w = alignW (putBits (putBits w 0 1) 0 1)"

lemma encodeCGI_next:
  assumes "aligned (nextCell w)" "okCGI plmn e"
  shows "encodeEUTRANCGI w plmn e = Inr (putBits (putOctets (nextCell w) plmn) (ucast e) 28)"
  using assms by (simp add: encodeEUTRANCGI_def okCGI_def nextCell_def not_less Let_def
      del: putBits.simps One_nat_def)

lemma nextCell_28:
  assumes "aligned u"
  shows "nextCell (putBits u (ucast (e :: u32)) 28) = putOctets u (be32 (push_bit 4 e))"
    and "alignW (putBits u (ucast e) 28) = putOctets u (be32 (push_bit 4 e))"
proof -
  have "putBits (putBits u (ucast e) 28) 0 4 = putBits u (push_bit 4 (ucast e)) (28 + 4)"
    by (rule putBits_zeros) simp
  also have "\<dots> = putBits u (ucast (push_bit 4 e)) (28 + 4)"
    by (rule putBits_cong) (auto simp: bit_simps)
  also have "\<dots> = putOctets u (be32 (push_bit 4 e))"
    using put32_layout [OF assms, of "push_bit 4 e"] by simp
  finally have p: "putBits (putBits u (ucast e) 28) 0 4 = putOctets u (be32 (push_bit 4 e))" .
  have m: "(wnbit u + 28) mod 8 = 4" "(wnbit u + 28 + 1 + 1) mod 8 = 6"
    using assms by (auto simp: aligned_def)
  then show "alignW (putBits u (ucast e) 28) = putOctets u (be32 (push_bit 4 e))"
    by (simp add: alignW_def p del: putBits.simps)
  have z: "putBits (putBits w 0 i) 0 j = putBits w 0 (i + j)" for w i j
    by (simp add: putBits_add)
  have "(1::nat) + 1 + 2 = 4" by simp
  then have "putBits (putBits (putBits w 0 1) 0 1) 0 2 = putBits w 0 4" for w
    unfolding z by (simp only:)
  then show "nextCell (putBits u (ucast e) 28) = putOctets u (be32 (push_bit 4 e))"
    using m by (simp add: nextCell_def alignW_def p del: putBits.simps One_nat_def)
qed

lemma foldCGI_layout:
  "aligned (nextCell w) \<Longrightarrow> \<forall>e \<in> set ecis. okCGI plmn e \<Longrightarrow>
   foldE (\<lambda>w eci. encodeEUTRANCGI w plmn eci) w ecis = Inr w' \<Longrightarrow>
   nextCell w' = putOctets (nextCell w) (concat (map (\<lambda>e. plmn @ be32 (push_bit 4 e)) ecis)) \<and>
   (ecis \<noteq> [] \<longrightarrow> alignW w' = nextCell w')"
proof (induction ecis arbitrary: w)
  case Nil
  then show ?case by (simp add: putOctets_def)
next
  case (Cons e es)
  let ?v = "putBits (putOctets (nextCell w) plmn) (ucast e) 28"
  have a: "aligned (putOctets (nextCell w) plmn)" using Cons.prems(1) by simp
  note n = nextCell_28 [OF a, of e]
  have "encodeEUTRANCGI w plmn e = Inr ?v"
    using Cons.prems(2) by (intro encodeCGI_next [OF Cons.prems(1)]) simp
  then have f: "foldE (\<lambda>w eci. encodeEUTRANCGI w plmn eci) ?v es = Inr w'"
    using Cons.prems(3) by (simp del: putBits.simps)
  have "aligned (nextCell ?v)" unfolding n(1) using a by simp
  from Cons.IH [OF this _ f] Cons.prems(2) show ?case
    using n f by (cases es) (simp_all add: putOctets_append)
qed

lemma cells_layout: "encodeWarningAreaListCells plmn ecis = Inr b \<longleftrightarrow>
    ecis \<noteq> [] \<and> length ecis \<le> 65535 \<and> (\<forall>e \<in> set ecis. okCGI plmn e) \<and> b = cellsLayout plmn ecis"
proof -
  have e: "b = cellsLayout plmn ecis" if b: "encodeWarningAreaListCells plmn ecis = Inr b" for b
  proof -
    from b obtain w w1 w2 where
      s: "putConstrainedWholeNumber (putBits newBitWriter 0 1) 0 2 0 = Inr w1"
        "putConstrainedWholeNumber w1 1 65535 (int (length ecis)) = Inr w2"
        "foldE (\<lambda>w eci. encodeEUTRANCGI w plmn eci) w2 ecis = Inr w" "b = wbuf w"
      and p: "putArea 0 (\<lambda>w eci. encodeEUTRANCGI w plmn eci) ecis = Inr w"
      by (auto simp: encodeCells_putArea putArea_Inr andThen_eq_Inr)
    have ok: "ecis \<noteq> []" "\<forall>e \<in> set ecis. okCGI plmn e" using b encodeCells_iff by blast+
    have a: "alignW w1 = putOctets newBitWriter [0]" using alignW_alt [OF s(1)] by simp
    then have w2: "w2 = putOctets newBitWriter ([0] @ encode16 (word_of_nat (length ecis) - 1))"
      using s(2) count_layout [of w1] by (simp add: putOctets_append)
    then have a2: "aligned w2" by simp
    have "putBits (putBits w2 0 1) 0 1 = putBits w2 0 2"
      using putBits_zeros [of 1 1 w2 0] by (simp add: numeral_2_eq_2)
    then have n: "nextCell w2 = putOctets w2 [0]"
      using alignW_putBits [of w2 2 0] a2 by (simp add: nextCell_def aligned_def)
    then have "aligned (nextCell w2)" using a2 by simp
    from foldCGI_layout [OF this ok(2) s(3)] ok(1)
    have "alignW w = putOctets (nextCell w2) (concat (map (\<lambda>e. plmn @ be32 (push_bit 4 e)) ecis))"
      by simp
    moreover have "wbuf (alignW w) = wbuf w" by (rule wbuf_alignW [OF cgi.area_winv [OF p]])
    ultimately have "wbuf w = wbuf w2 @ [0] @ concat (map (\<lambda>e. plmn @ be32 (push_bit 4 e)) ecis)"
      by (simp add: n)
    then show ?thesis by (simp add: s(4) w2 cellsLayout_def)
  qed
  then show ?thesis using encodeCells_iff [of plmn ecis] by blast
qed

section \<open>Integers and contents in octets\<close>

lemma int16_layout:
  assumes "255 < ub - lb" "ub - lb < 65536"
  shows "encodeConstrainedInt lb ub x = Inr b \<longleftrightarrow>
    lb \<le> x \<and> x \<le> ub \<and> b = encode16 (word_of_int (x - lb))"
  using assms put16_int_layout [of newBitWriter "x - lb"]
  by (auto simp: encodeConstrainedInt_def andThen_eq_Inr putConstrainedWholeNumber_def)

lemma int8_layout:
  "encodeConstrainedInt 0 255 x = Inr b \<longleftrightarrow> 0 \<le> x \<and> x \<le> 255 \<and> b = [word_of_int x]"
proof -
  have "(ucast (word_of_int x :: u64) :: byte) = word_of_int x"
    by (rule bit_word_eqI) (auto simp: bit_simps)
  with putBits_8 [of newBitWriter "word_of_int x"] show ?thesis
    by (auto simp: encodeConstrainedInt_def andThen_eq_Inr putConstrainedWholeNumber_def)
qed

lemma content_layout:
  "encodeWarningMessageContent data = Inr b \<longleftrightarrow>
     1 \<le> length data \<and> length data \<le> 9600 \<and> b = encode16 (word_of_nat (length data) - 1) @ data"
proof -
  have "putConstrainedWholeNumber newBitWriter 1 9600 (int (length data)) = Inr w \<longleftrightarrow>
      1 \<le> length data \<and> length data \<le> 9600 \<and>
      w = putOctets newBitWriter (encode16 (word_of_nat (length data) - 1))" for w
    using put16_int_layout [of newBitWriter "int (length data) - 1"]
    by (auto simp: putConstrainedWholeNumber_def Suc_le_eq)
  then show ?thesis by (auto simp: encodeWarningMessageContent_Inr)
qed

end
