(* ===== verification/Sbcap_Messages.thy ===== *)
theory Sbcap_Messages
  imports Sbcap_Layout
begin

text \<open>
  \<open>internal/sbcap/messages.go\<close>: the Write-Replace-Warning and Stop-Warning requests, their
  responses and the Error-Indication. For every message: exactly when it can be encoded, and that
  the decoders return each field that was put in, whatever octets follow the PDU.
\<close>

section \<open>Operations\<close>

definition ProcedureWriteReplace :: int where "ProcedureWriteReplace = 0"
definition ProcedureStop :: int where "ProcedureStop = 1"

definition OutcomeInitiating :: int where "OutcomeInitiating = 1"
definition OutcomeSuccessful :: int where "OutcomeSuccessful = 2"
definition OutcomeUnsuccessful :: int where "OutcomeUnsuccessful = 3"

lemmas procedures = ProcedureWriteReplace_def ProcedureStop_def
lemmas outcomes = OutcomeInitiating_def OutcomeSuccessful_def OutcomeUnsuccessful_def

text \<open>The loop that narrows the ids of scope 2 to 16 bits.\<close>

definition narrowTACs :: "u32 list \<Rightarrow> sbcap_error + u16 list" where
  "narrowTACs ids = mapE (\<lambda>i. failIf (i > 0xffff) (TACOutOfRange i) (Inr (ucast i))) ids"

definition buildWarningAreaIE ::
    "int \<Rightarrow> byte list \<Rightarrow> u32 list \<Rightarrow> sbcap_error + protocolIE option" where
  "buildWarningAreaIE scope plmn ids =
     (if scope = 1 then Inr None
      else if scope = 2 then
        andThen (narrowTACs ids) (\<lambda>tacs.
        andThen (encodeWarningAreaListTAIs plmn tacs) (\<lambda>value.
        Inr (Some \<lparr>ie_id = idWarningAreaList, ie_criticality = critIgnore, ie_value = value\<rparr>)))
      else if scope = 3 then
        andThen (encodeWarningAreaListCells plmn ids) (\<lambda>value.
        Inr (Some \<lparr>ie_id = idWarningAreaList, ie_criticality = critIgnore, ie_value = value\<rparr>))
      else Inl (BadScope scope))"

definition WriteReplaceTarget ::
    "u16 \<Rightarrow> u16 \<Rightarrow> byte \<Rightarrow> byte list \<Rightarrow> u16 \<Rightarrow> u16 \<Rightarrow> int \<Rightarrow> byte list \<Rightarrow> u32 list \<Rightarrow>
     sbcap_error + byte list" where
  "WriteReplaceTarget messageID serial dcs contents repetitionPeriod broadcasts scope plmn ids =
     failIf (length contents = 0 \<or> length contents > 9600) (BadContentsLength (length contents)) (
     failIf (scope < 1 \<or> scope > 3 \<or> (scope \<noteq> 1 \<and> (length plmn \<noteq> 3 \<or> length ids = 0)))
       BadWarningArea (
     andThen (encodeWarningMessageContent contents) (\<lambda>msgContent.
     andThen (encodeConstrainedInt 0 4096 (uint repetitionPeriod)) (\<lambda>repContent.
     andThen (encodeConstrainedInt 0 65535 (uint broadcasts)) (\<lambda>broadcastsContent.
     let ies =
       [\<lparr>ie_id = idMessageIdentifier, ie_criticality = critReject, ie_value = encode16 messageID\<rparr>,
        \<lparr>ie_id = idSerialNumber, ie_criticality = critReject, ie_value = encode16 serial\<rparr>] in
     andThen (buildWarningAreaIE scope plmn ids) (\<lambda>wa.
     let ies = (case wa of None \<Rightarrow> ies | Some i \<Rightarrow> ies @ [i]);
         ies = ies @
       [\<lparr>ie_id = idRepetitionPeriod, ie_criticality = critReject, ie_value = repContent\<rparr>,
        \<lparr>ie_id = idNumberOfBroadcastsRequested, ie_criticality = critReject,
         ie_value = broadcastsContent\<rparr>,
        \<lparr>ie_id = idDataCodingScheme, ie_criticality = critIgnore, ie_value = encode8 dcs\<rparr>,
        \<lparr>ie_id = idWarningMessageContent, ie_criticality = critIgnore, ie_value = msgContent\<rparr>,
        \<lparr>ie_id = idConcurrentWarningMessageIndicator, ie_criticality = critReject, ie_value = []\<rparr>,
        \<lparr>ie_id = idSendWriteReplaceWarningIndication, ie_criticality = critIgnore, ie_value = []\<rparr>]
     in encodePDU pduInitiating procWriteReplaceWarning critReject ies))))))"

definition WriteReplace ::
    "u16 \<Rightarrow> u16 \<Rightarrow> byte \<Rightarrow> byte list \<Rightarrow> u16 \<Rightarrow> u16 \<Rightarrow> sbcap_error + byte list" where
  "WriteReplace messageID serial dcs contents repetitionPeriod broadcasts =
     WriteReplaceTarget messageID serial dcs contents repetitionPeriod broadcasts 1 [] []"

definition StopTarget :: "u16 \<Rightarrow> u16 \<Rightarrow> int \<Rightarrow> byte list \<Rightarrow> u32 list \<Rightarrow> sbcap_error + byte list" where
  "StopTarget messageID serial scope plmn ids =
     failIf (scope < 1 \<or> scope > 3 \<or> (scope \<noteq> 1 \<and> (length plmn \<noteq> 3 \<or> length ids = 0)))
       BadWarningArea (
     let ies =
       [\<lparr>ie_id = idMessageIdentifier, ie_criticality = critReject, ie_value = encode16 messageID\<rparr>,
        \<lparr>ie_id = idSerialNumber, ie_criticality = critReject, ie_value = encode16 serial\<rparr>] in
     andThen (buildWarningAreaIE scope plmn ids) (\<lambda>wa.
     let ies = (case wa of None \<Rightarrow> ies | Some i \<Rightarrow> ies @ [i])
     in encodePDU pduInitiating procStopWarning critReject ies))"

definition Stop :: "u16 \<Rightarrow> u16 \<Rightarrow> sbcap_error + byte list" where
  "Stop messageID serial = StopTarget messageID serial 1 [] []"

definition ErrorIndication :: "int \<Rightarrow> sbcap_error + byte list" where
  "ErrorIndication cause =
     andThen (encodeConstrainedInt 0 255 cause) (\<lambda>causeContent.
     encodePDU pduInitiating procErrorIndication critIgnore
       [\<lparr>ie_id = idCause, ie_criticality = critIgnore, ie_value = causeContent\<rparr>])"

text \<open>\<open>(cause, hasCause, nil)\<close> is \<open>Inr (Some cause)\<close> or \<open>Inr None\<close>.\<close>

definition DecodeErrorIndication :: "byte list \<Rightarrow> sbcap_error + int option" where
  "DecodeErrorIndication p =
     andThen (decodePDU p) (\<lambda>d.
     failIf (choiceIndex d \<noteq> pduInitiating \<or> procedureCode d \<noteq> procErrorIndication) NotThisPDU (
     case findIE (ies d) idCause of
       None \<Rightarrow> Inr None
     | Some ie \<Rightarrow> andThen (decodeConstrainedInt (ie_value ie) 0 255) (\<lambda>v. Inr (Some v))))"

definition Header :: "byte list \<Rightarrow> sbcap_error + (int \<times> int)" where
  "Header p = andThen (decodePDU p) (\<lambda>d. Inr (choiceIndex d + 1, procedureCode d))"

text \<open>The tail that \<open>ResponseIDs\<close>, \<open>RequestIDs\<close> and the write-replace indication repeat.\<close>

definition correlationIDs :: "protocolIE list \<Rightarrow> sbcap_error + (u16 \<times> u16)" where
  "correlationIDs is =
     (case findIE is idMessageIdentifier of
        None \<Rightarrow> Inl (MissingIE idMessageIdentifier)
      | Some msgIE \<Rightarrow>
        (case findIE is idSerialNumber of
           None \<Rightarrow> Inl (MissingIE idSerialNumber)
         | Some serialIE \<Rightarrow>
             andThen (decode16 (ie_value msgIE)) (\<lambda>msgID.
             andThen (decode16 (ie_value serialIE)) (\<lambda>serial.
             Inr (msgID, serial)))))"

definition ResponseIDs :: "byte list \<Rightarrow> int \<Rightarrow> sbcap_error + (u16 \<times> u16)" where
  "ResponseIDs p procedure =
     andThen (decodePDU p) (\<lambda>d.
     failIf (choiceIndex d \<noteq> pduSuccessful \<or> procedureCode d \<noteq> procedure) NotThisPDU (
     correlationIDs (ies d)))"

definition RequestIDs :: "byte list \<Rightarrow> sbcap_error + (u16 \<times> u16)" where
  "RequestIDs p =
     andThen (decodePDU p) (\<lambda>d.
     failIf (choiceIndex d \<noteq> pduInitiating) NotThisPDU (
     correlationIDs (ies d)))"

definition SuccessResponse :: "int \<Rightarrow> u16 \<Rightarrow> u16 \<Rightarrow> int \<Rightarrow> sbcap_error + byte list" where
  "SuccessResponse procedure messageID serial cause =
     andThen (if procedure = ProcedureWriteReplace then Inr procWriteReplaceWarning
              else if procedure = ProcedureStop then Inr procStopWarning
              else Inl (BadProcedure procedure)) (\<lambda>proc.
     andThen (encodeConstrainedInt 0 255 cause) (\<lambda>causeContent.
     encodePDU pduSuccessful proc critReject
       [\<lparr>ie_id = idMessageIdentifier, ie_criticality = critReject, ie_value = encode16 messageID\<rparr>,
        \<lparr>ie_id = idSerialNumber, ie_criticality = critReject, ie_value = encode16 serial\<rparr>,
        \<lparr>ie_id = idCause, ie_criticality = critReject, ie_value = causeContent\<rparr>]))"

section \<open>The area IE\<close>

text \<open>The areas that can be encoded, and the octets their IE takes.\<close>

definition okArea :: "int \<Rightarrow> byte list \<Rightarrow> u32 list \<Rightarrow> bool" where
  "okArea scope plmn ids \<longleftrightarrow> scope = 1 \<or>
     (length plmn = 3 \<and> ids \<noteq> [] \<and> length ids \<le> 65535 \<and>
      (scope = 2 \<and> (\<forall>i \<in> set ids. i \<le> 0xffff) \<or> scope = 3 \<and> (\<forall>i \<in> set ids. i \<le> 0x0fffffff)))"

definition areaOctets :: "int \<Rightarrow> u32 list \<Rightarrow> nat" where
  "areaOctets scope ids =
     (if scope = 1 then 0
      else 3 + openTypeOctets (if scope = 2 then 3 + 6 * length ids else 4 + 7 * length ids))"

text \<open>What the decoder returns for an area.\<close>

definition areaOf :: "int \<Rightarrow> byte list \<Rightarrow> u32 list \<Rightarrow> warningArea" where
  "areaOf scope plmn ids =
     \<lparr>isCellList = (scope = 3), wa_plmn = plmn,
      wa_ecis = (if scope = 3 then ids else []), wa_tacs = (if scope = 3 then [] else map ucast ids)\<rparr>"

lemma narrowTACs_Inr: "narrowTACs ids = Inr ts \<longleftrightarrow> (\<forall>i \<in> set ids. i \<le> 0xffff) \<and> ts = map ucast ids"
  unfolding narrowTACs_def
  by (induction ids arbitrary: ts) (auto simp: andThen_eq_Inr not_less)

lemma okArea_scope: "okArea scope plmn ids \<Longrightarrow> scope = 1 \<or> scope = 2 \<or> scope = 3"
  by (auto simp: okArea_def)

lemma buildWarningAreaIE_iff:
  "(scope \<noteq> 1 \<longrightarrow> length plmn = 3 \<and> ids \<noteq> []) \<and> (\<exists>wa. buildWarningAreaIE scope plmn ids = Inr wa)
     \<longleftrightarrow> okArea scope plmn ids"
proof -
  have t: "(\<exists>wa. buildWarningAreaIE 2 plmn ids = Inr wa) \<longleftrightarrow>
      (\<forall>i \<in> set ids. i \<le> 0xffff) \<and> (\<exists>b. encodeWarningAreaListTAIs plmn (map ucast ids) = Inr b)"
    by (auto simp: buildWarningAreaIE_def andThen_eq_Inr narrowTACs_Inr)
  have c: "(\<exists>wa. buildWarningAreaIE 3 plmn ids = Inr wa) \<longleftrightarrow>
      (\<exists>b. encodeWarningAreaListCells plmn ids = Inr b)"
    by (auto simp: buildWarningAreaIE_def andThen_eq_Inr)
  consider "scope = 1" | "scope = 2" | "scope = 3" | "scope \<notin> {1, 2, 3}" by auto
  then show ?thesis
  proof cases
    case 1
    then show ?thesis by (simp add: okArea_def buildWarningAreaIE_def)
  next
    case 2
    then show ?thesis using t encodeTAIs_iff [of plmn "map ucast ids"] by (auto simp: okArea_def)
  next
    case 3
    then show ?thesis using c encodeCells_iff [of plmn ids] by (auto simp: okArea_def okCGI_def)
  next
    case 4
    then show ?thesis by (simp add: okArea_def buildWarningAreaIE_def)
  qed
qed

text \<open>The IE that is built, its size, and that it decodes to the area.\<close>

lemma buildWarningAreaIE_cases:
  assumes "buildWarningAreaIE scope plmn ids = Inr wa"
  obtains "scope = 1" "wa = None"
  | i where "wa = Some i" "scope = 2 \<or> scope = 3" "ie_id i = 15" "ie_criticality i = 1"
    "ieOctets i = areaOctets scope ids" "length (ie_value i) > 0"
    "length (ie_value i) \<le> areaOctets scope ids"
    "\<And>junk. decodeWarningAreaList (ie_value i @ junk) = Inr (areaOf scope plmn ids)"
proof -
  consider "scope = 1" "wa = None"
    | b where "scope = 2" "encodeWarningAreaListTAIs plmn (map ucast ids) = Inr b"
      "wa = Some \<lparr>ie_id = 15, ie_criticality = 1, ie_value = b\<rparr>"
    | b where "scope = 3" "encodeWarningAreaListCells plmn ids = Inr b"
      "wa = Some \<lparr>ie_id = 15, ie_criticality = 1, ie_value = b\<rparr>"
    using assms
    by (auto simp: buildWarningAreaIE_def andThen_eq_Inr narrowTACs_Inr ie_ids pdu_consts
        split: if_splits)
  then show ?thesis
  proof cases
    case 1
    then show ?thesis by (rule that(1))
  next
    case 2
    from encodeTAIs_length [OF 2(2)] decode_tais [OF 2(2)] 2 show ?thesis
      by (intro that(2)) (auto simp: ieOctets_def areaOctets_def areaOf_def openTypeOctets_def Let_def)
  next
    case 3
    from encodeCells_length [OF 3(2)] decode_cells [OF 3(2)] 3 show ?thesis
      by (intro that(2)) (auto simp: ieOctets_def areaOctets_def areaOf_def openTypeOctets_def Let_def)
  qed
qed

section \<open>Write-Replace-Warning-Request\<close>

definition writeReplaceIEs ::
    "u16 \<Rightarrow> u16 \<Rightarrow> byte \<Rightarrow> byte list \<Rightarrow> byte list \<Rightarrow> byte list \<Rightarrow> protocolIE option \<Rightarrow> protocolIE list" where
  "writeReplaceIEs messageID serial dcs msgContent repContent broadcastsContent wa =
     [\<lparr>ie_id = 5, ie_criticality = 0, ie_value = encode16 messageID\<rparr>,
      \<lparr>ie_id = 11, ie_criticality = 0, ie_value = encode16 serial\<rparr>] @
     (case wa of None \<Rightarrow> [] | Some i \<Rightarrow> [i]) @
     [\<lparr>ie_id = 10, ie_criticality = 0, ie_value = repContent\<rparr>,
      \<lparr>ie_id = 7, ie_criticality = 0, ie_value = broadcastsContent\<rparr>,
      \<lparr>ie_id = 3, ie_criticality = 1, ie_value = encode8 dcs\<rparr>,
      \<lparr>ie_id = 16, ie_criticality = 1, ie_value = msgContent\<rparr>,
      \<lparr>ie_id = 20, ie_criticality = 0, ie_value = []\<rparr>,
      \<lparr>ie_id = 24, ie_criticality = 1, ie_value = []\<rparr>]"

definition writeReplaceParts ::
    "byte list \<Rightarrow> u16 \<Rightarrow> u16 \<Rightarrow> int \<Rightarrow> byte list \<Rightarrow> u32 list \<Rightarrow>
     byte list \<Rightarrow> byte list \<Rightarrow> byte list \<Rightarrow> protocolIE option \<Rightarrow> bool" where
  "writeReplaceParts contents rep brd scope plmn ids mc rc bc wa \<longleftrightarrow>
     (scope \<noteq> 1 \<longrightarrow> length plmn = 3 \<and> ids \<noteq> []) \<and>
     encodeWarningMessageContent contents = Inr mc \<and>
     encodeConstrainedInt 0 4096 (uint rep) = Inr rc \<and>
     encodeConstrainedInt 0 65535 (uint brd) = Inr bc \<and>
     buildWarningAreaIE scope plmn ids = Inr wa"

lemma buildWarningAreaIE_scope:
  "buildWarningAreaIE scope plmn ids = Inr wa \<Longrightarrow> 1 \<le> scope \<and> scope \<le> 3"
  by (auto simp: buildWarningAreaIE_def split: if_splits)

lemma WriteReplaceTarget_Inr:
  "WriteReplaceTarget m s d contents rep brd scope plmn ids = Inr p \<longleftrightarrow>
     (\<exists>mc rc bc wa. writeReplaceParts contents rep brd scope plmn ids mc rc bc wa \<and>
        encodePDU 0 0 0 (writeReplaceIEs m s d mc rc bc wa) = Inr p)"
proof -
  have l: "(case wa of None \<Rightarrow> xs | Some i \<Rightarrow> xs @ [i]) @ ys =
      xs @ (case wa of None \<Rightarrow> [] | Some i \<Rightarrow> [i]) @ ys" for wa and xs ys :: "protocolIE list"
    by (cases wa) simp_all
  have "WriteReplaceTarget m s d contents rep brd scope plmn ids = Inr p \<longleftrightarrow>
      \<not> (length contents = 0 \<or> length contents > 9600) \<and>
      \<not> (scope < 1 \<or> scope > 3 \<or> (scope \<noteq> 1 \<and> (length plmn \<noteq> 3 \<or> length ids = 0))) \<and>
      (\<exists>mc. encodeWarningMessageContent contents = Inr mc \<and>
      (\<exists>rc. encodeConstrainedInt 0 4096 (uint rep) = Inr rc \<and>
      (\<exists>bc. encodeConstrainedInt 0 65535 (uint brd) = Inr bc \<and>
      (\<exists>wa. buildWarningAreaIE scope plmn ids = Inr wa \<and>
        encodePDU 0 0 0 (writeReplaceIEs m s d mc rc bc wa) = Inr p))))"
    unfolding WriteReplaceTarget_def writeReplaceIEs_def Let_def ie_ids pdu_consts
      failIf_eq_Inr andThen_eq_Inr l ..
  moreover have "\<not> (length contents = 0 \<or> length contents > 9600)"
    if "encodeWarningMessageContent contents = Inr mc" for mc
  proof -
    from that encodeWarningMessageContent_iff [of contents]
    have "1 \<le> length contents \<and> length contents \<le> 9600" by blast
    then show ?thesis by linarith
  qed
  moreover have "\<not> (scope < 1 \<or> scope > 3)"
    if "buildWarningAreaIE scope plmn ids = Inr wa" for wa
    using buildWarningAreaIE_scope [OF that] by linarith
  ultimately show ?thesis unfolding writeReplaceParts_def length_0_conv by blast
qed

lemma writeReplaceParts_sizes:
  assumes "writeReplaceParts contents rep brd scope plmn ids mc rc bc wa"
  shows "length mc = 2 + length contents" "length rc = 2" "length bc = 2"
  using assms encodeWarningMessageContent_length encodeConstrainedInt_length
  by (fastforce simp: writeReplaceParts_def)+

lemma writeReplaceParts_octets:
  assumes "writeReplaceParts contents rep brd scope plmn ids mc rc bc wa"
  shows "sum_list (map ieOctets (writeReplaceIEs m s d mc rc bc wa)) =
    42 + areaOctets scope ids + openTypeOctets (2 + length contents)"
proof -
  from assms have "buildWarningAreaIE scope plmn ids = Inr wa" by (simp add: writeReplaceParts_def)
  then have "(case wa of None \<Rightarrow> 0 | Some i \<Rightarrow> ieOctets i) = areaOctets scope ids"
    by (cases rule: buildWarningAreaIE_cases) (auto simp: areaOctets_def)
  with writeReplaceParts_sizes [OF assms] show ?thesis
    by (cases wa) (simp_all add: writeReplaceIEs_def ieOctets_def openTypeOctets_def)
qed

lemma writeReplaceParts_ok:
  assumes "writeReplaceParts contents rep brd scope plmn ids mc rc bc wa"
  shows "okPDU 0 0 0 (writeReplaceIEs m s d mc rc bc wa) \<longleftrightarrow>
    45 + areaOctets scope ids + openTypeOctets (2 + length contents) < 16384"
proof -
  note sizes = writeReplaceParts_sizes [OF assms] and octets = writeReplaceParts_octets [OF assms]
  from assms have b: "buildWarningAreaIE scope plmn ids = Inr wa" by (simp add: writeReplaceParts_def)
  from assms have "length contents \<le> 9600"
    using encodeWarningMessageContent_iff by (auto simp: writeReplaceParts_def)
  with sizes have fixed: "okIE i"
    if "i \<in> set (writeReplaceIEs m s d mc rc bc None)" for i
    using that by (auto simp: writeReplaceIEs_def okIE_def)
  from b show ?thesis
  proof (cases rule: buildWarningAreaIE_cases)
    case 1
    then show ?thesis using fixed octets by (auto simp: okPDU_def writeReplaceIEs_def)
  next
    case (2 i)
    then have "areaOctets scope ids < 16384 \<Longrightarrow> okIE i" by (auto simp: okIE_def)
    then show ?thesis using fixed octets 2(1) by (fastforce simp: okPDU_def writeReplaceIEs_def)
  qed
qed

lemma writeReplaceTarget_success:
  "(\<exists>p. WriteReplaceTarget m s d contents rep brd scope plmn ids = Inr p) \<longleftrightarrow>
     1 \<le> length contents \<and> length contents \<le> 9600 \<and> rep \<le> 4096 \<and> okArea scope plmn ids \<and>
     45 + areaOctets scope ids + openTypeOctets (2 + length contents) < 16384"
proof -
  have r: "(\<exists>rc. encodeConstrainedInt 0 4096 (uint rep) = Inr rc) \<longleftrightarrow> rep \<le> 4096"
    by (simp add: encodeConstrainedInt_iff word_le_def)
  have b: "\<exists>bc. encodeConstrainedInt 0 65535 (uint brd) = Inr bc"
    using unsigned_less [of brd, where ?'a = int] by (simp add: encodeConstrainedInt_iff)
  have parts: "(\<exists>mc rc bc wa. writeReplaceParts contents rep brd scope plmn ids mc rc bc wa) \<longleftrightarrow>
      1 \<le> length contents \<and> length contents \<le> 9600 \<and> rep \<le> 4096 \<and> okArea scope plmn ids"
    unfolding writeReplaceParts_def
    using encodeWarningMessageContent_iff [of contents] r b buildWarningAreaIE_iff [of scope plmn ids]
    by blast
  have "(\<exists>p. encodePDU 0 0 0 (writeReplaceIEs m s d mc rc bc wa) = Inr p) \<longleftrightarrow>
      45 + areaOctets scope ids + openTypeOctets (2 + length contents) < 16384"
    if "writeReplaceParts contents rep brd scope plmn ids mc rc bc wa" for mc rc bc wa
    using writeReplaceParts_ok [OF that] by (simp only: encodePDU_success)
  with parts show ?thesis unfolding WriteReplaceTarget_Inr by blast
qed

text \<open>What the receiver decodes: every field of the request, in the order it was written.\<close>

lemma writeReplaceTarget_decodes:
  assumes "WriteReplaceTarget m s d contents rep brd scope plmn ids = Inr p"
  obtains mc rc bc wa where "writeReplaceParts contents rep brd scope plmn ids mc rc bc wa"
    "decodePDU (p @ junk) = Inr \<lparr>choiceIndex = 0, procedureCode = 0, pdu_criticality = 0,
       ies = map sentIE (writeReplaceIEs m s d mc rc bc wa)\<rparr>"
  using assms decode_encode unfolding WriteReplaceTarget_Inr by blast

lemma findIE_map_sentIE: "findIE (map sentIE is) k = map_option sentIE (findIE is k)"
  by (induction "is") auto


text \<open>The fields of a decoded request, read with the package's own value decoders.\<close>

definition fieldsOf :: "protocolIE list \<Rightarrow>
    (u16 \<times> u16 \<times> byte \<times> byte list \<times> int \<times> int) option" where
  "fieldsOf is =
     (case map (findIE is) [5, 11, 3, 16, 10, 7] of
        [Some m, Some s, Some d, Some c, Some r, Some b] \<Rightarrow>
          (case (decode16 (ie_value m), decode16 (ie_value s), decode8 (ie_value d),
                 decodeWarningMessageContent (ie_value c),
                 decodeConstrainedInt (ie_value r) 0 4096,
                 decodeConstrainedInt (ie_value b) 0 65535) of
             (Inr m, Inr s, Inr d, Inr c, Inr r, Inr b) \<Rightarrow> Some (m, s, d, c, r, b)
           | _ \<Rightarrow> None)
      | _ \<Rightarrow> None)"

lemma writeReplaceIEs_fields:
  assumes "writeReplaceParts contents rep brd scope plmn ids mc rc bc wa"
  shows "fieldsOf (map sentIE (writeReplaceIEs m s d mc rc bc wa)) =
    Some (m, s, d, contents, uint rep, uint brd)"
proof -
  note sizes = writeReplaceParts_sizes [OF assms]
  then have ne: "mc \<noteq> []" "rc \<noteq> []" "bc \<noteq> []" by auto
  have dec: "decodeWarningMessageContent mc = Inr contents"
    "decodeConstrainedInt rc 0 4096 = Inr (uint rep)"
    "decodeConstrainedInt bc 0 65535 = Inr (uint brd)"
    using assms decodeWarningMessageContent_encode [where junk = "[]"]
      decodeConstrainedInt_encode [where junk = "[]"]
    by (auto simp: writeReplaceParts_def)
  from assms have "buildWarningAreaIE scope plmn ids = Inr wa" by (simp add: writeReplaceParts_def)
  then have "\<And>i. wa = Some i \<Longrightarrow> ie_id i = 15"
    by (cases rule: buildWarningAreaIE_cases) auto
  then show ?thesis
    by (cases wa) (simp_all add: fieldsOf_def findIE_map_sentIE writeReplaceIEs_def ne dec)
qed

lemma writeReplaceIEs_area:
  assumes "writeReplaceParts contents rep brd scope plmn ids mc rc bc wa"
  shows "map_option (decodeWarningAreaList \<circ> ie_value)
      (findIE (map sentIE (writeReplaceIEs m s d mc rc bc wa)) idWarningAreaList) =
    (if scope = 1 then None else Some (Inr (areaOf scope plmn ids)))"
proof -
  from assms have "buildWarningAreaIE scope plmn ids = Inr wa" by (simp add: writeReplaceParts_def)
  then show ?thesis
  proof (cases rule: buildWarningAreaIE_cases)
    case 1
    then show ?thesis by (simp add: findIE_map_sentIE writeReplaceIEs_def ie_ids)
  next
    case (2 i)
    from 2(8) [of "[]"] 2 show ?thesis
      by (auto simp: findIE_map_sentIE writeReplaceIEs_def ie_ids)
  qed
qed

lemma writeReplaceIEs_correlation:
  "correlationIDs (map sentIE (writeReplaceIEs m s d mc rc bc wa)) = Inr (m, s)"
  by (simp add: correlationIDs_def findIE_map_sentIE writeReplaceIEs_def ie_ids)

section \<open>Stop-Warning-Request\<close>

definition stopIEs :: "u16 \<Rightarrow> u16 \<Rightarrow> protocolIE option \<Rightarrow> protocolIE list" where
  "stopIEs messageID serial wa =
     [\<lparr>ie_id = 5, ie_criticality = 0, ie_value = encode16 messageID\<rparr>,
      \<lparr>ie_id = 11, ie_criticality = 0, ie_value = encode16 serial\<rparr>] @
     (case wa of None \<Rightarrow> [] | Some i \<Rightarrow> [i])"

lemma StopTarget_Inr:
  "StopTarget m s scope plmn ids = Inr p \<longleftrightarrow>
     (scope \<noteq> 1 \<longrightarrow> length plmn = 3 \<and> ids \<noteq> []) \<and>
     (\<exists>wa. buildWarningAreaIE scope plmn ids = Inr wa \<and> encodePDU 0 1 0 (stopIEs m s wa) = Inr p)"
proof -
  have l: "(case wa of None \<Rightarrow> xs | Some i \<Rightarrow> xs @ [i]) =
      xs @ (case wa of None \<Rightarrow> [] | Some i \<Rightarrow> [i])" for wa and xs :: "protocolIE list"
    by (cases wa) simp_all
  have "StopTarget m s scope plmn ids = Inr p \<longleftrightarrow>
      \<not> (scope < 1 \<or> scope > 3 \<or> (scope \<noteq> 1 \<and> (length plmn \<noteq> 3 \<or> length ids = 0))) \<and>
      (\<exists>wa. buildWarningAreaIE scope plmn ids = Inr wa \<and>
        encodePDU 0 1 0 (stopIEs m s wa) = Inr p)"
    unfolding StopTarget_def stopIEs_def Let_def ie_ids pdu_consts failIf_eq_Inr andThen_eq_Inr l ..
  moreover have "\<not> (scope < 1 \<or> scope > 3)"
    if "buildWarningAreaIE scope plmn ids = Inr wa" for wa
    using buildWarningAreaIE_scope [OF that] by linarith
  ultimately show ?thesis unfolding length_0_conv by blast
qed

lemma stopTarget_success:
  "(\<exists>p. StopTarget m s scope plmn ids = Inr p) \<longleftrightarrow>
     okArea scope plmn ids \<and> 15 + areaOctets scope ids < 16384"
proof -
  have "(\<exists>p. encodePDU 0 1 0 (stopIEs m s wa) = Inr p) \<longleftrightarrow> 15 + areaOctets scope ids < 16384"
    if "buildWarningAreaIE scope plmn ids = Inr wa" for wa
    using that unfolding encodePDU_success
    by (cases rule: buildWarningAreaIE_cases)
       (auto simp: okPDU_def stopIEs_def okIE_def ieOctets_def openTypeOctets_def areaOctets_def)
  with buildWarningAreaIE_iff [of scope plmn ids] show ?thesis unfolding StopTarget_Inr by blast
qed

lemma stopTarget_decodes:
  assumes "StopTarget m s scope plmn ids = Inr p"
  obtains wa where "buildWarningAreaIE scope plmn ids = Inr wa"
    "decodePDU (p @ junk) = Inr \<lparr>choiceIndex = 0, procedureCode = 1, pdu_criticality = 0,
       ies = map sentIE (stopIEs m s wa)\<rparr>"
  using assms decode_encode unfolding StopTarget_Inr by blast

lemma stopIEs_correlation: "correlationIDs (map sentIE (stopIEs m s wa)) = Inr (m, s)"
  by (simp add: correlationIDs_def findIE_map_sentIE stopIEs_def ie_ids)

lemma stopIEs_area:
  assumes "buildWarningAreaIE scope plmn ids = Inr wa"
  shows "map_option (decodeWarningAreaList \<circ> ie_value)
      (findIE (map sentIE (stopIEs m s wa)) idWarningAreaList) =
    (if scope = 1 then None else Some (Inr (areaOf scope plmn ids)))"
  using assms
proof (cases rule: buildWarningAreaIE_cases)
  case 1
  then show ?thesis by (simp add: findIE_map_sentIE stopIEs_def ie_ids)
next
  case (2 i)
  from 2(8) [of "[]"] 2 show ?thesis by (auto simp: findIE_map_sentIE stopIEs_def ie_ids)
qed

section \<open>Responses and Error-Indication\<close>

lemma cause_octets:
  assumes "encodeConstrainedInt 0 255 cause = Inr b"
  shows "length b = 1"
  using encodeConstrainedInt_length [OF assms] by simp

lemma successResponse_success:
  "(\<exists>p. SuccessResponse procedure m s cause = Inr p) \<longleftrightarrow>
     procedure \<in> {0, 1} \<and> 0 \<le> cause \<and> cause \<le> 255"
proof -
  have "\<exists>p. encodePDU 1 procedure 0 [\<lparr>ie_id = 5, ie_criticality = 0, ie_value = encode16 m\<rparr>,
      \<lparr>ie_id = 11, ie_criticality = 0, ie_value = encode16 s\<rparr>,
      \<lparr>ie_id = 1, ie_criticality = 0, ie_value = b\<rparr>] = Inr p"
    if "encodeConstrainedInt 0 255 cause = Inr b" "procedure \<in> {0, 1}" for b
    using cause_octets [OF that(1)] that(2) unfolding encodePDU_success
    by (auto simp: okPDU_def okIE_def ieOctets_def openTypeOctets_def)
  moreover have "SuccessResponse procedure m s cause =
      (if procedure \<in> {0, 1} then andThen (encodeConstrainedInt 0 255 cause) (\<lambda>b.
         encodePDU 1 procedure 0 [\<lparr>ie_id = 5, ie_criticality = 0, ie_value = encode16 m\<rparr>,
          \<lparr>ie_id = 11, ie_criticality = 0, ie_value = encode16 s\<rparr>,
          \<lparr>ie_id = 1, ie_criticality = 0, ie_value = b\<rparr>])
       else Inl (BadProcedure procedure))"
    by (simp add: SuccessResponse_def procedures pdu_consts ie_ids)
  ultimately have "(\<exists>p. SuccessResponse procedure m s cause = Inr p) \<longleftrightarrow>
      procedure \<in> {0, 1} \<and> (\<exists>b. encodeConstrainedInt 0 255 cause = Inr b)"
    by (cases "procedure \<in> {0, 1}") (simp_all only: if_True if_False andThen_eq_Inr, blast+)
  then show ?thesis by (simp add: encodeConstrainedInt_iff)
qed

lemma successResponse_decodes:
  assumes "SuccessResponse procedure m s cause = Inr p"
  obtains b where "encodeConstrainedInt 0 255 cause = Inr b" "procedure \<in> {0, 1}"
    "decodePDU (p @ junk) = Inr \<lparr>choiceIndex = 1, procedureCode = procedure, pdu_criticality = 0,
       ies = map sentIE [\<lparr>ie_id = 5, ie_criticality = 0, ie_value = encode16 m\<rparr>,
         \<lparr>ie_id = 11, ie_criticality = 0, ie_value = encode16 s\<rparr>,
         \<lparr>ie_id = 1, ie_criticality = 0, ie_value = b\<rparr>]\<rparr>"
proof -
  from assms obtain b where b: "encodeConstrainedInt 0 255 cause = Inr b" "procedure \<in> {0, 1}"
    and e: "encodePDU 1 procedure 0 [\<lparr>ie_id = 5, ie_criticality = 0, ie_value = encode16 m\<rparr>,
         \<lparr>ie_id = 11, ie_criticality = 0, ie_value = encode16 s\<rparr>,
         \<lparr>ie_id = 1, ie_criticality = 0, ie_value = b\<rparr>] = Inr p"
    by (auto simp: SuccessResponse_def andThen_eq_Inr procedures pdu_consts ie_ids split: if_splits)
  from that [OF b decode_encode [OF e]] show ?thesis .
qed

lemma errorIndication_decodes:
  assumes "ErrorIndication cause = Inr p"
  shows "DecodeErrorIndication (p @ junk) = Inr (Some cause)"
proof -
  from assms obtain b where b: "encodeConstrainedInt 0 255 cause = Inr b"
    and e: "encodePDU 0 2 1 [\<lparr>ie_id = 1, ie_criticality = 1, ie_value = b\<rparr>] = Inr p"
    by (auto simp: ErrorIndication_def andThen_eq_Inr pdu_consts ie_ids)
  from cause_octets [OF b] have "b \<noteq> []" by auto
  with decode_encode [OF e, of junk] decodeConstrainedInt_encode [OF b, of "[]"] show ?thesis
    by (simp add: DecodeErrorIndication_def pdu_consts ie_ids)
qed

lemma errorIndication_success:
  "(\<exists>p. ErrorIndication cause = Inr p) \<longleftrightarrow> 0 \<le> cause \<and> cause \<le> 255"
proof -
  have "\<exists>p. encodePDU 0 2 1 [\<lparr>ie_id = 1, ie_criticality = 1, ie_value = b\<rparr>] = Inr p"
    if "encodeConstrainedInt 0 255 cause = Inr b" for b
    using cause_octets [OF that] unfolding encodePDU_success
    by (auto simp: okPDU_def okIE_def ieOctets_def openTypeOctets_def)
  then have "(\<exists>p. ErrorIndication cause = Inr p) \<longleftrightarrow> (\<exists>b. encodeConstrainedInt 0 255 cause = Inr b)"
    unfolding ErrorIndication_def andThen_eq_Inr pdu_consts ie_ids by blast
  then show ?thesis by (simp add: encodeConstrainedInt_iff)
qed

section \<open>The messages in octets\<close>

definition areaLayout :: "int \<Rightarrow> byte list \<Rightarrow> u32 list \<Rightarrow> protocolIE option" where
  "areaLayout scope plmn ids =
     (if scope = 1 then None
      else Some \<lparr>ie_id = 15, ie_criticality = 1,
        ie_value = (if scope = 2 then taisLayout plmn (map ucast ids) else cellsLayout plmn ids)\<rparr>)"

lemma buildWarningAreaIE_layout:
  "(scope \<noteq> 1 \<longrightarrow> length plmn = 3 \<and> ids \<noteq> []) \<and> buildWarningAreaIE scope plmn ids = Inr wa \<longleftrightarrow>
     okArea scope plmn ids \<and> wa = areaLayout scope plmn ids"
proof -
  have "wa = areaLayout scope plmn ids" if "buildWarningAreaIE scope plmn ids = Inr wa" for wa
    using that
    by (auto simp: buildWarningAreaIE_def andThen_eq_Inr narrowTACs_Inr tais_layout cells_layout
        areaLayout_def ie_ids pdu_consts split: if_splits)
  with buildWarningAreaIE_iff [of scope plmn ids] show ?thesis by auto
qed

definition writeReplaceLayout ::
    "u16 \<Rightarrow> u16 \<Rightarrow> byte \<Rightarrow> byte list \<Rightarrow> u16 \<Rightarrow> u16 \<Rightarrow> int \<Rightarrow> byte list \<Rightarrow> u32 list \<Rightarrow> byte list" where
  "writeReplaceLayout m s d contents rep brd scope plmn ids =
     pduLayout 0 0 0 (writeReplaceIEs m s d (encode16 (word_of_nat (length contents) - 1) @ contents)
       (encode16 rep) (encode16 brd) (areaLayout scope plmn ids))"

lemma writeReplaceTarget_layout:
  assumes "WriteReplaceTarget m s d contents rep brd scope plmn ids = Inr p"
  shows "p = writeReplaceLayout m s d contents rep brd scope plmn ids"
proof -
  from assms obtain mc rc bc wa where
    w: "writeReplaceParts contents rep brd scope plmn ids mc rc bc wa"
    and p: "encodePDU 0 0 0 (writeReplaceIEs m s d mc rc bc wa) = Inr p"
    unfolding WriteReplaceTarget_Inr by blast
  have "wa = areaLayout scope plmn ids"
    using w buildWarningAreaIE_layout by (auto simp: writeReplaceParts_def)
  moreover have "mc = encode16 (word_of_nat (length contents) - 1) @ contents"
    using w by (simp add: writeReplaceParts_def content_layout)
  moreover have "rc = encode16 rep" "bc = encode16 brd"
    using w by (simp_all add: writeReplaceParts_def int16_layout)
  ultimately show ?thesis using p by (simp add: pdu_layout writeReplaceLayout_def)
qed

lemma writeReplaceTarget_eq:
  "1 \<le> length contents \<Longrightarrow> length contents \<le> 9600 \<Longrightarrow> rep \<le> 4096 \<Longrightarrow> okArea scope plmn ids \<Longrightarrow>
   45 + areaOctets scope ids + openTypeOctets (2 + length contents) < 16384 \<Longrightarrow>
   WriteReplaceTarget m s d contents rep brd scope plmn ids =
     Inr (writeReplaceLayout m s d contents rep brd scope plmn ids)"
  using writeReplaceTarget_success [of m s d contents rep brd scope plmn ids]
    writeReplaceTarget_layout by blast

lemma stopTarget_eq:
  assumes "okArea scope plmn ids" "15 + areaOctets scope ids < 16384"
  shows "StopTarget m s scope plmn ids =
    Inr (pduLayout 0 1 0 (stopIEs m s (areaLayout scope plmn ids)))"
proof -
  from assms stopTarget_success [of m s scope plmn ids] obtain p where
    p: "StopTarget m s scope plmn ids = Inr p" by blast
  then obtain wa where "buildWarningAreaIE scope plmn ids = Inr wa"
    "scope \<noteq> 1 \<longrightarrow> length plmn = 3 \<and> ids \<noteq> []" "p = pduLayout 0 1 0 (stopIEs m s wa)"
    unfolding StopTarget_Inr pdu_layout by blast
  moreover from this buildWarningAreaIE_layout have "wa = areaLayout scope plmn ids" by blast
  ultimately show ?thesis using p by simp
qed

lemma successResponse_eq:
  assumes "procedure \<in> {0, 1}" "0 \<le> cause" "cause \<le> 255"
  shows "SuccessResponse procedure m s cause = Inr (pduLayout 1 procedure 0
    [\<lparr>ie_id = 5, ie_criticality = 0, ie_value = encode16 m\<rparr>,
     \<lparr>ie_id = 11, ie_criticality = 0, ie_value = encode16 s\<rparr>,
     \<lparr>ie_id = 1, ie_criticality = 0, ie_value = [word_of_int cause]\<rparr>])"
proof -
  from assms successResponse_success [of procedure m s cause] obtain p where
    p: "SuccessResponse procedure m s cause = Inr p" by blast
  then show ?thesis
    by (auto simp: SuccessResponse_def andThen_eq_Inr procedures pdu_consts ie_ids pdu_layout
        int8_layout split: if_splits)
qed

lemmas layout_defs = pduLayout_def openTypeLayout_def bodyLayout_def ieLayout_def encode16_def
  encode8_def lengthLayout_def widen_def areaLayout_def taisLayout_def cellsLayout_def be32_def

lemmas area_defs = okArea_def areaOctets_def openTypeOctets_def

section \<open>The recorded messages\<close>

text \<open>\<open>testdata/*.hex\<close>: octets recorded from a reference implementation.\<close>

lemma write_cell_vector:
  "WriteReplaceTarget 0x1112 0x4000 1 ([1] @ replicate 82 0 @ [1]) 30 4 3 [0x13, 0x41, 0x53] [1280001, 1280002] =
   Inr ([0, 0, 0, 0x80, 0x9a, 0, 0, 9, 0, 5, 0, 2, 0x11, 0x12, 0, 0xb, 0, 2, 0x40, 0, 0, 0xf,
     0x40, 0x12, 0, 0, 1, 0, 0x13, 0x41, 0x53, 1, 0x38, 0x80, 0x10, 0x13, 0x41, 0x53, 1,
     0x38, 0x80, 0x20, 0, 0xa, 0, 2, 0, 0x1e, 0, 7, 0, 2, 0, 4, 0, 3, 0x40, 1, 1, 0, 0x10,
     0x40, 0x56, 0, 0x53, 1] @ replicate 82 0 @ [1, 0, 0x14, 0, 1, 0, 0, 0x18, 0x40, 1, 0])"
  by (subst writeReplaceTarget_eq)
     (simp_all add: area_defs, simp add: writeReplaceLayout_def writeReplaceIEs_def layout_defs)

lemma write_ta_vector:
  "WriteReplaceTarget 0x1112 0x4000 1 ([1] @ replicate 82 0 @ [1]) 30 4 2 [0x13, 0x41, 0x53] [100, 200] =
   Inr ([0, 0, 0, 0x80, 0x97, 0, 0, 9, 0, 5, 0, 2, 0x11, 0x12, 0, 0xb, 0, 2, 0x40, 0, 0, 0xf,
     0x40, 0xf, 0x20, 0, 1, 0, 0x13, 0x41, 0x53, 0, 0x64, 0, 0x13, 0x41, 0x53, 0, 0xc8, 0,
     0xa, 0, 2, 0, 0x1e, 0, 7, 0, 2, 0, 4, 0, 3, 0x40, 1, 1, 0, 0x10, 0x40, 0x56, 0, 0x53,
     1] @ replicate 82 0 @ [1, 0, 0x14, 0, 1, 0, 0, 0x18, 0x40, 1, 0])"
  by (subst writeReplaceTarget_eq)
     (simp_all add: area_defs, simp add: writeReplaceLayout_def writeReplaceIEs_def layout_defs)

lemma write_plmn_vector:
  "WriteReplaceTarget 0x1112 0x4000 1 ([1] @ replicate 82 0 @ [1]) 30 4 1 [] [] =
   Inr ([0, 0, 0, 0x80, 0x84, 0, 0, 8, 0, 5, 0, 2, 0x11, 0x12, 0, 0xb, 0, 2, 0x40, 0, 0, 0xa, 0,
     2, 0, 0x1e, 0, 7, 0, 2, 0, 4, 0, 3, 0x40, 1, 1, 0, 0x10, 0x40, 0x56, 0, 0x53, 1] @
     replicate 82 0 @ [1, 0, 0x14, 0, 1, 0, 0, 0x18, 0x40, 1, 0])"
  by (subst writeReplaceTarget_eq)
     (simp_all add: area_defs, simp add: writeReplaceLayout_def writeReplaceIEs_def layout_defs)

lemma stop_cell_vector:
  "StopTarget 0x1112 0x8000 3 [0x13, 0x41, 0x53] [1280001, 1280002] =
   Inr ([0, 1, 0, 0x25, 0, 0, 3, 0, 5, 0, 2, 0x11, 0x12, 0, 0xb, 0, 2, 0x80, 0, 0, 0xf, 0x40,
     0x12, 0, 0, 1, 0, 0x13, 0x41, 0x53, 1, 0x38, 0x80, 0x10, 0x13, 0x41, 0x53, 1, 0x38,
     0x80, 0x20])"
  by (subst stopTarget_eq) (simp_all add: area_defs, simp add: stopIEs_def layout_defs)

lemma stop_ta_vector:
  "StopTarget 0x1112 0x8000 2 [0x13, 0x41, 0x53] [100, 200] =
   Inr ([0, 1, 0, 0x22, 0, 0, 3, 0, 5, 0, 2, 0x11, 0x12, 0, 0xb, 0, 2, 0x80, 0, 0, 0xf, 0x40,
     0xf, 0x20, 0, 1, 0, 0x13, 0x41, 0x53, 0, 0x64, 0, 0x13, 0x41, 0x53, 0, 0xc8])"
  by (subst stopTarget_eq) (simp_all add: area_defs, simp add: stopIEs_def layout_defs)

lemma stop_plmn_vector:
  "StopTarget 0x1112 0x4000 1 [] [] =
   Inr ([0, 1, 0, 0xf, 0, 0, 2, 0, 5, 0, 2, 0x11, 0x12, 0, 0xb, 0, 2, 0x40, 0])"
  by (subst stopTarget_eq) (simp_all add: area_defs, simp add: stopIEs_def layout_defs)

lemma response_write_replace_vector:
  "ResponseIDs ([0x20, 0, 0, 0xf, 0, 0, 2, 0, 5, 0, 2, 0x11, 0x12, 0, 0xb, 0, 2, 0xc0, 0]) 0 = Inr (0x1112, 0xc000)"
proof -
  let ?ies = "[\<lparr>ie_id = 5, ie_criticality = 0, ie_value = encode16 0x1112\<rparr>,
    \<lparr>ie_id = 11, ie_criticality = 0, ie_value = encode16 0xc000\<rparr>]"
  have "encodePDU 1 0 0 ?ies = Inr ([0x20, 0, 0, 0xf, 0, 0, 2, 0, 5, 0, 2, 0x11, 0x12, 0, 0xb, 0, 2, 0xc0, 0])"
    by (simp add: pdu_layout okPDU_def okIE_def ieOctets_def openTypeOctets_def layout_defs)
  from decode_encode [OF this, of "[]"] show ?thesis
    by (simp add: ResponseIDs_def pdu_consts correlationIDs_def ie_ids)
qed

lemma response_stop_vector:
  "ResponseIDs ([0x20, 1, 0, 0xf, 0, 0, 2, 0, 5, 0, 2, 0x11, 0x12, 0, 0xb, 0, 2, 0x80, 0]) 1 = Inr (0x1112, 0x8000)"
proof -
  let ?ies = "[\<lparr>ie_id = 5, ie_criticality = 0, ie_value = encode16 0x1112\<rparr>,
    \<lparr>ie_id = 11, ie_criticality = 0, ie_value = encode16 0x8000\<rparr>]"
  have "encodePDU 1 1 0 ?ies = Inr ([0x20, 1, 0, 0xf, 0, 0, 2, 0, 5, 0, 2, 0x11, 0x12, 0, 0xb, 0, 2, 0x80, 0])"
    by (simp add: pdu_layout okPDU_def okIE_def ieOctets_def openTypeOctets_def layout_defs)
  from decode_encode [OF this, of "[]"] show ?thesis
    by (simp add: ResponseIDs_def pdu_consts correlationIDs_def ie_ids)
qed

section \<open>Properties\<close>

text \<open>A Write-Replace-Warning-Request is produced exactly when the page container has 1 to
  9600 octets, the repetition period is at most 4096, the area is the whole PLMN or a non-empty
  list of 16-bit TACs or 28-bit cell identities under a three-octet PLMN, and the message body
  stays below the 16384 octets that one open type can hold; in every other case an error is
  returned.\<close>

theorem write_replace_encodable:
  "isl (WriteReplaceTarget m s d contents rep brd scope plmn ids) \<longleftrightarrow>
     \<not> (1 \<le> length contents \<and> length contents \<le> 9600 \<and> rep \<le> 4096 \<and> okArea scope plmn ids \<and>
        45 + areaOctets scope ids + openTypeOctets (2 + length contents) < 16384)"
  using writeReplaceTarget_success [of m s d contents rep brd scope plmn ids]
  by (cases "WriteReplaceTarget m s d contents rep brd scope plmn ids") auto

text \<open>C13: whoever decodes the octets of a Write-Replace-Warning-Request, with or without octets
  after it, reads back the outcome class and procedure, the correlation ids, the data coding
  scheme, the page container, the repetition period, the number of broadcasts and the warning
  area that were encoded.\<close>

theorem write_replace_roundtrip:
  assumes "WriteReplaceTarget m s d contents rep brd scope plmn ids = Inr p"
  shows "Header (p @ junk) = Inr (OutcomeInitiating, ProcedureWriteReplace) \<and>
    RequestIDs (p @ junk) = Inr (m, s) \<and>
    (\<exists>q. decodePDU (p @ junk) = Inr q \<and>
      fieldsOf (ies q) = Some (m, s, d, contents, uint rep, uint brd) \<and>
      map_option (decodeWarningAreaList \<circ> ie_value) (findIE (ies q) idWarningAreaList) =
        (if scope = 1 then None else Some (Inr (areaOf scope plmn ids))))"
proof -
  obtain mc rc bc wa where w: "writeReplaceParts contents rep brd scope plmn ids mc rc bc wa"
    and d: "decodePDU (p @ junk) = Inr \<lparr>choiceIndex = 0, procedureCode = 0, pdu_criticality = 0,
      ies = map sentIE (writeReplaceIEs m s d mc rc bc wa)\<rparr>"
    by (rule writeReplaceTarget_decodes [OF assms])
  show ?thesis
    by (simp add: Header_def RequestIDs_def d outcomes procedures pdu_consts
        writeReplaceIEs_fields [OF w] writeReplaceIEs_area [OF w] writeReplaceIEs_correlation)
qed

theorem write_replace_roundtrip_witness:
  "RequestIDs (writeReplaceLayout 0x1112 0x4000 1 [1, 2, 3] 30 4 3 [0x13, 0x41, 0x53] [1280001] @ [0xff]) =
     Inr (0x1112, 0x4000)"
proof -
  have "WriteReplaceTarget 0x1112 0x4000 1 [1, 2, 3] 30 4 3 [0x13, 0x41, 0x53] [1280001] =
      Inr (writeReplaceLayout 0x1112 0x4000 1 [1, 2, 3] 30 4 3 [0x13, 0x41, 0x53] [1280001])"
    by (rule writeReplaceTarget_eq) (simp_all add: area_defs)
  from write_replace_roundtrip [OF this] show ?thesis by blast
qed

text \<open>A Write-Replace-Warning-Request for \<open>n\<close> cells and a container of \<open>k\<close> pages (one octet
  and 83 per page) can be encoded exactly while \<open>59 + 83 * k + 7 * n < 16384\<close> (58 for one page): one
  page leaves room for 2320 cells, fifteen pages for 2154. A larger cell list is refused, whatever
  the other fields.\<close>

theorem write_replace_cell_limit:
  "k \<in> {1..15} \<Longrightarrow> length contents = 1 + 83 * k \<Longrightarrow> okArea 3 plmn ecis \<Longrightarrow> rep \<le> 4096 \<Longrightarrow>
   (\<exists>p. WriteReplaceTarget m s d contents rep brd 3 plmn ecis = Inr p) \<longleftrightarrow>
     (if k = 1 then 58 else 59) + 83 * k + 7 * length ecis < 16384"
  unfolding writeReplaceTarget_success by (auto simp: area_defs)

text \<open>The limit for a broadcast of one page: 2320 cells are encoded and 2321 are refused.\<close>

theorem write_replace_cell_limit_witness:
  "(\<exists>p. WriteReplaceTarget 1 2 1 (replicate 84 0) 30 4 3 [1, 2, 3] (replicate 2320 5) = Inr p) \<and>
   \<not> (\<exists>p. WriteReplaceTarget 1 2 1 (replicate 84 0) 30 4 3 [1, 2, 3] (replicate 2321 5) = Inr p)"
proof -
  have a: "okArea 3 [1, 2, 3] (replicate n 5)" if "0 < n" "n \<le> 65535" for n
    using that by (simp add: okArea_def)
  show ?thesis
    using write_replace_cell_limit [of 1 "replicate 84 0" "[1, 2, 3]" "replicate 2320 5" 30 1 2 1 4]
      write_replace_cell_limit [of 1 "replicate 84 0" "[1, 2, 3]" "replicate 2321 5" 30 1 2 1 4]
      a [of 2320] a [of 2321]
    by simp
qed

text \<open>A Stop-Warning-Request is produced exactly for the areas that a request can carry and a
  body below the open-type limit; decoding it, whatever follows, returns the class, the procedure,
  the correlation ids and the very area of the broadcast that is being stopped.\<close>

theorem stop_roundtrip:
  "case StopTarget m s scope plmn ids of
     Inl e \<Rightarrow> \<not> (okArea scope plmn ids \<and> 15 + areaOctets scope ids < 16384)
   | Inr p \<Rightarrow> okArea scope plmn ids \<and> 15 + areaOctets scope ids < 16384 \<and>
       Header (p @ junk) = Inr (OutcomeInitiating, ProcedureStop) \<and>
       RequestIDs (p @ junk) = Inr (m, s) \<and>
       map_sum id (\<lambda>q. map_option (decodeWarningAreaList \<circ> ie_value)
           (findIE (ies q) idWarningAreaList)) (decodePDU (p @ junk)) =
         Inr (if scope = 1 then None else Some (Inr (areaOf scope plmn ids)))"
proof (cases "StopTarget m s scope plmn ids")
  case (Inl e)
  then show ?thesis using stopTarget_success [of m s scope plmn ids] by auto
next
  case (Inr p)
  obtain wa where b: "buildWarningAreaIE scope plmn ids = Inr wa"
    and d: "decodePDU (p @ junk) = Inr \<lparr>choiceIndex = 0, procedureCode = 1, pdu_criticality = 0,
      ies = map sentIE (stopIEs m s wa)\<rparr>"
    by (rule stopTarget_decodes [OF Inr])
  have "okArea scope plmn ids \<and> 15 + areaOctets scope ids < 16384"
    using stopTarget_success [of m s scope plmn ids] Inr by blast
  then show ?thesis
    by (simp add: Inr Header_def RequestIDs_def d outcomes procedures pdu_consts
        stopIEs_area [OF b] stopIEs_correlation)
qed

text \<open>A response can be encoded exactly for the two warning procedures and an octet-sized
  cause; the CBC then reads the ids the MME put in, accepts them for the procedure they answer and
  for no other, and never takes a response for a request.\<close>

theorem response_roundtrip:
  "case SuccessResponse procedure m s cause of
     Inl e \<Rightarrow> \<not> (procedure \<in> {ProcedureWriteReplace, ProcedureStop} \<and> 0 \<le> cause \<and> cause \<le> 255)
   | Inr p \<Rightarrow> Header (p @ junk) = Inr (OutcomeSuccessful, procedure) \<and>
       ResponseIDs (p @ junk) other =
         (if other = procedure then Inr (m, s) else Inl NotThisPDU) \<and>
       RequestIDs (p @ junk) = Inl NotThisPDU"
proof (cases "SuccessResponse procedure m s cause")
  case (Inl e)
  then show ?thesis
    using successResponse_success [of procedure m s cause] by (auto simp: procedures)
next
  case (Inr p)
  obtain b where d: "decodePDU (p @ junk) = Inr \<lparr>choiceIndex = 1, procedureCode = procedure,
       pdu_criticality = 0, ies = map sentIE [\<lparr>ie_id = 5, ie_criticality = 0, ie_value = encode16 m\<rparr>,
         \<lparr>ie_id = 11, ie_criticality = 0, ie_value = encode16 s\<rparr>,
         \<lparr>ie_id = 1, ie_criticality = 0, ie_value = b\<rparr>]\<rparr>"
    by (rule successResponse_decodes [OF Inr])
  show ?thesis
    by (simp add: Inr Header_def ResponseIDs_def RequestIDs_def d outcomes pdu_consts
        correlationIDs_def ie_ids)
qed

text \<open>An Error-Indication is encoded exactly for a cause between 0 and 255, and is decoded to
  that cause.\<close>

theorem error_indication_roundtrip:
  "case ErrorIndication cause of
     Inl e \<Rightarrow> cause < 0 \<or> cause > 255
   | Inr p \<Rightarrow> 0 \<le> cause \<and> cause \<le> 255 \<and> DecodeErrorIndication (p @ junk) = Inr (Some cause)"
  using errorIndication_success [of cause] errorIndication_decodes [of cause _ junk]
  by (auto split: sum.split)

text \<open>The encoders give, octet for octet, the Write-Replace-Warning and Stop-Warning requests
  recorded in \<open>testdata/\<close> from a reference implementation for cell, tracking-area and PLMN wide
  areas, and the recorded responses are decoded to the ids they answer.\<close>

theorem recorded_messages:
  "(WriteReplaceTarget 0x1112 0x4000 1 ([1] @ replicate 82 0 @ [1]) 30 4 3 [0x13, 0x41, 0x53] [1280001, 1280002] =
   Inr ([0, 0, 0, 0x80, 0x9a, 0, 0, 9, 0, 5, 0, 2, 0x11, 0x12, 0, 0xb, 0, 2, 0x40, 0, 0, 0xf,
     0x40, 0x12, 0, 0, 1, 0, 0x13, 0x41, 0x53, 1, 0x38, 0x80, 0x10, 0x13, 0x41, 0x53, 1,
     0x38, 0x80, 0x20, 0, 0xa, 0, 2, 0, 0x1e, 0, 7, 0, 2, 0, 4, 0, 3, 0x40, 1, 1, 0, 0x10,
     0x40, 0x56, 0, 0x53, 1] @ replicate 82 0 @ [1, 0, 0x14, 0, 1, 0, 0, 0x18, 0x40, 1, 0])) \<and>
   (WriteReplaceTarget 0x1112 0x4000 1 ([1] @ replicate 82 0 @ [1]) 30 4 2 [0x13, 0x41, 0x53] [100, 200] =
   Inr ([0, 0, 0, 0x80, 0x97, 0, 0, 9, 0, 5, 0, 2, 0x11, 0x12, 0, 0xb, 0, 2, 0x40, 0, 0, 0xf,
     0x40, 0xf, 0x20, 0, 1, 0, 0x13, 0x41, 0x53, 0, 0x64, 0, 0x13, 0x41, 0x53, 0, 0xc8, 0,
     0xa, 0, 2, 0, 0x1e, 0, 7, 0, 2, 0, 4, 0, 3, 0x40, 1, 1, 0, 0x10, 0x40, 0x56, 0, 0x53,
     1] @ replicate 82 0 @ [1, 0, 0x14, 0, 1, 0, 0, 0x18, 0x40, 1, 0])) \<and>
   (WriteReplaceTarget 0x1112 0x4000 1 ([1] @ replicate 82 0 @ [1]) 30 4 1 [] [] =
   Inr ([0, 0, 0, 0x80, 0x84, 0, 0, 8, 0, 5, 0, 2, 0x11, 0x12, 0, 0xb, 0, 2, 0x40, 0, 0, 0xa, 0,
     2, 0, 0x1e, 0, 7, 0, 2, 0, 4, 0, 3, 0x40, 1, 1, 0, 0x10, 0x40, 0x56, 0, 0x53, 1] @
     replicate 82 0 @ [1, 0, 0x14, 0, 1, 0, 0, 0x18, 0x40, 1, 0])) \<and>
   (StopTarget 0x1112 0x8000 3 [0x13, 0x41, 0x53] [1280001, 1280002] =
   Inr ([0, 1, 0, 0x25, 0, 0, 3, 0, 5, 0, 2, 0x11, 0x12, 0, 0xb, 0, 2, 0x80, 0, 0, 0xf, 0x40,
     0x12, 0, 0, 1, 0, 0x13, 0x41, 0x53, 1, 0x38, 0x80, 0x10, 0x13, 0x41, 0x53, 1, 0x38,
     0x80, 0x20])) \<and>
   (StopTarget 0x1112 0x8000 2 [0x13, 0x41, 0x53] [100, 200] =
   Inr ([0, 1, 0, 0x22, 0, 0, 3, 0, 5, 0, 2, 0x11, 0x12, 0, 0xb, 0, 2, 0x80, 0, 0, 0xf, 0x40,
     0xf, 0x20, 0, 1, 0, 0x13, 0x41, 0x53, 0, 0x64, 0, 0x13, 0x41, 0x53, 0, 0xc8])) \<and>
   (StopTarget 0x1112 0x4000 1 [] [] =
   Inr ([0, 1, 0, 0xf, 0, 0, 2, 0, 5, 0, 2, 0x11, 0x12, 0, 0xb, 0, 2, 0x40, 0])) \<and>
   (ResponseIDs ([0x20, 0, 0, 0xf, 0, 0, 2, 0, 5, 0, 2, 0x11, 0x12, 0, 0xb, 0, 2, 0xc0, 0]) 0 = Inr (0x1112, 0xc000)) \<and>
   (ResponseIDs ([0x20, 1, 0, 0xf, 0, 0, 2, 0, 5, 0, 2, 0x11, 0x12, 0, 0xb, 0, 2, 0x80, 0]) 1 = Inr (0x1112, 0x8000))"
  by (intro conjI write_cell_vector write_ta_vector write_plmn_vector stop_cell_vector
      stop_ta_vector stop_plmn_vector response_write_replace_vector response_stop_vector)

end
