(* ===== verification/Sbcap_Restart.thy ===== *)
theory Sbcap_Restart
  imports Sbcap_Messages
begin

text \<open>
  \<open>internal/sbcap/restart.go\<close>: the indications an MME sends: PWS-Restart-Indication,
  PWS-Failure-Indication and Write-Replace-Warning-Indication. The lemmas bound everything a
  successful decode can return and show that well-formed indications decode to their contents.
\<close>

section \<open>Operations\<close>

definition ProcedureWriteReplaceWarningIndication :: int where
  "ProcedureWriteReplaceWarningIndication = 3"
definition ProcedurePWSRestartIndication :: int where "ProcedurePWSRestartIndication = 5"
definition ProcedurePWSFailureIndication :: int where "ProcedurePWSFailureIndication = 6"

definition idGlobalENBID :: int where "idGlobalENBID = 28"
definition idRestartedCellList :: int where "idRestartedCellList = 30"
definition idListOfTAIsRestart :: int where "idListOfTAIsRestart = 31"
definition idFailedCellList :: int where "idFailedCellList = 33"

definition maxRestartedCells :: int where "maxRestartedCells = 256"
definition maxRestartTAIs :: int where "maxRestartTAIs = 2048"
definition maxFailedCells :: int where "maxFailedCells = 256"

lemmas indication_consts = ProcedureWriteReplaceWarningIndication_def
  ProcedurePWSRestartIndication_def ProcedurePWSFailureIndication_def idGlobalENBID_def
  idRestartedCellList_def idListOfTAIsRestart_def idFailedCellList_def maxRestartedCells_def
  maxRestartTAIs_def maxFailedCells_def

record ENBID =
  Kind :: string
  Value :: u32
  Bits :: int

definition decodeFixedBitString :: "nat \<Rightarrow> bitReader \<Rightarrow> sbcap_error + (u32 \<times> bitReader)" where
  "decodeFixedBitString bits r =
     andThen (if (bits + 7) div 8 > 2 then alignR r else Inr r) (\<lambda>r.
     andThen (getBits bits r) (\<lambda>(v, r). Inr (ucast v, r)))"

definition getNormallySmallNonNegativeWholeNumber ::
    "bitReader \<Rightarrow> sbcap_error + (int \<times> bitReader)" where
  "getNormallySmallNonNegativeWholeNumber r =
     andThen (getBits 1 r) (\<lambda>(b, r).
     if b = 0 then andThen (getBits 6 r) (\<lambda>(v, r). Inr (sint v, r))
     else andThen (alignR r) (\<lambda>r.
          andThen (getBits 1 r) (\<lambda>(b2, r).
          failIf (b2 = 1) UnsupportedSmallNumber (
          andThen (getBits 7 r) (\<lambda>(len, r).
          failIf (len > 4) UnsupportedSmallNumber (
          andThen (getBits (unat len * 8) r) (\<lambda>(v, r). Inr (sint v, r))))))))"

definition decodeENBID :: "bitReader \<Rightarrow> sbcap_error + (ENBID \<times> bitReader)" where
  "decodeENBID r =
     andThen (getBits 1 r) (\<lambda>(ext, r).
     if ext = 0 then
       andThen (getConstrainedWholeNumber 0 1 r) (\<lambda>(idx, r).
       if idx = 0 then
         andThen (decodeFixedBitString 20 r) (\<lambda>(v, r).
         Inr (\<lparr>Kind = ''macro'', Value = v, Bits = 20\<rparr>, r))
       else
         andThen (decodeFixedBitString 28 r) (\<lambda>(v, r).
         Inr (\<lparr>Kind = ''home'', Value = v, Bits = 28\<rparr>, r)))
     else
       andThen (getNormallySmallNonNegativeWholeNumber r) (\<lambda>(idx, r).
       andThen (getOpenType r) (\<lambda>(content, r).
       let er = newBitReader content in
       if idx = 0 then
         andThen (decodeFixedBitString 18 er) (\<lambda>(v, _).
         Inr (\<lparr>Kind = ''short-macro'', Value = v, Bits = 18\<rparr>, r))
       else if idx = 1 then
         andThen (decodeFixedBitString 21 er) (\<lambda>(v, _).
         Inr (\<lparr>Kind = ''long-macro'', Value = v, Bits = 21\<rparr>, r))
       else Inl (UnsupportedENBID idx))))"

record GlobalENBID =
  genb_PLMN :: "byte list"
  genb_ENBID :: ENBID

definition decodeGlobalENBID :: "bitReader \<Rightarrow> sbcap_error + (GlobalENBID \<times> bitReader)" where
  "decodeGlobalENBID r =
     andThen (getBits 1 r) (\<lambda>(ext, r).
     failIf (ext \<noteq> 0) ExtensionUnsupported (
     andThen (getBits 1 r) (\<lambda>(optExt, r).
     failIf (optExt \<noteq> 0) OptionalUnsupported (
     andThen (alignR r) (\<lambda>r.
     andThen (readOctets 3 r) (\<lambda>(plmn, r).
     andThen (decodeENBID r) (\<lambda>(enbID, r).
     Inr (\<lparr>genb_PLMN = plmn, genb_ENBID = enbID\<rparr>, r))))))))"

text \<open>\<open>ecgiEntry\<close>, \<open>RestartedCell\<close> and \<open>FailedCell\<close> are the pair that \<open>decodeEUTRANCGI\<close> returns;
  \<open>taiEntry\<close> and \<open>RestartedTAI\<close> the pair of \<open>decodeTAI\<close>.\<close>

type_synonym cellEntry = "byte list \<times> u32"
type_synonym taiEntry = "byte list \<times> u16"

definition decodeECGIListBounded :: "byte list \<Rightarrow> int \<Rightarrow> int \<Rightarrow> sbcap_error + cellEntry list" where
  "decodeECGIListBounded content lb ub =
     andThen (getConstrainedWholeNumber lb ub (newBitReader content)) (\<lambda>(count, r).
     andThen (repeatE decodeEUTRANCGI (nat count) r) (\<lambda>(out, _). Inr out))"

definition decodeTAIRestartList :: "byte list \<Rightarrow> sbcap_error + taiEntry list" where
  "decodeTAIRestartList content =
     andThen (getConstrainedWholeNumber 1 maxRestartTAIs (newBitReader content)) (\<lambda>(count, r).
     andThen (repeatE decodeTAI (nat count) r) (\<lambda>(out, _). Inr out))"

record RestartIndication =
  ri_GlobalENBID :: GlobalENBID
  RestartedCells :: "cellEntry list"
  RestartedTAIs :: "taiEntry list"

text \<open>\<open>ie, ok := findIE(...); if !ok { return error }\<close>, then the value of the IE.\<close>

definition needIE :: "protocolIE list \<Rightarrow> int \<Rightarrow> (byte list \<Rightarrow> sbcap_error + 'a) \<Rightarrow> sbcap_error + 'a" where
  "needIE is k body =
     (case findIE is k of None \<Rightarrow> Inl (MissingIE k) | Some ie \<Rightarrow> body (ie_value ie))"

definition DecodeRestartIndication :: "byte list \<Rightarrow> sbcap_error + RestartIndication" where
  "DecodeRestartIndication pdu =
     andThen (decodePDU pdu) (\<lambda>d.
     failIf (choiceIndex d \<noteq> pduInitiating \<or> procedureCode d \<noteq> ProcedurePWSRestartIndication)
       NotThisPDU (
     needIE (ies d) idRestartedCellList (\<lambda>v.
     andThen (wrapErr (InIE idRestartedCellList) (decodeECGIListBounded v 1 maxRestartedCells)) (\<lambda>cells.
     needIE (ies d) idGlobalENBID (\<lambda>v.
     andThen (wrapErr (InIE idGlobalENBID) (decodeGlobalENBID (newBitReader v))) (\<lambda>(genb, _).
     needIE (ies d) idListOfTAIsRestart (\<lambda>v.
     andThen (wrapErr (InIE idListOfTAIsRestart) (decodeTAIRestartList v)) (\<lambda>tais.
     Inr \<lparr>ri_GlobalENBID = genb, RestartedCells = cells, RestartedTAIs = tais\<rparr>))))))))"

record FailureIndication =
  fi_GlobalENBID :: GlobalENBID
  FailedCells :: "cellEntry list"

definition DecodeFailureIndication :: "byte list \<Rightarrow> sbcap_error + FailureIndication" where
  "DecodeFailureIndication pdu =
     andThen (decodePDU pdu) (\<lambda>d.
     failIf (choiceIndex d \<noteq> pduInitiating \<or> procedureCode d \<noteq> ProcedurePWSFailureIndication)
       NotThisPDU (
     needIE (ies d) idFailedCellList (\<lambda>v.
     andThen (wrapErr (InIE idFailedCellList) (decodeECGIListBounded v 1 maxFailedCells)) (\<lambda>cells.
     needIE (ies d) idGlobalENBID (\<lambda>v.
     andThen (wrapErr (InIE idGlobalENBID) (decodeGlobalENBID (newBitReader v))) (\<lambda>(genb, _).
     Inr \<lparr>fi_GlobalENBID = genb, FailedCells = cells\<rparr>))))))"

record WriteReplaceWarningIndication =
  MessageIdentifier :: u16
  SerialNumber :: u16

definition DecodeWriteReplaceWarningIndication ::
    "byte list \<Rightarrow> sbcap_error + WriteReplaceWarningIndication" where
  "DecodeWriteReplaceWarningIndication pdu =
     andThen (decodePDU pdu) (\<lambda>d.
     failIf (choiceIndex d \<noteq> pduInitiating \<or>
         procedureCode d \<noteq> ProcedureWriteReplaceWarningIndication) NotThisPDU (
     andThen (correlationIDs (ies d)) (\<lambda>(msgID, serial).
     Inr \<lparr>MessageIdentifier = msgID, SerialNumber = serial\<rparr>)))"

section \<open>What a successful decode can return\<close>

lemma getBits_sint:
  assumes "getBits n r = Inr (v, r')" "n < 64"
  shows "0 \<le> sint v" and "sint v < 2 ^ n"
proof -
  have "unat v < 2 ^ n" by (rule getBits_unat [OF assms(1)])
  then have u: "uint v < 2 ^ n"
    by (metis of_nat_less_iff of_nat_numeral of_nat_power uint_nat)
  have "sint (take_bit n (word_of_int (uint v) :: u64)) = uint v"
    by (rule sint_take_bit_of_int [OF _ u assms(2)]) simp
  then have "sint v = uint v" using getBits_take_bit [OF assms(1)] by simp
  with u show "0 \<le> sint v" "sint v < 2 ^ n" by simp_all
qed

text \<open>A decoded whole number lies in the field it was read from, which can be wider than
  \<open>lb .. ub\<close>: the decoder does not compare it with \<open>ub\<close>.\<close>

lemma getCWN_256:
  assumes "getConstrainedWholeNumber lb (lb + 255) r = Inr (x, r')"
  shows "lb \<le> x \<and> x \<le> lb + 255"
  using assms getBits_sint [where n = 8]
  by (fastforce simp: getConstrainedWholeNumber_def andThen_eq_Inr)

lemma getCWN_16:
  assumes "getConstrainedWholeNumber lb ub r = Inr (x, r')" "255 < ub - lb"
  shows "lb \<le> x \<and> x \<le> lb + 65535"
  using assms getBits_sint [where n = 16]
  by (fastforce simp: getConstrainedWholeNumber_def andThen_eq_Inr split: if_splits)

lemma getBits_ucast32:
  assumes "getBits n r = Inr (v, r')" "n < 32"
  shows "unat (ucast v :: u32) < 2 ^ n"
proof -
  have "unat (ucast v :: u32) \<le> unat v" by (simp add: unsigned_ucast_eq take_bit_nat_less_eq_self)
  with getBits_unat [OF assms(1)] show ?thesis by simp
qed

lemma cgi_bounds:
  assumes "decodeEUTRANCGI r = Inr ((plmn, eci), r')"
  shows "length plmn = 3 \<and> eci \<le> 0x0fffffff"
proof -
  from assms obtain r1 r2 v r3 where "readOctets 3 r1 = Inr (plmn, r2)"
    "getBits 28 r3 = Inr (v, r')" "eci = ucast v"
    by (auto simp: decodeEUTRANCGI_def andThen_eq_Inr)
  then have "length plmn = 3" "unat eci < 2 ^ 28" using getBits_ucast32 [of 28]
    by (auto simp: readOctets_def Let_def split: if_splits)
  then show ?thesis by (simp add: word_le_nat_alt)
qed

lemma tai_bounds:
  assumes "decodeTAI r = Inr ((plmn, tac), r')"
  shows "length plmn = 3"
  using assms by (auto simp: decodeTAI_def andThen_eq_Inr readOctets_def Let_def split: if_splits)

lemma repeatE_all:
  "repeatE g n s = Inr (xs, s') \<Longrightarrow> (\<And>s x s'. g s = Inr (x, s') \<Longrightarrow> P x) \<Longrightarrow> \<forall>x \<in> set xs. P x"
  by (induction n arbitrary: s xs s') (fastforce simp: andThen_eq_Inr)+

definition okCellEntry :: "cellEntry \<Rightarrow> bool" where
  "okCellEntry c \<longleftrightarrow> length (fst c) = 3 \<and> snd c \<le> 0x0fffffff"

definition okTAIEntry :: "taiEntry \<Rightarrow> bool" where
  "okTAIEntry t \<longleftrightarrow> length (fst t) = 3"

lemma ecgi_list_bounds:
  assumes "decodeECGIListBounded content 1 256 = Inr cells"
  shows "1 \<le> length cells \<and> length cells \<le> 256 \<and> (\<forall>c \<in> set cells. okCellEntry c)"
proof -
  from assms obtain count r r' where
    c: "getConstrainedWholeNumber 1 256 (newBitReader content) = Inr (count, r)"
    and rep: "repeatE decodeEUTRANCGI (nat count) r = Inr (cells, r')"
    by (auto simp: decodeECGIListBounded_def andThen_eq_Inr)
  have "1 \<le> count \<and> count \<le> 256" using getCWN_256 [of 1] c by simp
  moreover have "length cells = nat count" by (rule repeatE_length [OF rep])
  moreover have "\<forall>c \<in> set cells. okCellEntry c"
    by (rule repeatE_all [OF rep]) (auto simp: okCellEntry_def dest: cgi_bounds)
  ultimately show ?thesis by auto
qed

lemma tai_list_bounds:
  assumes "decodeTAIRestartList content = Inr tais"
  shows "1 \<le> length tais \<and> length tais \<le> 65536 \<and> (\<forall>t \<in> set tais. okTAIEntry t)"
proof -
  from assms obtain count r r' where
    c: "getConstrainedWholeNumber 1 2048 (newBitReader content) = Inr (count, r)"
    and rep: "repeatE decodeTAI (nat count) r = Inr (tais, r')"
    by (auto simp: decodeTAIRestartList_def andThen_eq_Inr maxRestartTAIs_def)
  have "1 \<le> count \<and> count \<le> 65536" using getCWN_16 [OF c] by simp
  moreover have "length tais = nat count" by (rule repeatE_length [OF rep])
  moreover have "\<forall>t \<in> set tais. okTAIEntry t"
    by (rule repeatE_all [OF rep]) (auto simp: okTAIEntry_def dest: tai_bounds)
  ultimately show ?thesis by auto
qed

text \<open>The four kinds of eNB identity with their widths.\<close>

definition okENBID :: "ENBID \<Rightarrow> bool" where
  "okENBID e \<longleftrightarrow>
     (Kind e, Bits e) \<in> {(''macro'', 20), (''home'', 28), (''short-macro'', 18), (''long-macro'', 21)} \<and>
     unat (Value e) < 2 ^ nat (Bits e)"

lemma fixedBitString_bounds:
  assumes "decodeFixedBitString n r = Inr (v, r')" "n < 32"
  shows "unat v < 2 ^ n"
  using assms getBits_ucast32 by (auto simp: decodeFixedBitString_def andThen_eq_Inr)

lemma enbid_bounds: "decodeENBID r = Inr (e, r') \<Longrightarrow> okENBID e"
  by (auto simp: decodeENBID_def andThen_eq_Inr Let_def okENBID_def split: if_splits
      dest!: fixedBitString_bounds)

lemma genb_bounds:
  "decodeGlobalENBID r = Inr (g, r') \<Longrightarrow> length (genb_PLMN g) = 3 \<and> okENBID (genb_ENBID g)"
  by (auto simp: decodeGlobalENBID_def andThen_eq_Inr readOctets_def Let_def
      split: if_splits dest!: enbid_bounds)

section \<open>Well-formed indications\<close>

text \<open>
  The CBC only receives indications, so the source has no encoder for them. These reference
  encoders write their IEs with the element encoders of \<open>ies.go\<close>.
\<close>

definition putCGIEntry :: "bitWriter \<Rightarrow> cellEntry \<Rightarrow> sbcap_error + bitWriter" where
  "putCGIEntry w c = encodeEUTRANCGI w (fst c) (snd c)"

definition putTAIEntry :: "bitWriter \<Rightarrow> taiEntry \<Rightarrow> sbcap_error + bitWriter" where
  "putTAIEntry w t = encodeTAI w (fst t) (snd t)"

definition encodeList ::
    "int \<Rightarrow> (bitWriter \<Rightarrow> 'a \<Rightarrow> sbcap_error + bitWriter) \<Rightarrow> 'a list \<Rightarrow> sbcap_error + byte list" where
  "encodeList ub put xs =
     andThen (putConstrainedWholeNumber newBitWriter 1 ub (int (length xs))) (\<lambda>w.
     andThen (foldE put w xs) (\<lambda>w. Inr (wbuf w)))"

definition putENB :: "byte list \<Rightarrow> bool \<Rightarrow> u32 \<Rightarrow> bitWriter" where
  "putENB plmn home v =
     (let w = putOctets (alignW (putBits (putBits newBitWriter 0 1) 0 1)) plmn;
          w = alignW (putBits (putBits w 0 1) (of_bool home) 1)
      in putBits w (ucast v) (if home then 28 else 20))"

definition enbOf :: "byte list \<Rightarrow> bool \<Rightarrow> u32 \<Rightarrow> GlobalENBID" where
  "enbOf plmn home v = \<lparr>genb_PLMN = plmn, genb_ENBID =
     (if home then \<lparr>Kind = ''home'', Value = v, Bits = 28\<rparr>
      else \<lparr>Kind = ''macro'', Value = v, Bits = 20\<rparr>)\<rparr>"

interpretation cgiEntry: wire_codec decodeEUTRANCGI putCGIEntry "\<lambda>c. okCGI (fst c) (snd c)" "\<lambda>c. c"
proof (intro wire_codec.intro wire_codec_axioms.intro cgi_reader)
  fix w w' :: bitWriter and r and c :: cellEntry
  assume w: "winv w"
  show "(\<exists>w'. putCGIEntry w c = Inr w') \<longleftrightarrow> okCGI (fst c) (snd c)"
    unfolding putCGIEntry_def by (rule cgi.put_iff [OF w])
  assume p: "putCGIEntry w c = Inr w'"
  note e = p [unfolded putCGIEntry_def]
  show "winv w'" "wext w w'" using cgi.put_winv [OF w e] cgi.put_wext [OF w e] .
  assume "rnbit r = wnbit w" "carries r w'"
  then show "decodeEUTRANCGI r = Inr (c, r\<lparr>rnbit := wnbit w'\<rparr>)"
    using cgi.get_put [OF w e] by simp
qed

interpretation taiEntry: wire_codec decodeTAI putTAIEntry "\<lambda>t. length (fst t) = 3" "\<lambda>t. t"
proof (intro wire_codec.intro wire_codec_axioms.intro tai_reader)
  fix w w' :: bitWriter and r and t :: taiEntry
  assume w: "winv w"
  show "(\<exists>w'. putTAIEntry w t = Inr w') \<longleftrightarrow> length (fst t) = 3"
    unfolding putTAIEntry_def by (rule tai.put_iff [OF w])
  assume p: "putTAIEntry w t = Inr w'"
  note e = p [unfolded putTAIEntry_def]
  show "winv w'" "wext w w'" using tai.put_winv [OF w e] tai.put_wext [OF w e] .
  assume "rnbit r = wnbit w" "carries r w'"
  then show "decodeTAI r = Inr (t, r\<lparr>rnbit := wnbit w'\<rparr>)" using tai.get_put [OF w e] by simp
qed

context wire_codec
begin

lemma encodeList_read:
  assumes "encodeList ub put xs = Inr b"
  obtains r1 r2 where
    "getConstrainedWholeNumber 1 ub (newBitReader (b @ junk)) = Inr (int (length xs), r1)"
    "repeatE get (length xs) r1 = Inr (map val xs, r2)"
proof -
  from assms obtain w1 w where
    s: "putConstrainedWholeNumber newBitWriter 1 ub (int (length xs)) = Inr w1"
      "foldE put w1 xs = Inr w" and b: "b = wbuf w"
    by (auto simp: encodeList_def andThen_eq_Inr)
  have i1: "winv w1" using putCWN_winv_wext [OF winv_new s(1)] by simp
  note i = fold_winv_wext [OF i1 s(2)]
  have c: "carries (newBitReader (b @ junk)) w" using i b by (simp add: carries_prefix)
  have c1: "carries (newBitReader (b @ junk)) w1" using i carries_wext [OF c] by simp
  have g: "getConstrainedWholeNumber 1 ub (newBitReader (b @ junk)) =
      Inr (int (length xs), newBitReader (b @ junk)\<lparr>rnbit := wnbit w1\<rparr>)"
    by (rule getCWN_putCWN [OF winv_new s(1) _ c1]) simp
  from repeat_fold [OF i1 s(2), of "newBitReader (b @ junk)\<lparr>rnbit := wnbit w1\<rparr>"] c
  have "repeatE get (length xs) (newBitReader (b @ junk)\<lparr>rnbit := wnbit w1\<rparr>) =
      Inr (map val xs, newBitReader (b @ junk)\<lparr>rnbit := wnbit w\<rparr>)" by simp
  with g show ?thesis by (rule that)
qed

end

lemma decodeECGIList_encode:
  "encodeList ub putCGIEntry cells = Inr b \<Longrightarrow> decodeECGIListBounded (b @ junk) 1 ub = Inr cells"
  by (erule cgiEntry.encodeList_read [where junk = junk]) (simp add: decodeECGIListBounded_def)

lemma decodeTAIRestartList_encode:
  "encodeList 2048 putTAIEntry tais = Inr b \<Longrightarrow> decodeTAIRestartList (b @ junk) = Inr tais"
  by (erule taiEntry.encodeList_read [where junk = junk])
     (simp add: decodeTAIRestartList_def maxRestartTAIs_def)

lemma decodeGlobalENBID_encode:
  assumes "length plmn = 3" "v < 2 ^ (if home then 28 else 20)"
  shows "\<exists>r'. decodeGlobalENBID (newBitReader (wbuf (putENB plmn home v) @ junk)) =
    Inr (enbOf plmn home v, r')"
proof -
  define w1 w2 w3 w4 w5 w6 w7 where "w1 = putBits newBitWriter 0 1" and "w2 = putBits w1 0 1"
    and "w3 = alignW w2" and "w4 = putOctets w3 plmn" and "w5 = putBits w4 0 1"
    and "w6 = putBits w5 (of_bool home) 1" and "w7 = alignW w6"
  let ?n = "if home then 28 else 20 :: nat"
  define w8 where "w8 = putBits w7 (ucast v) ?n"
  have w: "putENB plmn home v = w8"
    by (simp add: putENB_def Let_def w1_def w2_def w3_def w4_def w5_def w6_def w7_def w8_def)
  have m3: "wnbit w3 mod 8 = 0" by (simp add: w3_def)
  have i1: "winv w1" and i2: "winv w2" and i3: "winv w3"
    by (simp_all add: w1_def w2_def w3_def del: putBits.simps One_nat_def)
  have i4: "winv w4" using i3 m3 by (simp add: w4_def winv_putOctets)
  have i5: "winv w5" and i6: "winv w6" and i7: "winv w7" and i8: "winv w8"
    using i4 by (simp_all add: w5_def w6_def w7_def w8_def del: putBits.simps One_nat_def)
  have e7: "wext w7 w8" unfolding w8_def by (rule wext_putBits [OF i7])
  have e6: "wext w6 w8" by (rule wext_trans [OF _ e7]) (simp add: w7_def wext_alignW [OF i6])
  have e5: "wext w5 w8" by (rule wext_trans [OF wext_putBits [OF i5] e6 [unfolded w6_def]])
  have e4: "wext w4 w8" by (rule wext_trans [OF wext_putBits [OF i4] e5 [unfolded w5_def]])
  have e3: "wext w3 w8" by (rule wext_trans [OF wext_putOctets [OF i3 m3] e4 [unfolded w4_def]])
  have e2: "wext w2 w8" by (rule wext_trans [OF wext_alignW [OF i2] e3 [unfolded w3_def]])
  have e1: "wext w1 w8" by (rule wext_trans [OF wext_putBits [OF i1] e2 [unfolded w2_def]])
  let ?r = "newBitReader (wbuf w8 @ junk)"
  have r: "carries ?r w8" using i8 by (rule carries_prefix)
  have n: "wnbit w1 = 1" "wnbit w2 = wnbit w1 + 1" "wnbit w4 = wnbit w3 + length plmn * 8"
    "wnbit w5 = wnbit w4 + 1" "wnbit w6 = wnbit w5 + 1" "wnbit w8 = wnbit w7 + ?n"
    by (simp_all add: w1_def w2_def w4_def w5_def w6_def w8_def del: putBits.simps)
  note new = winv_new
  have g1: "getBits 1 ?r = Inr (0, ?r\<lparr>rnbit := wnbit w1\<rparr>)"
    using bits_step [OF new e1 [unfolded w1_def] r] n by simp
  have g2: "getBits 1 (?r\<lparr>rnbit := wnbit w1\<rparr>) = Inr (0, ?r\<lparr>rnbit := wnbit w2\<rparr>)"
    using bits_step [OF i1 e2 [unfolded w2_def], of "?r\<lparr>rnbit := wnbit w1\<rparr>"] r n(2) by simp
  have g3: "alignR (?r\<lparr>rnbit := wnbit w2\<rparr>) = Inr (?r\<lparr>rnbit := wnbit w3\<rparr>)"
    using align_step [OF i2 e3 [unfolded w3_def], of "?r\<lparr>rnbit := wnbit w2\<rparr>"] r by (simp add: w3_def)
  have g4: "readOctets 3 (?r\<lparr>rnbit := wnbit w3\<rparr>) = Inr (plmn, ?r\<lparr>rnbit := wnbit w4\<rparr>)"
    using octets_step [OF i3 m3 e4 [unfolded w4_def], of "?r\<lparr>rnbit := wnbit w3\<rparr>" 3] r assms(1) n(3)
    by simp
  have g5: "getBits 1 (?r\<lparr>rnbit := wnbit w4\<rparr>) = Inr (0, ?r\<lparr>rnbit := wnbit w5\<rparr>)"
    using bits_step [OF i4 e5 [unfolded w5_def], of "?r\<lparr>rnbit := wnbit w4\<rparr>"] r n(4) by simp
  have g6: "getBits 1 (?r\<lparr>rnbit := wnbit w5\<rparr>) = Inr (of_bool home, ?r\<lparr>rnbit := wnbit w6\<rparr>)"
    using bits_step [OF i5 e6 [unfolded w6_def], of "?r\<lparr>rnbit := wnbit w5\<rparr>"] r n(5)
    by (simp add: take_bit_of_Suc_0 take_bit_Suc)
  have b1: "bitsFor 2 = 1" by (simp add: bitsFor_def bitsForFrom.simps)
  have g6': "getConstrainedWholeNumber 0 1 (?r\<lparr>rnbit := wnbit w5\<rparr>) =
      Inr (of_bool home, ?r\<lparr>rnbit := wnbit w6\<rparr>)"
    using g6 by (cases home) (simp_all add: getConstrainedWholeNumber_def b1 del: One_nat_def)
  have g7: "alignR (?r\<lparr>rnbit := wnbit w6\<rparr>) = Inr (?r\<lparr>rnbit := wnbit w7\<rparr>)"
    using align_step [OF i6 e7 [unfolded w7_def], of "?r\<lparr>rnbit := wnbit w6\<rparr>"] r by (simp add: w7_def)
  have v: "ucast (take_bit ?n (ucast v :: u64)) = v"
  proof -
    have "unat v < 2 ^ ?n" using assms(2) by (cases home) (simp_all add: word_less_nat_alt)
    then have "take_bit ?n v = v" by (simp only: word_unat_eq_iff unsigned_take_bit_eq take_bit_nat_eq_self)
    then have bits: "bit v k \<Longrightarrow> k < ?n" for k by (metis bit_take_bit_iff)
    show ?thesis by (rule bit_word_eqI) (auto simp: bit_simps dest: bits)
  qed
  have g8: "getBits ?n (?r\<lparr>rnbit := wnbit w7\<rparr>) =
      Inr (take_bit ?n (ucast v), ?r\<lparr>rnbit := wnbit w8\<rparr>)"
    using bits_step [OF i7, of "ucast v" ?n w8 "?r\<lparr>rnbit := wnbit w7\<rparr>"] r by (simp add: w8_def)
  have f: "decodeFixedBitString ?n (?r\<lparr>rnbit := wnbit w6\<rparr>) = Inr (v, ?r\<lparr>rnbit := wnbit w8\<rparr>)"
    using g8 v by (cases home) (simp_all add: decodeFixedBitString_def g7)
  show ?thesis
    unfolding w using f
    by (cases home) (simp_all add: decodeGlobalENBID_def decodeENBID_def g1 g2 g3 g4 g5 g6' enbOf_def
        del: One_nat_def)
qed

lemma needIE_Some: "findIE is k = Some i \<Longrightarrow> needIE is k body = body (ie_value i)"
  by (simp add: needIE_def)

lemma needIE_sent:
  "findIE is k = Some i \<Longrightarrow> ie_value i \<noteq> [] \<Longrightarrow>
   needIE (map sentIE is) k body = body (ie_value i)"
  by (simp add: needIE_def findIE_map_sentIE)

lemma encodeList_ne:
  assumes "encodeList ub put xs = Inr b" "0 < ub - 1" "\<And>w x w'. winv w \<Longrightarrow> put w x = Inr w' \<Longrightarrow> winv w' \<and> wext w w'"
  shows "b \<noteq> []"
proof -
  from assms(1) obtain w1 w where
    s: "putConstrainedWholeNumber newBitWriter 1 ub (int (length xs)) = Inr w1"
      "foldE put w1 xs = Inr w" and b: "b = wbuf w"
    by (auto simp: encodeList_def andThen_eq_Inr)
  have i1: "winv w1" using putCWN_winv_wext [OF winv_new s(1)] by simp
  have "winv w \<and> wext w1 w"
    by (rule foldE_inv [OF s(2)]) (auto intro: i1 wext_trans dest: assms(3))
  moreover have "0 < bitsFor rng" if "1 < rng" for rng
    using bitsFor_ge [of rng] that by (cases "bitsFor rng") auto
  then have "0 < wnbit w1" using s(1) assms(2)
    by (auto simp: putConstrainedWholeNumber_def Let_def split: if_splits)
  ultimately show ?thesis using winv_length [of w] b by (auto simp: wext_def)
qed

lemma cellList_ne: "encodeList 256 putCGIEntry xs = Inr b \<Longrightarrow> b \<noteq> []"
  by (erule encodeList_ne) (auto intro: cgiEntry.put_winv cgiEntry.put_wext)

lemma taiList_ne: "encodeList 2048 putTAIEntry xs = Inr b \<Longrightarrow> b \<noteq> []"
  by (erule encodeList_ne) (auto intro: taiEntry.put_winv taiEntry.put_wext)

lemma putENB_ne: "wbuf (putENB plmn home v) \<noteq> []"
proof -
  have "winv (putENB plmn home v)"
    by (auto simp: putENB_def Let_def winv_putOctets simp del: putBits.simps One_nat_def)
  moreover have "0 < wnbit (putENB plmn home v)" by (simp add: putENB_def Let_def)
  ultimately show ?thesis using winv_length by fastforce
qed

lemma restart_decodes:
  assumes "encodePDU 0 5 cr is = Inr p"
    and "findIE is 30 = Some ci" "encodeList 256 putCGIEntry cells = Inr (ie_value ci)"
    and "findIE is 28 = Some gi" "ie_value gi = wbuf (putENB plmn home v)"
    and "findIE is 31 = Some ti" "encodeList 2048 putTAIEntry tais = Inr (ie_value ti)"
    and "length plmn = 3" "v < 2 ^ (if home then 28 else 20)"
  shows "DecodeRestartIndication (p @ junk) =
    Inr \<lparr>ri_GlobalENBID = enbOf plmn home v, RestartedCells = cells, RestartedTAIs = tais\<rparr>"
proof -
  obtain r' where g: "decodeGlobalENBID (newBitReader (ie_value gi)) = Inr (enbOf plmn home v, r')"
    using decodeGlobalENBID_encode [OF assms(8,9), of "[]"] assms(5) by auto
  have ne: "ie_value ci \<noteq> []" "ie_value gi \<noteq> []" "ie_value ti \<noteq> []"
    using cellList_ne [OF assms(3)] taiList_ne [OF assms(7)] assms(5) putENB_ne by simp_all
  show ?thesis
    using decode_encode [OF assms(1), of junk] decodeECGIList_encode [OF assms(3), of "[]"]
      decodeTAIRestartList_encode [OF assms(7), of "[]"] g
    by (simp add: DecodeRestartIndication_def indication_consts pdu_consts
        needIE_sent [OF assms(2) ne(1)] needIE_sent [OF assms(4) ne(2)] needIE_sent [OF assms(6) ne(3)])
qed

lemma failure_decodes:
  assumes "encodePDU 0 6 cr is = Inr p"
    and "findIE is 33 = Some ci" "encodeList 256 putCGIEntry cells = Inr (ie_value ci)"
    and "findIE is 28 = Some gi" "ie_value gi = wbuf (putENB plmn home v)"
    and "length plmn = 3" "v < 2 ^ (if home then 28 else 20)"
  shows "DecodeFailureIndication (p @ junk) =
    Inr \<lparr>fi_GlobalENBID = enbOf plmn home v, FailedCells = cells\<rparr>"
proof -
  obtain r' where g: "decodeGlobalENBID (newBitReader (ie_value gi)) = Inr (enbOf plmn home v, r')"
    using decodeGlobalENBID_encode [OF assms(6,7), of "[]"] assms(5) by auto
  have ne: "ie_value ci \<noteq> []" "ie_value gi \<noteq> []"
    using cellList_ne [OF assms(3)] assms(5) putENB_ne by simp_all
  show ?thesis
    using decode_encode [OF assms(1), of junk] decodeECGIList_encode [OF assms(3), of "[]"] g
    by (simp add: DecodeFailureIndication_def indication_consts pdu_consts
        needIE_sent [OF assms(2) ne(1)] needIE_sent [OF assms(4) ne(2)])
qed

section \<open>The recorded indication\<close>

lemma foldE_map: "foldE f s (map g xs) = foldE (\<lambda>s x. f s (g x)) s xs"
proof (induction xs arbitrary: s)
  case (Cons x xs)
  then show ?case by (cases "f s (g x)") simp_all
qed simp

lemma cellList_layout:
  assumes "ecis \<noteq> []" "length ecis \<le> 256" "\<forall>e \<in> set ecis. okCGI plmn e"
  shows "encodeList 256 putCGIEntry (map (Pair plmn) ecis) =
    Inr ([word_of_int (int (length ecis) - 1), 0] @ concat (map (\<lambda>e. plmn @ be32 (push_bit 4 e)) ecis))"
proof -
  let ?w = "putOctets newBitWriter [word_of_int (int (length ecis) - 1)]"
  have u: "(ucast (word_of_int x :: u64) :: byte) = word_of_int x" for x
    by (rule bit_word_eqI) (auto simp: bit_simps)
  have p: "putConstrainedWholeNumber newBitWriter 1 256 (int (length ecis)) = Inr ?w"
    using assms(1,2) putBits_8 [of newBitWriter "word_of_int (int (length ecis) - 1)"] u [of "int (length ecis) - 1"]
    by (auto simp: putConstrainedWholeNumber_def Suc_le_eq)
  have a: "aligned ?w" by simp
  have "putBits (putBits ?w 0 1) 0 1 = putBits ?w 0 2"
    using putBits_zeros [of 1 1 ?w 0] by (simp add: numeral_2_eq_2)
  then have n: "nextCell ?w = putOctets ?w [0]"
    using alignW_putBits [of ?w 2 0] a by (simp add: nextCell_def aligned_def)
  then have an: "aligned (nextCell ?w)" using a by simp
  obtain w' where f: "foldE (\<lambda>w e. encodeEUTRANCGI w plmn e) ?w ecis = Inr w'"
    using cgi.fold_iff a assms(3) unfolding aligned_def by blast
  have "winv w'" using cgi.fold_winv_wext [OF _ f] a by (simp add: aligned_def)
  then have "wbuf w' = wbuf (alignW w')" by (simp add: wbuf_alignW)
  with foldCGI_layout [OF an assms(3) f] assms(1) n
  have "wbuf w' = [word_of_int (int (length ecis) - 1), 0] @
      concat (map (\<lambda>e. plmn @ be32 (push_bit 4 e)) ecis)" by simp
  with f p show ?thesis by (simp add: encodeList_def foldE_map putCGIEntry_def)
qed

lemma taiList_layout:
  assumes "tacs \<noteq> []" "length tacs \<le> 2048" "length plmn = 3"
  shows "encodeList 2048 putTAIEntry (map (Pair plmn) tacs) =
    Inr (encode16 (word_of_int (int (length tacs) - 1)) @ concat (map (\<lambda>t. [0] @ plmn @ encode16 t) tacs))"
proof -
  let ?w = "putOctets newBitWriter (encode16 (word_of_int (int (length tacs) - 1)))"
  have p: "putConstrainedWholeNumber newBitWriter 1 2048 (int (length tacs)) = Inr ?w"
    using assms(1,2) put16_int_layout [of newBitWriter "int (length tacs) - 1"]
    by (auto simp: putConstrainedWholeNumber_def Suc_le_eq)
  have "aligned ?w" by simp
  from foldTAI_layout [OF this assms(3), of tacs] p
  show ?thesis by (simp add: encodeList_def foldE_map putTAIEntry_def)
qed

lemma putENB_macro_layout:
  assumes "length plmn = 3"
  shows "wbuf (putENB plmn False v) = [0] @ plmn @ [0] @
    encode16 (ucast (drop_bit 4 v)) @ [ucast (push_bit 4 v)]"
proof -
  have two: "alignW (putBits (putBits w 0 1) 0 1) = putOctets w [0]" if "aligned w" for w
  proof -
    have "putBits (putBits w 0 1) 0 1 = putBits w 0 2"
      using putBits_zeros [of 1 1 w 0] by (simp add: numeral_2_eq_2)
    then show ?thesis using alignW_putBits [of w 2 0] that by (simp add: aligned_def)
  qed
  let ?u = "putOctets newBitWriter ([0] @ plmn @ [0])"
  have e: "putENB plmn False v = putBits ?u (ucast v) 20"
    by (simp add: putENB_def Let_def two putOctets_append del: putBits.simps One_nat_def)
  have a: "aligned ?u" by simp
  have m: "(wnbit ?u + 20) mod 8 = 4" using assms by simp
  have "alignW (putBits ?u (ucast v) 20) = putBits (putBits ?u (ucast v) 20) 0 4"
    using m by (simp add: alignW_def del: putBits.simps)
  also have "\<dots> = putBits ?u (push_bit 4 (ucast v)) (16 + 8)"
    using putBits_zeros [of 20 4 ?u "ucast v"] by simp
  also have "\<dots> = putBits (putBits ?u (drop_bit 8 (push_bit 4 (ucast v))) 16) (push_bit 4 (ucast v)) 8"
    by (rule putBits_add)
  also have "putBits ?u (drop_bit 8 (push_bit 4 (ucast v))) 16 =
      putBits ?u (ucast (ucast (drop_bit 4 v) :: u16)) 16"
    by (rule putBits_cong) (auto simp: bit_simps)
  also have "\<dots> = putOctets ?u (encode16 (ucast (drop_bit 4 v)))" by (rule put16_layout [OF a])
  also have "putBits (putOctets ?u b) (push_bit 4 (ucast v)) 8 =
      putOctets (putOctets ?u b) [ucast (push_bit 4 (ucast v :: u64))]" for b
    using aligned_putOctets [OF a] by (intro putBits_8) (simp_all add: aligned_def)
  also have "(ucast (push_bit 4 (ucast v :: u64)) :: byte) = ucast (push_bit 4 v)"
    by (rule bit_word_eqI) (auto simp: bit_simps)
  finally have "wbuf (alignW (putENB plmn False v)) =
      [0] @ plmn @ [0] @ encode16 (ucast (drop_bit 4 v)) @ [ucast (push_bit 4 v)]"
    by (simp add: e)
  moreover have "winv (putENB plmn False v)" using a unfolding e by (simp add: aligned_def)
  ultimately show ?thesis by (simp add: wbuf_alignW)
qed

text \<open>\<open>testdata/pws_restart_indication.hex\<close>.\<close>

definition restartVector :: "byte list" where
  "restartVector = [0, 5, 0x40, 0x28, 0, 0, 3, 0, 0x1e, 0, 9, 0, 0, 0x13, 0x41, 0x53, 1, 0x38, 0x80,
     0x10, 0, 0x1c, 0, 8, 0, 0x13, 0x41, 0x53, 0, 1, 0x38, 0x80, 0, 0x1f, 0, 8, 0, 0, 0, 0x13, 0x41,
     0x53, 0, 0x64]"

definition restartVectorIEs :: "protocolIE list" where
  "restartVectorIEs =
     [\<lparr>ie_id = 30, ie_criticality = 0, ie_value = [0, 0, 0x13, 0x41, 0x53, 1, 0x38, 0x80, 0x10]\<rparr>,
      \<lparr>ie_id = 28, ie_criticality = 0, ie_value = [0, 0x13, 0x41, 0x53, 0, 1, 0x38, 0x80]\<rparr>,
      \<lparr>ie_id = 31, ie_criticality = 0, ie_value = [0, 0, 0, 0x13, 0x41, 0x53, 0, 0x64]\<rparr>]"

lemma restartVector_encoded: "encodePDU 0 5 1 restartVectorIEs = Inr restartVector"
  by (simp add: pdu_layout okPDU_def okIE_def ieOctets_def openTypeOctets_def layout_defs
      restartVectorIEs_def restartVector_def)

lemma restartVector_cells:
  "encodeList 256 putCGIEntry [([0x13, 0x41, 0x53], 1280001)] =
     Inr [0, 0, 0x13, 0x41, 0x53, 1, 0x38, 0x80, 0x10]"
  using cellList_layout [of "[1280001]" "[0x13, 0x41, 0x53]"] by (simp add: okCGI_def be32_def)

lemma restartVector_tais:
  "encodeList 2048 putTAIEntry [([0x13, 0x41, 0x53], 100)] =
     Inr [0, 0, 0, 0x13, 0x41, 0x53, 0, 0x64]"
  using taiList_layout [of "[100]" "[0x13, 0x41, 0x53]"] by (simp add: encode16_def)

lemma restartVector_enb:
  "[0, 0x13, 0x41, 0x53, 0, 1, 0x38, 0x80] = wbuf (putENB [0x13, 0x41, 0x53] False 5000)"
  by (simp add: putENB_macro_layout encode16_def)

lemma restartVector_decoded:
  "DecodeRestartIndication restartVector =
     Inr \<lparr>ri_GlobalENBID = enbOf [0x13, 0x41, 0x53] False 5000,
       RestartedCells = [([0x13, 0x41, 0x53], 1280001)],
       RestartedTAIs = [([0x13, 0x41, 0x53], 100)]\<rparr>"
  using restart_decodes [OF restartVector_encoded, of "restartVectorIEs ! 0"
      "[([0x13, 0x41, 0x53], 1280001)]" "restartVectorIEs ! 1" "[0x13, 0x41, 0x53]" False 5000
      "restartVectorIEs ! 2" "[([0x13, 0x41, 0x53], 100)]" "[]"]
    restartVector_cells restartVector_tais restartVector_enb
  by (simp add: restartVectorIEs_def)

section \<open>Properties\<close>

text \<open>C19: a PWS-Restart-Indication whose three mandatory IEs stand in any order among any other
  IEs decodes to exactly the eNB identity (macro or home), the restarted cells and the restarted
  tracking areas that its IEs encode, in order and with each entry's own PLMN, whatever octets
  follow the PDU.\<close>

theorem restart_indication_roundtrip:
  assumes "encodePDU pduInitiating ProcedurePWSRestartIndication cr is = Inr p"
    and "findIE is idRestartedCellList = Some ci"
    and "encodeList maxRestartedCells putCGIEntry cells = Inr (ie_value ci)"
    and "findIE is idGlobalENBID = Some gi" "ie_value gi = wbuf (putENB plmn home v)"
    and "length plmn = 3" "v < 2 ^ (if home then 28 else 20)"
    and "findIE is idListOfTAIsRestart = Some ti"
    and "encodeList maxRestartTAIs putTAIEntry tais = Inr (ie_value ti)"
  shows "DecodeRestartIndication (p @ junk) =
    Inr \<lparr>ri_GlobalENBID = enbOf plmn home v, RestartedCells = cells, RestartedTAIs = tais\<rparr>"
  using assms by (intro restart_decodes) (simp_all add: indication_consts pdu_consts)

theorem restart_indication_roundtrip_witness:
  "DecodeRestartIndication restartVector =
     Inr \<lparr>ri_GlobalENBID = \<lparr>genb_PLMN = [0x13, 0x41, 0x53],
            genb_ENBID = \<lparr>Kind = ''macro'', Value = 5000, Bits = 20\<rparr>\<rparr>,
          RestartedCells = [([0x13, 0x41, 0x53], 1280001)],
          RestartedTAIs = [([0x13, 0x41, 0x53], 100)]\<rparr>"
  using restart_indication_roundtrip [of 1 restartVectorIEs restartVector "restartVectorIEs ! 0"
      "[([0x13, 0x41, 0x53], 1280001)]" "restartVectorIEs ! 1" "[0x13, 0x41, 0x53]" False 5000
      "restartVectorIEs ! 2" "[([0x13, 0x41, 0x53], 100)]" "[]"]
    restartVector_encoded restartVector_cells restartVector_tais restartVector_enb
  by (simp add: restartVectorIEs_def indication_consts pdu_consts enbOf_def)

text \<open>A PWS-Failure-Indication decodes to the eNB identity and the failed cells its IEs
  encode, and a Write-Replace-Warning-Indication to its correlation ids; each decoder refuses a PDU
  of any other procedure or outcome class.\<close>

theorem failure_indication_roundtrip:
  assumes "encodePDU ci pc cr is = Inr p"
    and "findIE is idFailedCellList = Some ce" "encodeList maxFailedCells putCGIEntry cells = Inr (ie_value ce)"
    and "findIE is idGlobalENBID = Some ge" "ie_value ge = wbuf (putENB plmn home v)"
    and "length plmn = 3" "v < 2 ^ (if home then 28 else 20)"
  shows "DecodeFailureIndication (p @ junk) =
      (if ci = pduInitiating \<and> pc = ProcedurePWSFailureIndication
       then Inr \<lparr>fi_GlobalENBID = enbOf plmn home v, FailedCells = cells\<rparr> else Inl NotThisPDU) \<and>
    DecodeWriteReplaceWarningIndication (p @ junk) =
      (if ci = pduInitiating \<and> pc = ProcedureWriteReplaceWarningIndication
       then map_sum id (\<lambda>(m, s). \<lparr>MessageIdentifier = m, SerialNumber = s\<rparr>)
         (correlationIDs (map sentIE is)) else Inl NotThisPDU)"
proof -
  note d = decode_encode [OF assms(1), of junk]
  have "ci = 0 \<and> pc = 6 \<Longrightarrow> DecodeFailureIndication (p @ junk) =
      Inr \<lparr>fi_GlobalENBID = enbOf plmn home v, FailedCells = cells\<rparr>"
    using assms by (intro failure_decodes) (simp_all add: indication_consts)
  moreover have "\<not> (ci = 0 \<and> pc = 6) \<Longrightarrow> DecodeFailureIndication (p @ junk) = Inl NotThisPDU"
    using d by (auto simp: DecodeFailureIndication_def indication_consts pdu_consts)
  moreover have "DecodeWriteReplaceWarningIndication (p @ junk) =
      (if ci = 0 \<and> pc = 3 then map_sum id (\<lambda>(m, s). \<lparr>MessageIdentifier = m, SerialNumber = s\<rparr>)
         (correlationIDs (map sentIE is)) else Inl NotThisPDU)"
    using d by (cases "correlationIDs (map sentIE is)")
      (auto simp: DecodeWriteReplaceWarningIndication_def indication_consts pdu_consts)
  ultimately show ?thesis by (auto simp: indication_consts pdu_consts)
qed

theorem failure_indication_roundtrip_witness:
  "DecodeFailureIndication (pduLayout 0 6 1
      [\<lparr>ie_id = 33, ie_criticality = 0, ie_value = [0, 0, 0x13, 0x41, 0x53, 1, 0x38, 0x80, 0x10]\<rparr>,
       \<lparr>ie_id = 28, ie_criticality = 0, ie_value = [0, 0x13, 0x41, 0x53, 0, 1, 0x38, 0x80]\<rparr>]) =
     Inr \<lparr>fi_GlobalENBID = \<lparr>genb_PLMN = [0x13, 0x41, 0x53],
            genb_ENBID = \<lparr>Kind = ''macro'', Value = 5000, Bits = 20\<rparr>\<rparr>,
          FailedCells = [([0x13, 0x41, 0x53], 1280001)]\<rparr>"
proof -
  let ?a = "\<lparr>ie_id = 33, ie_criticality = 0, ie_value = [0, 0, 0x13, 0x41, 0x53, 1, 0x38, 0x80, 0x10]\<rparr>"
  let ?b = "\<lparr>ie_id = 28, ie_criticality = 0, ie_value = [0, 0x13, 0x41, 0x53, 0, 1, 0x38, 0x80]\<rparr>"
  have e: "encodePDU 0 6 1 [?a, ?b] = Inr (pduLayout 0 6 1 [?a, ?b])"
    by (simp add: pdu_layout okPDU_def okIE_def ieOctets_def openTypeOctets_def)
  show ?thesis
    using failure_indication_roundtrip [OF e, of ?a "[([0x13, 0x41, 0x53], 1280001)]" ?b
        "[0x13, 0x41, 0x53]" False 5000 "[]"] restartVector_cells restartVector_enb
    by (simp add: indication_consts pdu_consts enbOf_def)
qed

text \<open>Whatever octets arrive, a decoded PWS-Restart-Indication holds 1 to 256 cells with
  28-bit identities, a three-octet PLMN everywhere, at least one tracking area, and an eNB identity
  of one of the four kinds whose value fits its width. The number of tracking areas is bounded by
  the 16-bit count field only.\<close>

theorem restart_indication_bounds:
  assumes "DecodeRestartIndication pdu = Inr ri"
  shows "length (RestartedCells ri) \<in> {1..256} \<and> list_all okCellEntry (RestartedCells ri) \<and>
    length (RestartedTAIs ri) \<in> {1..65536} \<and>
    list_all okTAIEntry (RestartedTAIs ri) \<and>
    length (genb_PLMN (ri_GlobalENBID ri)) = 3 \<and> okENBID (genb_ENBID (ri_GlobalENBID ri))"
  using assms
  by (auto simp: DecodeRestartIndication_def andThen_eq_Inr needIE_def maxRestartedCells_def
      list_all_iff split: option.splits
      dest!: ecgi_list_bounds tai_list_bounds genb_bounds)

theorem restart_indication_bounds_witness:
  "length (RestartedCells (projr (DecodeRestartIndication restartVector))) \<in> {1..256}"
  using restart_indication_bounds [OF restartVector_decoded] restartVector_decoded by simp

text \<open>A list of 2049 restarted tracking areas is decoded although the protocol allows at most
  2048: the decoder reads the count with the bounds of the list but does not enforce the upper one.\<close>

theorem restart_tai_bound_not_enforced:
  "\<exists>content. map_sum id length (decodeTAIRestartList content) = Inr (nat maxRestartTAIs + 1)"
proof -
  let ?tacs = "replicate 2049 (7 :: u16)" and ?plmn = "[0x13, 0x41, 0x53] :: byte list"
  let ?w = "putOctets newBitWriter (encode16 2048)"
  have "aligned ?w" by simp
  from foldTAI_layout [OF this, of ?plmn ?tacs] obtain w where
    f: "foldE (\<lambda>w tac. encodeTAI w ?plmn tac) ?w ?tacs = Inr w" by auto
  have i1: "winv ?w" using aligned_putOctets [OF aligned_new] by (simp add: aligned_def)
  note i = tai.fold_winv_wext [OF i1 f]
  let ?r = "newBitReader (wbuf w)"
  have c: "carries ?r w" using i by (simp add: carries_written)
  have c1: "carries ?r ?w" using i carries_wext [OF c] by simp
  have p: "putConstrainedWholeNumber newBitWriter 1 2049 2049 = Inr ?w"
    using put16_int_layout [of newBitWriter 2048] by (simp add: putConstrainedWholeNumber_def)
  have "getConstrainedWholeNumber 1 2049 ?r = Inr (2049, ?r\<lparr>rnbit := wnbit ?w\<rparr>)"
    by (rule getCWN_putCWN [OF winv_new p _ c1]) simp
  then have g: "getConstrainedWholeNumber 1 2048 ?r = Inr (2049, ?r\<lparr>rnbit := wnbit ?w\<rparr>)"
    by (simp add: getConstrainedWholeNumber_def)
  have "repeatE decodeTAI (length ?tacs) (?r\<lparr>rnbit := wnbit ?w\<rparr>) =
      Inr (map (Pair ?plmn) ?tacs, ?r\<lparr>rnbit := wnbit w\<rparr>)"
    using tai.repeat_fold [OF i1 f, of "?r\<lparr>rnbit := wnbit ?w\<rparr>"] c by simp
  then have "map_sum id length (decodeTAIRestartList (wbuf w)) = Inr 2049"
    using g by (simp add: decodeTAIRestartList_def maxRestartTAIs_def)
  then show ?thesis by (intro exI [of _ "wbuf w"]) (simp add: maxRestartTAIs_def)
qed

text \<open>Octets after a PDU never change what is decoded from it: every decoder of the package that
  accepts a PDU accepts it with any octets appended and returns the same result.\<close>

theorem trailing_octets_ignored:
  assumes "decodePDU pdu = Inr d"
  shows "decodePDU (pdu @ junk) = Inr d \<and>
    Header (pdu @ junk) = Header pdu \<and> RequestIDs (pdu @ junk) = RequestIDs pdu \<and>
    ResponseIDs (pdu @ junk) procedure = ResponseIDs pdu procedure \<and>
    DecodeRestartIndication (pdu @ junk) = DecodeRestartIndication pdu \<and>
    DecodeFailureIndication (pdu @ junk) = DecodeFailureIndication pdu \<and>
    DecodeWriteReplaceWarningIndication (pdu @ junk) = DecodeWriteReplaceWarningIndication pdu \<and>
    DecodeErrorIndication (pdu @ junk) = DecodeErrorIndication pdu"
  using assms decodePDU_ignores_trailing [OF assms, of junk]
  by (simp add: Header_def RequestIDs_def ResponseIDs_def DecodeRestartIndication_def
      DecodeFailureIndication_def DecodeWriteReplaceWarningIndication_def DecodeErrorIndication_def)

theorem trailing_octets_ignored_witness:
  "Header (restartVector @ [1, 2, 3]) = Header restartVector"
  using trailing_octets_ignored decode_encode [OF restartVector_encoded, of "[]"] by simp

end
