(* ===== verification/Go_Strings.thy ===== *)
theory Go_Strings
  imports CBC_Prelude
begin

text \<open>
  What the code uses of Go's \<open>strings\<close>, \<open>unicode/utf8\<close> and \<open>strconv\<close>. A Go string is its list of
  bytes, a HOL \<open>string\<close>; \<open>range s\<close> and \<open>[]rune(s)\<close> decode it as UTF-8, with U+FFFD for each byte
  that starts no valid sequence. Case mapping is only ever compared with ASCII literals, so a
  mapped rune is represented by the ASCII character it becomes, or \<open>None\<close> when it becomes none.
\<close>

section \<open>UTF-8\<close>

type_synonym rune = nat

definition cont :: "nat \<Rightarrow> bool" where
  "cont b \<longleftrightarrow> 0x80 \<le> b \<and> b \<le> 0xbf"

text \<open>\<open>utf8.DecodeRuneInString\<close> on the byte values of a non-empty string: rune and width.\<close>

definition decodeRune :: "nat list \<Rightarrow> rune \<times> nat" where
  "decodeRune bs =
     (let b0 = bs ! 0; b1 = bs ! 1; b2 = bs ! 2; b3 = bs ! 3; n = length bs in
      if b0 < 0x80 then (b0, 1)
      else if 0xc2 \<le> b0 \<and> b0 \<le> 0xdf \<and> 2 \<le> n \<and> cont b1 then
        ((b0 - 0xc0) * 64 + (b1 - 0x80), 2)
      else if 0xe0 \<le> b0 \<and> b0 \<le> 0xef \<and> 3 \<le> n \<and> cont b1 \<and> cont b2 \<and>
          (b0 = 0xe0 \<longrightarrow> 0xa0 \<le> b1) \<and> (b0 = 0xed \<longrightarrow> b1 \<le> 0x9f) then
        ((b0 - 0xe0) * 4096 + (b1 - 0x80) * 64 + (b2 - 0x80), 3)
      else if 0xf0 \<le> b0 \<and> b0 \<le> 0xf4 \<and> 4 \<le> n \<and> cont b1 \<and> cont b2 \<and> cont b3 \<and>
          (b0 = 0xf0 \<longrightarrow> 0x90 \<le> b1) \<and> (b0 = 0xf4 \<longrightarrow> b1 \<le> 0x8f) then
        ((b0 - 0xf0) * 262144 + (b1 - 0x80) * 4096 + (b2 - 0x80) * 64 + (b3 - 0x80), 4)
      else (0xfffd, 1))"

lemma decodeRune_one:
  "fst (decodeRune bs) < 0x80 \<Longrightarrow> bs ! 0 = fst (decodeRune bs) \<and> snd (decodeRune bs) = 1"
  unfolding decodeRune_def Let_def cont_def
  by (simp split: if_split_asm) (cases "bs ! 0 = 224"; cases "bs ! 0 = 240"; simp)+

lemma decodeRune_width: "1 \<le> snd (decodeRune bs)"
  by (simp add: decodeRune_def Let_def)

text \<open>The runes of a string, each with the bytes it was decoded from.\<close>

function segments :: "string \<Rightarrow> (rune \<times> string) list" where
  "segments [] = []"
| "segments (c # cs) =
     (let (r, n) = decodeRune (map of_char (take 4 (c # cs)))
      in (r, c # take (n - 1) cs) # segments (drop (n - 1) cs))"
  by pat_completeness auto
termination by (relation "measure length") auto

definition runes :: "string \<Rightarrow> rune list" where
  "runes s = map fst (segments s)"

lemma segments_concat [simp]: "concat (map snd (segments s)) = s"
  by (induction s rule: segments.induct) (auto simp: Let_def split: prod.split)

lemma segments_Nil_iff [simp]: "segments s = [] \<longleftrightarrow> s = []"
  by (cases s) (auto simp: Let_def split: prod.split)

lemma runes_Nil [simp]: "runes [] = []"
  by (simp add: runes_def)

lemma runes_Nil_iff [simp]: "runes s = [] \<longleftrightarrow> s = []"
  by (simp add: runes_def)

text \<open>ASCII strings decode byte by byte.\<close>

definition ascii :: "string \<Rightarrow> bool" where
  "ascii s \<longleftrightarrow> (\<forall>c \<in> set s. of_char c < (0x80 :: nat))"

lemma ascii_simps [simp]:
  "ascii []" "ascii (c # s) \<longleftrightarrow> of_char c < (0x80 :: nat) \<and> ascii s"
  "ascii (s @ t) \<longleftrightarrow> ascii s \<and> ascii t"
  by (auto simp: ascii_def)

lemma segments_ascii_Cons [simp]:
  "of_char c < (0x80 :: nat) \<Longrightarrow> segments (c # s) = (of_char c, [c]) # segments s"
  by (simp add: decodeRune_def Let_def)

declare segments.simps(2) [simp del]

lemma segments_ascii: "ascii s \<Longrightarrow> segments s = map (\<lambda>c. (of_char c, [c])) s"
  by (induction s) auto

lemma runes_ascii: "ascii s \<Longrightarrow> runes s = map of_char s"
  by (simp add: runes_def segments_ascii)

section \<open>White space and case\<close>

text \<open>\<open>unicode.IsSpace\<close>.\<close>

definition isSpace :: "rune \<Rightarrow> bool" where
  "isSpace r \<longleftrightarrow> (9 \<le> r \<and> r \<le> 13) \<or> r = 0x20 \<or> r = 0x85 \<or> r = 0xa0 \<or> r = 0x1680 \<or>
     (0x2000 \<le> r \<and> r \<le> 0x200a) \<or> r = 0x2028 \<or> r = 0x2029 \<or> r = 0x202f \<or> r = 0x205f \<or> r = 0x3000"

definition trimEnds :: "('a \<Rightarrow> bool) \<Rightarrow> 'a list \<Rightarrow> 'a list" where
  "trimEnds P xs = rev (dropWhile P (rev (dropWhile P xs)))"

definition TrimSpace :: "string \<Rightarrow> string" where
  "TrimSpace s = concat (map snd (trimEnds (\<lambda>(r, _). isSpace r) (segments s)))"

text \<open>
  The runes that \<open>unicode.ToUpper\<close> and \<open>unicode.ToLower\<close> map into ASCII: besides the ASCII ones,
  dotless i and long s upwards, the Kelvin sign and I with dot downwards.
\<close>

definition upperASCII :: "rune \<Rightarrow> char option" where
  "upperASCII r =
     (if 97 \<le> r \<and> r \<le> 122 then Some (char_of (r - 32))
      else if r < 128 then Some (char_of r)
      else if r = 0x131 then Some (CHR ''I'')
      else if r = 0x17f then Some (CHR ''S'')
      else None)"

definition lowerASCII :: "rune \<Rightarrow> char option" where
  "lowerASCII r =
     (if 65 \<le> r \<and> r \<le> 90 then Some (char_of (r + 32))
      else if r < 128 then Some (char_of r)
      else if r = 0x130 then Some (CHR ''i'')
      else if r = 0x212a then Some (CHR ''k'')
      else None)"

text \<open>\<open>strings.ToUpper(s) == lit\<close> and \<open>strings.ToLower(s) == lit\<close> for an ASCII literal.\<close>

definition upperIs :: "string \<Rightarrow> string \<Rightarrow> bool" where
  "upperIs s lit \<longleftrightarrow> map upperASCII (runes s) = map Some lit"

definition lowerIs :: "string \<Rightarrow> string \<Rightarrow> bool" where
  "lowerIs s lit \<longleftrightarrow> map lowerASCII (runes s) = map Some lit"

text \<open>\<open>strings.EqualFold(s, lit)\<close> for an ASCII literal: runes in the same folding orbit. The orbits
  of the ASCII letters are the two cases, with long s for S and the Kelvin sign for K.\<close>

definition foldASCII :: "rune \<Rightarrow> char option" where
  "foldASCII r =
     (if r = 0x17f then Some (CHR ''s'') else if r = 0x212a then Some (CHR ''k'')
      else if r < 128 then lowerASCII r else None)"

definition equalFold :: "string \<Rightarrow> string \<Rightarrow> bool" where
  "equalFold s lit \<longleftrightarrow> map foldASCII (runes s) = map (\<lambda>c. lowerASCII (of_char c)) lit"

fun prefixOf :: "'a list \<Rightarrow> 'a list \<Rightarrow> bool" where
  "prefixOf [] ys = True"
| "prefixOf (x # xs) [] = False"
| "prefixOf (x # xs) (y # ys) = (x = y \<and> prefixOf xs ys)"

fun containsList :: "'a list \<Rightarrow> 'a list \<Rightarrow> bool" where
  "containsList [] ys = (ys = [])"
| "containsList (x # xs) ys = (prefixOf ys (x # xs) \<or> containsList xs ys)"

text \<open>\<open>strings.Contains(strings.ToLower(s), lit)\<close> for an ASCII literal.\<close>

definition lowerContains :: "string \<Rightarrow> string \<Rightarrow> bool" where
  "lowerContains s lit \<longleftrightarrow> containsList (map lowerASCII (runes s)) (map Some lit)"

lemma prefixOf_append: "prefixOf xs ys \<longleftrightarrow> (\<exists>zs. ys = xs @ zs)"
  by (induction xs ys rule: prefixOf.induct) auto

lemma containsList_append: "containsList xs ys \<longleftrightarrow> (\<exists>us vs. xs = us @ ys @ vs)"
proof (induction xs)
  case Nil
  then show ?case by auto
next
  case (Cons x xs)
  show ?case
  proof
    assume "containsList (x # xs) ys"
    then consider "prefixOf ys (x # xs)" | "containsList xs ys" by auto
    then show "\<exists>us vs. x # xs = us @ ys @ vs"
    proof cases
      case 1
      then show ?thesis by (metis append_Nil prefixOf_append)
    next
      case 2
      with Cons.IH show ?thesis by (metis append_Cons)
    qed
  next
    assume "\<exists>us vs. x # xs = us @ ys @ vs"
    then obtain us vs where e: "x # xs = us @ ys @ vs" by blast
    show "containsList (x # xs) ys"
    proof (cases us)
      case Nil
      with e have "prefixOf ys (x # xs)" by (metis append_Nil prefixOf_append)
      then show ?thesis by simp
    next
      case (Cons u us')
      with e Cons.IH show ?thesis by auto
    qed
  qed
qed

section \<open>Numbers\<close>

text \<open>\<open>strconv.ParseUint(s, base, bits)\<close>; the two error kinds are both \<open>None\<close>.\<close>

definition lowerByte :: "char \<Rightarrow> nat" where
  "lowerByte c = or (of_char c) 32"

definition digitOf :: "char \<Rightarrow> nat option" where
  "digitOf c =
     (let v = of_char c; l = lowerByte c in
      if 48 \<le> v \<and> v \<le> 57 then Some (v - 48)
      else if 97 \<le> l \<and> l \<le> 122 then Some (l - 97 + 10)
      else None)"

text \<open>The loop over the digits; underscores are skipped for base 0 only. The accumulator never
  exceeds \<open>maxVal\<close>, so the 64-bit overflow tests of the loop are the one comparison.\<close>

fun parseDigits :: "bool \<Rightarrow> nat \<Rightarrow> nat \<Rightarrow> nat \<Rightarrow> string \<Rightarrow> nat option" where
  "parseDigits base0 base maxVal n [] = Some n"
| "parseDigits base0 base maxVal n (c # cs) =
     (if c = CHR ''_'' \<and> base0 then parseDigits base0 base maxVal n cs
      else case digitOf c of
        None \<Rightarrow> None
      | Some d \<Rightarrow>
          if d \<ge> base then None
          else if n * base + d > maxVal then None
          else parseDigits base0 base maxVal (n * base + d) cs)"

datatype saw = Start | Digit | Underscore | Other

fun underscoreLoop :: "bool \<Rightarrow> saw \<Rightarrow> string \<Rightarrow> bool" where
  "underscoreLoop hex s [] = (s \<noteq> Underscore)"
| "underscoreLoop hex s (c # cs) =
     (if (48 \<le> (of_char c :: nat) \<and> of_char c \<le> (57 :: nat)) \<or>
         (hex \<and> 97 \<le> lowerByte c \<and> lowerByte c \<le> 102)
      then underscoreLoop hex Digit cs
      else if c = CHR ''_'' then s = Digit \<and> underscoreLoop hex Underscore cs
      else s \<noteq> Underscore \<and> underscoreLoop hex Other cs)"

definition basePrefix :: "string \<Rightarrow> nat option" where
  "basePrefix s =
     (if 2 \<le> length s \<and> s ! 0 = CHR ''0'' then
        if lowerByte (s ! 1) = 98 then Some 2
        else if lowerByte (s ! 1) = 111 then Some 8
        else if lowerByte (s ! 1) = 120 then Some 16
        else None
      else None)"

definition underscoreOK :: "string \<Rightarrow> bool" where
  "underscoreOK s =
     (let s = (if s \<noteq> [] \<and> (s ! 0 = CHR ''-'' \<or> s ! 0 = CHR ''+'') then tl s else s)
      in case basePrefix s of
           None \<Rightarrow> underscoreLoop False Start s
         | Some b \<Rightarrow> underscoreLoop (b = 16) Digit (drop 2 s))"

text \<open>\<open>strconv.ParseUint(s, 0, bits)\<close>: the base comes from the prefix.\<close>

definition parseUint0 :: "nat \<Rightarrow> string \<Rightarrow> nat option" where
  "parseUint0 bits s =
     (if s = [] then None
      else let (base, t) =
             (if s ! 0 = CHR ''0'' then
                case basePrefix s of
                  Some b \<Rightarrow> if 3 \<le> length s then (b, drop 2 s) else (8, tl s)
                | None \<Rightarrow> (8, tl s)
              else (10, s))
      in case parseDigits True base (2 ^ bits - 1) 0 t of
           None \<Rightarrow> None
         | Some n \<Rightarrow> if CHR ''_'' \<in> set t \<and> \<not> underscoreOK s then None else Some n)"

definition parseUint10 :: "nat \<Rightarrow> string \<Rightarrow> nat option" where
  "parseUint10 bits s = (if s = [] then None else parseDigits False 10 (2 ^ bits - 1) 0 s)"

text \<open>\<open>strconv.FormatUint(n, 10)\<close>.\<close>

fun decimalAcc :: "nat \<Rightarrow> string \<Rightarrow> string" where
  "decimalAcc n acc =
     (let acc = char_of (48 + n mod 10) # acc
      in if n < 10 then acc else decimalAcc (n div 10) acc)"

declare decimalAcc.simps [simp del]

definition decimal :: "nat \<Rightarrow> string" where
  "decimal n = decimalAcc n []"

section \<open>Splitting and joining\<close>

text \<open>\<open>strings.ToUpper\<close>; what it does outside ASCII is an argument.\<close>

definition ToUpper :: "(string \<Rightarrow> string) \<Rightarrow> string \<Rightarrow> string" where
  "ToUpper unicode s =
     (if ascii s then map (\<lambda>c. case upperASCII (of_char c) of Some d \<Rightarrow> d | None \<Rightarrow> c) s else unicode s)"

text \<open>\<open>strings.Fields\<close>: the maximal runs of non-space runes.\<close>

fun fieldsFrom :: "string \<Rightarrow> (rune \<times> string) list \<Rightarrow> string list" where
  "fieldsFrom cur [] = (if cur = [] then [] else [cur])"
| "fieldsFrom cur ((r, b) # segs) =
     (if isSpace r then (if cur = [] then fieldsFrom [] segs else cur # fieldsFrom [] segs)
      else fieldsFrom (cur @ b) segs)"

definition Fields :: "string \<Rightarrow> string list" where
  "Fields s = fieldsFrom [] (segments s)"

text \<open>\<open>strings.Join\<close>.\<close>

fun Join :: "string list \<Rightarrow> string \<Rightarrow> string" where
  "Join [] sep = []"
| "Join [x] sep = x"
| "Join (x # y # xs) sep = x @ sep @ Join (y # xs) sep"

text \<open>\<open>strings.SplitN(s, sep, 2)\<close> for a one-byte separator.\<close>

definition SplitN2 :: "string \<Rightarrow> char \<Rightarrow> string list" where
  "SplitN2 s sep =
     (if sep \<in> set s then [takeWhile (\<lambda>c. c \<noteq> sep) s, tl (dropWhile (\<lambda>c. c \<noteq> sep) s)] else [s])"

text \<open>\<open>strings.ReplaceAll(s, old, "")\<close> for a one-byte \<open>old\<close>.\<close>

definition RemoveAll :: "string \<Rightarrow> char \<Rightarrow> string" where
  "RemoveAll s old = filter (\<lambda>c. c \<noteq> old) s"

lemmas char_eval = char_of_def bit_numeral_rec bit_0
lemmas string_eval = runes_def segments.simps decodeRune_def Let_def cont_def isSpace_def
  trimEnds_def TrimSpace_def upperIs_def lowerIs_def equalFold_def lowerContains_def
  upperASCII_def lowerASCII_def foldASCII_def
lemmas parse_eval = parseUint0_def basePrefix_def lowerByte_def digitOf_def underscoreOK_def Let_def

section \<open>Decimal numbers parse back\<close>

definition isDigit :: "char \<Rightarrow> bool" where
  "isDigit c \<longleftrightarrow> 48 \<le> (of_char c :: nat) \<and> of_char c \<le> (57 :: nat)"

lemma of_char_of [simp]: "n < 256 \<Longrightarrow> of_char (char_of n) = (n :: nat)"
  by simp

lemma isDigit_char_of: "(d::nat) < 10 \<Longrightarrow> isDigit (char_of (48 + d))"
  by (simp add: isDigit_def)

lemma digitOf_char_of: "(d::nat) < 10 \<Longrightarrow> digitOf (char_of (48 + d)) = Some d"
  by (simp add: digitOf_def Let_def)

lemma isDigit_neq: "isDigit c \<Longrightarrow> c \<noteq> CHR ''_''"
  by (auto simp: isDigit_def)

lemma decimalAcc_append: "decimalAcc n acc = decimalAcc n [] @ acc"
proof (induction n arbitrary: acc rule: less_induct)
  case (less n)
  show ?case
  proof (cases "n < 10")
    case True
    then show ?thesis by (simp add: decimalAcc.simps)
  next
    case False
    then have "n div 10 < n" by simp
    from less [OF this, of "char_of (48 + n mod 10) # acc"] less [OF this, of "[char_of (48 + n mod 10)]"] False
    show ?thesis by (simp add: decimalAcc.simps [of n] Let_def)
  qed
qed

lemma decimal_rec: "decimal n = (if n < 10 then [] else decimal (n div 10)) @ [char_of (48 + n mod 10)]"
  unfolding decimal_def
  by (subst decimalAcc.simps) (simp add: Let_def decimalAcc_append [symmetric])

lemma decimal_ne: "decimal n \<noteq> []"
  by (subst decimal_rec) simp

lemma decimal_digits: "\<forall>c \<in> set (decimal n). isDigit c"
proof (induction n rule: less_induct)
  case (less n)
  show ?case
  proof (cases "n < 10")
    case True
    then show ?thesis by (subst decimal_rec) (simp add: isDigit_char_of)
  next
    case False
    then have "n div 10 < n" by simp
    from less [OF this] False show ?thesis
      by (subst decimal_rec) (auto simp: isDigit_char_of)
  qed
qed

lemma decimal_hd: "0 < n \<Longrightarrow> decimal n ! 0 \<noteq> CHR ''0''"
proof (induction n rule: less_induct)
  case (less n)
  show ?case
  proof (cases "n < 10")
    case True
    have "(char_of (48 + n) :: char) \<noteq> CHR ''0''"
    proof
      assume "(char_of (48 + n) :: char) = CHR ''0''"
      then have "(of_char (char_of (48 + n) :: char) :: nat) = of_char (CHR ''0'')" by simp
      with True less.prems show False by simp
    qed
    with True show ?thesis by (subst decimal_rec) simp
  next
    case False
    then have d: "n div 10 < n" "0 < n div 10" by simp_all
    from less.IH [OF d] False show ?thesis
      by (subst decimal_rec) (simp add: nth_append decimal_ne)
  qed
qed

lemma parseDigits_append:
  "parseDigits b0 b m n (xs @ ys) =
     (case parseDigits b0 b m n xs of None \<Rightarrow> None | Some k \<Rightarrow> parseDigits b0 b m k ys)"
  by (induction xs arbitrary: n) (auto split: option.split)

lemma parseDigits_decimal: "n \<le> m \<Longrightarrow> parseDigits b0 10 m 0 (decimal n) = Some n"
proof (induction n rule: less_induct)
  case (less n)
  have d: "digitOf (char_of (48 + n mod 10)) = Some (n mod 10)" by (rule digitOf_char_of) simp
  have u: "(char_of (48 + n mod 10) :: char) \<noteq> CHR ''_''"
    by (rule isDigit_neq [OF isDigit_char_of]) simp
  show ?case
  proof (cases "n < 10")
    case True
    with less.prems d u show ?thesis by (subst decimal_rec) simp
  next
    case False
    then have "n div 10 < n" "n div 10 \<le> m" using less.prems by simp_all
    from less.IH [OF this] False less.prems d u show ?thesis
      by (subst decimal_rec) (simp add: parseDigits_append)
  qed
qed

text \<open>What \<open>FormatUint\<close> writes, \<open>ParseUint\<close> with base 0 or 10 reads back.\<close>

lemma parseUint0_decimal: "n < 2 ^ bits \<Longrightarrow> parseUint0 bits (decimal n) = Some n"
proof (cases "n = 0")
  case True
  have "(char_of (48 :: nat) :: char) = CHR ''0''" by (simp add: char_of_def bit_numeral_rec bit_0)
  then have "decimal 0 = ''0''" by (subst decimal_rec) simp
  with True show ?thesis by (simp add: parseUint0_def basePrefix_def)
next
  case False
  assume n: "n < 2 ^ bits"
  have "CHR ''_'' \<notin> set (decimal n)" using decimal_digits isDigit_neq by blast
  moreover have "n \<le> 2 ^ bits - 1" using n by simp
  ultimately show ?thesis
    using False decimal_hd [of n] decimal_ne [of n]
    by (simp add: parseUint0_def parseDigits_decimal)
qed

lemma decimal_inj: "decimal m = decimal n \<Longrightarrow> m = n"
  using parseUint0_decimal [of m "max m n + 1"] parseUint0_decimal [of n "max m n + 1"]
  by (metis less_exp less_Suc_eq_le max.cobounded1 max.cobounded2 option.inject order_less_trans Suc_eq_plus1 le_imp_less_Suc)

lemma parseUint10_decimal: "n < 2 ^ bits \<Longrightarrow> parseUint10 bits (decimal n) = Some n"
  by (simp add: parseUint10_def decimal_ne parseDigits_decimal)

lemma parseUint0_bound: "parseUint0 bits s = Some n \<Longrightarrow> n < 2 ^ bits"
proof -
  have p: "parseDigits b0 b m k t = Some n \<Longrightarrow> k \<le> m \<Longrightarrow> n \<le> m" for b0 b m k t
    by (induction b0 b m k t rule: parseDigits.induct) (auto split: if_splits option.splits)
  assume "parseUint0 bits s = Some n"
  then obtain b t where "parseDigits True b (2 ^ bits - 1) 0 t = Some n"
    by (auto simp: parseUint0_def Let_def split: if_splits option.splits)
  from p [OF this] have "n \<le> 2 ^ bits - 1" by simp
  moreover have "(0::nat) < 2 ^ bits" by simp
  ultimately show ?thesis by linarith
qed

section \<open>Trimming\<close>

lemma ascii_decimal: "ascii (decimal n)"
  using decimal_digits [of n] by (auto simp: ascii_def isDigit_def)

lemma dropWhile_id: "(\<And>x. x \<in> set xs \<Longrightarrow> \<not> P x) \<Longrightarrow> dropWhile P xs = xs"
  by (cases xs) simp_all

lemma TrimSpace_id:
  assumes "\<And>r. r \<in> set (runes s) \<Longrightarrow> \<not> isSpace r"
  shows "TrimSpace s = s"
proof -
  have "trimEnds (\<lambda>(r, _). isSpace r) (segments s) = segments s"
    unfolding trimEnds_def using assms
    by (subst dropWhile_id, force simp: runes_def)+ simp
  then show ?thesis by (simp add: TrimSpace_def)
qed

lemma TrimSpace_decimal [simp]: "TrimSpace (decimal n) = decimal n"
  using decimal_digits [of n]
  by (intro TrimSpace_id) (auto simp: runes_ascii [OF ascii_decimal] isDigit_def isSpace_def)

lemma runes_digits:
  "(\<forall>r \<in> set (runes d). 48 \<le> r \<and> r \<le> 57) \<longleftrightarrow> list_all isDigit d"
proof
  assume a: "\<forall>r \<in> set (runes d). 48 \<le> r \<and> r \<le> 57"
  then show "list_all isDigit d"
  proof (induction d rule: segments.induct)
    case (2 c cs)
    obtain r n where rn: "decodeRune (map of_char (take 4 (c # cs))) = (r, n)" by fastforce
    then have s: "runes (c # cs) = r # runes (drop (n - 1) cs)"
      by (simp add: runes_def segments.simps(2) del: take_Suc_Cons)
    with 2(2) have r: "48 \<le> r" "r \<le> 57" by auto
    from decodeRune_one [of "map of_char (take 4 (c # cs))"] r rn
    have c: "of_char c = r" "n = 1" by auto
    with 2(2) s have "\<forall>r \<in> set (runes cs). 48 \<le> r \<and> r \<le> 57" by auto
    with 2(1) [OF rn [symmetric] refl] c have "list_all isDigit cs" by simp
    moreover have "isDigit c" using r c by (simp add: isDigit_def)
    ultimately show ?case by simp
  qed simp
next
  assume d: "list_all isDigit d"
  then have "ascii d" by (auto simp: ascii_def list_all_iff isDigit_def)
  with d show "\<forall>r \<in> set (runes d). 48 \<le> r \<and> r \<le> 57"
    by (auto simp: runes_ascii list_all_iff isDigit_def)
qed

end
