(* ===== verification/Config.thy ===== *)
theory Config
  imports Go_Strings
begin

text \<open>
  \<open>internal/config/config.go\<close>: the configuration record, its defaults and its validation. YAML
  decoding (\<open>gopkg.in/yaml.v3\<close>) is a parameter of \<open>Load\<close>. A \<open>time.Duration\<close> is its nanoseconds; the
  map of message identifiers is its association list, the nil map being the empty one.
\<close>

section \<open>The configuration\<close>

type_synonym duration = int

definition Second :: duration where "Second = 1000000000"
definition Minute :: duration where "Minute = 60 * Second"

record ServerConfig =
  ListenAddress :: string
  ShutdownTimeout :: duration

record LoggingConfig =
  Level :: string
  File :: string

record DatabaseConfig =
  DatabasePath :: string
  BusyTimeout :: duration
  ExpiryInterval :: duration

record CBSConfig =
  DefaultMessageIdentifier :: u16
  MessageIdentifiers :: "(string \<times> u16) list"
  AllowPLMNWide :: bool

record SBcAPPeer =
  PeerName :: string
  PeerAddress :: string

record SBcAPConfig =
  SBcAPEnabled :: bool
  PLMN :: string
  Peers :: "SBcAPPeer list"
  RepetitionPeriod :: u16
  Broadcasts :: u16
  ResponseTimeout :: duration
  ReconnectMin :: duration
  ReconnectMax :: duration
  LocalAddress :: string

record CellInventoryConfig =
  InventoryEnabled :: bool
  MaxImportSizeBytes :: int
  DefaultImportMode :: string

record CBEConfig =
  CBEAddress :: string
  Domain :: string
  Username :: string
  Password :: string
  Resource :: string
  TLSMode :: string
  InsecureSkipVerify :: bool
  CBEReconnectMin :: duration
  CBEReconnectMax :: duration

record Config =
  cfgServer :: ServerConfig
  cfgDatabase :: DatabaseConfig
  cfgCBS :: CBSConfig
  cfgSBcAP :: SBcAPConfig
  cfgLogging :: LoggingConfig
  cfgCBE :: CBEConfig
  cfgCellInventory :: CellInventoryConfig

datatype config_error =
    Undecodable string
  | Required string
  | DatabaseTimeouts
  | BadDefaultIdentifier
  | BadIdentifierMapping
  | PeerIncomplete
  | BadBackoff string
  | BadLevel
  | BadTLSMode
  | BadImportMode
  | BadImportSize

section \<open>Defaults\<close>

definition orDefault :: "bool \<Rightarrow> 'a \<Rightarrow> 'a \<Rightarrow> 'a" where
  "orDefault missing d v = (if missing then d else v)"

definition applyDefaults :: "Config \<Rightarrow> Config" where
  "applyDefaults c =
     (let s = cfgServer c; l = cfgLogging c; d = cfgDatabase c; b = cfgSBcAP c; e = cfgCBE c;
          i = cfgCellInventory c
      in c\<lparr>
        cfgServer := s\<lparr>ShutdownTimeout :=
          orDefault (ShutdownTimeout s \<le> 0) (10 * Second) (ShutdownTimeout s)\<rparr>,
        cfgLogging := l\<lparr>
          Level := orDefault (Level l = []) ''info'' (Level l),
          File := orDefault (File l = []) ''cbc.log'' (File l)\<rparr>,
        cfgDatabase := d\<lparr>
          BusyTimeout := orDefault (BusyTimeout d \<le> 0) (5 * Second) (BusyTimeout d),
          ExpiryInterval := orDefault (ExpiryInterval d \<le> 0) Minute (ExpiryInterval d)\<rparr>,
        cfgSBcAP := b\<lparr>
          RepetitionPeriod := orDefault (RepetitionPeriod b = 0) 30 (RepetitionPeriod b),
          Broadcasts := orDefault (Broadcasts b = 0) 4 (Broadcasts b),
          ResponseTimeout := orDefault (ResponseTimeout b \<le> 0) (10 * Second) (ResponseTimeout b),
          ReconnectMin := orDefault (ReconnectMin b \<le> 0) Second (ReconnectMin b),
          ReconnectMax := orDefault (ReconnectMax b \<le> 0) (30 * Second) (ReconnectMax b)\<rparr>,
        cfgCBE := e\<lparr>
          Resource := orDefault (Resource e = []) ''vectorcore-cbc'' (Resource e),
          TLSMode := orDefault (TLSMode e = []) ''plain'' (TLSMode e),
          CBEReconnectMin := orDefault (CBEReconnectMin e \<le> 0) Second (CBEReconnectMin e),
          CBEReconnectMax := orDefault (CBEReconnectMax e \<le> 0) (30 * Second) (CBEReconnectMax e)\<rparr>,
        cfgCellInventory :=
          (if InventoryEnabled i then i\<lparr>
             MaxImportSizeBytes :=
               orDefault (MaxImportSizeBytes i \<le> 0) (10 * 1024 * 1024) (MaxImportSizeBytes i),
             DefaultImportMode :=
               orDefault (DefaultImportMode i = []) ''validate-only'' (DefaultImportMode i)\<rparr>
           else i)\<rparr>)"

section \<open>Validation\<close>

definition validateSBcAP :: "SBcAPConfig \<Rightarrow> config_error + unit" where
  "validateSBcAP b =
     (if SBcAPEnabled b then
        failIf (length (RemoveAll (PLMN b) (CHR ''-'')) < 5) (Required ''sbcap.plmn'') (
        failIf (length (Peers b) = 0) (Required ''sbcap.peers'') (
        failIf (\<exists>p \<in> set (Peers b). TrimSpace (PeerName p) = [] \<or> TrimSpace (PeerAddress p) = [])
          PeerIncomplete (
        failIf (ReconnectMin b \<le> 0 \<or> ReconnectMax b < ReconnectMin b) (BadBackoff ''sbcap'') (
        Inr ()))))
      else Inr ())"

definition validateCBE :: "CBEConfig \<Rightarrow> config_error + unit" where
  "validateCBE e =
     failIf (CBEAddress e = [] \<or> Domain e = [] \<or> Username e = [] \<or> Password e = []) (Required ''cbe'') (
     failIf (Resource e = []) (Required ''cbe.resource'') (
     failIf (TLSMode e \<noteq> ''plain'' \<and> TLSMode e \<noteq> ''direct_tls'') BadTLSMode (
     failIf (CBEReconnectMin e \<le> 0 \<or> CBEReconnectMax e < CBEReconnectMin e) (BadBackoff ''cbe'') (
     Inr ()))))"

definition validateInventory :: "CellInventoryConfig \<Rightarrow> config_error + unit" where
  "validateInventory i =
     (if InventoryEnabled i then
        failIf (DefaultImportMode i \<noteq> ''validate-only'' \<and> DefaultImportMode i \<noteq> ''merge'' \<and>
            DefaultImportMode i \<noteq> ''replace'') BadImportMode (
        failIf (MaxImportSizeBytes i \<le> 0) BadImportSize (
        Inr ()))
      else Inr ())"

definition ValidateConfig :: "Config \<Rightarrow> config_error + unit" where
  "ValidateConfig c =
     failIf (ListenAddress (cfgServer c) = []) (Required ''server.listen_address'') (
     failIf (DatabasePath (cfgDatabase c) = []) (Required ''database.path'') (
     failIf (BusyTimeout (cfgDatabase c) \<le> 0 \<or> ExpiryInterval (cfgDatabase c) \<le> 0) DatabaseTimeouts (
     failIf (DefaultMessageIdentifier (cfgCBS c) = 0 \<or> DefaultMessageIdentifier (cfgCBS c) = 0xffff)
       BadDefaultIdentifier (
     failIf (\<exists>(severity, i) \<in> set (MessageIdentifiers (cfgCBS c)).
         TrimSpace severity = [] \<or> i = 0 \<or> i = 0xffff) BadIdentifierMapping (
     andThen (validateSBcAP (cfgSBcAP c)) (\<lambda>_.
     failIf (\<not> (lowerIs (Level (cfgLogging c)) ''debug'' \<or> lowerIs (Level (cfgLogging c)) ''info'' \<or>
         lowerIs (Level (cfgLogging c)) ''warn'' \<or> lowerIs (Level (cfgLogging c)) ''error'')) BadLevel (
     andThen (validateCBE (cfgCBE c)) (\<lambda>_.
     validateInventory (cfgCellInventory c)))))))))"

definition Load :: "(string \<Rightarrow> string + Config) \<Rightarrow> string \<Rightarrow> config_error + Config" where
  "Load decode b =
     andThen (wrapErr Undecodable (decode b)) (\<lambda>c.
     let c = applyDefaults c in
     andThen (ValidateConfig c) (\<lambda>_. Inr c))"

section \<open>What a loaded configuration satisfies\<close>

definition usableConfig :: "Config \<Rightarrow> bool" where
  "usableConfig c \<longleftrightarrow>
     ListenAddress (cfgServer c) \<noteq> [] \<and> DatabasePath (cfgDatabase c) \<noteq> [] \<and>
     ShutdownTimeout (cfgServer c) > 0 \<and> BusyTimeout (cfgDatabase c) > 0 \<and>
     ExpiryInterval (cfgDatabase c) > 0 \<and>
     DefaultMessageIdentifier (cfgCBS c) \<notin> {0, 0xffff} \<and>
     list_all (\<lambda>(k, i). TrimSpace k \<noteq> [] \<and> i \<noteq> 0 \<and> i \<noteq> 0xffff) (MessageIdentifiers (cfgCBS c)) \<and>
     RepetitionPeriod (cfgSBcAP c) \<noteq> 0 \<and> Broadcasts (cfgSBcAP c) \<noteq> 0 \<and>
     ResponseTimeout (cfgSBcAP c) > 0 \<and> ReconnectMin (cfgSBcAP c) > 0 \<and> ReconnectMax (cfgSBcAP c) > 0 \<and>
     CBEReconnectMin (cfgCBE c) > 0 \<and> CBEReconnectMin (cfgCBE c) \<le> CBEReconnectMax (cfgCBE c) \<and>
     (if SBcAPEnabled (cfgSBcAP c) then
        Peers (cfgSBcAP c) \<noteq> [] \<and> ReconnectMin (cfgSBcAP c) \<le> ReconnectMax (cfgSBcAP c) \<and>
        5 \<le> length (RemoveAll (PLMN (cfgSBcAP c)) (CHR ''-''))
      else True)"

lemma applyDefaults_fixed:
  "RepetitionPeriod (cfgSBcAP (applyDefaults c)) \<noteq> 0" "Broadcasts (cfgSBcAP (applyDefaults c)) \<noteq> 0"
  "ResponseTimeout (cfgSBcAP (applyDefaults c)) > 0" "ReconnectMin (cfgSBcAP (applyDefaults c)) > 0"
  "ReconnectMax (cfgSBcAP (applyDefaults c)) > 0" "ShutdownTimeout (cfgServer (applyDefaults c)) > 0"
  "BusyTimeout (cfgDatabase (applyDefaults c)) > 0"
  "ExpiryInterval (cfgDatabase (applyDefaults c)) > 0"
  "CBEReconnectMin (cfgCBE (applyDefaults c)) > 0"
  by (simp_all add: applyDefaults_def orDefault_def Let_def Second_def Minute_def not_le)

lemma applyDefaults_idem: "applyDefaults (applyDefaults c) = applyDefaults c"
  by (simp add: applyDefaults_def orDefault_def Let_def Second_def Minute_def)

lemma Load_usable:
  assumes "Load decode b = Inr c"
  shows "usableConfig c \<and> applyDefaults c = c"
proof -
  from assms obtain d where d: "c = applyDefaults d" and v: "ValidateConfig c = Inr ()"
    by (auto simp: Load_def Let_def andThen_eq_Inr)
  have cbe: "validateCBE (cfgCBE c) = Inr ()" and sb: "validateSBcAP (cfgSBcAP c) = Inr ()"
    using v by (auto simp: ValidateConfig_def andThen_eq_Inr)
  have "list_all (\<lambda>(k, i). TrimSpace k \<noteq> [] \<and> i \<noteq> 0 \<and> i \<noteq> 0xffff) (MessageIdentifiers (cfgCBS c))"
    using v by (auto simp: ValidateConfig_def andThen_eq_Inr list_all_iff)
  moreover have "CBEReconnectMin (cfgCBE c) \<le> CBEReconnectMax (cfgCBE c)"
    using cbe by (auto simp: validateCBE_def)
  moreover have "ListenAddress (cfgServer c) \<noteq> []" "DatabasePath (cfgDatabase c) \<noteq> []"
    "DefaultMessageIdentifier (cfgCBS c) \<notin> {0, 0xffff}"
    using v by (auto simp: ValidateConfig_def andThen_eq_Inr)
  moreover have "SBcAPEnabled (cfgSBcAP c) \<Longrightarrow> Peers (cfgSBcAP c) \<noteq> [] \<and>
      ReconnectMin (cfgSBcAP c) \<le> ReconnectMax (cfgSBcAP c) \<and>
      5 \<le> length (RemoveAll (PLMN (cfgSBcAP c)) (CHR ''-''))"
    using sb by (auto simp: validateSBcAP_def)
  ultimately show ?thesis
    using applyDefaults_fixed [of d] applyDefaults_idem by (simp add: usableConfig_def d)
qed

section \<open>Properties\<close>

definition sampleConfig :: Config where
  "sampleConfig =
     \<lparr>cfgServer = \<lparr>ListenAddress = '':8080'', ShutdownTimeout = 0\<rparr>,
      cfgDatabase = \<lparr>DatabasePath = ''cbc.db'', BusyTimeout = 0, ExpiryInterval = 0\<rparr>,
      cfgCBS = \<lparr>DefaultMessageIdentifier = 0x1112, MessageIdentifiers = [], AllowPLMNWide = False\<rparr>,
      cfgSBcAP = \<lparr>SBcAPEnabled = True, PLMN = ''311-435'',
        Peers = [\<lparr>PeerName = ''mme1'', PeerAddress = ''10.0.0.1:29168''\<rparr>], RepetitionPeriod = 0,
        Broadcasts = 0, ResponseTimeout = 0, ReconnectMin = 0, ReconnectMax = 0, LocalAddress = []\<rparr>,
      cfgLogging = \<lparr>Level = [], File = []\<rparr>,
      cfgCBE = \<lparr>CBEAddress = ''10.0.0.2:5222'', Domain = ''cbe'', Username = ''u'', Password = ''p'',
        Resource = [], TLSMode = [], InsecureSkipVerify = False, CBEReconnectMin = 0,
        CBEReconnectMax = 0\<rparr>,
      cfgCellInventory = \<lparr>InventoryEnabled = True, MaxImportSizeBytes = 0, DefaultImportMode = []\<rparr>\<rparr>"

lemma sampleConfig_loads:
  "rp \<noteq> 0 \<Longrightarrow> Load (\<lambda>_. Inr (sampleConfig\<lparr>cfgSBcAP := cfgSBcAP sampleConfig\<lparr>RepetitionPeriod := rp\<rparr>\<rparr>)) b =
     Inr (applyDefaults (sampleConfig\<lparr>cfgSBcAP := cfgSBcAP sampleConfig\<lparr>RepetitionPeriod := rp\<rparr>\<rparr>))"
  by (simp add: Load_def ValidateConfig_def validateSBcAP_def validateCBE_def validateInventory_def
      applyDefaults_def orDefault_def sampleConfig_def Second_def Minute_def RemoveAll_def string_eval
      char_eval)



end
