(* ===== verification/Delivery_Assoc.thy ===== *)
theory Delivery_Assoc
  imports Config Sbcap_Restart
begin

text \<open>
  \<open>internal/delivery/delivery.go\<close>, the association with one MME: the goroutine that keeps it connected
  and reads it (\<open>maintain\<close>, \<open>readLoop\<close>) and the sender inside \<open>sendAndAwait\<close>, as the atomic steps that
  they take between each other's. A step is what happens in one critical section, channel operation or
  call of the connection; the connection is a number, and what the network does is the choice of the
  move. \<open>as_log\<close> is history that the code does not keep, latest event first.
\<close>

section \<open>State\<close>

datatype send_error =
    NotConnected string
  | WriteFailed string string
  | TimedOut string
  | ConnectionGone string
  | Rejected string
  | ConnectionLost string string

text \<open>\<open>pj_id\<close> tells jobs apart, as their addresses do.\<close>

record pendingJob =
  pj_id :: nat
  pj_procedure :: int
  pj_messageID :: u16
  pj_serial :: u16

text \<open>Where \<open>sendAndAwait\<close> is: it has taken the connection, has installed its job, waits in the
  \<open>select\<close>, or returns.\<close>

datatype send_phase = Taken | Installed | Waiting | Returning "send_error option"

record Sending =
  sn_job :: pendingJob
  sn_pdu :: "byte list"
  sn_done :: nat
  sn_phase :: send_phase

text \<open>Where the goroutine of the association is: dialing, reading, handing a result to a job (the flag:
  \<open>readLoop\<close> ends afterwards), after \<open>readLoop\<close>, and after \<open>clearConn\<close>.\<close>

datatype reader_phase =
    Dialing
  | Reading nat
  | Handing nat pendingJob "send_error option" bool
  | ReadOver nat
  | ConnCleared nat

datatype event =
    Started pendingJob
  | Wrote pendingJob "byte list"
  | Got "byte list"
  | Returned pendingJob "send_error option"

record mmeAssociation =
  as_peer :: SBcAPPeer
  as_conn :: "nat option"
  as_done :: nat
  as_closed :: "nat list"
  as_awaiting :: "pendingJob option"
  as_results :: "(pendingJob \<times> send_error option) list"
  as_sending :: "Sending option"
  as_reader :: reader_phase
  as_dialed :: nat
  as_jobs :: nat
  as_log :: "event list"

definition newAssociation :: "SBcAPPeer \<Rightarrow> mmeAssociation" where
  "newAssociation peer =
     \<lparr>as_peer = peer, as_conn = None, as_done = 0, as_closed = [], as_awaiting = None, as_results = [],
      as_sending = None, as_reader = Dialing, as_dialed = 0, as_jobs = 0, as_log = []\<rparr>"

section \<open>Operations\<close>

definition setConn :: "nat \<Rightarrow> mmeAssociation \<Rightarrow> mmeAssociation" where
  "setConn n a = a\<lparr>as_conn := Some n, as_done := n\<rparr>"

definition current :: "mmeAssociation \<Rightarrow> nat option \<times> nat" where
  "current a = (as_conn a, as_done a)"

definition clearConn :: "nat \<Rightarrow> mmeAssociation \<Rightarrow> mmeAssociation" where
  "clearConn n a = (if as_conn a = Some n then a\<lparr>as_conn := None\<rparr> else a)"

text \<open>\<open>select { case job.result <- r: default: }\<close> on the channel with one place.\<close>

definition offerResult :: "pendingJob \<Rightarrow> send_error option \<Rightarrow> mmeAssociation \<Rightarrow> mmeAssociation" where
  "offerResult j r a =
     (if map_of (as_results a) j = None then a\<lparr>as_results := (j, r) # as_results a\<rparr> else a)"

text \<open>\<open>deliverResponse\<close> up to the channel: the job that gets the outcome, when one does.\<close>

definition deliverResponse :: "mmeAssociation \<Rightarrow> byte list \<Rightarrow> int \<Rightarrow> send_error option \<Rightarrow> pendingJob option" where
  "deliverResponse a pdu procedure outcomeErr =
     (case as_awaiting a of
        None \<Rightarrow> None
      | Some job \<Rightarrow>
          if pj_procedure job \<noteq> procedure then None
          else if outcomeErr = None then
            (case ResponseIDs pdu procedure of
               Inl _ \<Rightarrow> None
             | Inr (msgID, serial) \<Rightarrow>
                 if msgID \<noteq> pj_messageID job \<or> serial \<noteq> pj_serial job then None else Some job)
          else Some job)"

definition handTo :: "nat \<Rightarrow> pendingJob option \<Rightarrow> send_error option \<Rightarrow> bool \<Rightarrow> reader_phase" where
  "handTo n job r ends =
     (case job of Some j \<Rightarrow> Handing n j r ends | None \<Rightarrow> if ends then ReadOver n else Reading n)"

text \<open>One round of \<open>readLoop\<close> with the octets of a successful \<open>Read\<close>; indications are the business of
  the publisher.\<close>

definition readRound :: "nat \<Rightarrow> byte list \<Rightarrow> mmeAssociation \<Rightarrow> mmeAssociation" where
  "readRound n pdu a =
     (let a = a\<lparr>as_log := Got pdu # as_log a\<rparr> in
      case Header pdu of
        Inl _ \<Rightarrow> a
      | Inr (outcome, procedure) \<Rightarrow>
          if outcome = OutcomeSuccessful then
            a\<lparr>as_reader := handTo n (deliverResponse a pdu procedure None) None False\<rparr>
          else if outcome = OutcomeUnsuccessful then
            let r = Some (Rejected (PeerName (as_peer a)))
            in a\<lparr>as_reader := handTo n (deliverResponse a pdu procedure r) r False\<rparr>
          else a)"

definition failAwaiting :: "nat \<Rightarrow> send_error \<Rightarrow> mmeAssociation \<Rightarrow> mmeAssociation" where
  "failAwaiting n err a = a\<lparr>as_reader := handTo n (as_awaiting a) (Some err) True\<rparr>"

definition sendPhase :: "send_phase \<Rightarrow> Sending \<Rightarrow> mmeAssociation \<Rightarrow> mmeAssociation" where
  "sendPhase ph s a = a\<lparr>as_sending := Some (s\<lparr>sn_phase := ph\<rparr>)\<rparr>"

datatype move =
    Dial
  | Inbound "byte list"
  | ReadError string
  | Hand
  | Clear
  | CloseDone
  | Send "byte list" int u16 u16
  | Install
  | Write "string option"
  | Receive
  | Timer
  | DoneClosed
  | Return

text \<open>The steps of the goroutine of the association, in the order of \<open>maintain\<close>.\<close>

fun readerMove :: "move \<Rightarrow> mmeAssociation \<Rightarrow> mmeAssociation option" where
  "readerMove Dial a =
     (case as_reader a of
        Dialing \<Rightarrow> (let n = as_dialed a in
          Some ((setConn n a)\<lparr>as_dialed := n + 1, as_reader := Reading n\<rparr>))
      | _ \<Rightarrow> None)"
| "readerMove (Inbound pdu) a =
     (case as_reader a of Reading n \<Rightarrow> Some (readRound n pdu a) | _ \<Rightarrow> None)"
| "readerMove (ReadError e) a =
     (case as_reader a of
        Reading n \<Rightarrow> Some (failAwaiting n (ConnectionLost (PeerName (as_peer a)) e) a) | _ \<Rightarrow> None)"
| "readerMove Hand a =
     (case as_reader a of
        Handing n j r ends \<Rightarrow>
          Some ((offerResult j r a)\<lparr>as_reader := if ends then ReadOver n else Reading n\<rparr>)
      | _ \<Rightarrow> None)"
| "readerMove Clear a =
     (case as_reader a of ReadOver n \<Rightarrow> Some ((clearConn n a)\<lparr>as_reader := ConnCleared n\<rparr>) | _ \<Rightarrow> None)"
| "readerMove CloseDone a =
     (case as_reader a of
        ConnCleared n \<Rightarrow> Some (a\<lparr>as_closed := n # as_closed a, as_reader := Dialing\<rparr>) | _ \<Rightarrow> None)"
| "readerMove _ a = None"

text \<open>The steps of \<open>sendAndAwait\<close>. A sender without a connection returns at once; \<open>Send\<close> needs \<open>sendMu\<close>,
  and \<open>Return\<close> is the deferred functions.\<close>

fun senderMove :: "move \<Rightarrow> mmeAssociation \<Rightarrow> mmeAssociation option" where
  "senderMove (Send pdu procedure messageID serial) a =
     (case as_sending a of
        Some _ \<Rightarrow> None
      | None \<Rightarrow>
          (let job = \<lparr>pj_id = as_jobs a, pj_procedure = procedure, pj_messageID = messageID, pj_serial = serial\<rparr>;
               (conn, done) = current a;
               ph = (if conn = None then Returning (Some (NotConnected (PeerName (as_peer a)))) else Taken)
           in Some (a\<lparr>as_sending := Some \<lparr>sn_job = job, sn_pdu = pdu, sn_done = done, sn_phase = ph\<rparr>,
                as_jobs := as_jobs a + 1, as_log := Started job # as_log a\<rparr>)))"
| "senderMove Install a =
     (case as_sending a of
        Some s \<Rightarrow> if sn_phase s = Taken then Some ((sendPhase Installed s a)\<lparr>as_awaiting := Some (sn_job s)\<rparr>)
                 else None
      | None \<Rightarrow> None)"
| "senderMove (Write err) a =
     (case as_sending a of
        Some s \<Rightarrow> if sn_phase s = Installed then
          (case err of
             Some e \<Rightarrow> Some (sendPhase (Returning (Some (WriteFailed (PeerName (as_peer a)) e))) s a)
           | None \<Rightarrow> Some ((sendPhase Waiting s a)\<lparr>as_log := Wrote (sn_job s) (sn_pdu s) # as_log a\<rparr>))
          else None
      | None \<Rightarrow> None)"
| "senderMove Receive a =
     (case as_sending a of
        Some s \<Rightarrow> if sn_phase s = Waiting then
          (case map_of (as_results a) (sn_job s) of
             Some r \<Rightarrow> Some (sendPhase (Returning r) s a) | None \<Rightarrow> None)
          else None
      | None \<Rightarrow> None)"
| "senderMove Timer a =
     (case as_sending a of
        Some s \<Rightarrow> if sn_phase s = Waiting then Some (sendPhase (Returning (Some (TimedOut (PeerName (as_peer a))))) s a)
                 else None
      | None \<Rightarrow> None)"
| "senderMove DoneClosed a =
     (case as_sending a of
        Some s \<Rightarrow> if sn_phase s = Waiting \<and> sn_done s \<in> set (as_closed a)
                 then Some (sendPhase (Returning (Some (ConnectionGone (PeerName (as_peer a))))) s a) else None
      | None \<Rightarrow> None)"
| "senderMove Return a =
     (case as_sending a of
        Some s \<Rightarrow>
          (case sn_phase s of
             Returning r \<Rightarrow> Some (a\<lparr>as_awaiting := if as_awaiting a = Some (sn_job s) then None else as_awaiting a,
               as_sending := None, as_log := Returned (sn_job s) r # as_log a\<rparr>)
           | _ \<Rightarrow> None)
      | None \<Rightarrow> None)"
| "senderMove _ a = None"

definition assocMove :: "move \<Rightarrow> mmeAssociation \<Rightarrow> mmeAssociation option" where
  "assocMove mv a = (case readerMove mv a of Some b \<Rightarrow> Some b | None \<Rightarrow> senderMove mv a)"

inductive reachableAssoc :: "mmeAssociation \<Rightarrow> bool" where
  start: "reachableAssoc (newAssociation peer)"
| step: "reachableAssoc a \<Longrightarrow> assocMove mv a = Some b \<Longrightarrow> reachableAssoc b"

section \<open>The invariant\<close>

text \<open>What a result of a job rests on among the octets that were read.\<close>

definition accepts :: "pendingJob \<Rightarrow> byte list \<Rightarrow> bool" where
  "accepts j pdu \<longleftrightarrow> Header pdu = Inr (OutcomeSuccessful, pj_procedure j) \<and>
     ResponseIDs pdu (pj_procedure j) = Inr (pj_messageID j, pj_serial j)"

definition refuses :: "pendingJob \<Rightarrow> byte list \<Rightarrow> bool" where
  "refuses j pdu \<longleftrightarrow> Header pdu = Inr (OutcomeUnsuccessful, pj_procedure j)"

definition justified :: "event list \<Rightarrow> pendingJob \<Rightarrow> send_error option \<Rightarrow> bool" where
  "justified es j r \<longleftrightarrow>
     (r = None \<longrightarrow> (\<exists>pdu. Got pdu \<in> set es \<and> accepts j pdu)) \<and>
     (\<forall>p. r = Some (Rejected p) \<longrightarrow> (\<exists>pdu. Got pdu \<in> set es \<and> refuses j pdu))"

definition written :: "event list \<Rightarrow> pendingJob \<Rightarrow> bool" where
  "written es j \<longleftrightarrow> (\<exists>pdu. Wrote j pdu \<in> set es)"

definition logInv :: "event list \<Rightarrow> bool" where
  "logInv es \<longleftrightarrow> (\<forall>j r. Returned j r \<in> set es \<longrightarrow> justified es j r \<and> (r = None \<longrightarrow> written es j))"

text \<open>The transaction that is open after a log: \<open>None\<close> when two have overlapped.\<close>

fun openJob :: "event list \<Rightarrow> pendingJob option option" where
  "openJob [] = Some None"
| "openJob (Started j # es) = (case openJob es of Some None \<Rightarrow> Some (Some j) | _ \<Rightarrow> None)"
| "openJob (Wrote j pdu # es) = (case openJob es of Some (Some i) \<Rightarrow> if i = j then Some (Some i) else None | _ \<Rightarrow> None)"
| "openJob (Returned j r # es) = (case openJob es of Some (Some i) \<Rightarrow> if i = j then Some None else None | _ \<Rightarrow> None)"
| "openJob (Got pdu # es) = openJob es"

definition sendInv :: "event list \<Rightarrow> Sending option \<Rightarrow> bool" where
  "sendInv es x \<longleftrightarrow> openJob es = Some (map_option sn_job x) \<and>
     (\<forall>s. x = Some s \<longrightarrow>
        (case sn_phase s of Returning r \<Rightarrow> justified es (sn_job s) r \<and> (r = None \<longrightarrow> written es (sn_job s))
         | Waiting \<Rightarrow> written es (sn_job s) | _ \<Rightarrow> True))"

definition readInv :: "event list \<Rightarrow> reader_phase \<Rightarrow> bool" where
  "readInv es x \<longleftrightarrow> (\<forall>n j r e. x = Handing n j r e \<longrightarrow> justified es j r)"

definition assocInv :: "mmeAssociation \<Rightarrow> bool" where
  "assocInv a \<longleftrightarrow> logInv (as_log a) \<and> sendInv (as_log a) (as_sending a) \<and> readInv (as_log a) (as_reader a) \<and>
     (\<forall>(j, r) \<in> set (as_results a). justified (as_log a) j r) \<and>
     (\<forall>j. as_awaiting a = Some j \<longrightarrow> (\<exists>s. as_sending a = Some s \<and> sn_job s = j))"

lemma justified_Cons: "justified es j r \<Longrightarrow> justified (e # es) j r"
  by (auto simp: justified_def)

lemma justified_other [simp]: "justified es j (Some (NotConnected p))" "justified es j (Some (WriteFailed p e))"
  "justified es j (Some (TimedOut p))" "justified es j (Some (ConnectionGone p))" "justified es j (Some (ConnectionLost p e))"
  by (simp_all add: justified_def)

lemma written_Cons: "written es j \<Longrightarrow> written (e # es) j"
  by (auto simp: written_def)

lemma logInv_Cons:
  "logInv es \<Longrightarrow> (\<And>j r. e = Returned j r \<Longrightarrow> justified es j r \<and> (r = None \<longrightarrow> written es j)) \<Longrightarrow> logInv (e # es)"
  unfolding logInv_def using justified_Cons written_Cons by (metis set_ConsD)

section \<open>Every step keeps the invariant\<close>

lemma as_ops [simp]:
  "as_log (setConn n a) = as_log a" "as_log (clearConn n a) = as_log a" "as_log (offerResult j r a) = as_log a"
  "as_sending (setConn n a) = as_sending a" "as_sending (clearConn n a) = as_sending a"
  "as_sending (offerResult j r a) = as_sending a"
  "as_awaiting (setConn n a) = as_awaiting a" "as_awaiting (clearConn n a) = as_awaiting a"
  "as_awaiting (offerResult j r a) = as_awaiting a"
  "as_results (setConn n a) = as_results a" "as_results (clearConn n a) = as_results a"
  by (simp_all add: setConn_def clearConn_def offerResult_def)

lemma readInv_simps [simp]: "readInv es (Reading n)" "readInv es Dialing" "readInv es (ReadOver n)"
  "readInv es (ConnCleared n)" "readInv es (Handing n j r e) \<longleftrightarrow> justified es j r"
  by (simp_all add: readInv_def)

lemma readInv_handTo: "(\<And>j. job = Some j \<Longrightarrow> justified es j r) \<Longrightarrow> readInv es (handTo n job r e)"
  by (cases job) (auto simp: handTo_def)

lemma inv_parts:
  assumes "assocInv a"
  shows "logInv (as_log a)" "sendInv (as_log a) (as_sending a)" "readInv (as_log a) (as_reader a)"
    "(j, r) \<in> set (as_results a) \<Longrightarrow> justified (as_log a) j r"
  using assms by (auto simp: assocInv_def)

lemma readInv_Cons: "readInv es x \<Longrightarrow> readInv (e # es) x"
  using justified_Cons by (auto simp: readInv_def)

lemma sendInv_Got: "sendInv es x \<Longrightarrow> sendInv (Got pdu # es) x"
  using justified_Cons written_Cons by (auto simp: sendInv_def split: send_phase.splits)

lemma inv_Got: "assocInv a \<Longrightarrow> assocInv (a\<lparr>as_log := Got pdu # as_log a\<rparr>)"
  using logInv_Cons [of "as_log a" "Got pdu"] sendInv_Got readInv_Cons justified_Cons
  unfolding assocInv_def by fastforce

lemma inv_reader: "assocInv a \<Longrightarrow> readInv (as_log a) x \<Longrightarrow> assocInv (a\<lparr>as_reader := x\<rparr>)"
  by (simp add: assocInv_def)

lemma delivered_accepts:
  "deliverResponse a pdu procedure None = Some j \<Longrightarrow> Header pdu = Inr (OutcomeSuccessful, procedure) \<Longrightarrow> accepts j pdu"
  by (auto simp: deliverResponse_def accepts_def split: option.splits sum.splits if_splits)

lemma delivered_refuses:
  "deliverResponse a pdu procedure (Some e) = Some j \<Longrightarrow> Header pdu = Inr (OutcomeUnsuccessful, procedure) \<Longrightarrow> refuses j pdu"
  by (auto simp: deliverResponse_def refuses_def split: option.splits if_splits)

lemma readRound_inv:
  assumes "assocInv a"
  shows "assocInv (readRound n pdu a)"
proof -
  let ?b = "a\<lparr>as_log := Got pdu # as_log a\<rparr>"
  have b: "assocInv ?b" by (rule inv_Got [OF assms])
  show ?thesis
  proof (cases "Header pdu")
    case (Inl e)
    then show ?thesis using b by (simp add: readRound_def)
  next
    case (Inr h)
    obtain outcome procedure where h: "Header pdu = Inr (outcome, procedure)" using Inr by (cases h) auto
    have s: "readInv (as_log ?b) (handTo n (deliverResponse ?b pdu procedure None) None False)"
      if "outcome = OutcomeSuccessful"
      using delivered_accepts [of ?b pdu procedure] h that
      by (intro readInv_handTo) (auto simp: justified_def)
    have u: "readInv (as_log ?b) (handTo n (deliverResponse ?b pdu procedure (Some e)) (Some e) False)"
      if "outcome = OutcomeUnsuccessful" for e
      using delivered_refuses [of ?b pdu procedure e] h that
      by (intro readInv_handTo) (auto simp: justified_def)
    show ?thesis
      using b inv_reader [OF b s] inv_reader [OF b u] by (simp add: readRound_def h Let_def)
  qed
qed

lemma reader_inv:
  assumes "assocInv a" "readerMove mv a = Some b"
  shows "assocInv b"
proof (cases mv)
  case Dial
  then show ?thesis using assms by (auto simp: assocInv_def Let_def split: reader_phase.splits)
next
  case (Inbound pdu)
  then show ?thesis using assms readRound_inv by (auto split: reader_phase.splits)
next
  case (ReadError e)
  then show ?thesis using assms
    by (auto simp: failAwaiting_def intro!: inv_reader readInv_handTo split: reader_phase.splits)
next
  case Hand
  then obtain n j r e where h: "as_reader a = Handing n j r e"
    and b: "b = (offerResult j r a)\<lparr>as_reader := if e then ReadOver n else Reading n\<rparr>"
    using assms(2) by (auto split: reader_phase.splits)
  have "justified (as_log a) j r" using inv_parts(3) [OF assms(1)] by (simp add: h)
  with assms(1) have "assocInv (offerResult j r a)" by (simp add: offerResult_def assocInv_def)
  then show ?thesis unfolding b by (intro inv_reader) auto
next
  case Clear
  then show ?thesis using assms by (auto simp: assocInv_def split: reader_phase.splits)
next
  case CloseDone
  then show ?thesis using assms by (auto simp: assocInv_def split: reader_phase.splits)
qed (use assms in auto)

lemma sendInv_job: "sendInv es (Some s) \<Longrightarrow> openJob es = Some (Some (sn_job s))"
  by (simp add: sendInv_def)

lemma inv_phase:
  assumes "assocInv a" "as_sending a = Some s"
    and "case ph of Returning r \<Rightarrow> justified (as_log a) (sn_job s) r \<and> (r = None \<longrightarrow> written (as_log a) (sn_job s))
         | Waiting \<Rightarrow> written (as_log a) (sn_job s) | _ \<Rightarrow> True"
  shows "assocInv (sendPhase ph s a)"
  using assms by (cases ph) (simp_all add: assocInv_def sendPhase_def sendInv_def)

lemma inv_event:
  assumes "assocInv a" "as_log b = e # as_log a" "as_results b = as_results a" "as_reader b = as_reader a"
    and "logInv (e # as_log a)" "sendInv (e # as_log a) (as_sending b)"
    and "\<And>j. as_awaiting b = Some j \<Longrightarrow> \<exists>s. as_sending b = Some s \<and> sn_job s = j"
  shows "assocInv b"
proof -
  have "\<forall>(j, r) \<in> set (as_results a). justified (e # as_log a) j r"
    using inv_parts(4) [OF assms(1)] justified_Cons by blast
  then show ?thesis
    using assms readInv_Cons [OF inv_parts(3) [OF assms(1)]] by (simp add: assocInv_def)
qed

lemma sender_inv:
  assumes "assocInv a" "senderMove mv a = Some b"
  shows "assocInv b"
proof (cases mv)
  case (Send pdu procedure m sr)
  obtain c d where c: "current a = (c, d)" by fastforce
  have "as_sending a = None" using Send assms(2) by (auto split: option.splits)
  then have "openJob (as_log a) = Some None" using inv_parts(2) [OF assms(1)] by (simp add: sendInv_def)
  moreover have "as_awaiting a = None" using assms(1) \<open>as_sending a = None\<close> by (auto simp: assocInv_def)
  moreover have "logInv (Started j # as_log a)" for j
    using inv_parts(1) [OF assms(1)] by (intro logInv_Cons) auto
  moreover define j where "j = \<lparr>pj_id = as_jobs a, pj_procedure = procedure, pj_messageID = m, pj_serial = sr\<rparr>"
  moreover define ph where "ph = (if c = None then Returning (Some (NotConnected (PeerName (as_peer a)))) else Taken)"
  moreover have "b = a\<lparr>as_sending := Some \<lparr>sn_job = j, sn_pdu = pdu, sn_done = d, sn_phase = ph\<rparr>,
      as_jobs := as_jobs a + 1, as_log := Started j # as_log a\<rparr>"
    using Send assms(2) c \<open>as_sending a = None\<close> by (auto simp: Let_def j_def ph_def)
  ultimately show ?thesis
    by (intro inv_event [OF assms(1), of b "Started j"]) (auto simp: sendInv_def)
next
  case Install
  then obtain s where s: "as_sending a = Some s" "sn_phase s = Taken"
    and b: "b = (sendPhase Installed s a)\<lparr>as_awaiting := Some (sn_job s)\<rparr>"
    using assms(2) by (auto split: option.splits if_splits)
  from inv_phase [OF assms(1) s(1), of Installed] show ?thesis
    by (simp add: b assocInv_def sendPhase_def)
next
  case (Write err)
  then obtain s where s: "as_sending a = Some s" "sn_phase s = Installed"
    using assms(2) by (auto split: option.splits if_splits)
  show ?thesis
  proof (cases err)
    case None
    then have b: "b = (sendPhase Waiting s a)\<lparr>as_log := Wrote (sn_job s) (sn_pdu s) # as_log a\<rparr>"
      using Write assms(2) s by simp
    have "openJob (as_log a) = Some (Some (sn_job s))" using inv_parts(2) [OF assms(1)] s sendInv_job by simp
    then have "sendInv (Wrote (sn_job s) (sn_pdu s) # as_log a) (Some (s\<lparr>sn_phase := Waiting\<rparr>))"
      by (auto simp: sendInv_def written_def)
    moreover have "logInv (Wrote (sn_job s) (sn_pdu s) # as_log a)"
      using inv_parts(1) [OF assms(1)] by (intro logInv_Cons) auto
    ultimately show ?thesis
      using assms(1) s unfolding b by (intro inv_event [OF assms(1)]) (auto simp: sendPhase_def assocInv_def)
  next
    case (Some e)
    then show ?thesis using Write assms(2) s by (auto intro!: inv_phase [OF assms(1)])
  qed
next
  case Receive
  then obtain s r where s: "as_sending a = Some s" "sn_phase s = Waiting" "map_of (as_results a) (sn_job s) = Some r"
    and b: "b = sendPhase (Returning r) s a"
    using assms(2) by (auto split: option.splits if_splits)
  have "written (as_log a) (sn_job s)" using inv_parts(2) [OF assms(1)] s by (simp add: sendInv_def)
  then show ?thesis
    unfolding b using inv_parts(4) [OF assms(1) map_of_SomeD [OF s(3)]] by (intro inv_phase [OF assms(1) s(1)]) simp
next
  case Timer
  then show ?thesis using assms by (auto intro!: inv_phase split: option.splits if_splits)
next
  case DoneClosed
  then show ?thesis using assms by (auto intro!: inv_phase split: option.splits if_splits)
next
  case Return
  then obtain s r where s: "as_sending a = Some s" "sn_phase s = Returning r"
    and b: "b = a\<lparr>as_awaiting := if as_awaiting a = Some (sn_job s) then None else as_awaiting a,
               as_sending := None, as_log := Returned (sn_job s) r # as_log a\<rparr>"
    using assms(2) by (auto split: option.splits send_phase.splits)
  have j: "openJob (as_log a) = Some (Some (sn_job s))"
    "justified (as_log a) (sn_job s) r" "r = None \<longrightarrow> written (as_log a) (sn_job s)"
    using inv_parts(2) [OF assms(1)] s by (auto simp: sendInv_def)
  have "logInv (Returned (sn_job s) r # as_log a)"
    using inv_parts(1) [OF assms(1)] j by (intro logInv_Cons) auto
  moreover have "as_awaiting a = None \<or> as_awaiting a = Some (sn_job s)"
    using assms(1) s by (cases "as_awaiting a") (auto simp: assocInv_def)
  moreover have "sendInv (Returned (sn_job s) r # as_log a) None" using j(1) by (simp add: sendInv_def)
  ultimately show ?thesis
    unfolding b by (intro inv_event [OF assms(1)]) auto
qed (use assms in auto)

lemma reachable_inv: "reachableAssoc a \<Longrightarrow> assocInv a"
proof (induction rule: reachableAssoc.induct)
  case (start peer)
  then show ?case by (simp add: assocInv_def newAssociation_def logInv_def sendInv_def)
next
  case (step a mv b)
  show ?case
  proof (cases "readerMove mv a")
    case None
    then show ?thesis using step sender_inv by (simp add: assocMove_def)
  next
    case (Some c)
    then show ?thesis using step reader_inv by (simp add: assocMove_def)
  qed
qed


section \<open>Properties\<close>

fun runMoves :: "move list \<Rightarrow> mmeAssociation \<Rightarrow> mmeAssociation option" where
  "runMoves [] a = Some a"
| "runMoves (mv # mvs) a = (case assocMove mv a of None \<Rightarrow> None | Some b \<Rightarrow> runMoves mvs b)"

lemma runMoves_reachable: "runMoves mvs a = Some b \<Longrightarrow> reachableAssoc a \<Longrightarrow> reachableAssoc b"
  by (induction mvs arbitrary: a) (auto intro: reachableAssoc.step split: option.splits)

lemma success_log:
  assumes "reachableAssoc a" "Returned j None \<in> set (as_log a)"
  shows "(\<exists>pdu. Wrote j pdu \<in> set (as_log a)) \<and>
    (\<exists>pdu. Got pdu \<in> set (as_log a) \<and> Header pdu = Inr (OutcomeSuccessful, pj_procedure j) \<and>
       ResponseIDs pdu (pj_procedure j) = Inr (pj_messageID j, pj_serial j))"
  using inv_parts(1) [OF reachable_inv [OF assms(1)]] assms(2)
  unfolding logInv_def justified_def written_def accepts_def by blast

text \<open>C3: Whatever the order of sends, responses, timeouts, write errors and reconnects: when
  \<open>sendAndAwait\<close> reports success for a request, the request was written, and the MME sent a successful
  outcome of the same procedure with the same message identifier and serial number.\<close>

theorem success_was_accepted:
  assumes "reachableAssoc a" "Returned j None \<in> set (as_log a)"
  shows "(\<exists>pdu. Wrote j pdu \<in> set (as_log a)) \<and>
    (\<exists>pdu. Got pdu \<in> set (as_log a) \<and> Header pdu = Inr (OutcomeSuccessful, pj_procedure j) \<and>
       ResponseIDs pdu (pj_procedure j) = Inr (pj_messageID j, pj_serial j))"
  by (rule success_log [OF assms])

text \<open>C17: At most one request is in flight on an association: in the history of every reachable state the
  transactions do not overlap, a request is only written by the transaction in progress, and outside
  a transaction no job can take a response.\<close>

theorem one_request_in_flight:
  assumes "reachableAssoc a"
  shows "openJob (as_log a) = Some (map_option sn_job (as_sending a)) \<and>
    (as_sending a = None \<longrightarrow> as_awaiting a = None)"
proof -
  have i: "assocInv a" by (rule reachable_inv [OF assms])
  then have "as_awaiting a = None" if "as_sending a = None"
    using that by (cases "as_awaiting a") (auto simp: assocInv_def)
  with inv_parts(2) [OF i] show ?thesis by (simp add: sendInv_def)
qed

definition ownMoves :: "move set" where
  "ownMoves = {Install, Write None, Timer, Return}"

lemma assocMove_own [simp]: "mv \<in> ownMoves \<Longrightarrow> assocMove mv a = senderMove mv a"
  by (auto simp: ownMoves_def assocMove_def)


lemma ResponseIDs_Header: "ResponseIDs pdu procedure = Inr ids \<Longrightarrow> Header pdu = Inr (OutcomeSuccessful, procedure)"
  by (auto simp: ResponseIDs_def Header_def andThen_eq_Inr outcomes pdu_consts)

text \<open>A run: an MME connects, a request is written and accepted.\<close>

definition acceptance :: "byte list" where
  "acceptance = [0x20, 0, 0, 0xf, 0, 0, 2, 0, 5, 0, 2, 0x11, 0x12, 0, 0xb, 0, 2, 0xc0, 0]"

definition sampleRun :: "move list" where
  "sampleRun = [Dial, Send [1, 2, 3] 0 0x1112 0xc000, Install, Write None, Inbound acceptance, Hand, Receive, Return]"

definition sampleJob :: pendingJob where
  "sampleJob = \<lparr>pj_id = 0, pj_procedure = 0, pj_messageID = 0x1112, pj_serial = 0xc000\<rparr>"

lemma sampleRun_result:
  obtains a where "reachableAssoc a" "as_log a = [Returned sampleJob None, Got acceptance, Wrote sampleJob [1, 2, 3],
    Started sampleJob]" "as_sending a = None"
proof -
  have r: "ResponseIDs acceptance 0 = Inr (0x1112, 0xc000)"
    using response_write_replace_vector by (simp add: acceptance_def)
  have "\<exists>a. runMoves sampleRun (newAssociation p) = Some a \<and> as_log a = [Returned sampleJob None, Got acceptance,
      Wrote sampleJob [1, 2, 3], Started sampleJob] \<and> as_sending a = None" for p
    by (simp add: sampleRun_def newAssociation_def assocMove_def Let_def setConn_def current_def sendPhase_def
        readRound_def ResponseIDs_Header [OF r] deliverResponse_def r handTo_def offerResult_def sampleJob_def)
  then show ?thesis using that runMoves_reachable [OF _ reachableAssoc.start] by blast
qed

theorem success_was_accepted_witness:
  "\<exists>a. reachableAssoc a \<and> Returned sampleJob None \<in> set (as_log a) \<and> (\<exists>pdu. Wrote sampleJob pdu \<in> set (as_log a))"
proof -
  obtain a where a: "reachableAssoc a" "as_log a = [Returned sampleJob None, Got acceptance, Wrote sampleJob [1, 2, 3],
    Started sampleJob]" by (rule sampleRun_result)
  then have "Returned sampleJob None \<in> set (as_log a)" by simp
  with success_was_accepted [OF a(1) this] a(1) show ?thesis by blast
qed

theorem one_request_in_flight_witness:
  "\<exists>a. reachableAssoc a \<and> as_log a \<noteq> [] \<and> openJob (as_log a) = Some None"
proof -
  obtain a where a: "reachableAssoc a" "as_log a = [Returned sampleJob None, Got acceptance, Wrote sampleJob [1, 2, 3],
    Started sampleJob]" "as_sending a = None" by (rule sampleRun_result)
  with one_request_in_flight [OF a(1)] show ?thesis by auto
qed


end
