(* ===== verification/Go_Time.thy ===== *)
theory Go_Time
  imports Go_Strings
begin

text \<open>
  What the code uses of Go's \<open>time\<close>: \<open>Parse\<close> with the layout RFC3339, \<open>Format\<close> with RFC3339Nano,
  the comparison of instants and the zero time. A time is its civil fields with the offset of its
  zone, which is what both functions read and write; \<open>instant\<close> is the point in time, in
  nanoseconds since the start of year 0.
\<close>

section \<open>Civil times\<close>

record gotime =
  t_year :: nat
  t_month :: nat
  t_day :: nat
  t_hour :: nat
  t_minute :: nat
  t_second :: nat
  t_nsec :: nat
  t_offset :: int   \<comment> \<open>seconds east of UTC\<close>

definition isLeap :: "nat \<Rightarrow> bool" where
  "isLeap y \<longleftrightarrow> y mod 4 = 0 \<and> (y mod 100 \<noteq> 0 \<or> y mod 400 = 0)"

definition daysIn :: "nat \<Rightarrow> nat \<Rightarrow> nat" where
  "daysIn m y =
     (if m = 2 then if isLeap y then 29 else 28
      else if m = 4 \<or> m = 6 \<or> m = 9 \<or> m = 11 then 30 else 31)"

definition daysBeforeYear :: "nat \<Rightarrow> nat" where
  "daysBeforeYear y = 365 * y + ((y + 3) div 4 + (y + 399) div 400) - (y + 99) div 100"

definition dayNumber :: "gotime \<Rightarrow> nat" where
  "dayNumber t =
     daysBeforeYear (t_year t) + sum_list (map (\<lambda>m. daysIn m (t_year t)) [1..<t_month t]) + t_day t - 1"

definition secondsOf :: "gotime \<Rightarrow> int" where
  "secondsOf t = int (((dayNumber t * 24 + t_hour t) * 60 + t_minute t) * 60 + t_second t) - t_offset t"

definition instant :: "gotime \<Rightarrow> int" where
  "instant t = secondsOf t * 1000000000 + int (t_nsec t)"

text \<open>\<open>t.IsZero()\<close>: midnight UTC on 1 January of year 1.\<close>

definition zeroInstant :: int where
  "zeroInstant = 366 * 86400 * 1000000000"

definition zeroTime :: gotime where
  "zeroTime = \<lparr>t_year = 1, t_month = 1, t_day = 1, t_hour = 0, t_minute = 0, t_second = 0,
     t_nsec = 0, t_offset = 0\<rparr>"

definition IsZero :: "gotime \<Rightarrow> bool" where
  "IsZero t \<longleftrightarrow> instant t = zeroInstant"

definition okTime :: "gotime \<Rightarrow> bool" where
  "okTime t \<longleftrightarrow> t_year t \<le> 9999 \<and> 1 \<le> t_month t \<and> t_month t \<le> 12 \<and>
     1 \<le> t_day t \<and> t_day t \<le> daysIn (t_month t) (t_year t) \<and>
     t_hour t < 24 \<and> t_minute t < 60 \<and> t_second t < 60 \<and> t_nsec t < 1000000000 \<and>
     t_offset t mod 60 = 0 \<and> \<bar>t_offset t\<bar> \<le> 90000"

section \<open>Parsing\<close>

definition digitVal :: "char \<Rightarrow> nat" where
  "digitVal c = of_char c - 48"

definition isDigitAt :: "string \<Rightarrow> nat \<Rightarrow> bool" where
  "isDigitAt s i \<longleftrightarrow> i < length s \<and> isDigit (s ! i)"

text \<open>\<open>getnum\<close>: one or two digits, two when \<open>fixed\<close>.\<close>

definition getnum :: "string \<Rightarrow> bool \<Rightarrow> (nat \<times> string) option" where
  "getnum s fixed =
     (if \<not> isDigitAt s 0 then None
      else if \<not> isDigitAt s 1 then
        if fixed then None else Some (digitVal (s ! 0), drop 1 s)
      else Some (digitVal (s ! 0) * 10 + digitVal (s ! 1), drop 2 s))"

definition skipChar :: "char \<Rightarrow> string \<Rightarrow> string option" where
  "skipChar c s = (case s of [] \<Rightarrow> None | d # s' \<Rightarrow> if d = c then Some s' else None)"

definition need :: "bool \<Rightarrow> 'a \<Rightarrow> 'a option" where
  "need c v = (if c then Some v else None)"

definition parseYear :: "string \<Rightarrow> (nat \<times> string) option" where
  "parseYear s =
     (if list_all isDigit (take 4 s) \<and> 4 \<le> length s
      then Some (foldl (\<lambda>n c. n * 10 + digitVal c) 0 (take 4 s), drop 4 s) else None)"

text \<open>A fraction of a second after the seconds; digits after the ninth are dropped.\<close>

definition parseFraction :: "string \<Rightarrow> nat \<times> string" where
  "parseFraction s =
     (if 2 \<le> length s \<and> (s ! 0 = CHR ''.'' \<or> s ! 0 = CHR '','') \<and> isDigitAt s 1 then
        let ds = takeWhile isDigit (tl s); nine = take 9 ds
        in (foldl (\<lambda>n c. n * 10 + digitVal c) 0 nine * 10 ^ (9 - length nine), drop (length ds + 1) s)
      else (0, s))"

definition parseZone :: "string \<Rightarrow> (int \<times> string) option" where
  "parseZone s =
     (if s \<noteq> [] \<and> s ! 0 = CHR ''Z'' then Some (0, tl s)
      else if length s < 6 \<or> s ! 3 \<noteq> CHR '':'' then None
      else
        Option.bind (getnum (take 2 (drop 1 s)) True) (\<lambda>(hr, _).
        Option.bind (getnum (take 2 (drop 4 s)) True) (\<lambda>(mm, _).
        if hr > 24 \<or> mm > 60 then None
        else let off = int ((hr * 60 + mm) * 60)
             in if s ! 0 = CHR ''+'' then Some (off, drop 6 s)
                else if s ! 0 = CHR ''-'' then Some (- off, drop 6 s)
                else None)))"

definition parseRFC3339 :: "string \<Rightarrow> gotime option" where
  "parseRFC3339 s =
     Option.bind (parseYear s) (\<lambda>(y, s).
     Option.bind (skipChar (CHR ''-'') s) (\<lambda>s.
     Option.bind (getnum s True) (\<lambda>(mo, s).
     if mo < 1 \<or> 12 < mo then None else
     Option.bind (skipChar (CHR ''-'') s) (\<lambda>s.
     Option.bind (getnum s True) (\<lambda>(d, s).
     Option.bind (skipChar (CHR ''T'') s) (\<lambda>s.
     Option.bind (getnum s False) (\<lambda>(h, s).
     if 24 \<le> h then None else
     Option.bind (skipChar (CHR '':'') s) (\<lambda>s.
     Option.bind (getnum s True) (\<lambda>(mi, s).
     if 60 \<le> mi then None else
     Option.bind (skipChar (CHR '':'') s) (\<lambda>s.
     Option.bind (getnum s True) (\<lambda>(sec, s).
     if 60 \<le> sec then None else
     (let (ns, s) = parseFraction s in
     Option.bind (parseZone s) (\<lambda>(off, s).
     if s \<noteq> [] \<or> d < 1 \<or> daysIn mo y < d then None
     else Some \<lparr>t_year = y, t_month = mo, t_day = d, t_hour = h, t_minute = mi, t_second = sec,
                t_nsec = ns, t_offset = off\<rparr>)))))))))))))"

section \<open>Formatting\<close>

text \<open>\<open>appendInt(x, width)\<close> for a value that fits the width.\<close>

fun padded :: "nat \<Rightarrow> nat \<Rightarrow> string" where
  "padded 0 n = []"
| "padded (Suc w) n = padded w (n div 10) @ [char_of (48 + n mod 10)]"

definition fraction :: "nat \<Rightarrow> string" where
  "fraction ns =
     (if ns = 0 then [] else CHR ''.'' # rev (dropWhile (\<lambda>c. c = CHR ''0'') (rev (padded 9 ns))))"

definition zoneText :: "int \<Rightarrow> string" where
  "zoneText off =
     (if off = 0 then ''Z''
      else let z = nat (\<bar>off\<bar> div 60)
           in (if off < 0 then CHR ''-'' else CHR ''+'') # padded 2 (z div 60) @ '':'' @ padded 2 (z mod 60))"

definition formatRFC3339Nano :: "gotime \<Rightarrow> string" where
  "formatRFC3339Nano t =
     padded 4 (t_year t) @ ''-'' @ padded 2 (t_month t) @ ''-'' @ padded 2 (t_day t) @ ''T'' @
     padded 2 (t_hour t) @ '':'' @ padded 2 (t_minute t) @ '':'' @ padded 2 (t_second t) @
     fraction (t_nsec t) @ zoneText (t_offset t)"

text \<open>SQLite compares two TEXT values byte by byte.\<close>

fun textLE :: "string \<Rightarrow> string \<Rightarrow> bool" where
  "textLE [] t = True"
| "textLE (c # s) [] = False"
| "textLE (c # s) (d # t) =
     (of_char c < (of_char d :: nat) \<or> (c = d \<and> textLE s t))"

section \<open>What a parsed time is\<close>

lemma isDigit_val: "isDigit c \<Longrightarrow> digitVal c < 10"
  by (auto simp: isDigit_def digitVal_def)

lemma getnum_bound: "getnum s f = Some (n, s') \<Longrightarrow> n < 100"
  by (auto simp: getnum_def isDigitAt_def split: if_splits dest!: isDigit_val)

lemma digits_bound:
  "list_all isDigit cs \<Longrightarrow> foldl (\<lambda>n c. n * 10 + digitVal c) m cs < (m + 1) * 10 ^ length cs"
proof (induction cs arbitrary: m)
  case Nil
  then show ?case by simp
next
  case (Cons c cs)
  have "foldl (\<lambda>n c. n * 10 + digitVal c) (m * 10 + digitVal c) cs <
      (m * 10 + digitVal c + 1) * 10 ^ length cs" using Cons by simp
  also have "\<dots> \<le> ((m + 1) * 10) * 10 ^ length cs"
    using isDigit_val [of c] Cons.prems by (intro mult_right_mono) auto
  finally show ?case by (simp add: algebra_simps)
qed

lemma parseYear_bound:
  assumes "parseYear s = Some (y, s')"
  shows "y \<le> 9999"
proof -
  from assms have "list_all isDigit (take 4 s)" "4 \<le> length s"
    and y: "y = foldl (\<lambda>n c. n * 10 + digitVal c) 0 (take 4 s)"
    by (auto simp: parseYear_def split: if_splits)
  moreover from this have "length (take 4 s) = 4" by simp
  ultimately show ?thesis using digits_bound [of "take 4 s" 0] by simp
qed

lemma parseFraction_bound:
  assumes "parseFraction s = (ns, s')"
  shows "ns < 1000000000"
proof (cases "ns = 0")
  case False
  let ?nine = "take 9 (takeWhile isDigit (tl s))"
  from assms False have ns: "ns = foldl (\<lambda>n c. n * 10 + digitVal c) 0 ?nine * 10 ^ (9 - length ?nine)"
    by (auto simp: parseFraction_def Let_def split: if_splits)
  have d: "list_all isDigit ?nine" by (auto simp: list_all_iff dest!: in_set_takeD dest: set_takeWhileD)
  have l: "length ?nine \<le> 9" by simp
  have "foldl (\<lambda>n c. n * 10 + digitVal c) 0 ?nine < 10 ^ length ?nine"
    using digits_bound [OF d, of 0] by simp
  then have "ns < 10 ^ length ?nine * 10 ^ (9 - length ?nine)"
    unfolding ns by (rule mult_strict_right_mono) simp
  also have "\<dots> = 10 ^ 9" using l by (simp add: power_add [symmetric] del: length_take)
  finally show ?thesis by simp
qed simp

lemma parseZone_bound:
  assumes "parseZone s = Some (off, s')"
  shows "off mod 60 = 0 \<and> \<bar>off\<bar> \<le> 90000"
proof -
  have m: "int ((h * 60 + m) * 60) mod 60 = 0" "(- int ((h * 60 + m) * 60)) mod 60 = 0" for h m
    by (simp_all add: mod_eq_0_iff_dvd)
  have b: "\<bar>int ((h * 60 + m) * 60)\<bar> \<le> 90000" if "\<not> (h > 24 \<or> m > 60)" for h m
  proof -
    have "(h * 60 + m) * 60 \<le> (24 * 60 + 60) * 60" using that by (intro mult_le_mono add_mono) auto
    then show ?thesis by simp
  qed
  show ?thesis
    using assms b m
    by (auto simp: parseZone_def Let_def split: if_splits bind_splits simp del: of_nat_mult of_nat_add)
qed

lemma parseRFC3339_ok: "parseRFC3339 s = Some t \<Longrightarrow> okTime t"
  by (auto simp: parseRFC3339_def okTime_def Let_def not_less not_le split: bind_splits if_splits prod.splits
      dest!: parseYear_bound parseFraction_bound parseZone_bound)

end
