(* ===== verification/Go_Clock.thy ===== *)
theory Go_Clock
  imports Go_Time
begin

text \<open>
  The rest of what the code uses of Go's \<open>time\<close>: \<open>Time.UTC\<close>, and how the texts that
  \<open>Format(RFC3339Nano)\<close> writes compare byte by byte, which is how the database orders them.
  Years before 0 do not occur.
\<close>

section \<open>Normalising to UTC\<close>

definition nextDay :: "gotime \<Rightarrow> gotime" where
  "nextDay t =
     (if t_day t < daysIn (t_month t) (t_year t) then t\<lparr>t_day := t_day t + 1\<rparr>
      else if t_month t < 12 then t\<lparr>t_day := 1, t_month := t_month t + 1\<rparr>
      else t\<lparr>t_day := 1, t_month := 1, t_year := t_year t + 1\<rparr>)"

definition prevDay :: "gotime \<Rightarrow> gotime" where
  "prevDay t =
     (if 1 < t_day t then t\<lparr>t_day := t_day t - 1\<rparr>
      else if 1 < t_month t then t\<lparr>t_day := daysIn (t_month t - 1) (t_year t), t_month := t_month t - 1\<rparr>
      else t\<lparr>t_day := 31, t_month := 12, t_year := t_year t - 1\<rparr>)"

definition UTC :: "gotime \<Rightarrow> gotime" where
  "UTC t =
     (let s = int ((t_hour t * 60 + t_minute t) * 60 + t_second t) - t_offset t;
          k = s div 86400; r = nat (s mod 86400);
          u = t\<lparr>t_hour := r div 3600, t_minute := r div 60 mod 60, t_second := r mod 60, t_offset := 0\<rparr>
      in if k < 0 then (prevDay ^^ nat (- k)) u else (nextDay ^^ nat k) u)"

definition utcTime :: "gotime \<Rightarrow> bool" where
  "utcTime t \<longleftrightarrow> okTime t \<and> t_offset t = 0"

lemma UTC_id:
  assumes "utcTime t"
  shows "UTC t = t"
proof -
  let ?n = "(t_hour t * 60 + t_minute t) * 60 + t_second t"
  have b: "t_hour t < 24" "t_minute t < 60" "t_second t < 60" "t_offset t = 0"
    using assms by (auto simp: utcTime_def okTime_def)
  then have n: "int ?n < 86400" by simp
  then have k: "int ?n div 86400 = 0" "nat (int ?n mod 86400) = ?n" by simp_all
  have q: "(x * 60 + y) div 60 = x" "(x * 60 + y) mod 60 = y" if "y < 60" for x y :: nat
    using that by simp_all
  have f: "?n div 3600 = t_hour t" "?n div 60 mod 60 = t_minute t" "?n mod 60 = t_second t"
    using q [OF b(3), of "t_hour t * 60 + t_minute t"] q [OF b(2), of "t_hour t"]
      div_mult2_eq [of ?n 60 60] by (simp_all del: add_mult_distrib2)
  show ?thesis unfolding UTC_def Let_def b(4) diff_0_right k f using b by simp
qed

section \<open>The calendar is increasing\<close>

definition dayOfYear :: "nat \<Rightarrow> nat \<Rightarrow> nat" where
  "dayOfYear y m = sum_list (map (\<lambda>m. daysIn m y) [1..<m])"

definition yearDays :: "nat \<Rightarrow> nat" where
  "yearDays y = (if isLeap y then 366 else 365)"

lemma ceil_div_Suc: "0 < k \<Longrightarrow> (Suc y + (k - 1)) div k = (y + (k - 1)) div k + (if y mod k = 0 then 1 else 0)"
  for y k :: nat
proof (cases k)
  case (Suc n)
  have "Suc (y + n) mod Suc n = y mod Suc n" by (metis add_Suc_right mod_add_self2)
  then show ?thesis using Suc by (simp add: div_Suc)
qed simp

lemma daysBeforeYear_Suc: "daysBeforeYear (Suc y) = daysBeforeYear y + yearDays y"
proof -
  have le: "(z + 99) div 100 \<le> 365 * z" for z :: nat
  proof (cases z)
    case (Suc n)
    have "(z + 99) div 100 \<le> (100 * z) div 100" by (rule div_le_mono) (simp add: Suc)
    then show ?thesis by simp
  qed simp
  have d: "y mod 400 = 0 \<Longrightarrow> y mod 100 = 0" "y mod 100 = 0 \<Longrightarrow> y mod 4 = 0"
    using mod_mod_cancel [of 100 400 y] mod_mod_cancel [of 4 100 y] by simp_all
  let ?p = "\<lambda>k. if y mod k = 0 then 1 else 0 :: nat"
  have s: "(Suc y + 3) div 4 = (y + 3) div 4 + ?p 4" "(Suc y + 99) div 100 = (y + 99) div 100 + ?p 100"
      "(Suc y + 399) div 400 = (y + 399) div 400 + ?p 400"
    using ceil_div_Suc [of 4 y] ceil_div_Suc [of 100 y] ceil_div_Suc [of 400 y] by simp_all
  have "365 * Suc y + (a + ?p 4 + (b + ?p 400)) - (c + ?p 100) = 365 * y + (a + b) - c + yearDays y"
    if "c \<le> 365 * y" for a b c
    using that d by (cases "y mod 400 = 0"; cases "y mod 100 = 0"; cases "y mod 4 = 0")
      (simp_all add: yearDays_def isLeap_def)
  then show ?thesis unfolding daysBeforeYear_def s using le by blast
qed

lemma daysBeforeYear_mono: "y < z \<Longrightarrow> daysBeforeYear y + yearDays y \<le> daysBeforeYear z"
proof (induction z)
  case (Suc z)
  then show ?case by (cases "y = z") (auto simp: daysBeforeYear_Suc)
qed simp

lemma dayOfYear_Suc: "1 \<le> m \<Longrightarrow> dayOfYear y (Suc m) = dayOfYear y m + daysIn m y"
  by (simp add: dayOfYear_def)

lemma dayOfYear_mono:
  assumes "1 \<le> m" "m < n"
  shows "dayOfYear y m + daysIn m y \<le> dayOfYear y n"
  using assms(2)
proof (induction n)
  case (Suc n)
  then show ?case using assms(1) by (cases "m = n") (auto simp: dayOfYear_Suc)
qed simp

lemma dayOfYear_13: "dayOfYear y 13 = yearDays y"
  by (simp add: dayOfYear_def yearDays_def daysIn_def upt_rec)

lemma dayNumber_eq: "1 \<le> t_day t \<Longrightarrow>
    Suc (dayNumber t) = daysBeforeYear (t_year t) + dayOfYear (t_year t) (t_month t) + t_day t"
  by (simp add: dayNumber_def dayOfYear_def)

fun lexLess :: "nat list \<Rightarrow> nat list \<Rightarrow> bool" where
  "lexLess (x # xs) (y # ys) = (x < y \<or> (x = y \<and> lexLess xs ys))"
| "lexLess _ _ = False"

definition civil :: "gotime \<Rightarrow> nat list" where
  "civil t = [t_year t, t_month t, t_day t, t_hour t, t_minute t, t_second t]"

lemma lexLess_total: "length xs = length ys \<Longrightarrow> lexLess xs ys \<or> xs = ys \<or> lexLess ys xs"
  by (induction xs ys rule: list_induct2) auto

lemma lexLess_dayNumber:
  assumes "okTime a" "okTime b" "lexLess [t_year a, t_month a, t_day a] [t_year b, t_month b, t_day b]"
  shows "dayNumber a < dayNumber b"
proof -
  from assms have d: "1 \<le> t_day a" "1 \<le> t_day b" "t_day a \<le> daysIn (t_month a) (t_year a)"
      "1 \<le> t_month a" "t_month a < 13" "1 \<le> t_month b"
    by (auto simp: okTime_def)
  note e = dayNumber_eq [OF d(1)] dayNumber_eq [OF d(2)]
  have y: "dayOfYear (t_year a) (t_month a) + t_day a \<le> yearDays (t_year a)"
    using dayOfYear_mono [OF d(4,5), of "t_year a"] d(3) by (simp add: dayOfYear_13)
  from assms(3) consider "t_year a < t_year b" | "t_year a = t_year b" "t_month a < t_month b"
    | "t_year a = t_year b" "t_month a = t_month b" "t_day a < t_day b"
    by auto
  then show ?thesis
  proof cases
    case 1
    then show ?thesis using daysBeforeYear_mono [OF 1] y e d by linarith
  next
    case 2
    then show ?thesis using dayOfYear_mono [OF d(4) 2(2), of "t_year a"] e d by simp
  next
    case 3
    then show ?thesis using e by simp
  qed
qed

text \<open>The seconds a clock in the zone of the time shows, read as if they were UTC.\<close>

definition localSeconds :: "gotime \<Rightarrow> int" where
  "localSeconds t = secondsOf t + t_offset t"

lemma localSeconds_utc [simp]: "utcTime t \<Longrightarrow> localSeconds t = secondsOf t"
  by (simp add: localSeconds_def utcTime_def)

lemma lexLess_seconds:
  assumes "okTime a" "okTime b" "lexLess (civil a) (civil b)"
  shows "localSeconds a < localSeconds b"
proof -
  let ?s = "\<lambda>t. (t_hour t * 60 + t_minute t) * 60 + t_second t"
  have s: "localSeconds t = int (dayNumber t * 86400 + ?s t)" for t
    by (simp add: localSeconds_def secondsOf_def algebra_simps)
  have b: "?s a < 86400" "t_minute a < 60" "t_second a < 60" using assms(1) by (auto simp: okTime_def)
  show ?thesis
  proof (cases "lexLess [t_year a, t_month a, t_day a] [t_year b, t_month b, t_day b]")
    case True
    then have "Suc (dayNumber a) \<le> dayNumber b" using lexLess_dayNumber [OF assms(1,2)] by simp
    then have "Suc (dayNumber a) * 86400 \<le> dayNumber b * 86400" by (rule mult_le_mono1)
    then have "dayNumber a * 86400 + ?s a < dayNumber b * 86400 + ?s b" using b by simp
    then show ?thesis unfolding s of_nat_less_iff .
  next
    case False
    with assms(3) have eq: "t_year a = t_year b" "t_month a = t_month b" "t_day a = t_day b"
      and lt: "lexLess [t_hour a, t_minute a, t_second a] [t_hour b, t_minute b, t_second b]"
      by (auto simp: civil_def)
    then have "dayNumber a = dayNumber b" by (simp add: dayNumber_def)
    moreover have "?s a < ?s b" using lt b(2,3) by auto
    ultimately show ?thesis unfolding s of_nat_less_iff by simp
  qed
qed

lemma civil_seconds:
  assumes "okTime a" "okTime b"
  shows "localSeconds a < localSeconds b \<longleftrightarrow> lexLess (civil a) (civil b)"
    and "localSeconds a = localSeconds b \<longleftrightarrow> civil a = civil b"
proof -
  have t: "lexLess (civil a) (civil b) \<or> civil a = civil b \<or> lexLess (civil b) (civil a)"
    by (rule lexLess_total) (simp add: civil_def)
  have e: "civil a = civil b \<Longrightarrow> localSeconds a = localSeconds b"
    using assms by (simp add: civil_def localSeconds_def secondsOf_def dayNumber_def)
  from t e lexLess_seconds [OF assms] lexLess_seconds [OF assms(2,1)]
  show "localSeconds a < localSeconds b \<longleftrightarrow> lexLess (civil a) (civil b)"
    and "localSeconds a = localSeconds b \<longleftrightarrow> civil a = civil b"
    by force+
qed

section \<open>The texts are increasing\<close>

lemma less_div10:
  "(n::nat) < m \<longleftrightarrow> n div 10 < m div 10 \<or> (n div 10 = m div 10 \<and> n mod 10 < m mod 10)"
proof -
  have "n mod 10 < 10" "m mod 10 < 10" by simp_all
  moreover have "n = 10 * (n div 10) + n mod 10" "m = 10 * (m div 10) + m mod 10" by simp_all
  ultimately show ?thesis
    by (cases "n div 10" "m div 10" rule: linorder_cases) linarith+
qed

lemma eq_div10: "(n::nat) = m \<longleftrightarrow> n div 10 = m div 10 \<and> n mod 10 = m mod 10"
  by (metis div_mult_mod_eq)

lemma textLE_padded:
  assumes "n < 10 ^ w" "m < 10 ^ w"
  shows "textLE (padded w n @ s) (padded w m @ t) \<longleftrightarrow> n < m \<or> (n = m \<and> textLE s t)"
  using assms
proof (induction w arbitrary: n m s t)
  case (Suc w)
  let ?c = "\<lambda>n. char_of (48 + n mod 10) :: char"
  have c: "(of_char (?c n) :: nat) = 48 + n mod 10" for n
    by (rule of_char_of) (use mod_less_divisor [of 10 n] in linarith)
  have ceq: "?c n = ?c m \<longleftrightarrow> n mod 10 = m mod 10" by (metis c add_left_cancel)
  have w: "n div 10 < 10 ^ w" "m div 10 < 10 ^ w"
    using Suc.prems by (simp_all add: less_mult_imp_div_less mult.commute)
  show ?case
    unfolding padded.simps append_assoc append_Cons append_Nil Suc.IH [OF w] textLE.simps c ceq
      less_div10 [of n m] eq_div10 [of n m]
    by (simp only: add_less_cancel_left) blast
qed simp

lemma textLE_Cons: "textLE (c # s) (c # t) = textLE s t"
  by simp

lemma textLE_fraction:
  "textLE (zoneText off) (fraction n @ ''Z'') \<longleftrightarrow> off \<noteq> 0 \<or> n = 0"
  by (simp add: fraction_def zoneText_def Let_def)

text \<open>
  A time without a fraction compares, as a text, with a UTC time like the seconds its own clock
  shows: the offset of its zone is left out. When the seconds are equal the characters after them
  decide: the sign of an offset sorts before \<open>.\<close>, and that before \<open>Z\<close>.
\<close>

lemma textLE_format:
  assumes "okTime a" "utcTime b" "t_nsec a = 0"
  shows "textLE (formatRFC3339Nano a) (formatRFC3339Nano b) \<longleftrightarrow>
    localSeconds a < secondsOf b \<or> (localSeconds a = secondsOf b \<and> (t_offset a \<noteq> 0 \<or> t_nsec b = 0))"
proof -
  have ok: "okTime b" using assms(2) by (simp add: utcTime_def)
  have d: "daysIn m y \<le> 31" for m y by (simp add: daysIn_def)
  have r: "t_year t < 10 ^ 4" "t_month t < 10\<^sup>2" "t_day t < 10\<^sup>2" "t_hour t < 10\<^sup>2"
      "t_minute t < 10\<^sup>2" "t_second t < 10\<^sup>2" if "okTime t" for t
    using that d [of "t_month t" "t_year t"] by (auto simp: okTime_def)
  have z: "zoneText (t_offset b) = ''Z''" "fraction (t_nsec a) = []"
    using assms by (simp_all add: zoneText_def utcTime_def fraction_def)
  show ?thesis
    unfolding formatRFC3339Nano_def z append_Cons append_Nil
      textLE_padded [OF r(1) [OF assms(1)] r(1) [OF ok]] textLE_padded [OF r(2) [OF assms(1)] r(2) [OF ok]]
      textLE_padded [OF r(3) [OF assms(1)] r(3) [OF ok]] textLE_padded [OF r(4) [OF assms(1)] r(4) [OF ok]]
      textLE_padded [OF r(5) [OF assms(1)] r(5) [OF ok]] textLE_padded [OF r(6) [OF assms(1)] r(6) [OF ok]]
      textLE_Cons textLE_fraction localSeconds_utc [OF assms(2), symmetric]
      civil_seconds [OF assms(1) ok] civil_def
    by auto
qed

section \<open>Reading a written time\<close>

lemma length_padded [simp]: "length (padded w n) = w"
  by (induction w arbitrary: n) auto

lemma digitVal_char_of: "d < 10 \<Longrightarrow> digitVal (char_of (48 + d)) = d"
  by (simp add: digitVal_def)

lemma padded_digits: "list_all isDigit (padded w n)"
  by (induction w arbitrary: n) (auto simp: isDigit_char_of)

abbreviation digitsVal :: "nat \<Rightarrow> string \<Rightarrow> nat" where
  "digitsVal \<equiv> foldl (\<lambda>n c. n * 10 + digitVal c)"

lemma digitsVal_padded: "n < 10 ^ w \<Longrightarrow> digitsVal 0 (padded w n) = n"
proof (induction w arbitrary: n)
  case (Suc w)
  then have "n div 10 < 10 ^ w" by (simp add: less_mult_imp_div_less mult.commute)
  then show ?case using Suc.IH [of "n div 10"] by (simp add: digitVal_char_of)
qed simp

lemma digitsVal_zeros: "digitsVal m (xs @ replicate k (CHR ''0'')) = digitsVal m xs * 10 ^ k"
proof (induction k)
  case (Suc k)
  have "digitVal (CHR ''0'') = 0" by (simp add: digitVal_def)
  then show ?case using Suc
    by (simp only: replicate_append_same [symmetric] replicate_Suc append_assoc [symmetric] foldl_append
        foldl_Cons foldl_Nil power_Suc mult.commute add_0_right mult.assoc)
qed simp

lemma parseYear_padded: "n < 10 ^ 4 \<Longrightarrow> parseYear (padded 4 n @ s) = Some (n, s)"
  using digitsVal_padded [of n 4] padded_digits [of 4 n] by (simp add: parseYear_def)

lemma padded2: "n < 100 \<Longrightarrow> padded 2 n = [char_of (48 + n div 10), char_of (48 + n mod 10)]"
  by (simp add: numeral_2_eq_2 div_less_iff_less_mult)

lemma getnum_padded: "n < 100 \<Longrightarrow> getnum (padded 2 n @ s) f = Some (n, s)"
  by (simp add: padded2 getnum_def isDigitAt_def isDigit_char_of digitVal_char_of div_less_iff_less_mult)

lemma rstrip:
  obtains k where "xs = rev (dropWhile (\<lambda>c. c = z) (rev xs)) @ replicate k z"
proof -
  have "rev xs = takeWhile (\<lambda>c. c = z) (rev xs) @ dropWhile (\<lambda>c. c = z) (rev xs)" by simp
  moreover have "takeWhile (\<lambda>c. c = z) (rev xs) = replicate (length (takeWhile (\<lambda>c. c = z) (rev xs))) z"
    by (metis (full_types) replicate_length_same set_takeWhileD)
  ultimately show ?thesis using that by (metis rev_append rev_replicate rev_rev_ident)
qed

lemma zoneText_hd: "zoneText off = c # cs \<Longrightarrow> c \<in> {CHR ''Z'', CHR ''+'', CHR ''-''}"
  by (auto simp: zoneText_def Let_def split: if_splits)

lemma zoneText_ne: "zoneText off \<noteq> []"
  by (simp add: zoneText_def Let_def)

lemma parseFraction_fraction:
  assumes "ns < 1000000000" "c \<in> {CHR ''Z'', CHR ''+'', CHR ''-''}"
  shows "parseFraction (fraction ns @ c # cs) = (ns, c # cs)"
proof (cases "ns = 0")
  case True
  then show ?thesis using assms by (auto simp: fraction_def parseFraction_def)
next
  case False
  obtain ds k where ds: "rev (dropWhile (\<lambda>c. c = CHR ''0'') (rev (padded 9 ns))) = ds"
    and k: "padded 9 ns = ds @ replicate k (CHR ''0'')"
    using rstrip by metis
  have l: "9 - length ds = k" using arg_cong [OF k, of length] by simp
  have v: "digitsVal 0 ds * 10 ^ k = ns"
    using digitsVal_padded [of ns 9] assms unfolding k digitsVal_zeros by simp
  have dg: "list_all isDigit ds" using padded_digits [of 9 ns] unfolding k by simp
  have ne: "ds \<noteq> []" using v False by auto
  have nd: "\<not> isDigit c" using assms(2) by (auto simp: isDigit_def)
  have tw: "takeWhile isDigit (ds @ c # cs) = ds"
    using dg nd by (simp add: takeWhile_append2 list_all_iff)
  have hd: "isDigit (ds ! 0)" using dg ne by (metis length_greater_0_conv list_all_length)
  have s: "fraction ns @ c # cs = CHR ''.'' # (ds @ c # cs)" using False by (simp add: fraction_def ds)
  have at: "isDigitAt (CHR ''.'' # (ds @ c # cs)) 1"
    using hd ne by (simp add: isDigitAt_def nth_append)
  have nine: "take 9 ds = ds" using arg_cong [OF k, of length] by simp
  have b: "2 \<le> length (CHR ''.'' # (ds @ c # cs)) \<and>
      ((CHR ''.'' # (ds @ c # cs)) ! 0 = CHR ''.'' \<or> (CHR ''.'' # (ds @ c # cs)) ! 0 = CHR '','') \<and>
      isDigitAt (CHR ''.'' # (ds @ c # cs)) 1" using at by simp
  show ?thesis
    unfolding s parseFraction_def list.sel tw Let_def if_P [OF b] nine l v by simp
qed

text \<open>The zones that are written so that they can be read: less than 25 hours from UTC.\<close>

definition textTime :: "gotime \<Rightarrow> bool" where
  "textTime t \<longleftrightarrow> okTime t \<and> \<bar>t_offset t\<bar> < 90000"

lemma utc_textTime: "utcTime t \<Longrightarrow> textTime t"
  by (simp add: utcTime_def textTime_def)

lemma parseZone_zoneText:
  assumes "off mod 60 = 0" "\<bar>off\<bar> < 90000"
  shows "parseZone (zoneText off) = Some (off, [])"
proof (cases "off = 0")
  case True
  then show ?thesis by (simp add: parseZone_def zoneText_def)
next
  case False
  let ?z = "nat (\<bar>off\<bar> div 60)"
  have z: "int ?z * 60 = \<bar>off\<bar>" using assms(1) by auto
  then have "?z < 1500" using assms(2) by linarith
  then have h: "?z div 60 < 25" by (simp add: less_mult_imp_div_less)
  have m: "?z mod 60 < 60" by simp
  have r: "?z div 60 < 25" "?z mod 60 < 100" "?z div 60 < 100" using h m by linarith+
  have g: "getnum (padded 2 n) True = Some (n, [])" if "n < 100" for n
    using getnum_padded [OF that, of "[]"] by simp
  let ?h = "padded 2 (?z div 60)" and ?m = "padded 2 (?z mod 60)"
  define c where "c = (if off < 0 then CHR ''-'' else CHR ''+'')"
  have t: "zoneText off = c # ?h @ CHR '':'' # ?m" using False by (simp add: zoneText_def Let_def c_def)
  have p: "take 2 (drop 1 (zoneText off)) = ?h" "take 2 (drop 4 (zoneText off)) = ?m"
    "zoneText off ! 3 = CHR '':''" "length (zoneText off) = 6" "drop 6 (zoneText off) = []"
    "zoneText off ! 0 = c" "zoneText off ! 0 \<noteq> CHR ''Z''"
    unfolding t by (simp_all add: nth_append c_def)
  have o: "int ((?z div 60 * 60 + ?z mod 60) * 60) = \<bar>off\<bar>" using z by (simp add: mult.commute)
  have e: "\<not> (?z div 60 > 24 \<or> ?z mod 60 > 60)" using h m by linarith
  have q: "\<not> (zoneText off \<noteq> [] \<and> c = CHR ''Z'')" "\<not> ((6::nat) < 6 \<or> CHR '':'' \<noteq> CHR '':'')"
    by (simp_all add: c_def)
  show ?thesis
    unfolding parseZone_def p if_not_P [OF q(1)] if_not_P [OF q(2)] g [OF r(2)] g [OF r(3)] bind.bind_lunit
      prod.case Let_def o if_not_P [OF e]
    by (simp add: c_def)
qed

text \<open>What is written is read back.\<close>

lemma parse_format:
  assumes "textTime t"
  shows "parseRFC3339 (formatRFC3339Nano t) = Some t"
proof -
  have ok: "okTime t" using assms by (simp add: textTime_def)
  have d: "daysIn m y \<le> 31" for m y by (simp add: daysIn_def)
  have r: "t_year t < 10 ^ 4" "t_month t < 100" "t_day t < 100" "t_hour t < 100"
      "t_minute t < 100" "t_second t < 100" "t_nsec t < 1000000000"
    using ok d [of "t_month t" "t_year t"] by (auto simp: okTime_def)
  obtain c cs where z: "zoneText (t_offset t) = c # cs" using zoneText_ne by (meson list.exhaust)
  have pz: "parseZone (c # cs) = Some (t_offset t, [])"
    using parseZone_zoneText [of "t_offset t"] assms by (simp add: z textTime_def okTime_def)
  have c: "\<not> (t_month t < 1 \<or> 12 < t_month t)" "\<not> 24 \<le> t_hour t" "\<not> 60 \<le> t_minute t" "\<not> 60 \<le> t_second t"
    "\<not> ([] \<noteq> [] \<or> t_day t < 1 \<or> daysIn (t_month t) (t_year t) < t_day t)"
    using ok by (auto simp: okTime_def)
  show ?thesis
    unfolding formatRFC3339Nano_def parseRFC3339_def z parseYear_padded [OF r(1)] bind.bind_lunit
      prod.case skipChar_def append_Cons append_Nil list.case if_P [OF refl]
      getnum_padded [OF r(2)] getnum_padded [OF r(3)] getnum_padded [OF r(4)] getnum_padded [OF r(5)]
      getnum_padded [OF r(6)] parseFraction_fraction [OF r(7) zoneText_hd [OF z]] pz Let_def if_not_P [OF c(1)]
      if_not_P [OF c(2)] if_not_P [OF c(3)] if_not_P [OF c(4)] if_not_P [OF c(5)]
    by simp
qed

section \<open>UTC keeps the instant\<close>

lemma daysIn_bounds: "28 \<le> daysIn m y" "daysIn m y \<le> 31" "daysIn 12 y = 31"
  by (simp_all add: daysIn_def)

lemma daysIn_pos [simp]: "Suc 0 \<le> daysIn m y" "0 < daysIn m y"
  by (simp_all add: daysIn_def)

lemma dayOfYear_12: "yearDays y = dayOfYear y 12 + 31"
  using dayOfYear_Suc [of 12 y] dayOfYear_13 [of y] by (simp add: daysIn_bounds)

lemma dayOfYear_1 [simp]: "dayOfYear y (Suc 0) = 0"
  by (simp add: dayOfYear_def)

lemma nextDay_ok:
  assumes "okTime t" "t_year t < 9999"
  shows "okTime (nextDay t)" "dayNumber (nextDay t) = Suc (dayNumber t)" "t_offset (nextDay t) = t_offset t"
    "t_year (nextDay t) \<le> Suc (t_year t)"
    "[t_hour (nextDay t), t_minute (nextDay t), t_second (nextDay t), t_nsec (nextDay t)] =
      [t_hour t, t_minute t, t_second t, t_nsec t]"
proof -
  from assms have d: "1 \<le> t_day t" "1 \<le> t_month t" "t_month t \<le> 12" by (auto simp: okTime_def)
  show ok: "okTime (nextDay t)" using assms daysIn_bounds(1)
    by (auto simp: okTime_def nextDay_def not_less)
  then have d': "1 \<le> t_day (nextDay t)" by (simp add: okTime_def)
  show "dayNumber (nextDay t) = Suc (dayNumber t)"
    using dayNumber_eq [OF d(1)] dayNumber_eq [OF d'] d dayOfYear_Suc [OF d(2), of "t_year t"]
      dayOfYear_12 [of "t_year t"] daysBeforeYear_Suc [of "t_year t"] assms
    by (auto simp: nextDay_def okTime_def daysIn_bounds split: if_splits)
qed (auto simp: nextDay_def)

lemma prevDay_ok:
  assumes "okTime t" "1 \<le> t_year t"
  shows "okTime (prevDay t)" "Suc (dayNumber (prevDay t)) = dayNumber t" "t_offset (prevDay t) = t_offset t"
    "t_year t \<le> Suc (t_year (prevDay t))"
    "[t_hour (prevDay t), t_minute (prevDay t), t_second (prevDay t), t_nsec (prevDay t)] =
      [t_hour t, t_minute t, t_second t, t_nsec t]"
proof -
  from assms have d: "1 \<le> t_day t" "1 \<le> t_month t" "t_month t \<le> 12" "1 \<le> t_year t" by (auto simp: okTime_def)
  show ok: "okTime (prevDay t)" using assms daysIn_bounds
    by (auto simp: okTime_def prevDay_def not_less)
  then have d': "1 \<le> t_day (prevDay t)" by (simp add: okTime_def)
  obtain y where y: "t_year t = Suc y" using d(4) by (cases "t_year t") auto
  show "Suc (dayNumber (prevDay t)) = dayNumber t"
  proof (cases "1 < t_day t")
    case True
    then have "Suc (dayNumber (prevDay t)) =
        daysBeforeYear (t_year t) + dayOfYear (t_year t) (t_month t) + (t_day t - 1)"
      using dayNumber_eq [OF d'] by (simp add: prevDay_def)
    then show ?thesis using dayNumber_eq [OF d(1)] True by linarith
  next
    case False
    with d(1) have day: "t_day t = Suc 0" by simp
    show ?thesis
    proof (cases "1 < t_month t")
    case True
    then have "dayOfYear (t_year t) (t_month t) =
        dayOfYear (t_year t) (t_month t - 1) + daysIn (t_month t - 1) (t_year t)"
      using dayOfYear_Suc [of "t_month t - 1" "t_year t"] by simp
    then show ?thesis using dayNumber_eq [OF d(1)] dayNumber_eq [OF d'] True d(1) day by (auto simp: prevDay_def)
  next
    case False
    then have "t_month t = Suc 0" "t_day t = Suc 0" using d day by simp_all
    then show ?thesis
      using dayNumber_eq [OF d(1)] dayNumber_eq [OF d'] dayOfYear_12 [of y] daysBeforeYear_Suc [of y] y
      by (auto simp: prevDay_def)
    qed
  qed
qed (auto simp: prevDay_def)

lemma instant_fields: "instant t = (int (dayNumber t) * 86400 +
    int ((t_hour t * 60 + t_minute t) * 60 + t_second t) - t_offset t) * 1000000000 + int (t_nsec t)"
  by (simp add: instant_def secondsOf_def algebra_simps)

lemma UTC_instant:
  assumes "okTime t" "2 \<le> t_year t" "t_year t < 9998"
  shows "utcTime (UTC t)" "instant (UTC t) = instant t"
proof -
  define s where "s = int ((t_hour t * 60 + t_minute t) * 60 + t_second t) - t_offset t"
  define r where "r = nat (s mod 86400)"
  define u where "u = t\<lparr>t_hour := r div 3600, t_minute := r div 60 mod 60, t_second := r mod 60, t_offset := 0\<rparr>"
  have r: "r < 86400" "int r = s mod 86400" by (simp_all add: r_def nat_less_iff)
  have u: "okTime u" "t_year u = t_year t" "dayNumber u = dayNumber t" "t_offset u = 0" "t_nsec u = t_nsec t"
    using assms r by (simp_all add: u_def okTime_def dayNumber_def div_less_iff_less_mult)
  have hms: "(t_hour u * 60 + t_minute u) * 60 + t_second u = r"
    using div_mult2_eq [of r 60 60] by (simp add: u_def)
  have s: "s = s div 86400 * 86400 + int r" using r by simp
  have sb: "- 90000 \<le> s" "s < 176400"
  proof -
    have b: "t_hour t < 24" "t_minute t < 60" "t_second t < 60" and o: "\<bar>t_offset t\<bar> \<le> 90000"
      using assms(1) by (auto simp: okTime_def)
    from b have "int ((t_hour t * 60 + t_minute t) * 60 + t_second t) < 86400" by simp
    with o show "- 90000 \<le> s" "s < 176400" unfolding s_def by linarith+
  qed
  have t: "instant t = (int (dayNumber t) * 86400 + s) * 1000000000 + int (t_nsec t)"
    by (simp add: instant_fields s_def)
  have fin: "utcTime v \<and> instant v = instant t"
    if "okTime v" "int (dayNumber v) = int (dayNumber u) + s div 86400" "t_offset v = 0"
      "[t_hour v, t_minute v, t_second v, t_nsec v] = [t_hour u, t_minute u, t_second u, t_nsec u]" for v
  proof -
    have "(t_hour v * 60 + t_minute v) * 60 + t_second v = r" using that(4) hms by simp
    then have "instant v = (int (dayNumber v) * 86400 + int r) * 1000000000 + int (t_nsec v)"
      unfolding instant_fields that(3) by simp
    moreover have "int (dayNumber v) * 86400 + int r = int (dayNumber t) * 86400 + s"
      using that(2) s u(3) by (simp add: algebra_simps)
    ultimately show ?thesis using that u(5) by (simp add: t utcTime_def)
  qed
  have U: "UTC t = (if s div 86400 < 0 then (prevDay ^^ nat (- (s div 86400))) u
      else (nextDay ^^ nat (s div 86400)) u)"
    unfolding UTC_def Let_def s_def [symmetric] r_def [symmetric] u_def [symmetric] by (rule refl)
  have "- 2 \<le> s div 86400" "s div 86400 \<le> 2" using sb by linarith+
  then consider "s div 86400 = - 2" | "s div 86400 = - 1" | "s div 86400 = 0" | "s div 86400 = 1" | "s div 86400 = 2"
    by linarith
  then have "utcTime (UTC t) \<and> instant (UTC t) = instant t"
  proof cases
    case 1
    note p = prevDay_ok [OF u(1)] and q = prevDay_ok [OF prevDay_ok(1) [OF u(1)]]
    show ?thesis using 1 p q assms u by (intro fin) (auto simp: U numeral_2_eq_2)
  next
    case 2
    note p = prevDay_ok [OF u(1)]
    show ?thesis using 2 p assms u by (intro fin) (auto simp: U)
  next
    case 3
    then show ?thesis using u by (intro fin) (auto simp: U)
  next
    case 4
    note p = nextDay_ok [OF u(1)]
    show ?thesis using 4 p assms u by (intro fin) (auto simp: U)
  next
    case 5
    note p = nextDay_ok [OF u(1)] and q = nextDay_ok [OF nextDay_ok(1) [OF u(1)]]
    show ?thesis using 5 p q assms u by (intro fin) (auto simp: U numeral_2_eq_2)
  qed
  then show "utcTime (UTC t)" "instant (UTC t) = instant t" by auto
qed

end
