(* ===== verification/Cap_Alert.thy ===== *)
theory Cap_Alert
  imports Go_Time
begin

text \<open>
  \<open>internal/cap/cap.go\<close>: a CAP 1.2 alert, its validation and its references. XML decoding is
  \<open>encoding/xml\<close>, a parameter of \<open>Parse\<close>.
\<close>

section \<open>The alert\<close>

record Geocode =
  g_ValueName :: string
  g_Value :: string

record EventCode =
  ec_ValueName :: string
  ec_Value :: string

record Parameter =
  p_ValueName :: string
  p_Value :: string

record Area =
  areaDescription :: string
  Polygons :: "string list"
  Circles :: "string list"
  Geocodes :: "Geocode list"

record Info =
  Language :: string
  Category :: string
  Event :: string
  Urgency :: string
  Severity :: string
  Certainty :: string
  Expires :: string
  Headline :: string
  Description :: string
  Instruction :: string
  EventCodes :: "EventCode list"
  Parameters :: "Parameter list"
  Areas :: "Area list"

record Alert =
  Identifier :: string
  Sender :: string
  Sent :: string
  Status :: string
  MsgType :: string
  AlertScope :: string
  References :: string
  Infos :: "Info list"

definition Namespace :: string where
  "Namespace = ''urn:oasis:names:tc:emergency:cap:1.2''"

datatype cap_error =
    XmlError string
  | BadNamespace string
  | MissingMandatory
  | BadSent string
  | BadMsgType string
  | NoInfo string
  | BadExpires string

section \<open>Operations\<close>

definition infoExpiresOK :: "Info \<Rightarrow> bool" where
  "infoExpiresOK i \<longleftrightarrow> Expires i = [] \<or> parseRFC3339 (Expires i) \<noteq> None"

fun checkExpires :: "Info list \<Rightarrow> cap_error + unit" where
  "checkExpires [] = Inr ()"
| "checkExpires (i # is) =
     (if Expires i \<noteq> [] \<and> parseRFC3339 (Expires i) = None then Inl (BadExpires (Expires i))
      else checkExpires is)"

definition Validate :: "Alert \<Rightarrow> cap_error + unit" where
  "Validate a =
     failIf (TrimSpace (Identifier a) = [] \<or> TrimSpace (Sender a) = [] \<or> TrimSpace (Sent a) = [])
       MissingMandatory (
     failIf (parseRFC3339 (Sent a) = None) (BadSent (Sent a)) (
     failIf (\<not> (MsgType a = ''Alert'' \<or> MsgType a = ''Update'' \<or> MsgType a = ''Cancel''))
       (BadMsgType (MsgType a)) (
     failIf (MsgType a \<noteq> ''Cancel'' \<and> length (Infos a) = 0) (NoInfo (MsgType a)) (
     checkExpires (Infos a)))))"

text \<open>\<open>unmarshal\<close> is \<open>xml.Unmarshal\<close>: the namespace of the root element and the fields.\<close>

definition Parse :: "(string \<Rightarrow> string + (string \<times> Alert)) \<Rightarrow> string \<Rightarrow> cap_error + Alert" where
  "Parse unmarshal data =
     andThen (wrapErr XmlError (unmarshal data)) (\<lambda>(space, a).
     failIf (space \<noteq> [] \<and> space \<noteq> Namespace) (BadNamespace space) (
     andThen (Validate a) (\<lambda>_. Inr a)))"

definition ReferenceIDs :: "Alert \<Rightarrow> string list" where
  "ReferenceIDs a = Fields (References a)"

section \<open>What validation guarantees\<close>

lemma checkExpires_Inr: "checkExpires is = Inr u \<longleftrightarrow> list_all infoExpiresOK is"
  by (induction "is") (auto simp: infoExpiresOK_def)

definition wellFormedAlert :: "Alert \<Rightarrow> bool" where
  "wellFormedAlert a \<longleftrightarrow>
     TrimSpace (Identifier a) \<noteq> [] \<and> TrimSpace (Sender a) \<noteq> [] \<and>
     parseRFC3339 (Sent a) \<noteq> None \<and> MsgType a \<in> {''Alert'', ''Update'', ''Cancel''} \<and>
     (if MsgType a = ''Cancel'' then True else Infos a \<noteq> []) \<and> list_all infoExpiresOK (Infos a)"

lemma TrimSpace_Nil [simp]: "TrimSpace [] = []"
  by (simp add: TrimSpace_def trimEnds_def)

lemma segments_bytes_ne: "x \<in> set (segments s) \<Longrightarrow> snd x \<noteq> []"
  by (induction s rule: segments.induct) (auto simp: segments.simps(2) Let_def split: prod.splits)

text \<open>A sequence of blanks is not a time, so the third emptiness test adds nothing.\<close>

lemma parsed_not_blank:
  assumes "parseRFC3339 s = Some t"
  shows "TrimSpace s \<noteq> []"
proof
  assume blank: "TrimSpace s = []"
  from assms have "4 \<le> length s" "list_all isDigit (take 4 s)"
    by (auto simp: parseRFC3339_def parseYear_def split: bind_splits if_splits)
  then obtain c cs where s: "s = c # cs" "isDigit c" by (cases s) auto
  then have c: "of_char c < (0x80 :: nat)" "\<not> isSpace (of_char c)"
    by (auto simp: isDigit_def isSpace_def)
  have "trimEnds (\<lambda>(r, _). isSpace r) (segments s) \<noteq> []"
    using c unfolding s trimEnds_def by simp
  moreover have "\<forall>x \<in> set (trimEnds (\<lambda>(r, _). isSpace r) (segments s)). snd x \<noteq> []"
    unfolding trimEnds_def by (auto dest!: set_dropWhileD segments_bytes_ne)
  ultimately show False using blank
    by (cases "trimEnds (\<lambda>(r, _). isSpace r) (segments s)") (auto simp: TrimSpace_def)
qed

lemma validate_iff: "(Validate a = Inr ()) \<longleftrightarrow> wellFormedAlert a"
  using parsed_not_blank
  by (auto simp: Validate_def wellFormedAlert_def checkExpires_Inr)

text \<open>Reference ids are never empty.\<close>

lemma fieldsFrom_ne:
  "(\<And>x. x \<in> set segs \<Longrightarrow> snd x \<noteq> []) \<Longrightarrow> f \<in> set (fieldsFrom cur segs) \<Longrightarrow> f \<noteq> []"
  by (induction cur segs rule: fieldsFrom.induct) (auto split: if_splits)

lemma ReferenceIDs_ne: "r \<in> set (ReferenceIDs a) \<Longrightarrow> r \<noteq> []"
  unfolding ReferenceIDs_def Fields_def by (rule fieldsFrom_ne [OF segments_bytes_ne])

end
