(* ===== verification/Cbs_Classify.thy ===== *)
theory Cbs_Classify
  imports Cap_Alert Config
begin

text \<open>
  \<open>internal/cbs/classify.go\<close> and \<open>messageIdentifier\<close> of \<open>internal/cbs/cbs.go\<close>: which CMAS/WEA
  category an alert falls in and which 16-bit message identifier it is broadcast under.
\<close>

section \<open>Operations\<close>

definition classPresidential :: string where "classPresidential = ''presidential''"
definition classAmber :: string where "classAmber = ''amber''"
definition classTest :: string where "classTest = ''test''"
definition classExercise :: string where "classExercise = ''exercise''"
definition classPublicSafety :: string where "classPublicSafety = ''public-safety''"
definition classStateLocalTest :: string where "classStateLocalTest = ''state-local-test''"

lemmas class_labels = classPresidential_def classAmber_def classTest_def classExercise_def
  classPublicSafety_def classStateLocalTest_def

definition atisMessageIdentifiers :: "(string \<times> u16) list" where
  "atisMessageIdentifiers =
     [(classPresidential, 0x1112),
      (''extreme-immediate-observed'', 0x1113),
      (''extreme-immediate-likely'', 0x1114),
      (''extreme-expected-observed'', 0x1115),
      (''extreme-expected-likely'', 0x1116),
      (''severe-immediate-observed'', 0x1117),
      (''severe-immediate-likely'', 0x1118),
      (''severe-expected-observed'', 0x1119),
      (''severe-expected-likely'', 0x111A),
      (classAmber, 0x111B),
      (classTest, 0x111C),
      (classExercise, 0x111D),
      (classPublicSafety, 0x112C),
      (classStateLocalTest, 0x112E)]"

text \<open>The two loops of \<open>classify\<close>: \<open>Some\<close> is a return from inside the loop.\<close>

fun eventCodeClass :: "EventCode list \<Rightarrow> string option" where
  "eventCodeClass [] = None"
| "eventCodeClass (ec # ecs) =
     (if \<not> equalFold (TrimSpace (ec_ValueName ec)) ''SAME'' then eventCodeClass ecs
      else let v = TrimSpace (ec_Value ec) in
        if upperIs v ''EAN'' then Some classPresidential
        else if upperIs v ''CAE'' then Some classAmber
        else if upperIs v ''RMT'' then Some classTest
        else eventCodeClass ecs)"

fun parameterClass :: "Parameter list \<Rightarrow> string option" where
  "parameterClass [] = None"
| "parameterClass (p # ps) =
     (if \<not> equalFold (TrimSpace (p_ValueName p)) ''WEAHandling'' then parameterClass ps
      else let v = TrimSpace (p_Value p) in
        if lowerContains v ''presidential'' then Some classPresidential
        else if lowerContains v ''amber'' \<or> lowerContains v ''child abduction'' then Some classAmber
        else if lowerContains v ''state'' \<and> lowerContains v ''test'' then Some classStateLocalTest
        else if lowerContains v ''test'' then Some classTest
        else if lowerContains v ''public safety'' then Some classPublicSafety
        else parameterClass ps)"

text \<open>\<open>strings.ToLower\<close> on the ASCII values that passed the tests before it.\<close>

definition toLowerASCII :: "string \<Rightarrow> string" where
  "toLowerASCII s = map (\<lambda>c. case lowerASCII (of_char c) of Some d \<Rightarrow> d | None \<Rightarrow> c) s"

definition severityClass :: "Info \<Rightarrow> string" where
  "severityClass info =
     (let severity = TrimSpace (Severity info); urgency = TrimSpace (Urgency info);
          certainty = TrimSpace (Certainty info)
      in if severity \<noteq> ''Extreme'' \<and> severity \<noteq> ''Severe'' then []
         else if urgency \<noteq> ''Immediate'' \<and> urgency \<noteq> ''Expected'' then []
         else if certainty \<noteq> ''Observed'' \<and> certainty \<noteq> ''Likely'' then []
         else toLowerASCII severity @ ''-'' @ toLowerASCII urgency @ ''-'' @ toLowerASCII certainty)"

definition classify :: "string \<Rightarrow> Info \<Rightarrow> string" where
  "classify status info =
     (if TrimSpace status = ''Exercise'' then classExercise
      else if TrimSpace status = ''Test'' then classTest
      else case eventCodeClass (EventCodes info) of Some l \<Rightarrow> l
      | None \<Rightarrow>
          (case parameterClass (Parameters info) of Some l \<Rightarrow> l
           | None \<Rightarrow> severityClass info))"

datatype identifier_error = NoIdentifier string

definition messageIdentifier :: "CBSConfig \<Rightarrow> string \<Rightarrow> Info \<Rightarrow> identifier_error + u16" where
  "messageIdentifier cfg status info =
     (let label = classify status info in
      if label = [] then Inr (DefaultMessageIdentifier cfg)
      else case map_of (MessageIdentifiers cfg) label of
        Some i \<Rightarrow> Inr i
      | None \<Rightarrow>
          (case map_of atisMessageIdentifiers label of
             Some i \<Rightarrow> Inr i
           | None \<Rightarrow> Inl (NoIdentifier label)))"

section \<open>The labels\<close>

definition gridLabel :: "string \<Rightarrow> string \<Rightarrow> string \<Rightarrow> string" where
  "gridLabel s u c = s @ ''-'' @ u @ ''-'' @ c"

lemma toLower_grid:
  "toLowerASCII ''Extreme'' = ''extreme''" "toLowerASCII ''Severe'' = ''severe''"
  "toLowerASCII ''Immediate'' = ''immediate''" "toLowerASCII ''Expected'' = ''expected''"
  "toLowerASCII ''Observed'' = ''observed''" "toLowerASCII ''Likely'' = ''likely''"
  by (simp_all add: toLowerASCII_def lowerASCII_def char_eval)

lemma severityClass_cases:
  obtains "severityClass info = []"
  | s u c where "severityClass info = gridLabel s u c" "s \<in> {''extreme'', ''severe''}"
    "u \<in> {''immediate'', ''expected''}" "c \<in> {''observed'', ''likely''}"
proof (cases "severityClass info = []")
  case True
  then show ?thesis by (rule that(1))
next
  case False
  let ?s = "TrimSpace (Severity info)" and ?u = "TrimSpace (Urgency info)"
    and ?c = "TrimSpace (Certainty info)"
  from False have "?s = ''Extreme'' \<or> ?s = ''Severe''" "?u = ''Immediate'' \<or> ?u = ''Expected''"
    "?c = ''Observed'' \<or> ?c = ''Likely''"
    by (auto simp: severityClass_def Let_def split: if_splits)
  moreover from this have "severityClass info =
      gridLabel (toLowerASCII ?s) (toLowerASCII ?u) (toLowerASCII ?c)"
    by (simp add: severityClass_def gridLabel_def Let_def)
  ultimately show ?thesis
    by (intro that(2) [of "toLowerASCII ?s" "toLowerASCII ?u" "toLowerASCII ?c"])
      (auto simp: toLower_grid)
qed

lemma eventCodeClass_label: "eventCodeClass ecs = Some l \<Longrightarrow> l \<in> {classPresidential, classAmber, classTest}"
  by (induction ecs) (auto simp: Let_def split: if_splits)

lemma parameterClass_label:
  "parameterClass ps = Some l \<Longrightarrow>
   l \<in> {classPresidential, classAmber, classStateLocalTest, classTest, classPublicSafety}"
  by (induction ps) (auto simp: Let_def split: if_splits)

lemma grid_known:
  "s \<in> {''extreme'', ''severe''} \<Longrightarrow> u \<in> {''immediate'', ''expected''} \<Longrightarrow>
   c \<in> {''observed'', ''likely''} \<Longrightarrow> gridLabel s u c \<in> fst ` set atisMessageIdentifiers"
  by (auto simp: gridLabel_def atisMessageIdentifiers_def class_labels)

text \<open>Every label that \<open>classify\<close> returns is in the table.\<close>

lemma classify_known: "classify status info = [] \<or> classify status info \<in> fst ` set atisMessageIdentifiers"
proof -
  have t: "l \<in> {classExercise, classPresidential, classAmber, classStateLocalTest, classTest,
      classPublicSafety} \<Longrightarrow> l \<in> fst ` set atisMessageIdentifiers" for l
    by (auto simp: atisMessageIdentifiers_def)
  have "severityClass info = [] \<or> severityClass info \<in> fst ` set atisMessageIdentifiers"
    by (cases rule: severityClass_cases [of info]) (simp_all only: grid_known simp_thms)
  moreover have "eventCodeClass (EventCodes info) = Some l \<Longrightarrow> l \<in> fst ` set atisMessageIdentifiers" for l
    using eventCodeClass_label [of "EventCodes info" l] by (intro t) blast
  moreover have "parameterClass (Parameters info) = Some l \<Longrightarrow> l \<in> fst ` set atisMessageIdentifiers" for l
    using parameterClass_label [of "Parameters info" l] by (intro t) blast
  moreover have "classExercise \<in> fst ` set atisMessageIdentifiers" "classTest \<in> fst ` set atisMessageIdentifiers"
    by (simp_all only: t insert_iff simp_thms)
  ultimately show ?thesis
    unfolding classify_def by (simp split: option.split)
qed

lemma messageIdentifier_total: "\<exists>i. messageIdentifier cfg status info = Inr i"
proof (cases "classify status info = []")
  case False
  then have "map_of atisMessageIdentifiers (classify status info) \<noteq> None"
    using classify_known [of status info] by (simp add: map_of_eq_None_iff)
  with False show ?thesis by (auto simp: messageIdentifier_def Let_def split: option.split)
qed (simp add: messageIdentifier_def)

text \<open>The table itself: distinct labels, distinct identifiers.\<close>

lemma atis_distinct: "distinct (map fst atisMessageIdentifiers)" "distinct (map snd atisMessageIdentifiers)"
  by code_simp+

lemma identifier_label:
  assumes "MessageIdentifiers cfg = []" "DefaultMessageIdentifier cfg \<notin> snd ` set atisMessageIdentifiers"
    and "(l, i) \<in> set atisMessageIdentifiers"
  shows "messageIdentifier cfg status info = Inr i \<longleftrightarrow> classify status info = l"
proof -
  have ne: "l \<noteq> []" using assms(3) by (auto simp: atisMessageIdentifiers_def class_labels)
  have m: "map_of atisMessageIdentifiers k = Some i \<longleftrightarrow> k = l" for k
  proof
    assume "map_of atisMessageIdentifiers k = Some i"
    then have "(k, i) \<in> set atisMessageIdentifiers" by (rule map_of_SomeD)
    moreover have "inj_on snd (set atisMessageIdentifiers)"
      using atis_distinct(2) by (simp only: distinct_map)
    ultimately show "k = l" using assms(3) by (metis inj_onD prod.inject snd_conv)
  next
    assume "k = l"
    with assms(3) atis_distinct(1) show "map_of atisMessageIdentifiers k = Some i" by simp
  qed
  have "i \<in> snd ` set atisMessageIdentifiers" using assms(3) by force
  then have "DefaultMessageIdentifier cfg \<noteq> i" using assms(2) by blast
  with m [of "classify status info"] ne assms(1) show ?thesis
    by (auto simp: messageIdentifier_def Let_def split: option.splits)
qed

lemma severityClass_not_label:
  "severityClass info \<notin> {classExercise, classPresidential, classAmber, classStateLocalTest, classTest,
     classPublicSafety}"
  by (cases rule: severityClass_cases [of info]) (auto simp: class_labels gridLabel_def)

lemma class_labels_distinct:
  "distinct [classExercise, classPresidential, classAmber, classStateLocalTest, classTest, classPublicSafety]"
  by (simp add: class_labels)

lemma classify_first:
  "l \<in> {classPresidential, classAmber, classStateLocalTest, classPublicSafety} \<Longrightarrow>
   classify status info = l \<longleftrightarrow> TrimSpace status \<notin> {''Exercise'', ''Test''} \<and>
     (eventCodeClass (EventCodes info) = Some l \<or>
      eventCodeClass (EventCodes info) = None \<and> parameterClass (Parameters info) = Some l)"
  using severityClass_not_label [of info] class_labels_distinct
  by (auto simp: classify_def split: option.split)

lemma classify_exercise: "classify status info = classExercise \<longleftrightarrow> TrimSpace status = ''Exercise''"
  using severityClass_not_label [of info] class_labels_distinct
    eventCodeClass_label [of "EventCodes info"] parameterClass_label [of "Parameters info"]
  by (auto simp: classify_def split: option.split)

lemma classify_grid:
  assumes "s \<in> {''extreme'', ''severe''}" "u \<in> {''immediate'', ''expected''}" "c \<in> {''observed'', ''likely''}"
  shows "classify status info = gridLabel s u c \<longleftrightarrow> TrimSpace status \<notin> {''Exercise'', ''Test''} \<and>
    eventCodeClass (EventCodes info) = None \<and> parameterClass (Parameters info) = None \<and>
    severityClass info = gridLabel s u c"
proof -
  have "gridLabel s u c \<notin> {classExercise, classPresidential, classAmber, classStateLocalTest, classTest,
      classPublicSafety}"
    using assms by (auto simp: gridLabel_def class_labels)
  then show ?thesis
    using eventCodeClass_label [of "EventCodes info"] parameterClass_label [of "Parameters info"]
    by (auto simp: classify_def split: option.split)
qed

section \<open>Properties\<close>

text \<open>Every alert gets a message identifier, so the error of \<open>messageIdentifier\<close> for a label
  without a standard identifier cannot occur; under a configuration that passed validation the
  identifier is never 0 or 0xffff.\<close>

theorem identifier_total:
  assumes "DefaultMessageIdentifier cfg \<notin> {0, 0xffff}"
    and "list_all (\<lambda>(k, i). TrimSpace k \<noteq> [] \<and> i \<noteq> 0 \<and> i \<noteq> 0xffff) (MessageIdentifiers cfg)"
  shows "\<exists>i. messageIdentifier cfg status info = Inr i \<and> i \<noteq> 0 \<and> i \<noteq> 0xffff"
proof -
  have "\<forall>(k, i) \<in> set atisMessageIdentifiers. i \<noteq> 0 \<and> i \<noteq> 0xffff"
    by (simp add: atisMessageIdentifiers_def)
  moreover obtain i where "messageIdentifier cfg status info = Inr i"
    using messageIdentifier_total by blast
  ultimately show ?thesis
    using assms
    by (auto simp: messageIdentifier_def Let_def list_all_iff split: if_splits option.splits
        dest!: map_of_SomeD)
qed

definition sampleInfo :: Info where
  "sampleInfo = \<lparr>Language = ''en'', Category = ''Met'', Event = ''Flood'', Urgency = ''Immediate'',
     Severity = '' Extreme'', Certainty = ''Observed'', Expires = [], Headline = ''Flood'', Description = [],
     Instruction = [], EventCodes = [\<lparr>ec_ValueName = ''same '', ec_Value = ''ean''\<rparr>], Parameters = [],
     Areas = []\<rparr>"

theorem identifier_total_witness:
  "\<exists>i. messageIdentifier (cfgCBS sampleConfig) ''Actual'' sampleInfo = Inr i \<and> i \<noteq> 0 \<and> i \<noteq> 0xffff"
  by (rule identifier_total) (simp_all add: sampleConfig_def)

text \<open>Without overrides, an alert is broadcast under the identifier of exercises (0x111d) exactly
  for the status Exercise; under the presidential identifier (0x1112), which users cannot opt out
  of, exactly when the status is neither Exercise nor Test and the first decisive event code is EAN,
  or no event code decides and the first decisive WEAHandling parameter is presidential; and under a
  threat identifier (0x1113 to 0x111a) exactly when status, event codes and parameters decide nothing
  and severity, urgency and certainty lie in the grid, each of its eight cells having its own.\<close>

theorem identifier_classes:
  assumes "MessageIdentifiers cfg = []" "DefaultMessageIdentifier cfg \<notin> snd ` set atisMessageIdentifiers"
    and "s \<in> {''extreme'', ''severe''}" "u \<in> {''immediate'', ''expected''}" "c \<in> {''observed'', ''likely''}"
  shows "(messageIdentifier cfg status info = Inr 0x111D) = (TrimSpace status = ''Exercise'') \<and>
    (messageIdentifier cfg status info = Inr 0x1112) =
      (TrimSpace status \<notin> {''Exercise'', ''Test''} \<and>
       (eventCodeClass (EventCodes info) = Some classPresidential \<or>
        eventCodeClass (EventCodes info) = None \<and>
        parameterClass (Parameters info) = Some classPresidential)) \<and>
    (messageIdentifier cfg status info = Inr (0x1113 + of_bool (s = ''severe'') * 4 +
        of_bool (u = ''expected'') * 2 + of_bool (c = ''likely''))) =
      (TrimSpace status \<notin> {''Exercise'', ''Test''} \<and> eventCodeClass (EventCodes info) = None \<and>
       parameterClass (Parameters info) = None \<and> severityClass info = gridLabel s u c)"
proof -
  have "(classExercise, 0x111D) \<in> set atisMessageIdentifiers"
    "(classPresidential, 0x1112) \<in> set atisMessageIdentifiers"
    by (simp_all add: atisMessageIdentifiers_def)
  note l = this [THEN identifier_label [OF assms(1,2)]]
  have "(gridLabel s u c, 0x1113 + of_bool (s = ''severe'') * 4 + of_bool (u = ''expected'') * 2 +
      of_bool (c = ''likely'')) \<in> set atisMessageIdentifiers"
    using assms(3-5) by (elim insertE emptyE) (simp_all add: gridLabel_def atisMessageIdentifiers_def)
  note g = identifier_label [OF assms(1,2) this]
  have p: "classPresidential \<in> {classPresidential, classAmber, classStateLocalTest, classPublicSafety}"
    by simp
  show ?thesis
    unfolding l g classify_grid [OF assms(3-5)] classify_exercise classify_first [OF p]
    by (intro conjI refl)
qed

theorem identifier_classes_witness:
  "messageIdentifier \<lparr>DefaultMessageIdentifier = 0x1100, MessageIdentifiers = [], AllowPLMNWide = False\<rparr>
     '' Exercise'' sampleInfo = Inr 0x111D"
  using identifier_classes [of "\<lparr>DefaultMessageIdentifier = 0x1100, MessageIdentifiers = [],
      AllowPLMNWide = False\<rparr>" "''severe''" "''expected''" "''likely''" "'' Exercise''" sampleInfo]
  by (simp add: atisMessageIdentifiers_def class_labels string_eval)

end
