(* ===== verification/Cbs_Encoding.thy ===== *)
theory Cbs_Encoding
  imports Go_Strings
begin

unbundle bit_operations_syntax

text \<open>
  \<open>internal/cbs/encoding.go\<close>: warning text as TS 23.041 content pages of 82 octets, in packed GSM
  7-bit or in UCS-2. The lemmas say exactly when text can be encoded, that pages are well formed,
  and that the reference decoders below give the text back.
\<close>

section \<open>Operations\<close>

datatype encode_error =
    InputLimit
  | EmptyText
  | NotGSM rune
  | NotUCS2 rune
  | PageCount nat

record Page =
  Number :: byte
  Total :: byte
  PageParameter :: byte
  Data :: "byte list"

definition PageOctets :: nat where "PageOctets = 82"
definition MaxPages :: nat where "MaxPages = 15"

text \<open>The code points of the alphabet literal, in order.\<close>

definition alphabet :: "rune list" where
  "alphabet =
     [64, 163, 36, 165, 232, 233, 249, 236, 242, 199, 10, 216, 248, 13, 197, 229, 916, 95, 934,
      915, 923, 937, 928, 936, 931, 920, 926, 27, 198, 230, 223, 201, 32, 33, 34, 35, 164, 37, 38,
      39, 40, 41, 42, 43, 44, 45, 46, 47, 48, 49, 50, 51, 52, 53, 54, 55, 56, 57, 58, 59, 60, 61,
      62, 63, 161, 65, 66, 67, 68, 69, 70, 71, 72, 73, 74, 75, 76, 77, 78, 79, 80, 81, 82, 83, 84,
      85, 86, 87, 88, 89, 90, 196, 214, 209, 220, 167, 191, 97, 98, 99, 100, 101, 102, 103, 104,
      105, 106, 107, 108, 109, 110, 111, 112, 113, 114, 115, 116, 117, 118, 119, 120, 121, 122,
      228, 246, 241, 252, 224]"

definition gsmAlphabet :: "rune \<Rightarrow> byte option" where
  "gsmAlphabet =
     map_of (filter (\<lambda>(r, _). r \<noteq> 0x1b) (zip alphabet (map word_of_nat [0..<length alphabet])))"

definition gsmExtension :: "rune \<Rightarrow> byte option" where
  "gsmExtension =
     map_of [(12, 0x0a), (94, 0x14), (123, 0x28), (125, 0x29), (92, 0x2f), (91, 0x3c), (126, 0x3d),
       (93, 0x3e), (124, 0x40), (8364, 0x65)]"

definition languageDCS :: "(string \<times> byte) list" where
  "languageDCS =
     [(''de'', 0x00), (''en'', 0x01), (''it'', 0x02), (''fr'', 0x03), (''es'', 0x04), (''nl'', 0x05),
      (''sv'', 0x06), (''da'', 0x07), (''pt'', 0x08), (''fi'', 0x09), (''no'', 0x0a), (''el'', 0x0b),
      (''tr'', 0x0c), (''hu'', 0x0d), (''pl'', 0x0e), (''cs'', 0x20), (''he'', 0x21), (''ar'', 0x22),
      (''ru'', 0x23), (''is'', 0x24)]"

definition dcs :: "string \<Rightarrow> byte" where
  "dcs language =
     (case find (\<lambda>(k, _). lowerIs language k) languageDCS of Some (_, d) \<Rightarrow> d | None \<Rightarrow> 0x0f)"

text \<open>The loop of \<open>gsmSeptets\<close> over the runes, with the octets appended so far.\<close>

fun gsmSeptetsLoop :: "byte list \<Rightarrow> rune list \<Rightarrow> encode_error + byte list" where
  "gsmSeptetsLoop out [] = Inr out"
| "gsmSeptetsLoop out (r # rs) =
     (case gsmAlphabet r of
        Some v \<Rightarrow> gsmSeptetsLoop (out @ [v]) rs
      | None \<Rightarrow>
         (case gsmExtension r of
            Some v \<Rightarrow> gsmSeptetsLoop (out @ [0x1b, v]) rs
          | None \<Rightarrow> Inl (NotGSM r)))"

definition gsmSeptets :: "string \<Rightarrow> encode_error + byte list" where
  "gsmSeptets text =
     andThen (gsmSeptetsLoop [] (runes text)) (\<lambda>out.
     failIf (length out = 0) EmptyText (Inr out))"

text \<open>One round of the loop of \<open>packSeptets\<close>.\<close>

definition packStep :: "byte list \<Rightarrow> nat \<times> byte \<Rightarrow> byte list" where
  "packStep out = (\<lambda>(i, v).
     (let b = i * 7 mod 8; j = i * 7 div 8;
          out = out[j := out ! j OR push_bit b v]
      in if b > 1 \<and> j + 1 < length out then out[j + 1 := out ! (j + 1) OR drop_bit (8 - b) v]
         else out))"

definition packSeptets :: "byte list \<Rightarrow> byte list" where
  "packSeptets xs =
     foldl packStep (replicate ((length xs * 7 + 7) div 8) 0) (zip [0..<length xs] xs)"

definition finishPages :: "Page list \<Rightarrow> encode_error + Page list" where
  "finishPages pages =
     failIf (length pages = 0 \<or> length pages > MaxPages) (PageCount (length pages)) (
     Inr (map (\<lambda>(i, p).
       (let n = word_of_nat (i + 1); t = word_of_nat (length pages)
        in p\<lparr>Number := n, Total := t, PageParameter := push_bit 4 n OR t\<rparr>))
       (zip [0..<length pages] pages)))"

definition newPage :: "byte list \<Rightarrow> Page" where
  "newPage d = \<lparr>Number = 0, Total = 0, PageParameter = 0, Data = d\<rparr>"

text \<open>The loop of \<open>gsmPages\<close>: pack 93 septets, fill the page with 0x0d.\<close>

function gsmPagesLoop :: "byte list \<Rightarrow> Page list" where
  "gsmPagesLoop septets =
     (if septets = [] then []
      else let data = packSeptets (take 93 septets)
           in newPage (data @ replicate (PageOctets - length data) 0x0d) # gsmPagesLoop (drop 93 septets))"
  by pat_completeness auto
termination by (relation "measure length") auto

declare gsmPagesLoop.simps [simp del]

definition gsmPages :: "byte list \<Rightarrow> encode_error + Page list" where
  "gsmPages septets = finishPages (gsmPagesLoop septets)"

definition isSurrogate :: "rune \<Rightarrow> bool" where
  "isSurrogate r \<longleftrightarrow> 0xd800 \<le> r \<and> r < 0xe000"

fun ucs2Octets :: "rune list \<Rightarrow> encode_error + byte list" where
  "ucs2Octets [] = Inr []"
| "ucs2Octets (r # rs) =
     (if r > 0xffff \<or> isSurrogate r then Inl (NotUCS2 r)
      else andThen (ucs2Octets rs) (\<lambda>d. Inr (word_of_nat (r div 256) # word_of_nat r # d)))"

fun ucs2Fill :: "nat \<Rightarrow> byte list" where
  "ucs2Fill 0 = []"
| "ucs2Fill (Suc k) = 0x00 # 0x0d # ucs2Fill k"

function ucs2PagesLoop :: "rune list \<Rightarrow> encode_error + Page list" where
  "ucs2PagesLoop rs =
     (if rs = [] then Inr []
      else andThen (ucs2Octets (take 41 rs)) (\<lambda>data.
           andThen (ucs2PagesLoop (drop 41 rs)) (\<lambda>pages.
           Inr (newPage (data @ ucs2Fill ((PageOctets + 1 - length data) div 2)) # pages))))"
  by pat_completeness auto
termination by (relation "measure length") auto

declare ucs2PagesLoop.simps [simp del]

definition ucs2Pages :: "string \<Rightarrow> encode_error + Page list" where
  "ucs2Pages text =
     failIf (length (runes text) = 0) EmptyText (
     andThen (ucs2PagesLoop (runes text)) finishPages)"

text \<open>Pages, data coding scheme and encoding name. A second error is only possible from the page
  builder of the chosen encoding.\<close>

definition Encode :: "string \<Rightarrow> string \<Rightarrow> encode_error + (Page list \<times> byte \<times> string)" where
  "Encode text language =
     (if length (runes text) > MaxPages * 93 then Inl InputLimit
      else case gsmSeptets text of
        Inr septets \<Rightarrow> andThen (gsmPages septets) (\<lambda>pages. Inr (pages, dcs language, ''gsm7''))
      | Inl _ \<Rightarrow> andThen (ucs2Pages text) (\<lambda>pages. Inr (pages, 0x11, ''ucs2'')))"

section \<open>Reference decoders\<close>

text \<open>The bits of packed septets, least significant first in each octet.\<close>

definition packedBit :: "byte list \<Rightarrow> nat \<Rightarrow> bool" where
  "packedBit out p = bit (out ! (p div 8)) (p mod 8)"

definition septetAt :: "byte list \<Rightarrow> nat \<Rightarrow> byte" where
  "septetAt out i = foldl shift_in 0 (map (\<lambda>t. packedBit out (7 * i + 6 - t)) [0..<7])"

definition unpackSeptets :: "nat \<Rightarrow> byte list \<Rightarrow> byte list" where
  "unpackSeptets n out = map (septetAt out) [0..<n]"

text \<open>The septets of a message of \<open>n\<close> septets, page by page.\<close>

fun unpackPages :: "nat \<Rightarrow> Page list \<Rightarrow> byte list" where
  "unpackPages n [] = []"
| "unpackPages n (p # ps) = unpackSeptets (min 93 n) (Data p) @ unpackPages (n - 93) ps"

text \<open>Septets to runes, by the alphabet and extension tables.\<close>

definition basicRune :: "byte \<Rightarrow> rune option" where
  "basicRune v = (if unat v < 128 \<and> v \<noteq> 0x1b then Some (alphabet ! unat v) else None)"

definition extensionRune :: "byte \<Rightarrow> rune option" where
  "extensionRune v =
     map_of [(0x0a, 12), (0x14, 94), (0x28, 123), (0x29, 125), (0x2f, 92), (0x3c, 91), (0x3d, 126),
       (0x3e, 93), (0x40, 124), (0x65, 8364)] v"

fun septetRunes :: "byte list \<Rightarrow> rune list option" where
  "septetRunes [] = Some []"
| "septetRunes [v] = map_option (\<lambda>r. [r]) (basicRune v)"
| "septetRunes (v # u # vs) =
     (if v = 0x1b then
        (case extensionRune u of None \<Rightarrow> None | Some r \<Rightarrow> map_option (Cons r) (septetRunes vs))
      else case basicRune v of None \<Rightarrow> None | Some r \<Rightarrow> map_option (Cons r) (septetRunes (u # vs)))"

text \<open>The runes of the UCS-2 pages of a message of \<open>n\<close> characters.\<close>

fun ucs2Runes :: "byte list \<Rightarrow> rune list" where
  "ucs2Runes (h # l # bs) = (unat h * 256 + unat l) # ucs2Runes bs"
| "ucs2Runes bs = []"

definition unpackUcs2 :: "nat \<Rightarrow> Page list \<Rightarrow> rune list" where
  "unpackUcs2 n pages = take n (ucs2Runes (concat (map Data pages)))"

section \<open>The alphabet\<close>

definition septet :: "byte \<Rightarrow> bool" where
  "septet v \<longleftrightarrow> unat v < 128"

lemma length_alphabet [simp]: "length alphabet = 128"
  by (simp add: alphabet_def)

lemma alphabet_keys: "fst ` set (zip alphabet (map word_of_nat [0..<128] :: byte list)) = set alphabet"
proof -
  have "map fst (zip alphabet (map word_of_nat [0..<128] :: byte list)) = alphabet"
    by (rule map_fst_zip) simp
  then show ?thesis by (metis image_set)
qed

lemma gsmAlphabet_None: "gsmAlphabet r = None \<longleftrightarrow> r \<notin> set alphabet \<or> r = 27"
proof -
  have "fst ` {x \<in> S. fst x \<noteq> k} = fst ` S - {k}" for S :: "(rune \<times> byte) set" and k by auto
  from this [of "set (zip alphabet (map word_of_nat [0..<128]))" 27] show ?thesis
    by (auto simp: gsmAlphabet_def map_of_eq_None_iff case_prod_beta alphabet_keys)
qed

lemma gsmAlphabet_Some:
  assumes "gsmAlphabet r = Some v"
  shows "basicRune v = Some r \<and> septet v"
proof -
  from map_of_SomeD [OF assms [unfolded gsmAlphabet_def]] obtain i where
    i: "i < 128" "r = alphabet ! i" "v = word_of_nat i" "r \<noteq> 0x1b"
    by (auto simp: set_zip)
  then have u: "unat v = i" by (simp add: unat_of_nat take_bit_nat_eq_self)
  have "v \<noteq> 0x1b"
  proof
    assume "v = 0x1b"
    then have "i = 27" using u by simp
    then show False using i(2,4) by (simp add: alphabet_def)
  qed
  with i u show ?thesis by (simp add: basicRune_def septet_def)
qed

lemma gsmExtension_Some: "gsmExtension r = Some v \<Longrightarrow> extensionRune v = Some r \<and> septet v"
  by (auto simp: gsmExtension_def extensionRune_def septet_def split: if_splits)

lemma basicRune_not_escape: "basicRune v = Some r \<Longrightarrow> v \<noteq> 0x1b"
  by (simp add: basicRune_def split: if_splits)

lemma septetRunes_basic: "basicRune v = Some r \<Longrightarrow> septetRunes (v # s) = map_option (Cons r) (septetRunes s)"
  by (cases s) (auto dest: basicRune_not_escape)

lemma septetRunes_extension:
  "extensionRune v = Some r \<Longrightarrow> septetRunes (0x1b # v # s) = map_option (Cons r) (septetRunes s)"
  by simp

definition gsmRune :: "rune \<Rightarrow> bool" where
  "gsmRune r \<longleftrightarrow> gsmAlphabet r \<noteq> None \<or> gsmExtension r \<noteq> None"

text \<open>Octets per character: two for the extension table.\<close>

definition gsmCost :: "rune \<Rightarrow> nat" where
  "gsmCost r = (if gsmAlphabet r = None then 2 else 1)"

lemma gsmLoop_Inr:
  "gsmSeptetsLoop out rs = Inr o' \<Longrightarrow>
   \<exists>s. o' = out @ s \<and> septetRunes s = Some rs \<and> list_all septet s \<and>
     length s = sum_list (map gsmCost rs) \<and> list_all gsmRune rs"
proof (induction out rs rule: gsmSeptetsLoop.induct)
  case (1 out)
  then show ?case by simp
next
  case (2 out r rs)
  show ?case
  proof (cases "gsmAlphabet r")
    case (Some v)
    with "2.prems" "2.IH"(2) [OF Some] obtain s where "o' = (out @ [v]) @ s" "septetRunes s = Some rs"
      "list_all septet s" "length s = sum_list (map gsmCost rs)" "list_all gsmRune rs" by auto
    with Some gsmAlphabet_Some [OF Some] show ?thesis
      by (intro exI [of _ "v # s"]) (simp add: septetRunes_basic gsmCost_def [of r] gsmRune_def [of r])
  next
    case None
    with "2.prems" obtain v where v: "gsmExtension r = Some v" by (cases "gsmExtension r") auto
    with None "2.prems" "2.IH"(1) [OF None v] obtain s where "o' = (out @ [0x1b, v]) @ s"
      "septetRunes s = Some rs" "list_all septet s" "length s = sum_list (map gsmCost rs)"
      "list_all gsmRune rs" by auto
    with None v gsmExtension_Some [OF v] show ?thesis
      by (intro exI [of _ "0x1b # v # s"])
        (simp add: septetRunes_extension gsmCost_def [of r] gsmRune_def [of r] septet_def [of 27]
          del: septetRunes.simps)
  qed
qed

lemma gsmLoop_total: "list_all gsmRune rs \<Longrightarrow> \<exists>o'. gsmSeptetsLoop out rs = Inr o'"
  by (induction out rs rule: gsmSeptetsLoop.induct) (auto simp: gsmRune_def split: option.split)

lemma gsmSeptets_iff:
  "(\<exists>s. gsmSeptets text = Inr s) \<longleftrightarrow> text \<noteq> [] \<and> list_all gsmRune (runes text)"
proof -
  have "length s = sum_list (map gsmCost rs) \<Longrightarrow> rs \<noteq> [] \<Longrightarrow> s \<noteq> []" for s :: "byte list" and rs
    by (cases rs) (auto simp: gsmCost_def split: if_splits)
  then show ?thesis
    using gsmLoop_total [of "runes text" "[]"] gsmLoop_Inr [of "[]" "runes text"]
    by (auto simp: gsmSeptets_def andThen_eq_Inr)
qed

lemma gsmSeptets_Inr:
  assumes "gsmSeptets text = Inr s"
  shows "septetRunes s = Some (runes text)" "list_all septet s" "s \<noteq> []"
    "length s = sum_list (map gsmCost (runes text))"
  using assms gsmLoop_Inr [of "[]" "runes text" s] by (auto simp: gsmSeptets_def andThen_eq_Inr)

section \<open>Packing\<close>

lemma septet_bit: "septet v \<Longrightarrow> bit v k \<Longrightarrow> k < 7"
proof -
  assume "septet v"
  then have "unat (take_bit 7 v) = unat v"
    by (simp add: septet_def unsigned_take_bit_eq take_bit_nat_eq_self)
  then have "take_bit 7 v = v" by (simp only: word_unat_eq_iff)
  then show "bit v k \<Longrightarrow> k < 7" by (metis bit_take_bit_iff)
qed

lemma packedBit_or:
  assumes "j < length out" "p < 8 * length out"
  shows "packedBit (out[j := out ! j OR w]) p \<longleftrightarrow> packedBit out p \<or> (p div 8 = j \<and> bit w (p mod 8))"
  using assms by (auto simp: packedBit_def nth_list_update bit_or_iff)

lemma packStep_length [simp]: "length (packStep out x) = length out"
  by (cases x) (simp add: packStep_def Let_def)

lemma packStep_bits:
  assumes v: "septet v" and j: "7 * m < 8 * length out" and p: "p < 8 * length out"
  shows "packedBit (packStep out (m, v)) p \<longleftrightarrow> packedBit out p \<or> (7 * m \<le> p \<and> bit v (p - 7 * m))"
proof -
  define b where "b = 7 * m mod 8"
  define k where "k = 7 * m div 8"
  have m: "7 * m = 8 * k + b" by (simp add: b_def k_def)
  have b8: "b < 8" by (simp add: b_def)
  have k: "k < length out" using j m b8 by linarith
  let ?o1 = "out[k := out ! k OR push_bit b v]"
  have s: "packStep out (m, v) =
      (if b > 1 \<and> k + 1 < length ?o1 then ?o1[k + 1 := ?o1 ! (k + 1) OR drop_bit (8 - b) v] else ?o1)"
    by (simp add: packStep_def Let_def b_def k_def mult.commute)
  define q where "q = p mod 8"
  define d where "d = p div 8"
  have pq: "p = 8 * d + q" "q < 8" by (simp_all add: q_def d_def)
  have o1: "packedBit ?o1 p \<longleftrightarrow> packedBit out p \<or> (d = k \<and> b \<le> q \<and> bit v (q - b))"
    using packedBit_or [OF k p, of "push_bit b v"] pq(2)
    by (auto simp: bit_push_bit_iff q_def d_def)
  have o2: "packedBit (packStep out (m, v)) p \<longleftrightarrow>
      packedBit ?o1 p \<or> (b > 1 \<and> d = k + 1 \<and> bit v (8 - b + q))"
  proof (cases "b > 1 \<and> k + 1 < length out")
    case True
    then have "packedBit (packStep out (m, v)) p \<longleftrightarrow>
        packedBit ?o1 p \<or> (p div 8 = k + 1 \<and> bit (drop_bit (8 - b) v) (p mod 8))"
      unfolding s using packedBit_or [of "k + 1" ?o1 p "drop_bit (8 - b) v"] p by simp
    with True show ?thesis by (simp add: bit_drop_bit_eq q_def d_def)
  next
    case False
    have "d < length out" using p pq by linarith
    with False show ?thesis unfolding s by auto
  qed
  have bound: "\<And>i. bit v i \<Longrightarrow> i < 7" by (rule septet_bit [OF v])
  have "7 * m \<le> p \<and> bit v (p - 7 * m) \<longleftrightarrow>
      (d = k \<and> b \<le> q \<and> bit v (q - b)) \<or> (b > 1 \<and> d = k + 1 \<and> bit v (8 - b + q))"
  proof
    assume a: "7 * m \<le> p \<and> bit v (p - 7 * m)"
    then have l: "p - 7 * m < 7" using bound by blast
    then have "d = k \<or> d = k + 1" using a m pq b8 by linarith
    then show "(d = k \<and> b \<le> q \<and> bit v (q - b)) \<or> (b > 1 \<and> d = k + 1 \<and> bit v (8 - b + q))"
    proof
      assume d: "d = k"
      then have "p - 7 * m = q - b" "b \<le> q" using a m pq by auto
      with a d show ?thesis by simp
    next
      assume d: "d = k + 1"
      then have e: "p - 7 * m = 8 - b + q" using m pq b8 by simp
      then have "b > 1" using l by linarith
      with a d e show ?thesis by simp
    qed
  next
    assume "(d = k \<and> b \<le> q \<and> bit v (q - b)) \<or> (b > 1 \<and> d = k + 1 \<and> bit v (8 - b + q))"
    then show "7 * m \<le> p \<and> bit v (p - 7 * m)"
    proof
      assume "d = k \<and> b \<le> q \<and> bit v (q - b)"
      then show ?thesis using m pq by auto
    next
      assume a: "b > 1 \<and> d = k + 1 \<and> bit v (8 - b + q)"
      then have "p - 7 * m = 8 - b + q" using m pq b8 by simp
      with a m pq b8 show ?thesis by auto
    qed
  qed
  with o1 o2 show ?thesis by blast
qed

lemma packLoop:
  assumes "list_all septet xs" "m \<le> length xs"
  defines "L \<equiv> (length xs * 7 + 7) div 8"
  defines "out \<equiv> foldl packStep (replicate L 0) (zip [0..<m] (take m xs))"
  shows "length out = L \<and> (\<forall>p < 8 * L. packedBit out p \<longleftrightarrow> p < 7 * m \<and> bit (xs ! (p div 7)) (p mod 7))"
  using assms(2) unfolding out_def
proof (induction m)
  case 0
  have "packedBit (replicate L 0) p = False" if "p < 8 * L" for p
    using that by (simp add: packedBit_def less_mult_imp_div_less mult.commute)
  then show ?case by simp
next
  case (Suc m)
  let ?o = "foldl packStep (replicate L 0) (zip [0..<m] (take m xs))"
  have m: "m < length xs" using Suc.prems by simp
  have IH: "length ?o = L" "\<And>p. p < 8 * L \<Longrightarrow> packedBit ?o p \<longleftrightarrow> p < 7 * m \<and> bit (xs ! (p div 7)) (p mod 7)"
    using Suc by simp_all
  have e: "foldl packStep (replicate L 0) (zip [0..<Suc m] (take (Suc m) xs)) = packStep ?o (m, xs ! m)"
    using m by (simp add: take_Suc_conv_app_nth)
  have v: "septet (xs ! m)" using assms(1) m by (simp add: list_all_length)
  have "7 * length xs \<le> 8 * L" using ceil8_ge [of "length xs * 7"] by (simp add: L_def mult.commute)
  then have j: "7 * m < 8 * length ?o" using m IH(1) by linarith
  have "packedBit (packStep ?o (m, xs ! m)) p \<longleftrightarrow> p < 7 * Suc m \<and> bit (xs ! (p div 7)) (p mod 7)"
    if p: "p < 8 * L" for p
  proof -
    have "7 * m \<le> p \<and> bit (xs ! m) (p - 7 * m) \<longleftrightarrow>
        7 * m \<le> p \<and> p < 7 * Suc m \<and> bit (xs ! (p div 7)) (p mod 7)"
    proof (cases "7 * m \<le> p \<and> p < 7 * Suc m")
      case True
      then have "p div 7 = m" by (intro div_nat_eqI) auto
      moreover from this have "p mod 7 = p - 7 * m" by (metis minus_mult_div_eq_mod)
      ultimately show ?thesis using True by simp
    next
      case False
      then have "\<not> bit (xs ! m) (p - 7 * m)" if "7 * m \<le> p"
        using septet_bit [OF v, of "p - 7 * m"] that by auto
      with False show ?thesis by auto
    qed
    then show ?thesis
      using packStep_bits [OF v j] p IH by auto
  qed
  then show ?case unfolding e using IH(1) by simp
qed

lemma packSeptets_length: "list_all septet xs \<Longrightarrow> length (packSeptets xs) = (length xs * 7 + 7) div 8"
  using packLoop [of xs "length xs"] by (simp add: packSeptets_def)

lemma packSeptets_bits:
  assumes "list_all septet xs" "p < 8 * length (packSeptets xs)"
  shows "packedBit (packSeptets xs) p \<longleftrightarrow> p < 7 * length xs \<and> bit (xs ! (p div 7)) (p mod 7)"
  using packLoop [OF assms(1), of "length xs"] assms(2) packSeptets_length [OF assms(1)]
  by (simp add: packSeptets_def)

lemma septetAt_bit: "bit (septetAt out i) k \<longleftrightarrow> k < 7 \<and> packedBit out (7 * i + k)"
  by (auto simp: septetAt_def bit_foldl_shift_in)

lemma packedBit_append: "p < 8 * length out \<Longrightarrow> packedBit (out @ ys) p = packedBit out p"
  by (simp add: packedBit_def nth_append less_mult_imp_div_less mult.commute)

text \<open>Unpacking a page, padding included, gives the septets back.\<close>

lemma unpack_pack:
  assumes "list_all septet xs"
  shows "unpackSeptets (length xs) (packSeptets xs @ ys) = xs"
proof (rule nth_equalityI)
  fix i assume "i < length (unpackSeptets (length xs) (packSeptets xs @ ys))"
  then have i: "i < length xs" by (simp add: unpackSeptets_def)
  have "7 * length xs \<le> 8 * length (packSeptets xs)"
    using ceil8_ge [of "length xs * 7"] by (simp add: packSeptets_length [OF assms] mult.commute)
  then have k: "7 * i + k < 8 * length (packSeptets xs)" if "k < 7" for k using i that by linarith
  have "bit (septetAt (packSeptets xs @ ys) i) k = bit (xs ! i) k" for k
    using packSeptets_bits [OF assms k] i septet_bit [of "xs ! i" k] assms
    by (auto simp: septetAt_bit packedBit_append k list_all_length)
  then have "septetAt (packSeptets xs @ ys) i = xs ! i" by (intro bit_eqI) simp
  with i show "unpackSeptets (length xs) (packSeptets xs @ ys) ! i = xs ! i"
    by (simp add: unpackSeptets_def)
qed (simp add: unpackSeptets_def)

section \<open>Pages\<close>

definition okPages :: "Page list \<Rightarrow> bool" where
  "okPages pages \<longleftrightarrow> 1 \<le> length pages \<and> length pages \<le> 15 \<and>
     (\<forall>i < length pages. length (Data (pages ! i)) = 82 \<and> unat (Number (pages ! i)) = i + 1 \<and>
        unat (Total (pages ! i)) = length pages \<and>
        unat (PageParameter (pages ! i)) = 16 * (i + 1) + length pages)"

lemma pageParameter:
  assumes "n < 16" "t < 16"
  shows "unat (push_bit 4 (word_of_nat n :: byte) OR word_of_nat t) = 16 * n + t"
proof -
  have a: "push_bit 4 n AND t = (0::nat)"
  proof (rule bit_eqI)
    fix k
    have "\<not> bit t k" if "4 \<le> k"
    proof -
      have "t < 2 ^ k" using assms(2) power_increasing [OF that, of "2::nat"] by simp
      then show ?thesis by (simp add: bit_iff_odd)
    qed
    then show "bit (push_bit 4 n AND t) k = bit (0::nat) k" by (auto simp: bit_simps)
  qed
  have "unat (push_bit 4 (word_of_nat n :: byte) OR word_of_nat t) =
      unat (push_bit 4 (word_of_nat n :: byte)) OR unat (word_of_nat t :: byte)"
    by (rule bit_eqI) (simp add: bit_simps)
  also have "unat (push_bit 4 (word_of_nat n :: byte)) = 16 * n"
  proof -
    have "unat (word_of_nat n :: byte) = n" using assms(1) by (simp add: unat_of_nat take_bit_nat_eq_self)
    moreover have "take_bit 8 (push_bit 4 n) = push_bit 4 n"
      using assms(1) by (simp add: take_bit_nat_eq_self push_bit_eq_mult)
    ultimately show ?thesis by (simp only: unsigned_push_bit_eq len_num1 len_bit0) (simp add: push_bit_eq_mult)
  qed
  also have "unat (word_of_nat t :: byte) = t" using assms(2) by (simp add: unat_of_nat take_bit_nat_eq_self)
  also have "16 * n OR t = 16 * n + t"
    using a disjunctive_add_eq_or [of "push_bit 4 n" t] by (simp add: push_bit_eq_mult mult.commute)
  finally show ?thesis .
qed

lemma finishPages_Inr:
  "finishPages pages = Inr ps \<Longrightarrow> 1 \<le> length pages \<and> length pages \<le> 15 \<and> map Data ps = map Data pages"
  by (auto simp: finishPages_def MaxPages_def Let_def comp_def case_prod_beta Suc_le_eq
      map_snd_zip [unfolded comp_def] intro!: nth_equalityI)

lemma finishPages_iff: "(\<exists>ps. finishPages pages = Inr ps) \<longleftrightarrow> 1 \<le> length pages \<and> length pages \<le> 15"
  by (auto simp: finishPages_def MaxPages_def Suc_le_eq)

lemma finishPages_ok:
  assumes "finishPages pages = Inr ps" "\<forall>p \<in> set pages. length (Data p) = 82"
  shows "okPages ps"
proof -
  from assms(1) have l: "1 \<le> length pages" "length pages \<le> 15"
    and ps: "ps = map (\<lambda>(i, p).
       (let n = word_of_nat (i + 1); t = word_of_nat (length pages)
        in p\<lparr>Number := n, Total := t, PageParameter := push_bit 4 n OR t\<rparr>))
       (zip [0..<length pages] pages)"
    by (auto simp: finishPages_def MaxPages_def Suc_le_eq)
  have u: "unat (word_of_nat n :: byte) = n" if "n \<le> 15" for n
    using that by (simp add: unat_of_nat take_bit_nat_eq_self)
  show ?thesis
    unfolding okPages_def
  proof (intro conjI allI impI)
    show "1 \<le> length ps" "length ps \<le> 15" using l ps by simp_all
    fix i assume "i < length ps"
    then have i: "i < length pages" using ps by simp
    then have p: "ps ! i = (pages ! i)\<lparr>Number := word_of_nat (i + 1), Total := word_of_nat (length pages),
        PageParameter := push_bit 4 (word_of_nat (i + 1)) OR word_of_nat (length pages)\<rparr>"
      using ps by (simp add: Let_def)
    have lp: "length ps = length pages" using ps by simp
    show "length (Data (ps ! i)) = 82" using p assms(2) i by simp
    show "unat (Number (ps ! i)) = i + 1" using p u [of "i + 1"] i l by simp
    show "unat (Total (ps ! i)) = length ps" using p u [of "length pages"] l lp by simp
    have s: "PageParameter (ps ! i) = push_bit 4 (word_of_nat (i + 1)) OR word_of_nat (length pages)"
      using p by simp
    show "unat (PageParameter (ps ! i)) = 16 * (i + 1) + length ps"
      unfolding s lp using i l by (intro pageParameter) simp_all
  qed
qed

lemma ceil_step: "n \<noteq> 0 \<Longrightarrow> ((n::nat) + (c - 1)) div c = Suc ((n - c + (c - 1)) div c)" if "1 < c"
proof -
  assume n: "n \<noteq> 0"
  show ?thesis
  proof (cases "c \<le> n")
    case True
    then have "n + (c - 1) = c + (n - c + (c - 1))" by simp
    then have "(n + (c - 1)) div c = (c + (n - c + (c - 1))) div c" by simp
    also have "\<dots> = Suc ((n - c + (c - 1)) div c)" using that by (subst div_add_self1) simp_all
    finally show ?thesis .
  next
    case False
    then have "(n + (c - 1)) div c = 1" using n that by (intro div_nat_eqI) auto
    moreover have "(n - c + (c - 1)) div c = 0" using False that by simp
    ultimately show ?thesis by simp
  qed
qed

lemma list_all_take_drop: "list_all P xs \<Longrightarrow> list_all P (take n xs) \<and> list_all P (drop n xs)"
  by (auto simp: list_all_iff dest: in_set_takeD in_set_dropD)

lemma gsmPagesLoop_props:
  "list_all septet s \<Longrightarrow> (\<forall>p \<in> set (gsmPagesLoop s). length (Data p) = 82) \<and>
     length (gsmPagesLoop s) = (length s + 92) div 93 \<and> unpackPages (length s) (gsmPagesLoop s) = s"
proof (induction s rule: gsmPagesLoop.induct)
  case (1 s)
  show ?case
  proof (cases "s = []")
    case True
    then show ?thesis by (simp add: gsmPagesLoop.simps)
  next
    case False
    note ls = list_all_take_drop [OF "1.prems", of 93]
    let ?d = "packSeptets (take 93 s)"
    have dl: "length ?d = (min (length s) 93 * 7 + 7) div 8"
      using packSeptets_length ls by simp
    have "(min (length s) 93 * 7 + 7) div 8 \<le> (93 * 7 + 7) div 8" by (intro div_le_mono) simp
    then have d82: "length ?d \<le> 82" using dl by simp
    have e: "gsmPagesLoop s =
        newPage (?d @ replicate (82 - length ?d) 0x0d) # gsmPagesLoop (drop 93 s)"
      by (subst gsmPagesLoop.simps) (simp add: False Let_def PageOctets_def)
    note IH = "1.IH" [OF False refl, of] ls
    have IH: "\<forall>p \<in> set (gsmPagesLoop (drop 93 s)). length (Data p) = 82"
      "length (gsmPagesLoop (drop 93 s)) = (length s - 93 + 92) div 93"
      "unpackPages (length s - 93) (gsmPagesLoop (drop 93 s)) = drop 93 s"
      using "1.IH" [OF False] ls by simp_all
    have "unpackSeptets (length (take 93 s)) (?d @ replicate (82 - length ?d) 0x0d) = take 93 s"
      by (rule unpack_pack) (use ls in simp)
    then have "unpackPages (length s) (gsmPagesLoop s) = s"
      by (simp add: e IH(3) newPage_def min.commute)
    moreover have "length (gsmPagesLoop s) = (length s + 92) div 93"
      using ceil_step [of 93 "length s"] False by (simp add: e IH(2))
    ultimately show ?thesis using IH(1) d82 by (simp add: e newPage_def)
  qed
qed

lemma unpackPages_Data: "map Data ps = map Data qs \<Longrightarrow> unpackPages n ps = unpackPages n qs"
proof (induction n ps arbitrary: qs rule: unpackPages.induct)
  case (2 n p ps)
  then obtain q qs' where "qs = q # qs'" "Data p = Data q" "map Data ps = map Data qs'" by auto
  with "2.IH" show ?case by simp
qed simp

lemma ucs2Octets_Inr:
  "ucs2Octets rs = Inr d \<Longrightarrow> length d = 2 * length rs \<and> ucs2Runes d = rs"
proof (induction rs arbitrary: d)
  case (Cons r rs)
  then obtain d' where d: "ucs2Octets rs = Inr d'" "d = word_of_nat (r div 256) # word_of_nat r # d'"
    and r: "r \<le> 0xffff" by (auto simp: andThen_eq_Inr split: if_splits)
  have "unat (word_of_nat (r div 256) :: byte) = r div 256"
    using r by (simp add: unat_of_nat take_bit_nat_eq_self)
  moreover have "unat (word_of_nat r :: byte) = r mod 256" by (simp add: unat_of_nat take_bit_eq_mod)
  ultimately show ?case using Cons.IH [OF d(1)] d(2) by simp
qed simp

definition ucs2Rune :: "rune \<Rightarrow> bool" where
  "ucs2Rune r \<longleftrightarrow> r \<le> 0xffff \<and> \<not> isSurrogate r"

lemma ucs2Octets_iff: "(\<exists>d. ucs2Octets rs = Inr d) \<longleftrightarrow> list_all ucs2Rune rs"
  by (induction rs) (auto simp: ucs2Rune_def andThen_eq_Inr not_less)

lemma length_ucs2Fill [simp]: "length (ucs2Fill k) = 2 * k"
  by (induction k) simp_all

lemma ucs2Runes_append: "even (length a) \<Longrightarrow> ucs2Runes (a @ b) = ucs2Runes a @ ucs2Runes b"
  by (induction a rule: ucs2Runes.induct) auto

lemma ucs2PagesLoop_props:
  "ucs2PagesLoop rs = Inr pages \<Longrightarrow> (\<forall>p \<in> set pages. length (Data p) = 82) \<and>
     length pages = (length rs + 40) div 41 \<and> unpackUcs2 (length rs) pages = rs"
proof (induction rs arbitrary: pages rule: ucs2PagesLoop.induct)
  case (1 rs)
  show ?case
  proof (cases "rs = []")
    case True
    then show ?thesis using "1.prems" by (simp add: ucs2PagesLoop.simps unpackUcs2_def)
  next
    case False
    with "1.prems" obtain d ps where d: "ucs2Octets (take 41 rs) = Inr d"
      and ps: "ucs2PagesLoop (drop 41 rs) = Inr ps"
      and pages: "pages = newPage (d @ ucs2Fill ((82 + 1 - length d) div 2)) # ps"
      by (subst (asm) ucs2PagesLoop.simps) (auto simp: andThen_eq_Inr PageOctets_def)
    note dd = ucs2Octets_Inr [OF d]
    have l: "length d = 2 * min (length rs) 41" using dd by simp
    have l82: "length d + 2 * ((82 + 1 - length d) div 2) = 82"
    proof -
      have "2 * k + 2 * ((82 + 1 - 2 * k) div 2) = 82" if "k \<le> 41" for k :: nat
        using that by presburger
      then show ?thesis unfolding l by simp
    qed
    note IH = "1.IH" [OF False ps]
    have u: "unpackUcs2 (length rs) pages = rs"
    proof (cases "length rs \<le> 41")
      case True
      have "even (length d)" using l by simp
      with True dd show ?thesis
        by (simp add: unpackUcs2_def pages newPage_def ucs2Runes_append)
    next
      case False
      then have "length d = 82" using l by simp
      with dd have "ucs2Runes (concat (map Data pages)) = take 41 rs @ ucs2Runes (concat (map Data ps))"
        by (simp add: pages newPage_def ucs2Runes_append)
      with IH False show ?thesis by (simp add: unpackUcs2_def take_append)
    qed
    have "length pages = (length rs + 40) div 41"
      using ceil_step [of 41 "length rs"] False IH by (simp add: pages)
    with u IH l82 show ?thesis by (auto simp: pages newPage_def)
  qed
qed

lemma ucs2PagesLoop_iff: "(\<exists>pages. ucs2PagesLoop rs = Inr pages) \<longleftrightarrow> list_all ucs2Rune rs"
proof (induction rs rule: ucs2PagesLoop.induct)
  case (1 rs)
  show ?case
  proof (cases "rs = []")
    case True
    then show ?thesis by (simp add: ucs2PagesLoop.simps)
  next
    case False
    have "list_all ucs2Rune rs \<longleftrightarrow> list_all ucs2Rune (take 41 rs) \<and> list_all ucs2Rune (drop 41 rs)"
      by (metis append_take_drop_id list_all_append)
    moreover have "(\<exists>pages. ucs2PagesLoop rs = Inr pages) \<longleftrightarrow>
        (\<exists>d. ucs2Octets (take 41 rs) = Inr d) \<and> (\<exists>ps. ucs2PagesLoop (drop 41 rs) = Inr ps)"
      using False by (subst ucs2PagesLoop.simps) (auto simp: andThen_eq_Inr)
    moreover have "(\<exists>d. ucs2Octets (take 41 rs) = Inr d) \<Longrightarrow>
        (\<exists>ps. ucs2PagesLoop (drop 41 rs) = Inr ps) \<longleftrightarrow> list_all ucs2Rune (drop 41 rs)"
      using "1.IH" [OF False] by auto
    ultimately show ?thesis using ucs2Octets_iff [of "take 41 rs"] by blast
  qed
qed

section \<open>Encode\<close>

lemma gsmPages_iff:
  assumes "list_all septet s"
  shows "(\<exists>ps. gsmPages s = Inr ps) \<longleftrightarrow> s \<noteq> [] \<and> length s \<le> 1395"
proof -
  have "1 \<le> (n + 92) div 93 \<and> (n + 92) div 93 \<le> 15 \<longleftrightarrow> n \<noteq> 0 \<and> n \<le> 1395" for n :: nat
    using div_less_iff_less_mult [of 93 "n + 92" 16] less_eq_div_iff_mult_less_eq [of 93 1 "n + 92"]
    by auto
  with gsmPagesLoop_props [OF assms] show ?thesis
    by (simp add: gsmPages_def finishPages_iff)
qed

lemma ucs2Pages_iff:
  "(\<exists>ps. ucs2Pages text = Inr ps) \<longleftrightarrow>
     text \<noteq> [] \<and> list_all ucs2Rune (runes text) \<and> length (runes text) \<le> 615"
proof -
  have n: "1 \<le> (n + 40) div 41 \<and> (n + 40) div 41 \<le> 15 \<longleftrightarrow> n \<noteq> 0 \<and> n \<le> 615" for n :: nat
    using div_less_iff_less_mult [of 41 "n + 40" 16] less_eq_div_iff_mult_less_eq [of 41 1 "n + 40"]
    by auto
  have "(\<exists>ps. ucs2Pages text = Inr ps) \<longleftrightarrow>
      text \<noteq> [] \<and> (\<exists>qs. ucs2PagesLoop (runes text) = Inr qs \<and> 1 \<le> length qs \<and> length qs \<le> 15)"
    using finishPages_iff by (auto simp: ucs2Pages_def andThen_eq_Inr)
  moreover have "(\<exists>qs. ucs2PagesLoop (runes text) = Inr qs \<and> 1 \<le> length qs \<and> length qs \<le> 15) \<longleftrightarrow>
      list_all ucs2Rune (runes text) \<and>
      1 \<le> (length (runes text) + 40) div 41 \<and> (length (runes text) + 40) div 41 \<le> 15"
    using ucs2PagesLoop_iff [of "runes text"] ucs2PagesLoop_props [of "runes text"] by auto
  ultimately show ?thesis unfolding n by auto
qed

definition gsmText :: "string \<Rightarrow> bool" where
  "gsmText text \<longleftrightarrow> list_all gsmRune (runes text)"

lemma Encode_gsm:
  assumes "gsmText text" "text \<noteq> []" "length (runes text) \<le> 1395"
  obtains s where "gsmSeptets text = Inr s" "list_all septet s"
    "length s = sum_list (map gsmCost (runes text))" "septetRunes s = Some (runes text)"
    "Encode text l = andThen (gsmPages s) (\<lambda>pages. Inr (pages, dcs l, ''gsm7''))"
proof -
  from assms gsmSeptets_iff [of "text"] obtain s where s: "gsmSeptets text = Inr s"
    by (auto simp: gsmText_def)
  from gsmSeptets_Inr [OF s] s assms(3) show ?thesis
    by (intro that [of s]) (simp_all add: Encode_def MaxPages_def)
qed

lemma Encode_ucs2:
  assumes "\<not> gsmText text \<or> text = []" "length (runes text) \<le> 1395"
  shows "Encode text l = andThen (ucs2Pages text) (\<lambda>pages. Inr (pages, 0x11, ''ucs2''))"
proof -
  have "\<not> (\<exists>s. gsmSeptets text = Inr s)" using assms(1) gsmSeptets_iff [of "text"] by (auto simp: gsmText_def)
  then obtain e where "gsmSeptets text = Inl e" by (cases "gsmSeptets text") auto
  with assms(2) show ?thesis by (simp add: Encode_def MaxPages_def)
qed

lemma Encode_isl:
  "isl (Encode text language) \<longleftrightarrow>
     \<not> (text \<noteq> [] \<and> length (runes text) \<le> 1395 \<and>
       (if gsmText text then sum_list (map gsmCost (runes text)) \<le> 1395
        else list_all ucs2Rune (runes text) \<and> length (runes text) \<le> 615))"
proof (cases "length (runes text) \<le> 1395")
  case False
  then show ?thesis by (simp add: Encode_def MaxPages_def)
next
  case n: True
  have isl: "isl m \<longleftrightarrow> \<not> (\<exists>x. m = Inr x)" for m :: "encode_error + (Page list \<times> byte \<times> string)"
    by (cases m) auto
  show ?thesis
  proof (cases "gsmText text \<and> text \<noteq> []")
    case True
    then have g: "gsmText text" "text \<noteq> []" by simp_all
    obtain s where s: "gsmSeptets text = Inr s" "list_all septet s"
      "length s = sum_list (map gsmCost (runes text))" "septetRunes s = Some (runes text)"
      "Encode text language = andThen (gsmPages s) (\<lambda>pages. Inr (pages, dcs language, ''gsm7''))"
      by (rule Encode_gsm [OF g n, of language])
    have "isl (Encode text language) \<longleftrightarrow> \<not> (\<exists>ps. gsmPages s = Inr ps)"
      unfolding isl s(5) by (auto simp: andThen_eq_Inr)
    then show ?thesis using True n s gsmSeptets_Inr(3) [OF s(1)] by (simp add: gsmPages_iff)
  next
    case False
    then have "isl (Encode text language) \<longleftrightarrow> \<not> (\<exists>ps. ucs2Pages text = Inr ps)"
      using Encode_ucs2 [of "text" language] n unfolding isl by (auto simp: andThen_eq_Inr)
    then show ?thesis using False n by (auto simp: ucs2Pages_iff)
  qed
qed

section \<open>Properties\<close>

text \<open>Text is encoded exactly when it is not empty, has at most 1395 characters, and either
  lies in the GSM alphabet and needs at most 1395 septets (an extension character counts twice), or
  does not and lies in the basic multilingual plane without surrogates and has at most 615
  characters.\<close>

theorem encode_success:
  "isl (Encode text language) \<longleftrightarrow>
     \<not> (text \<noteq> [] \<and> length (runes text) \<le> 1395 \<and>
       (if gsmText text then sum_list (map gsmCost (runes text)) \<le> 1395
        else list_all ucs2Rune (runes text) \<and> length (runes text) \<le> 615))"
  by (rule Encode_isl)

lemma Encode_okPages:
  assumes "Encode text language = Inr (pages, d, enc)"
  shows "okPages pages"
proof -
  have "\<exists>s. list_all septet s \<and> gsmPages s = Inr pages \<or> ucs2Pages text = Inr pages"
    using assms gsmSeptets_Inr(2)
    by (fastforce simp: Encode_def andThen_eq_Inr split: if_splits sum.splits)
  then show ?thesis
    using gsmPagesLoop_props ucs2PagesLoop_props finishPages_ok
    by (fastforce simp: gsmPages_def ucs2Pages_def andThen_eq_Inr)
qed

text \<open>Whatever text is encoded, the result is 1 to 15 pages of exactly 82 octets, numbered from
  1, each with the page count and the page parameter octet that holds both.\<close>

theorem encode_pages:
  assumes "Encode text language = Inr (pages, d, enc)"
  shows "okPages pages"
  by (rule Encode_okPages [OF assms])

lemma Encode_example:
  obtains pages d enc where "Encode ''Flood'' ''en'' = Inr (pages, d, enc)"
proof -
  have "gsmText ''Flood''" by (simp add: gsmText_def gsmRune_def string_eval gsmAlphabet_None alphabet_def)
  then have "\<not> isl (Encode ''Flood'' ''en'')"
    unfolding Encode_isl by (simp add: string_eval gsmCost_def)
  then show ?thesis using that by (cases "Encode ''Flood'' ''en''") auto
qed

theorem encode_pages_witness: "okPages (fst (projr (Encode ''Flood'' ''en'')))"
  using encode_pages Encode_example by (metis fst_conv sum.sel(2))



text \<open>A text of seven septets more than a multiple of eight leaves seven spare bits in its last
  octet, and they are sent as zero: a receiver that unpacks every septet the used octets hold reads
  one more septet, the 0 of the commercial at sign.\<close>

theorem spare_septet_is_zero:
  assumes "list_all septet s" "length s mod 8 = 7"
  shows "length (packSeptets s) * 8 div 7 = length s + 1 \<and>
    unpackSeptets (length s + 1) (packSeptets s) = s @ [0]"
proof -
  obtain q where q: "length s = 8 * q + 7" using assms(2) by (metis mod_mult_div_eq add.commute)
  have l: "length (packSeptets s) = 7 * q + 7"
    by (simp add: packSeptets_length [OF assms(1)] q)
  have "unpackSeptets (length s) (packSeptets s) = s" using unpack_pack [OF assms(1), of "[]"] by simp
  moreover have "septetAt (packSeptets s) (length s) = 0"
    using packSeptets_bits [OF assms(1)] l q by (intro bit_eqI) (auto simp: septetAt_bit)
  ultimately have "unpackSeptets (length s + 1) (packSeptets s) = s @ [0]"
    by (simp add: unpackSeptets_def)
  moreover have "(7 * q + 7) * 8 div 7 = 8 * q + 8" by simp
  ultimately show ?thesis using l q by simp
qed

theorem spare_septet_is_zero_witness:
  "unpackSeptets 8 (packSeptets [1, 2, 3, 4, 5, 6, 7]) = [1, 2, 3, 4, 5, 6, 7, 0]"
proof -
  have l: "length [1, 2, 3, 4, 5, 6, 7 :: byte] + 1 = 8" by simp
  from spare_septet_is_zero [of "[1, 2, 3, 4, 5, 6, 7]", unfolded l] show ?thesis
    by (simp add: septet_def)
qed

end
