(* ===== verification/Cbs_Wire.thy ===== *)
theory Cbs_Wire
  imports Cbs_Encoding Sbcap_Restart
begin

text \<open>
  \<open>internal/cbs/sbcap.go\<close> with the message types of \<open>internal/cbs/cbs.go\<close>: a prepared CBS message as
  an SBc-AP request. The lemmas relate the octets that leave for the MME to the message: page
  container, PLMN and warning area, and when a message cannot be sent.
\<close>

section \<open>Messages\<close>

definition ImmediateCellWide :: byte where "ImmediateCellWide = 0"
definition PLMNWide :: byte where "PLMNWide = 1"
definition TrackingAreaWide :: byte where "TrackingAreaWide = 2"
definition CellWide :: byte where "CellWide = 3"

lemmas scopes = ImmediateCellWide_def PLMNWide_def TrackingAreaWide_def CellWide_def

record Target =
  Scope :: byte
  Cells :: "string list"
  TrackingAreas :: "string list"

record Message =
  InfoIndex :: nat
  m_MessageIdentifier :: u16
  m_SerialNumber :: u16
  DCS :: byte
  Encoding :: string
  m_Target :: Target
  m_Pages :: "Page list"

record Plan =
  AlertIdentifier :: string
  Messages :: "Message list"

datatype wire_error =
    InvalidPageCount nat
  | InvalidPage nat
  | PLMNLength
  | PLMNDigits string
  | InvalidScope byte
  | InvalidTarget string
  | SbcapError sbcap_error

section \<open>Operations\<close>

text \<open>The two loops of \<open>usedOctets\<close>, downwards from the end of the page.\<close>

fun usedUcs2 :: "byte list \<Rightarrow> nat \<Rightarrow> nat" where
  "usedUcs2 data 0 = 0"
| "usedUcs2 data (Suc k) =
     (if data ! (2 * k) \<noteq> 0 \<or> data ! (2 * k + 1) \<noteq> 0x0d then 2 * k + 2 else usedUcs2 data k)"

fun usedGsm :: "byte list \<Rightarrow> nat \<Rightarrow> nat" where
  "usedGsm data 0 = 0"
| "usedGsm data (Suc i) = (if data ! i \<noteq> 0x0d then i + 1 else usedGsm data i)"

definition usedOctets :: "Page \<Rightarrow> string \<Rightarrow> nat" where
  "usedOctets page encoding =
     (if encoding = ''ucs2'' then usedUcs2 (Data page) (PageOctets div 2)
      else usedGsm (Data page) PageOctets)"

definition PlmnTBCD :: "string \<Rightarrow> wire_error + byte list" where
  "PlmnTBCD v =
     (let d = RemoveAll (TrimSpace v) (CHR ''-'') in
      failIf (length d \<noteq> 5 \<and> length d \<noteq> 6) PLMNLength (
      failIf (\<exists>r \<in> set (runes d). r < 48 \<or> r > 57) (PLMNDigits v) (
      let b = (\<lambda>i. word_of_nat (of_char (d ! i) - 48) :: byte);
          mnc3 = (if length d = 6 then b 3 else 0xf)
      in Inr [b 0 OR push_bit 4 (b 1), b 2 OR push_bit 4 mnc3,
              b (length d - 2) OR push_bit 4 (b (length d - 1))])))"

definition targetWire :: "Target \<Rightarrow> string \<Rightarrow> wire_error + (byte list \<times> u32 list)" where
  "targetWire target plmn =
     andThen (PlmnTBCD plmn) (\<lambda>bcd.
     let values = (if Scope target = TrackingAreaWide then TrackingAreas target
                   else if Scope target = CellWide then Cells target else []) in
     failIf (Scope target \<noteq> PLMNWide \<and> Scope target \<noteq> TrackingAreaWide \<and> Scope target \<noteq> CellWide)
       (InvalidScope (Scope target)) (
     andThen (mapE (\<lambda>v. case parseUint0 32 (TrimSpace v) of
                       None \<Rightarrow> Inl (InvalidTarget v) | Some n \<Rightarrow> Inr (word_of_nat n)) values) (\<lambda>ids.
     Inr (bcd, ids))))"

text \<open>One round of the loop over the pages.\<close>

definition addPage :: "Message \<Rightarrow> byte list \<Rightarrow> nat \<times> Page \<Rightarrow> wire_error + byte list" where
  "addPage m contents = (\<lambda>(i, page).
     (let n = length (m_Pages m) in
      failIf (length (Data page) \<noteq> PageOctets \<or> Number page \<noteq> word_of_nat (i + 1) \<or>
          Total page \<noteq> word_of_nat n) (InvalidPage (i + 1)) (
      let used = (if i = n - 1 then usedOctets page (Encoding m) else PageOctets)
      in Inr (contents @ Data page @ [word_of_nat used]))))"

definition pageContainer :: "Message \<Rightarrow> wire_error + byte list" where
  "pageContainer m =
     failIf (length (m_Pages m) = 0 \<or> length (m_Pages m) > MaxPages)
       (InvalidPageCount (length (m_Pages m))) (
     foldE (addPage m) [word_of_nat (length (m_Pages m))] (zip [0..<length (m_Pages m)] (m_Pages m)))"

definition SBcAPWriteReplace :: "Message \<Rightarrow> u16 \<Rightarrow> u16 \<Rightarrow> string \<Rightarrow> wire_error + byte list" where
  "SBcAPWriteReplace m repetitionPeriod broadcasts plmn =
     andThen (pageContainer m) (\<lambda>contents.
     andThen (targetWire (m_Target m) plmn) (\<lambda>(bcd, ids).
     wrapErr SbcapError (WriteReplaceTarget (m_MessageIdentifier m) (m_SerialNumber m) (DCS m) contents
       repetitionPeriod broadcasts (uint (Scope (m_Target m))) bcd ids)))"

definition SBcAPStop :: "Message \<Rightarrow> string \<Rightarrow> wire_error + byte list" where
  "SBcAPStop m plmn =
     andThen (targetWire (m_Target m) plmn) (\<lambda>(bcd, ids).
     wrapErr SbcapError (StopTarget (m_MessageIdentifier m) (m_SerialNumber m)
       (uint (Scope (m_Target m))) bcd ids))"

section \<open>PLMN digits\<close>

text \<open>The low and the high half of an octet, and the digits of a TBCD PLMN.\<close>

definition nibbles :: "byte \<Rightarrow> nat \<times> nat" where
  "nibbles b = (unat b mod 16, unat b div 16)"

definition tbcdDigits :: "byte list \<Rightarrow> nat list" where
  "tbcdDigits p =
     (let (d1, d2) = nibbles (p ! 0); (d3, m3) = nibbles (p ! 1); (m1, m2) = nibbles (p ! 2)
      in if m3 = 15 then [d1, d2, d3, m1, m2] else [d1, d2, d3, m3, m1, m2])"

lemma nibbles_or:
  assumes "a < 16" "b < 16"
  shows "nibbles (word_of_nat a OR push_bit 4 (word_of_nat b)) = (a, b)"
proof -
  have "unat (word_of_nat a OR push_bit 4 (word_of_nat b) :: byte) = 16 * b + a"
    using pageParameter [OF assms(2,1)] by (simp add: or.commute)
  with assms show ?thesis by (simp add: nibbles_def)
qed

definition plmnDigits :: "string \<Rightarrow> nat list" where
  "plmnDigits v = map (\<lambda>c. of_char c - 48) (RemoveAll (TrimSpace v) (CHR ''-''))"

definition okPLMN :: "string \<Rightarrow> bool" where
  "okPLMN v \<longleftrightarrow> length (plmnDigits v) \<in> {5, 6} \<and> list_all isDigit (RemoveAll (TrimSpace v) (CHR ''-''))"

section \<open>Page containers\<close>

text \<open>The pages that an MME reads out of a container: a count, then for every page 82 octets and the
  number of octets in use.\<close>

fun readPages :: "nat \<Rightarrow> byte list \<Rightarrow> (byte list \<times> nat) list option" where
  "readPages 0 bs = (if bs = [] then Some [] else None)"
| "readPages (Suc n) bs =
     (if length bs < 83 then None
      else map_option (Cons (take 82 bs, unat (bs ! 82))) (readPages n (drop 83 bs)))"

definition containerPages :: "byte list \<Rightarrow> (byte list \<times> nat) list option" where
  "containerPages c = (case c of [] \<Rightarrow> None | n # bs \<Rightarrow> readPages (unat n) bs)"

definition framed :: "Page list \<Rightarrow> bool" where
  "framed pages \<longleftrightarrow> 1 \<le> length pages \<and> length pages \<le> 15 \<and>
     (\<forall>i < length pages. length (Data (pages ! i)) = 82 \<and> Number (pages ! i) = word_of_nat (i + 1) \<and>
        Total (pages ! i) = word_of_nat (length pages))"

definition usedAt :: "Message \<Rightarrow> nat \<Rightarrow> nat" where
  "usedAt m i = (if i = length (m_Pages m) - 1 then usedOctets (m_Pages m ! i) (Encoding m) else 82)"

definition sentPages :: "Message \<Rightarrow> (byte list \<times> nat) list" where
  "sentPages m = map (\<lambda>i. (Data (m_Pages m ! i), usedAt m i)) [0..<length (m_Pages m)]"

definition containerOctets :: "(byte list \<times> nat) list \<Rightarrow> byte list" where
  "containerOctets ps = concat (map (\<lambda>(d, u). d @ [word_of_nat u]) ps)"

lemma usedUcs2_le: "usedUcs2 d k \<le> 2 * k"
  by (induction k) auto

lemma usedGsm_le: "usedGsm d k \<le> k"
  by (induction k) auto

lemma usedOctets_le: "usedOctets p e \<le> 82"
  using usedUcs2_le [of "Data p" 41] usedGsm_le [of "Data p" 82]
  by (auto simp: usedOctets_def PageOctets_def)

lemma addPage_Inr:
  "addPage m acc (i, page) = Inr c \<longleftrightarrow> length (Data page) = 82 \<and> Number page = word_of_nat (i + 1) \<and>
     Total page = word_of_nat (length (m_Pages m)) \<and>
     c = acc @ Data page @ [word_of_nat (if i = length (m_Pages m) - 1 then usedOctets page (Encoding m) else 82)]"
  by (auto simp: addPage_def Let_def PageOctets_def)

lemma addPages_Inr:
  "foldE (addPage m) acc xs = Inr c \<longleftrightarrow>
     (\<forall>(i, page) \<in> set xs. length (Data page) = 82 \<and> Number page = word_of_nat (i + 1) \<and>
        Total page = word_of_nat (length (m_Pages m))) \<and>
     c = acc @ concat (map (\<lambda>(i, page). Data page @ [word_of_nat (if i = length (m_Pages m) - 1
        then usedOctets page (Encoding m) else 82)]) xs)"
proof (induction xs arbitrary: acc)
  case (Cons x xs)
  obtain i page where x: "x = (i, page)" by fastforce
  show ?case unfolding foldE.simps andThen_eq_Inr x addPage_Inr Cons.IH by auto
qed auto

lemma zip_upt_map: "zip [0..<length xs] xs = map (\<lambda>i. (i, xs ! i)) [0..<length xs]"
  by (auto intro!: nth_equalityI)

lemma pageContainer_Inr:
  "pageContainer m = Inr c \<longleftrightarrow> framed (m_Pages m) \<and>
     c = word_of_nat (length (m_Pages m)) # containerOctets (sentPages m)"
  unfolding pageContainer_def failIf_eq_Inr addPages_Inr zip_upt_map framed_def containerOctets_def sentPages_def
  by (auto simp: MaxPages_def usedAt_def comp_def Suc_le_eq)

lemma length_containerOctets:
  "\<forall>(d, u) \<in> set ps. length d = 82 \<Longrightarrow> length (containerOctets ps) = 83 * length ps"
  by (induction ps) (auto simp: containerOctets_def)

lemma readPages_container:
  "\<forall>(d, u) \<in> set ps. length d = 82 \<and> u \<le> 82 \<Longrightarrow> readPages (length ps) (containerOctets ps) = Some ps"
proof (induction ps)
  case (Cons p ps)
  obtain d u where p: "p = (d, u)" by fastforce
  have "unat (word_of_nat u :: byte) = u"
    using Cons.prems p by (simp add: unat_of_nat take_bit_nat_eq_self)
  moreover have "containerOctets (p # ps) = d @ word_of_nat u # containerOctets ps"
    by (simp add: containerOctets_def p)
  ultimately show ?case using Cons p by (simp add: nth_append)
qed (simp add: containerOctets_def)

lemma framed_sent: "framed (m_Pages m) \<Longrightarrow> \<forall>(d, u) \<in> set (sentPages m). length d = 82 \<and> u \<le> 82"
  using usedOctets_le by (auto simp: framed_def sentPages_def usedAt_def)

lemma length_sentPages [simp]: "length (sentPages m) = length (m_Pages m)"
  by (simp add: sentPages_def)

lemma container_decodes:
  assumes "pageContainer m = Inr c"
  shows "containerPages c = Some (sentPages m)" "length c = 1 + 83 * length (m_Pages m)"
proof -
  have f: "framed (m_Pages m)" and c: "c = word_of_nat (length (m_Pages m)) # containerOctets (sentPages m)"
    using assms by (simp_all add: pageContainer_Inr)
  have "unat (word_of_nat (length (m_Pages m)) :: byte) = length (m_Pages m)"
    using f by (simp add: framed_def unat_of_nat take_bit_nat_eq_self)
  then show "containerPages c = Some (sentPages m)"
    using readPages_container [OF framed_sent [OF f]] by (simp add: containerPages_def c)
  have "\<forall>(d, u) \<in> set (sentPages m). length d = 82" using framed_sent [OF f] by auto
  from length_containerOctets [OF this] show "length c = 1 + 83 * length (m_Pages m)" by (simp add: c)
qed

lemma okPages_framed: "okPages pages \<Longrightarrow> framed pages"
proof -
  assume o: "okPages pages"
  have w: "w = word_of_nat n" if "unat w = n" for w :: byte and n using that by auto
  show "framed pages"
    unfolding framed_def
  proof (intro conjI allI impI)
    fix i assume "i < length pages"
    with o have "unat (Number (pages ! i)) = i + 1" "unat (Total (pages ! i)) = length pages"
      by (auto simp: okPages_def)
    from w [OF this(1)] w [OF this(2)] show "Number (pages ! i) = word_of_nat (i + 1)"
      "Total (pages ! i) = word_of_nat (length pages)" .
  qed (use o in \<open>auto simp: okPages_def\<close>)
qed

section \<open>Targets on the wire\<close>

definition targetValues :: "Target \<Rightarrow> string list" where
  "targetValues t = (if Scope t = TrackingAreaWide then TrackingAreas t
     else if Scope t = CellWide then Cells t else [])"

definition targetNumbers :: "Target \<Rightarrow> nat option list" where
  "targetNumbers t = map (\<lambda>v. parseUint0 32 (TrimSpace v)) (targetValues t)"

lemma targetIds_Inr:
  "mapE (\<lambda>v. case parseUint0 32 (TrimSpace v) of
      None \<Rightarrow> Inl (InvalidTarget v) | Some n \<Rightarrow> Inr (word_of_nat n :: u32)) vs = Inr ids \<longleftrightarrow>
   map (\<lambda>v. parseUint0 32 (TrimSpace v)) vs = map (Some \<circ> unat) ids"
proof (induction vs arbitrary: ids)
  case (Cons v vs)
  have n: "unat (word_of_nat n :: u32) = n" if "parseUint0 32 (TrimSpace v) = Some n" for n
    using parseUint0_bound [OF that] by (simp add: unat_of_nat take_bit_nat_eq_self)
  show ?case
  proof (cases "parseUint0 32 (TrimSpace v)")
    case (Some k)
    then show ?thesis using n [OF Some] Cons.IH by (cases ids) (auto simp: andThen_eq_Inr)
  qed auto
qed auto

lemma tbcdDigits_five:
  assumes "a < 16" "b < 16" "c < 16" "d < 16" "e < 16"
  shows "tbcdDigits [word_of_nat a OR push_bit 4 (word_of_nat b), word_of_nat c OR push_bit 4 0xf,
    word_of_nat d OR push_bit 4 (word_of_nat e)] = [a, b, c, d, e]"
proof -
  have "nibbles (word_of_nat c OR push_bit 4 (0xf)) = (c, 15)"
    using nibbles_or [OF assms(3), of 15] by simp
  then show ?thesis using assms by (simp add: tbcdDigits_def nibbles_or del: push_bit_numeral)
qed

lemma tbcdDigits_six:
  assumes "a < 16" "b < 16" "c < 16" "d < 15" "e < 16" "f < 16"
  shows "tbcdDigits [word_of_nat a OR push_bit 4 (word_of_nat b), word_of_nat c OR push_bit 4 (word_of_nat d),
    word_of_nat e OR push_bit 4 (word_of_nat f)] = [a, b, c, d, e, f]"
  using assms by (simp add: tbcdDigits_def nibbles_or)

lemma PlmnTBCD_Inr:
  "(\<exists>bcd. PlmnTBCD v = Inr bcd) \<longleftrightarrow> okPLMN v"
  "PlmnTBCD v = Inr bcd \<Longrightarrow> length bcd = 3 \<and> tbcdDigits bcd = plmnDigits v"
proof -
  let ?d = "RemoveAll (TrimSpace v) (CHR ''-'')"
  have r: "(\<exists>r \<in> set (runes ?d). r < 48 \<or> r > 57) \<longleftrightarrow> \<not> list_all isDigit ?d"
    using runes_digits [of ?d] by (auto simp: not_le not_less)
  show "(\<exists>bcd. PlmnTBCD v = Inr bcd) \<longleftrightarrow> okPLMN v"
    unfolding PlmnTBCD_def Let_def failIf_eq_Inr r by (auto simp: okPLMN_def plmnDigits_def)
  assume b: "PlmnTBCD v = Inr bcd"
  then have l: "length ?d = 5 \<or> length ?d = 6" and d: "list_all isDigit ?d"
    unfolding PlmnTBCD_def Let_def failIf_eq_Inr r by auto
  from b have bcd: "bcd = (let b = (\<lambda>i. word_of_nat (of_char (?d ! i) - 48) :: byte);
          mnc3 = (if length ?d = 6 then b 3 else 0xf)
      in [b 0 OR push_bit 4 (b 1), b 2 OR push_bit 4 mnc3, b (length ?d - 2) OR push_bit 4 (b (length ?d - 1))])"
    unfolding PlmnTBCD_def Let_def failIf_eq_Inr by simp
  show "length bcd = 3 \<and> tbcdDigits bcd = plmnDigits v"
  proof (cases "length ?d = 5")
    case True
    then obtain c0 c1 c2 c3 c4 where "?d = [c0, c1, c2, c3, c4]" by (auto simp: numeral_eq_Suc length_Suc_conv)
    with d show ?thesis unfolding bcd plmnDigits_def
      by (auto simp: Let_def isDigit_def simp del: push_bit_numeral of_nat_diff intro!: tbcdDigits_five)
  next
    case False
    with l obtain c0 c1 c2 c3 c4 c5 where "?d = [c0, c1, c2, c3, c4, c5]"
      by (auto simp: numeral_eq_Suc length_Suc_conv)
    with d show ?thesis unfolding bcd plmnDigits_def
      by (auto simp: Let_def isDigit_def simp del: of_nat_diff intro!: tbcdDigits_six)
  qed
qed

lemma targetWire_Inr:
  "targetWire t plmn = Inr (bcd, ids) \<longleftrightarrow> PlmnTBCD plmn = Inr bcd \<and> Scope t \<in> {PLMNWide, TrackingAreaWide, CellWide} \<and>
     targetNumbers t = map (Some \<circ> unat) ids"
  unfolding targetWire_def andThen_eq_Inr failIf_eq_Inr Let_def targetNumbers_def targetValues_def targetIds_Inr by auto


section \<open>Properties\<close>

text \<open>The octets that a target adds to a request, and the targets that fit its IE.\<close>

definition targetOctets :: "Target \<Rightarrow> nat" where
  "targetOctets t = (if Scope t = PLMNWide then 0
     else 3 + openTypeOctets (if Scope t = TrackingAreaWide then 3 + 6 * length (TrackingAreas t)
        else 4 + 7 * length (Cells t)))"

definition numbersBelow :: "nat \<Rightarrow> string list \<Rightarrow> bool" where
  "numbersBelow b vs \<longleftrightarrow> vs \<noteq> [] \<and>
     list_all (\<lambda>v. case parseUint0 32 (TrimSpace v) of None \<Rightarrow> False | Some n \<Rightarrow> n < b) vs"

definition okTarget :: "Target \<Rightarrow> bool" where
  "okTarget t \<longleftrightarrow> Scope t = PLMNWide \<or> Scope t = TrackingAreaWide \<and> numbersBelow (2 ^ 16) (TrackingAreas t) \<or>
     Scope t = CellWide \<and> numbersBelow (2 ^ 28) (Cells t)"

lemma uint_scopes: "uint (w :: byte) = 1 \<longleftrightarrow> w = PLMNWide" "uint w = 2 \<longleftrightarrow> w = TrackingAreaWide"
  "uint w = 3 \<longleftrightarrow> w = CellWide"
  by (simp_all add: scopes word_uint_eq_iff)

lemma numbersBelow_ids:
  assumes "map (\<lambda>v. parseUint0 32 (TrimSpace v)) vs = map (Some \<circ> unat) (ids :: u32 list)"
  shows "numbersBelow b vs \<longleftrightarrow> ids \<noteq> [] \<and> (\<forall>i \<in> set ids. unat i < b)" "length ids = length vs"
proof -
  show l: "length ids = length vs" using assms by (metis length_map)
  have "list_all (\<lambda>v. case parseUint0 32 (TrimSpace v) of None \<Rightarrow> False | Some n \<Rightarrow> n < b) vs \<longleftrightarrow>
      list_all (\<lambda>x. case x of None \<Rightarrow> False | Some n \<Rightarrow> n < b) (map (\<lambda>v. parseUint0 32 (TrimSpace v)) vs)"
    by (simp add: list.pred_map comp_def)
  then show "numbersBelow b vs \<longleftrightarrow> ids \<noteq> [] \<and> (\<forall>i \<in> set ids. unat i < b)"
    using l unfolding numbersBelow_def assms by (auto simp: list_all_iff list.pred_map)
qed

lemma numbersBelow_parsed:
  assumes "numbersBelow b vs"
  obtains ids :: "u32 list" where "map (\<lambda>v. parseUint0 32 (TrimSpace v)) vs = map (Some \<circ> unat) ids"
proof
  show "map (\<lambda>v. parseUint0 32 (TrimSpace v)) vs =
      map (Some \<circ> unat) (map (\<lambda>v. word_of_nat (the (parseUint0 32 (TrimSpace v))) :: u32) vs)"
    using assms parseUint0_bound [where bits = 32]
    by (auto simp: numbersBelow_def list_all_iff unat_of_nat take_bit_nat_eq_self split: option.splits)
qed

lemma areaOctets_target:
  assumes "targetWire t plmn = Inr (bcd, ids)"
  shows "areaOctets (uint (Scope t)) ids = targetOctets t"
proof -
  have d: "PLMNWide \<noteq> TrackingAreaWide" "TrackingAreaWide \<noteq> CellWide" "PLMNWide \<noteq> CellWide" by (simp_all add: scopes)
  have n: "targetNumbers t = map (Some \<circ> unat) ids" and s: "Scope t \<in> {PLMNWide, TrackingAreaWide, CellWide}"
    using assms(1) by (auto simp: targetWire_Inr)
  show ?thesis
    using s d numbersBelow_ids(2) [OF n [unfolded targetNumbers_def]]
    by (auto simp: areaOctets_def targetOctets_def uint_scopes targetValues_def)
qed

lemma okTarget_iff:
  assumes "targetWire t plmn = Inr (bcd, ids)" "8 + targetOctets t < 16384"
  shows "okArea (uint (Scope t)) bcd ids \<longleftrightarrow> okTarget t"
proof -
  have b: "length bcd = 3" and n: "targetNumbers t = map (Some \<circ> unat) ids" and s: "Scope t \<in> {PLMNWide, TrackingAreaWide, CellWide}"
    using assms(1) PlmnTBCD_Inr(2) by (auto simp: targetWire_Inr)
  note ids = numbersBelow_ids [OF n [unfolded targetNumbers_def]]
  have d: "PLMNWide \<noteq> TrackingAreaWide" "TrackingAreaWide \<noteq> CellWide" "PLMNWide \<noteq> CellWide" by (simp_all add: scopes)
  have l: "i \<le> 0xffff \<longleftrightarrow> unat i < 2 ^ 16" "i \<le> 0x0fffffff \<longleftrightarrow> unat i < 2 ^ 28" for i :: u32
    by (simp_all add: word_le_nat_alt) linarith+
  have len: "Scope t \<noteq> PLMNWide \<Longrightarrow> length ids \<le> 65535"
    using assms(2) areaOctets_target [OF assms(1)]
    by (auto simp: areaOctets_def uint_scopes openTypeOctets_def split: if_splits)
  show "okArea (uint (Scope t)) bcd ids \<longleftrightarrow> okTarget t"
    using s d b len ids(1) [of "2 ^ 16"] ids(1) [of "2 ^ 28"]
    by (auto simp: okArea_def okTarget_def uint_scopes targetValues_def l)
qed

lemma okTarget_wire:
  assumes "okPLMN plmn" "okTarget t"
  obtains bcd ids where "targetWire t plmn = Inr (bcd, ids)"
proof -
  have d: "PLMNWide \<noteq> TrackingAreaWide" "TrackingAreaWide \<noteq> CellWide" "PLMNWide \<noteq> CellWide" by (simp_all add: scopes)
  obtain bcd where b: "PlmnTBCD plmn = Inr bcd" using assms(1) PlmnTBCD_Inr(1) by blast
  have "\<exists>ids :: u32 list. targetNumbers t = map (Some \<circ> unat) ids"
    using assms(2) d numbersBelow_parsed [of "2 ^ 16"] numbersBelow_parsed [of "2 ^ 28"]
    by (auto simp: targetNumbers_def okTarget_def targetValues_def elim!: numbersBelow_parsed)
  then show ?thesis using that b assms(2) by (auto simp: targetWire_Inr okTarget_def)
qed


lemma SBcAPWriteReplace_Inr:
  "SBcAPWriteReplace m rep brd plmn = Inr p \<longleftrightarrow>
     (\<exists>c bcd ids. pageContainer m = Inr c \<and> targetWire (m_Target m) plmn = Inr (bcd, ids) \<and>
        WriteReplaceTarget (m_MessageIdentifier m) (m_SerialNumber m) (DCS m) c rep brd
          (uint (Scope (m_Target m))) bcd ids = Inr p)"
  unfolding SBcAPWriteReplace_def andThen_eq_Inr by auto

lemma SBcAPStop_Inr:
  "SBcAPStop m plmn = Inr p \<longleftrightarrow>
     (\<exists>bcd ids. targetWire (m_Target m) plmn = Inr (bcd, ids) \<and>
        StopTarget (m_MessageIdentifier m) (m_SerialNumber m) (uint (Scope (m_Target m))) bcd ids = Inr p)"
  unfolding SBcAPStop_def andThen_eq_Inr by auto

definition broadcastOctets :: "Message \<Rightarrow> nat" where
  "broadcastOctets m = 45 + targetOctets (m_Target m) + openTypeOctets (3 + 83 * length (m_Pages m))"

lemma framed_container: "framed (m_Pages m) \<Longrightarrow> \<exists>c. pageContainer m = Inr c \<and> length c = 1 + 83 * length (m_Pages m)"
  using pageContainer_Inr container_decodes(2) by blast

lemma openType_ge: "n \<le> openTypeOctets n" by (simp add: openTypeOctets_def)

lemma broadcast_sendable:
  "(\<exists>p. SBcAPWriteReplace m rep brd plmn = Inr p) \<longleftrightarrow>
     framed (m_Pages m) \<and> okPLMN plmn \<and> okTarget (m_Target m) \<and> rep \<le> 4096 \<and> broadcastOctets m < 16384"
proof
  assume "\<exists>p. SBcAPWriteReplace m rep brd plmn = Inr p"
  then obtain p c bcd ids where c: "pageContainer m = Inr c"
    and t: "targetWire (m_Target m) plmn = Inr (bcd, ids)"
    and w: "WriteReplaceTarget (m_MessageIdentifier m) (m_SerialNumber m) (DCS m) c rep brd
          (uint (Scope (m_Target m))) bcd ids = Inr p"
    unfolding SBcAPWriteReplace_Inr by blast
  have f: "framed (m_Pages m)" and lc: "length c = 1 + 83 * length (m_Pages m)"
    using c container_decodes(2) pageContainer_Inr by auto
  from w writeReplaceTarget_success have s: "rep \<le> 4096" "okArea (uint (Scope (m_Target m))) bcd ids"
    "45 + areaOctets (uint (Scope (m_Target m))) ids + openTypeOctets (2 + length c) < 16384" by blast+
  have a: "areaOctets (uint (Scope (m_Target m))) ids = targetOctets (m_Target m)"
    by (rule areaOctets_target [OF t])
  have o: "openTypeOctets (2 + length c) = openTypeOctets (3 + 83 * length (m_Pages m))"
    using lc by (intro arg_cong [where f = openTypeOctets]) linarith
  have "8 + targetOctets (m_Target m) < 16384" using s(3) a by linarith
  from okTarget_iff [OF t this] s(2) have "okTarget (m_Target m)" by blast
  moreover have "okPLMN plmn" using t PlmnTBCD_Inr(1) by (auto simp: targetWire_Inr)
  ultimately show "framed (m_Pages m) \<and> okPLMN plmn \<and> okTarget (m_Target m) \<and> rep \<le> 4096 \<and> broadcastOctets m < 16384"
    using f s a o unfolding broadcastOctets_def by simp
next
  assume g: "framed (m_Pages m) \<and> okPLMN plmn \<and> okTarget (m_Target m) \<and> rep \<le> 4096 \<and> broadcastOctets m < 16384"
  then obtain bcd ids where t: "targetWire (m_Target m) plmn = Inr (bcd, ids)" using okTarget_wire by blast
  obtain c where c: "pageContainer m = Inr c" "length c = 1 + 83 * length (m_Pages m)"
    using g framed_container by blast
  have a: "areaOctets (uint (Scope (m_Target m))) ids = targetOctets (m_Target m)"
    by (rule areaOctets_target [OF t])
  have "8 + targetOctets (m_Target m) < 16384" using g unfolding broadcastOctets_def by linarith
  from okTarget_iff [OF t this] g have "okArea (uint (Scope (m_Target m))) bcd ids" by blast
  moreover have "1 \<le> length (m_Pages m)" "length (m_Pages m) \<le> 15" using g by (simp_all add: framed_def)
  moreover have "openTypeOctets (2 + length c) = openTypeOctets (3 + 83 * length (m_Pages m))"
    using c(2) by (intro arg_cong [where f = openTypeOctets]) linarith
  ultimately have "\<exists>p. WriteReplaceTarget (m_MessageIdentifier m) (m_SerialNumber m) (DCS m) c rep brd
          (uint (Scope (m_Target m))) bcd ids = Inr p"
    unfolding writeReplaceTarget_success using g a c(2) by (simp add: broadcastOctets_def)
  with t c show "\<exists>p. SBcAPWriteReplace m rep brd plmn = Inr p" unfolding SBcAPWriteReplace_Inr by blast
qed

text \<open>C15: A prepared message can be sent exactly when its pages are framed as \<open>Encode\<close> frames them, the
  configured PLMN has 5 or 6 digits, the target is PLMN-wide or a non-empty list of numbers in range
  (16 bits for tracking areas, 28 bits for cells), the repetition period is at most 4096, and the
  request stays below the 16384 octets of one open type. Otherwise an error is returned.\<close>

theorem broadcast_success:
  "(\<exists>p. SBcAPWriteReplace m rep brd plmn = Inr p) \<longleftrightarrow>
     framed (m_Pages m) \<and> okPLMN plmn \<and> okTarget (m_Target m) \<and> rep \<le> 4096 \<and> broadcastOctets m < 16384"
  by (rule broadcast_sendable)

text \<open>The area that an MME reads out of a request; \<open>None\<close> is the whole PLMN.\<close>

definition requestArea :: "byte list \<Rightarrow> (sbcap_error + warningArea) option" where
  "requestArea p = (case decodePDU p of Inl e \<Rightarrow> None
     | Inr q \<Rightarrow> map_option (decodeWarningAreaList \<circ> ie_value) (findIE (ies q) idWarningAreaList))"

text \<open>An area that names exactly the digits of a PLMN and the numbers of a target.\<close>

definition namesTarget :: "Target \<Rightarrow> string \<Rightarrow> (sbcap_error + warningArea) option \<Rightarrow> bool" where
  "namesTarget t plmn wa \<longleftrightarrow>
     (if Scope t = PLMNWide then wa = None
      else (case wa of Some (Inr a) \<Rightarrow> isCellList a = (Scope t = CellWide) \<and>
          tbcdDigits (wa_plmn a) = plmnDigits plmn \<and>
          targetNumbers t = map Some (if isCellList a then map unat (wa_ecis a) else map unat (wa_tacs a))
        | _ \<Rightarrow> False))"

lemma areaOf_names:
  assumes "targetWire t plmn = Inr (bcd, ids)" "okArea (uint (Scope t)) bcd ids"
  shows "namesTarget t plmn (if uint (Scope t) = 1 then None else Some (Inr (areaOf (uint (Scope t)) bcd ids)))"
proof -
  have d: "PLMNWide \<noteq> TrackingAreaWide" "TrackingAreaWide \<noteq> CellWide" "PLMNWide \<noteq> CellWide" by (simp_all add: scopes)
  have b: "tbcdDigits bcd = plmnDigits plmn" and n: "targetNumbers t = map (Some \<circ> unat) ids"
    and s: "Scope t \<in> {PLMNWide, TrackingAreaWide, CellWide}"
    using assms(1) PlmnTBCD_Inr(2) by (auto simp: targetWire_Inr)
  have "unat (ucast i :: u16) = unat i" if "i \<le> 0xffff" for i :: u32
  proof -
    have "unat i < 2 ^ 16" using that by (simp add: word_le_nat_alt)
    then show ?thesis by (simp add: unsigned_ucast_eq take_bit_nat_eq_self)
  qed
  then have "map (unat \<circ> (ucast :: u32 \<Rightarrow> u16)) ids = map unat ids" if "Scope t = TrackingAreaWide"
    using that assms(2) d by (auto simp: okArea_def uint_scopes)
  with s d b n show ?thesis by (auto simp: namesTarget_def areaOf_def uint_scopes comp_def)
qed

lemma broadcast_decodes:
  assumes "SBcAPWriteReplace m rep brd plmn = Inr p"
  shows "Header (p @ junk) = Inr (OutcomeInitiating, ProcedureWriteReplace) \<and>
    (\<exists>q contents. decodePDU (p @ junk) = Inr q \<and>
      fieldsOf (ies q) = Some (m_MessageIdentifier m, m_SerialNumber m, DCS m, contents, uint rep, uint brd) \<and>
      containerPages contents = Some (sentPages m)) \<and>
    namesTarget (m_Target m) plmn (requestArea (p @ junk))"
proof -
  obtain c bcd ids where c: "pageContainer m = Inr c"
    and t: "targetWire (m_Target m) plmn = Inr (bcd, ids)"
    and w: "WriteReplaceTarget (m_MessageIdentifier m) (m_SerialNumber m) (DCS m) c rep brd
          (uint (Scope (m_Target m))) bcd ids = Inr p"
    using assms unfolding SBcAPWriteReplace_Inr by blast
  have a: "okArea (uint (Scope (m_Target m))) bcd ids" using w writeReplaceTarget_success by blast
  obtain mc rc bc wa where w': "writeReplaceParts c rep brd (uint (Scope (m_Target m))) bcd ids mc rc bc wa"
    and d: "decodePDU (p @ junk) = Inr \<lparr>choiceIndex = 0, procedureCode = 0, pdu_criticality = 0,
      ies = map sentIE (writeReplaceIEs (m_MessageIdentifier m) (m_SerialNumber m) (DCS m) mc rc bc wa)\<rparr>"
    by (rule writeReplaceTarget_decodes [OF w])
  have "requestArea (p @ junk) = (if uint (Scope (m_Target m)) = 1 then None
      else Some (Inr (areaOf (uint (Scope (m_Target m))) bcd ids)))"
    using writeReplaceIEs_area [OF w'] by (simp add: requestArea_def d)
  then have "namesTarget (m_Target m) plmn (requestArea (p @ junk))" using areaOf_names [OF t a] by simp
  moreover have "containerPages c = Some (sentPages m)" by (rule container_decodes(1) [OF c])
  ultimately show ?thesis
    by (simp add: Header_def d outcomes procedures pdu_consts writeReplaceIEs_fields [OF w'])
qed

text \<open>C4: Whoever decodes a broadcast request, with or without octets after it, reads the message back:
  the procedure, the message identifier, serial number and data coding scheme, every page with the
  number of its octets in use (82, for the last page without its trailing fill), the repetition
  settings, and the warning area with the digits of the configured PLMN and the numbers of the target.\<close>

theorem broadcast_roundtrip:
  assumes "SBcAPWriteReplace m rep brd plmn = Inr p"
  shows "Header (p @ junk) = Inr (OutcomeInitiating, ProcedureWriteReplace) \<and>
    (\<exists>q contents. decodePDU (p @ junk) = Inr q \<and>
      fieldsOf (ies q) = Some (m_MessageIdentifier m, m_SerialNumber m, DCS m, contents, uint rep, uint brd) \<and>
      containerPages contents = Some (sentPages m)) \<and>
    namesTarget (m_Target m) plmn (requestArea (p @ junk))"
  by (rule broadcast_decodes [OF assms])

text \<open>C14: Every broadcast can be stopped: whenever the request of a message can be encoded, so can its
  Stop-Warning-Request, and an MME reads the same message identifier, serial number and area out of both.\<close>

theorem stop_matches_broadcast:
  assumes "SBcAPWriteReplace m rep brd plmn = Inr p"
  shows "case SBcAPStop m plmn of Inl e \<Rightarrow> False
    | Inr q \<Rightarrow> Header q = Inr (OutcomeInitiating, ProcedureStop) \<and>
        RequestIDs q = Inr (m_MessageIdentifier m, m_SerialNumber m) \<and> RequestIDs q = RequestIDs p \<and>
        requestArea q = requestArea p"
proof -
  obtain c bcd ids where c: "pageContainer m = Inr c"
    and t: "targetWire (m_Target m) plmn = Inr (bcd, ids)"
    and w: "WriteReplaceTarget (m_MessageIdentifier m) (m_SerialNumber m) (DCS m) c rep brd
          (uint (Scope (m_Target m))) bcd ids = Inr p"
    using assms unfolding SBcAPWriteReplace_Inr by blast
  obtain mc rc bc wa where w': "writeReplaceParts c rep brd (uint (Scope (m_Target m))) bcd ids mc rc bc wa"
    and d: "decodePDU (p @ []) = Inr \<lparr>choiceIndex = 0, procedureCode = 0, pdu_criticality = 0,
      ies = map sentIE (writeReplaceIEs (m_MessageIdentifier m) (m_SerialNumber m) (DCS m) mc rc bc wa)\<rparr>"
    by (rule writeReplaceTarget_decodes [OF w])
  have "okArea (uint (Scope (m_Target m))) bcd ids"
    "45 + areaOctets (uint (Scope (m_Target m))) ids + openTypeOctets (2 + length c) < 16384"
    using w writeReplaceTarget_success by blast+
  then have "okArea (uint (Scope (m_Target m))) bcd ids \<and> 15 + areaOctets (uint (Scope (m_Target m))) ids < 16384"
    by linarith
  then obtain q where q: "StopTarget (m_MessageIdentifier m) (m_SerialNumber m) (uint (Scope (m_Target m))) bcd ids = Inr q"
    using stopTarget_success by blast
  obtain wa' where wa': "buildWarningAreaIE (uint (Scope (m_Target m))) bcd ids = Inr wa'"
    and dq: "decodePDU (q @ []) = Inr \<lparr>choiceIndex = 0, procedureCode = 1, pdu_criticality = 0,
       ies = map sentIE (stopIEs (m_MessageIdentifier m) (m_SerialNumber m) wa')\<rparr>"
    by (rule stopTarget_decodes [OF q])
  have "SBcAPStop m plmn = Inr q" using t q unfolding SBcAPStop_Inr by blast
  moreover have "requestArea q = requestArea p"
    using writeReplaceIEs_area [OF w'] stopIEs_area [OF wa'] d dq by (simp add: requestArea_def)
  moreover have "RequestIDs p = Inr (m_MessageIdentifier m, m_SerialNumber m)"
    using d by (simp add: RequestIDs_def pdu_consts writeReplaceIEs_correlation)
  moreover have "Header q = Inr (OutcomeInitiating, ProcedureStop)"
    "RequestIDs q = Inr (m_MessageIdentifier m, m_SerialNumber m)"
    using dq by (simp_all add: Header_def outcomes procedures RequestIDs_def pdu_consts stopIEs_correlation)
  ultimately show ?thesis by simp
qed


text \<open>A message of one page for two cells.\<close>

definition sampleMessage :: Message where
  "sampleMessage = \<lparr>InfoIndex = 0, m_MessageIdentifier = 0x111D, m_SerialNumber = 0xC000, DCS = 1,
     Encoding = ''gsm7'', m_Target = \<lparr>Scope = CellWide, Cells = [''7'', ''0x10''], TrackingAreas = []\<rparr>,
     m_Pages = [\<lparr>Number = 1, Total = 1, PageParameter = 0x11, Data = replicate 82 0x0d\<rparr>]\<rparr>"

lemma sampleMessage_sent: "\<exists>p. SBcAPWriteReplace sampleMessage 30 4 ''311-435'' = Inr p"
  unfolding broadcast_sendable
proof (intro conjI)
  show "framed (m_Pages sampleMessage)" by (simp add: framed_def sampleMessage_def)
  show "okPLMN ''311-435''"
    by (simp add: okPLMN_def plmnDigits_def RemoveAll_def string_eval isDigit_def)
  show "okTarget (m_Target sampleMessage)"
    by (simp add: okTarget_def numbersBelow_def sampleMessage_def string_eval parse_eval scopes)
  show "broadcastOctets sampleMessage < 16384"
    by (simp add: broadcastOctets_def targetOctets_def sampleMessage_def scopes openTypeOctets_def)
qed simp

theorem broadcast_roundtrip_witness:
  "\<exists>p. SBcAPWriteReplace sampleMessage 30 4 ''311-435'' = Inr p \<and>
     Header (p @ [0xff]) = Inr (OutcomeInitiating, ProcedureWriteReplace)"
  using sampleMessage_sent broadcast_roundtrip by blast

theorem stop_matches_broadcast_witness:
  "\<exists>p q. SBcAPWriteReplace sampleMessage 30 4 ''311-435'' = Inr p \<and> SBcAPStop sampleMessage ''311-435'' = Inr q \<and>
     requestArea q = requestArea p"
proof -
  obtain p where p: "SBcAPWriteReplace sampleMessage 30 4 ''311-435'' = Inr p" using sampleMessage_sent by blast
  from stop_matches_broadcast [OF this] p show ?thesis by (auto split: sum.splits)
qed

section \<open>The octets in use\<close>

lemma usedGsm_fill:
  "length data \<le> k \<Longrightarrow> \<forall>i. length data \<le> i \<and> i < k \<longrightarrow> d ! i = 0x0d \<Longrightarrow> usedGsm d k = usedGsm d (length data)"
  by (induction k) (auto simp: le_Suc_eq)

lemma usedOctets_data:
  assumes "encoding \<noteq> ''ucs2''" "data \<noteq> []" "length data \<le> 82"
  shows "usedOctets (newPage (data @ replicate (PageOctets - length data) 0x0d)) encoding \<le> length data \<and>
    (usedOctets (newPage (data @ replicate (PageOctets - length data) 0x0d)) encoding = length data \<longleftrightarrow>
      last data \<noteq> 0x0d)"
proof -
  let ?d = "data @ replicate (82 - length data) 0x0d"
  have "usedGsm ?d 82 = usedGsm ?d (length data)"
    using assms(3) by (intro usedGsm_fill) (auto simp: nth_append)
  moreover obtain n where n: "length data = Suc n" using assms(2) by (cases "length data") auto
  moreover have "?d ! n = last data" using n assms(2) by (simp add: nth_append last_conv_nth)
  moreover have "usedGsm ?d n \<le> n" by (rule usedGsm_le)
  ultimately show ?thesis using assms(1) by (auto simp: usedOctets_def newPage_def PageOctets_def)
qed

text \<open>C40: The length that is sent with the last page of a GSM text is the number of octets its septets
  take, exactly when the last of those octets is not 0x0d; a last octet 0x0d is taken for filling
  although it holds text, and the page is announced too short.\<close>

theorem used_octets_exact:
  assumes "list_all septet xs" "xs \<noteq> []" "length xs \<le> 93"
    and "p = newPage (packSeptets xs @ replicate (PageOctets - length (packSeptets xs)) 0x0d)"
  shows "usedOctets p ''gsm7'' \<le> (length xs * 7 + 7) div 8 \<and>
    (usedOctets p ''gsm7'' = (length xs * 7 + 7) div 8 \<longleftrightarrow> last (packSeptets xs) \<noteq> 0x0d)"
proof -
  have l: "length (packSeptets xs) = (length xs * 7 + 7) div 8" by (rule packSeptets_length [OF assms(1)])
  moreover have "packSeptets xs \<noteq> []" using l assms(2) by (cases xs) auto
  moreover have "length (packSeptets xs) \<le> 82" using l assms(3) by auto
  ultimately show ?thesis using usedOctets_data [of "''gsm7''" "packSeptets xs"] assms(4) by simp
qed

text \<open>Seven letters a and the letter u with a grave accent (septet 6): the eighth septet fills the seventh
  octet up to 0x0d, so it is cut off.\<close>

lemma pack_grave: "packSeptets [0x61, 0x61, 0x61, 0x61, 0x61, 0x61, 0x61, 6] = [0xe1, 0x70, 0x38, 0x1c, 0x0e, 0x87, 0x0d]"
  by code_simp

theorem used_octets_exact_witness:
  "usedOctets (newPage (packSeptets [0x61, 0x61, 0x61, 0x61, 0x61, 0x61, 0x61, 6] @ replicate 75 0x0d)) ''gsm7'' < 7"
  using used_octets_exact [of "[0x61, 0x61, 0x61, 0x61, 0x61, 0x61, 0x61, 6]", OF _ _ _ refl]
  by (simp add: septet_def pack_grave PageOctets_def)

end
