(* ===== verification/Store_Sqlite.thy ===== *)
theory Store_Sqlite
  imports Go_Clock Cbs_Classify Cbs_Wire "HOL-Library.List_Lexorder" "HOL-Library.Char_ord"
begin

text \<open>
  \<open>internal/storage/storage.go\<close> and \<open>internal/storage/sqlite/sqlite.go\<close>: the alert, audit, plan
  and serial-allocation tables and the methods of \<open>Store\<close> over them. A table is the list of its
  rows in insertion order. A BLOB column holds the JSON text of a value (\<open>Json v\<close>) or octets that
  \<open>json.Unmarshal\<close> refuses; the strings of an alert come from an XML decoder and are valid UTF-8,
  so \<open>Unmarshal\<close> gives back what \<open>Marshal\<close> was given. The SQLite driver is third-party code: every
  method takes the failure it may report as an argument (\<open>Some e\<close>), in which case the transaction
  is rolled back; the clock reading is an argument too.
\<close>

section \<open>Tables\<close>

datatype 'a blob = Json 'a | Garbled

record Record =
  rec_Alert :: Alert
  rec_ReceivedAt :: gotime
  rec_State :: string

record AuditEvent =
  ev_ID :: int
  ev_At :: gotime
  ev_Type :: string
  ev_AlertID :: string
  ev_Detail :: string

record AlertRow =
  row_identifier :: string
  row_cap :: "Alert blob"
  row_state :: string
  row_received :: string
  row_expires :: "string option"

record AuditRow =
  aud_id :: int
  aud_at :: string
  aud_type :: string
  aud_alert :: string
  aud_detail :: string

record AllocRow =
  al_key :: string
  al_mid :: int
  al_scope :: int
  al_code :: int
  al_number :: int

record PlanRow =
  pl_identifier :: string
  pl_plan :: "Plan blob"
  pl_created :: string

record Database =
  db_alerts :: "AlertRow list"
  db_audit :: "AuditRow list"
  db_sequence :: int   \<comment> \<open>the AUTOINCREMENT counter of \<open>audit_events\<close>\<close>
  db_allocations :: "AllocRow list"
  db_plans :: "PlanRow list"

definition emptyDatabase :: Database where
  "emptyDatabase = \<lparr>db_alerts = [], db_audit = [], db_sequence = 0, db_allocations = [], db_plans = []\<rparr>"

datatype store_error =
    SqlError string
  | DecodeStoredCAP
  | BadStoredTime string
  | CodesExhausted u16 byte
  | IncompatibleAllocation

type_synonym fault = "string option"

text \<open>A transaction: on a fault nothing of it remains.\<close>

definition transaction :: "fault \<Rightarrow> store_error + 'a \<Rightarrow> store_error + 'a" where
  "transaction f m = (case f of Some e \<Rightarrow> Inl (SqlError e) | None \<Rightarrow> m)"

lemma transaction_simps [simp]:
  "transaction None m = m" "transaction (Some e) m = Inl (SqlError e)"
  by (simp_all add: transaction_def)

lemma transaction_Inr: "transaction f m = Inr v \<longleftrightarrow> f = None \<and> m = Inr v"
  by (cases f) auto

text \<open>\<open>ORDER BY key DESC\<close>.\<close>

definition orderDesc :: "('a \<Rightarrow> 'k::linorder) \<Rightarrow> 'a list \<Rightarrow> 'a list" where
  "orderDesc key rows = rev (sort_key key rows)"

text \<open>\<open>INSERT ... ON CONFLICT(key) DO UPDATE\<close>: the row of the key is replaced in place.\<close>

fun upsertRow :: "('a \<Rightarrow> 'k) \<Rightarrow> 'a \<Rightarrow> 'a list \<Rightarrow> 'a list" where
  "upsertRow key r [] = [r]"
| "upsertRow key r (x # xs) = (if key x = key r then r # xs else x # upsertRow key r xs)"

section \<open>Alerts and audit events\<close>

definition expiryStep :: "gotime \<Rightarrow> Info \<Rightarrow> gotime" where
  "expiryStep earliest info =
     (if Expires info = [] then earliest
      else case parseRFC3339 (Expires info) of
        None \<Rightarrow> earliest
      | Some t \<Rightarrow> if IsZero earliest \<or> instant t < instant earliest then t else earliest)"

definition expiry :: "Alert \<Rightarrow> gotime \<times> bool" where
  "expiry a = (let earliest = foldl expiryStep zeroTime (Infos a) in (earliest, \<not> IsZero earliest))"

definition addAudit :: "string \<Rightarrow> string \<Rightarrow> string \<Rightarrow> string \<Rightarrow> Database \<Rightarrow> Database" where
  "addAudit at typ alert detail db =
     db\<lparr>db_audit := db_audit db @ [\<lparr>aud_id = db_sequence db + 1, aud_at = at, aud_type = typ,
          aud_alert = alert, aud_detail = detail\<rparr>],
        db_sequence := db_sequence db + 1\<rparr>"

definition loadRow :: "AlertRow \<Rightarrow> store_error + Record" where
  "loadRow r =
     (case row_cap r of
        Garbled \<Rightarrow> Inl DecodeStoredCAP
      | Json a \<Rightarrow>
          (case parseRFC3339 (row_received r) of
             None \<Rightarrow> Inl (BadStoredTime (row_received r))
           | Some t \<Rightarrow> Inr \<lparr>rec_Alert = a, rec_ReceivedAt = t, rec_State = row_state r\<rparr>))"

definition LoadAlerts :: "fault \<Rightarrow> Database \<Rightarrow> store_error + Record list" where
  "LoadAlerts f db = transaction f (mapE loadRow (orderDesc row_received (db_alerts db)))"

text \<open>\<open>UPDATE alerts SET state=? WHERE identifier=? AND state='active'\<close>.\<close>

definition setState :: "string \<Rightarrow> AlertRow list \<Rightarrow> string \<Rightarrow> AlertRow list" where
  "setState s rows i =
     map (\<lambda>r. if row_identifier r = i \<and> row_state r = ''active'' then r\<lparr>row_state := s\<rparr> else r) rows"

definition Upsert :: "fault \<Rightarrow> gotime \<Rightarrow> Record \<Rightarrow> string list \<Rightarrow> Database \<Rightarrow> store_error + Database" where
  "Upsert f now r references db =
     (let a = rec_Alert r;
          expires = (case expiry a of (t, ok) \<Rightarrow> if ok then Some (formatRFC3339Nano t) else None);
          referenceState = (if MsgType a = ''Cancel'' then ''cancelled'' else ''superseded'');
          eventType = (if MsgType a = ''Cancel'' then ''alert_cancelled''
                       else if MsgType a = ''Update'' then ''alert_updated'' else ''alert_received'');
          row = \<lparr>row_identifier = Identifier a, row_cap = Json a, row_state = rec_State r,
                 row_received = formatRFC3339Nano (UTC (rec_ReceivedAt r)), row_expires = expires\<rparr>
      in transaction f (Inr (addAudit (formatRFC3339Nano (UTC now)) eventType (Identifier a)
           ''received from CBE''
           (db\<lparr>db_alerts := foldl (setState referenceState)
              (upsertRow row_identifier row (db_alerts db)) references\<rparr>))))"

definition expired :: "string \<Rightarrow> AlertRow \<Rightarrow> bool" where
  "expired now r \<longleftrightarrow> (row_state r = ''active'' \<or> row_state r = ''expired'') \<and>
     (case row_expires r of None \<Rightarrow> False | Some e \<Rightarrow> textLE e now)"

definition expireOne :: "string \<Rightarrow> Database \<Rightarrow> string \<Rightarrow> Database" where
  "expireOne now db i =
     (let db = addAudit now ''alert_expired'' i
                 ''CAP expires time reached; removed from local alert store'' db
      in db\<lparr>db_alerts := filter (\<lambda>r. row_identifier r \<noteq> i) (db_alerts db)\<rparr>)"

definition ExpireAlerts :: "fault \<Rightarrow> gotime \<Rightarrow> Database \<Rightarrow> store_error + (string list \<times> Database)" where
  "ExpireAlerts f now db =
     (let t = formatRFC3339Nano (UTC now);
          ids = map row_identifier (filter (expired t) (db_alerts db))
      in transaction f (Inr (ids, foldl (expireOne t) db ids)))"

definition loadEvent :: "AuditRow \<Rightarrow> store_error + AuditEvent" where
  "loadEvent r =
     (case parseRFC3339 (aud_at r) of
        None \<Rightarrow> Inl (BadStoredTime (aud_at r))
      | Some t \<Rightarrow> Inr \<lparr>ev_ID = aud_id r, ev_At = t, ev_Type = aud_type r, ev_AlertID = aud_alert r,
                     ev_Detail = aud_detail r\<rparr>)"

definition Audit :: "fault \<Rightarrow> int \<Rightarrow> Database \<Rightarrow> store_error + AuditEvent list" where
  "Audit f limit db =
     (let limit = (if limit \<le> 0 \<or> limit > 1000 then 100 else limit)
      in transaction f (mapE loadEvent (take (nat limit) (orderDesc aud_id (db_audit db)))))"

section \<open>Plans\<close>

definition SaveCBSPlan :: "fault \<Rightarrow> gotime \<Rightarrow> string \<Rightarrow> Plan blob \<Rightarrow> Database \<Rightarrow> store_error + Database" where
  "SaveCBSPlan f now identifier plan db =
     transaction f (Inr (db\<lparr>db_plans := upsertRow pl_identifier
       \<lparr>pl_identifier = identifier, pl_plan = plan, pl_created = formatRFC3339Nano (UTC now)\<rparr>
       (db_plans db)\<rparr>))"

definition CBSPlan :: "fault \<Rightarrow> string \<Rightarrow> Database \<Rightarrow> store_error + Plan blob option" where
  "CBSPlan f identifier db =
     transaction f (Inr (map_option pl_plan (find (\<lambda>r. pl_identifier r = identifier) (db_plans db))))"

section \<open>Serial numbers\<close>

definition inClass :: "u16 \<Rightarrow> byte \<Rightarrow> AllocRow \<Rightarrow> bool" where
  "inClass mid scope r \<longleftrightarrow> al_mid r = uint mid \<and> al_scope r = uint scope"

text \<open>\<open>uint16(scope)<<14 | uint16(code)<<4 | uint16(number)\<close>.\<close>

definition serialNumber :: "byte \<Rightarrow> int \<Rightarrow> int \<Rightarrow> u16" where
  "serialNumber scope code number =
     or (or (push_bit 14 (ucast scope)) (push_bit 4 (word_of_int code))) (word_of_int number)"

definition AllocateCBSSerial ::
    "fault \<Rightarrow> string \<Rightarrow> u16 \<Rightarrow> byte \<Rightarrow> bool \<Rightarrow> Database \<Rightarrow> store_error + (u16 \<times> Database)" where
  "AllocateCBSSerial f alertKey mid scope update db =
     transaction f (case find (\<lambda>r. al_key r = alertKey) (db_allocations db) of
       None \<Rightarrow>
         (let rows = filter (inClass mid scope) (db_allocations db); count = length rows in
          failIf (count \<ge> 1024) (CodesExhausted mid scope) (
          let code = (if rows = [] then 0 else Max (set (map al_code rows)) + 1)
          in Inr (serialNumber scope code 0, db\<lparr>db_allocations := db_allocations db @
               [\<lparr>al_key = alertKey, al_mid = uint mid, al_scope = uint scope, al_code = code,
                 al_number = 0\<rparr>]\<rparr>)))
     | Some r \<Rightarrow>
         failIf (word_of_int (al_mid r) \<noteq> mid \<or> word_of_int (al_scope r) \<noteq> scope) IncompatibleAllocation (
         if update then
           let number = and (al_number r + 1) 0x0f
           in Inr (serialNumber scope (al_code r) number, db\<lparr>db_allocations :=
                map (\<lambda>x. if al_key x = alertKey then x\<lparr>al_number := number\<rparr> else x) (db_allocations db)\<rparr>)
         else Inr (serialNumber scope (al_code r) (al_number r), db)))"

section \<open>Keyed rows\<close>

text \<open>The row of a key; with distinct keys a table is the finite map it denotes.\<close>

definition keyed :: "('a \<Rightarrow> 'k) \<Rightarrow> 'a list \<Rightarrow> 'k \<Rightarrow> 'a option" where
  "keyed key rows k = find (\<lambda>r. key r = k) rows"

lemma keyed_simps [simp]:
  "keyed key [] k = None"
  "keyed key (r # rows) k = (if key r = k then Some r else keyed key rows k)"
  by (simp_all add: keyed_def)

lemma keyed_key: "keyed key rows k = Some r \<Longrightarrow> key r = k \<and> r \<in> set rows"
  by (induction rows) (auto split: if_splits)

lemma keyed_None: "keyed key rows k = None \<longleftrightarrow> k \<notin> key ` set rows"
  by (induction rows) auto

lemma keyed_in: "distinct (map key rows) \<Longrightarrow> r \<in> set rows \<Longrightarrow> keyed key rows (key r) = Some r"
  by (induction rows) (auto simp: image_iff)

lemma keyed_append: "keyed key (xs @ ys) k = (case keyed key xs k of None \<Rightarrow> keyed key ys k | Some r \<Rightarrow> Some r)"
  by (induction xs) auto

lemma keyed_upsert [db_simps]: "keyed key (upsertRow key r rows) k = (if k = key r then Some r else keyed key rows k)"
  by (induction rows) auto

lemma keyed_map:
  "(\<And>r. key (f r) = key r) \<Longrightarrow> keyed key (map f rows) k = map_option f (keyed key rows k)"
  by (induction rows) auto

lemma keyed_filter_key: "keyed key (filter (\<lambda>r. key r \<noteq> i) rows) k = (if k = i then None else keyed key rows k)"
  by (induction rows) auto

lemma keys_upsert: "map key (upsertRow key r rows) =
    (if key r \<in> key ` set rows then map key rows else map key rows @ [key r])"
  by (induction rows) auto

lemma distinct_upsert: "distinct (map key rows) \<Longrightarrow> distinct (map key (upsertRow key r rows))"
  by (auto simp: keys_upsert)

lemma distinct_keys_filter: "distinct (map key rows) \<Longrightarrow> distinct (map key (filter P rows))"
  by (induction rows) auto

section \<open>The tables after each statement\<close>

lemma setState_keys [simp]: "map row_identifier (setState s rows i) = map row_identifier rows"
  by (simp add: setState_def)

lemma setStates_keys [simp]: "map row_identifier (foldl (setState s) rows is) = map row_identifier rows"
  by (induction "is" arbitrary: rows) auto

definition superseded :: "string \<Rightarrow> string set \<Rightarrow> AlertRow \<Rightarrow> AlertRow" where
  "superseded s I r = (if row_identifier r \<in> I \<and> row_state r = ''active'' then r\<lparr>row_state := s\<rparr> else r)"

lemma superseded_key [simp]: "row_identifier (superseded s I r) = row_identifier r"
  by (simp add: superseded_def)

lemma setStates_map:
  "s \<noteq> ''active'' \<Longrightarrow> foldl (setState s) rows is = map (superseded s (set is)) rows"
proof (induction "is" arbitrary: rows)
  case Nil
  then show ?case by (simp add: superseded_def map_idI)
next
  case (Cons i "is")
  then show ?case by (auto simp: setState_def superseded_def)
qed

lemma addAudit_simps [simp]:
  "db_alerts (addAudit at t i d db) = db_alerts db"
  "db_allocations (addAudit at t i d db) = db_allocations db"
  "db_plans (addAudit at t i d db) = db_plans db"
  "db_sequence (addAudit at t i d db) = db_sequence db + 1"
  by (simp_all add: addAudit_def)

definition auditInv :: "Database \<Rightarrow> bool" where
  "auditInv db \<longleftrightarrow> 0 \<le> db_sequence db \<and> map aud_id (db_audit db) = [1..db_sequence db]"

lemma auditInv_addAudit: "auditInv db \<Longrightarrow> auditInv (addAudit at t i d db)"
  by (simp add: auditInv_def addAudit_def upto_rec2)

lemma expire_fold:
  "db_alerts (foldl (expireOne t) db ids) = filter (\<lambda>r. row_identifier r \<notin> set ids) (db_alerts db)"
  "db_allocations (foldl (expireOne t) db ids) = db_allocations db"
  "db_plans (foldl (expireOne t) db ids) = db_plans db"
  "auditInv db \<Longrightarrow> auditInv (foldl (expireOne t) db ids)"
  "map aud_alert (db_audit (foldl (expireOne t) db ids)) = map aud_alert (db_audit db) @ ids"
  "map aud_type (db_audit (foldl (expireOne t) db ids)) =
     map aud_type (db_audit db) @ replicate (length ids) ''alert_expired''"
proof (induction ids arbitrary: db)
  case (Cons i ids)
  have e: "db_alerts (expireOne t db i) = filter (\<lambda>r. row_identifier r \<noteq> i) (db_alerts db)"
    "db_allocations (expireOne t db i) = db_allocations db" "db_plans (expireOne t db i) = db_plans db"
    "auditInv db \<Longrightarrow> auditInv (expireOne t db i)"
    "map aud_alert (db_audit (expireOne t db i)) = map aud_alert (db_audit db) @ [i]"
    "map aud_type (db_audit (expireOne t db i)) = map aud_type (db_audit db) @ [''alert_expired'']" for db
    using auditInv_addAudit by (auto simp: expireOne_def Let_def addAudit_def auditInv_def)
  { case 1 then show ?case using Cons.IH(1) e(1) by (simp add: conj_commute) }
  { case 2 then show ?case using Cons.IH(2) e(2) by simp }
  { case 3 then show ?case using Cons.IH(3) e(3) by simp }
  { case 4 then show ?case using Cons.IH(4) e(4) by simp }
  { case 5 then show ?case using Cons.IH(5) e(5) by simp }
  { case 6 then show ?case using Cons.IH(6) e(6) by simp }
qed (simp_all add: comp_def)

section \<open>The allocation table\<close>

text \<open>
  The allocations of a message identifier and a scope carry the message codes 0, 1, 2, ... in the
  order they were made: \<open>MAX(message_code) + 1\<close> is their number.
\<close>

definition allocRow :: "AllocRow \<Rightarrow> bool" where
  "allocRow r \<longleftrightarrow> 0 \<le> al_mid r \<and> al_mid r < 2 ^ 16 \<and> 0 \<le> al_scope r \<and> al_scope r < 2 ^ 8 \<and>
     0 \<le> al_number r \<and> al_number r < 16"

definition allocInv :: "AllocRow list \<Rightarrow> bool" where
  "allocInv rows \<longleftrightarrow> distinct (map al_key rows) \<and> list_all allocRow rows \<and>
     (\<forall>mid scope. let n = length (filter (inClass mid scope) rows) in
        n \<le> 1024 \<and> map al_code (filter (inClass mid scope) rows) = map int [0..<n])"

lemma allocInv_Nil: "allocInv []"
  by (simp add: allocInv_def)

lemma Max_codes:
  assumes "map al_code rows = map int [0..<n]" "n = length rows"
  shows "(if rows = [] then 0 else Max (set (map al_code rows)) + 1) = int n"
proof (cases n)
  case (Suc k)
  have "Max (int ` {0..<Suc k}) = int k" by (rule Max_eqI) auto
  then show ?thesis using assms Suc by auto
qed (use assms in simp)

lemma inClass_own: "allocRow r \<Longrightarrow> inClass (word_of_int (al_mid r)) (word_of_int (al_scope r)) r"
  by (simp add: inClass_def allocRow_def uint_word_of_int take_bit_int_eq_self)

lemma allocInv_insert:
  assumes "allocInv rows" "k \<notin> al_key ` set rows" "length (filter (inClass mid scope) rows) < 1024"
  shows "allocInv (rows @ [\<lparr>al_key = k, al_mid = uint mid, al_scope = uint scope,
    al_code = int (length (filter (inClass mid scope) rows)), al_number = 0\<rparr>])"
proof -
  have b: "uint mid < 2 ^ 16" "uint scope < 2 ^ 8" using uint_bounded [of mid] uint_bounded [of scope] by simp_all
  have c: "inClass m s \<lparr>al_key = k, al_mid = uint mid, al_scope = uint scope, al_code = c, al_number = 0\<rparr>
      \<longleftrightarrow> m = mid \<and> s = scope" for m s c
    by (auto simp: inClass_def word_uint_eq_iff)
  show ?thesis using assms b by (auto simp: allocInv_def allocRow_def Let_def c)
qed

lemma allocInv_update:
  assumes "allocInv rows" "0 \<le> n" "n < 16"
  shows "allocInv (map (\<lambda>x. if al_key x = k then x\<lparr>al_number := n\<rparr> else x) rows)"
proof -
  let ?f = "\<lambda>x. if al_key x = k then x\<lparr>al_number := n\<rparr> else x"
  have c: "filter (inClass m s) (map ?f xs) = map ?f (filter (inClass m s) xs)" for m s xs
    by (induction xs) (auto simp: inClass_def)
  have d: "map al_code (map ?f xs) = map al_code xs" "map al_key (map ?f xs) = map al_key xs" for xs
    by simp_all
  have "list_all allocRow (map ?f rows)"
    using assms by (auto simp: allocInv_def list_all_iff allocRow_def)
  then show ?thesis using assms(1) unfolding allocInv_def c d length_map by blast
qed

lemma number_step: "0 \<le> and (n + 1) 0x0f \<and> and (n + 1) 0x0f < (16::int)"
  using AND_upper2 [of "n + 1" 15] by (simp add: and_nonnegative_int_iff)

lemma Allocate_cases:
  assumes "allocInv (db_allocations db)"
  shows "AllocateCBSSerial None k mid scope update db =
    (case keyed al_key (db_allocations db) k of
      None \<Rightarrow>
        (let n = length (filter (inClass mid scope) (db_allocations db)) in
         if 1024 \<le> n then Inl (CodesExhausted mid scope)
         else Inr (serialNumber scope (int n) 0, db\<lparr>db_allocations := db_allocations db @
           [\<lparr>al_key = k, al_mid = uint mid, al_scope = uint scope, al_code = int n, al_number = 0\<rparr>]\<rparr>))
    | Some r \<Rightarrow>
        if \<not> inClass mid scope r then Inl IncompatibleAllocation
        else let n = (if update then and (al_number r + 1) 0x0f else al_number r)
          in Inr (serialNumber scope (al_code r) n, if update then db\<lparr>db_allocations :=
            map (\<lambda>x. if al_key x = k then x\<lparr>al_number := n\<rparr> else x) (db_allocations db)\<rparr> else db))"
proof -
  let ?rows = "filter (inClass mid scope) (db_allocations db)"
  have m: "(if ?rows = [] then 0 else Max (set (map al_code ?rows)) + 1) = int (length ?rows)"
    using assms by (intro Max_codes) (auto simp: allocInv_def Let_def)
  have c: "(word_of_int (al_mid r) \<noteq> mid \<or> word_of_int (al_scope r) \<noteq> scope) \<longleftrightarrow> \<not> inClass mid scope r"
    if "keyed al_key (db_allocations db) k = Some r" for r
  proof -
    have "allocRow r" using keyed_key [OF that] assms by (auto simp: allocInv_def list_all_iff)
    then show ?thesis by (auto simp: inClass_def allocRow_def uint_word_of_int take_bit_int_eq_self)
  qed
  show ?thesis
    unfolding AllocateCBSSerial_def transaction_simps keyed_def [symmetric] Let_def m failIf_def
    using c by (auto split: option.splits)
qed

section \<open>The invariant of the database\<close>

definition dbInv :: "Database \<Rightarrow> bool" where
  "dbInv db \<longleftrightarrow> distinct (map row_identifier (db_alerts db)) \<and> auditInv db \<and>
     distinct (map pl_identifier (db_plans db)) \<and> allocInv (db_allocations db)"

text \<open>The statements that other goroutines and later calls may run against the database.\<close>

inductive dbStep :: "Database \<Rightarrow> Database \<Rightarrow> bool" where
  upsert: "Upsert f now r refs db = Inr db' \<Longrightarrow> dbStep db db'"
| expire: "ExpireAlerts f now db = Inr (ids, db') \<Longrightarrow> dbStep db db'"
| plan: "SaveCBSPlan f now i p db = Inr db' \<Longrightarrow> dbStep db db'"
| allocate: "AllocateCBSSerial f k mid scope update db = Inr (serial, db') \<Longrightarrow> dbStep db db'"

inductive_cases dbStepE: "dbStep db db'"

inductive reachableDB :: "Database \<Rightarrow> bool" where
  start: "reachableDB emptyDatabase"
| step: "reachableDB db \<Longrightarrow> dbStep db db' \<Longrightarrow> reachableDB db'"

lemma dbInv_empty: "dbInv emptyDatabase"
  by (simp add: dbInv_def emptyDatabase_def auditInv_def allocInv_Nil)

lemma dbInv_Upsert: "dbInv db \<Longrightarrow> Upsert f now r refs db = Inr db' \<Longrightarrow> dbInv db'"
  by (auto simp: Upsert_def Let_def transaction_Inr dbInv_def distinct_upsert auditInv_addAudit
      intro!: auditInv_addAudit) (simp_all add: auditInv_def)

lemma dbInv_Expire: "dbInv db \<Longrightarrow> ExpireAlerts f now db = Inr (ids, db') \<Longrightarrow> dbInv db'"
  by (auto simp: ExpireAlerts_def Let_def transaction_Inr dbInv_def expire_fold distinct_keys_filter)

lemma dbInv_SaveCBSPlan: "dbInv db \<Longrightarrow> SaveCBSPlan f now i p db = Inr db' \<Longrightarrow> dbInv db'"
  by (auto simp: SaveCBSPlan_def transaction_Inr dbInv_def distinct_upsert auditInv_def)

lemma dbInv_Allocate:
  assumes "dbInv db" "AllocateCBSSerial f k mid scope update db = Inr (serial, db')"
  shows "dbInv db'"
proof -
  have f: "f = None" using assms(2) by (auto simp: AllocateCBSSerial_def transaction_Inr)
  have inv: "allocInv (db_allocations db)" using assms(1) by (simp add: dbInv_def)
  have "allocInv (db_allocations db') \<and> db_alerts db' = db_alerts db \<and> db_plans db' = db_plans db \<and>
      db_audit db' = db_audit db \<and> db_sequence db' = db_sequence db"
    using assms(2) inv number_step unfolding f Allocate_cases [OF inv]
    by (auto simp: Let_def keyed_None not_le split: option.splits if_splits
        intro!: allocInv_insert allocInv_update)
  then show ?thesis using assms(1) by (simp add: dbInv_def auditInv_def)
qed

lemma dbInv_step: "dbStep db db' \<Longrightarrow> dbInv db \<Longrightarrow> dbInv db'"
  by (induction rule: dbStep.induct) (auto intro: dbInv_Upsert dbInv_Expire dbInv_SaveCBSPlan dbInv_Allocate)

lemma reachable_dbInv: "reachableDB db \<Longrightarrow> dbInv db"
  by (induction rule: reachableDB.induct) (auto intro: dbInv_empty dbInv_step)

section \<open>Serial numbers\<close>

lemma allocInv_code:
  assumes "allocInv rows" "r \<in> set rows" "inClass mid scope r"
  shows "0 \<le> al_code r" "al_code r < 1024"
proof -
  let ?n = "length (filter (inClass mid scope) rows)"
  have n: "?n \<le> 1024" and c: "map al_code (filter (inClass mid scope) rows) = map int [0..<?n]"
    using assms(1) by (auto simp: allocInv_def Let_def)
  have "al_code r \<in> set (map al_code (filter (inClass mid scope) rows))" using assms by simp
  then have "al_code r \<in> int ` {0..<?n}" unfolding c by simp
  with n show "0 \<le> al_code r" "al_code r < 1024" by auto
qed

text \<open>What an allocation is, apart from its update number.\<close>

definition assigned :: "Database \<Rightarrow> string \<Rightarrow> (int \<times> int \<times> int) option" where
  "assigned db k = map_option (\<lambda>r. (al_mid r, al_scope r, al_code r)) (keyed al_key (db_allocations db) k)"

lemma assigned_renumber:
  "map_option (\<lambda>r. (al_mid r, al_scope r, al_code r))
     (keyed al_key (map (\<lambda>x. if al_key x = k then x\<lparr>al_number := n\<rparr> else x) rows) j) =
   map_option (\<lambda>r. (al_mid r, al_scope r, al_code r)) (keyed al_key rows j)"
  by (induction rows) auto

lemma assigned_Allocate:
  assumes "dbInv db" "AllocateCBSSerial f k mid scope update db = Inr (serial, db')"
  obtains code number where "serial = serialNumber scope code number" "0 \<le> code" "code < 1024"
    "0 \<le> number" "number < 16" "assigned db' = (assigned db)(k \<mapsto> (uint mid, uint scope, code))"
    "assigned db k = None \<or> assigned db k = Some (uint mid, uint scope, code)"
proof -
  have f: "f = None" using assms(2) by (auto simp: AllocateCBSSerial_def transaction_Inr)
  have inv: "allocInv (db_allocations db)" using assms(1) by (simp add: dbInv_def)
  let ?n = "length (filter (inClass mid scope) (db_allocations db))"
  show ?thesis
  proof (cases "keyed al_key (db_allocations db) k")
    case None
    then have "\<not> 1024 \<le> ?n" and s: "serial = serialNumber scope (int ?n) 0"
      and d: "db' = db\<lparr>db_allocations := db_allocations db @ [\<lparr>al_key = k, al_mid = uint mid,
        al_scope = uint scope, al_code = int ?n, al_number = 0\<rparr>]\<rparr>"
      using assms(2) unfolding f Allocate_cases [OF inv] by (auto simp: Let_def split: if_splits)
    moreover have "assigned db' = (assigned db)(k \<mapsto> (uint mid, uint scope, int ?n))"
      using None by (auto simp: d assigned_def keyed_append fun_eq_iff split: option.splits)
    ultimately show ?thesis using None by (intro that [of "int ?n" 0]) (auto simp: assigned_def)
  next
    case (Some r)
    have r: "r \<in> set (db_allocations db)" "al_key r = k" using keyed_key [OF Some] by auto
    have cl: "inClass mid scope r"
      using assms(2) Some unfolding f Allocate_cases [OF inv] by (auto split: if_splits)
    define n where "n = (if update then and (al_number r + 1) 0x0f else al_number r)"
    have s: "serial = serialNumber scope (al_code r) n"
      and d: "db' = (if update then db\<lparr>db_allocations :=
            map (\<lambda>x. if al_key x = k then x\<lparr>al_number := n\<rparr> else x) (db_allocations db)\<rparr> else db)"
      using assms(2) Some cl unfolding f Allocate_cases [OF inv] by (auto simp: Let_def n_def)
    have ok: "allocRow r" using inv r by (auto simp: allocInv_def list_all_iff)
    note code = allocInv_code [OF inv r(1) cl]
    have n: "0 \<le> n" "n < 16" using ok number_step by (auto simp: n_def allocRow_def)
    have "assigned db' = assigned db"
      by (auto simp: d assigned_def fun_eq_iff assigned_renumber)
    moreover have "assigned db k = Some (uint mid, uint scope, al_code r)"
      using Some cl by (simp add: assigned_def inClass_def)
    ultimately show ?thesis using s code n by (intro that [of "al_code r" n]) auto
  qed
qed

lemma assigned_step: "dbStep db db' \<Longrightarrow> dbInv db \<Longrightarrow> assigned db k = Some v \<Longrightarrow> assigned db' k = Some v"
proof (induction rule: dbStep.induct)
  case (allocate f k' mid scope update db serial db')
  obtain c where "assigned db' = (assigned db)(k' \<mapsto> (uint mid, uint scope, c))"
    "assigned db k' = None \<or> assigned db k' = Some (uint mid, uint scope, c)"
    by (rule assigned_Allocate [OF allocate(2,1)])
  then show ?case using allocate(3) by (cases "k = k'") auto
qed (auto simp: Upsert_def ExpireAlerts_def SaveCBSPlan_def Let_def transaction_Inr assigned_def expire_fold)

lemma assigned_steps: "dbStep\<^sup>*\<^sup>* db db' \<Longrightarrow> dbInv db \<Longrightarrow> assigned db k = Some v \<Longrightarrow>
    dbInv db' \<and> assigned db' k = Some v"
  by (induction rule: rtranclp_induct) (auto intro: dbInv_step assigned_step)

lemma assigned_inj:
  assumes "dbInv db" "assigned db j = Some (m, s, c)" "assigned db k = Some (m, s, c)"
  shows "j = k"
proof -
  obtain x y where x: "x \<in> set (db_allocations db)" "al_key x = j" "(al_mid x, al_scope x, al_code x) = (m, s, c)"
    and y: "y \<in> set (db_allocations db)" "al_key y = k" "(al_mid y, al_scope y, al_code y) = (m, s, c)"
    using assms(2,3) by (auto simp: assigned_def dest!: keyed_key)
  have inv: "allocInv (db_allocations db)" using assms(1) by (simp add: dbInv_def)
  then have "allocRow x" using x by (auto simp: allocInv_def list_all_iff)
  let ?C = "filter (inClass (word_of_int m) (word_of_int s)) (db_allocations db)"
  have "x \<in> set ?C" "y \<in> set ?C" using inClass_own [OF \<open>allocRow x\<close>] x y by (auto simp: inClass_def)
  moreover have "distinct (map al_code ?C)" using inv by (auto simp: allocInv_def Let_def distinct_map)
  moreover have "al_code x = al_code y" using x y by simp
  ultimately have "x = y" by (auto simp: distinct_map dest: inj_onD)
  then show ?thesis using x y by simp
qed

text \<open>The fields of a serial number (TS 23.041, 9.4.1.2.1).\<close>

definition serialScope :: "u16 \<Rightarrow> u16" where "serialScope s = drop_bit 14 s"
definition messageCode :: "u16 \<Rightarrow> u16" where "messageCode s = take_bit 10 (drop_bit 4 s)"
definition updateNumber :: "u16 \<Rightarrow> u16" where "updateNumber s = take_bit 4 s"

lemma bit_small: "0 \<le> c \<Longrightarrow> c < 2 ^ n \<Longrightarrow> bit (word_of_int c :: u16) i \<Longrightarrow> i < n"
  by (metis bit_take_bit_iff bit_word_of_int_iff take_bit_int_eq_self)

lemma serialNumber_fields:
  assumes "0 \<le> code" "code < 1024" "0 \<le> number" "number < 16"
  shows "updateNumber (serialNumber scope code number) = word_of_int number"
    and "messageCode (serialNumber scope code number) = word_of_int code"
    and "serialScope (serialNumber scope code number) = take_bit 2 (ucast scope)"
proof -
  have c: "\<And>i. bit (word_of_int code :: u16) i \<Longrightarrow> i < 10" using bit_small [of code 10] assms by simp
  have n: "\<And>i. bit (word_of_int number :: u16) i \<Longrightarrow> i < 4" using bit_small [of number 4] assms by simp
  note s = serialNumber_def bit_or_iff bit_push_bit_iff bit_take_bit_iff bit_drop_bit_eq
  show "updateNumber (serialNumber scope code number) = word_of_int number"
    by (rule bit_word_eqI) (use n in \<open>auto simp: updateNumber_def s\<close>)
  show "messageCode (serialNumber scope code number) = word_of_int code"
    by (rule bit_word_eqI) (use n c in \<open>fastforce simp: messageCode_def s\<close>)
  show "serialScope (serialNumber scope code number) = take_bit 2 (ucast scope)"
    by (rule bit_word_eqI) (use n c in \<open>fastforce simp: serialScope_def s\<close>)
qed

lemma word_of_int_inj16:
  assumes "word_of_int a = (word_of_int b :: u16)" "0 \<le> a" "a < 1024" "0 \<le> b" "b < 1024"
  shows "a = b"
proof -
  have "uint (word_of_int c :: u16) = c" if "0 \<le> c" "c < 1024" for c
    using that by (simp add: uint_word_of_int take_bit_int_eq_self)
  then show ?thesis using assms by metis
qed

lemma Allocate_row:
  assumes "dbInv db" "AllocateCBSSerial f k mid scope u db = Inr (s, db1)"
  obtains r where "keyed al_key (db_allocations db1) k = Some r" "inClass mid scope r"
    "s = serialNumber scope (al_code r) (al_number r)"
proof -
  have f: "f = None" using assms(2) by (auto simp: AllocateCBSSerial_def transaction_Inr)
  have inv: "allocInv (db_allocations db)" using assms(1) by (simp add: dbInv_def)
  have k: "keyed al_key (map (\<lambda>x. if al_key x = k then x\<lparr>al_number := n\<rparr> else x) rows) j =
      map_option (\<lambda>x. if al_key x = k then x\<lparr>al_number := n\<rparr> else x) (keyed al_key rows j)" for n rows j
    by (rule keyed_map) simp
  have "\<exists>r. keyed al_key (db_allocations db1) k = Some r \<and> inClass mid scope r \<and>
      s = serialNumber scope (al_code r) (al_number r)"
    using assms(2) unfolding f Allocate_cases [OF inv]
    by (auto simp: Let_def k keyed_append inClass_def dest: keyed_key split: option.splits if_splits)
  then show ?thesis using that by blast
qed

text \<open>C20: Two alerts never share a CBS message code: of two allocations for the same message
  identifier and scope, made at any two moments of the life of the database with any statements in
  between, the message codes are equal exactly when the allocation keys are.\<close>

theorem message_code_identifies_alert:
  assumes "reachableDB db" "AllocateCBSSerial f1 k1 mid scope u1 db = Inr (s1, db1)"
    and "dbStep\<^sup>*\<^sup>* db1 db2" "AllocateCBSSerial f2 k2 mid scope u2 db2 = Inr (s2, db3)"
  shows "messageCode s1 = messageCode s2 \<longleftrightarrow> k1 = k2"
proof -
  have i: "dbInv db" "dbInv db1" using reachable_dbInv [OF assms(1)] dbInv_Allocate assms(2) by blast+
  obtain c1 n1 where s1: "s1 = serialNumber scope c1 n1" "0 \<le> c1" "c1 < 1024" "0 \<le> n1" "n1 < 16"
    and a1: "assigned db1 = (assigned db)(k1 \<mapsto> (uint mid, uint scope, c1))"
    by (rule assigned_Allocate [OF i(1) assms(2)])
  have a2: "dbInv db2 \<and> assigned db2 k1 = Some (uint mid, uint scope, c1)"
    by (rule assigned_steps [OF assms(3) i(2)]) (simp add: a1)
  obtain c2 n2 where s2: "s2 = serialNumber scope c2 n2" "0 \<le> c2" "c2 < 1024" "0 \<le> n2" "n2 < 16"
    and a3: "assigned db3 = (assigned db2)(k2 \<mapsto> (uint mid, uint scope, c2))"
      "assigned db2 k2 = None \<or> assigned db2 k2 = Some (uint mid, uint scope, c2)"
    by (rule assigned_Allocate [OF conjunct1 [OF a2] assms(4)])
  have m: "messageCode s1 = messageCode s2 \<longleftrightarrow> c1 = c2"
    using serialNumber_fields(2) s1 s2 word_of_int_inj16 by metis
  show ?thesis
  proof (cases "k1 = k2")
    case True
    then show ?thesis using a2 a3(2) m by auto
  next
    case False
    have "dbInv db3" using dbInv_Allocate [OF conjunct1 [OF a2] assms(4)] .
    moreover have "assigned db3 k1 = Some (uint mid, uint scope, c1)"
      "assigned db3 k2 = Some (uint mid, uint scope, c2)" using a2 a3(1) False by simp_all
    ultimately show ?thesis using assigned_inj False m by metis
  qed
qed

text \<open>The serial number of an allocation carries the geographical scope in its two top bits; a
  first allocation for a message identifier and scope gets update number 0 and as message code the
  number of allocations made for them before, and it fails exactly when there are 1024 of them.\<close>

theorem allocate_fresh:
  assumes "reachableDB db" "k \<notin> al_key ` set (db_allocations db)"
  shows "case AllocateCBSSerial None k mid scope update db of
      Inl e \<Rightarrow> e = CodesExhausted mid scope \<and>
        length (filter (inClass mid scope) (db_allocations db)) = 1024
    | Inr (s, db') \<Rightarrow> serialScope s = take_bit 2 (ucast scope) \<and> updateNumber s = 0 \<and>
        messageCode s = word_of_nat (length (filter (inClass mid scope) (db_allocations db))) \<and>
        length (filter (inClass mid scope) (db_allocations db)) < 1024"
proof -
  have inv: "allocInv (db_allocations db)" using reachable_dbInv [OF assms(1)] by (simp add: dbInv_def)
  let ?n = "length (filter (inClass mid scope) (db_allocations db))"
  have n: "?n \<le> 1024" using inv by (auto simp: allocInv_def Let_def)
  have "keyed al_key (db_allocations db) k = None" using assms(2) by (simp add: keyed_None)
  then show ?thesis
    unfolding Allocate_cases [OF inv]
    using n serialNumber_fields [of "int ?n" 0 scope] by (simp add: Let_def)
qed

text \<open>An update of an allocated alert succeeds without a new message code: the update number is
  incremented modulo 16 and every other field of the serial number stays.\<close>

theorem allocate_update:
  assumes "reachableDB db" "AllocateCBSSerial f k mid scope u db = Inr (s, db1)"
  shows "case AllocateCBSSerial None k mid scope True db1 of
      Inl e \<Rightarrow> False
    | Inr (s', db2) \<Rightarrow> updateNumber s' = (updateNumber s + 1) mod 16 \<and> messageCode s' = messageCode s \<and>
        serialScope s' = serialScope s"
proof -
  have i: "dbInv db1" using reachable_dbInv [OF assms(1)] dbInv_Allocate assms(2) by blast
  then have inv: "allocInv (db_allocations db1)" by (simp add: dbInv_def)
  obtain r where r: "keyed al_key (db_allocations db1) k = Some r" "inClass mid scope r"
    and s: "s = serialNumber scope (al_code r) (al_number r)"
    by (rule Allocate_row [OF reachable_dbInv [OF assms(1)] assms(2)])
  have m: "r \<in> set (db_allocations db1)" using keyed_key [OF r(1)] by simp
  note c = allocInv_code [OF inv m r(2)]
  have n: "0 \<le> al_number r" "al_number r < 16"
    using inv m by (auto simp: allocInv_def list_all_iff allocRow_def)
  have w: "(word_of_int (and (al_number r + 1) 0x0f) :: u16) = (word_of_int (al_number r) + 1) mod 16"
  proof -
    have "and (x + 1) 0x0f = (x + 1) mod 16" for x :: int
      using take_bit_eq_mask [of 4 "x + 1"] take_bit_eq_mod [of 4 "x + 1"] by (simp add: mask_numeral)
    moreover have "(w :: u16) mod 16 = take_bit 4 w" for w using take_bit_eq_mod [of 4 w] by simp
    moreover have "word_of_int ((al_number r + 1) mod 16) = take_bit 4 (word_of_int (al_number r + 1) :: u16)"
      by (rule bit_word_eqI) (simp add: bit_word_of_int_iff bit_take_bit_iff del: of_int_add flip: take_bit_eq_mod [of 4, simplified])
    ultimately show ?thesis by simp
  qed
  show ?thesis
    unfolding Allocate_cases [OF inv]
    using r c n number_step [of "al_number r"] w
    by (simp add: Let_def s serialNumber_fields)
qed

section \<open>Samples\<close>

definition sampleAlert :: "string \<Rightarrow> string \<Rightarrow> string \<Rightarrow> string \<Rightarrow> Alert" where
  "sampleAlert i typ refs expires =
     \<lparr>Identifier = i, Sender = ''w'', Sent = ''2026-07-01T10:00:00Z'', Status = ''Actual'', MsgType = typ,
      AlertScope = ''Public'', References = refs, Infos = [sampleInfo\<lparr>Expires := expires\<rparr>]\<rparr>"

text \<open>A time of 1 July 2026 in a zone.\<close>

definition sampleTime :: "nat \<Rightarrow> int \<Rightarrow> gotime" where
  "sampleTime h off = \<lparr>t_year = 2026, t_month = 7, t_day = 1, t_hour = h, t_minute = 0, t_second = 0,
     t_nsec = 0, t_offset = off\<rparr>"

lemma sampleTime_ok: "h < 24 \<Longrightarrow> off mod 60 = 0 \<Longrightarrow> \<bar>off\<bar> < 90000 \<Longrightarrow> textTime (sampleTime h off)"
  by (simp add: textTime_def okTime_def sampleTime_def daysIn_def)

lemma sampleTime_utc: "h < 24 \<Longrightarrow> utcTime (sampleTime h 0)"
  by (simp add: utcTime_def okTime_def sampleTime_def daysIn_def)

lemma sampleTime_local:
  "localSeconds (sampleTime h off) < secondsOf (sampleTime k 0) \<longleftrightarrow> h < k"
  "localSeconds (sampleTime h off) = secondsOf (sampleTime k 0) \<longleftrightarrow> h = k"
  by (auto simp: localSeconds_def secondsOf_def sampleTime_def dayNumber_def)

lemma zero_before: "okTime t \<Longrightarrow> 2 \<le> t_year t \<Longrightarrow> zeroInstant < instant t"
proof -
  assume t: "okTime t" "2 \<le> t_year t"
  then have "daysBeforeYear 1 + yearDays 1 \<le> daysBeforeYear (t_year t)" by (intro daysBeforeYear_mono) simp
  then have "731 \<le> daysBeforeYear (t_year t)" by (simp add: daysBeforeYear_def yearDays_def isLeap_def)
  then have "731 \<le> int (dayNumber t)" using dayNumber_eq [of t] t by (simp add: okTime_def)
  moreover have "\<bar>t_offset t\<bar> \<le> 90000" using t by (simp add: okTime_def)
  ultimately have "731 * 86400 - 90000 \<le> secondsOf t" by (simp add: secondsOf_def)
  then show "zeroInstant < instant t" by (simp add: zeroInstant_def instant_def)
qed

lemma zeroTime_zero: "IsZero zeroTime"
  by (simp add: zeroTime_def IsZero_def zeroInstant_def instant_def secondsOf_def dayNumber_def
      daysBeforeYear_def)

lemma expiry_single:
  assumes "Infos a = [i]" "parseRFC3339 (Expires i) = Some t" "2 \<le> t_year t" 
  shows "expiry a = (t, True)"
proof -
  have "Expires i \<noteq> []" using assms(2) parsed_not_blank by fastforce
  moreover have "\<not> IsZero t" using zero_before [OF parseRFC3339_ok [OF assms(2)] assms(3)] by (simp add: IsZero_def)
  ultimately show ?thesis using assms zeroTime_zero by (simp add: expiry_def expiryStep_def Let_def)
qed

lemma expiry_sample:
  assumes "h < 24" "off mod 60 = 0" "\<bar>off\<bar> < 90000"
  shows "expiry (sampleAlert i typ refs (formatRFC3339Nano (sampleTime h off))) = (sampleTime h off, True)"
proof (rule expiry_single)
  show "Infos (sampleAlert i typ refs (formatRFC3339Nano (sampleTime h off))) =
      [sampleInfo\<lparr>Expires := formatRFC3339Nano (sampleTime h off)\<rparr>]"
    by (simp add: sampleAlert_def)
  show "parseRFC3339 (Expires (sampleInfo\<lparr>Expires := formatRFC3339Nano (sampleTime h off)\<rparr>)) =
      Some (sampleTime h off)"
    by (simp add: sampleInfo_def parse_format [OF sampleTime_ok [OF assms]])
qed (simp add: sampleTime_def)

section \<open>Properties\<close>

lemma reachable_emptyDatabase: "reachableDB emptyDatabase"
  by (rule reachableDB.start)

lemma Allocate_empty:
  "AllocateCBSSerial None k mid scope u emptyDatabase = Inr (serialNumber scope 0 0,
     emptyDatabase\<lparr>db_allocations := [\<lparr>al_key = k, al_mid = uint mid, al_scope = uint scope,
       al_code = 0, al_number = 0\<rparr>]\<rparr>)"
  by (simp add: AllocateCBSSerial_def emptyDatabase_def Let_def)

theorem message_code_identifies_alert_witness:
  "messageCode (serialNumber 3 0 0) = messageCode (serialNumber 3 1 0) \<longleftrightarrow> ''a'' = ''b''"
  by (rule message_code_identifies_alert [OF reachable_emptyDatabase Allocate_empty rtranclp.rtrancl_refl,
        of None "''b''" 4370 3 False])
    (simp add: AllocateCBSSerial_def emptyDatabase_def Let_def inClass_def)

theorem allocate_fresh_witness:
  "case AllocateCBSSerial None ''k'' 4370 3 False emptyDatabase of
      Inl e \<Rightarrow> e = CodesExhausted 4370 3 \<and>
        length (filter (inClass 4370 3) (db_allocations emptyDatabase)) = 1024
    | Inr (s, db') \<Rightarrow> serialScope s = take_bit 2 (ucast (3 :: byte)) \<and> updateNumber s = 0 \<and>
        messageCode s = word_of_nat (length (filter (inClass 4370 3) (db_allocations emptyDatabase))) \<and>
        length (filter (inClass 4370 3) (db_allocations emptyDatabase)) < 1024"
  by (rule allocate_fresh [OF reachable_emptyDatabase]) (simp add: emptyDatabase_def)

theorem allocate_update_witness:
  "\<exists>s db1. AllocateCBSSerial None ''k'' 4370 3 False emptyDatabase = Inr (s, db1) \<and>
     (case AllocateCBSSerial None ''k'' 4370 3 True db1 of
        Inl e \<Rightarrow> False
      | Inr (s', db2) \<Rightarrow> updateNumber s' = (updateNumber s + 1) mod 16 \<and> messageCode s' = messageCode s \<and>
          serialScope s' = serialScope s)"
  using allocate_update [OF reachable_emptyDatabase Allocate_empty] Allocate_empty by blast

text \<open>C16: In every state the database can reach, alert and plan identifiers are unique, the audit
  events are numbered 1, 2, 3, ... without a gap, allocation keys are unique, and the message codes
  of one message identifier and scope are 0, 1, 2, ... in the order of their allocation, at most 1024.\<close>

theorem store_invariant:
  assumes "reachableDB db"
  shows "distinct (map row_identifier (db_alerts db)) \<and> distinct (map pl_identifier (db_plans db)) \<and>
    map aud_id (db_audit db) = [1..db_sequence db] \<and> distinct (map al_key (db_allocations db)) \<and>
    (let rows = filter (inClass mid scope) (db_allocations db)
     in length rows \<le> 1024 \<and> map al_code rows = map int [0..<length rows])"
  using reachable_dbInv [OF assms] by (auto simp: dbInv_def auditInv_def allocInv_def Let_def)

theorem store_invariant_witness:
  "\<exists>db. reachableDB db \<and> length (db_allocations db) = 1 \<and>
    map al_code (filter (inClass 4370 3) (db_allocations db)) = map int [0..<length (filter (inClass 4370 3) (db_allocations db))]"
proof -
  let ?db = "emptyDatabase\<lparr>db_allocations := [\<lparr>al_key = ''k'', al_mid = uint (4370::u16), al_scope = uint (3::byte),
    al_code = 0, al_number = 0\<rparr>]\<rparr>"
  have r: "reachableDB ?db"
    by (rule reachableDB.step [OF reachableDB.start dbStep.allocate [OF Allocate_empty]])
  with store_invariant [OF r, of 4370 3] show ?thesis by (auto simp: Let_def intro!: exI [of _ ?db])
qed

text \<open>The row that \<open>Upsert\<close> writes.\<close>

definition upsertedRow :: "Record \<Rightarrow> AlertRow" where
  "upsertedRow r =
     \<lparr>row_identifier = Identifier (rec_Alert r), row_cap = Json (rec_Alert r), row_state = rec_State r,
      row_received = formatRFC3339Nano (UTC (rec_ReceivedAt r)),
      row_expires = (case expiry (rec_Alert r) of (t, ok) \<Rightarrow> if ok then Some (formatRFC3339Nano t) else None)\<rparr>"

definition referenceState :: "Alert \<Rightarrow> string" where
  "referenceState a = (if MsgType a = ''Cancel'' then ''cancelled'' else ''superseded'')"

lemma keyed_after_Upsert:
  assumes "Upsert f t r refs db = Inr db'"
  shows "keyed row_identifier (db_alerts db') i =
    map_option (superseded (referenceState (rec_Alert r)) (set refs))
      (if i = Identifier (rec_Alert r) then Some (upsertedRow r) else keyed row_identifier (db_alerts db) i)"
proof -
  have s: "referenceState a \<noteq> ''active''" for a by (simp add: referenceState_def)
  have "db_alerts db' = foldl (setState (referenceState (rec_Alert r)))
      (upsertRow row_identifier (upsertedRow r) (db_alerts db)) refs"
    using assms by (auto simp: Upsert_def Let_def transaction_Inr referenceState_def upsertedRow_def)
  then show ?thesis
    using keyed_map [of row_identifier "superseded (referenceState (rec_Alert r)) (set refs)"]
    by (simp add: setStates_map [OF s] keyed_upsert) (simp add: upsertedRow_def)
qed

lemma Upsert_total: "\<exists>db'. Upsert None t r refs db = Inr db'"
  by (simp add: Upsert_def Let_def)

lemma Expire_total: "\<exists>ids db'. ExpireAlerts None now db = Inr (ids, db')"
  by (simp add: ExpireAlerts_def Let_def)

lemma expire_lemma:
  assumes "reachableDB db" "ExpireAlerts f now db = Inr (ids, db')"
  shows "ids = map row_identifier (filter (expired (formatRFC3339Nano (UTC now))) (db_alerts db)) \<and>
    db_alerts db' = filter (\<lambda>r. \<not> expired (formatRFC3339Nano (UTC now)) r) (db_alerts db) \<and>
    map aud_alert (db_audit db') = map aud_alert (db_audit db) @ ids \<and>
    db_plans db' = db_plans db \<and> db_allocations db' = db_allocations db"
proof -
  let ?P = "expired (formatRFC3339Nano (UTC now))"
  have d: "distinct (map row_identifier (db_alerts db))"
    using reachable_dbInv [OF assms(1)] by (simp add: dbInv_def)
  have i: "ids = map row_identifier (filter ?P (db_alerts db))"
    and db': "db' = foldl (expireOne (formatRFC3339Nano (UTC now))) db ids"
    using assms(2) by (auto simp: ExpireAlerts_def Let_def transaction_Inr)
  have "filter (\<lambda>r. row_identifier r \<notin> set ids) (db_alerts db) = filter (\<lambda>r. \<not> ?P r) (db_alerts db)"
    using d by (auto simp: i distinct_map intro!: filter_cong dest: inj_onD)
  then show ?thesis using i by (simp add: db' expire_fold)
qed

text \<open>One expiry sweep removes exactly the active or expired alerts whose stored expiry text is not
  after the text of the current time, reports exactly these, writes one audit event for each, and
  leaves plans and serial allocations alone.\<close>

theorem expire_exact:
  assumes "reachableDB db" "ExpireAlerts f now db = Inr (ids, db')"
  shows "ids = map row_identifier (filter (expired (formatRFC3339Nano (UTC now))) (db_alerts db)) \<and>
    db_alerts db' = filter (\<lambda>r. \<not> expired (formatRFC3339Nano (UTC now)) r) (db_alerts db) \<and>
    map aud_alert (db_audit db') = map aud_alert (db_audit db) @ ids \<and>
    db_plans db' = db_plans db \<and> db_allocations db' = db_allocations db"
  by (rule expire_lemma [OF assms])

definition sampleRecord :: "string \<Rightarrow> Record" where
  "sampleRecord expires = \<lparr>rec_Alert = sampleAlert ''a'' ''Alert'' [] expires,
     rec_ReceivedAt = sampleTime 10 0, rec_State = ''active''\<rparr>"

theorem expire_exact_witness:
  "\<exists>db ids db'. ExpireAlerts None (sampleTime 13 0) db = Inr (ids, db') \<and> length (db_alerts db) = 1 \<and>
    ids = map row_identifier (filter (expired (formatRFC3339Nano (UTC (sampleTime 13 0)))) (db_alerts db)) \<and>
    map aud_alert (db_audit db') = map aud_alert (db_audit db) @ ids"
proof -
  let ?r = "sampleRecord (formatRFC3339Nano (sampleTime 12 0))"
  obtain db where u: "Upsert None (sampleTime 10 0) ?r [] emptyDatabase = Inr db" using Upsert_total by blast
  obtain ids db' where e: "ExpireAlerts None (sampleTime 13 0) db = Inr (ids, db')" using Expire_total by blast
  have "length (db_alerts db) = 1" using u by (auto simp: Upsert_def Let_def emptyDatabase_def)
  with expire_exact [OF reachableDB.step [OF reachableDB.start dbStep.upsert [OF u]] e] e show ?thesis by blast
qed

lemma expired_after_Upsert:
  assumes "reachableDB db" "Upsert f t r refs db = Inr db1" "ExpireAlerts g now db1 = Inr (ids, db2)"
    and "rec_State r = ''active''" "Identifier (rec_Alert r) \<notin> set refs" "expiry (rec_Alert r) = (e, True)"
  shows "Identifier (rec_Alert r) \<in> set ids \<longleftrightarrow> textLE (formatRFC3339Nano e) (formatRFC3339Nano (UTC now))"
proof -
  let ?i = "Identifier (rec_Alert r)" and ?now = "formatRFC3339Nano (UTC now)"
  have r1: "reachableDB db1" by (rule reachableDB.step [OF assms(1) dbStep.upsert [OF assms(2)]])
  then have d: "distinct (map row_identifier (db_alerts db1))" using reachable_dbInv by (auto simp: dbInv_def)
  obtain row where row: "keyed row_identifier (db_alerts db1) ?i = Some row"
    "row_state row = ''active''" "row_expires row = Some (formatRFC3339Nano e)"
    using keyed_after_Upsert [OF assms(2), of ?i] assms(4-6) by (auto simp: superseded_def upsertedRow_def)
  have ids: "ids = map row_identifier (filter (expired ?now) (db_alerts db1))"
    using expire_lemma [OF r1 assms(3)] by simp
  have "?i \<in> set ids \<longleftrightarrow> expired ?now row"
  proof
    assume "?i \<in> set ids"
    then obtain x where x: "x \<in> set (db_alerts db1)" "expired ?now x" "row_identifier x = ?i" by (auto simp: ids)
    then have "keyed row_identifier (db_alerts db1) ?i = Some x" using keyed_in [OF d x(1)] by simp
    with row x show "expired ?now row" by simp
  next
    assume "expired ?now row"
    with keyed_key [OF row(1)] show "?i \<in> set ids" by (force simp: ids)
  qed
  with row show ?thesis by (simp add: expired_def)
qed



text \<open>An alert that expires at 12:00 in a zone five hours behind UTC (17:00 UTC) is dropped by the
  sweep of 13:00 UTC, four hours early; one that expires at 12:00 five hours ahead of UTC (07:00 UTC)
  is still active after the sweep of 11:00 UTC, four hours late.\<close>

theorem expiry_wrong_by_offset:
  "(case Upsert None (sampleTime 10 0) \<lparr>rec_Alert = sampleAlert ''a'' ''Alert'' [] (formatRFC3339Nano
        (sampleTime 12 (- 18000))), rec_ReceivedAt = sampleTime 10 0, rec_State = ''active''\<rparr> [] emptyDatabase of
      Inl _ \<Rightarrow> False | Inr db \<Rightarrow> (case ExpireAlerts None (sampleTime 13 0) db of
        Inl _ \<Rightarrow> False | Inr (ids, _) \<Rightarrow> ids = [''a''])) \<and>
   instant (sampleTime 13 0) + 4 * 3600 * 1000000000 = instant (sampleTime 12 (- 18000)) \<and>
   (case Upsert None (sampleTime 6 0) \<lparr>rec_Alert = sampleAlert ''a'' ''Alert'' [] (formatRFC3339Nano
        (sampleTime 12 18000)), rec_ReceivedAt = sampleTime 6 0, rec_State = ''active''\<rparr> [] emptyDatabase of
      Inl _ \<Rightarrow> False | Inr db \<Rightarrow> (case ExpireAlerts None (sampleTime 11 0) db of
        Inl _ \<Rightarrow> False | Inr (ids, _) \<Rightarrow> ids = [])) \<and>
   instant (sampleTime 11 0) = instant (sampleTime 12 18000) + 4 * 3600 * 1000000000"
proof -
  have z: "(12::nat) < 24" "(- 18000) mod 60 = (0::int)" "\<bar>- 18000\<bar> < (90000::int)"
    "(18000::int) mod 60 = 0" "\<bar>18000\<bar> < (90000::int)" by simp_all
  note e = expiry_sample [OF z(1,2,3)] expiry_sample [OF z(1,4,5)]
  have a: "Identifier (sampleAlert i ty refs x) = i" "MsgType (sampleAlert i ty refs x) = ty" for i ty refs x
    by (simp_all add: sampleAlert_def)
  have u: "UTC (sampleTime h 0) = sampleTime h 0" if "h < 24" for h by (rule UTC_id [OF sampleTime_utc [OF that]])
  have t: "textLE (formatRFC3339Nano (sampleTime 12 off)) (formatRFC3339Nano (sampleTime k 0)) \<longleftrightarrow>
      12 < k \<or> (12 = k \<and> (off \<noteq> 0 \<or> t_nsec (sampleTime k 0) = 0))"
    if "off mod 60 = 0" "\<bar>off\<bar> < 90000" "k < 24" for off k
    using textLE_format [of "sampleTime 12 off" "sampleTime k 0"] sampleTime_ok [OF z(1) that(1,2)]
      sampleTime_utc [OF that(3)] sampleTime_local
    by (simp add: textTime_def) (simp add: sampleTime_def)
  note t1 = t [OF z(2,3), of 13] and t2 = t [OF z(4,5), of 11]
  have i: "instant (sampleTime 13 0) + 4 * 3600 * 1000000000 = instant (sampleTime 12 (- 18000))"
    "instant (sampleTime 11 0) = instant (sampleTime 12 18000) + 4 * 3600 * 1000000000"
    by (simp_all add: instant_def secondsOf_def sampleTime_def dayNumber_def)
  show ?thesis
    using t1 t2 unfolding i
    by (simp add: Upsert_def ExpireAlerts_def Let_def e a u emptyDatabase_def expired_def)
qed

end
