(* ===== verification/Inventory_Plmn.thy ===== *)
theory Inventory_Plmn
  imports CBC_Prelude
begin

text \<open>The network identity of \<open>internal/inventory/model.go\<close>, shared by the preparer and the inventory.\<close>

record InventoryPLMN =
  plmn_MCC :: string
  plmn_MNC :: string
  plmn_MNCLength :: int

end
