(* ===== verification/Cbs_Preparer.thy ===== *)
theory Cbs_Preparer
  imports Store_Sqlite Inventory_Plmn
begin

text \<open>
  \<open>internal/cbs/cbs.go\<close>: from a CAP alert to the CBS plan that is broadcast and stored. The
  repository, the cell selector and the geocode resolver are interfaces of the package, so they are
  functions here (\<open>None\<close>: not wired). The conversions of CAP polygons and circles to GeoJSON compute
  with floating-point numbers and are fields too, as is \<open>strings.ToUpper\<close> outside ASCII.
\<close>

section \<open>Preparer\<close>

datatype prepare_error =
    TargetPLMN string
  | ShapeError string string
  | SelectionError string string
  | GeocodeError string string string
  | MixedTarget
  | NoTarget
  | InInfo nat prepare_error
  | PrepareIdentifier identifier_error
  | PrepareEncode encode_error
  | PrepareStore store_error

record Preparer =
  p_cfg :: CBSConfig
  p_plmn :: string
  p_selector :: "(InventoryPLMN \<Rightarrow> string \<Rightarrow> string + u32 list) option"
  p_geocodes :: "(string \<Rightarrow> string \<Rightarrow> string + u32 list) option"
  p_polygonGeoJSON :: "string \<Rightarrow> string + string"
  p_circleGeoJSON :: "string \<Rightarrow> string + string"
  p_upperUnicode :: "string \<Rightarrow> string"

section \<open>Targets\<close>

text \<open>\<open>if !seen[v] { xs, seen[v] = append(xs, v), true }\<close>: \<open>seen\<close> is the set of \<open>xs\<close>.\<close>

definition addUnique :: "string list \<Rightarrow> string \<Rightarrow> string list" where
  "addUnique xs v = (if v \<in> set xs then xs else xs @ [v])"

definition isCellName :: "string \<Rightarrow> bool" where
  "isCellName n \<longleftrightarrow> lowerIs n ''cell'' \<or> lowerIs n ''cell_id'' \<or> lowerIs n ''cgi'' \<or> lowerIs n ''ecgi'' \<or>
     lowerIs n ''nci'' \<or> lowerIs n ''nr-cgi''"

definition isTrackingName :: "string \<Rightarrow> bool" where
  "isTrackingName n \<longleftrightarrow> lowerIs n ''tac'' \<or> lowerIs n ''tai'' \<or> lowerIs n ''tracking_area'' \<or>
     lowerIs n ''tracking-area''"

definition addGeocode :: "string list \<times> string list \<Rightarrow> Geocode \<Rightarrow> string list \<times> string list" where
  "addGeocode acc g =
     (case acc of (cells, tais) \<Rightarrow>
       let n = TrimSpace (g_ValueName g); v = TrimSpace (g_Value g) in
       if v = [] then (cells, tais)
       else if isCellName n then (addUnique cells v, tais)
       else if isTrackingName n then (cells, addUnique tais v)
       else (cells, tais))"

definition uniqueGeocodes :: "Area list \<Rightarrow> string list \<times> string list" where
  "uniqueGeocodes areas = foldl addGeocode ([], []) (concat (map Geocodes areas))"

definition mergeUnique :: "string list \<Rightarrow> string list \<Rightarrow> string list" where
  "mergeUnique a b = (if length b = 0 then a else foldl addUnique a b)"

definition parsePLMN :: "string \<Rightarrow> prepare_error + InventoryPLMN" where
  "parsePLMN s =
     (let parts = SplitN2 s (CHR ''-'') in
      failIf (length parts \<noteq> 2 \<or> length (parts ! 0) \<noteq> 3 \<or>
          (length (parts ! 1) \<noteq> 2 \<and> length (parts ! 1) \<noteq> 3)) (TargetPLMN s) (
      Inr \<lparr>plmn_MCC = parts ! 0, plmn_MNC = parts ! 1, plmn_MNCLength = int (length (parts ! 1))\<rparr>))"

text \<open>The cells of one shape; the PLMN is parsed at the first shape and again with the same result.\<close>

definition addShape :: "Preparer \<Rightarrow> (InventoryPLMN \<Rightarrow> string \<Rightarrow> string + u32 list) \<Rightarrow> string \<Rightarrow>
    (string \<Rightarrow> string + string) \<Rightarrow> string list \<Rightarrow> string \<Rightarrow> prepare_error + string list" where
  "addShape p select label toGeoJSON cells shape =
     andThen (parsePLMN (p_plmn p)) (\<lambda>plmn.
     andThen (wrapErr (ShapeError label) (toGeoJSON shape)) (\<lambda>geoJSON.
     andThen (wrapErr (SelectionError label) (select plmn geoJSON)) (\<lambda>ecis.
     Inr (foldl addUnique cells (map (\<lambda>eci. decimal (unat eci)) ecis)))))"

definition shapeCells :: "Preparer \<Rightarrow> Area list \<Rightarrow> string \<Rightarrow> (Area \<Rightarrow> string list) \<Rightarrow>
    (string \<Rightarrow> string + string) \<Rightarrow> prepare_error + string list" where
  "shapeCells p areas label shapesOf toGeoJSON =
     (case p_selector p of None \<Rightarrow> Inr []
      | Some select \<Rightarrow> foldE (addShape p select label toGeoJSON) [] (concat (map shapesOf areas)))"

definition polygonCells :: "Preparer \<Rightarrow> Area list \<Rightarrow> prepare_error + string list" where
  "polygonCells p areas = shapeCells p areas ''polygon'' Polygons (p_polygonGeoJSON p)"

definition circleCells :: "Preparer \<Rightarrow> Area list \<Rightarrow> prepare_error + string list" where
  "circleCells p areas = shapeCells p areas ''circle'' Circles (p_circleGeoJSON p)"

definition addNamed :: "Preparer \<Rightarrow> (string \<Rightarrow> string \<Rightarrow> string + u32 list) \<Rightarrow> string list \<Rightarrow> Geocode \<Rightarrow>
    prepare_error + string list" where
  "addNamed p resolve cells g =
     (let n = ToUpper (p_upperUnicode p) (TrimSpace (g_ValueName g)); v = TrimSpace (g_Value g) in
      if n = [] then Inr cells
      else if v = [] then Inr cells
      else andThen (wrapErr (GeocodeError n v) (resolve n v)) (\<lambda>ecis.
           Inr (foldl addUnique cells (map (\<lambda>eci. decimal (unat eci)) ecis))))"

definition namedGeocodeCells :: "Preparer \<Rightarrow> Area list \<Rightarrow> prepare_error + string list" where
  "namedGeocodeCells p areas =
     (case p_geocodes p of None \<Rightarrow> Inr []
      | Some resolve \<Rightarrow> foldE (addNamed p resolve) [] (concat (map Geocodes areas)))"

definition target :: "Preparer \<Rightarrow> Area list \<Rightarrow> prepare_error + Target" where
  "target p areas =
     (case uniqueGeocodes areas of (cells, tais) \<Rightarrow>
       andThen (polygonCells p areas) (\<lambda>polyCells.
       andThen (circleCells p areas) (\<lambda>circCells.
       andThen (namedGeocodeCells p areas) (\<lambda>namedCells.
       let cells = mergeUnique (mergeUnique (mergeUnique cells polyCells) circCells) namedCells in
       failIf (0 < length cells \<and> 0 < length tais) MixedTarget (
       if 0 < length cells then Inr \<lparr>Scope = CellWide, Cells = cells, TrackingAreas = []\<rparr>
       else if 0 < length tais then Inr \<lparr>Scope = TrackingAreaWide, Cells = [], TrackingAreas = tais\<rparr>
       else if AllowPLMNWide (p_cfg p) then Inr \<lparr>Scope = PLMNWide, Cells = [], TrackingAreas = []\<rparr>
       else Inl NoTarget)))))"

section \<open>Plans\<close>

definition alertText :: "Info \<Rightarrow> string" where
  "alertText i =
     (let parts = filter (\<lambda>v. v \<noteq> []) (map TrimSpace [Headline i, Description i, Instruction i]) in
      if length parts = 0 then TrimSpace (Event i) else Join parts ''\<newline>'')"

definition hexDigit :: "nat \<Rightarrow> char" where
  "hexDigit d = (if d < 10 then char_of (48 + d) else char_of (87 + d))"

text \<open>\<open>fmt.Sprintf("%s/%04x/%d", key, messageID, scope)\<close>.\<close>

definition hex4 :: "u16 \<Rightarrow> string" where
  "hex4 w = map hexDigit [unat w div 4096, unat w div 256 mod 16, unat w div 16 mod 16, unat w mod 16]"

definition allocationKeyOf :: "string \<Rightarrow> u16 \<Rightarrow> byte \<Rightarrow> string" where
  "allocationKeyOf key mid scope = key @ ''/'' @ hex4 mid @ ''/'' @ decimal (unat scope)"

text \<open>The interface \<open>Repository\<close> over its state.\<close>

record 'db Repository =
  rp_Allocate :: "string \<Rightarrow> u16 \<Rightarrow> byte \<Rightarrow> bool \<Rightarrow> 'db \<Rightarrow> store_error + (u16 \<times> 'db)"
  rp_Save :: "string \<Rightarrow> Plan blob \<Rightarrow> 'db \<Rightarrow> store_error + 'db"

text \<open>
  One round of the loop of \<open>Prepare\<close>: an allocation made before a later error stays, so the state of
  the repository comes back with the error too.
\<close>

definition serialFor :: "'db Repository \<Rightarrow> (string \<times> u16) list \<Rightarrow> string \<Rightarrow> u16 \<Rightarrow> byte \<Rightarrow> bool \<Rightarrow> 'db \<Rightarrow>
    (prepare_error + (u16 \<times> (string \<times> u16) list)) \<times> 'db" where
  "serialFor repo serials key mid scope update db =
     (case map_of serials key of
        Some serial \<Rightarrow> (Inr (serial, serials), db)
      | None \<Rightarrow>
          (case rp_Allocate repo key mid scope update db of
             Inl e \<Rightarrow> (Inl (PrepareStore e), db)
           | Inr (serial, db) \<Rightarrow> (Inr (serial, (key, serial) # serials), db)))"

definition isUpdate :: "Alert \<Rightarrow> bool" where
  "isUpdate a \<longleftrightarrow> MsgType a = ''Update'' \<and> 0 < length (ReferenceIDs a)"

definition planKey :: "Alert \<Rightarrow> string" where
  "planKey a = (if isUpdate a then ReferenceIDs a ! 0 else Identifier a)"

definition prepareInfo :: "Preparer \<Rightarrow> 'db Repository \<Rightarrow> Alert \<Rightarrow> nat \<Rightarrow> Info \<Rightarrow> (string \<times> u16) list \<Rightarrow> 'db \<Rightarrow>
    (prepare_error + (Message \<times> (string \<times> u16) list)) \<times> 'db" where
  "prepareInfo p repo a i info serials db =
     (case target p (Areas info) of
        Inl e \<Rightarrow> (Inl (InInfo i e), db)
      | Inr tgt \<Rightarrow>
     (case messageIdentifier (p_cfg p) (Status a) info of
        Inl e \<Rightarrow> (Inl (InInfo i (PrepareIdentifier e)), db)
      | Inr mid \<Rightarrow>
     (case serialFor repo serials (allocationKeyOf (planKey a) mid (Scope tgt)) mid (Scope tgt) (isUpdate a) db of
        (Inl e, db) \<Rightarrow> (Inl e, db)
      | (Inr (serial, serials), db) \<Rightarrow>
     (case Encode (alertText info) (Language info) of
        Inl e \<Rightarrow> (Inl (InInfo i (PrepareEncode e)), db)
      | Inr (pages, d, enc) \<Rightarrow>
          (Inr (\<lparr>InfoIndex = i, m_MessageIdentifier = mid, m_SerialNumber = serial, DCS = d, Encoding = enc,
             m_Target = tgt, m_Pages = pages\<rparr>, serials), db)))))"

fun prepareInfos :: "Preparer \<Rightarrow> 'db Repository \<Rightarrow> Alert \<Rightarrow> nat \<Rightarrow> Info list \<Rightarrow> (string \<times> u16) list \<Rightarrow> 'db \<Rightarrow>
    (prepare_error + Message list) \<times> 'db" where
  "prepareInfos p repo a i [] serials db = (Inr [], db)"
| "prepareInfos p repo a i (info # infos) serials db =
     (case prepareInfo p repo a i info serials db of
        (Inl e, db) \<Rightarrow> (Inl e, db)
      | (Inr (m, serials), db) \<Rightarrow>
          (case prepareInfos p repo a (i + 1) infos serials db of
             (Inl e, db) \<Rightarrow> (Inl e, db)
           | (Inr ms, db) \<Rightarrow> (Inr (m # ms), db)))"

definition Prepare :: "Preparer \<Rightarrow> 'db Repository \<Rightarrow> Alert \<Rightarrow> 'db \<Rightarrow> (prepare_error + Plan) \<times> 'db" where
  "Prepare p repo a db =
     (if MsgType a = ''Cancel'' then (Inr \<lparr>AlertIdentifier = Identifier a, Messages = []\<rparr>, db)
      else case prepareInfos p repo a 0 (Infos a) [] db of
        (Inl e, db) \<Rightarrow> (Inl e, db)
      | (Inr ms, db) \<Rightarrow>
          (let plan = \<lparr>AlertIdentifier = Identifier a, Messages = ms\<rparr> in
           case rp_Save repo (Identifier a) (Json plan) db of
             Inl e \<Rightarrow> (Inl (PrepareStore e), db)
           | Inr db \<Rightarrow> (Inr plan, db)))"

definition PublishPrepared :: "Preparer \<Rightarrow> 'db Repository \<Rightarrow> Alert \<Rightarrow> 'db \<Rightarrow> (prepare_error + unit) \<times> 'db" where
  "PublishPrepared p repo a db =
     (case Prepare p repo a db of (Inl e, db) \<Rightarrow> (Inl e, db) | (Inr _, db) \<Rightarrow> (Inr (), db))"

section \<open>Targets are what the alert names\<close>

lemma set_addUnique [simp]: "set (addUnique xs v) = insert v (set xs)"
  by (auto simp: addUnique_def)

lemma distinct_addUnique [simp]: "distinct (addUnique xs v) \<longleftrightarrow> distinct xs"
  by (auto simp: addUnique_def)

lemma addUniques [simp]:
  "set (foldl addUnique xs vs) = set xs \<union> set vs" "distinct (foldl addUnique xs vs) \<longleftrightarrow> distinct xs"
  by (induction vs arbitrary: xs) auto

lemma mergeUnique_props [simp]:
  "set (mergeUnique xs ys) = set xs \<union> set ys" "distinct (mergeUnique xs ys) \<longleftrightarrow> distinct xs"
  by (auto simp: mergeUnique_def)

text \<open>The values of the geocodes with a recognised name.\<close>

definition geocodeValues :: "(string \<Rightarrow> bool) \<Rightarrow> Area list \<Rightarrow> string set" where
  "geocodeValues named areas =
     (\<lambda>g. TrimSpace (g_Value g)) ` {g \<in> set (concat (map Geocodes areas)).
        TrimSpace (g_Value g) \<noteq> [] \<and> named (TrimSpace (g_ValueName g))}"

definition trackingOnly :: "string \<Rightarrow> bool" where
  "trackingOnly n \<longleftrightarrow> isTrackingName n \<and> \<not> isCellName n"

lemma addGeocodes:
  "set (fst (foldl addGeocode acc gs)) = set (fst acc) \<union> (\<lambda>g. TrimSpace (g_Value g)) ` {g \<in> set gs.
      TrimSpace (g_Value g) \<noteq> [] \<and> isCellName (TrimSpace (g_ValueName g))} \<and>
   set (snd (foldl addGeocode acc gs)) = set (snd acc) \<union> (\<lambda>g. TrimSpace (g_Value g)) ` {g \<in> set gs.
      TrimSpace (g_Value g) \<noteq> [] \<and> trackingOnly (TrimSpace (g_ValueName g))} \<and>
   (distinct (fst acc) \<longrightarrow> distinct (fst (foldl addGeocode acc gs))) \<and>
   (distinct (snd acc) \<longrightarrow> distinct (snd (foldl addGeocode acc gs)))"
proof (induction gs arbitrary: acc)
  case (Cons g gs)
  obtain c t where acc: "acc = (c, t)" by fastforce
  show ?case
    using Cons.IH [of "addGeocode acc g"]
    by (auto simp: acc addGeocode_def Let_def trackingOnly_def split: if_splits)
qed auto

lemma uniqueGeocodes_props:
  assumes "uniqueGeocodes areas = (cells, tais)"
  shows "set cells = geocodeValues isCellName areas" "set tais = geocodeValues trackingOnly areas"
    "distinct cells" "distinct tais"
  using addGeocodes [of "([], [])" "concat (map Geocodes areas)"] assms
  unfolding uniqueGeocodes_def geocodeValues_def by auto

text \<open>The decimal cell identities that a selector or resolver returns for the items of an alert.\<close>

definition resolvedCells :: "('a \<Rightarrow> 'e + u32 list) \<Rightarrow> 'a list \<Rightarrow> string set" where
  "resolvedCells f xs = (\<Union>x \<in> set xs. case f x of Inl _ \<Rightarrow> {} | Inr ecis \<Rightarrow> (\<lambda>eci. decimal (unat eci)) ` set ecis)"

lemma foldE_cells:
  assumes "foldE step cells xs = Inr out"
    and "\<And>cells x cells'. step cells x = Inr cells' \<Longrightarrow>
      set cells' = set cells \<union> resolvedCells f [x] \<and> (distinct cells \<longrightarrow> distinct cells')"
  shows "set out = set cells \<union> resolvedCells f xs \<and> (distinct cells \<longrightarrow> distinct out)"
  using assms(1)
proof (induction xs arbitrary: cells)
  case Nil
  then show ?case by (simp add: resolvedCells_def)
next
  case (Cons x xs)
  then obtain c where c: "step cells x = Inr c" "foldE step c xs = Inr out" by (auto simp: andThen_eq_Inr)
  from Cons.IH [OF c(2)] assms(2) [OF c(1)] show ?case by (auto simp: resolvedCells_def)
qed

definition shapeQuery :: "Preparer \<Rightarrow> (string \<Rightarrow> string + string) \<Rightarrow> string \<Rightarrow> prepare_error + u32 list" where
  "shapeQuery p toGeoJSON shape =
     (case p_selector p of None \<Rightarrow> Inr []
      | Some select \<Rightarrow> andThen (parsePLMN (p_plmn p)) (\<lambda>plmn.
          andThen (wrapErr (ShapeError []) (toGeoJSON shape)) (\<lambda>geoJSON.
          wrapErr (SelectionError []) (select plmn geoJSON))))"

definition namedQuery :: "Preparer \<Rightarrow> Geocode \<Rightarrow> string + u32 list" where
  "namedQuery p g =
     (case p_geocodes p of None \<Rightarrow> Inr []
      | Some resolve \<Rightarrow>
          (let n = ToUpper (p_upperUnicode p) (TrimSpace (g_ValueName g)); v = TrimSpace (g_Value g)
           in if n = [] \<or> v = [] then Inr [] else resolve n v))"

lemma shapeCells_props:
  assumes "shapeCells p areas label shapesOf toGeoJSON = Inr out"
  shows "set out = resolvedCells (shapeQuery p toGeoJSON) (concat (map shapesOf areas))" "distinct out"
proof -
  have "set out = resolvedCells (shapeQuery p toGeoJSON) (concat (map shapesOf areas)) \<and> distinct out"
  proof (cases "p_selector p")
    case None
    then show ?thesis using assms by (auto simp: shapeCells_def resolvedCells_def shapeQuery_def)
  next
    case (Some select)
    then have "foldE (addShape p select label toGeoJSON) [] (concat (map shapesOf areas)) = Inr out"
      using assms by (simp add: shapeCells_def)
    moreover have "set cells' = set cells \<union> resolvedCells (shapeQuery p toGeoJSON) [x] \<and>
        (distinct cells \<longrightarrow> distinct cells')"
      if "addShape p select label toGeoJSON cells x = Inr cells'" for cells x cells'
      using that Some by (auto simp: addShape_def andThen_eq_Inr resolvedCells_def shapeQuery_def)
    ultimately show ?thesis using foldE_cells [of _ "[]" _ out "shapeQuery p toGeoJSON"] by fastforce
  qed
  then show "set out = resolvedCells (shapeQuery p toGeoJSON) (concat (map shapesOf areas))" "distinct out"
    by auto
qed

lemma namedGeocodeCells_props:
  assumes "namedGeocodeCells p areas = Inr out"
  shows "set out = resolvedCells (namedQuery p) (concat (map Geocodes areas))"
proof (cases "p_geocodes p")
  case None
  then show ?thesis using assms by (auto simp: namedGeocodeCells_def resolvedCells_def namedQuery_def)
next
  case (Some resolve)
  then have "foldE (addNamed p resolve) [] (concat (map Geocodes areas)) = Inr out"
    using assms by (simp add: namedGeocodeCells_def)
  moreover have "set cells' = set cells \<union> resolvedCells (namedQuery p) [g] \<and> (distinct cells \<longrightarrow> distinct cells')"
    if "addNamed p resolve cells g = Inr cells'" for cells g cells'
    using that Some
    by (auto simp: addNamed_def Let_def andThen_eq_Inr resolvedCells_def namedQuery_def split: if_splits)
  ultimately show ?thesis using foldE_cells [of _ "[]" _ out "namedQuery p"] by fastforce
qed

text \<open>All the cells an alert names, whichever way.\<close>

definition namedCells :: "Preparer \<Rightarrow> Area list \<Rightarrow> string set" where
  "namedCells p areas = geocodeValues isCellName areas \<union>
     resolvedCells (shapeQuery p (p_polygonGeoJSON p)) (concat (map Polygons areas)) \<union>
     resolvedCells (shapeQuery p (p_circleGeoJSON p)) (concat (map Circles areas)) \<union>
     resolvedCells (namedQuery p) (concat (map Geocodes areas))"

lemma target_lemma:
  "case target p areas of
     Inl e \<Rightarrow> True
   | Inr t \<Rightarrow> distinct (Cells t) \<and> distinct (TrackingAreas t) \<and>
       (if namedCells p areas \<noteq> {} then Scope t = CellWide \<and> set (Cells t) = namedCells p areas \<and>
          geocodeValues trackingOnly areas = {}
        else if geocodeValues trackingOnly areas \<noteq> {} then Scope t = TrackingAreaWide \<and>
          set (TrackingAreas t) = geocodeValues trackingOnly areas \<and> Cells t = []
        else Scope t = PLMNWide \<and> AllowPLMNWide (p_cfg p) \<and> Cells t = [] \<and> TrackingAreas t = [])"
proof (cases "target p areas")
  case (Inr t)
  obtain gc tais where g: "uniqueGeocodes areas = (gc, tais)" by fastforce
  from Inr obtain pc cc nc where c: "polygonCells p areas = Inr pc" "circleCells p areas = Inr cc"
      "namedGeocodeCells p areas = Inr nc"
    by (auto simp: target_def g andThen_eq_Inr)
  define cells where "cells = mergeUnique (mergeUnique (mergeUnique gc pc) cc) nc"
  have t: "failIf (0 < length cells \<and> 0 < length tais) MixedTarget (
       if 0 < length cells then Inr \<lparr>Scope = CellWide, Cells = cells, TrackingAreas = []\<rparr>
       else if 0 < length tais then Inr \<lparr>Scope = TrackingAreaWide, Cells = [], TrackingAreas = tais\<rparr>
       else if AllowPLMNWide (p_cfg p) then Inr \<lparr>Scope = PLMNWide, Cells = [], TrackingAreas = []\<rparr>
       else Inl NoTarget) = Inr t"
    using Inr unfolding target_def g prod.case c andThen_simps Let_def cells_def by simp
  have s: "set cells = namedCells p areas" "distinct cells"
    using uniqueGeocodes_props [OF g] shapeCells_props(1) [OF c(1) [unfolded polygonCells_def]]
      shapeCells_props(1) [OF c(2) [unfolded circleCells_def]] namedGeocodeCells_props [OF c(3)]
    by (auto simp: namedCells_def cells_def)
  have e: "namedCells p areas \<noteq> {} \<longleftrightarrow> 0 < length cells" "geocodeValues trackingOnly areas \<noteq> {} \<longleftrightarrow> 0 < length tais"
    using s uniqueGeocodes_props(2) [OF g] by (auto simp flip: s(1))
  show ?thesis
    unfolding Inr sum.case e using t s uniqueGeocodes_props(2,4) [OF g] e
    by (auto split: if_splits)
qed simp


section \<open>Allocation keys\<close>

lemma hexDigit_inj: "a < 16 \<Longrightarrow> b < 16 \<Longrightarrow> hexDigit a = hexDigit b \<Longrightarrow> a = b"
proof -
  assume a: "a < 16" "b < 16" "hexDigit a = hexDigit b"
  have "(of_char (hexDigit d) :: nat) = (if d < 10 then 48 + d else 87 + d)" if "d < 16" for d
    using that by (simp add: hexDigit_def)
  then have "(if a < 10 then 48 + a else 87 + a) = (if b < 10 then 48 + b else 87 + b)"
    using a by metis
  then show ?thesis using a(1,2) by (simp split: if_splits)
qed

lemma hex4_inj:
  assumes "hex4 a = hex4 b"
  shows "a = b"
proof -
  have d: "unat w = 4096 * (unat w div 4096) + 256 * (unat w div 256 mod 16) + 16 * (unat w div 16 mod 16) + unat w mod 16"
    "unat w div 4096 < 16" for w :: u16
  proof -
    have "unat w < 65536" using unsigned_less [of w] by simp
    then show "unat w div 4096 < 16" by (simp add: less_mult_imp_div_less)
    have q: "n = 16 * (n div 16) + n mod 16" for n :: nat by simp
    have e: "unat w div 256 = unat w div 16 div 16" "unat w div 4096 = unat w div 256 div 16"
      by (simp_all flip: div_mult2_eq)
    show "unat w = 4096 * (unat w div 4096) + 256 * (unat w div 256 mod 16) + 16 * (unat w div 16 mod 16) + unat w mod 16"
      using q [of "unat w"] q [of "unat w div 16"] q [of "unat w div 256"] e by linarith
  qed
  have m: "n mod 16 < (16::nat)" for n by simp
  from assms have "unat a div 4096 = unat b div 4096" "unat a div 256 mod 16 = unat b div 256 mod 16"
      "unat a div 16 mod 16 = unat b div 16 mod 16" "unat a mod 16 = unat b mod 16"
    unfolding hex4_def list.map list.inject
    by (auto intro: hexDigit_inj [OF d(2) d(2)] hexDigit_inj [OF m m])
  then have "unat a = unat b" using d(1) [of a] d(1) [of b] by simp
  then show ?thesis by (simp add: word_unat_eq_iff)
qed

lemma length_hex4 [simp]: "length (hex4 w) = 4"
  by (simp add: hex4_def)

lemma allocationKey_inj: "allocationKeyOf k m s = allocationKeyOf k m' s' \<longleftrightarrow> m = m' \<and> s = s'"
  by (auto simp: allocationKeyOf_def word_unat_eq_iff [of s] dest!: hex4_inj decimal_inj)

lemma allocationKey_inj_key: "allocationKeyOf j m s = allocationKeyOf k m s \<longleftrightarrow> j = k"
  by (simp add: allocationKeyOf_def)

section \<open>The contract of a repository\<close>

text \<open>
  What \<open>Prepare\<close> relies on: the assignments of message codes to allocation keys. An allocation
  answers with the code of its key, which no later operation changes, and no two keys have the same
  code for the same message identifier and scope.
\<close>

locale serial_repository =
  fixes repo :: "'db Repository"
    and codes :: "'db \<Rightarrow> string \<Rightarrow> (int \<times> int \<times> int) option"
    and okdb :: "'db \<Rightarrow> bool"
  assumes allocate: "okdb db \<Longrightarrow> rp_Allocate repo k mid scope update db = Inr (serial, db') \<Longrightarrow>
      okdb db' \<and> (\<exists>c n. serial = serialNumber scope c n \<and> 0 \<le> c \<and> c < 1024 \<and> 0 \<le> n \<and> n < 16 \<and>
        codes db' = (codes db)(k \<mapsto> (uint mid, uint scope, c)) \<and>
        (codes db k = None \<or> codes db k = Some (uint mid, uint scope, c)))"
    and save: "okdb db \<Longrightarrow> rp_Save repo i plan db = Inr db' \<Longrightarrow> okdb db' \<and> codes db' = codes db"
    and codes_inj: "okdb db \<Longrightarrow> codes db j = Some v \<Longrightarrow> codes db k = Some v \<Longrightarrow> j = k"

text \<open>A serial number that the repository has assigned to a key.\<close>

definition assignedSerial :: "('db \<Rightarrow> string \<Rightarrow> (int \<times> int \<times> int) option) \<Rightarrow> 'db \<Rightarrow> string \<Rightarrow> u16 \<Rightarrow> byte \<Rightarrow> u16 \<Rightarrow> bool" where
  "assignedSerial codes db k mid scope serial \<longleftrightarrow>
     (\<exists>c n. serial = serialNumber scope c n \<and> 0 \<le> c \<and> c < 1024 \<and> 0 \<le> n \<and> n < 16 \<and>
       codes db k = Some (uint mid, uint scope, c))"

definition keepsCodes :: "('db \<Rightarrow> string \<Rightarrow> (int \<times> int \<times> int) option) \<Rightarrow> 'db \<Rightarrow> 'db \<Rightarrow> bool" where
  "keepsCodes codes db db' \<longleftrightarrow> (\<forall>k v. codes db k = Some v \<longrightarrow> codes db' k = Some v)"

lemma keepsCodes_refl [simp]: "keepsCodes codes db db"
  by (simp add: keepsCodes_def)

lemma keepsCodes_trans: "keepsCodes codes a b \<Longrightarrow> keepsCodes codes b c \<Longrightarrow> keepsCodes codes a c"
  by (simp add: keepsCodes_def)

lemma assignedSerial_keeps:
  "assignedSerial codes db k mid scope s \<Longrightarrow> keepsCodes codes db db' \<Longrightarrow> assignedSerial codes db' k mid scope s"
  unfolding assignedSerial_def keepsCodes_def by blast

text \<open>The serials that one call has seen so far, under their allocation keys.\<close>

definition okSerials :: "('db \<Rightarrow> string \<Rightarrow> (int \<times> int \<times> int) option) \<Rightarrow> 'db \<Rightarrow> string \<Rightarrow> (string \<times> u16) list \<Rightarrow> bool" where
  "okSerials codes db key serials \<longleftrightarrow> (\<forall>(k, s) \<in> set serials. \<exists>mid scope.
     k = allocationKeyOf key mid scope \<and> assignedSerial codes db k mid scope s)"

lemma okSerials_keeps: "okSerials codes db key serials \<Longrightarrow> keepsCodes codes db db' \<Longrightarrow> okSerials codes db' key serials"
  unfolding okSerials_def using assignedSerial_keeps by fastforce

lemma okSerials_Cons:
  "assignedSerial codes db (allocationKeyOf key mid scope) mid scope s \<Longrightarrow> okSerials codes db key serials \<Longrightarrow>
     okSerials codes db key ((allocationKeyOf key mid scope, s) # serials)"
  unfolding okSerials_def by auto

definition messageAssigned :: "('db \<Rightarrow> string \<Rightarrow> (int \<times> int \<times> int) option) \<Rightarrow> 'db \<Rightarrow> string \<Rightarrow> Message \<Rightarrow> bool" where
  "messageAssigned codes db key m \<longleftrightarrow>
     assignedSerial codes db (allocationKeyOf key (m_MessageIdentifier m) (Scope (m_Target m)))
       (m_MessageIdentifier m) (Scope (m_Target m)) (m_SerialNumber m)"

context serial_repository
begin

lemma serialFor_ok:
  assumes "okdb db" "okSerials codes db key serials"
    and "serialFor repo serials (allocationKeyOf key mid scope) mid scope update db = (res, db')"
  shows "okdb db' \<and> keepsCodes codes db db' \<and>
    (case res of Inl e \<Rightarrow> True | Inr (s, serials') \<Rightarrow> okSerials codes db' key serials' \<and>
      assignedSerial codes db' (allocationKeyOf key mid scope) mid scope s)"
proof (cases "map_of serials (allocationKeyOf key mid scope)")
  case (Some s)
  then obtain mid' scope' where "allocationKeyOf key mid scope = allocationKeyOf key mid' scope'"
    "assignedSerial codes db (allocationKeyOf key mid scope) mid' scope' s"
    using assms(2) by (fastforce simp: okSerials_def dest!: map_of_SomeD)
  then show ?thesis using assms Some by (auto simp: serialFor_def allocationKey_inj)
next
  case None
  show ?thesis
  proof (cases "rp_Allocate repo (allocationKeyOf key mid scope) mid scope update db")
    case (Inl e)
    then show ?thesis using assms None by (auto simp: serialFor_def)
  next
    case (Inr r)
    then obtain s d where r: "rp_Allocate repo (allocationKeyOf key mid scope) mid scope update db = Inr (s, d)"
      by (cases r) auto
    from allocate [OF assms(1) this] have d: "okdb d" "keepsCodes codes db d"
      "assignedSerial codes d (allocationKeyOf key mid scope) mid scope s"
      by (auto simp: keepsCodes_def assignedSerial_def)
    then show ?thesis
      using assms None r okSerials_Cons [OF d(3) okSerials_keeps [OF assms(2) d(2)]]
      by (auto simp: serialFor_def)
  qed
qed

lemma prepareInfo_ok:
  assumes "okdb db" "okSerials codes db (planKey a) serials"
    and "prepareInfo p repo a i info serials db = (res, db')"
  shows "okdb db' \<and> keepsCodes codes db db' \<and>
    (case res of Inl e \<Rightarrow> True | Inr (m, serials') \<Rightarrow> okSerials codes db' (planKey a) serials' \<and>
      messageAssigned codes db' (planKey a) m)"
proof (cases "\<exists>tgt mid. target p (Areas info) = Inr tgt \<and> messageIdentifier (p_cfg p) (Status a) info = Inr mid")
  case False
  then show ?thesis using assms by (auto simp: prepareInfo_def split: sum.splits)
next
  case True
  then obtain tgt mid where t: "target p (Areas info) = Inr tgt" "messageIdentifier (p_cfg p) (Status a) info = Inr mid"
    by blast
  obtain r d where s: "serialFor repo serials (allocationKeyOf (planKey a) mid (Scope tgt)) mid (Scope tgt) (isUpdate a) db = (r, d)"
    by fastforce
  from serialFor_ok [OF assms(1,2) s] assms(3) t s show ?thesis
    by (auto simp: prepareInfo_def messageAssigned_def split: sum.splits prod.splits)
qed

lemma prepareInfos_ok:
  assumes "okdb db" "okSerials codes db (planKey a) serials"
    and "prepareInfos p repo a i infos serials db = (res, db')"
  shows "okdb db' \<and> keepsCodes codes db db' \<and>
    (case res of Inl e \<Rightarrow> True | Inr ms \<Rightarrow> list_all (messageAssigned codes db' (planKey a)) ms)"
  using assms
proof (induction infos arbitrary: i serials db res db')
  case (Cons info infos)
  obtain r d where r: "prepareInfo p repo a i info serials db = (r, d)" by fastforce
  note o = prepareInfo_ok [OF Cons.prems(1,2) r]
  show ?case
  proof (cases r)
    case (Inl e)
    then show ?thesis using o r Cons.prems(3) by auto
  next
    case (Inr x)
    obtain m serials' where x: "r = Inr (m, serials')" using Inr by (cases x) auto
    obtain r2 d2 where r2: "prepareInfos p repo a (i + 1) infos serials' d = (r2, d2)" by fastforce
    have ih: "okdb d2 \<and> keepsCodes codes d d2 \<and>
        (case r2 of Inl e \<Rightarrow> True | Inr ms \<Rightarrow> list_all (messageAssigned codes d2 (planKey a)) ms)"
      using o x by (intro Cons.IH [OF _ _ r2]) auto
    have "messageAssigned codes d2 (planKey a) m"
      using o x ih assignedSerial_keeps unfolding messageAssigned_def by fastforce
    then show ?thesis
      using o ih x r r2 Cons.prems(3) keepsCodes_trans by (auto split: sum.splits prod.splits)
  qed
qed auto

lemma Prepare_ok:
  assumes "okdb db" "Prepare p repo a db = (res, db')"
  shows "okdb db' \<and> keepsCodes codes db db' \<and>
    (case res of Inl e \<Rightarrow> True | Inr plan \<Rightarrow> list_all (messageAssigned codes db' (planKey a)) (Messages plan))"
proof (cases "MsgType a = ''Cancel''")
  case True
  then show ?thesis using assms by (auto simp: Prepare_def)
next
  case False
  obtain r d where r: "prepareInfos p repo a 0 (Infos a) [] db = (r, d)" by fastforce
  have o: "okdb d \<and> keepsCodes codes db d \<and>
      (case r of Inl e \<Rightarrow> True | Inr ms \<Rightarrow> list_all (messageAssigned codes d (planKey a)) ms)"
    by (rule prepareInfos_ok [OF assms(1) _ r]) (simp add: okSerials_def)
  show ?thesis
  proof (cases r)
    case (Inl e)
    then show ?thesis using assms(2) False r o by (auto simp: Prepare_def)
  next
    case (Inr ms)
    let ?plan = "\<lparr>AlertIdentifier = Identifier a, Messages = ms\<rparr>"
    have p: "Prepare p repo a db = (case rp_Save repo (Identifier a) (Json ?plan) d of
        Inl e \<Rightarrow> (Inl (PrepareStore e), d) | Inr db \<Rightarrow> (Inr ?plan, db))"
      using False r Inr by (simp add: Prepare_def Let_def)
    show ?thesis
    proof (cases "rp_Save repo (Identifier a) (Json ?plan) d")
      case (Inl e)
      then show ?thesis using assms(2) p o by auto
    next
      case sv: (Inr d2)
      then have e: "res = Inr ?plan" "db' = d2" using assms(2) p by auto
      have "okdb d2 \<and> codes d2 = codes d" using save [OF _ sv] o by blast
      moreover from this have "messageAssigned codes d2 key = messageAssigned codes d key" for key
        by (simp add: messageAssigned_def assignedSerial_def fun_eq_iff)
      ultimately show ?thesis using o Inr by (simp add: e keepsCodes_def)
    qed
  qed
qed

text \<open>Two serial numbers assigned for the same message identifier and scope.\<close>

lemma same_code_iff:
  assumes "okdb db" "assignedSerial codes db (allocationKeyOf j mid scope) mid scope s"
    and "assignedSerial codes db (allocationKeyOf k mid scope) mid scope t"
  shows "messageCode s = messageCode t \<longleftrightarrow> j = k"
proof -
  obtain c n where c: "s = serialNumber scope c n" "0 \<le> c" "c < 1024" "0 \<le> n" "n < 16"
    "codes db (allocationKeyOf j mid scope) = Some (uint mid, uint scope, c)"
    using assms(2) by (auto simp: assignedSerial_def)
  obtain d l where d: "t = serialNumber scope d l" "0 \<le> d" "d < 1024" "0 \<le> l" "l < 16"
    "codes db (allocationKeyOf k mid scope) = Some (uint mid, uint scope, d)"
    using assms(3) by (auto simp: assignedSerial_def)
  have "messageCode s = messageCode t \<longleftrightarrow> c = d"
    using serialNumber_fields(2) c(1-5) d(1-5) word_of_int_inj16 by metis
  also have "\<dots> \<longleftrightarrow> j = k"
  proof
    assume "c = d"
    then show "j = k" using codes_inj [OF assms(1) c(6)] d(6) allocationKey_inj_key by blast
  next
    assume "j = k"
    then show "c = d" using c(6) d(6) by simp
  qed
  finally show ?thesis .
qed

end

section \<open>SQLite is such a repository\<close>

definition sqliteRepository :: "(string \<Rightarrow> fault) \<Rightarrow> gotime \<Rightarrow> Database Repository" where
  "sqliteRepository f now =
     \<lparr>rp_Allocate = AllocateCBSSerial (f ''AllocateCBSSerial''), rp_Save = SaveCBSPlan (f ''SaveCBSPlan'') now\<rparr>"

interpretation sqliteRepo: serial_repository "sqliteRepository f now" assigned dbInv
proof
  fix db k mid scope update serial db'
  assume a: "dbInv db" "rp_Allocate (sqliteRepository f now) k mid scope update db = Inr (serial, db')"
  then have b: "AllocateCBSSerial (f ''AllocateCBSSerial'') k mid scope update db = Inr (serial, db')"
    by (simp add: sqliteRepository_def)
  show "dbInv db' \<and> (\<exists>c n. serial = serialNumber scope c n \<and> 0 \<le> c \<and> c < 1024 \<and> 0 \<le> n \<and> n < 16 \<and>
        assigned db' = (assigned db)(k \<mapsto> (uint mid, uint scope, c)) \<and>
        (assigned db k = None \<or> assigned db k = Some (uint mid, uint scope, c)))"
    by (rule assigned_Allocate [OF a(1) b]) (use dbInv_Allocate [OF a(1) b] in blast)
next
  fix db i plan db'
  assume a: "dbInv db" "rp_Save (sqliteRepository f now) i plan db = Inr db'"
  then have b: "SaveCBSPlan (f ''SaveCBSPlan'') now i plan db = Inr db'" by (simp add: sqliteRepository_def)
  then show "dbInv db' \<and> assigned db' = assigned db"
    using dbInv_SaveCBSPlan [OF a(1) b] by (auto simp: SaveCBSPlan_def transaction_Inr assigned_def)
next
  fix db j v k
  assume "dbInv db" "assigned db j = Some v" "assigned db k = Some v"
  then show "j = k" using assigned_inj by (cases v) blast
qed

section \<open>Plans\<close>

lemma Prepare_related:
  assumes allocate: "\<And>k mid scope u d s d'. rp_Allocate repo k mid scope u d = Inr (s, d') \<Longrightarrow> R d d'"
    and save: "\<And>i plan d d'. rp_Save repo i plan d = Inr d' \<Longrightarrow> R d d'"
    and "Prepare p repo a db = (res, db')"
  shows "R\<^sup>*\<^sup>* db db'"
proof -
  have serial: "R\<^sup>*\<^sup>* d d'" if "serialFor repo serials k mid scope u d = (r, d')" for serials k mid scope u d r d'
    using that by (auto simp: serialFor_def split: option.splits sum.splits intro: allocate)
  have info: "R\<^sup>*\<^sup>* d d'" if "prepareInfo p repo a i info serials d = (r, d')" for i info serials d r d'
    using that serial by (fastforce simp: prepareInfo_def split: sum.splits prod.splits)
  have infos: "R\<^sup>*\<^sup>* d d'" if "prepareInfos p repo a i infos serials d = (r, d')" for i infos serials d r d'
    using that
  proof (induction infos arbitrary: i serials d r)
    case (Cons x xs)
    obtain r1 d1 where 1: "prepareInfo p repo a i x serials d = (r1, d1)" by fastforce
    show ?case
    proof (cases r1)
      case (Inl e)
      then show ?thesis using 1 Cons.prems info [OF 1] by simp
    next
      case (Inr y)
      then obtain m serials' where y: "r1 = Inr (m, serials')" by (cases y) auto
      then obtain r2 where "prepareInfos p repo a (i + 1) xs serials' d1 = (r2, d')"
        using 1 Cons.prems by (auto split: sum.splits prod.splits)
      from Cons.IH [OF this] info [OF 1] show ?thesis by simp
    qed
  qed simp
  show ?thesis
  proof (cases "MsgType a = ''Cancel''")
    case True
    then show ?thesis using assms by (simp add: Prepare_def)
  next
    case False
    obtain r1 d1 where 1: "prepareInfos p repo a 0 (Infos a) [] db = (r1, d1)" by fastforce
    have "d1 = db' \<or> R d1 db'"
      using assms(3) False 1
      by (auto simp: Prepare_def Let_def split: sum.splits intro: save)
    with infos [OF 1] show ?thesis by auto
  qed
qed

lemma Prepare_steps:
  assumes "Prepare p (sqliteRepository f now) a db = (res, db')"
  shows "dbStep\<^sup>*\<^sup>* db db'"
  by (rule Prepare_related [OF _ _ assms])
    (auto simp: sqliteRepository_def intro: dbStep.allocate dbStep.plan)

lemma Prepare_alerts:
  assumes "Prepare p (sqliteRepository f now) a db = (res, db')"
  shows "db_alerts db' = db_alerts db"
proof -
  have "(\<lambda>d d'. db_alerts d' = db_alerts d)\<^sup>*\<^sup>* db db'"
    by (rule Prepare_related [OF _ _ assms])
      (auto simp: sqliteRepository_def SaveCBSPlan_def AllocateCBSSerial_def transaction_Inr Let_def
        split: option.splits if_splits)
  then show ?thesis by (induction rule: rtranclp_induct) auto
qed

lemma reachable_steps: "dbStep\<^sup>*\<^sup>* db db' \<Longrightarrow> reachableDB db \<Longrightarrow> reachableDB db'"
  by (induction rule: rtranclp_induct) (auto intro: reachableDB.step)

lemma steps_keep: "dbStep\<^sup>*\<^sup>* db db' \<Longrightarrow> dbInv db \<Longrightarrow> dbInv db' \<and> keepsCodes assigned db db'"
  unfolding keepsCodes_def using assigned_steps by (metis dbInv_step rtranclp_induct)

definition infoMessage :: "Preparer \<Rightarrow> Alert \<Rightarrow> nat \<Rightarrow> Info \<Rightarrow> Message \<Rightarrow> bool" where
  "infoMessage p a i info m \<longleftrightarrow> InfoIndex m = i \<and> target p (Areas info) = Inr (m_Target m) \<and>
     messageIdentifier (p_cfg p) (Status a) info = Inr (m_MessageIdentifier m) \<and>
     Encode (alertText info) (Language info) = Inr (m_Pages m, DCS m, Encoding m)"

lemma prepareInfos_messages:
  assumes "prepareInfos p repo a i infos serials db = (Inr ms, db')"
  shows "length ms = length infos \<and> (\<forall>k < length infos. infoMessage p a (i + k) (infos ! k) (ms ! k))"
  using assms
proof (induction infos arbitrary: i serials db ms)
  case (Cons info infos)
  from Cons.prems obtain m serials' d ms' where m: "prepareInfo p repo a i info serials db = (Inr (m, serials'), d)"
    and r: "prepareInfos p repo a (i + 1) infos serials' d = (Inr ms', db')" and ms: "ms = m # ms'"
    by (auto split: sum.splits prod.splits)
  have "infoMessage p a i info m"
    using m by (auto simp: prepareInfo_def infoMessage_def split: sum.splits prod.splits)
  with Cons.IH [OF r] show ?case by (auto simp: ms nth_Cons split: nat.splits)
qed simp

lemma plan_messages:
  assumes "MsgType a \<noteq> ''Cancel''" "Prepare p (sqliteRepository f now) a db = (Inr plan, db')"
  shows "AlertIdentifier plan = Identifier a \<and> length (Messages plan) = length (Infos a) \<and>
    (\<forall>k < length (Infos a). infoMessage p a k (Infos a ! k) (Messages plan ! k) \<and> okPages (m_Pages (Messages plan ! k))) \<and>
    CBSPlan None (Identifier a) db' = Inr (Some (Json plan))"
proof -
  obtain ms d where ms: "prepareInfos p (sqliteRepository f now) a 0 (Infos a) [] db = (Inr ms, d)"
    and plan: "plan = \<lparr>AlertIdentifier = Identifier a, Messages = ms\<rparr>"
    and sv: "rp_Save (sqliteRepository f now) (Identifier a) (Json plan) d = Inr db'"
    using assms by (auto simp: Prepare_def Let_def split: sum.splits prod.splits)
  have "keyed pl_identifier (db_plans db') (Identifier a) = Some \<lparr>pl_identifier = Identifier a,
      pl_plan = Json plan, pl_created = formatRFC3339Nano (UTC now)\<rparr>"
    using sv by (auto simp: sqliteRepository_def SaveCBSPlan_def transaction_Inr keyed_upsert)
  then have "CBSPlan None (Identifier a) db' = Inr (Some (Json plan))"
    by (simp add: CBSPlan_def keyed_def)
  with prepareInfos_messages [OF ms] Encode_okPages show ?thesis
    by (auto simp: plan infoMessage_def)
qed

text \<open>C6: A prepared plan says of every info block of the alert, in order, exactly what the code decides
  about it: its target, its message identifier, and its text encoded into 1 to 15 numbered pages of
  82 octets. The plan can be read back from the database under the identifier of the alert.\<close>

theorem plan_complete:
  assumes "MsgType a \<noteq> ''Cancel''" "Prepare p (sqliteRepository f now) a db = (Inr plan, db')"
  shows "AlertIdentifier plan = Identifier a \<and> length (Messages plan) = length (Infos a) \<and>
    (\<forall>k < length (Infos a). infoMessage p a k (Infos a ! k) (Messages plan ! k) \<and> okPages (m_Pages (Messages plan ! k))) \<and>
    CBSPlan None (Identifier a) db' = Inr (Some (Json plan))"
  by (rule plan_messages [OF assms])


section \<open>Witnesses\<close>

definition samplePreparer :: Preparer where
  "samplePreparer = \<lparr>p_cfg = \<lparr>DefaultMessageIdentifier = 0x1100, MessageIdentifiers = [], AllowPLMNWide = False\<rparr>,
     p_plmn = ''311-435'', p_selector = None, p_geocodes = None, p_polygonGeoJSON = Inl, p_circleGeoJSON = Inl,
     p_upperUnicode = (\<lambda>s. s)\<rparr>"

definition cellAlert :: "string \<Rightarrow> string \<Rightarrow> string \<Rightarrow> Alert" where
  "cellAlert i ty refs =
     \<lparr>Identifier = i, Sender = ''w'', Sent = ''2026-07-01T10:00:00Z'', Status = ''Exercise'', MsgType = ty,
      AlertScope = ''Public'', References = refs, Infos = [sampleInfo\<lparr>Areas := [\<lparr>areaDescription = ''x'',
        Polygons = [], Circles = [], Geocodes = [\<lparr>g_ValueName = ''Cell'', g_Value = ''7''\<rparr>]\<rparr>]\<rparr>]\<rparr>"

lemma target_sample: "target samplePreparer (Areas (hd (Infos (cellAlert i ty refs)))) =
    Inr \<lparr>Scope = CellWide, Cells = [''7''], TrackingAreas = []\<rparr>"
  by (simp add: target_def samplePreparer_def cellAlert_def sampleInfo_def uniqueGeocodes_def addGeocode_def
      isCellName_def lowerIs_def lowerASCII_def TrimSpace_def trimEnds_def polygonCells_def circleCells_def
      shapeCells_def namedGeocodeCells_def mergeUnique_def addUnique_def string_eval char_eval)

lemma identifier_sample:
  "messageIdentifier (p_cfg samplePreparer) (Status (cellAlert i ty refs)) info = Inr 0x111D"
  by (simp add: messageIdentifier_def classify_def cellAlert_def samplePreparer_def class_labels
      TrimSpace_def trimEnds_def string_eval atisMessageIdentifiers_def)

lemma text_sample: "alertText (hd (Infos (cellAlert i ty refs))) = ''Flood''"
  "Language (hd (Infos (cellAlert i ty refs))) = ''en''"
  by (simp_all add: alertText_def cellAlert_def sampleInfo_def TrimSpace_def trimEnds_def string_eval)

lemma Prepare_sample:
  assumes "ty \<noteq> ''Cancel''"
    and "AllocateCBSSerial None (allocationKeyOf (planKey (cellAlert i ty refs)) 0x111D CellWide) 0x111D CellWide
      (isUpdate (cellAlert i ty refs)) db = Inr (s, d)"
  obtains plan db' m where "Prepare samplePreparer (sqliteRepository (\<lambda>_. None) now) (cellAlert i ty refs) db = (Inr plan, db')"
    "Messages plan = [m]" "m_MessageIdentifier m = 0x111D" "Scope (m_Target m) = CellWide" "m_SerialNumber m = s"
proof -
  let ?a = "cellAlert i ty refs"
  obtain info where info: "Infos ?a = [info]" by (simp add: cellAlert_def)
  then have t: "target samplePreparer (Areas info) = Inr \<lparr>Scope = CellWide, Cells = [''7''], TrackingAreas = []\<rparr>"
    "alertText info = ''Flood''" "Language info = ''en''"
    using target_sample [of i ty refs] text_sample [of i ty refs] by simp_all
  obtain pages c enc where e: "Encode ''Flood'' ''en'' = Inr (pages, c, enc)" by (rule Encode_example)
  have ty: "MsgType ?a = ty" by (simp add: cellAlert_def)
  have "\<exists>plan db' m. Prepare samplePreparer (sqliteRepository (\<lambda>_. None) now) ?a db = (Inr plan, db') \<and>
    Messages plan = [m] \<and> m_MessageIdentifier m = 0x111D \<and> Scope (m_Target m) = CellWide \<and> m_SerialNumber m = s"
    using assms
    by (simp add: Prepare_def ty info prepareInfo_def t identifier_sample serialFor_def e
        sqliteRepository_def SaveCBSPlan_def Let_def)
  then show ?thesis using that by blast
qed

lemma Allocate_any_empty: "\<exists>s d. AllocateCBSSerial None k mid scope u emptyDatabase = Inr (s, d)"
  using Allocate_empty by blast

lemma Allocate_again:
  assumes "dbInv db" "assigned db k = Some (uint mid, uint scope, c)"
  shows "\<exists>s d. AllocateCBSSerial None k mid scope u db = Inr (s, d)"
proof -
  obtain r where r: "keyed al_key (db_allocations db) k = Some r" "al_mid r = uint mid" "al_scope r = uint scope"
    using assms(2) by (auto simp: assigned_def)
  then have "inClass mid scope r" by (simp add: inClass_def)
  with r(1) assms(1) show ?thesis by (simp add: Allocate_cases dbInv_def Let_def)
qed

theorem plan_complete_witness:
  "\<exists>plan db'. Prepare samplePreparer (sqliteRepository (\<lambda>_. None) (sampleTime 10 0)) (cellAlert ''a'' ''Alert'' [])
     emptyDatabase = (Inr plan, db') \<and> length (Messages plan) = 1 \<and> okPages (m_Pages (Messages plan ! 0)) \<and>
     CBSPlan None ''a'' db' = Inr (Some (Json plan))"
proof -
  let ?a = "cellAlert ''a'' ''Alert'' []"
  obtain s d where "AllocateCBSSerial None (allocationKeyOf (planKey ?a) 0x111D CellWide) 0x111D CellWide
      (isUpdate ?a) emptyDatabase = Inr (s, d)" using Allocate_any_empty by blast
  then obtain plan db' m where p: "Prepare samplePreparer (sqliteRepository (\<lambda>_. None) (sampleTime 10 0)) ?a
      emptyDatabase = (Inr plan, db')" "Messages plan = [m]"
    by (rule Prepare_sample [rotated]) simp_all
  have a: "MsgType ?a \<noteq> ''Cancel''" "Identifier ?a = ''a''" "length (Infos ?a) = 1" by (simp_all add: cellAlert_def)
  from plan_complete [OF a(1) p(1)] p a show ?thesis by auto
qed


end
