(* ===== verification/Service_Core.thy ===== *)
theory Service_Core
  imports Store_Sqlite "HOL-Library.AList" "HOL-Library.Multiset"
begin

text \<open>
  \<open>internal/service/service.go\<close>: the in-memory alert index of the server over the \<open>storage.Store\<close>
  interface and the publisher. The methods of the store are the fields of a record, as they are the
  methods of the interface, over a state of type \<open>'db\<close> that the store and the publisher share;
  \<open>None\<close> stands for a nil store or publisher. Every section the code runs under its mutex is one
  function; \<open>Ingest\<close> gives the mutex back while it publishes, so it is composed of three.
\<close>

section \<open>The store interface\<close>

record 'db StoreOps =
  op_Load :: "'db \<Rightarrow> store_error + Record list"
  op_Upsert :: "gotime \<Rightarrow> Record \<Rightarrow> string list \<Rightarrow> 'db \<Rightarrow> store_error + 'db"
  op_Expire :: "gotime \<Rightarrow> 'db \<Rightarrow> store_error + (string list \<times> 'db)"
  op_Audit :: "int \<Rightarrow> 'db \<Rightarrow> store_error + AuditEvent list"
  op_Plan :: "string \<Rightarrow> 'db \<Rightarrow> store_error + Plan blob option"

type_synonym 'db publisher = "Alert \<Rightarrow> 'db \<Rightarrow> (string + unit) \<times> 'db"

section \<open>The service\<close>

record Service =
  alerts :: "(string \<times> Record) list"
  lastError :: string
  connected :: bool
  ingested :: u64
  rejected :: u64
  restartIndications :: u64
  failureIndications :: u64
  restartRebroadcasts :: u64

definition NewService :: Service where
  "NewService = \<lparr>alerts = [], lastError = [], connected = False, ingested = 0, rejected = 0,
     restartIndications = 0, failureIndications = 0, restartRebroadcasts = 0\<rparr>"

datatype service_error = PublishFailed string | PersistFailed store_error | StoreFailed store_error

definition Recover :: "'db StoreOps option \<Rightarrow> gotime \<Rightarrow> Service \<Rightarrow> 'db \<Rightarrow>
    (service_error + unit) \<times> Service \<times> 'db" where
  "Recover store now s db =
     (case store of None \<Rightarrow> (Inr (), s, db)
      | Some st \<Rightarrow>
          (case op_Expire st (UTC now) db of
             Inl e \<Rightarrow> (Inl (StoreFailed e), s, db)
           | Inr (_, db) \<Rightarrow>
               (case op_Load st db of
                  Inl e \<Rightarrow> (Inl (StoreFailed e), s, db)
                | Inr records \<Rightarrow>
                    (Inr (), s\<lparr>alerts := foldl (\<lambda>m r. AList.update (Identifier (rec_Alert r)) r m)
                       (alerts s) records\<rparr>, db))))"

definition SetConnected :: "bool \<Rightarrow> Service \<Rightarrow> Service" where
  "SetConnected v s = s\<lparr>connected := v\<rparr>"

definition SetError :: "string option \<Rightarrow> Service \<Rightarrow> Service" where
  "SetError err s = s\<lparr>lastError := (case err of Some e \<Rightarrow> e | None \<Rightarrow> [])\<rparr>"

definition known :: "Alert \<Rightarrow> Service \<Rightarrow> bool" where
  "known a s =
     (case map_of (alerts s) (Identifier a) of
        None \<Rightarrow> False
      | Some old \<Rightarrow> Sent (rec_Alert old) = Sent a \<and> MsgType (rec_Alert old) = MsgType a)"

definition supersedeRec :: "string \<Rightarrow> (string \<times> Record) list \<Rightarrow> string \<Rightarrow> (string \<times> Record) list" where
  "supersedeRec st m i =
     (case map_of m i of
        None \<Rightarrow> m
      | Some prior \<Rightarrow> if rec_State prior = ''active'' then AList.update i (prior\<lparr>rec_State := st\<rparr>) m else m)"

text \<open>The last locked section of \<open>Ingest\<close>, and the body it ends.\<close>

definition ingestCommit :: "'db StoreOps option \<Rightarrow> gotime \<Rightarrow> Alert \<Rightarrow> Service \<Rightarrow> 'db \<Rightarrow>
    (service_error + unit) \<times> Service \<times> 'db" where
  "ingestCommit store now a s db =
     (if known a s then (Inr (), s, db)
      else
        let r = \<lparr>rec_Alert = a, rec_ReceivedAt = UTC now,
                 rec_State = (if MsgType a = ''Cancel'' then ''cancelled'' else ''active'')\<rparr>
        in case (case store of None \<Rightarrow> Inr db | Some st \<Rightarrow> op_Upsert st now r (ReferenceIDs a) db) of
             Inl e \<Rightarrow> (Inl (PersistFailed e), s, db)
           | Inr db \<Rightarrow>
               (let referenceState = (if MsgType a = ''Cancel'' then ''cancelled'' else ''superseded'');
                    m = foldl (supersedeRec referenceState) (alerts s) (ReferenceIDs a)
                in (Inr (), s\<lparr>alerts := AList.update (Identifier a) r m, ingested := ingested s + 1\<rparr>, db)))"

definition ingestReject :: "Alert \<Rightarrow> string \<Rightarrow> Service \<Rightarrow> Service" where
  "ingestReject a e s =
     (let s = SetError (Some (''prepare '' @ Identifier a @ '': '' @ e)) s in s\<lparr>rejected := rejected s + 1\<rparr>)"

definition Ingest :: "'db StoreOps option \<Rightarrow> 'db publisher option \<Rightarrow> gotime \<Rightarrow> Alert \<Rightarrow> Service \<Rightarrow> 'db \<Rightarrow>
    (service_error + unit) \<times> Service \<times> 'db" where
  "Ingest store publish now a s db =
     (if known a s then (Inr (), s, db)
      else case (case publish of None \<Rightarrow> (Inr (), db) | Some p \<Rightarrow> p a db) of
        (Inl e, db) \<Rightarrow> (Inl (PublishFailed e), ingestReject a e s, db)
      | (Inr _, db) \<Rightarrow> ingestCommit store now a s db)"

text \<open>\<open>Expire\<close> takes the mutex only after the store has swept.\<close>

definition forget :: "string list \<Rightarrow> Service \<Rightarrow> Service" where
  "forget ids s = s\<lparr>alerts := foldl (\<lambda>m i. AList.delete i m) (alerts s) ids\<rparr>"

definition ExpireService :: "'db StoreOps option \<Rightarrow> gotime \<Rightarrow> Service \<Rightarrow> 'db \<Rightarrow>
    (service_error + unit) \<times> Service \<times> 'db" where
  "ExpireService store now s db =
     (case store of None \<Rightarrow> (Inr (), s, db)
      | Some st \<Rightarrow>
          (case op_Expire st now db of
             Inl e \<Rightarrow> (Inl (StoreFailed e), s, db)
           | Inr (ids, db) \<Rightarrow> (Inr (), forget ids s, db)))"

definition AuditService :: "'db StoreOps option \<Rightarrow> int \<Rightarrow> 'db \<Rightarrow> store_error + AuditEvent list" where
  "AuditService store limit db = (case store of None \<Rightarrow> Inr [] | Some st \<Rightarrow> op_Audit st limit db)"

definition CBSPlanService :: "'db StoreOps option \<Rightarrow> string \<Rightarrow> 'db \<Rightarrow> store_error + Plan blob option" where
  "CBSPlanService store identifier db = (case store of None \<Rightarrow> Inr None | Some st \<Rightarrow> op_Plan st identifier db)"

definition Alerts :: "Service \<Rightarrow> Record list" where
  "Alerts s = rev (sort_key (\<lambda>r. instant (rec_ReceivedAt r)) (map snd (alerts s)))"

definition AlertByID :: "string \<Rightarrow> Service \<Rightarrow> Record option" where
  "AlertByID i s = map_of (alerts s) i"

definition Ready :: "Service \<Rightarrow> bool" where "Ready s = connected s"
definition LastError :: "Service \<Rightarrow> string" where "LastError s = lastError s"

definition IncrementRestartIndications :: "Service \<Rightarrow> Service" where
  "IncrementRestartIndications s = s\<lparr>restartIndications := restartIndications s + 1\<rparr>"
definition IncrementFailureIndications :: "Service \<Rightarrow> Service" where
  "IncrementFailureIndications s = s\<lparr>failureIndications := failureIndications s + 1\<rparr>"
definition IncrementRestartRebroadcasts :: "Service \<Rightarrow> Service" where
  "IncrementRestartRebroadcasts s = s\<lparr>restartRebroadcasts := restartRebroadcasts s + 1\<rparr>"

record MetricsRecord =
  mt_Alerts :: nat
  mt_Active :: nat
  mt_Connected :: bool
  mt_Ingested :: u64
  mt_Rejected :: u64
  mt_RestartIndications :: u64
  mt_FailureIndications :: u64
  mt_RestartRebroadcasts :: u64

definition Metrics :: "Service \<Rightarrow> MetricsRecord" where
  "Metrics s =
     \<lparr>mt_Alerts = length (alerts s),
      mt_Active = length (filter (\<lambda>(_, r). rec_State r = ''active'') (alerts s)),
      mt_Connected = connected s, mt_Ingested = ingested s, mt_Rejected = rejected s,
      mt_RestartIndications = restartIndications s, mt_FailureIndications = failureIndications s,
      mt_RestartRebroadcasts = restartRebroadcasts s\<rparr>"

section \<open>The contract of an alert store\<close>

text \<open>
  What the service relies on: the table of the store, as what it says of each identifier, after an
  upsert and after a sweep, and that loading gives the table back. \<open>okdb\<close> is the invariant of the
  store.
\<close>

type_synonym alertView = "Alert blob \<times> string \<times> string"

definition viewRec :: "Record \<Rightarrow> alertView" where
  "viewRec r = (Json (rec_Alert r), rec_State r, formatRFC3339Nano (UTC (rec_ReceivedAt r)))"

definition supersedeView :: "string \<Rightarrow> string set \<Rightarrow> string \<Rightarrow> alertView \<Rightarrow> alertView" where
  "supersedeView st I i v = (case v of (c, s, t) \<Rightarrow> (c, if i \<in> I \<and> s = ''active'' then st else s, t))"

locale alert_store =
  fixes ops :: "'db StoreOps"
    and tab :: "'db \<Rightarrow> string \<Rightarrow> alertView option"
    and okdb :: "'db \<Rightarrow> bool"
  assumes upsert_tab: "okdb db \<Longrightarrow> op_Upsert ops now r refs db = Inr db' \<Longrightarrow>
      tab db' i = map_option (supersedeView (referenceState (rec_Alert r)) (set refs) i)
        (if i = Identifier (rec_Alert r) then Some (viewRec r) else tab db i)"
    and upsert_ok: "okdb db \<Longrightarrow> utcTime (rec_ReceivedAt r) \<Longrightarrow> op_Upsert ops now r refs db = Inr db' \<Longrightarrow> okdb db'"
    and expire_tab: "okdb db \<Longrightarrow> op_Expire ops now db = Inr (ids, db') \<Longrightarrow>
      tab db' i = (if i \<in> set ids then None else tab db i)"
    and expire_ok: "okdb db \<Longrightarrow> op_Expire ops now db = Inr (ids, db') \<Longrightarrow> okdb db'"
    and load_tab: "okdb db \<Longrightarrow> op_Load ops db = Inr rs \<Longrightarrow>
      tab db i = map_option viewRec (keyed (\<lambda>r. Identifier (rec_Alert r)) rs i) \<and>
      distinct (map (\<lambda>r. Identifier (rec_Alert r)) rs)"

definition mirrors :: "('db \<Rightarrow> string \<Rightarrow> alertView option) \<Rightarrow> Service \<Rightarrow> 'db \<Rightarrow> bool" where
  "mirrors tab s db \<longleftrightarrow> (\<forall>i. map_option viewRec (map_of (alerts s) i) = tab db i)"

lemma map_of_supersedeRec:
  "st \<noteq> ''active'' \<Longrightarrow> map_of (foldl (supersedeRec st) m is) i =
     map_option (\<lambda>r. if i \<in> set is \<and> rec_State r = ''active'' then r\<lparr>rec_State := st\<rparr> else r) (map_of m i)"
proof (induction "is" arbitrary: m)
  case Nil
  then show ?case by (cases "map_of m i") auto
next
  case (Cons j js)
  then show ?case
    by (cases "map_of m j"; cases "map_of m i") (auto simp: supersedeRec_def update_conv')
qed

lemma map_of_forget: "map_of (foldl (\<lambda>m i. AList.delete i m) m is) i = (if i \<in> set is then None else map_of m i)"
  by (induction "is" arbitrary: m) (auto simp: delete_conv')

lemma viewRec_supersede:
  "viewRec (if i \<in> I \<and> rec_State r = ''active'' then r\<lparr>rec_State := st\<rparr> else r) = supersedeView st I i (viewRec r)"
  by (simp add: viewRec_def supersedeView_def)

lemma referenceState_ne: "referenceState a \<noteq> ''active''"
  by (simp add: referenceState_def)

context alert_store
begin

lemma commit_mirrors:
  assumes "okdb db" "mirrors tab s db" "ingestCommit (Some ops) now a s db = (res, s', db')"
    and "Identifier a \<notin> set (ReferenceIDs a)"
  shows "mirrors tab s' db'"
proof (cases "known a s \<or> (\<exists>e. res = Inl e)")
  case True
  then show ?thesis
    using assms(2,3) by (auto simp: ingestCommit_def Let_def split: sum.splits if_splits)
next
  case False
  define r where "r = \<lparr>rec_Alert = a, rec_ReceivedAt = UTC now,
    rec_State = (if MsgType a = ''Cancel'' then ''cancelled'' else ''active'')\<rparr>"
  from assms(3) False have u: "op_Upsert ops now r (ReferenceIDs a) db = Inr db'"
    and s': "alerts s' = AList.update (Identifier a) r
      (foldl (supersedeRec (referenceState a)) (alerts s) (ReferenceIDs a))"
    by (auto simp: ingestCommit_def Let_def r_def referenceState_def split: sum.splits)
  have t: "tab db' i = map_option (supersedeView (referenceState a) (set (ReferenceIDs a)) i)
      (if i = Identifier a then Some (viewRec r) else tab db i)" for i
    using upsert_tab [OF assms(1) u, of i] by (simp add: r_def)
  show ?thesis
    unfolding mirrors_def
  proof
    fix i
    show "map_option viewRec (map_of (alerts s') i) = tab db' i"
    proof (cases "i = Identifier a")
      case True
      with assms(4) show ?thesis by (simp add: s' t update_conv' supersedeView_def viewRec_def)
    next
      case False
      have eq: "tab db i = map_option viewRec (map_of (alerts s) i)" using assms(2) by (simp add: mirrors_def)
      show ?thesis
        using False by (simp add: s' t eq update_conv' map_of_supersedeRec [OF referenceState_ne] option.map_comp
            comp_def viewRec_supersede)
    qed
  qed
qed

lemma commit_ok:
  assumes "okdb db" "utcTime now" "ingestCommit (Some ops) now a s db = (res, s', db')"
  shows "okdb db'"
proof -
  have u: "okdb d" if "op_Upsert ops now \<lparr>rec_Alert = x, rec_ReceivedAt = UTC now, rec_State = st\<rparr> refs db = Inr d"
    for x st refs d
    by (rule upsert_ok [OF assms(1) _ that]) (simp add: UTC_id assms(2))
  show ?thesis
    using assms(1,3) by (auto simp: ingestCommit_def Let_def split: sum.splits if_splits dest: u)
qed

lemma expire_mirrors:
  assumes "okdb db" "mirrors tab s db" "ExpireService (Some ops) now s db = (res, s', db')"
  shows "mirrors tab s' db'"
  using assms expire_tab [OF assms(1)]
  by (auto simp: ExpireService_def mirrors_def forget_def map_of_forget split: sum.splits)

lemma map_of_recovered:
  "map_of (foldl (\<lambda>m r. AList.update (Identifier (rec_Alert r)) r m) m rs) i =
     (case keyed (\<lambda>r. Identifier (rec_Alert r)) (rev rs) i of None \<Rightarrow> map_of m i | Some r \<Rightarrow> Some r)"
  by (induction rs arbitrary: m) (auto simp: keyed_append update_conv' split: option.splits)

lemma keyed_rev: "distinct (map key rs) \<Longrightarrow> keyed key (rev rs) i = keyed key rs i"
proof (induction rs)
  case (Cons r rs)
  then have "key r \<notin> key ` set rs" "keyed key (rev rs) i = keyed key rs i" by auto
  then show ?case
    using keyed_None [of key rs "key r"] by (cases "keyed key rs i") (auto simp: keyed_append)
qed simp

lemma recover_mirrors:
  assumes "okdb db" "Recover (Some ops) now NewService db = (Inr u, s', db')"
  shows "mirrors tab s' db'"
proof -
  from assms(2) obtain ids rs where e: "op_Expire ops (UTC now) db = Inr (ids, db')" and l: "op_Load ops db' = Inr rs"
    and s': "alerts s' = foldl (\<lambda>m r. AList.update (Identifier (rec_Alert r)) r m) [] rs"
    by (auto simp: Recover_def NewService_def split: sum.splits)
  note t = load_tab [OF expire_ok [OF assms(1) e] l]
  show ?thesis
    unfolding mirrors_def s' map_of_recovered
    using t keyed_rev [of "\<lambda>r. Identifier (rec_Alert r)" rs] by (auto split: option.splits)
qed

end

section \<open>SQLite is such a store\<close>

definition sqliteOps :: "(string \<Rightarrow> fault) \<Rightarrow> Database StoreOps" where
  "sqliteOps f =
     \<lparr>op_Load = LoadAlerts (f ''LoadAlerts''), op_Upsert = Upsert (f ''Upsert''),
      op_Expire = ExpireAlerts (f ''Expire''), op_Audit = Audit (f ''Audit''), op_Plan = CBSPlan (f ''CBSPlan'')\<rparr>"

definition viewRow :: "AlertRow \<Rightarrow> alertView" where
  "viewRow r = (row_cap r, row_state r, row_received r)"

definition tabView :: "Database \<Rightarrow> string \<Rightarrow> alertView option" where
  "tabView db i = map_option viewRow (keyed row_identifier (db_alerts db) i)"

text \<open>The rows the service itself has written: alerts under their own identifier, UTC times.\<close>

definition okRow :: "AlertRow \<Rightarrow> bool" where
  "okRow r \<longleftrightarrow>
     (case row_cap r of Garbled \<Rightarrow> False | Json a \<Rightarrow> Identifier a = row_identifier r) \<and>
     (case parseRFC3339 (row_received r) of None \<Rightarrow> False
      | Some t \<Rightarrow> utcTime t \<and> formatRFC3339Nano t = row_received r)"

definition okStore :: "Database \<Rightarrow> bool" where
  "okStore db \<longleftrightarrow> dbInv db \<and> list_all okRow (db_alerts db)"

lemma okStore_empty: "okStore emptyDatabase"
  by (simp add: okStore_def dbInv_empty) (simp add: emptyDatabase_def)

lemma okRow_loads:
  assumes "okRow row"
  obtains r where "loadRow row = Inr r" "Identifier (rec_Alert r) = row_identifier row" "viewRec r = viewRow row"
  using assms UTC_id
  by (auto simp: okRow_def loadRow_def viewRec_def viewRow_def split: blob.splits option.splits)

lemma okRow_upserted: "utcTime (rec_ReceivedAt r) \<Longrightarrow> okRow (upsertedRow r)"
  by (simp add: okRow_def upsertedRow_def UTC_id parse_format utc_textTime)

lemma okRow_superseded: "okRow r \<Longrightarrow> okRow (superseded s I r)"
  by (auto simp: okRow_def superseded_def split: blob.splits option.splits)

lemma set_upsertRow: "set (upsertRow key r rows) \<subseteq> insert r (set rows)"
  by (induction rows) auto

lemma loaded_keyed:
  assumes "list_all okRow rows" "mapE loadRow rows = Inr rs"
  shows "map_option viewRow (keyed row_identifier rows i) = map_option viewRec (keyed (\<lambda>r. Identifier (rec_Alert r)) rs i)"
    and "map (\<lambda>r. Identifier (rec_Alert r)) rs = map row_identifier rows"
  using assms
proof (induction rows arbitrary: rs)
  case (Cons row rows)
  { case 1
    then show ?case using Cons.IH(1) okRow_loads [of row] by (fastforce simp: andThen_eq_Inr) }
  { case 2
    then show ?case using Cons.IH(2) okRow_loads [of row] by (fastforce simp: andThen_eq_Inr) }
qed simp_all

lemma keyed_iff: "distinct (map key rows) \<Longrightarrow> keyed key rows i = Some r \<longleftrightarrow> r \<in> set rows \<and> key r = i"
  using keyed_in keyed_key by metis

lemma keyed_perm:
  assumes "mset xs = mset ys" "distinct (map key xs)"
  shows "keyed key xs i = keyed key ys i"
proof -
  have "set xs = set ys" using assms(1) by (rule mset_eq_setD)
  moreover have "distinct (map key ys)" by (metis assms mset_eq_imp_distinct_iff mset_map)
  ultimately have "keyed key xs i = Some r \<longleftrightarrow> keyed key ys i = Some r" for r
    using keyed_iff [OF assms(2)] keyed_iff [of key ys] by simp
  then show ?thesis by (metis option.exhaust)
qed

lemma mset_orderDesc [simp]: "mset (orderDesc key rows) = mset rows"
  by (simp add: orderDesc_def)

interpretation sqlite: alert_store "sqliteOps f" tabView okStore
proof
  fix db now r refs db' i
  assume "okStore db" "op_Upsert (sqliteOps f) now r refs db = Inr db'"
  then have u: "Upsert (f ''Upsert'') now r refs db = Inr db'" by (simp add: sqliteOps_def)
  show "tabView db' i = map_option (supersedeView (referenceState (rec_Alert r)) (set refs) i)
        (if i = Identifier (rec_Alert r) then Some (viewRec r) else tabView db i)"
    unfolding tabView_def keyed_after_Upsert [OF u]
    by (cases "keyed row_identifier (db_alerts db) i")
      (auto simp: superseded_def supersedeView_def viewRow_def viewRec_def upsertedRow_def dest: keyed_key)
next
  fix db now r refs db'
  assume a: "okStore db" "utcTime (rec_ReceivedAt r)" "op_Upsert (sqliteOps f) now r refs db = Inr db'"
  then have u: "Upsert (f ''Upsert'') now r refs db = Inr db'" by (simp add: sqliteOps_def)
  have "db_alerts db' = map (superseded (referenceState (rec_Alert r)) (set refs))
      (upsertRow row_identifier (upsertedRow r) (db_alerts db))"
    using u setStates_map [OF referenceState_ne]
    by (auto simp: Upsert_def Let_def transaction_Inr referenceState_def upsertedRow_def)
  then have "list_all okRow (db_alerts db')"
    using a okRow_upserted set_upsertRow [of row_identifier "upsertedRow r" "db_alerts db"]
    by (auto simp: okStore_def list_all_iff intro!: okRow_superseded)
  then show "okStore db'" using a(1) dbInv_Upsert [OF _ u] by (simp add: okStore_def)
next
  fix db now ids db' i
  assume a: "okStore db" "op_Expire (sqliteOps f) now db = Inr (ids, db')"
  then have e: "ExpireAlerts (f ''Expire'') now db = Inr (ids, db')" by (simp add: sqliteOps_def)
  then have al: "db_alerts db' = filter (\<lambda>r. row_identifier r \<notin> set ids) (db_alerts db)"
    by (auto simp: ExpireAlerts_def Let_def transaction_Inr expire_fold)
  have "keyed row_identifier (filter (\<lambda>r. row_identifier r \<notin> set ids) rows) i =
      (if i \<in> set ids then None else keyed row_identifier rows i)" for rows :: "AlertRow list"
    by (induction rows) auto
  then show "tabView db' i = (if i \<in> set ids then None else tabView db i)"
    by (simp add: tabView_def al)
  show "okStore db'" using a(1) dbInv_Expire [OF _ e] by (auto simp: okStore_def al list_all_iff)
next
  fix db rs i
  assume a: "okStore db" "op_Load (sqliteOps f) db = Inr rs"
  let ?rows = "orderDesc row_received (db_alerts db)"
  from a(2) have l: "mapE loadRow ?rows = Inr rs" by (auto simp: sqliteOps_def LoadAlerts_def transaction_Inr)
  have s: "set ?rows = set (db_alerts db)" by (rule mset_eq_setD) simp
  have d: "distinct (map row_identifier (db_alerts db))" using a(1) by (simp add: okStore_def dbInv_def)
  have d2: "distinct (map row_identifier ?rows)"
    by (metis d mset_eq_imp_distinct_iff mset_map mset_orderDesc)
  have ok: "list_all okRow ?rows" using a(1) s by (simp add: okStore_def list_all_iff)
  show "tabView db i = map_option viewRec (keyed (\<lambda>r. Identifier (rec_Alert r)) rs i) \<and>
      distinct (map (\<lambda>r. Identifier (rec_Alert r)) rs)"
    using loaded_keyed [OF ok l] d2 keyed_perm [OF mset_orderDesc d2] by (simp add: tabView_def)
qed

section \<open>Properties\<close>

text \<open>Starting up makes the index a copy of the database: after a recovery that succeeds, the service
  knows exactly the stored alerts, each with its stored content, state and reception time.\<close>

theorem recover_mirrors_database:
  assumes "okStore db" "Recover (Some (sqliteOps f)) now NewService db = (Inr u, s, db')"
  shows "mirrors tabView s db'"
  by (rule sqlite.recover_mirrors [OF assms])

lemma ingest_mirrors:
  assumes "okStore db" "mirrors tabView s db" "utcTime now" "Identifier a \<notin> set (ReferenceIDs a)"
    and "\<And>x d. db_alerts (snd (publish x d)) = db_alerts d" "\<And>x d. dbInv d \<Longrightarrow> dbInv (snd (publish x d))"
    and "Ingest (Some (sqliteOps f)) (Some publish) now a s db = (res, s', db')"
  shows "mirrors tabView s' db' \<and> okStore db'"
proof (cases "known a s")
  case True
  then show ?thesis using assms by (simp add: Ingest_def)
next
  case False
  obtain r d where p: "publish a db = (r, d)" by fastforce
  have d: "db_alerts d = db_alerts db" "dbInv d"
    using assms(5) [of a db] assms(6) [of db a] assms(1) p by (auto simp: okStore_def)
  then have ok: "okStore d" "mirrors tabView s d"
    using assms(1,2) by (auto simp: okStore_def mirrors_def tabView_def)
  show ?thesis
  proof (cases r)
    case (Inl e)
    then have "alerts s' = alerts s" "db' = d"
      using assms(7) False p by (auto simp: Ingest_def ingestReject_def SetError_def)
    then show ?thesis using ok by (simp add: mirrors_def)
  next
    case (Inr v)
    then have c: "ingestCommit (Some (sqliteOps f)) now a s d = (res, s', db')"
      using assms(7) False p by (simp add: Ingest_def)
    then show ?thesis
      using sqlite.commit_mirrors [OF ok c assms(4)] sqlite.commit_ok [OF ok(1) assms(3) c] by blast
  qed
qed

text \<open>C11: Ingesting keeps index and database equal, whether the alert is accepted, already known, rejected
  by the publisher or not persisted: provided the alert does not refer to itself and the publisher
  leaves the alert table alone. The database stays well formed.\<close>

theorem ingest_mirrors_database:
  assumes "okStore db" "mirrors tabView s db" "utcTime now" "Identifier a \<notin> set (ReferenceIDs a)"
    and "\<And>x d. db_alerts (snd (publish x d)) = db_alerts d" "\<And>x d. dbInv d \<Longrightarrow> dbInv (snd (publish x d))"
    and "Ingest (Some (sqliteOps f)) (Some publish) now a s db = (res, s', db')"
  shows "mirrors tabView s' db' \<and> okStore db'"
  by (rule ingest_mirrors [OF assms])

text \<open>The periodic sweep keeps index and database equal.\<close>

theorem expire_mirrors_database:
  assumes "okStore db" "mirrors tabView s db" "ExpireService (Some (sqliteOps f)) now s db = (res, s', db')"
  shows "mirrors tabView s' db'"
  by (rule sqlite.expire_mirrors [OF assms])

text \<open>An alert the publisher rejects never becomes active: the error is returned, the index, the
  number of accepted alerts and the alert table are as before, and only the rejection counter and the
  last error change.\<close>

theorem rejected_alert_not_stored:
  assumes "\<not> known a s" "publish a db = (Inl e, d)" "db_alerts d = db_alerts db"
  shows "Ingest store (Some publish) now a s db =
      (Inl (PublishFailed e), s\<lparr>lastError := ''prepare '' @ Identifier a @ '': '' @ e, rejected := rejected s + 1\<rparr>, d) \<and>
    db_alerts d = db_alerts db"
  using assms by (simp add: Ingest_def ingestReject_def SetError_def Let_def)

text \<open>Ingesting is idempotent: repeating an alert that was just accepted changes nothing, publishes
  nothing and reports success.\<close>

theorem ingest_idempotent:
  assumes "\<not> known a s" "Ingest store publish now a s db = (Inr u, s', db')"
  shows "Ingest store publish' later a s' db' = (Inr (), s', db')"
proof -
  have "known a s'"
    using assms by (auto simp: Ingest_def ingestCommit_def Let_def known_def update_conv'
        split: option.splits sum.splits prod.splits if_splits)
  then show ?thesis by (simp add: Ingest_def)
qed

text \<open>An accepted cancellation leaves none of the alerts it names active, is itself stored as
  cancelled, and does not touch any other alert.\<close>

theorem cancel_deactivates:
  assumes "\<not> known a s" "MsgType a = ''Cancel''" "Ingest store publish now a s db = (Inr u, s', db')"
  shows "case map_of (alerts s') i of
      None \<Rightarrow> map_of (alerts s) i = None \<and> i \<noteq> Identifier a
    | Some r \<Rightarrow> if i = Identifier a then rec_Alert r = a \<and> rec_State r = ''cancelled''
        else if i \<in> set (ReferenceIDs a) then rec_State r \<noteq> ''active''
        else map_of (alerts s) i = Some r"
proof -
  have "alerts s' = AList.update (Identifier a) \<lparr>rec_Alert = a, rec_ReceivedAt = UTC now, rec_State = ''cancelled''\<rparr>
      (foldl (supersedeRec ''cancelled'') (alerts s) (ReferenceIDs a))"
    using assms by (auto simp: Ingest_def ingestCommit_def Let_def split: option.splits sum.splits prod.splits if_splits)
  then show ?thesis
    by (auto simp: update_conv' map_of_supersedeRec split: option.splits)
qed

text \<open>An alert that lists itself among its references ends up active in the index but superseded (or
  cancelled) in the database, so a restart changes its state.\<close>

theorem self_reference_diverges:
  assumes "okStore db" "\<not> known a s" "MsgType a \<noteq> ''Cancel''" "Identifier a \<in> set (ReferenceIDs a)"
    and "ingestCommit (Some (sqliteOps f)) now a s db = (Inr u, s', db')"
  shows "map_option rec_State (map_of (alerts s') (Identifier a)) = Some ''active'' \<and>
    map_option (\<lambda>(_, st, _). st) (tabView db' (Identifier a)) = Some ''superseded''"
proof -
  define r where "r = \<lparr>rec_Alert = a, rec_ReceivedAt = UTC now, rec_State = ''active''\<rparr>"
  have "op_Upsert (sqliteOps f) now r (ReferenceIDs a) db = Inr db'"
    and s': "alerts s' = AList.update (Identifier a) r (foldl (supersedeRec ''superseded'') (alerts s) (ReferenceIDs a))"
    using assms(2,3,5) by (auto simp: ingestCommit_def Let_def r_def split: sum.splits)
  from sqlite.upsert_tab [OF assms(1) this(1), of "Identifier a"] s' assms(3,4) show ?thesis
    by (simp add: r_def viewRec_def supersedeView_def referenceState_def update_conv')
qed

text \<open>The sweep takes the mutex of the index only after the store has committed. If a new version of a
  swept alert is ingested in between, the database holds it as a current alert while the index has
  forgotten it.\<close>

theorem expire_race:
  assumes "okStore db" "op_Expire (sqliteOps f) now db = Inr (ids, db1)"
    and "\<not> known a s" "Identifier a \<in> set ids" "Identifier a \<notin> set (ReferenceIDs a)"
    and "ingestCommit (Some (sqliteOps f)) now a s db1 = (Inr u, s2, db2)"
  shows "AlertByID (Identifier a) (forget ids s2) = None \<and> tabView db2 (Identifier a) \<noteq> None"
proof -
  have ok: "okStore db1" by (rule sqlite.expire_ok [OF assms(1,2)])
  define r where "r = \<lparr>rec_Alert = a, rec_ReceivedAt = UTC now,
    rec_State = (if MsgType a = ''Cancel'' then ''cancelled'' else ''active'')\<rparr>"
  have "op_Upsert (sqliteOps f) now r (ReferenceIDs a) db1 = Inr db2"
    using assms(3,6) by (auto simp: ingestCommit_def Let_def r_def split: sum.splits)
  from sqlite.upsert_tab [OF ok this, of "Identifier a"] assms(4)
  show ?thesis by (simp add: AlertByID_def forget_def map_of_forget r_def)
qed

section \<open>Witnesses\<close>

definition acceptAll :: "Database publisher" where "acceptAll a db = (Inr (), db)"

lemma refs_sample: "ReferenceIDs (sampleAlert i t [] e) = []" "ReferenceIDs (sampleAlert i t ''b'' e) = [''b'']"
  by (simp_all add: ReferenceIDs_def sampleAlert_def Fields_def string_eval)

lemma mirrors_start: "mirrors tabView NewService emptyDatabase"
  by (simp add: mirrors_def NewService_def tabView_def emptyDatabase_def)

lemma ingest_sample:
  obtains s db where "Ingest (Some (sqliteOps (\<lambda>_. None))) (Some acceptAll) (sampleTime 10 0)
      (sampleAlert i t [] e) NewService emptyDatabase = (Inr (), s, db)" "mirrors tabView s db" "okStore db"
    "t \<noteq> ''Cancel'' \<Longrightarrow> map_option rec_Alert (map_of (alerts s) i) = Some (sampleAlert i t [] e)"
    "\<And>j. j \<noteq> i \<Longrightarrow> map_of (alerts s) j = None"
proof -
  have r: "Identifier (sampleAlert i t [] e) = i" "MsgType (sampleAlert i t [] e) = t"
    "Identifier (sampleAlert i t [] e) \<notin> set (ReferenceIDs (sampleAlert i t [] e))"
    unfolding refs_sample by (simp_all add: sampleAlert_def)
  have "\<exists>s db. Ingest (Some (sqliteOps (\<lambda>_. None))) (Some acceptAll) (sampleTime 10 0)
      (sampleAlert i t [] e) NewService emptyDatabase = (Inr (), s, db) \<and>
      (t \<noteq> ''Cancel'' \<longrightarrow> map_option rec_Alert (map_of (alerts s) i) = Some (sampleAlert i t [] e)) \<and>
      (\<forall>j. j \<noteq> i \<longrightarrow> map_of (alerts s) j = None)"
    by (simp add: Ingest_def known_def NewService_def acceptAll_def ingestCommit_def Let_def sqliteOps_def
        Upsert_def refs_sample r)
  then obtain s db where i: "Ingest (Some (sqliteOps (\<lambda>_. None))) (Some acceptAll) (sampleTime 10 0)
      (sampleAlert i t [] e) NewService emptyDatabase = (Inr (), s, db)"
    "t \<noteq> ''Cancel'' \<longrightarrow> map_option rec_Alert (map_of (alerts s) i) = Some (sampleAlert i t [] e)"
    "\<forall>j. j \<noteq> i \<longrightarrow> map_of (alerts s) j = None" by blast
  from ingest_mirrors [OF okStore_empty mirrors_start sampleTime_utc r(3) _ _ i(1)]
  show ?thesis using that [OF i(1)] i(2,3) by (auto simp: acceptAll_def)
qed

theorem ingest_mirrors_database_witness:
  "\<exists>s db. Ingest (Some (sqliteOps (\<lambda>_. None))) (Some acceptAll) (sampleTime 10 0)
     (sampleAlert ''a'' ''Alert'' [] []) NewService emptyDatabase = (Inr (), s, db) \<and>
     mirrors tabView s db \<and> okStore db"
proof -
  obtain s db where i: "Ingest (Some (sqliteOps (\<lambda>_. None))) (Some acceptAll) (sampleTime 10 0)
    (sampleAlert ''a'' ''Alert'' [] []) NewService emptyDatabase = (Inr (), s, db)" by (rule ingest_sample)
  have "Identifier (sampleAlert ''a'' ''Alert'' [] []) \<notin> set (ReferenceIDs (sampleAlert ''a'' ''Alert'' [] []))"
    by (simp add: refs_sample)
  from ingest_mirrors_database [OF okStore_empty mirrors_start sampleTime_utc this _ _ i] i
  show ?thesis by (auto simp: acceptAll_def)
qed

theorem recover_mirrors_database_witness:
  "\<exists>s db. Recover (Some (sqliteOps (\<lambda>_. None))) (sampleTime 10 0) NewService emptyDatabase = (Inr (), s, db) \<and>
     mirrors tabView s db"
proof -
  have "\<exists>s db. Recover (Some (sqliteOps (\<lambda>_. None))) (sampleTime 10 0) NewService emptyDatabase = (Inr (), s, db)"
    by (simp add: Recover_def sqliteOps_def ExpireAlerts_def LoadAlerts_def emptyDatabase_def orderDesc_def Let_def)
  then show ?thesis using recover_mirrors_database [OF okStore_empty] by blast
qed

theorem expire_mirrors_database_witness:
  "\<exists>s db r s' db'. alerts s \<noteq> [] \<and> mirrors tabView s db \<and>
     ExpireService (Some (sqliteOps (\<lambda>_. None))) (sampleTime 13 0) s db = (r, s', db') \<and> mirrors tabView s' db'"
proof -
  obtain s db where i: "mirrors tabView s db" "okStore db"
    "map_option rec_Alert (map_of (alerts s) ''a'') = Some (sampleAlert ''a'' ''Alert'' [] [])"
    by (rule ingest_sample [of "''a''" "''Alert''" "[]"]) simp
  obtain r s' db' where e: "ExpireService (Some (sqliteOps (\<lambda>_. None))) (sampleTime 13 0) s db = (r, s', db')"
    by (rule prod_cases3)
  have "alerts s \<noteq> []" using i(3) by auto
  with expire_mirrors_database [OF i(2,1) e] e i(1) show ?thesis by blast
qed

theorem rejected_alert_not_stored_witness:
  "Ingest None (Some (\<lambda>a db. (Inl ''no target'', db))) (sampleTime 10 0) (sampleAlert ''a'' ''Alert'' [] [])
     NewService emptyDatabase =
   (Inl (PublishFailed ''no target''),
    NewService\<lparr>lastError := ''prepare a: no target'', rejected := rejected NewService + 1\<rparr>, emptyDatabase)"
  using rejected_alert_not_stored [where a = "sampleAlert ''a'' ''Alert'' [] []" and s = NewService and
      publish = "\<lambda>a db. (Inl ''no target'', db)" and db = emptyDatabase and d = emptyDatabase and
      e = "''no target''" and store = None and now = "sampleTime 10 0"]
  by (simp add: known_def NewService_def sampleAlert_def)

theorem ingest_idempotent_witness:
  "\<exists>s db. alerts s \<noteq> [] \<and> Ingest (Some (sqliteOps (\<lambda>_. None))) None (sampleTime 11 0)
     (sampleAlert ''a'' ''Alert'' [] []) s db = (Inr (), s, db)"
proof -
  obtain s db where i: "Ingest (Some (sqliteOps (\<lambda>_. None))) (Some acceptAll) (sampleTime 10 0)
    (sampleAlert ''a'' ''Alert'' [] []) NewService emptyDatabase = (Inr (), s, db)"
    "map_option rec_Alert (map_of (alerts s) ''a'') = Some (sampleAlert ''a'' ''Alert'' [] [])"
    by (rule ingest_sample [of "''a''" "''Alert''" "[]"]) simp
  have "\<not> known (sampleAlert ''a'' ''Alert'' [] []) NewService" by (simp add: known_def NewService_def)
  from ingest_idempotent [OF this i(1), of None "sampleTime 11 0"] i(2) show ?thesis
    by (intro exI [of _ s] exI [of _ db]) auto
qed

lemma commit_sample_total:
  "\<not> known a s \<Longrightarrow> \<exists>s' db'. ingestCommit (Some (sqliteOps (\<lambda>_. None))) now a s db = (Inr (), s', db')"
  by (simp add: ingestCommit_def Let_def sqliteOps_def Upsert_def)

theorem cancel_deactivates_witness:
  "\<exists>s' db'. Ingest (Some (sqliteOps (\<lambda>_. None))) (Some acceptAll) (sampleTime 11 0)
      (sampleAlert ''c'' ''Cancel'' ''b'' []) (NewService\<lparr>alerts := [(''b'', sampleRecord [])]\<rparr>) emptyDatabase =
      (Inr (), s', db') \<and>
    (case map_of (alerts s') ''b'' of None \<Rightarrow> False | Some r \<Rightarrow> rec_State r \<noteq> ''active'')"
proof -
  let ?a = "sampleAlert ''c'' ''Cancel'' ''b'' []" and ?s = "NewService\<lparr>alerts := [(''b'', sampleRecord [])]\<rparr>"
  have a: "Identifier ?a = ''c''" "MsgType ?a = ''Cancel''" by (simp_all add: sampleAlert_def)
  then have k: "\<not> known ?a ?s" by (simp add: known_def)
  obtain s' db' where "ingestCommit (Some (sqliteOps (\<lambda>_. None))) (sampleTime 11 0) ?a ?s emptyDatabase = (Inr (), s', db')"
    using commit_sample_total [OF k] by blast
  then have i: "Ingest (Some (sqliteOps (\<lambda>_. None))) (Some acceptAll) (sampleTime 11 0) ?a ?s emptyDatabase = (Inr (), s', db')"
    using k by (simp add: Ingest_def acceptAll_def)
  from cancel_deactivates [OF k a(2) i, of "''b''"] a i refs_sample show ?thesis
    by (auto simp: NewService_def split: option.splits)
qed

theorem self_reference_diverges_witness:
  "\<exists>s' db'. ingestCommit (Some (sqliteOps (\<lambda>_. None))) (sampleTime 11 0) (sampleAlert ''b'' ''Update'' ''b'' [])
      NewService emptyDatabase = (Inr (), s', db') \<and>
    map_option rec_State (map_of (alerts s') ''b'') = Some ''active'' \<and>
    map_option (\<lambda>(_, st, _). st) (tabView db' ''b'') = Some ''superseded''"
proof -
  let ?a = "sampleAlert ''b'' ''Update'' ''b'' []"
  have a: "Identifier ?a = ''b''" "MsgType ?a \<noteq> ''Cancel''" by (simp_all add: sampleAlert_def)
  have k: "\<not> known ?a NewService" by (simp add: known_def NewService_def)
  obtain s' db' where c: "ingestCommit (Some (sqliteOps (\<lambda>_. None))) (sampleTime 11 0) ?a NewService emptyDatabase = (Inr (), s', db')"
    using commit_sample_total [OF k] by blast
  from self_reference_diverges [OF okStore_empty k a(2) _ c] a c refs_sample show ?thesis by auto
qed

theorem expire_race_witness:
  "\<exists>db ids db1 s2 db2. op_Expire (sqliteOps (\<lambda>_. None)) (sampleTime 13 0) db = Inr (ids, db1) \<and> ids = [''a''] \<and>
     ingestCommit (Some (sqliteOps (\<lambda>_. None))) (sampleTime 13 0) (sampleAlert ''a'' ''Update'' [] []) NewService db1 =
       (Inr (), s2, db2) \<and>
     AlertByID ''a'' (forget ids s2) = None \<and> tabView db2 ''a'' \<noteq> None"
proof -
  let ?r = "sampleRecord (formatRFC3339Nano (sampleTime 12 0))" and ?a = "sampleAlert ''a'' ''Update'' [] []"
  obtain db where u: "Upsert None (sampleTime 10 0) ?r [] emptyDatabase = Inr db" using Upsert_total by blast
  have ok: "okStore db"
    using sqlite.upsert_ok [OF okStore_empty, of ?r "\<lambda>_. None" "sampleTime 10 0" "[]"] u sampleTime_utc [of 10]
    by (simp add: sqliteOps_def sampleRecord_def)
  have e: "expiry (sampleAlert ''a'' ''Alert'' [] (formatRFC3339Nano (sampleTime 12 0))) = (sampleTime 12 0, True)"
    by (rule expiry_sample) simp_all
  have t: "textLE (formatRFC3339Nano (sampleTime 12 0)) (formatRFC3339Nano (sampleTime 13 0))"
    using textLE_format [of "sampleTime 12 0" "sampleTime 13 0"] sampleTime_ok [of 12 0] sampleTime_utc [of 13]
      sampleTime_local [of 12 0 13] by (simp add: textTime_def) (simp add: sampleTime_def)
  have "\<exists>db1. op_Expire (sqliteOps (\<lambda>_. None)) (sampleTime 13 0) db = Inr ([''a''], db1)"
    using u e t by (auto simp: sqliteOps_def ExpireAlerts_def Let_def Upsert_def sampleRecord_def emptyDatabase_def
        expired_def UTC_id [OF sampleTime_utc] sampleAlert_def)
  then obtain db1 where x: "op_Expire (sqliteOps (\<lambda>_. None)) (sampleTime 13 0) db = Inr ([''a''], db1)" by blast
  have a: "Identifier ?a = ''a''" by (simp add: sampleAlert_def)
  have k: "\<not> known ?a NewService" by (simp add: known_def NewService_def)
  obtain s2 db2 where c: "ingestCommit (Some (sqliteOps (\<lambda>_. None))) (sampleTime 13 0) ?a NewService db1 = (Inr (), s2, db2)"
    using commit_sample_total [OF k] by blast
  have "AlertByID ''a'' (forget [''a''] s2) = None \<and> tabView db2 ''a'' \<noteq> None"
    using expire_race [OF ok x k _ _ c] a refs_sample by simp
  with x c show ?thesis by blast
qed

end
