(* ===== verification/Delivery.thy ===== *)
theory Delivery
  imports Delivery_Assoc Cbs_Preparer Service_Core
begin

text \<open>
  \<open>internal/delivery/delivery.go\<close>, the publisher over its associations: \<open>Publish\<close>, \<open>send\<close>, the handling
  of MME indications and the reconnect backoff. What \<open>sendAndAwait\<close> does for one request on the
  association of one peer is a function \<open>exchange\<close> over the state of the network; its contract is the
  locale \<open>mme_network\<close>, which the association machine provides.
\<close>

section \<open>Sending\<close>

type_synonym 'w exchange = "string \<Rightarrow> byte list \<Rightarrow> int \<Rightarrow> u16 \<Rightarrow> u16 \<Rightarrow> 'w \<Rightarrow> send_error option \<times> 'w"

text \<open>The method \<open>send\<close>: the peers in the order of the configuration, up to the first that fails.\<close>

fun sendPeers :: "'w exchange \<Rightarrow> SBcAPPeer list \<Rightarrow> byte list \<Rightarrow> int \<Rightarrow> u16 \<Rightarrow> u16 \<Rightarrow> 'w \<Rightarrow> send_error option \<times> 'w" where
  "sendPeers ex [] pdu procedure messageID serial w = (None, w)"
| "sendPeers ex (peer # peers) pdu procedure messageID serial w =
     (case ex (PeerName peer) pdu procedure messageID serial w of
        (Some e, w) \<Rightarrow> (Some e, w)
      | (None, w) \<Rightarrow> sendPeers ex peers pdu procedure messageID serial w)"

datatype publish_error =
    PreparePlan prepare_error
  | LoadPlan string "store_error option"
  | DecodePlan string
  | WireError wire_error
  | SendError send_error

text \<open>The loop over the messages of a plan that \<open>Publish\<close> has for broadcasts and for cancels.\<close>

fun publishMessages :: "(Message \<Rightarrow> wire_error + byte list) \<Rightarrow> (byte list \<Rightarrow> u16 \<Rightarrow> u16 \<Rightarrow> 'w \<Rightarrow> send_error option \<times> 'w) \<Rightarrow>
    Message list \<Rightarrow> 'w \<Rightarrow> (publish_error + unit) \<times> 'w" where
  "publishMessages encode transmit [] w = (Inr (), w)"
| "publishMessages encode transmit (m # ms) w =
     (case encode m of
        Inl e \<Rightarrow> (Inl (WireError e), w)
      | Inr pdu \<Rightarrow>
          (case transmit pdu (m_MessageIdentifier m) (m_SerialNumber m) w of
             (Some e, w) \<Rightarrow> (Inl (SendError e), w)
           | (None, w) \<Rightarrow> publishMessages encode transmit ms w))"

text \<open>The loop over the references of a cancel.\<close>

fun cancelPlans :: "(string \<Rightarrow> store_error + Plan blob option) \<Rightarrow> (Message \<Rightarrow> wire_error + byte list) \<Rightarrow>
    (byte list \<Rightarrow> u16 \<Rightarrow> u16 \<Rightarrow> 'w \<Rightarrow> send_error option \<times> 'w) \<Rightarrow> string list \<Rightarrow> 'w \<Rightarrow> (publish_error + unit) \<times> 'w" where
  "cancelPlans plan encode transmit [] w = (Inr (), w)"
| "cancelPlans plan encode transmit (i # is) w =
     (case plan i of
        Inl e \<Rightarrow> (Inl (LoadPlan i (Some e)), w)
      | Inr None \<Rightarrow> (Inl (LoadPlan i None), w)
      | Inr (Some Garbled) \<Rightarrow> (Inl (DecodePlan i), w)
      | Inr (Some (Json p)) \<Rightarrow>
          (case publishMessages encode transmit (Messages p) w of
             (Inl e, w) \<Rightarrow> (Inl e, w)
           | (Inr _, w) \<Rightarrow> cancelPlans plan encode transmit is w))"

definition Publish :: "SBcAPConfig \<Rightarrow> Preparer \<Rightarrow> 'db Repository \<Rightarrow> 'db StoreOps \<Rightarrow> 'w exchange \<Rightarrow> Alert \<Rightarrow>
    'db \<times> 'w \<Rightarrow> (publish_error + unit) \<times> 'db \<times> 'w" where
  "Publish cfg p repo store ex a = (\<lambda>(db, w).
     (if \<not> SBcAPEnabled cfg then
        (case PublishPrepared p repo a db of
           (Inl e, db) \<Rightarrow> (Inl (PreparePlan e), db, w)
         | (Inr _, db) \<Rightarrow> (Inr (), db, w))
      else if MsgType a = ''Cancel'' then
        (case cancelPlans (\<lambda>i. op_Plan store i db) (\<lambda>m. SBcAPStop m (PLMN cfg))
            (\<lambda>pdu. sendPeers ex (Peers cfg) pdu ProcedureStop) (ReferenceIDs a) w of
           (r, w) \<Rightarrow> (r, db, w))
      else
        (case Prepare p repo a db of
           (Inl e, db) \<Rightarrow> (Inl (PreparePlan e), db, w)
         | (Inr plan, db) \<Rightarrow>
             (case publishMessages (\<lambda>m. SBcAPWriteReplace m (RepetitionPeriod cfg) (Broadcasts cfg) (PLMN cfg))
                 (\<lambda>pdu. sendPeers ex (Peers cfg) pdu ProcedureWriteReplace) (Messages plan) w of
                (r, w) \<Rightarrow> (r, db, w)))))"

section \<open>Indications\<close>

text \<open>\<open>MetricsRecorder\<close>; \<open>None\<close> when \<open>SetMetricsRecorder\<close> was never called.\<close>

record 'm MetricsRecorder =
  mr_RestartIndications :: "'m \<Rightarrow> 'm"
  mr_FailureIndications :: "'m \<Rightarrow> 'm"
  mr_RestartRebroadcasts :: "'m \<Rightarrow> 'm"

text \<open>The counters after an indication, and what \<open>handleRestart\<close> is started with.\<close>

definition handleIndication :: "'m MetricsRecorder option \<Rightarrow> byte list \<Rightarrow> int \<Rightarrow> 'm \<Rightarrow> 'm \<times> RestartIndication option" where
  "handleIndication metrics pdu procedure m =
     (if procedure = ProcedureWriteReplaceWarningIndication then (m, None)
      else if procedure = ProcedurePWSRestartIndication then
        (case DecodeRestartIndication pdu of
           Inl _ \<Rightarrow> (m, None)
         | Inr ri \<Rightarrow> ((case metrics of None \<Rightarrow> m | Some r \<Rightarrow> mr_RestartIndications r m), Some ri))
      else if procedure = ProcedurePWSFailureIndication then
        (case DecodeFailureIndication pdu of
           Inl _ \<Rightarrow> (m, None)
         | Inr fi \<Rightarrow> ((case metrics of None \<Rightarrow> m | Some r \<Rightarrow> mr_FailureIndications r m), None))
      else (m, None))"

definition narrowTargetToRestart :: "Target \<Rightarrow> u32 set \<Rightarrow> u16 set \<Rightarrow> Target option" where
  "narrowTargetToRestart t ecis tacs =
     (if Scope t = CellWide then
        (let overlap = filter (\<lambda>c. case parseUint0 32 (TrimSpace c) of
             None \<Rightarrow> False | Some v \<Rightarrow> (word_of_nat v :: u32) \<in> ecis) (Cells t)
         in if length overlap = 0 then None
            else Some \<lparr>Scope = CellWide, Cells = overlap, TrackingAreas = []\<rparr>)
      else if Scope t = TrackingAreaWide then
        (let overlap = filter (\<lambda>ta. case parseUint0 32 (TrimSpace ta) of
             None \<Rightarrow> False | Some v \<Rightarrow> (word_of_nat v :: u16) \<in> tacs) (TrackingAreas t)
         in if length overlap = 0 then None
            else Some \<lparr>Scope = TrackingAreaWide, Cells = [], TrackingAreas = overlap\<rparr>)
      else None)"

text \<open>One message of an active alert: its errors are logged and the loop goes on.\<close>

definition restartMessage :: "SBcAPConfig \<Rightarrow> 'w exchange \<Rightarrow> 'm MetricsRecorder option \<Rightarrow> string \<Rightarrow> RestartIndication \<Rightarrow>
    Message \<Rightarrow> 'w \<times> 'm \<Rightarrow> 'w \<times> 'm" where
  "restartMessage cfg ex metrics peer ri m = (\<lambda>(w, k).
     (case narrowTargetToRestart (m_Target m) (snd ` set (RestartedCells ri)) (snd ` set (RestartedTAIs ri)) of
        None \<Rightarrow> (w, k)
      | Some narrowed \<Rightarrow>
          (case SBcAPWriteReplace (m\<lparr>m_Target := narrowed\<rparr>) (RepetitionPeriod cfg) (Broadcasts cfg) (PLMN cfg) of
             Inl _ \<Rightarrow> (w, k)
           | Inr pdu \<Rightarrow>
               (case ex peer pdu ProcedureWriteReplace (m_MessageIdentifier m) (m_SerialNumber m) w of
                  (Some _, w) \<Rightarrow> (w, k)
                | (None, w) \<Rightarrow> (w, case metrics of None \<Rightarrow> k | Some r \<Rightarrow> mr_RestartRebroadcasts r k)))))"

definition restartRecord :: "SBcAPConfig \<Rightarrow> (string \<Rightarrow> store_error + Plan blob option) \<Rightarrow> 'w exchange \<Rightarrow>
    'm MetricsRecorder option \<Rightarrow> string \<Rightarrow> RestartIndication \<Rightarrow> 'w \<times> 'm \<Rightarrow> Record \<Rightarrow> 'w \<times> 'm" where
  "restartRecord cfg plan ex metrics peer ri = (\<lambda>wk rec.
     (if rec_State rec \<noteq> ''active'' then wk
      else case plan (Identifier (rec_Alert rec)) of
        Inr (Some (Json p)) \<Rightarrow> foldl (\<lambda>wk m. restartMessage cfg ex metrics peer ri m wk) wk (Messages p)
      | _ \<Rightarrow> wk))"

text \<open>The alerts and plans are read from \<open>db\<close>; other goroutines may write to the store meanwhile, which
  this function does not follow.\<close>

definition handleRestart :: "SBcAPConfig \<Rightarrow> 'db StoreOps \<Rightarrow> 'w exchange \<Rightarrow> 'm MetricsRecorder option \<Rightarrow> string \<Rightarrow>
    RestartIndication \<Rightarrow> 'db \<Rightarrow> 'w \<times> 'm \<Rightarrow> 'w \<times> 'm" where
  "handleRestart cfg store ex metrics peer ri db wk =
     (if (case PlmnTBCD (PLMN cfg) of
            Inr plmn \<Rightarrow> length (genb_PLMN (ri_GlobalENBID ri)) = 3 \<and> plmn \<noteq> genb_PLMN (ri_GlobalENBID ri)
          | Inl _ \<Rightarrow> False) then wk
      else case op_Load store db of
        Inl _ \<Rightarrow> wk
      | Inr records \<Rightarrow> foldl (restartRecord cfg (\<lambda>i. op_Plan store i db) ex metrics peer ri) wk records)"

section \<open>Reconnecting\<close>

text \<open>\<open>if backoff *= 2; backoff > p.cfg.ReconnectMax { backoff = p.cfg.ReconnectMax }\<close>, on 64 bits.\<close>

definition nextBackoff :: "SBcAPConfig \<Rightarrow> duration \<Rightarrow> duration" where
  "nextBackoff cfg backoff =
     (let backoff = signed_take_bit 63 (backoff * 2)
      in if backoff > ReconnectMax cfg then ReconnectMax cfg else backoff)"

text \<open>A round of \<open>maintain\<close>: the dial fails, or the association is established and lives for some time.\<close>

datatype round = DialFailed | Lived duration

text \<open>The wait after a round and the backoff for the next.\<close>

definition maintainRound :: "SBcAPConfig \<Rightarrow> duration \<Rightarrow> round \<Rightarrow> duration \<times> duration" where
  "maintainRound cfg backoff r =
     (case r of
        DialFailed \<Rightarrow> (backoff, nextBackoff cfg backoff)
      | Lived d \<Rightarrow> if d < ReconnectMin cfg then (backoff, nextBackoff cfg backoff) else (0, ReconnectMin cfg))"

fun maintainLoop :: "SBcAPConfig \<Rightarrow> duration \<Rightarrow> round list \<Rightarrow> duration list" where
  "maintainLoop cfg backoff [] = []"
| "maintainLoop cfg backoff (r # rs) =
     (case maintainRound cfg backoff r of (wait, backoff) \<Rightarrow> wait # maintainLoop cfg backoff rs)"

definition maintain :: "SBcAPConfig \<Rightarrow> round list \<Rightarrow> duration list" where
  "maintain cfg rs = maintainLoop cfg (ReconnectMin cfg) rs"

section \<open>The contract of the network\<close>

text \<open>
  What the publisher relies on: a successful exchange leaves the request accepted by the peer, and what
  has been accepted stays so. \<open>okw\<close> is the invariant of the network.
\<close>

definition acceptedEverywhere :: "('w \<Rightarrow> string \<Rightarrow> int \<Rightarrow> u16 \<Rightarrow> u16 \<Rightarrow> bool) \<Rightarrow> 'w \<Rightarrow> SBcAPPeer list \<Rightarrow> int \<Rightarrow> Message \<Rightarrow> bool" where
  "acceptedEverywhere accepted w peers p m \<longleftrightarrow>
     (\<forall>peer \<in> set peers. accepted w (PeerName peer) p (m_MessageIdentifier m) (m_SerialNumber m))"

locale mme_network =
  fixes ex :: "'w exchange"
    and accepted :: "'w \<Rightarrow> string \<Rightarrow> int \<Rightarrow> u16 \<Rightarrow> u16 \<Rightarrow> bool"
    and okw :: "'w \<Rightarrow> bool"
  assumes exchange_ok: "okw w \<Longrightarrow> ex n pdu p m s w = (r, w') \<Longrightarrow> okw w'"
    and exchange_success: "okw w \<Longrightarrow> ex n pdu p m s w = (None, w') \<Longrightarrow> accepted w' n p m s"
    and exchange_keeps: "okw w \<Longrightarrow> ex n pdu p m s w = (r, w') \<Longrightarrow> accepted w k q i t \<Longrightarrow> accepted w' k q i t"
begin

lemma sendPeers_keeps:
  "okw w \<Longrightarrow> sendPeers ex peers pdu p m s w = (r, w') \<Longrightarrow>
     okw w' \<and> (\<forall>k q i t. accepted w k q i t \<longrightarrow> accepted w' k q i t)"
proof (induction peers arbitrary: w)
  case (Cons peer peers)
  obtain r1 w1 where e: "ex (PeerName peer) pdu p m s w = (r1, w1)" by fastforce
  note k = exchange_ok [OF Cons.prems(1) e] exchange_keeps [OF Cons.prems(1) e]
  show ?case
  proof (cases r1)
    case None
    then show ?thesis using Cons.IH [of w1] Cons.prems e k by auto
  next
    case (Some err)
    then show ?thesis using Cons.prems e k by auto
  qed
qed auto

lemma sendPeers_accepted:
  "okw w \<Longrightarrow> sendPeers ex peers pdu p m s w = (None, w') \<Longrightarrow> peer \<in> set peers \<Longrightarrow> accepted w' (PeerName peer) p m s"
proof (induction peers arbitrary: w)
  case (Cons x peers)
  obtain r1 w1 where e: "ex (PeerName x) pdu p m s w = (r1, w1)" by fastforce
  then have r: "r1 = None" and n: "sendPeers ex peers pdu p m s w1 = (None, w')"
    using Cons.prems(2) by (auto split: option.splits)
  have ok: "okw w1" by (rule exchange_ok [OF Cons.prems(1) e])
  show ?case
  proof (cases "peer = x")
    case True
    then show ?thesis
      using exchange_success [OF Cons.prems(1)] e r sendPeers_keeps [OF ok n] by blast
  next
    case False
    then show ?thesis using Cons.IH [OF ok n] Cons.prems(3) by simp
  qed
qed simp

lemma publishMessages_accepted:
  "okw w \<Longrightarrow> publishMessages encode (\<lambda>pdu. sendPeers ex peers pdu p) ms w = (r, w') \<Longrightarrow>
     okw w' \<and> (\<forall>k q i t. accepted w k q i t \<longrightarrow> accepted w' k q i t) \<and>
     (r = Inr () \<longrightarrow> (\<forall>m \<in> set ms. acceptedEverywhere accepted w' peers p m))"
proof (induction ms arbitrary: w)
  case (Cons m ms)
  show ?case
  proof (cases "encode m")
    case (Inl e)
    then show ?thesis using Cons.prems by auto
  next
    case (Inr pdu)
    obtain r1 w1 where e: "sendPeers ex peers pdu p (m_MessageIdentifier m) (m_SerialNumber m) w = (r1, w1)" by fastforce
    note k = sendPeers_keeps [OF Cons.prems(1) e]
    show ?thesis
    proof (cases r1)
      case (Some err)
      then show ?thesis using Cons.prems Inr e k by auto
    next
      case None
      then have n: "publishMessages encode (\<lambda>pdu. sendPeers ex peers pdu p) ms w1 = (r, w')"
        using Cons.prems(2) Inr e by simp
      have "acceptedEverywhere accepted w1 peers p m"
        unfolding acceptedEverywhere_def using sendPeers_accepted [OF Cons.prems(1)] e None by blast
      with Cons.IH [OF _ n] k show ?thesis by (auto simp: acceptedEverywhere_def)
    qed
  qed
qed auto

lemma cancelPlans_accepted:
  "okw w \<Longrightarrow> cancelPlans plan encode (\<lambda>pdu. sendPeers ex peers pdu p) is w = (r, w') \<Longrightarrow>
     okw w' \<and> (\<forall>k q i t. accepted w k q i t \<longrightarrow> accepted w' k q i t) \<and>
     (r = Inr () \<longrightarrow> (\<forall>i \<in> set is. \<exists>pl. plan i = Inr (Some (Json pl)) \<and>
        (\<forall>m \<in> set (Messages pl). acceptedEverywhere accepted w' peers p m)))"
proof (induction "is" arbitrary: w)
  case (Cons i "is")
  show ?case
  proof (cases "\<exists>pl. plan i = Inr (Some (Json pl))")
    case False
    then show ?thesis using Cons.prems by (auto split: sum.splits option.splits blob.splits)
  next
    case True
    then obtain pl where pl: "plan i = Inr (Some (Json pl))" by blast
    obtain r1 w1 where e: "publishMessages encode (\<lambda>pdu. sendPeers ex peers pdu p) (Messages pl) w = (r1, w1)" by fastforce
    note k = publishMessages_accepted [OF Cons.prems(1) e]
    show ?thesis
    proof (cases r1)
      case (Inl err)
      then show ?thesis using Cons.prems pl e k by auto
    next
      case (Inr u)
      then have n: "cancelPlans plan encode (\<lambda>pdu. sendPeers ex peers pdu p) is w1 = (r, w')"
        using Cons.prems(2) pl e by simp
      from Cons.IH [OF _ n] k Inr pl show ?thesis by (auto simp: acceptedEverywhere_def)
    qed
  qed
qed auto

lemma Publish_accepted:
  assumes "okw w" "Publish cfg p repo store ex a (db, w) = (Inr (), db', w')" "SBcAPEnabled cfg"
  shows "if MsgType a = ''Cancel'' then
      (\<forall>i \<in> set (ReferenceIDs a). \<exists>pl. op_Plan store i db = Inr (Some (Json pl)) \<and>
         (\<forall>m \<in> set (Messages pl). acceptedEverywhere accepted w' (Peers cfg) ProcedureStop m))
    else (\<exists>plan. Prepare p repo a db = (Inr plan, db') \<and>
         (\<forall>m \<in> set (Messages plan). acceptedEverywhere accepted w' (Peers cfg) ProcedureWriteReplace m))"
proof (cases "MsgType a = ''Cancel''")
  case True
  then have "cancelPlans (\<lambda>i. op_Plan store i db) (\<lambda>m. SBcAPStop m (PLMN cfg))
            (\<lambda>pdu. sendPeers ex (Peers cfg) pdu ProcedureStop) (ReferenceIDs a) w = (Inr (), w')"
    using assms by (auto simp: Publish_def split: prod.splits)
  from cancelPlans_accepted [OF assms(1) this] True show ?thesis by simp
next
  case False
  then obtain plan where "Prepare p repo a db = (Inr plan, db')"
    "publishMessages (\<lambda>m. SBcAPWriteReplace m (RepetitionPeriod cfg) (Broadcasts cfg) (PLMN cfg))
       (\<lambda>pdu. sendPeers ex (Peers cfg) pdu ProcedureWriteReplace) (Messages plan) w = (Inr (), w')"
    using assms by (auto simp: Publish_def split: prod.splits sum.splits)
  from publishMessages_accepted [OF assms(1) this(2)] this(1) False show ?thesis by auto
qed

lemma Publish_keeps:
  assumes "okw w" "Publish cfg p repo store ex a (db, w) = (r, db', w')"
  shows "okw w' \<and> (\<forall>k q i t. accepted w k q i t \<longrightarrow> accepted w' k q i t)"
proof -
  consider "w' = w"
    | r2 where "cancelPlans (\<lambda>i. op_Plan store i db) (\<lambda>m. SBcAPStop m (PLMN cfg))
        (\<lambda>pdu. sendPeers ex (Peers cfg) pdu ProcedureStop) (ReferenceIDs a) w = (r2, w')"
    | r2 ms where "publishMessages (\<lambda>m. SBcAPWriteReplace m (RepetitionPeriod cfg) (Broadcasts cfg) (PLMN cfg))
        (\<lambda>pdu. sendPeers ex (Peers cfg) pdu ProcedureWriteReplace) ms w = (r2, w')"
    using assms(2) unfolding Publish_def by (auto split: if_splits prod.splits sum.splits)
  then show ?thesis
    using cancelPlans_accepted [OF assms(1)] publishMessages_accepted [OF assms(1)] assms(1) by cases blast+
qed

end

section \<open>The association machine is such a network\<close>

text \<open>
  One transaction on an association. The moves that happen meanwhile, of the reader and of the network,
  are given; those not possible when their turn comes do not happen. After the last one only the
  sender is left: its write ends, or its timer fires. A sender that finds \<open>sendMu\<close> taken waits for the
  transaction in progress.
\<close>

definition tryMove :: "mmeAssociation \<Rightarrow> move \<Rightarrow> mmeAssociation" where
  "tryMove a mv = (case assocMove mv a of None \<Rightarrow> a | Some b \<Rightarrow> b)"

definition alone :: "move list" where
  "alone = [Install, Write None, Timer, Return]"

fun transact :: "move list \<Rightarrow> mmeAssociation \<Rightarrow> mmeAssociation \<times> move list" where
  "transact [] a = (foldl tryMove a alone, [])"
| "transact (mv # mvs) a = (if as_sending a = None then (a, mv # mvs) else transact mvs (tryMove a mv))"

definition lastResult :: "mmeAssociation \<Rightarrow> send_error option" where
  "lastResult a = (case as_log a of Returned j r # _ \<Rightarrow> r | _ \<Rightarrow> None)"

definition sendAndAwait :: "byte list \<Rightarrow> int \<Rightarrow> u16 \<Rightarrow> u16 \<Rightarrow> move list \<Rightarrow> mmeAssociation \<Rightarrow>
    send_error option \<times> mmeAssociation \<times> move list" where
  "sendAndAwait pdu procedure messageID serial mvs a =
     (case transact mvs a of (a, mvs) \<Rightarrow>
      case transact mvs (tryMove a (Send pdu procedure messageID serial)) of (a, mvs) \<Rightarrow>
      (lastResult a, a, mvs))"

text \<open>The associations by peer name, and what happens next on each.\<close>

record Network =
  nw_assocs :: "string \<Rightarrow> mmeAssociation option"
  nw_moves :: "string \<Rightarrow> move list"

text \<open>The map that \<open>New\<close> makes; of two peers with one name the later has the association.\<close>

definition newAssocs :: "SBcAPPeer list \<Rightarrow> string \<Rightarrow> mmeAssociation option" where
  "newAssocs peers = foldl (\<lambda>m peer. m(PeerName peer \<mapsto> newAssociation peer)) Map.empty peers"

text \<open>\<open>p.assocs[peer.Name].sendAndAwait(...)\<close>. Every configured peer has an association, so the first case
  never arises.\<close>

definition networkExchange :: "Network exchange" where
  "networkExchange name pdu procedure messageID serial w =
     (case nw_assocs w name of
        None \<Rightarrow> (Some (NotConnected name), w)
      | Some a \<Rightarrow>
          (case sendAndAwait pdu procedure messageID serial (nw_moves w name) a of (r, b, mvs) \<Rightarrow>
            (r, w\<lparr>nw_assocs := (nw_assocs w)(name \<mapsto> b), nw_moves := (nw_moves w)(name := mvs)\<rparr>)))"

definition okNetwork :: "Network \<Rightarrow> bool" where
  "okNetwork w \<longleftrightarrow> (\<forall>name a. nw_assocs w name = Some a \<longrightarrow> reachableAssoc a)"

text \<open>The MME has answered a request of this procedure and these ids with a successful outcome.\<close>

definition mmeAccepted :: "Network \<Rightarrow> string \<Rightarrow> int \<Rightarrow> u16 \<Rightarrow> u16 \<Rightarrow> bool" where
  "mmeAccepted w name procedure messageID serial \<longleftrightarrow>
     (\<exists>a pdu. nw_assocs w name = Some a \<and> Got pdu \<in> set (as_log a) \<and>
        Header pdu = Inr (OutcomeSuccessful, procedure) \<and> ResponseIDs pdu procedure = Inr (messageID, serial))"

lemma move_log: "assocMove mv a = Some b \<Longrightarrow> set (as_log a) \<subseteq> set (as_log b)"
  by (cases mv)
    (auto simp: assocMove_def setConn_def clearConn_def readRound_def failAwaiting_def offerResult_def sendPhase_def Let_def
      split: option.splits reader_phase.splits sum.splits if_splits send_phase.splits prod.splits)


lemma move_sending:
  assumes "assocMove mv a = Some b" "as_sending a = Some s"
  shows "(\<exists>t. as_sending b = Some t \<and> sn_job t = sn_job s) \<or>
    as_sending b = None \<and> (\<exists>r. as_log b = Returned (sn_job s) r # as_log a)"
  using assms
  by (cases mv)
    (auto simp: assocMove_def setConn_def clearConn_def readRound_def failAwaiting_def offerResult_def sendPhase_def Let_def
      split: option.splits reader_phase.splits sum.splits if_splits send_phase.splits prod.splits)

lemma tryMove_reachable: "reachableAssoc a \<Longrightarrow> reachableAssoc (tryMove a mv)"
  by (auto simp: tryMove_def intro: reachableAssoc.step split: option.splits)

lemma tryMove_log: "set (as_log a) \<subseteq> set (as_log (tryMove a mv))"
  using move_log by (auto simp: tryMove_def split: option.splits)

lemma tryMoves:
  "reachableAssoc a \<Longrightarrow> reachableAssoc (foldl tryMove a mvs) \<and> set (as_log a) \<subseteq> set (as_log (foldl tryMove a mvs))"
proof (induction mvs arbitrary: a)
  case (Cons mv mvs)
  from Cons.IH [OF tryMove_reachable [OF Cons.prems], of mv] tryMove_log [of a mv] show ?case by auto
qed simp

lemma alone_ends:
  assumes "as_sending a = Some s"
  shows "as_sending (foldl tryMove a alone) = None \<and> (\<exists>r es. as_log (foldl tryMove a alone) = Returned (sn_job s) r # es)"
proof (cases "sn_phase s")
  case Taken
  then show ?thesis using assms by (simp add: alone_def tryMove_def assocMove_def sendPhase_def)
next
  case Installed
  then show ?thesis using assms by (simp add: alone_def tryMove_def assocMove_def sendPhase_def)
next
  case Waiting
  then show ?thesis using assms by (simp add: alone_def tryMove_def assocMove_def sendPhase_def)
next
  case (Returning r)
  then show ?thesis using assms by (simp add: alone_def tryMove_def assocMove_def sendPhase_def)
qed

lemma transact_reachable:
  "transact mvs a = (b, rest) \<Longrightarrow> reachableAssoc a \<Longrightarrow> reachableAssoc b \<and> set (as_log a) \<subseteq> set (as_log b)"
proof (induction mvs arbitrary: a)
  case Nil
  then show ?case using tryMoves by auto
next
  case (Cons mv mvs)
  show ?case
  proof (cases "as_sending a = None")
    case True
    then show ?thesis using Cons.prems by simp
  next
    case False
    with Cons.prems(1) have t: "transact mvs (tryMove a mv) = (b, rest)" by simp
    from Cons.IH [OF t tryMove_reachable [OF Cons.prems(2)]] tryMove_log [of a mv] show ?thesis by blast
  qed
qed

lemma transact_ends:
  "transact mvs a = (b, rest) \<Longrightarrow> as_sending a = Some s \<Longrightarrow>
     as_sending b = None \<and> (\<exists>r es. as_log b = Returned (sn_job s) r # es)"
proof (induction mvs arbitrary: a s)
  case Nil
  then show ?case using alone_ends [OF Nil(2)] by auto
next
  case (Cons mv mvs)
  then have t: "transact mvs (tryMove a mv) = (b, rest)" by simp
  show ?case
  proof (cases "assocMove mv a")
    case None
    then show ?thesis using Cons.IH [OF t] Cons.prems by (simp add: tryMove_def)
  next
    case (Some c)
    then have c: "tryMove a mv = c" by (simp add: tryMove_def)
    from move_sending [OF Some Cons.prems(2)] show ?thesis
    proof
      assume "\<exists>u. as_sending c = Some u \<and> sn_job u = sn_job s"
      then obtain u where "as_sending c = Some u" "sn_job u = sn_job s" by blast
      with Cons.IH [OF t] show ?thesis by (auto simp: c)
    next
      assume d: "as_sending c = None \<and> (\<exists>r. as_log c = Returned (sn_job s) r # as_log a)"
      have "transact mvs c = (c, mvs) \<or> mvs = []" using d by (cases mvs) auto
      moreover have "foldl tryMove c alone = c"
        using d by (simp add: alone_def tryMove_def assocMove_def)
      ultimately have "b = c" using t c by auto
      with d show ?thesis by auto
    qed
  qed
qed

lemma transact_idle: "transact mvs a = (b, rest) \<Longrightarrow> as_sending b = None"
proof (cases "as_sending a")
  case None
  assume t: "transact mvs a = (b, rest)"
  have "foldl tryMove a alone = a" using None by (simp add: alone_def tryMove_def assocMove_def)
  with None t show ?thesis by (cases mvs) auto
next
  case (Some s)
  assume t: "transact mvs a = (b, rest)"
  from transact_ends [OF t Some] show ?thesis by blast
qed

lemma sendAndAwait_result:
  assumes "reachableAssoc a" "sendAndAwait pdu p m s mvs a = (r, b, rest)"
  shows "reachableAssoc b \<and> set (as_log a) \<subseteq> set (as_log b) \<and>
    (\<exists>j. Returned j r \<in> set (as_log b) \<and> pj_procedure j = p \<and> pj_messageID j = m \<and> pj_serial j = s)"
proof -
  obtain a1 m1 where 1: "transact mvs a = (a1, m1)" by fastforce
  define a2 where "a2 = tryMove a1 (Send pdu p m s)"
  have t: "transact m1 a2 = (b, rest)" "r = lastResult b"
    using assms(2) 1 by (auto simp: sendAndAwait_def a2_def split: prod.splits)
  have r1: "reachableAssoc a1" "set (as_log a) \<subseteq> set (as_log a1)" using transact_reachable [OF 1 assms(1)] by auto
  have r2: "reachableAssoc a2" "set (as_log a1) \<subseteq> set (as_log a2)"
    unfolding a2_def using tryMove_reachable [OF r1(1)] tryMove_log by auto
  have r3: "reachableAssoc b" "set (as_log a2) \<subseteq> set (as_log b)" using transact_reachable [OF t(1) r2(1)] by auto
  have "as_sending a1 = None" by (rule transact_idle [OF 1])
  then obtain x where x: "as_sending a2 = Some x" "pj_procedure (sn_job x) = p" "pj_messageID (sn_job x) = m"
    "pj_serial (sn_job x) = s"
    unfolding a2_def tryMove_def assocMove_def by (cases "current a1") (simp add: Let_def)
  obtain r' es where e: "as_log b = Returned (sn_job x) r' # es" using transact_ends [OF t(1) x(1)] by blast
  then have "r = r'" using t(2) by (simp add: lastResult_def)
  then show ?thesis using r1 r2 r3 x e by auto
qed


interpretation mme: mme_network networkExchange mmeAccepted okNetwork
proof
  fix w n pdu p m s r w'
  assume ok: "okNetwork w" and e: "networkExchange n pdu p m s w = (r, w')"
  show "okNetwork w'"
  proof (cases "nw_assocs w n")
    case None
    then show ?thesis using ok e by (simp add: networkExchange_def)
  next
    case (Some a)
    then have "reachableAssoc a" using ok by (simp add: okNetwork_def)
    moreover obtain b mvs where b: "sendAndAwait pdu p m s (nw_moves w n) a = (r, b, mvs)"
      and w': "nw_assocs w' = (nw_assocs w)(n \<mapsto> b)"
      using e Some by (auto simp: networkExchange_def split: prod.splits)
    ultimately have "reachableAssoc b" using sendAndAwait_result by blast
    with ok show ?thesis by (simp add: okNetwork_def w')
  qed
next
  fix w n pdu p m s w'
  assume ok: "okNetwork w" and e: "networkExchange n pdu p m s w = (None, w')"
  then obtain a b mvs where a: "nw_assocs w n = Some a" "sendAndAwait pdu p m s (nw_moves w n) a = (None, b, mvs)"
    and w': "nw_assocs w' n = Some b"
    by (auto simp: networkExchange_def split: option.splits prod.splits)
  have "reachableAssoc a" using ok a by (simp add: okNetwork_def)
  from sendAndAwait_result [OF this a(2)] obtain j where b: "reachableAssoc b" and j: "Returned j None \<in> set (as_log b)"
    "pj_procedure j = p" "pj_messageID j = m" "pj_serial j = s" by blast
  from success_log [OF b j(1)] j(2-4) w' show "mmeAccepted w' n p m s" by (auto simp: mmeAccepted_def)
next
  fix w n pdu p m s r w' k q i t
  assume ok: "okNetwork w" and e: "networkExchange n pdu p m s w = (r, w')" and acc: "mmeAccepted w k q i t"
  show "mmeAccepted w' k q i t"
  proof (cases "nw_assocs w n")
    case None
    then show ?thesis using acc e by (simp add: networkExchange_def)
  next
    case (Some a)
    obtain b mvs where b: "sendAndAwait pdu p m s (nw_moves w n) a = (r, b, mvs)"
      and w': "nw_assocs w' = (nw_assocs w)(n \<mapsto> b)"
      using e Some by (auto simp: networkExchange_def split: prod.splits)
    have "reachableAssoc a" using ok Some by (simp add: okNetwork_def)
    from sendAndAwait_result [OF this b] have "set (as_log a) \<subseteq> set (as_log b)" by blast
    with acc Some show ?thesis by (auto simp: mmeAccepted_def w')
  qed
qed

section \<open>Accepted broadcasts\<close>

text \<open>C2: When \<open>Publish\<close> returns without an error, every configured MME has answered every message with a
  successful outcome of the same message identifier and serial number: the messages of the prepared
  plan for an alert or update, and for a cancel the messages of the stored plans of all alerts that
  it references, whose stop was accepted.\<close>

theorem publish_means_accepted:
  assumes "okNetwork w" "Publish cfg p repo store networkExchange a (db, w) = (Inr (), db', w')" "SBcAPEnabled cfg"
  shows "if MsgType a = ''Cancel'' then
      (\<forall>i \<in> set (ReferenceIDs a). \<exists>pl. op_Plan store i db = Inr (Some (Json pl)) \<and>
         (\<forall>m \<in> set (Messages pl). acceptedEverywhere mmeAccepted w' (Peers cfg) ProcedureStop m))
    else (\<exists>plan. Prepare p repo a db = (Inr plan, db') \<and>
         (\<forall>m \<in> set (Messages plan). acceptedEverywhere mmeAccepted w' (Peers cfg) ProcedureWriteReplace m))"
  by (rule mme.Publish_accepted [OF assms])

text \<open>The publisher and the store of the service, over the database and the network.\<close>

definition deliveryPublisher :: "(publish_error \<Rightarrow> string) \<Rightarrow> SBcAPConfig \<Rightarrow> Preparer \<Rightarrow> 'db Repository \<Rightarrow> 'db StoreOps \<Rightarrow>
    'w exchange \<Rightarrow> ('db \<times> 'w) publisher" where
  "deliveryPublisher render cfg p repo store ex a dbw =
     (case Publish cfg p repo store ex a dbw of (r, dbw) \<Rightarrow> (wrapErr render r, dbw))"

definition storeBeside :: "'db StoreOps \<Rightarrow> ('db \<times> 'w) StoreOps" where
  "storeBeside st =
     \<lparr>op_Load = (\<lambda>(db, w). op_Load st db),
      op_Upsert = (\<lambda>now r refs (db, w). map_sum id (\<lambda>db. (db, w)) (op_Upsert st now r refs db)),
      op_Expire = (\<lambda>now (db, w). map_sum id (\<lambda>(ids, db). (ids, (db, w))) (op_Expire st now db)),
      op_Audit = (\<lambda>limit (db, w). op_Audit st limit db),
      op_Plan = (\<lambda>i (db, w). op_Plan st i db)\<rparr>"

text \<open>C1: An alert that the service takes in is on the air: when \<open>Ingest\<close> of a new alert or update
  succeeds with delivery enabled, the alert is active in the index, and every configured MME has
  accepted every message of the plan prepared for it.\<close>

theorem ingested_alert_is_broadcast:
  assumes "Ingest (Some (storeBeside st)) (Some (deliveryPublisher render cfg p repo st networkExchange)) now a s (db, w) =
      (Inr (), s', (db', w'))"
    and "\<not> known a s" "okNetwork w" "SBcAPEnabled cfg" "MsgType a \<noteq> ''Cancel''"
  shows "(\<exists>plan db1. Prepare p repo a db = (Inr plan, db1) \<and>
      (\<forall>m \<in> set (Messages plan). acceptedEverywhere mmeAccepted w' (Peers cfg) ProcedureWriteReplace m)) \<and>
    AlertByID (Identifier a) s' = Some \<lparr>rec_Alert = a, rec_ReceivedAt = UTC now, rec_State = ''active''\<rparr>"
proof -
  obtain r db1 w1 where pub: "Publish cfg p repo st networkExchange a (db, w) = (r, db1, w1)" by (metis prod_cases3)
  have r: "r = Inr ()"
    and c: "ingestCommit (Some (storeBeside st)) now a s (db1, w1) = (Inr (), s', (db', w'))"
    using assms(1,2) pub by (auto simp: Ingest_def deliveryPublisher_def split: sum.splits)
  have "map_sum id (\<lambda>db. (db, w1)) v = Inr (d, w') \<Longrightarrow> w' = w1" for v :: "store_error + 'a" and d
    by (cases v) auto
  then have "w' = w1"
    using c assms(2) by (auto simp: ingestCommit_def storeBeside_def Let_def split: sum.splits if_splits)
  moreover have "AlertByID (Identifier a) s' = Some \<lparr>rec_Alert = a, rec_ReceivedAt = UTC now, rec_State = ''active''\<rparr>"
    using c assms(2,5)
    by (auto simp: ingestCommit_def AlertByID_def Let_def update_conv' split: sum.splits if_splits)
  ultimately show ?thesis
    using mme.Publish_accepted [OF assms(3) pub [unfolded r] assms(4)] assms(5) by auto
qed


section \<open>Restarted eNBs\<close>

text \<open>The requests that an indication calls for: for each message of the plan of each active alert, in
  order, the broadcast of the message to the restarted part of its target, when there is one and it
  can be encoded.\<close>

definition restartRequest :: "SBcAPConfig \<Rightarrow> RestartIndication \<Rightarrow> Message \<Rightarrow> (byte list \<times> Message) list" where
  "restartRequest cfg ri m =
     (case narrowTargetToRestart (m_Target m) (snd ` set (RestartedCells ri)) (snd ` set (RestartedTAIs ri)) of
        None \<Rightarrow> []
      | Some t \<Rightarrow>
          (case SBcAPWriteReplace (m\<lparr>m_Target := t\<rparr>) (RepetitionPeriod cfg) (Broadcasts cfg) (PLMN cfg) of
             Inl _ \<Rightarrow> [] | Inr pdu \<Rightarrow> [(pdu, m\<lparr>m_Target := t\<rparr>)]))"

definition activePlans :: "(string \<Rightarrow> store_error + Plan blob option) \<Rightarrow> Record list \<Rightarrow> Plan list" where
  "activePlans plan records = concat (map (\<lambda>rec.
     if rec_State rec = ''active'' then
       (case plan (Identifier (rec_Alert rec)) of Inr (Some (Json p)) \<Rightarrow> [p] | _ \<Rightarrow> []) else []) records)"

definition samePLMN :: "SBcAPConfig \<Rightarrow> RestartIndication \<Rightarrow> bool" where
  "samePLMN cfg ri \<longleftrightarrow> length (genb_PLMN (ri_GlobalENBID ri)) = 3 \<and> okPLMN (PLMN cfg) \<longrightarrow>
     PlmnTBCD (PLMN cfg) = Inr (genb_PLMN (ri_GlobalENBID ri))"

definition restartRequests :: "SBcAPConfig \<Rightarrow> (string \<Rightarrow> store_error + Plan blob option) \<Rightarrow> Record list \<Rightarrow>
    RestartIndication \<Rightarrow> (byte list \<times> Message) list" where
  "restartRequests cfg plan records ri =
     concat (map (restartRequest cfg ri) (concat (map Messages (activePlans plan records))))"

text \<open>Send one request and count it when it is accepted.\<close>

definition resend :: "'w exchange \<Rightarrow> 'm MetricsRecorder option \<Rightarrow> string \<Rightarrow> 'w \<times> 'm \<Rightarrow> byte list \<times> Message \<Rightarrow> 'w \<times> 'm" where
  "resend ex metrics peer wk x =
     (case ex peer (fst x) ProcedureWriteReplace (m_MessageIdentifier (snd x)) (m_SerialNumber (snd x)) (fst wk) of
        (Some _, w) \<Rightarrow> (w, snd wk)
      | (None, w) \<Rightarrow> (w, case metrics of None \<Rightarrow> snd wk | Some r \<Rightarrow> mr_RestartRebroadcasts r (snd wk)))"

lemma restartMessage_requests:
  "restartMessage cfg ex metrics peer ri m wk = foldl (resend ex metrics peer) wk (restartRequest cfg ri m)"
  by (cases wk)
    (auto simp: restartMessage_def restartRequest_def resend_def split: option.splits sum.splits prod.splits)

lemma foldl_concat_map: "foldl (\<lambda>s x. foldl f s (g x)) s xs = foldl f s (concat (map g xs))"
  by (induction xs arbitrary: s) auto

lemma restartRecord_requests:
  "restartRecord cfg plan ex metrics peer ri wk rec =
     foldl (resend ex metrics peer) wk (restartRequests cfg plan [rec] ri)"
  by (auto simp: restartRecord_def restartRequests_def activePlans_def restartMessage_requests foldl_concat_map
      split: sum.splits option.splits blob.splits)

lemma restartRequests_concat:
  "restartRequests cfg plan records ri = concat (map (\<lambda>rec. restartRequests cfg plan [rec] ri) records)"
  by (induction records) (auto simp: restartRequests_def activePlans_def)

text \<open>C9: After an eNB restart indication the CBC sends, to the MME that reported it, exactly the
  requests that the indication calls for, in the order of the stored alerts and of the messages of
  their plans, each whatever became of the others; it sends nothing when the indication is for a
  different PLMN or the alerts cannot be read.\<close>

theorem restart_rebroadcasts_exactly:
  "handleRestart cfg store ex metrics peer ri db wk =
     (if samePLMN cfg ri then
        case op_Load store db of
          Inl _ \<Rightarrow> wk
        | Inr records \<Rightarrow> foldl (resend ex metrics peer) wk (restartRequests cfg (\<lambda>i. op_Plan store i db) records ri)
      else wk)"
proof -
  have "(case PlmnTBCD (PLMN cfg) of
            Inr plmn \<Rightarrow> length (genb_PLMN (ri_GlobalENBID ri)) = 3 \<and> plmn \<noteq> genb_PLMN (ri_GlobalENBID ri)
          | Inl _ \<Rightarrow> False) \<longleftrightarrow> \<not> samePLMN cfg ri"
    using PlmnTBCD_Inr(1) [of "PLMN cfg"] by (auto simp: samePLMN_def split: sum.splits)
  moreover have "foldl (restartRecord cfg plan ex metrics peer ri) wk records =
      foldl (resend ex metrics peer) wk (restartRequests cfg plan records ri)" for plan records
    unfolding restartRequests_concat [of _ _ records] restartRecord_requests [abs_def] foldl_concat_map ..
  ultimately show ?thesis unfolding handleRestart_def by (simp split: sum.splits)
qed

text \<open>The numbers in a target that were restarted.\<close>

definition restarted :: "RestartIndication \<Rightarrow> byte \<Rightarrow> nat \<Rightarrow> bool" where
  "restarted ri scope n \<longleftrightarrow> (if scope = CellWide then (word_of_nat n :: u32) \<in> snd ` set (RestartedCells ri)
     else scope = TrackingAreaWide \<and> (word_of_nat n :: u16) \<in> snd ` set (RestartedTAIs ri))"

lemma filter_map_option:
  "map f (filter (\<lambda>x. case f x of None \<Rightarrow> False | Some v \<Rightarrow> P v) xs) =
     filter (\<lambda>y. case y of None \<Rightarrow> False | Some v \<Rightarrow> P v) (map f xs)"
  by (induction xs) auto

lemma narrow_numbers:
  assumes "narrowTargetToRestart t (snd ` set (RestartedCells ri)) (snd ` set (RestartedTAIs ri)) = Some t'"
  shows "Scope t' = Scope t" "targetNumbers t' \<noteq> []"
    "targetNumbers t' = filter (\<lambda>y. case y of None \<Rightarrow> False | Some v \<Rightarrow> restarted ri (Scope t) v) (targetNumbers t)"
proof -
  have d: "TrackingAreaWide \<noteq> CellWide" by (simp add: scopes)
  have s: "Scope t = CellWide \<or> Scope t = TrackingAreaWide"
    using assms by (auto simp: narrowTargetToRestart_def split: if_splits)
  then show "Scope t' = Scope t" using assms d by (auto simp: narrowTargetToRestart_def Let_def split: if_splits)
  show "targetNumbers t' \<noteq> []"
    using s assms d by (auto simp: narrowTargetToRestart_def Let_def targetNumbers_def targetValues_def split: if_splits)
  have "restarted ri CellWide = (\<lambda>v. word_of_nat v \<in> snd ` set (RestartedCells ri))"
    "restarted ri TrackingAreaWide = (\<lambda>v. word_of_nat v \<in> snd ` set (RestartedTAIs ri))"
    using d by (simp_all add: restarted_def fun_eq_iff)
  then show "targetNumbers t' = filter (\<lambda>y. case y of None \<Rightarrow> False | Some v \<Rightarrow> restarted ri (Scope t) v) (targetNumbers t)"
    using s assms d
    by (auto simp: narrowTargetToRestart_def Let_def targetNumbers_def targetValues_def filter_map_option
        split: if_splits)
qed

lemma restartRequest_in:
  "(pdu, n) \<in> set (restartRequest cfg ri m) \<longleftrightarrow>
     (\<exists>t. narrowTargetToRestart (m_Target m) (snd ` set (RestartedCells ri)) (snd ` set (RestartedTAIs ri)) = Some t \<and>
        SBcAPWriteReplace (m\<lparr>m_Target := t\<rparr>) (RepetitionPeriod cfg) (Broadcasts cfg) (PLMN cfg) = Inr pdu \<and>
        n = m\<lparr>m_Target := t\<rparr>)"
proof (cases "narrowTargetToRestart (m_Target m) (snd ` set (RestartedCells ri)) (snd ` set (RestartedTAIs ri))")
  case (Some t)
  then show ?thesis
    by (cases "SBcAPWriteReplace (m\<lparr>m_Target := t\<rparr>) (RepetitionPeriod cfg) (Broadcasts cfg) (PLMN cfg)")
      (auto simp: restartRequest_def)
qed (simp add: restartRequest_def)

lemma stored_plan:
  "p \<in> set (case x of Inr (Some (Json p)) \<Rightarrow> [p] | _ \<Rightarrow> []) \<longleftrightarrow> x = Inr (Some (Json p))"
  by (cases x) (auto split: option.splits blob.splits)


section \<open>Backoff\<close>

lemma nextBackoff_min:
  assumes "0 < b" "b \<le> ReconnectMax cfg" "ReconnectMax cfg < 2 ^ 62"
  shows "nextBackoff cfg b = min (2 * b) (ReconnectMax cfg)"
proof -
  have "- (2 ^ 63) \<le> b * 2 \<and> b * 2 < 2 ^ 63" using assms by simp
  then have "signed_take_bit 63 (b * 2) = b * 2" by (simp add: signed_take_bit_int_eq_self)
  then show ?thesis by (auto simp: nextBackoff_def Let_def)
qed

lemma maintainLoop_bounds:
  assumes "0 < ReconnectMin cfg" "ReconnectMin cfg \<le> ReconnectMax cfg" "ReconnectMax cfg < 2 ^ 62"
  shows "ReconnectMin cfg \<le> b \<Longrightarrow> b \<le> ReconnectMax cfg \<Longrightarrow> wt \<in> set (maintainLoop cfg b rs) \<Longrightarrow>
    wt = 0 \<or> ReconnectMin cfg \<le> wt \<and> wt \<le> ReconnectMax cfg"
proof (induction rs arbitrary: b)
  case (Cons r rs)
  have n: "ReconnectMin cfg \<le> nextBackoff cfg b \<and> nextBackoff cfg b \<le> ReconnectMax cfg"
    using nextBackoff_min [of b cfg] assms Cons.prems by auto
  from Cons.prems Cons.IH [of "nextBackoff cfg b"] Cons.IH [of "ReconnectMin cfg"] n assms(2) show ?case
    by (auto simp: maintainRound_def split: round.splits if_splits)
qed simp

lemma maintainLoop_failures:
  assumes "0 < ReconnectMin cfg" "ReconnectMin cfg \<le> ReconnectMax cfg" "ReconnectMax cfg < 2 ^ 62"
    and "\<And>r. r \<in> set rs \<Longrightarrow> r = DialFailed \<or> (\<exists>d < ReconnectMin cfg. r = Lived d)"
  shows "0 < b \<Longrightarrow> b \<le> ReconnectMax cfg \<Longrightarrow> k < length rs \<Longrightarrow>
    maintainLoop cfg b rs ! k = min (b * 2 ^ k) (ReconnectMax cfg)"
  using assms(4)
proof (induction rs arbitrary: b k)
  case (Cons r rs)
  have m: "maintainRound cfg b r = (b, nextBackoff cfg b)"
    using Cons.prems(4) [of r] by (auto simp: maintainRound_def)
  show ?case
  proof (cases k)
    case 0
    then show ?thesis using Cons.prems m by simp
  next
    case (Suc i)
    have n: "nextBackoff cfg b = min (2 * b) (ReconnectMax cfg)"
      using nextBackoff_min Cons.prems assms(3) by blast
    have "maintainLoop cfg (nextBackoff cfg b) rs ! i = min (nextBackoff cfg b * 2 ^ i) (ReconnectMax cfg)"
      using Cons.prems Suc n assms(1,2) by (intro Cons.IH) auto
    moreover have "min (min (2 * b) M * 2 ^ i) M = min (b * 2 ^ Suc i) M" if "0 < M" for M :: int
    proof (cases "2 * b \<le> M")
      case False
      have "1 \<le> (2 :: int) ^ i" by simp
      then have "M \<le> M * 2 ^ i" "M \<le> (2 * b) * 2 ^ i"
        using that False mult_mono [of M M 1 "2 ^ i"] mult_mono [of M "2 * b" 1 "2 ^ i"] by auto
      then have "min (M * 2 ^ i) M = M" "min (b * 2 ^ Suc i) M = M"
        by (simp_all add: min_absorb2 mult.commute mult.left_commute)
      then show ?thesis using False by (simp add: min_def)
    qed (simp add: min_def mult.commute mult.left_commute)
    ultimately show ?thesis using Suc m n assms(1,2) by simp
  qed
qed simp

text \<open>Reconnecting to an MME backs off exponentially: after the k-th failed dial or immediate drop in
  a row the wait is the configured minimum times 2 to the k, up to the configured maximum; and
  whatever the rounds, no wait is longer than the maximum, and the only shorter one than the minimum
  is the immediate retry after a connection that lived at least that long.\<close>

theorem reconnect_backoff:
  assumes "0 < ReconnectMin cfg" "ReconnectMin cfg \<le> ReconnectMax cfg" "ReconnectMax cfg < 2 ^ 62"
  shows "(\<forall>wt \<in> set (maintain cfg rs). wt = 0 \<or> ReconnectMin cfg \<le> wt \<and> wt \<le> ReconnectMax cfg) \<and>
    ((\<forall>r \<in> set rs. r = DialFailed \<or> (\<exists>d < ReconnectMin cfg. r = Lived d)) \<longrightarrow>
      maintain cfg rs = map (\<lambda>k. min (ReconnectMin cfg * 2 ^ k) (ReconnectMax cfg)) [0..<length rs])"
proof (intro conjI ballI impI)
  fix wt assume "wt \<in> set (maintain cfg rs)"
  then show "wt = 0 \<or> ReconnectMin cfg \<le> wt \<and> wt \<le> ReconnectMax cfg"
    using maintainLoop_bounds [OF assms] assms(2) by (auto simp: maintain_def)
next
  assume f: "\<forall>r \<in> set rs. r = DialFailed \<or> (\<exists>d < ReconnectMin cfg. r = Lived d)"
  have l: "length (maintainLoop cfg b rs) = length rs" for b
    by (induction rs arbitrary: b) (auto split: prod.splits)
  show "maintain cfg rs = map (\<lambda>k. min (ReconnectMin cfg * 2 ^ k) (ReconnectMax cfg)) [0..<length rs]"
    unfolding maintain_def using maintainLoop_failures [OF assms] f assms(1,2)
    by (intro nth_equalityI) (auto simp: l)
qed

section \<open>Sample runs\<close>

text \<open>An MME that is connected and answers the next request with \<open>resp\<close>, and one that is not connected.\<close>

definition peerA :: SBcAPPeer where "peerA = \<lparr>PeerName = ''A'', PeerAddress = ''10.0.0.1:29168''\<rparr>"
definition peerB :: SBcAPPeer where "peerB = \<lparr>PeerName = ''B'', PeerAddress = ''10.0.0.2:29168''\<rparr>"

definition connectedA :: mmeAssociation where
  "connectedA = tryMove (newAssociation peerA) Dial"

definition answering :: "byte list \<Rightarrow> move list" where
  "answering resp = [Install, Write None, Inbound resp, Hand, Receive, Return]"

definition sampleNetwork :: "byte list \<Rightarrow> Network" where
  "sampleNetwork resp = \<lparr>nw_assocs = [''A'' \<mapsto> connectedA, ''B'' \<mapsto> newAssociation peerB], nw_moves = (\<lambda>_. answering resp)\<rparr>"

definition sampleDelivery :: "SBcAPPeer list \<Rightarrow> SBcAPConfig" where
  "sampleDelivery peers = \<lparr>SBcAPEnabled = True, PLMN = ''311-435'', Peers = peers, RepetitionPeriod = 30,
     Broadcasts = 4, ResponseTimeout = 10 * Second, ReconnectMin = Second, ReconnectMax = Minute, LocalAddress = []\<rparr>"

lemma sampleNetwork_ok: "okNetwork (sampleNetwork resp)"
  by (auto simp: okNetwork_def sampleNetwork_def connectedA_def intro: tryMove_reachable reachableAssoc.start
      split: if_splits)

lemma sendAndAwait_answered:
  assumes "ResponseIDs resp p = Inr (m, s)"
  shows "fst (sendAndAwait pdu p m s (answering resp) connectedA) = None"
  by (simp add: sendAndAwait_def connectedA_def answering_def tryMove_def assocMove_def newAssociation_def setConn_def
      current_def sendPhase_def readRound_def ResponseIDs_Header [OF assms] assms deliverResponse_def handTo_def
      offerResult_def lastResult_def Let_def alone_def)

lemma exchange_answered:
  assumes "ResponseIDs resp p = Inr (m, s)"
  obtains w where "networkExchange ''A'' pdu p m s (sampleNetwork resp) = (None, w)"
    "nw_assocs w ''B'' = Some (newAssociation peerB)" "nw_moves w ''B'' = answering resp"
proof -
  obtain b mvs where "sendAndAwait pdu p m s (answering resp) connectedA = (None, b, mvs)"
    using sendAndAwait_answered [OF assms, of pdu] by (metis prod.collapse fst_conv)
  then show ?thesis using that by (simp add: networkExchange_def sampleNetwork_def)
qed

lemma exchange_unconnected:
  assumes "nw_assocs w ''B'' = Some (newAssociation peerB)" "nw_moves w ''B'' = answering resp"
  obtains w' where "networkExchange ''B'' pdu p m s w = (Some (NotConnected ''B''), w')"
proof -
  have "fst (sendAndAwait pdu p m s (answering resp) (newAssociation peerB)) = Some (NotConnected ''B'')"
    by (simp add: sendAndAwait_def answering_def tryMove_def assocMove_def newAssociation_def
        current_def lastResult_def Let_def peerB_def alone_def)
  then obtain b mvs where "sendAndAwait pdu p m s (answering resp) (newAssociation peerB) = (Some (NotConnected ''B''), b, mvs)"
    by (metis prod.collapse fst_conv)
  then show ?thesis using that assms by (simp add: networkExchange_def)
qed

lemma response_exists:
  obtains resp where "ResponseIDs resp 0 = Inr (m, s)"
proof -
  obtain p where p: "SuccessResponse 0 m s 0 = Inr p" using successResponse_success [of 0 m s 0] by auto
  obtain b where "decodePDU (p @ []) = Inr \<lparr>choiceIndex = 1, procedureCode = 0, pdu_criticality = 0,
       ies = map sentIE [\<lparr>ie_id = 5, ie_criticality = 0, ie_value = encode16 m\<rparr>,
         \<lparr>ie_id = 11, ie_criticality = 0, ie_value = encode16 s\<rparr>,
         \<lparr>ie_id = 1, ie_criticality = 0, ie_value = b\<rparr>]\<rparr>"
    by (rule successResponse_decodes [OF p, of "[]"])
  then have "ResponseIDs p 0 = Inr (m, s)" by (simp add: ResponseIDs_def pdu_consts correlationIDs_def ie_ids)
  then show ?thesis by (rule that)
qed

lemma cell_sendable:
  assumes "okPages (m_Pages m)" "m_Target m = \<lparr>Scope = CellWide, Cells = [''7''], TrackingAreas = []\<rparr>"
  obtains pdu where "SBcAPWriteReplace m 30 4 ''311-435'' = Inr pdu"
proof -
  have "length (m_Pages m) \<le> 15" using assms(1) by (simp add: okPages_def)
  then have "broadcastOctets m < 16384"
    by (simp add: broadcastOctets_def targetOctets_def assms(2) scopes openTypeOctets_def)
  moreover have "okPLMN ''311-435''"
    by (simp add: okPLMN_def plmnDigits_def RemoveAll_def string_eval isDigit_def)
  moreover have "okTarget (m_Target m)"
    by (simp add: okTarget_def numbersBelow_def assms(2) string_eval parse_eval scopes)
  ultimately have "\<exists>p. SBcAPWriteReplace m 30 4 ''311-435'' = Inr p"
    unfolding broadcast_sendable using okPages_framed [OF assms(1)] by simp
  then show ?thesis using that by blast
qed

lemma sample_broadcast:
  obtains plan db m pdu where
    "Prepare samplePreparer (sqliteRepository (\<lambda>_. None) now) (cellAlert ''a'' ''Alert'' []) emptyDatabase = (Inr plan, db)"
    "Messages plan = [m]" "SBcAPWriteReplace m 30 4 ''311-435'' = Inr pdu"
    "m_Target m = \<lparr>Scope = CellWide, Cells = [''7''], TrackingAreas = []\<rparr>"
proof -
  let ?a = "cellAlert ''a'' ''Alert'' []"
  obtain s d where "AllocateCBSSerial None (allocationKeyOf (planKey ?a) 0x111D CellWide) 0x111D CellWide
      (isUpdate ?a) emptyDatabase = Inr (s, d)" using Allocate_any_empty by blast
  then obtain plan db m where p: "Prepare samplePreparer (sqliteRepository (\<lambda>_. None) now) ?a
      emptyDatabase = (Inr plan, db)" "Messages plan = [m]"
    by (rule Prepare_sample [rotated]) simp_all
  have a: "MsgType ?a \<noteq> ''Cancel''" by (simp add: cellAlert_def)
  have l: "length (Infos ?a) = 1" "Infos ?a ! 0 = hd (Infos ?a)" by (simp_all add: cellAlert_def)
  from plan_messages [OF a p(1)] have "infoMessage samplePreparer ?a 0 (hd (Infos ?a)) m \<and> okPages (m_Pages m)"
    using p(2) l by auto
  then have t: "m_Target m = \<lparr>Scope = CellWide, Cells = [''7''], TrackingAreas = []\<rparr>" "okPages (m_Pages m)"
    using target_sample [of "''a''" "''Alert''" "[]"] by (simp_all add: infoMessage_def)
  obtain pdu where "SBcAPWriteReplace m 30 4 ''311-435'' = Inr pdu" by (rule cell_sendable [OF t(2,1)])
  from that [OF p this t(1)] show ?thesis .
qed


text \<open>One configured MME that accepts: the broadcast succeeds.\<close>

lemma sample_publish:
  obtains resp db w where
    "Publish (sampleDelivery [peerA]) samplePreparer (sqliteRepository (\<lambda>_. None) now) (sqliteOps (\<lambda>_. None))
       networkExchange (cellAlert ''a'' ''Alert'' []) (emptyDatabase, sampleNetwork resp) = (Inr (), db, w)"
proof -
  obtain plan db m pdu where p: "Prepare samplePreparer (sqliteRepository (\<lambda>_. None) now) (cellAlert ''a'' ''Alert'' [])
      emptyDatabase = (Inr plan, db)" "Messages plan = [m]" "SBcAPWriteReplace m 30 4 ''311-435'' = Inr pdu"
    by (rule sample_broadcast)
  obtain resp where r: "ResponseIDs resp 0 = Inr (m_MessageIdentifier m, m_SerialNumber m)" by (rule response_exists)
  obtain w where "networkExchange ''A'' pdu 0 (m_MessageIdentifier m) (m_SerialNumber m) (sampleNetwork resp) = (None, w)"
    by (rule exchange_answered [OF r])
  with p have "Publish (sampleDelivery [peerA]) samplePreparer (sqliteRepository (\<lambda>_. None) now) (sqliteOps (\<lambda>_. None))
       networkExchange (cellAlert ''a'' ''Alert'' []) (emptyDatabase, sampleNetwork resp) = (Inr (), db, w)"
    by (simp add: Publish_def sampleDelivery_def cellAlert_def peerA_def procedures)
  then show ?thesis by (rule that)
qed

theorem publish_means_accepted_witness:
  "\<exists>resp db w. \<exists>(plan :: Plan) (m :: Message). Publish (sampleDelivery [peerA]) samplePreparer (sqliteRepository (\<lambda>_. None) (sampleTime 10 0))
       (sqliteOps (\<lambda>_. None)) networkExchange (cellAlert ''a'' ''Alert'' []) (emptyDatabase, sampleNetwork resp) = (Inr (), db, w) \<and>
     Messages plan = [m] \<and> mmeAccepted w ''A'' ProcedureWriteReplace (m_MessageIdentifier m) (m_SerialNumber m)"
proof -
  obtain plan db0 m pdu where p: "Prepare samplePreparer (sqliteRepository (\<lambda>_. None) (sampleTime 10 0)) (cellAlert ''a'' ''Alert'' [])
      emptyDatabase = (Inr plan, db0)" "Messages plan = [m]"
    by (rule sample_broadcast)
  obtain resp db w where pub: "Publish (sampleDelivery [peerA]) samplePreparer (sqliteRepository (\<lambda>_. None) (sampleTime 10 0))
      (sqliteOps (\<lambda>_. None)) networkExchange (cellAlert ''a'' ''Alert'' []) (emptyDatabase, sampleNetwork resp) = (Inr (), db, w)"
    by (rule sample_publish)
  have "SBcAPEnabled (sampleDelivery [peerA])" "Peers (sampleDelivery [peerA]) = [peerA]" "PeerName peerA = ''A''"
    "MsgType (cellAlert ''a'' ''Alert'' []) \<noteq> ''Cancel''"
    by (simp_all add: sampleDelivery_def peerA_def cellAlert_def)
  with publish_means_accepted [OF sampleNetwork_ok pub] p
  have "mmeAccepted w ''A'' ProcedureWriteReplace (m_MessageIdentifier m) (m_SerialNumber m)"
    by (simp add: acceptedEverywhere_def)
  with pub p(2) show ?thesis by (intro exI [of _ resp] exI [of _ db] exI [of _ w] exI [of _ plan] exI [of _ m]) simp
qed

theorem ingested_alert_is_broadcast_witness:
  "\<exists>resp s' db w. Ingest (Some (storeBeside (sqliteOps (\<lambda>_. None)))) (Some (deliveryPublisher (\<lambda>_. []) (sampleDelivery [peerA])
      samplePreparer (sqliteRepository (\<lambda>_. None) (sampleTime 10 0)) (sqliteOps (\<lambda>_. None)) networkExchange))
      (sampleTime 10 0) (cellAlert ''a'' ''Alert'' []) NewService (emptyDatabase, sampleNetwork resp) = (Inr (), s', (db, w)) \<and>
     AlertByID ''a'' s' \<noteq> None"
proof -
  let ?a = "cellAlert ''a'' ''Alert'' []" and ?st = "sqliteOps (\<lambda>_. None)"
  obtain resp db w where pub: "Publish (sampleDelivery [peerA]) samplePreparer (sqliteRepository (\<lambda>_. None) (sampleTime 10 0))
      ?st networkExchange ?a (emptyDatabase, sampleNetwork resp) = (Inr (), db, w)"
    by (rule sample_publish)
  have k: "\<not> known ?a NewService" by (simp add: known_def NewService_def)
  obtain db2 where "op_Upsert ?st (sampleTime 10 0) \<lparr>rec_Alert = ?a, rec_ReceivedAt = UTC (sampleTime 10 0),
      rec_State = ''active''\<rparr> (ReferenceIDs ?a) db = Inr db2"
    using Upsert_total by (force simp: sqliteOps_def)
  moreover have "MsgType ?a = ''Alert''" by (simp add: cellAlert_def)
  ultimately obtain s' where i: "Ingest (Some (storeBeside ?st)) (Some (deliveryPublisher (\<lambda>_. []) (sampleDelivery [peerA])
      samplePreparer (sqliteRepository (\<lambda>_. None) (sampleTime 10 0)) ?st networkExchange))
      (sampleTime 10 0) ?a NewService (emptyDatabase, sampleNetwork resp) = (Inr (), s', (db2, w))"
    using pub k by (simp add: Ingest_def deliveryPublisher_def ingestCommit_def storeBeside_def Let_def)
  have "SBcAPEnabled (sampleDelivery [peerA])" "MsgType ?a \<noteq> ''Cancel''" "Identifier ?a = ''a''"
    by (simp_all add: sampleDelivery_def cellAlert_def)
  with ingested_alert_is_broadcast [OF i k sampleNetwork_ok] i show ?thesis by auto
qed

text \<open>C38: A refused alert may be on the air: with two MMEs of which the first accepts and the second is not
  connected, \<open>Ingest\<close> reports that publishing failed and the alert is neither indexed nor stored, but
  the first MME has accepted its broadcast, and nothing stops it there.\<close>

theorem refused_alert_on_air:
  "\<exists>resp e s' db w. \<exists>m :: Message. Ingest (Some (storeBeside (sqliteOps (\<lambda>_. None)))) (Some (deliveryPublisher (\<lambda>_. []) (sampleDelivery [peerA, peerB])
      samplePreparer (sqliteRepository (\<lambda>_. None) (sampleTime 10 0)) (sqliteOps (\<lambda>_. None)) networkExchange))
      (sampleTime 10 0) (cellAlert ''a'' ''Alert'' []) NewService (emptyDatabase, sampleNetwork resp) =
      (Inl (PublishFailed e), s', (db, w)) \<and>
     AlertByID ''a'' s' = None \<and> db_alerts db = [] \<and>
     mmeAccepted w ''A'' ProcedureWriteReplace (m_MessageIdentifier m) (m_SerialNumber m)"
proof -
  let ?a = "cellAlert ''a'' ''Alert'' []" and ?st = "sqliteOps (\<lambda>_. None)"
  obtain plan db m pdu where p: "Prepare samplePreparer (sqliteRepository (\<lambda>_. None) (sampleTime 10 0)) ?a
      emptyDatabase = (Inr plan, db)" "Messages plan = [m]" "SBcAPWriteReplace m 30 4 ''311-435'' = Inr pdu"
    by (rule sample_broadcast)
  obtain resp where r: "ResponseIDs resp 0 = Inr (m_MessageIdentifier m, m_SerialNumber m)" by (rule response_exists)
  obtain w where a: "networkExchange ''A'' pdu 0 (m_MessageIdentifier m) (m_SerialNumber m) (sampleNetwork resp) = (None, w)"
    "nw_assocs w ''B'' = Some (newAssociation peerB)" "nw_moves w ''B'' = answering resp"
    by (rule exchange_answered [OF r])
  obtain w' where b: "networkExchange ''B'' pdu 0 (m_MessageIdentifier m) (m_SerialNumber m) w = (Some (NotConnected ''B''), w')"
    by (rule exchange_unconnected [OF a(2,3)])
  have w: "okNetwork w" by (rule mme.exchange_ok [OF sampleNetwork_ok a(1)])
  have "mmeAccepted w' ''A'' 0 (m_MessageIdentifier m) (m_SerialNumber m)"
    by (rule mme.exchange_keeps [OF w b mme.exchange_success [OF sampleNetwork_ok a(1)]])
  moreover have "Publish (sampleDelivery [peerA, peerB]) samplePreparer (sqliteRepository (\<lambda>_. None) (sampleTime 10 0)) ?st
       networkExchange ?a (emptyDatabase, sampleNetwork resp) = (Inl (SendError (NotConnected ''B'')), db, w')"
    using p a b by (simp add: Publish_def sampleDelivery_def cellAlert_def peerA_def peerB_def procedures)
  moreover have "db_alerts db = []"
    using Prepare_alerts [OF p(1)] by (simp add: emptyDatabase_def)
  moreover have "\<not> known ?a NewService" by (simp add: known_def NewService_def)
  ultimately have "Ingest (Some (storeBeside ?st)) (Some (deliveryPublisher (\<lambda>_. []) (sampleDelivery [peerA, peerB])
      samplePreparer (sqliteRepository (\<lambda>_. None) (sampleTime 10 0)) ?st networkExchange))
      (sampleTime 10 0) ?a NewService (emptyDatabase, sampleNetwork resp) =
      (Inl (PublishFailed []), ingestReject ?a [] NewService, (db, w')) \<and>
     AlertByID ''a'' (ingestReject ?a [] NewService) = None \<and> db_alerts db = [] \<and>
     mmeAccepted w' ''A'' ProcedureWriteReplace (m_MessageIdentifier m) (m_SerialNumber m)"
    by (simp add: Ingest_def deliveryPublisher_def AlertByID_def ingestReject_def SetError_def NewService_def procedures)
  then show ?thesis by blast
qed

theorem reconnect_backoff_witness:
  "maintain (sampleDelivery []) [DialFailed, DialFailed, Lived 0] = [1000000000, 2000000000, 4000000000]"
  using reconnect_backoff [of "sampleDelivery []" "[DialFailed, DialFailed, Lived 0]"]
  by (simp add: sampleDelivery_def Second_def Minute_def upt_rec)

definition sampleRestart :: RestartIndication where
  "sampleRestart = \<lparr>ri_GlobalENBID = \<lparr>genb_PLMN = [], genb_ENBID = \<lparr>Kind = [], Value = 0, Bits = 0\<rparr>\<rparr>,
     RestartedCells = [([], 7)], RestartedTAIs = []\<rparr>"

definition sampleActive :: Record where
  "sampleActive = \<lparr>rec_Alert = cellAlert ''a'' ''Alert'' [], rec_ReceivedAt = zeroTime, rec_State = ''active''\<rparr>"


end
