(* ===== verification/Go_Float.thy ===== *)
theory Go_Float
  imports Complex_Main Go_Strings
begin

text \<open>
  Go's \<open>float64\<close> and its arithmetic. A finite number is the rational it denotes; every operation
  rounds the exact result to the nearest binary64 number, ties to even, as IEEE 754 prescribes
  (without the fused multiply-add that Go permits on some processors). The sign of zero is not kept:
  no comparison of the code can see it.
\<close>

section \<open>Values\<close>

text \<open>\<open>Infinity True\<close> is the negative infinity.\<close>

datatype float64 = NaN | Infinity bool | Finite rat

definition finite64 :: "float64 \<Rightarrow> bool" where
  "finite64 x \<longleftrightarrow> (case x of Finite _ \<Rightarrow> True | _ \<Rightarrow> False)"

fun bitCount :: "nat \<Rightarrow> nat" where
  "bitCount n = (if n = 0 then 0 else Suc (bitCount (n div 2)))"

declare bitCount.simps [simp del]

text \<open>The greatest \<open>e\<close> with \<open>2\<^sup>e \<le> q\<close>, for a positive \<open>q\<close>.\<close>

definition binaryExponent :: "rat \<Rightarrow> int" where
  "binaryExponent q =
     (case quotient_of q of (n, d) \<Rightarrow>
       let e = int (bitCount (nat n)) - int (bitCount (nat d))
       in if 2 powi e \<le> q then e else e - 1)"

definition roundEven :: "rat \<Rightarrow> int" where
  "roundEven q =
     (let f = \<lfloor>q\<rfloor>; r = q - of_int f in
      if r < 1 / 2 then f else if r > 1 / 2 then f + 1 else if even f then f else f + 1)"

text \<open>The nearest binary64 number: 53 significant bits, the smallest exponent -1074.\<close>

definition round64 :: "rat \<Rightarrow> float64" where
  "round64 q =
     (if q = 0 then Finite 0
      else let s = max (binaryExponent \<bar>q\<bar> - 52) (- 1074);
               v = of_int (roundEven (\<bar>q\<bar> / 2 powi s)) * 2 powi s
           in if v \<ge> 2 ^ 1024 then Infinity (q < 0) else Finite (sgn q * v))"

section \<open>Arithmetic and comparison\<close>

fun fneg :: "float64 \<Rightarrow> float64" where
  "fneg NaN = NaN"
| "fneg (Infinity s) = Infinity (\<not> s)"
| "fneg (Finite a) = Finite (- a)"

fun fadd :: "float64 \<Rightarrow> float64 \<Rightarrow> float64" where
  "fadd (Finite a) (Finite b) = round64 (a + b)"
| "fadd (Infinity s) (Infinity t) = (if s = t then Infinity s else NaN)"
| "fadd (Infinity s) (Finite b) = Infinity s"
| "fadd (Finite a) (Infinity t) = Infinity t"
| "fadd NaN y = NaN"
| "fadd x NaN = NaN"

definition fsub :: "float64 \<Rightarrow> float64 \<Rightarrow> float64" where
  "fsub x y = fadd x (fneg y)"

fun fmul :: "float64 \<Rightarrow> float64 \<Rightarrow> float64" where
  "fmul (Finite a) (Finite b) = round64 (a * b)"
| "fmul (Infinity s) (Infinity t) = Infinity (s \<noteq> t)"
| "fmul (Infinity s) (Finite b) = (if b = 0 then NaN else Infinity (s \<noteq> (b < 0)))"
| "fmul (Finite a) (Infinity t) = (if a = 0 then NaN else Infinity (t \<noteq> (a < 0)))"
| "fmul NaN y = NaN"
| "fmul x NaN = NaN"

fun fdiv :: "float64 \<Rightarrow> float64 \<Rightarrow> float64" where
  "fdiv (Finite a) (Finite b) = (if b = 0 then (if a = 0 then NaN else Infinity (a < 0)) else round64 (a / b))"
| "fdiv (Infinity s) (Infinity t) = NaN"
| "fdiv (Infinity s) (Finite b) = Infinity (s \<noteq> (b < 0))"
| "fdiv (Finite a) (Infinity t) = Finite 0"
| "fdiv NaN y = NaN"
| "fdiv x NaN = NaN"

fun fless :: "float64 \<Rightarrow> float64 \<Rightarrow> bool" where
  "fless (Finite a) (Finite b) = (a < b)"
| "fless (Infinity s) (Infinity t) = (s \<and> \<not> t)"
| "fless (Infinity s) (Finite b) = s"
| "fless (Finite a) (Infinity t) = (\<not> t)"
| "fless NaN y = False"
| "fless x NaN = False"

definition feq :: "float64 \<Rightarrow> float64 \<Rightarrow> bool" where
  "feq x y \<longleftrightarrow> x = y \<and> x \<noteq> NaN"

definition fle :: "float64 \<Rightarrow> float64 \<Rightarrow> bool" where
  "fle x y \<longleftrightarrow> fless x y \<or> feq x y"

text \<open>The built-in \<open>max\<close> and \<open>min\<close>.\<close>

definition fmax :: "float64 \<Rightarrow> float64 \<Rightarrow> float64" where
  "fmax x y = (if x = NaN \<or> y = NaN then NaN else if fless x y then y else x)"

definition fmin :: "float64 \<Rightarrow> float64 \<Rightarrow> float64" where
  "fmin x y = (if x = NaN \<or> y = NaN then NaN else if fless y x then y else x)"

section \<open>Rounding\<close>

lemma bitCount_bounds: "0 < n \<Longrightarrow> 2 ^ (bitCount n - 1) \<le> n \<and> n < 2 ^ bitCount n \<and> 0 < bitCount n"
proof (induction n rule: less_induct)
  case (less n)
  have r: "bitCount n = Suc (bitCount (n div 2))" using less.prems by (subst bitCount.simps) simp
  show ?case
  proof (cases "n div 2 = 0")
    case True
    then have "n = 1" using less.prems by simp
    moreover have "bitCount 0 = 0" by (simp add: bitCount.simps)
    ultimately show ?thesis using r True by simp
  next
    case False
    with less.prems have ih: "2 ^ (bitCount (n div 2) - 1) \<le> n div 2" "n div 2 < 2 ^ bitCount (n div 2)"
      "0 < bitCount (n div 2)" using less.IH [of "n div 2"] by auto
    then obtain k where k: "bitCount (n div 2) = Suc k" using gr0_conv_Suc by blast
    from ih(1,2) k have "2 * 2 ^ k \<le> n" "n < 4 * 2 ^ k" by (simp_all add: less_mult_imp_div_less)
    then show ?thesis using k by (simp add: r)
  qed
qed

lemma powi_shift: "(2::rat) powi (e + 1) = 2 * 2 powi e"
  by (simp add: power_int_add)

lemma binaryExponent_bounds:
  assumes "0 < q"
  shows "2 powi binaryExponent q \<le> q" "q < 2 powi (binaryExponent q + 1)"
proof -
  obtain n d where nd: "quotient_of q = (n, d)" by force
  have d: "0 < d" using quotient_of_denom_pos [OF nd] .
  have q: "q = of_int n / of_int d" using quotient_of_div [OF nd] .
  have n: "0 < n" using assms d by (simp add: q zero_less_divide_iff)
  let ?bn = "bitCount (nat n)" and ?bd = "bitCount (nat d)"
  let ?e = "int ?bn - int ?bd"
  have bn: "2 ^ (?bn - 1) \<le> nat n" "nat n < 2 ^ ?bn" "0 < ?bn" using bitCount_bounds [of "nat n"] n by auto
  have bd: "2 ^ (?bd - 1) \<le> nat d" "nat d < 2 ^ ?bd" "0 < ?bd" using bitCount_bounds [of "nat d"] d by auto
  have cast: "(of_nat (nat k) :: rat) = of_int k" if "0 < k" for k using that by simp
  have n': "(2::rat) ^ (?bn - 1) \<le> of_int n" "(of_int n :: rat) < 2 ^ ?bn"
    using bn(1,2) unfolding cast [OF n, symmetric] by (metis of_nat_le_iff of_nat_numeral of_nat_power, metis of_nat_less_iff of_nat_numeral of_nat_power)
  have d': "(2::rat) ^ (?bd - 1) \<le> of_int d" "(of_int d :: rat) < 2 ^ ?bd"
    using bd(1,2) unfolding cast [OF d, symmetric] by (metis of_nat_le_iff of_nat_numeral of_nat_power, metis of_nat_less_iff of_nat_numeral of_nat_power)
  have hi: "q < 2 powi (?e + 1)"
  proof -
    have z: "(0::rat) \<le> of_int n" using n by simp
    have "q < 2 ^ ?bn / 2 ^ (?bd - 1)" unfolding q
      by (rule frac_less [OF z n'(2) _ d'(1)]) simp
    also have "\<dots> = 2 powi (?e + 1)"
      using bd(3) by (simp add: power_int_diff power_int_add power_diff)
    finally show ?thesis .
  qed
  have lo: "2 powi (?e - 1) \<le> q"
  proof -
    have "2 powi (?e - 1) = (2::rat) ^ (?bn - 1) / 2 ^ ?bd"
      using bn(3) by (simp add: power_int_diff power_int_add power_diff)
    also have "\<dots> \<le> q" unfolding q
      by (rule frac_le [OF _ n'(1) _ less_imp_le [OF d'(2)]]) (use n d in simp_all)
    finally show ?thesis .
  qed
  have b: "binaryExponent q = (if 2 powi ?e \<le> q then ?e else ?e - 1)"
    by (simp add: binaryExponent_def nd Let_def)
  show "2 powi binaryExponent q \<le> q" "q < 2 powi (binaryExponent q + 1)"
    using hi lo by (auto simp: b)
qed

lemma powi_less_imp: "(2::rat) powi i < 2 powi j \<Longrightarrow> i < j"
  by (rule ccontr) (use power_int_increasing [of j i "2::rat"] in simp)

lemma binaryExponent_unique: "2 powi e \<le> q \<Longrightarrow> q < 2 powi (e + 1) \<Longrightarrow> binaryExponent q = e"
proof -
  assume a: "2 powi e \<le> q" "q < 2 powi (e + 1)"
  have "0 < q" by (rule less_le_trans [OF _ a(1)]) simp
  from binaryExponent_bounds [OF this] a
  have "(2::rat) powi e < 2 powi (binaryExponent q + 1)" "(2::rat) powi binaryExponent q < 2 powi (e + 1)"
    by auto
  then have "e < binaryExponent q + 1" "binaryExponent q < e + 1" by (auto dest: powi_less_imp)
  then show ?thesis by simp
qed

lemma roundEven_int [simp]: "roundEven (of_int m) = m"
  by (simp add: roundEven_def)

lemma roundEven_numeral [simp]: "roundEven (numeral n) = numeral n"
  using roundEven_int [of "numeral n"] by simp

lemma roundEven_cases: "roundEven q = \<lfloor>q\<rfloor> \<or> roundEven q = \<lfloor>q\<rfloor> + 1 \<and> of_int \<lfloor>q\<rfloor> < q"
  by (auto simp: roundEven_def Let_def)

lemma roundEven_le: "q \<le> of_int m \<Longrightarrow> roundEven q \<le> m"
proof -
  assume a: "q \<le> of_int m"
  then have f: "\<lfloor>q\<rfloor> \<le> m" using floor_mono by fastforce
  show ?thesis
    using roundEven_cases [of q]
  proof
    assume "roundEven q = \<lfloor>q\<rfloor> + 1 \<and> of_int \<lfloor>q\<rfloor> < q"
    then have r: "roundEven q = \<lfloor>q\<rfloor> + 1" and "(of_int \<lfloor>q\<rfloor> :: rat) < of_int m" using a by auto
    then show ?thesis by simp
  qed (use f in simp)
qed

lemma roundEven_ge: "of_int m \<le> q \<Longrightarrow> m \<le> roundEven q"
  using roundEven_cases [of q] le_floor_iff [of m q] by linarith


definition isFloat :: "float64 \<Rightarrow> bool" where
  "isFloat x \<longleftrightarrow> (case x of Finite q \<Rightarrow> round64 q = Finite q | _ \<Rightarrow> True)"

lemma isFloat_simps [simp]: "isFloat NaN" "isFloat (Infinity s)" "isFloat (Finite 0)"
  by (simp_all add: isFloat_def round64_def)

text \<open>The spacing of the numbers around \<open>q\<close>, and the number next to a positive \<open>q\<close>.\<close>

definition scale :: "rat \<Rightarrow> int" where
  "scale q = max (binaryExponent q - 52) (- 1074)"

definition nearest :: "rat \<Rightarrow> rat" where
  "nearest q = of_int (roundEven (q / 2 powi scale q)) * 2 powi scale q"

lemma round64_alt: "round64 q = (if q = 0 then Finite 0 else
    if nearest \<bar>q\<bar> \<ge> 2 ^ 1024 then Infinity (q < 0) else Finite (sgn q * nearest \<bar>q\<bar>))"
  by (simp add: round64_def nearest_def scale_def Let_def)

lemma scaled_bounds:
  assumes "0 < q" defines "m \<equiv> roundEven (q / 2 powi scale q)"
  shows "0 \<le> m" "m \<le> 2 ^ 53" "scale q > - 1074 \<Longrightarrow> 2 ^ 52 \<le> m"
proof -
  let ?s = "scale q" and ?e = "binaryExponent q"
  note b = binaryExponent_bounds [OF assms(1)]
  have s: "?e - 52 \<le> ?s" by (simp add: scale_def)
  show "0 \<le> m" unfolding m_def by (rule roundEven_ge) (use assms(1) in simp)
  have "q / 2 powi ?s \<le> 2 powi (?e + 1) / 2 powi ?s" using b(2) by (simp add: divide_right_mono)
  also have "\<dots> = 2 powi (?e + 1 - ?s)" by (simp add: power_int_diff)
  also have "\<dots> \<le> 2 powi 53" by (rule power_int_increasing) (use s in auto)
  finally show "m \<le> 2 ^ 53" unfolding m_def by (intro roundEven_le) simp
  show "2 ^ 52 \<le> m" if "?s > - 1074"
  proof -
    have e: "?e - ?s = 52" using that by (simp add: scale_def)
    have "2 powi 52 \<le> 2 powi ?e / (2::rat) powi ?s" using e by (simp flip: power_int_diff)
    also have "\<dots> \<le> q / 2 powi ?s" using b(1) by (simp add: divide_right_mono)
    finally show ?thesis unfolding m_def by (intro roundEven_ge) simp
  qed
qed

lemma binaryExponent_int:
  assumes "0 < m" "m < 2 ^ 53"
  shows "binaryExponent (of_int m * 2 powi s) \<le> s + 52"
    "2 ^ 52 \<le> m \<Longrightarrow> binaryExponent (of_int m * 2 powi s) = s + 52"
proof -
  let ?q = "of_int m * 2 powi s :: rat"
  have q: "0 < ?q" using assms by simp
  have "(of_int m :: rat) < of_int (2 ^ 53)" using assms(2) by (simp only: of_int_less_iff)
  then have u: "?q < 2 powi (s + 53)" by (simp add: power_int_add)
  have "2 powi binaryExponent ?q < (2::rat) powi (s + 53)" using binaryExponent_bounds(1) [OF q] u by simp
  then show "binaryExponent ?q \<le> s + 52" by (auto dest: powi_less_imp)
  show "binaryExponent ?q = s + 52" if "2 ^ 52 \<le> m"
  proof (rule binaryExponent_unique)
    have "of_int (2 ^ 52) \<le> (of_int m :: rat)" using that by (simp only: of_int_le_iff)
    then show "2 powi (s + 52) \<le> ?q" by (simp add: power_int_add)
  qed (use u in \<open>simp add: add.assoc\<close>)
qed

lemma nearest_idem:
  assumes "0 < q" "nearest q \<noteq> 0"
  shows "nearest (nearest q) = nearest q" "0 < nearest q"
proof -
  define s m where "s = scale q" and "m = roundEven (q / 2 powi s)"
  note b = scaled_bounds [OF assms(1), folded s_def, folded m_def]
  have v: "nearest q = of_int m * 2 powi s" by (simp add: nearest_def s_def m_def)
  with assms(2) b(1) have m: "0 < m" by (cases "m = 0") simp_all
  then show "0 < nearest q" by (simp add: v)
  have s: "- 1074 \<le> s" by (simp add: s_def scale_def)
  show "nearest (nearest q) = nearest q"
  proof (cases "m = 2 ^ 53")
    case True
    have "binaryExponent (nearest q) = s + 53"
      by (rule binaryExponent_unique) (simp_all add: v True power_int_add)
    then have "scale (nearest q) = s + 1" using s by (simp add: scale_def)
    moreover have "nearest q / 2 powi (s + 1) = of_int (2 ^ 52)" by (simp add: v True power_int_add)
    ultimately show ?thesis by (simp add: nearest_def [of "nearest q"] del: of_int_power) (simp add: v True power_int_add)
  next
    case False
    with b(2) have m2: "m < 2 ^ 53" by simp
    have "scale (nearest q) = s"
    proof (cases "s = - 1074")
      case True
      then show ?thesis using binaryExponent_int(1) [OF m m2, of s] by (simp add: v scale_def)
    next
      case False
      with s have "s > - 1074" by simp
      then show ?thesis using binaryExponent_int(2) [OF m m2, of s] b(3) by (simp add: v scale_def)
    qed
    then show ?thesis by (simp add: nearest_def [of "nearest q"]) (simp add: v)
  qed
qed

lemma round64_float: "isFloat (round64 q)"
proof (cases "q = 0")
  case False
  show ?thesis
  proof (cases "nearest \<bar>q\<bar> \<ge> 2 ^ 1024 \<or> nearest \<bar>q\<bar> = 0")
    case True
    then show ?thesis using False by (auto simp: isFloat_def round64_alt)
  next
    case h: False
    from nearest_idem [of "\<bar>q\<bar>"] False h have n: "nearest (nearest \<bar>q\<bar>) = nearest \<bar>q\<bar>" "0 < nearest \<bar>q\<bar>" by auto
    then have "\<bar>sgn q * nearest \<bar>q\<bar>\<bar> = nearest \<bar>q\<bar>" "sgn (sgn q * nearest \<bar>q\<bar>) = sgn q"
      using False by (simp_all add: abs_mult sgn_mult abs_sgn_eq)
    then show ?thesis using False h n
      by (simp add: round64_alt [of q] isFloat_def round64_alt [of "sgn q * nearest \<bar>q\<bar>"] sgn_mult)
  qed
qed (simp add: round64_def)

end
