(* ===== verification/Go_Float_Text.thy ===== *)
theory Go_Float_Text
  imports Go_Float Go_Clock
begin

text \<open>
  \<open>strconv.ParseFloat\<close> and \<open>strconv.FormatFloat\<close>: the text of a binary64 number, and the proof that
  the shortest text that is written is read back as the same number.
\<close>

section \<open>Reading\<close>

text \<open>The digits of \<open>readFloat\<close>: the mantissa without its point, the number of digits after the
  point, whether a digit and whether an underscore was seen, and the rest.\<close>

fun scanMantissa :: "bool \<Rightarrow> nat \<Rightarrow> nat \<Rightarrow> bool \<Rightarrow> bool \<Rightarrow> bool \<Rightarrow> string \<Rightarrow> nat \<times> nat \<times> bool \<times> bool \<times> string" where
  "scanMantissa hex m k dot digit us [] = (m, k, digit, us, [])"
| "scanMantissa hex m k dot digit us (c # cs) =
     (if c = CHR ''_'' then scanMantissa hex m k dot digit True cs
      else if c = CHR ''.'' then
        if dot then (m, k, digit, us, c # cs) else scanMantissa hex m k True digit us cs
      else case digitOf c of
        None \<Rightarrow> (m, k, digit, us, c # cs)
      | Some d \<Rightarrow>
          if d < (if hex then 16 else 10) then
            scanMantissa hex (m * (if hex then 16 else 10) + d) (if dot then k + 1 else k) dot True us cs
          else (m, k, digit, us, c # cs))"

text \<open>The digits of the exponent; the value is not accumulated further once it is 10000.\<close>

fun scanExponent :: "nat \<Rightarrow> bool \<Rightarrow> string \<Rightarrow> nat \<times> bool \<times> string" where
  "scanExponent e us [] = (e, us, [])"
| "scanExponent e us (c # cs) =
     (if c = CHR ''_'' then scanExponent e True cs
      else if 48 \<le> (of_char c :: nat) \<and> of_char c \<le> (57 :: nat) then
        scanExponent (if e < 10000 then e * 10 + (of_char c - 48) else e) us cs
      else (e, us, c # cs))"

text \<open>The optional exponent: its value, underscores and the rest; \<open>None\<close> for a syntax error.\<close>

definition readExponent :: "bool \<Rightarrow> bool \<Rightarrow> string \<Rightarrow> (int \<times> bool \<times> string) option" where
  "readExponent hex us s =
     (if s \<noteq> [] \<and> lowerByte (hd s) = (if hex then 112 else 101) then
        let t = tl s;
            (neg, t) = (if t \<noteq> [] \<and> hd t = CHR ''+'' then (False, tl t)
                        else if t \<noteq> [] \<and> hd t = CHR ''-'' then (True, tl t) else (False, t))
        in if t = [] \<or> \<not> isDigit (hd t) then None
           else (case scanExponent 0 us t of (e, us, r) \<Rightarrow> Some (if neg then - int e else int e, us, r))
      else if hex then None
      else Some (0, us, s))"

definition isNegative :: "string \<Rightarrow> bool" where
  "isNegative s \<longleftrightarrow> s \<noteq> [] \<and> hd s = CHR ''-''"

definition skipSign :: "string \<Rightarrow> string" where
  "skipSign s = (if s \<noteq> [] \<and> (hd s = CHR ''+'' \<or> hd s = CHR ''-'') then tl s else s)"

text \<open>The exact value of the text of a number.\<close>

definition readNumber :: "string \<Rightarrow> rat option" where
  "readNumber s =
     (let t = skipSign s;
          hex = (3 \<le> length t \<and> t ! 0 = CHR ''0'' \<and> lowerByte (t ! 1) = 120);
          t = (if hex then drop 2 t else t)
      in case scanMantissa hex 0 0 False False False t of (m, k, digit, us, r) \<Rightarrow>
         if \<not> digit then None
         else (case readExponent hex us r of
             None \<Rightarrow> None
           | Some (e, us, r) \<Rightarrow>
               if us \<and> \<not> underscoreOK s then None
               else if r \<noteq> [] then None
               else Some ((if isNegative s then - 1 else 1) * of_nat m *
                 (if hex then 2 powi (e - 4 * int k) else 10 powi (e - int k)))))"

definition lowerText :: "string \<Rightarrow> string" where
  "lowerText s = map (\<lambda>c. if 65 \<le> (of_char c :: nat) \<and> of_char c \<le> (90 :: nat) then char_of (of_char c + (32 :: nat)) else c) s"

text \<open>\<open>strconv.ParseFloat(s, 64)\<close>; \<open>None\<close> for a syntax error and for a value out of range.\<close>

definition ParseFloat :: "string \<Rightarrow> float64 option" where
  "ParseFloat s =
     (if lowerText (skipSign s) = ''inf'' \<or> lowerText (skipSign s) = ''infinity'' then Some (Infinity (isNegative s))
      else if lowerText s = ''nan'' then Some NaN
      else case readNumber s of
        None \<Rightarrow> None
      | Some q \<Rightarrow> (case round64 q of Finite v \<Rightarrow> Some (Finite v) | _ \<Rightarrow> None))"

section \<open>Writing\<close>

text \<open>The greatest \<open>e\<close> with \<open>10\<^sup>e \<le> q\<close>, for the positive binary64 numbers.\<close>

definition decimalExponent :: "rat \<Rightarrow> int" where
  "decimalExponent q = (case find (\<lambda>e. 10 powi e \<le> q) (rev [-325..310]) of Some e \<Rightarrow> e | None \<Rightarrow> - 325)"

text \<open>The decimal of \<open>n\<close> digits next to \<open>q\<close> that is read back as \<open>q\<close>, if there is one.\<close>

definition digitsFor :: "rat \<Rightarrow> nat \<Rightarrow> (nat \<times> int) option" where
  "digitsFor q n =
     (let k = decimalExponent q + 1 - int n;
          lo = \<lfloor>q / 10 powi k\<rfloor>; hi = \<lceil>q / 10 powi k\<rceil>;
          back = (\<lambda>d. round64 (of_int d * 10 powi k) = Finite q)
      in if back lo \<and> (back hi \<longrightarrow> q / 10 powi k - of_int lo \<le> of_int hi - q / 10 powi k) then Some (nat lo, k)
         else if back hi then Some (nat hi, k) else None)"

text \<open>The first number of digits that does; 1400 are enough, because a binary64 number has at most
  309 digits before and 1074 after the decimal point.\<close>

fun searchDigits :: "rat \<Rightarrow> nat \<Rightarrow> nat \<Rightarrow> nat \<times> int" where
  "searchDigits q n 0 = (0, 0)"
| "searchDigits q n (Suc fuel) =
     (case digitsFor q n of Some r \<Rightarrow> r | None \<Rightarrow> searchDigits q (n + 1) fuel)"

definition shortest :: "rat \<Rightarrow> nat \<times> int" where
  "shortest q = searchDigits q 1 1400"

definition trimZeros :: "string \<Rightarrow> string" where
  "trimZeros d = rev (dropWhile (\<lambda>c. c = CHR ''0'') (rev d))"

definition zeros :: "nat \<Rightarrow> string" where
  "zeros n = replicate n (CHR ''0'')"

text \<open>\<open>%e\<close> and \<open>%f\<close> of the digits \<open>d\<close> with the decimal point after \<open>dp\<close> of them.\<close>

definition exponentText :: "int \<Rightarrow> string" where
  "exponentText e =
     (let t = decimal (nat \<bar>e\<bar>)
      in ''e'' @ (if e < 0 then ''-'' else ''+'') @ (if length t < 2 then zeros 1 @ t else t))"

definition formatE :: "string \<Rightarrow> int \<Rightarrow> string" where
  "formatE d dp = take 1 d @ (if length d > 1 then ''.'' @ drop 1 d else []) @ exponentText (dp - 1)"

definition formatF :: "string \<Rightarrow> int \<Rightarrow> string" where
  "formatF d dp =
     (if dp > 0 then
        take (nat dp) d @ zeros (nat dp - length d) @ (if nat dp < length d then ''.'' @ drop (nat dp) d else [])
      else ''0'' @ (if d = [] then [] else ''.'' @ zeros (nat (- dp)) @ d))"

definition formatPositive :: "rat \<Rightarrow> string" where
  "formatPositive q =
     (case shortest q of (n, k) \<Rightarrow>
       let d = trimZeros (decimal n); dp = int (length (decimal n)) + k
       in if dp - 1 < - 4 \<or> dp - 1 \<ge> 6 then formatE d dp else formatF d dp)"

text \<open>\<open>strconv.FormatFloat(x, 'g', -1, 64)\<close>.\<close>

fun FormatFloat :: "float64 \<Rightarrow> string" where
  "FormatFloat NaN = ''NaN''"
| "FormatFloat (Infinity s) = (if s then ''-Inf'' else ''+Inf'')"
| "FormatFloat (Finite q) =
     (if q = 0 then ''0'' else if q < 0 then ''-'' @ formatPositive (- q) else formatPositive q)"

lemma ParseFloat_isFloat: "ParseFloat s = Some x \<Longrightarrow> isFloat x"
  using round64_float by (auto simp: ParseFloat_def split: if_splits option.splits float64.splits)

section \<open>What is written is read back\<close>

text \<open>Numbers of digits.\<close>

lemma digitsVal_decimal: "digitsVal 0 (decimal n) = n"
proof (induction n rule: less_induct)
  case (less n)
  have "n mod 10 < 10" by simp
  then show ?case using less [of "n div 10"]
    by (subst decimal_rec) (simp add: digitVal_char_of)
qed

lemma length_decimal: "0 < j \<Longrightarrow> n < 10 ^ j \<Longrightarrow> length (decimal n) \<le> j"
proof (induction j arbitrary: n)
  case (Suc j)
  show ?case
  proof (cases "n < 10")
    case True
    then show ?thesis by (subst decimal_rec) simp
  next
    case False
    then have "0 < j" using Suc.prems by (cases j) auto
    moreover have "n div 10 < 10 ^ j" using Suc.prems by (simp add: less_mult_imp_div_less mult.commute)
    ultimately have "length (decimal (n div 10)) \<le> j" by (rule Suc.IH)
    then show ?thesis using False by (subst decimal_rec) simp
  qed
qed simp

lemma length_decimal_pos: "0 < length (decimal n)"
  using decimal_ne by simp

text \<open>Scanning.\<close>

lemma digitOf_digit: "isDigit c \<Longrightarrow> digitOf c = Some (digitVal c) \<and> digitVal c < 10 \<and> c \<noteq> CHR ''_'' \<and> c \<noteq> CHR ''.''"
  by (auto simp: isDigit_def digitOf_def digitVal_def Let_def)

lemma scanMantissa_digits: "list_all isDigit ds \<Longrightarrow>
   scanMantissa False m k dot digit us (ds @ r) =
     scanMantissa False (digitsVal m ds) (if dot then k + length ds else k) dot (digit \<or> ds \<noteq> []) us r"
proof (induction ds arbitrary: m k digit)
  case (Cons c ds)
  then show ?case using digitOf_digit [of c] by simp
qed simp

lemma scanExponent_digits: "list_all isDigit ds \<Longrightarrow> e < 10 ^ j \<Longrightarrow> j + length ds \<le> 5 \<Longrightarrow>
   scanExponent e us ds = (digitsVal e ds, us, [])"
proof (induction ds arbitrary: e j)
  case (Cons c ds)
  then have c: "c \<noteq> CHR ''_''" "48 \<le> (of_char c :: nat)" "of_char c \<le> (57 :: nat)" "digitVal c < 10"
    using digitOf_digit [of c] by (auto simp: isDigit_def)
  have "(10::nat) ^ j \<le> 10 ^ 4" by (rule power_increasing) (use Cons.prems(3) in auto)
  then have "e < 10000" using Cons.prems(2) by simp
  moreover have "e * 10 + digitVal c < 10 ^ Suc j" using Cons.prems(2) c(4) by simp
  ultimately show ?case using Cons.IH [of "e * 10 + digitVal c" "Suc j"] Cons.prems c by (simp add: digitVal_def)
qed simp

text \<open>A number in digits: before the point, after it, and an optional exponent.\<close>

definition numberText :: "string \<Rightarrow> string \<Rightarrow> int option \<Rightarrow> string" where
  "numberText a b e = a @ (if b = [] then [] else ''.'' @ b) @ (case e of None \<Rightarrow> [] | Some e \<Rightarrow> exponentText e)"

lemma readExponent_text: "\<bar>e\<bar> < 10000 \<Longrightarrow> readExponent False us (exponentText e) = Some (e, us, [])"
proof -
  assume e: "\<bar>e\<bar> < 10000"
  let ?t = "decimal (nat \<bar>e\<bar>)"
  define u where "u = (if length ?t < 2 then zeros 1 @ ?t else ?t)"
  have "nat \<bar>e\<bar> < 10 ^ 4" using e by simp
  then have l: "length ?t \<le> 4" by (intro length_decimal) simp_all
  have z: "isDigit (CHR ''0'')" "digitVal (CHR ''0'') = 0" by (simp_all add: isDigit_def digitVal_def)
  have d: "list_all isDigit u" using decimal_digits [of "nat \<bar>e\<bar>"] z by (simp add: u_def zeros_def list_all_iff)
  have v: "digitsVal 0 u = nat \<bar>e\<bar>" using z by (simp add: u_def zeros_def digitsVal_decimal)
  have n: "u \<noteq> []" using decimal_ne by (simp add: u_def zeros_def)
  have "length u \<le> 5" using l by (simp add: u_def zeros_def)
  then have s: "scanExponent 0 us u = (nat \<bar>e\<bar>, us, [])"
    using scanExponent_digits [OF d, of 0 0 us] v by simp
  have h: "isDigit (hd u)" using d n by (cases u) simp_all
  show ?thesis using s h n
    by (simp add: readExponent_def exponentText_def u_def [symmetric] Let_def lowerByte_def)
qed

lemma scanMantissa_text:
  assumes "list_all isDigit a" "list_all isDigit b" "a \<noteq> []"
  shows "scanMantissa False 0 0 False False False (numberText a b e) =
    (digitsVal 0 (a @ b), length b, True, False, case e of None \<Rightarrow> [] | Some e \<Rightarrow> exponentText e)"
proof -
  have x: "scanMantissa False m k d True False (case e of None \<Rightarrow> [] | Some e \<Rightarrow> exponentText e) =
    (m, k, True, False, case e of None \<Rightarrow> [] | Some e \<Rightarrow> exponentText e)" for m k d
    by (simp add: exponentText_def Let_def digitOf_def lowerByte_def split: option.split)
  show ?thesis
  proof (cases "b = []")
    case True
    then show ?thesis using scanMantissa_digits [OF assms(1), of 0 0 False False False] assms(3)
      by (simp add: numberText_def x)
  next
    case False
    then show ?thesis using scanMantissa_digits [OF assms(1), of 0 0 False False False]
        scanMantissa_digits [OF assms(2), of "digitsVal 0 a" 0 True True False] assms(3)
      by (simp add: numberText_def x)
  qed
qed

lemma numberText_start:
  assumes "list_all isDigit a" "list_all isDigit b" "a \<noteq> []"
  shows "isDigit (hd (numberText a b e))" "numberText a b e \<noteq> []"
    "2 \<le> length (numberText a b e) \<Longrightarrow> lowerByte (numberText a b e ! 1) \<noteq> 120"
proof -
  obtain c cs where a: "a = c # cs" using assms(3) by (cases a) auto
  show "isDigit (hd (numberText a b e))" "numberText a b e \<noteq> []" using assms(1) by (simp_all add: numberText_def a)
  have dig: "lowerByte d \<noteq> 120" if "isDigit d" for d
  proof -
    define n :: nat where "n = of_char d"
    have "48 \<le> n" "n \<le> 57" using that by (simp_all add: isDigit_def n_def)
    then have "n = 48 \<or> n = 49 \<or> n = 50 \<or> n = 51 \<or> n = 52 \<or> n = 53 \<or> n = 54 \<or> n = 55 \<or> n = 56 \<or> n = 57" by arith
    then have "or n 32 \<noteq> 120" by (elim disjE) simp_all
    then show ?thesis by (simp add: lowerByte_def n_def)
  qed
  show "lowerByte (numberText a b e ! 1) \<noteq> 120" if "2 \<le> length (numberText a b e)"
  proof (cases cs)
    case (Cons d ds)
    then show ?thesis using assms(1) dig by (simp add: numberText_def a)
  next
    case Nil
    then show ?thesis using that
      by (cases "b = []"; cases e) (simp_all add: numberText_def a exponentText_def Let_def lowerByte_def)
  qed
qed


lemma ParseFloat_text:
  assumes "list_all isDigit a" "list_all isDigit b" "a \<noteq> []" "\<bar>case e of None \<Rightarrow> 0 | Some x \<Rightarrow> x\<bar> < 10000"
    and "of_nat (digitsVal 0 (a @ b)) * 10 powi ((case e of None \<Rightarrow> 0 | Some x \<Rightarrow> x) - int (length b)) = v"
    and "round64 v = Finite q"
  shows "ParseFloat (numberText a b e) = Some (Finite q)" "ParseFloat (''-'' @ numberText a b e) = Some (Finite (- q))"
proof -
  let ?t = "numberText a b e"
  note st = numberText_start [OF assms(1-3), of e]
  obtain c cs where t: "?t = c # cs" using st(2) by (cases ?t) auto
  have c: "isDigit c" using st(1) by (simp add: t)
  then have sg: "c \<noteq> CHR ''+''" "c \<noteq> CHR ''-''" by (auto simp: isDigit_def)
  have x: "readExponent False False (case e of None \<Rightarrow> [] | Some e \<Rightarrow> exponentText e) =
      Some (case e of None \<Rightarrow> 0 | Some x \<Rightarrow> x, False, [])"
    using assms(4) readExponent_text by (cases e) (simp_all add: readExponent_def)
  have h: "(3 \<le> length ?t \<and> ?t ! 0 = CHR ''0'' \<and> lowerByte (?t ! 1) = 120) = False" using st(3) by auto
  have sk: "skipSign ?t = ?t" "skipSign (''-'' @ ?t) = ?t" "isNegative ?t = False" "isNegative (''-'' @ ?t) = True"
    using sg by (simp_all add: skipSign_def isNegative_def t)
  have r: "readNumber ?t = Some v" "readNumber (''-'' @ ?t) = Some (- v)"
    unfolding readNumber_def sk Let_def h if_False if_True scanMantissa_text [OF assms(1-3)] prod.case x option.case
    using assms(5) by simp_all
  have low: "lowerText ?t = c # lowerText cs"
    using c by (auto simp: lowerText_def t isDigit_def)
  have k: "c \<noteq> CHR ''i''" "c \<noteq> CHR ''n''" using c by (auto simp: isDigit_def)
  have rn: "round64 (- v) = Finite (- q)"
    using assms(6) by (auto simp: round64_alt sgn_minus split: if_splits)
  have m: "lowerText (''-'' @ ?t) = CHR ''-'' # lowerText ?t" by (simp add: lowerText_def)
  show "ParseFloat ?t = Some (Finite q)" "ParseFloat (''-'' @ ?t) = Some (Finite (- q))"
    unfolding ParseFloat_def sk m low r using k assms(6) rn by simp_all
qed

text \<open>The shortest decimal.\<close>

lemma find_rev_upto:
  assumes "find P (rev [a..b]) = Some e"
  shows "P e" "a \<le> e" "e \<le> b" "e < e' \<Longrightarrow> e' \<le> b \<Longrightarrow> \<not> P e'"
proof -
  obtain i where i: "i < length (rev [a..b])" "e = rev [a..b] ! i" "P (rev [a..b] ! i)" "\<And>j. j < i \<Longrightarrow> \<not> P (rev [a..b] ! j)"
    using assms by (auto simp: find_Some_iff)
  have nth: "rev [a..b] ! j = b - int j" if "j < length (rev [a..b])" for j
    using that by (simp add: rev_nth)
  have e: "e = b - int i" using i(1,2) nth by simp
  show "P e" using i by simp
  show ae: "a \<le> e" "e \<le> b" using i(1) by (simp_all add: e)
  show "\<not> P e'" if "e < e'" "e' \<le> b"
  proof -
    have j: "nat (b - e') < i" using that by (simp add: e)
    have "nat (b - e') < length (rev [a..b])" using that ae by (simp add: nat_less_iff)
    then have "rev [a..b] ! nat (b - e') = e'" using that(2) nth by simp
    with i(4) [OF j] show ?thesis by simp
  qed
qed

lemma find_rev_upto_ex: "P a \<Longrightarrow> a \<le> b \<Longrightarrow> \<exists>x. find P (rev [a..b]) = Some x"
  by (cases "find P (rev [a..b])") (auto simp: find_None_iff)

lemma decimal_integer:
  assumes "- int n \<le> s"
  shows "of_int m * 2 powi s / 10 powi (- int n) = (of_int (m * 2 ^ nat (s + int n) * 5 ^ n) :: rat)"
proof -
  have t: "(10::rat) ^ n = 2 ^ n * 5 ^ n" by (simp flip: power_mult_distrib)
  have "2 powi s * 2 ^ n = (2::rat) powi (s + int n)" by (simp add: power_int_add)
  also have "\<dots> = 2 ^ nat (s + int n)" using assms by (simp add: power_int_def)
  finally have c: "2 powi s * 2 ^ n = (2::rat) ^ nat (s + int n)" .
  have "of_int m * 2 powi s / 10 powi (- int n) = (of_int m * (2 powi s * 2 ^ n) * 5 ^ n :: rat)"
    by (simp add: power_int_minus t divide_inverse)
  then show ?thesis unfolding c by simp
qed

lemma divide_powi: "q / 10 powi k * 10 powi k = (q :: rat)"
  by simp

definition inRange :: "rat \<Rightarrow> bool" where
  "inRange q \<longleftrightarrow> 2 powi (- 1074) \<le> q \<and> q < 2 ^ 1024"

lemma decimalExponent_bounds:
  assumes "inRange q" defines "e \<equiv> decimalExponent q"
  shows "10 powi e \<le> q" "q < 10 powi (e + 1)" "- 325 \<le> e" "e \<le> 308"
proof -
  have "(2::rat) ^ 1074 \<le> 10 ^ 325" by simp
  then have "(10::rat) powi (- 325) \<le> 2 powi (- 1074)" by (simp add: power_int_def field_simps)
  also have "\<dots> \<le> q" using assms(1) by (simp add: inRange_def)
  finally have lo: "10 powi (- 325) \<le> q" .
  have "q < 2 ^ 1024" using assms(1) by (simp add: inRange_def)
  also have "(2::rat) ^ 1024 \<le> 10 ^ 309" by simp
  finally have hi: "q < 10 powi 309" by simp
  obtain x where x: "find (\<lambda>e. 10 powi e \<le> q) (rev [-325..310]) = Some x"
    using find_rev_upto_ex [of "\<lambda>e. 10 powi e \<le> q", OF lo, of 310] by auto
  then have e: "e = x" by (simp add: e_def decimalExponent_def)
  note f = find_rev_upto [OF x, folded e]
  show "10 powi e \<le> q" "- 325 \<le> e" using f by simp_all
  show e2: "e \<le> 308"
  proof (rule ccontr)
    assume "\<not> e \<le> 308"
    then have "(10::rat) powi 309 \<le> 10 powi e" by (intro power_int_increasing) auto
    then show False using f(1) hi by simp
  qed
  show "q < 10 powi (e + 1)" using f(4) [of "e + 1"] e2 by simp
qed

lemma isFloat_positive:
  assumes "isFloat (Finite q)" "0 < q"
  obtains m s where "q = of_int m * 2 powi s" "- 1074 \<le> s" "0 < m" "inRange q"
proof -
  have n: "nearest q = q" "q < 2 ^ 1024"
    using assms by (auto simp: isFloat_def round64_alt split: if_splits)
  define m where "m = roundEven (q / 2 powi scale q)"
  have q: "q = of_int m * 2 powi scale q" using n(1) by (simp add: nearest_def m_def)
  have s: "- 1074 \<le> scale q" by (simp add: scale_def)
  have m: "0 < m" using q assms(2) by (metis of_int_0_less_iff zero_less_mult_iff zero_less_power_int zero_less_numeral not_less_iff_gr_or_eq)
  have "(2::rat) powi (- 1074) \<le> 2 powi scale q" using s by (intro power_int_increasing) auto
  also have "\<dots> \<le> of_int m * 2 powi scale q" using m by simp
  finally have "inRange q" using n(2) q by (simp add: inRange_def)
  then show ?thesis using that q s m by blast
qed

lemma digitsFor_sound:
  assumes "digitsFor q n = Some (d, k)" "0 < q" "inRange q"
  shows "round64 (of_nat d * 10 powi k) = Finite q" "k = decimalExponent q + 1 - int n" "d \<le> 10 ^ n"
proof -
  let ?r = "q / 10 powi k"
  show k: "k = decimalExponent q + 1 - int n"
    using assms(1) by (auto simp: digitsFor_def Let_def split: if_splits)
  have d: "d = nat \<lfloor>?r\<rfloor> \<or> d = nat \<lceil>?r\<rceil>" and
    b: "round64 (of_int \<lfloor>?r\<rfloor> * 10 powi k) = Finite q \<and> d = nat \<lfloor>?r\<rfloor> \<or>
        round64 (of_int \<lceil>?r\<rceil> * 10 powi k) = Finite q \<and> d = nat \<lceil>?r\<rceil>"
    using assms(1) by (auto simp: digitsFor_def Let_def k split: if_splits)
  have r: "0 \<le> ?r" using assms(2) by simp
  have "0 \<le> \<lfloor>?r\<rfloor>" "0 \<le> \<lceil>?r\<rceil>" using r by (simp, linarith)
  then have "of_nat (nat \<lfloor>?r\<rfloor>) = (of_int \<lfloor>?r\<rfloor> :: rat)" "of_nat (nat \<lceil>?r\<rceil>) = (of_int \<lceil>?r\<rceil> :: rat)" by simp_all
  then show "round64 (of_nat d * 10 powi k) = Finite q" using b by auto
  have "?r \<le> 10 powi (decimalExponent q + 1) / 10 powi k"
    using decimalExponent_bounds(2) [OF assms(3)] by (simp add: divide_right_mono)
  also have "\<dots> = 10 ^ n" by (simp add: power_int_diff [symmetric] k)
  finally have "?r \<le> of_int (10 ^ n)" by simp
  then have "\<lceil>?r\<rceil> \<le> 10 ^ n" by (simp only: ceiling_le_iff)
  moreover have "\<lfloor>?r\<rfloor> \<le> \<lceil>?r\<rceil>" by (rule floor_le_ceiling)
  ultimately have "\<lfloor>?r\<rfloor> \<le> 10 ^ n" by (rule order_trans [rotated])
  with \<open>\<lceil>?r\<rceil> \<le> 10 ^ n\<close> show "d \<le> 10 ^ n" using d by (elim disjE) (simp_all add: nat_le_iff del: floor_le_iff ceiling_le_iff)
qed

lemma digitsFor_exact:
  assumes "isFloat (Finite q)" "0 < q"
  shows "\<exists>n r. 1 \<le> n \<and> n \<le> 1400 \<and> digitsFor q n = Some r"
proof -
  obtain m s where q: "q = of_int m * 2 powi s" "- 1074 \<le> s" "0 < m" and r: "inRange q"
    using isFloat_positive [OF assms] .
  note e = decimalExponent_bounds [OF r]
  define n where "n = nat (decimalExponent q + 1 + 1074)"
  define z where "z = m * 2 ^ nat (s + 1074) * 5 ^ 1074"
  have k: "decimalExponent q + 1 - int n = - 1074" using e(3) by (simp add: n_def)
  have z: "q / 10 powi (- 1074) = of_int z"
    using decimal_integer [of 1074 s m] q(2) unfolding q(1) z_def by (simp only: of_nat_numeral)
  have b: "of_int z * 10 powi (- 1074) = q" unfolding z [symmetric] by (rule divide_powi)
  have "digitsFor q n = Some (nat z, - 1074)"
    using assms(1) unfolding digitsFor_def Let_def k z floor_of_int ceiling_of_int b by (simp add: isFloat_def)
  moreover have "1 \<le> n" "n \<le> 1400" using e(3,4) by (simp_all add: n_def)
  ultimately show ?thesis by blast
qed

lemma searchDigits_found:
  "digitsFor q n' = Some r \<Longrightarrow> n \<le> n' \<Longrightarrow> n' < n + fuel \<Longrightarrow>
   \<exists>n''. n \<le> n'' \<and> n'' < n + fuel \<and> digitsFor q n'' = Some (searchDigits q n fuel)"
proof (induction fuel arbitrary: n)
  case (Suc f)
  show ?case
  proof (cases "digitsFor q n")
    case None
    with Suc.prems have "n \<noteq> n'" by auto
    with Suc.IH [of "Suc n"] Suc.prems None show ?thesis by (auto intro: Suc_leD)
  qed auto
qed simp

lemma shortest_sound:
  assumes "isFloat (Finite q)" "0 < q" "shortest q = (d, k)"
  shows "round64 (of_nat d * 10 powi k) = Finite q" "0 < d" "length (decimal d) \<le> 1401" "- 1724 \<le> k" "k \<le> 308"
proof -
  obtain r n where "digitsFor q n = Some r" "1 \<le> n" "n \<le> 1400" using digitsFor_exact [OF assms(1,2)] by blast
  from searchDigits_found [OF this(1,2), of 1400] this(3) assms(3) obtain n' where
    n': "digitsFor q n' = Some (d, k)" "1 \<le> n'" "n' \<le> 1400" by (auto simp: shortest_def)
  have rg: "inRange q" using isFloat_positive [OF assms(1,2)] .
  note s = digitsFor_sound [OF n'(1) assms(2) rg] and e = decimalExponent_bounds [OF rg]
  show "round64 (of_nat d * 10 powi k) = Finite q" by (rule s)
  show "0 < d" using s(1) assms(2) by (cases "d = 0") (auto simp: round64_def)
  have "(10::nat) ^ n' < 10 ^ Suc n'" by simp
  then have "d < 10 ^ Suc n'" using s(3) by linarith
  then have "length (decimal d) \<le> Suc n'" by (intro length_decimal) simp_all
  then show "length (decimal d) \<le> 1401" using n'(3) by simp
  show "- 1724 \<le> k" "k \<le> 308" using s(2) e(3,4) n'(2,3) by simp_all
qed


text \<open>The text of the digits.\<close>

lemma trimZeros_split: "d = trimZeros d @ zeros (length d - length (trimZeros d))"
proof -
  have "rev d = takeWhile (\<lambda>c. c = CHR ''0'') (rev d) @ dropWhile (\<lambda>c. c = CHR ''0'') (rev d)" by simp
  moreover have "takeWhile (\<lambda>c. c = CHR ''0'') (rev d) = zeros (length (takeWhile (\<lambda>c. c = CHR ''0'') (rev d)))"
    unfolding zeros_def by (rule replicate_eqI [symmetric, THEN sym]) (auto dest: set_takeWhileD)
  ultimately have "d = trimZeros d @ rev (zeros (length (takeWhile (\<lambda>c. c = CHR ''0'') (rev d))))"
    unfolding trimZeros_def by (metis rev_append rev_rev_ident)
  then have e: "d = trimZeros d @ zeros (length (takeWhile (\<lambda>c. c = CHR ''0'') (rev d)))" by (simp add: zeros_def)
  from arg_cong [OF e, of length] have "length d = length (trimZeros d) + length (takeWhile (\<lambda>c. c = CHR ''0'') (rev d))"
    by (simp add: zeros_def)
  with e show ?thesis by simp
qed

lemma zeros_digits [simp]: "list_all isDigit (zeros n)" "length (zeros n) = n"
  by (simp_all add: zeros_def isDigit_def list_all_iff)

lemma digitsVal_leading: "digitsVal 0 (zeros n @ d) = digitsVal 0 d"
  by (induction n) (simp_all add: zeros_def digitVal_def)

lemma formatF_text:
  assumes "d \<noteq> []" "list_all isDigit d"
  shows "\<exists>a b. formatF d dp = numberText a b None \<and> a \<noteq> [] \<and> list_all isDigit a \<and> list_all isDigit b \<and>
    (of_nat (digitsVal 0 (a @ b)) * 10 powi (- int (length b)) :: rat) =
      of_nat (digitsVal 0 d) * 10 powi (dp - int (length d))"
proof (cases "dp > 0")
  case True
  let ?a = "take (nat dp) d @ zeros (nat dp - length d)" and ?b = "drop (nat dp) d"
  have "formatF d dp = numberText ?a ?b None" using True by (auto simp: formatF_def numberText_def)
  moreover have "?a \<noteq> []" using True assms(1) by simp
  moreover have "list_all isDigit ?a" "list_all isDigit ?b"
    using assms(2) zeros_digits(1) by (auto simp: list_all_iff dest: in_set_takeD in_set_dropD)
  moreover have "(of_nat (digitsVal 0 (?a @ ?b)) * 10 powi (- int (length ?b)) :: rat) =
      of_nat (digitsVal 0 d) * 10 powi (dp - int (length d))"
  proof (cases "nat dp < length d")
    case True
    then show ?thesis using \<open>dp > 0\<close> by (simp add: zeros_def flip: foldl_append)
  next
    case False
    then have "dp - int (length d) = int (nat dp - length d)" using \<open>dp > 0\<close> by simp
    then have e: "10 powi (dp - int (length d)) = (10::rat) ^ (nat dp - length d)"
      by (simp only: power_int_of_nat)
    show ?thesis unfolding e using False digitsVal_zeros [of 0 d "nat dp - length d"] by (simp add: zeros_def)
  qed
  ultimately show ?thesis by blast
next
  case False
  let ?b = "zeros (nat (- dp)) @ d"
  have "formatF d dp = numberText (zeros 1) ?b None" using False assms(1) by (simp add: formatF_def numberText_def zeros_def)
  moreover have "digitsVal 0 (zeros 1 @ ?b) = digitsVal 0 d"
    by (simp only: digitsVal_leading)
  moreover have "- int (length ?b) = dp - int (length d)" using False by simp
  moreover have "zeros 1 \<noteq> []" "list_all isDigit ?b"
    using assms(2) by (simp add: zeros_def, simp)
  ultimately show ?thesis by (metis zeros_digits(1))
qed

lemma formatE_text:
  assumes "d \<noteq> []" "list_all isDigit d"
  shows "\<exists>a b. formatE d dp = numberText a b (Some (dp - 1)) \<and> a \<noteq> [] \<and> list_all isDigit a \<and> list_all isDigit b \<and>
    (of_nat (digitsVal 0 (a @ b)) * 10 powi (dp - 1 - int (length b)) :: rat) =
      of_nat (digitsVal 0 d) * 10 powi (dp - int (length d))"
proof -
  obtain c cs where d: "d = c # cs" using assms(1) by (cases d) auto
  show ?thesis
    by (rule exI [of _ "[c]"], rule exI [of _ cs]) (use assms(2) in \<open>simp add: d formatE_def numberText_def diff_diff_eq\<close>)
qed

lemma ParseFloat_formatPositive:
  assumes "isFloat (Finite q)" "0 < q"
  shows "ParseFloat (formatPositive q) = Some (Finite q)" "ParseFloat (''-'' @ formatPositive q) = Some (Finite (- q))"
proof -
  obtain n k where nk: "shortest q = (n, k)" by force
  note s = shortest_sound [OF assms nk]
  define d dp where "d = trimZeros (decimal n)" and "dp = int (length (decimal n)) + k"
  define j where "j = length (decimal n) - length d"
  have split: "decimal n = d @ zeros j" unfolding j_def d_def by (rule trimZeros_split)
  have dd: "list_all isDigit d" using decimal_digits [of n] arg_cong [OF split, of set] by (auto simp: list_all_iff)
  have v: "digitsVal 0 d * 10 ^ j = n" using digitsVal_zeros [of 0 d j] digitsVal_decimal [of n] by (simp add: split zeros_def)
  then have ne: "d \<noteq> []" using s(2) by auto
  have l: "length (decimal n) = length d + j" by (simp add: split)
  have e: "dp - int (length d) = int j + k" by (simp add: dp_def l)
  have val: "(of_nat (digitsVal 0 d) * 10 powi (dp - int (length d)) :: rat) = of_nat n * 10 powi k"
    unfolding e by (simp add: v [symmetric] power_int_add)
  have dp: "\<bar>dp - 1\<bar> < 10000" using s(3,4,5) length_decimal_pos [of n] by (simp add: dp_def)
  have f: "formatPositive q = (if dp - 1 < - 4 \<or> dp - 1 \<ge> 6 then formatE d dp else formatF d dp)"
    by (simp add: formatPositive_def nk d_def dp_def Let_def)
  obtain a b e where t: "formatPositive q = numberText a b e" "a \<noteq> []" "list_all isDigit a" "list_all isDigit b"
    "\<bar>case e of None \<Rightarrow> 0 | Some x \<Rightarrow> x\<bar> < 10000"
    "of_nat (digitsVal 0 (a @ b)) * 10 powi ((case e of None \<Rightarrow> 0 | Some x \<Rightarrow> x) - int (length b)) = (of_nat n * 10 powi k :: rat)"
  proof (cases "dp - 1 < - 4 \<or> dp - 1 \<ge> 6")
    case True
    from formatE_text [OF ne dd, of dp] obtain a b where
      "formatE d dp = numberText a b (Some (dp - 1))" "a \<noteq> []" "list_all isDigit a" "list_all isDigit b"
      "(of_nat (digitsVal 0 (a @ b)) * 10 powi (dp - 1 - int (length b)) :: rat) = of_nat n * 10 powi k"
      unfolding val by blast
    then show ?thesis using that [of a b "Some (dp - 1)"] True dp f by simp
  next
    case False
    from formatF_text [OF ne dd, of dp] obtain a b where
      "formatF d dp = numberText a b None" "a \<noteq> []" "list_all isDigit a" "list_all isDigit b"
      "(of_nat (digitsVal 0 (a @ b)) * 10 powi (- int (length b)) :: rat) = of_nat n * 10 powi k"
      unfolding val by blast
    then show ?thesis using that [of a b None] False dp f by simp
  qed
  show "ParseFloat (formatPositive q) = Some (Finite q)" "ParseFloat (''-'' @ formatPositive q) = Some (Finite (- q))"
    unfolding t(1) using ParseFloat_text [OF t(3,4,2,5,6) s(1)] by simp_all
qed

lemma isFloat_uminus: "isFloat (Finite q) \<Longrightarrow> isFloat (Finite (- q))"
  by (auto simp: isFloat_def round64_alt sgn_minus split: if_splits)

lemma ParseFloat_zero: "ParseFloat ''0'' = Some (Finite 0)"
  using ParseFloat_text(1) [of "''0''" "[]" None 0 0]
  by (simp add: isDigit_def numberText_def digitVal_def round64_def)

lemma ParseFloat_FormatFloat: "isFloat x \<Longrightarrow> finite64 x \<Longrightarrow> ParseFloat (FormatFloat x) = Some x"
proof -
  assume a: "isFloat x" "finite64 x"
  then obtain q where x: "x = Finite q" by (cases x) (auto simp: finite64_def)
  consider "q = 0" | "0 < q" | "q < 0" by linarith
  then show ?thesis
  proof cases
    case 1
    then show ?thesis by (simp add: x ParseFloat_zero)
  next
    case 2
    then show ?thesis using ParseFloat_formatPositive(1) [of q] a by (simp add: x)
  next
    case 3
    then show ?thesis using ParseFloat_formatPositive(2) [of "- q"] isFloat_uminus [of q] a by (simp add: x)
  qed
qed

end
