(* ===== verification/Inventory_Geometry.thy ===== *)
theory Inventory_Geometry
  imports Go_Float_Text
begin

text \<open>
  \<open>internal/inventory/geometry.go\<close>: GeoJSON polygons as rings of positions, their bounding box and
  the point and area tests of the cell selection. JSON text is read and written by
  \<open>encoding/json\<close>, which is the record \<open>GeoCodec\<close>: \<open>Unmarshal\<close> of the document, of the coordinates
  of a polygon and of those of a multipolygon (\<open>None\<close>: an error), and the text that \<open>Marshal\<close> gives
  for each of the two. \<open>Marshal\<close> refuses numbers that are not finite. Texts of error messages are
  left out.
\<close>

section \<open>Data\<close>

record geoPoint =
  Lon :: float64
  Lat :: float64

type_synonym Ring = "geoPoint list"

record Geometry =
  geo_Type :: string
  geo_Polygons :: "Ring list list"

record GeoBounds =
  MinLatitude :: float64
  MinLongitude :: float64
  MaxLatitude :: float64
  MaxLongitude :: float64

record GeoCodec =
  gj_type :: "string \<Rightarrow> string option"
  gj_polygon :: "string \<Rightarrow> float64 list list list option"
  gj_multi :: "string \<Rightarrow> float64 list list list list option"
  gj_textPolygon :: "(float64 \<times> float64) list list \<Rightarrow> string"
  gj_textMulti :: "(float64 \<times> float64) list list list \<Rightarrow> string"

datatype geometry_error =
    InvalidGeoJSON
  | InvalidCoordinates
  | NoPolygons
  | NoRings
  | FewPositions nat
  | NotAPair nat nat
  | LongitudeRange nat nat
  | LatitudeRange nat nat
  | NotClosed nat
  | InPolygon nat geometry_error
  | UnsupportedGeometry string
  | UnsupportedNumber

section \<open>Parsing\<close>

definition outside :: "rat \<Rightarrow> rat \<Rightarrow> float64 \<Rightarrow> bool" where
  "outside lo hi x \<longleftrightarrow> fless x (Finite lo) \<or> fless (Finite hi) x"

definition buildPosition :: "nat \<Rightarrow> nat \<Rightarrow> float64 list \<Rightarrow> geometry_error + geoPoint" where
  "buildPosition ri i pos =
     failIf (length pos < 2) (NotAPair ri i) (
     let lon = pos ! 0; lat = pos ! 1 in
     failIf (outside (- 180) 180 lon) (LongitudeRange ri i) (
     failIf (outside (- 90) 90 lat) (LatitudeRange ri i) (
     Inr \<lparr>Lon = lon, Lat = lat\<rparr>)))"

text \<open>Comparison of structs with \<open>==\<close> compares the fields.\<close>

definition samePoint :: "geoPoint \<Rightarrow> geoPoint \<Rightarrow> bool" where
  "samePoint p q \<longleftrightarrow> feq (Lon p) (Lon q) \<and> feq (Lat p) (Lat q)"

definition closeRing :: "Ring \<Rightarrow> Ring" where
  "closeRing ring = (if samePoint (ring ! 0) (ring ! (length ring - 1)) then ring else ring @ [ring ! 0])"

definition buildRing :: "nat \<Rightarrow> float64 list list \<Rightarrow> geometry_error + Ring" where
  "buildRing ri positions =
     failIf (length positions < 3) (FewPositions ri) (
     andThen (mapE (\<lambda>(i, pos). buildPosition ri i pos) (List.enumerate 0 positions)) (\<lambda>ring.
     let ring = closeRing ring in
     failIf (length ring < 4) (NotClosed ri) (Inr ring)))"

definition buildRings :: "float64 list list list \<Rightarrow> geometry_error + Ring list" where
  "buildRings coords =
     failIf (length coords = 0) NoRings (
     mapE (\<lambda>(ri, positions). buildRing ri positions) (List.enumerate 0 coords))"

definition ParseGeometry :: "GeoCodec \<Rightarrow> string \<Rightarrow> geometry_error + Geometry" where
  "ParseGeometry gj raw =
     (case gj_type gj raw of
        None \<Rightarrow> Inl InvalidGeoJSON
      | Some ty \<Rightarrow>
          if ty = ''Polygon'' then
            (case gj_polygon gj raw of
               None \<Rightarrow> Inl InvalidCoordinates
             | Some coords \<Rightarrow>
                 andThen (buildRings coords) (\<lambda>rings.
                 Inr \<lparr>geo_Type = ''Polygon'', geo_Polygons = [rings]\<rparr>))
          else if ty = ''MultiPolygon'' then
            (case gj_multi gj raw of
               None \<Rightarrow> Inl InvalidCoordinates
             | Some coords \<Rightarrow>
                 failIf (length coords = 0) NoPolygons (
                 andThen (mapE (\<lambda>(i, c). wrapErr (InPolygon i) (buildRings c)) (List.enumerate 0 coords)) (\<lambda>polys.
                 Inr \<lparr>geo_Type = ''MultiPolygon'', geo_Polygons = polys\<rparr>)))
          else Inl (UnsupportedGeometry ty))"

section \<open>Bounding box\<close>

definition extendBounds :: "GeoBounds \<Rightarrow> geoPoint \<Rightarrow> GeoBounds" where
  "extendBounds b p =
     (let b = (if fless (Lat p) (MinLatitude b) then b\<lparr>MinLatitude := Lat p\<rparr> else b);
          b = (if fless (MaxLatitude b) (Lat p) then b\<lparr>MaxLatitude := Lat p\<rparr> else b);
          b = (if fless (Lon p) (MinLongitude b) then b\<lparr>MinLongitude := Lon p\<rparr> else b);
          b = (if fless (MaxLongitude b) (Lon p) then b\<lparr>MaxLongitude := Lon p\<rparr> else b)
      in b)"

definition zeroBounds :: GeoBounds where
  "zeroBounds = \<lparr>MinLatitude = Finite 0, MinLongitude = Finite 0, MaxLatitude = Finite 0, MaxLongitude = Finite 0\<rparr>"

definition geometryPoints :: "Geometry \<Rightarrow> geoPoint list" where
  "geometryPoints g = concat (concat (geo_Polygons g))"

definition BoundsOf :: "Geometry \<Rightarrow> GeoBounds" where
  "BoundsOf g =
     (case geometryPoints g of
        [] \<Rightarrow> zeroBounds
      | p # ps \<Rightarrow> foldl extendBounds
          \<lparr>MinLatitude = Lat p, MinLongitude = Lon p, MaxLatitude = Lat p, MaxLongitude = Lon p\<rparr> ps)"

section \<open>Canonical text\<close>

definition ringsToCoords :: "Ring list \<Rightarrow> (float64 \<times> float64) list list" where
  "ringsToCoords rings = map (map (\<lambda>p. (Lon p, Lat p))) rings"

definition finitePoint :: "geoPoint \<Rightarrow> bool" where
  "finitePoint p \<longleftrightarrow> finite64 (Lon p) \<and> finite64 (Lat p)"

definition MarshalCanonical :: "GeoCodec \<Rightarrow> Geometry \<Rightarrow> geometry_error + string" where
  "MarshalCanonical gj g =
     (if geo_Type g = ''Polygon'' then
        failIf (\<not> list_all (list_all finitePoint) (geo_Polygons g ! 0)) UnsupportedNumber (
        Inr (gj_textPolygon gj (ringsToCoords (geo_Polygons g ! 0))))
      else if geo_Type g = ''MultiPolygon'' then
        failIf (\<not> list_all finitePoint (geometryPoints g)) UnsupportedNumber (
        Inr (gj_textMulti gj (map ringsToCoords (geo_Polygons g))))
      else Inl (UnsupportedGeometry (geo_Type g)))"

definition ValidateCoverageGeoJSON :: "GeoCodec \<Rightarrow> string \<Rightarrow> geometry_error + (string \<times> GeoBounds)" where
  "ValidateCoverageGeoJSON gj raw =
     andThen (ParseGeometry gj raw) (\<lambda>g.
     andThen (MarshalCanonical gj g) (\<lambda>canon. Inr (canon, BoundsOf g)))"

section \<open>Points and areas\<close>

text \<open>The consecutive pairs of a ring: its edges.\<close>

definition edges :: "Ring \<Rightarrow> (geoPoint \<times> geoPoint) list" where
  "edges ring = zip (butlast ring) (tl ring)"

definition crosses :: "geoPoint \<Rightarrow> geoPoint \<times> geoPoint \<Rightarrow> bool" where
  "crosses p e =
     (case e of (a, b) \<Rightarrow>
       if fless (Lat p) (Lat a) = fless (Lat p) (Lat b) then False
       else let t = fdiv (fsub (Lat p) (Lat a)) (fsub (Lat b) (Lat a))
            in fless (Lon p) (fadd (Lon a) (fmul t (fsub (Lon b) (Lon a)))))"

definition rayCrossings :: "Ring \<Rightarrow> geoPoint \<Rightarrow> nat" where
  "rayCrossings ring p = length (filter (crosses p) (edges ring))"

definition pointInPolygonRings :: "Ring list \<Rightarrow> geoPoint \<Rightarrow> bool" where
  "pointInPolygonRings rings p \<longleftrightarrow> sum_list (map (\<lambda>ring. rayCrossings ring p) rings) mod 2 = 1"

definition ContainsPoint :: "Geometry \<Rightarrow> float64 \<Rightarrow> float64 \<Rightarrow> bool" where
  "ContainsPoint g lon lat \<longleftrightarrow>
     list_ex (\<lambda>poly. pointInPolygonRings poly \<lparr>Lon = lon, Lat = lat\<rparr>) (geo_Polygons g)"

definition boundsOverlap :: "GeoBounds \<Rightarrow> GeoBounds \<Rightarrow> bool" where
  "boundsOverlap a b \<longleftrightarrow>
     fle (MinLongitude a) (MaxLongitude b) \<and> fle (MinLongitude b) (MaxLongitude a) \<and>
     fle (MinLatitude a) (MaxLatitude b) \<and> fle (MinLatitude b) (MaxLatitude a)"

definition orientation :: "geoPoint \<Rightarrow> geoPoint \<Rightarrow> geoPoint \<Rightarrow> int" where
  "orientation a b c =
     (let val = fsub (fmul (fsub (Lon b) (Lon a)) (fsub (Lat c) (Lat a)))
                     (fmul (fsub (Lat b) (Lat a)) (fsub (Lon c) (Lon a)))
      in if fless (Finite 0) val then 1 else if fless val (Finite 0) then 2 else 0)"

definition onSegment :: "geoPoint \<Rightarrow> geoPoint \<Rightarrow> geoPoint \<Rightarrow> bool" where
  "onSegment a b c \<longleftrightarrow>
     fle (Lon b) (fmax (Lon a) (Lon c)) \<and> fle (fmin (Lon a) (Lon c)) (Lon b) \<and>
     fle (Lat b) (fmax (Lat a) (Lat c)) \<and> fle (fmin (Lat a) (Lat c)) (Lat b)"

definition segmentsIntersect :: "geoPoint \<Rightarrow> geoPoint \<Rightarrow> geoPoint \<Rightarrow> geoPoint \<Rightarrow> bool" where
  "segmentsIntersect p1 q1 p2 q2 =
     (let o1 = orientation p1 q1 p2; o2 = orientation p1 q1 q2;
          o3 = orientation p2 q2 p1; o4 = orientation p2 q2 q1
      in o1 \<noteq> o2 \<and> o3 \<noteq> o4 \<or>
         o1 = 0 \<and> onSegment p1 p2 q1 \<or>
         o2 = 0 \<and> onSegment p1 q2 q1 \<or>
         o3 = 0 \<and> onSegment p2 p1 q2 \<or>
         o4 = 0 \<and> onSegment p2 q1 q2)"

definition polygonsIntersect :: "Ring list \<Rightarrow> Ring list \<Rightarrow> bool" where
  "polygonsIntersect polyA polyB =
     (if length polyA = 0 \<or> length polyB = 0 then False
      else list_ex (pointInPolygonRings polyB) (polyA ! 0) \<or>
           list_ex (pointInPolygonRings polyA) (polyB ! 0) \<or>
           list_ex (\<lambda>ringA. list_ex (\<lambda>(p1, q1). list_ex (\<lambda>ringB.
             list_ex (\<lambda>(p2, q2). segmentsIntersect p1 q1 p2 q2) (edges ringB)) polyB) (edges ringA)) polyA)"

definition Intersects :: "Geometry \<Rightarrow> Geometry \<Rightarrow> bool" where
  "Intersects a b =
     (if \<not> boundsOverlap (BoundsOf a) (BoundsOf b) then False
      else list_ex (\<lambda>polyA. list_ex (polygonsIntersect polyA) (geo_Polygons b)) (geo_Polygons a))"

section \<open>Parsed geometries\<close>

definition okRing :: "Ring \<Rightarrow> bool" where
  "okRing r \<longleftrightarrow> 4 \<le> length r \<and> hd r = last r \<and>
     list_all (\<lambda>p. \<not> outside (- 180) 180 (Lon p) \<and> \<not> outside (- 90) 90 (Lat p)) r"

definition okGeometry :: "Geometry \<Rightarrow> bool" where
  "okGeometry g \<longleftrightarrow> geo_Polygons g \<noteq> [] \<and> list_all (\<lambda>rings. rings \<noteq> [] \<and> list_all okRing rings) (geo_Polygons g) \<and>
     (geo_Type g = ''Polygon'' \<and> length (geo_Polygons g) = 1 \<or> geo_Type g = ''MultiPolygon'')"

lemma mapE_enumerate_all:
  "mapE (\<lambda>(i, x). f i x) (List.enumerate n xs) = Inr ys \<Longrightarrow> (\<And>i x y. x \<in> set xs \<Longrightarrow> f i x = Inr y \<Longrightarrow> P y) \<Longrightarrow>
   length ys = length xs \<and> list_all P ys"
proof (induction xs arbitrary: n ys)
  case (Cons x xs)
  from Cons.prems(1) obtain y zs where y: "f n x = Inr y" "mapE (\<lambda>(i, x). f i x) (List.enumerate (Suc n) xs) = Inr zs"
    "ys = y # zs" by (auto simp: andThen_eq_Inr)
  have "P y" using Cons.prems(2) [OF _ y(1)] by simp
  moreover have "length zs = length xs \<and> list_all P zs" by (rule Cons.IH [OF y(2)]) (use Cons.prems(2) in auto)
  ultimately show ?case by (simp add: y(3))
qed simp

lemma samePoint_eq: "samePoint p q \<Longrightarrow> p = q"
  by (simp add: samePoint_def feq_def)

lemma closeRing_closed: "ring \<noteq> [] \<Longrightarrow> hd (closeRing ring) = last (closeRing ring)"
  by (auto simp: closeRing_def hd_conv_nth last_conv_nth nth_append dest: samePoint_eq)

lemma set_closeRing: "ring \<noteq> [] \<Longrightarrow> set (closeRing ring) = set ring"
  by (auto simp: closeRing_def)

lemma buildPosition_ok: "buildPosition ri i pos = Inr p \<Longrightarrow>
    \<not> outside (- 180) 180 (Lon p) \<and> \<not> outside (- 90) 90 (Lat p)"
  by (auto simp: buildPosition_def Let_def)

lemma buildRing_ok: "buildRing ri ps = Inr r \<Longrightarrow> okRing r"
proof -
  assume "buildRing ri ps = Inr r"
  then obtain ring where l: "3 \<le> length ps" and
    m: "mapE (\<lambda>(i, pos). buildPosition ri i pos) (List.enumerate 0 ps) = Inr ring" and
    r: "r = closeRing ring" "4 \<le> length r"
    by (auto simp: buildRing_def andThen_eq_Inr Let_def not_less)
  from mapE_enumerate_all [OF m, of "\<lambda>p. \<not> outside (- 180) 180 (Lon p) \<and> \<not> outside (- 90) 90 (Lat p)"] buildPosition_ok l have
    a: "list_all (\<lambda>p. \<not> outside (- 180) 180 (Lon p) \<and> \<not> outside (- 90) 90 (Lat p)) ring" "ring \<noteq> []" by auto
  then show ?thesis using r closeRing_closed [OF a(2)] by (simp add: okRing_def list_all_iff set_closeRing)
qed

lemma buildRings_ok: "buildRings cs = Inr rings \<Longrightarrow> rings \<noteq> [] \<and> list_all okRing rings"
  using mapE_enumerate_all [of buildRing 0 cs rings okRing, OF _ buildRing_ok]
  by (auto simp: buildRings_def)

lemma ParseGeometry_ok: "ParseGeometry gj raw = Inr g \<Longrightarrow> okGeometry g"
proof -
  have m: "mapE (\<lambda>(i, c). wrapErr (InPolygon i) (buildRings c)) (List.enumerate 0 cs) = Inr polys \<Longrightarrow>
    length polys = length cs \<and> list_all (\<lambda>rings. rings \<noteq> [] \<and> list_all okRing rings) polys" for cs polys
    by (rule mapE_enumerate_all [where f = "\<lambda>i c. wrapErr (InPolygon i) (buildRings c)"]) (auto dest: buildRings_ok)
  assume "ParseGeometry gj raw = Inr g"
  then show ?thesis
    by (auto simp: ParseGeometry_def okGeometry_def andThen_eq_Inr split: option.splits if_splits
        dest!: m dest: buildRings_ok)
qed

section \<open>The bounding box\<close>

lemma fless_Finite [simp]: "fless (Finite a) (Finite b) \<longleftrightarrow> a < b" by simp

lemma fle_Finite [simp]: "fle (Finite a) (Finite b) \<longleftrightarrow> a \<le> b"
  by (auto simp: fle_def feq_def)

definition inBounds :: "GeoBounds \<Rightarrow> geoPoint \<Rightarrow> bool" where
  "inBounds b p \<longleftrightarrow> fle (MinLongitude b) (Lon p) \<and> fle (Lon p) (MaxLongitude b) \<and>
     fle (MinLatitude b) (Lat p) \<and> fle (Lat p) (MaxLatitude b)"

text \<open>\<open>b\<close> is the smallest box around the points: every point is inside, and every side touches one.\<close>

definition isBox :: "GeoBounds \<Rightarrow> geoPoint list \<Rightarrow> bool" where
  "isBox b ps \<longleftrightarrow> list_all (inBounds b) ps \<and> MinLongitude b \<in> Lon ` set ps \<and> MaxLongitude b \<in> Lon ` set ps \<and>
     MinLatitude b \<in> Lat ` set ps \<and> MaxLatitude b \<in> Lat ` set ps"

lemma finite64_cases: "finite64 x \<longleftrightarrow> (\<exists>q. x = Finite q)"
  by (cases x) (auto simp: finite64_def)

lemma fle_trans: "fle x y \<Longrightarrow> fle y z \<Longrightarrow> fle x z"
  by (cases x; cases y; cases z) (auto simp: fle_def feq_def)

lemma fle_refl: "x \<noteq> NaN \<Longrightarrow> fle x x"
  by (simp add: fle_def feq_def)

lemma not_fless: "finite64 x \<Longrightarrow> finite64 y \<Longrightarrow> \<not> fless x y \<Longrightarrow> fle y x"
  by (auto simp: finite64_cases)

lemma fless_fle: "fless x y \<Longrightarrow> fle x y" by (simp add: fle_def)

lemma extendBounds_fields:
  "MinLatitude (extendBounds b p) = (if fless (Lat p) (MinLatitude b) then Lat p else MinLatitude b)"
  "MaxLatitude (extendBounds b p) = (if fless (MaxLatitude b) (Lat p) then Lat p else MaxLatitude b)"
  "MinLongitude (extendBounds b p) = (if fless (Lon p) (MinLongitude b) then Lon p else MinLongitude b)"
  "MaxLongitude (extendBounds b p) = (if fless (MaxLongitude b) (Lon p) then Lon p else MaxLongitude b)"
  by (auto simp: extendBounds_def Let_def)

lemma isBox_extend:
  assumes "isBox b ps" "list_all finitePoint (p # ps)"
  shows "isBox (extendBounds b p) (ps @ [p])"
proof -
  have f: "finite64 (MinLongitude b)" "finite64 (MaxLongitude b)" "finite64 (MinLatitude b)" "finite64 (MaxLatitude b)"
    using assms by (auto simp: isBox_def list_all_iff finitePoint_def)
  have p: "finite64 (Lon p)" "finite64 (Lat p)" "Lon p \<noteq> NaN" "Lat p \<noteq> NaN"
    using assms by (auto simp: finitePoint_def finite64_def)
  have m: "inBounds (extendBounds b p) q" if "inBounds b q" for q
    using that by (auto simp: inBounds_def extendBounds_fields intro: fle_trans fless_fle)
  have s: "inBounds (extendBounds b p) p"
    using f p by (auto simp: inBounds_def extendBounds_fields fle_refl intro: not_fless)
  show ?thesis using assms(1) m s
    by (auto simp: isBox_def list_all_iff extendBounds_fields)
qed

lemma foldl_extendBounds: "isBox b ps \<Longrightarrow> list_all finitePoint (ps @ qs) \<Longrightarrow> isBox (foldl extendBounds b qs) (ps @ qs)"
proof (induction qs arbitrary: b ps)
  case (Cons q qs)
  have "isBox (extendBounds b q) (ps @ [q])" using Cons.prems by (intro isBox_extend) auto
  then show ?case using Cons.IH [of "extendBounds b q" "ps @ [q]"] Cons.prems by simp
qed simp

lemma BoundsOf_box:
  assumes "geometryPoints g \<noteq> []" "list_all finitePoint (geometryPoints g)"
  shows "isBox (BoundsOf g) (geometryPoints g)"
proof -
  obtain p ps where g: "geometryPoints g = p # ps" using assms(1) by (cases "geometryPoints g") auto
  have "Lon p \<noteq> NaN" "Lat p \<noteq> NaN" using assms(2) by (auto simp: g finitePoint_def finite64_def)
  then have "isBox \<lparr>MinLatitude = Lat p, MinLongitude = Lon p, MaxLatitude = Lat p, MaxLongitude = Lon p\<rparr> [p]"
    by (simp add: isBox_def inBounds_def fle_refl)
  from foldl_extendBounds [OF this, of ps] assms(2) show ?thesis by (simp add: BoundsOf_def g)
qed

lemma okGeometry_points: "okGeometry g \<Longrightarrow> geometryPoints g \<noteq> []"
proof -
  assume g: "okGeometry g"
  then obtain rings ps where r: "geo_Polygons g = rings # ps" "rings \<noteq> []" "list_all okRing rings"
    by (cases "geo_Polygons g") (simp_all add: okGeometry_def)
  then obtain ring rs where "rings = ring # rs" "okRing ring" by (cases rings) simp_all
  moreover from this have "ring \<noteq> []" by (auto simp: okRing_def)
  ultimately show ?thesis using r by (simp add: geometryPoints_def)
qed

section \<open>Intersection is symmetric\<close>

lemma list_ex_swap: "list_ex (\<lambda>x. list_ex (P x) ys) xs = list_ex (\<lambda>y. list_ex (\<lambda>x. P x y) xs) ys"
  by (auto simp: list_ex_iff)

lemma boundsOverlap_sym: "boundsOverlap a b = boundsOverlap b a"
  by (auto simp: boundsOverlap_def)

lemma segmentsIntersect_sym: "segmentsIntersect p1 q1 p2 q2 = segmentsIntersect p2 q2 p1 q1"
  unfolding segmentsIntersect_def Let_def by blast

lemma polygonsIntersect_sym: "polygonsIntersect a b = polygonsIntersect b a"
proof -
  have s: "list_ex (\<lambda>ringA. list_ex (\<lambda>(p1, q1). list_ex (\<lambda>ringB. list_ex (\<lambda>(p2, q2). segmentsIntersect p1 q1 p2 q2)
       (edges ringB)) y) (edges ringA)) x \<longleftrightarrow>
     (\<exists>ringA \<in> set x. \<exists>ringB \<in> set y. \<exists>(p1, q1) \<in> set (edges ringA). \<exists>(p2, q2) \<in> set (edges ringB). segmentsIntersect p1 q1 p2 q2)"
    for x y by (fastforce simp: list_ex_iff)
  have t: "(\<exists>ringA \<in> set a. \<exists>ringB \<in> set b. \<exists>(p1, q1) \<in> set (edges ringA). \<exists>(p2, q2) \<in> set (edges ringB). segmentsIntersect p1 q1 p2 q2) \<longleftrightarrow>
     (\<exists>ringA \<in> set b. \<exists>ringB \<in> set a. \<exists>(p1, q1) \<in> set (edges ringA). \<exists>(p2, q2) \<in> set (edges ringB). segmentsIntersect p1 q1 p2 q2)"
    using segmentsIntersect_sym by (blast)
  show ?thesis unfolding polygonsIntersect_def s using t by auto
qed

lemma Intersects_sym: "Intersects a b = Intersects b a"
  unfolding Intersects_def boundsOverlap_sym [of "BoundsOf a"]
  by (subst list_ex_swap) (simp add: polygonsIntersect_sym)


section \<open>Canonical text\<close>

definition floatPair :: "float64 \<times> float64 \<Rightarrow> bool" where
  "floatPair p \<longleftrightarrow> (case p of (x, y) \<Rightarrow> finite64 x \<and> isFloat x \<and> finite64 y \<and> isFloat y)"

definition floatGeometry :: "Geometry \<Rightarrow> bool" where
  "floatGeometry g \<longleftrightarrow> list_all (\<lambda>p. floatPair (Lon p, Lat p)) (geometryPoints g)"

text \<open>
  What \<open>encoding/json\<close> guarantees: a decoded number is a finite binary64 number, the text of
  coordinates decodes to the same coordinates, and it has no space around it.
\<close>

definition goodCodec :: "GeoCodec \<Rightarrow> bool" where
  "goodCodec gj \<longleftrightarrow>
     (\<forall>s cs. gj_polygon gj s = Some cs \<longrightarrow> list_all (list_all (list_all (\<lambda>x. finite64 x \<and> isFloat x))) cs) \<and>
     (\<forall>s cs. gj_multi gj s = Some cs \<longrightarrow> list_all (list_all (list_all (list_all (\<lambda>x. finite64 x \<and> isFloat x)))) cs) \<and>
     (\<forall>rs. list_all (list_all floatPair) rs \<longrightarrow>
        gj_type gj (gj_textPolygon gj rs) = Some ''Polygon'' \<and>
        gj_polygon gj (gj_textPolygon gj rs) = Some (map (map (\<lambda>(x, y). [x, y])) rs) \<and>
        gj_textPolygon gj rs \<noteq> [] \<and> TrimSpace (gj_textPolygon gj rs) = gj_textPolygon gj rs) \<and>
     (\<forall>ps. list_all (list_all (list_all floatPair)) ps \<longrightarrow>
        gj_type gj (gj_textMulti gj ps) = Some ''MultiPolygon'' \<and>
        gj_multi gj (gj_textMulti gj ps) = Some (map (map (map (\<lambda>(x, y). [x, y]))) ps) \<and>
        gj_textMulti gj ps \<noteq> [] \<and> TrimSpace (gj_textMulti gj ps) = gj_textMulti gj ps)"

abbreviation floatRing :: "Ring \<Rightarrow> bool" where
  "floatRing \<equiv> list_all (\<lambda>p. floatPair (Lon p, Lat p))"

lemma buildRings_floats:
  assumes "buildRings cs = Inr rings" "list_all (list_all (list_all (\<lambda>x. finite64 x \<and> isFloat x))) cs"
  shows "list_all floatRing rings"
proof -
  have p: "buildPosition ri i pos = Inr p \<Longrightarrow> list_all (\<lambda>x. finite64 x \<and> isFloat x) pos \<Longrightarrow> floatPair (Lon p, Lat p)" for ri i pos p
    by (cases pos; cases "tl pos") (auto simp: buildPosition_def Let_def floatPair_def)
  have r: "floatRing r" if "buildRing ri ps = Inr r" "list_all (list_all (\<lambda>x. finite64 x \<and> isFloat x)) ps" for ri ps r
  proof -
    from that(1) obtain ring where l: "3 \<le> length ps" and
      m: "mapE (\<lambda>(i, pos). buildPosition ri i pos) (List.enumerate 0 ps) = Inr ring" and r: "r = closeRing ring"
      by (auto simp: buildRing_def andThen_eq_Inr Let_def not_less)
    have "length ring = length ps \<and> floatRing ring"
      by (rule mapE_enumerate_all [OF m]) (use p that(2) in \<open>auto simp: list_all_iff\<close>)
    moreover from this l have "ring \<noteq> []" by auto
    ultimately show ?thesis by (simp add: r list_all_iff set_closeRing)
  qed
  have m: "mapE (\<lambda>(ri, ps). buildRing ri ps) (List.enumerate 0 cs) = Inr rings"
    using assms(1) by (simp add: buildRings_def)
  show ?thesis using mapE_enumerate_all [OF m, of floatRing] r assms(2) by (auto simp: list_all_iff)
qed

lemma ParseGeometry_floats: "goodCodec gj \<Longrightarrow> ParseGeometry gj raw = Inr g \<Longrightarrow> floatGeometry g"
proof -
  assume gj: "goodCodec gj" and p: "ParseGeometry gj raw = Inr g"
  have "list_all (list_all floatRing) (geo_Polygons g)"
  proof (cases "gj_type gj raw = Some ''Polygon''")
    case True
    with p obtain cs rings where c: "gj_polygon gj raw = Some cs" "buildRings cs = Inr rings" "geo_Polygons g = [rings]"
      by (auto simp: ParseGeometry_def andThen_eq_Inr split: option.splits)
    then have "list_all (list_all (list_all (\<lambda>x. finite64 x \<and> isFloat x))) cs" using gj by (simp add: goodCodec_def)
    from buildRings_floats [OF c(2) this] c(3) show ?thesis by simp
  next
    case False
    with p obtain cs polys where c: "gj_multi gj raw = Some cs"
      "mapE (\<lambda>(i, c). wrapErr (InPolygon i) (buildRings c)) (List.enumerate 0 cs) = Inr polys" "geo_Polygons g = polys"
      by (auto simp: ParseGeometry_def andThen_eq_Inr split: option.splits if_splits)
    then have "list_all (list_all (list_all (list_all (\<lambda>x. finite64 x \<and> isFloat x)))) cs" using gj by (simp add: goodCodec_def)
    then have "list_all (list_all floatRing) polys"
      using mapE_enumerate_all [OF c(2), of "list_all floatRing"] buildRings_floats
      by (auto simp: list_all_iff)
    then show ?thesis using c(3) by simp
  qed
  then show ?thesis by (auto simp: floatGeometry_def geometryPoints_def list_all_iff)
qed

lemma mapE_enumerate_total:
  "(\<And>i x. x \<in> set xs \<Longrightarrow> f i (h x) = Inr x) \<Longrightarrow> mapE (\<lambda>(i, x). f i x) (List.enumerate n (map h xs)) = Inr xs"
  by (induction xs arbitrary: n) simp_all

lemma buildRings_coords:
  assumes "rings \<noteq> []" "list_all okRing rings" "list_all floatRing rings"
  shows "buildRings (map (map (\<lambda>(x, y). [x, y])) (ringsToCoords rings)) = Inr rings"
proof -
  have pos: "buildPosition ri i [Lon p, Lat p] = Inr p"
    if "\<not> outside (- 180) 180 (Lon p)" "\<not> outside (- 90) 90 (Lat p)" for ri i p
    using that by (simp add: buildPosition_def)
  have ring: "buildRing ri (map (\<lambda>p. [Lon p, Lat p]) r) = Inr r" if "okRing r" "floatRing r" for ri r
  proof -
    have m: "mapE (\<lambda>(i, pos). buildPosition ri i pos) (List.enumerate 0 (map (\<lambda>p. [Lon p, Lat p]) r)) = Inr r"
      by (rule mapE_enumerate_total) (use that(1) pos in \<open>auto simp: okRing_def list_all_iff\<close>)
    have ne: "r \<noteq> []" using that(1) by (auto simp: okRing_def)
    have l: "r ! (length r - 1) = r ! 0"
      using that(1) ne by (simp add: okRing_def hd_conv_nth last_conv_nth)
    have "floatPair (Lon (r ! 0), Lat (r ! 0))" using that(2) ne by (simp add: list_all_length)
    then have "samePoint (r ! 0) (r ! 0)" by (auto simp: samePoint_def feq_def floatPair_def finite64_def)
    then have "closeRing r = r" unfolding closeRing_def l by simp
    then show ?thesis using that(1) m by (simp add: buildRing_def okRing_def)
  qed
  have "mapE (\<lambda>(ri, ps). buildRing ri ps) (List.enumerate 0 (map (map (\<lambda>p. [Lon p, Lat p])) rings)) = Inr rings"
    by (rule mapE_enumerate_total) (use ring assms in \<open>auto simp: list_all_iff\<close>)
  then show ?thesis using assms(1) by (simp add: buildRings_def ringsToCoords_def comp_def)
qed

lemma floatGeometry_rings: "floatGeometry g \<Longrightarrow> list_all (list_all floatRing) (geo_Polygons g)"
  by (auto simp: floatGeometry_def geometryPoints_def list_all_iff)

lemma floatGeometry_finite: "floatGeometry g \<Longrightarrow> list_all finitePoint (geometryPoints g)"
  by (auto simp: floatGeometry_def finitePoint_def floatPair_def list_all_iff)

text \<open>The canonical text of a geometry that was read is read back as the same geometry.\<close>

lemma ParseGeometry_canonical:
  assumes gj: "goodCodec gj" and g: "okGeometry g" "floatGeometry g" and n: "MarshalCanonical gj g = Inr canon"
  shows "ParseGeometry gj canon = Inr g" "canon \<noteq> []" "TrimSpace canon = canon"
proof -
  have fl: "list_all (list_all floatRing) (geo_Polygons g)" by (rule floatGeometry_rings [OF g(2)])
  have ok: "list_all (\<lambda>rings. rings \<noteq> [] \<and> list_all okRing rings) (geo_Polygons g)" using g(1) by (simp add: okGeometry_def)
  have pairs: "list_all (list_all floatPair) (ringsToCoords rs)" if "list_all floatRing rs" for rs
    using that by (auto simp: ringsToCoords_def list_all_iff)
  have "ParseGeometry gj canon = Inr g \<and> canon \<noteq> [] \<and> TrimSpace canon = canon"
  proof (cases "geo_Type g = ''Polygon''")
    case True
    then obtain rs where rs: "geo_Polygons g = [rs]" using g(1) by (auto simp: okGeometry_def length_Suc_conv)
    have canon: "canon = gj_textPolygon gj (ringsToCoords rs)" using n True rs by (simp add: MarshalCanonical_def)
    have f: "list_all floatRing rs" using fl by (simp add: rs)
    from gj pairs [OF f] have c: "gj_type gj canon = Some ''Polygon''"
      "gj_polygon gj canon = Some (map (map (\<lambda>(x, y). [x, y])) (ringsToCoords rs))" "canon \<noteq> []" "TrimSpace canon = canon"
      unfolding goodCodec_def canon by blast+
    have "buildRings (map (map (\<lambda>(x, y). [x, y])) (ringsToCoords rs)) = Inr rs"
      using buildRings_coords [OF _ _ f] ok by (simp add: rs)
    then show ?thesis using c True rs by (simp add: ParseGeometry_def)
  next
    case False
    with g(1) have ty: "geo_Type g = ''MultiPolygon''" "geo_Polygons g \<noteq> []" by (auto simp: okGeometry_def)
    have canon: "canon = gj_textMulti gj (map ringsToCoords (geo_Polygons g))" using n ty by (simp add: MarshalCanonical_def)
    have "list_all (list_all (list_all floatPair)) (map ringsToCoords (geo_Polygons g))"
      using fl pairs by (auto simp: list_all_iff)
    with gj have c: "gj_type gj canon = Some ''MultiPolygon''"
      "gj_multi gj canon = Some (map (map (map (\<lambda>(x, y). [x, y]))) (map ringsToCoords (geo_Polygons g)))" "canon \<noteq> []" "TrimSpace canon = canon"
      unfolding goodCodec_def canon by blast+
    have "mapE (\<lambda>(i, c). wrapErr (InPolygon i) (buildRings c)) (List.enumerate 0
        (map (\<lambda>rs. map (map (\<lambda>(x, y). [x, y])) (ringsToCoords rs)) (geo_Polygons g))) = Inr (geo_Polygons g)"
      by (rule mapE_enumerate_total [where f = "\<lambda>i c. wrapErr (InPolygon i) (buildRings c)"])
        (use ok fl buildRings_coords in \<open>auto simp: list_all_iff\<close>)
    then show ?thesis using c ty by (simp add: ParseGeometry_def comp_def)
  qed
  then show "ParseGeometry gj canon = Inr g" "canon \<noteq> []" "TrimSpace canon = canon" by auto
qed

lemma MarshalCanonical_total:
  assumes "okGeometry g" "floatGeometry g"
  shows "\<exists>canon. MarshalCanonical gj g = Inr canon"
  using assms floatGeometry_finite [OF assms(2)]
  by (auto simp: MarshalCanonical_def okGeometry_def geometryPoints_def list_all_iff length_Suc_conv)

lemma ValidateCoverage_iff:
  assumes "goodCodec gj"
  shows "ValidateCoverageGeoJSON gj raw = Inr (canon, b) \<longleftrightarrow>
    (\<exists>g. ParseGeometry gj raw = Inr g \<and> MarshalCanonical gj g = Inr canon \<and> b = BoundsOf g)"
  by (auto simp: ValidateCoverageGeoJSON_def andThen_eq_Inr)

end
