(* ===== verification/Inventory_Coverage.thy ===== *)
theory Inventory_Coverage
  imports Inventory_Geometry
begin

text \<open>
  The coverage text that is stored for a cell: canonical, with the bounding box of its geometry. The
  properties are shown for every codec with the documented behaviour of \<open>encoding/json\<close>; a simple
  text format that has it, built from \<open>strconv\<close> numbers, is the instance of the witnesses.
\<close>

section \<open>A codec\<close>

text \<open>
  A text format with the properties of JSON: each number is followed by a comma, each position by a
  semicolon, each ring by a bar, each polygon by a slash.
\<close>

fun pieces :: "char \<Rightarrow> string \<Rightarrow> string \<Rightarrow> string list" where
  "pieces c cur [] = []"
| "pieces c cur (x # xs) = (if x = c then cur # pieces c [] xs else pieces c (cur @ [x]) xs)"

definition terminated :: "char \<Rightarrow> string list \<Rightarrow> string" where
  "terminated c ss = concat (map (\<lambda>s. s @ [c]) ss)"

lemma pieces_terminated: "list_all (\<lambda>s. c \<notin> set s) ss \<Longrightarrow> pieces c [] (terminated c ss) = ss"
proof (induction ss)
  case (Cons s ss)
  have "c \<notin> set s \<Longrightarrow> pieces c cur (s @ c # t) = (cur @ s) # pieces c [] t" for cur t
    by (induction s arbitrary: cur) auto
  with Cons show ?case by (simp add: terminated_def)
qed (simp add: terminated_def)

lemma set_terminated: "set (terminated c ss) \<subseteq> insert c (\<Union> (set ` set ss))"
  by (auto simp: terminated_def)

definition textNumber :: "float64 \<Rightarrow> string" where "textNumber = FormatFloat"
definition textPosition :: "float64 list \<Rightarrow> string" where "textPosition p = terminated (CHR '','') (map textNumber p)"
definition textRing :: "float64 list list \<Rightarrow> string" where "textRing r = terminated (CHR '';'') (map textPosition r)"
definition textRings :: "float64 list list list \<Rightarrow> string" where "textRings p = terminated (CHR ''|'') (map textRing p)"
definition textPolygons :: "float64 list list list list \<Rightarrow> string" where "textPolygons m = terminated (CHR ''/'') (map textRings m)"

definition readFinite :: "string \<Rightarrow> float64 option" where
  "readFinite s = (case ParseFloat s of Some x \<Rightarrow> if finite64 x then Some x else None | None \<Rightarrow> None)"

definition readList :: "char \<Rightarrow> (string \<Rightarrow> 'a option) \<Rightarrow> string \<Rightarrow> 'a list option" where
  "readList c f s = those (map f (pieces c [] s))"

definition readRings :: "string \<Rightarrow> float64 list list list option" where
  "readRings = readList (CHR ''|'') (readList (CHR '';'') (readList (CHR '','') readFinite))"

definition sampleCodec :: GeoCodec where
  "sampleCodec = \<lparr>
     gj_type = (\<lambda>s. case s of c # _ \<Rightarrow> if c = CHR ''P'' then Some ''Polygon'' else if c = CHR ''M'' then Some ''MultiPolygon'' else None
                    | [] \<Rightarrow> None),
     gj_polygon = (\<lambda>s. readRings (tl s)),
     gj_multi = (\<lambda>s. readList (CHR ''/'') readRings (tl s)),
     gj_textPolygon = (\<lambda>rs. CHR ''P'' # textRings (map (map (\<lambda>(x, y). [x, y])) rs)),
     gj_textMulti = (\<lambda>ps. CHR ''M'' # textPolygons (map (map (map (\<lambda>(x, y). [x, y]))) ps))\<rparr>"

definition numberChar :: "char \<Rightarrow> bool" where
  "numberChar c \<longleftrightarrow> isDigit c \<or> c = CHR ''.'' \<or> c = CHR ''e'' \<or> c = CHR ''+'' \<or> c = CHR ''-''"

lemma FormatFloat_chars: "finite64 x \<Longrightarrow> list_all numberChar (FormatFloat x)"
proof -
  have z: "numberChar (CHR ''0'')" by (simp add: numberChar_def isDigit_def)
  have d: "\<And>c. isDigit c \<Longrightarrow> numberChar c" by (simp add: numberChar_def)
  have dec: "list_all numberChar (decimal n)" for n using decimal_digits [of n] d by (simp add: list_all_iff)
  have zs: "list_all numberChar (zeros n)" for n using z by (simp add: zeros_def list_all_iff)
  have t: "list_all numberChar (trimZeros (decimal n))" for n
    using dec [of n] trimZeros_split [of "decimal n"] by (metis list_all_append)
  have ex: "list_all numberChar (exponentText e)" for e
    using dec zs by (simp add: exponentText_def Let_def numberChar_def)
  have e: "list_all numberChar ds \<Longrightarrow> list_all numberChar (formatE ds dp)" for ds dp
    using ex by (auto simp: formatE_def list_all_iff numberChar_def dest: in_set_takeD in_set_dropD)
  have f: "list_all numberChar ds \<Longrightarrow> list_all numberChar (formatF ds dp)" for ds dp
    using zs z by (auto simp: formatF_def list_all_iff numberChar_def dest: in_set_takeD in_set_dropD)
  have p: "list_all numberChar (formatPositive q)" for q
    using e f t by (simp add: formatPositive_def Let_def split: prod.split)
  show "finite64 x \<Longrightarrow> list_all numberChar (FormatFloat x)"
    using p z by (cases x) (auto simp: finite64_def numberChar_def)
qed

definition geoChar :: "char list \<Rightarrow> char \<Rightarrow> bool" where
  "geoChar seps c \<longleftrightarrow> numberChar c \<or> c \<in> set seps"

lemma terminated_chars: "list_all (list_all (geoChar seps)) ss \<Longrightarrow> list_all (geoChar (c # seps)) (terminated c ss)"
  using set_terminated [of c ss] by (fastforce simp: list_all_iff geoChar_def)

abbreviation goodNumber :: "float64 \<Rightarrow> bool" where "goodNumber x \<equiv> finite64 x \<and> isFloat x"

lemma text_chars:
  "list_all goodNumber p \<Longrightarrow> list_all (geoChar '','') (textPosition p)"
  "list_all (list_all goodNumber) r \<Longrightarrow> list_all (geoChar '';,'') (textRing r)"
  "list_all (list_all (list_all goodNumber)) rs \<Longrightarrow> list_all (geoChar ''|;,'') (textRings rs)"
  "list_all (list_all (list_all (list_all goodNumber))) ps \<Longrightarrow> list_all (geoChar ''/|;,'') (textPolygons ps)"
proof -
  have n: "goodNumber x \<Longrightarrow> list_all (geoChar []) (textNumber x)" for x
    using FormatFloat_chars [of x] by (auto simp: textNumber_def list_all_iff geoChar_def)
  have 1: "list_all goodNumber p \<Longrightarrow> list_all (geoChar '','') (textPosition p)" for p
    unfolding textPosition_def by (rule terminated_chars) (use n in \<open>auto simp: list_all_iff\<close>)
  have 2: "list_all (list_all goodNumber) r \<Longrightarrow> list_all (geoChar '';,'') (textRing r)" for r
    unfolding textRing_def by (rule terminated_chars) (use 1 in \<open>auto simp: list_all_iff\<close>)
  have 3: "list_all (list_all (list_all goodNumber)) rs \<Longrightarrow> list_all (geoChar ''|;,'') (textRings rs)" for rs
    unfolding textRings_def by (rule terminated_chars) (use 2 in \<open>auto simp: list_all_iff\<close>)
  have 4: "list_all (list_all (list_all (list_all goodNumber))) ps \<Longrightarrow> list_all (geoChar ''/|;,'') (textPolygons ps)"
    unfolding textPolygons_def by (rule terminated_chars) (use 3 in \<open>auto simp: list_all_iff\<close>)
  from 1 show "list_all goodNumber p \<Longrightarrow> list_all (geoChar '','') (textPosition p)" .
  from 2 show "list_all (list_all goodNumber) r \<Longrightarrow> list_all (geoChar '';,'') (textRing r)" .
  from 3 show "list_all (list_all (list_all goodNumber)) rs \<Longrightarrow> list_all (geoChar ''|;,'') (textRings rs)" .
  from 4 show "list_all (list_all (list_all (list_all goodNumber))) ps \<Longrightarrow> list_all (geoChar ''/|;,'') (textPolygons ps)" .
qed

lemma those_map: "(\<And>x. x \<in> set xs \<Longrightarrow> f (g x) = Some x) \<Longrightarrow> those (map f (map g xs)) = Some xs"
  by (induction xs) auto

lemma readList_text:
  assumes "\<And>x. x \<in> set xs \<Longrightarrow> f (g x) = Some x" "\<And>x. x \<in> set xs \<Longrightarrow> c \<notin> set (g x)"
  shows "readList c f (terminated c (map g xs)) = Some xs"
  unfolding readList_def
  by (subst pieces_terminated) (use assms(2) in \<open>force simp: list_all_iff\<close>, rule those_map, rule assms(1))

lemma no_sep:
  "list_all (geoChar seps) s \<Longrightarrow> c \<notin> set seps \<Longrightarrow> \<not> numberChar c \<Longrightarrow> c \<notin> set s"
  by (auto simp: list_all_iff geoChar_def)

lemma seps_not_number: "\<not> numberChar (CHR '','')" "\<not> numberChar (CHR '';'')" "\<not> numberChar (CHR ''|'')" "\<not> numberChar (CHR ''/'')"
  by (simp_all add: numberChar_def isDigit_def)

lemma read_text:
  "goodNumber x \<Longrightarrow> readFinite (textNumber x) = Some x"
  "list_all goodNumber p \<Longrightarrow> readList (CHR '','') readFinite (textPosition p) = Some p"
  "list_all (list_all goodNumber) r \<Longrightarrow> readList (CHR '';'') (readList (CHR '','') readFinite) (textRing r) = Some r"
  "list_all (list_all (list_all goodNumber)) rs \<Longrightarrow> readRings (textRings rs) = Some rs"
  "list_all (list_all (list_all (list_all goodNumber))) ps \<Longrightarrow> readList (CHR ''/'') readRings (textPolygons ps) = Some ps"
proof -
  have 0: "goodNumber x \<Longrightarrow> readFinite (textNumber x) = Some x" for x
    using ParseFloat_FormatFloat [of x] by (simp add: readFinite_def textNumber_def)
  have n: "goodNumber x \<Longrightarrow> CHR '','' \<notin> set (textNumber x)" for x
    using FormatFloat_chars [of x] seps_not_number by (auto simp: textNumber_def list_all_iff)
  have 1: "list_all goodNumber p \<Longrightarrow> readList (CHR '','') readFinite (textPosition p) = Some p" for p
    unfolding textPosition_def by (rule readList_text) (use 0 n in \<open>auto simp: list_all_iff\<close>)
  have 2: "list_all (list_all goodNumber) r \<Longrightarrow> readList (CHR '';'') (readList (CHR '','') readFinite) (textRing r) = Some r" for r
    unfolding textRing_def
    by (rule readList_text) (use 1 no_sep [OF text_chars(1)] seps_not_number in \<open>auto simp: list_all_iff\<close>)
  have 3: "list_all (list_all (list_all goodNumber)) rs \<Longrightarrow> readRings (textRings rs) = Some rs" for rs
    unfolding textRings_def readRings_def
    by (rule readList_text) (use 2 no_sep [OF text_chars(2)] seps_not_number in \<open>auto simp: list_all_iff\<close>)
  have 4: "list_all (list_all (list_all (list_all goodNumber))) ps \<Longrightarrow> readList (CHR ''/'') readRings (textPolygons ps) = Some ps" for ps
    unfolding textPolygons_def
    by (rule readList_text) (use 3 no_sep [OF text_chars(3)] seps_not_number in \<open>auto simp: list_all_iff\<close>)
  from 0 show "goodNumber x \<Longrightarrow> readFinite (textNumber x) = Some x" .
  from 1 show "list_all goodNumber p \<Longrightarrow> readList (CHR '','') readFinite (textPosition p) = Some p" .
  from 2 show "list_all (list_all goodNumber) r \<Longrightarrow> readList (CHR '';'') (readList (CHR '','') readFinite) (textRing r) = Some r" .
  from 3 show "list_all (list_all (list_all goodNumber)) rs \<Longrightarrow> readRings (textRings rs) = Some rs" .
  from 4 show "list_all (list_all (list_all (list_all goodNumber))) ps \<Longrightarrow> readList (CHR ''/'') readRings (textPolygons ps) = Some ps" .
qed

lemma those_Some: "those xs = Some ys \<Longrightarrow> \<forall>y \<in> set ys. Some y \<in> set xs"
  by (induction xs arbitrary: ys) (auto split: option.splits)

lemma readList_all: "readList c f s = Some xs \<Longrightarrow> (\<And>t x. f t = Some x \<Longrightarrow> P x) \<Longrightarrow> list_all P xs"
  unfolding readList_def list_all_iff by (drule those_Some) fastforce

lemma readRings_good: "readRings s = Some rs \<Longrightarrow> list_all (list_all (list_all goodNumber)) rs"
  unfolding readRings_def
proof (elim readList_all)
  fix t x assume "readFinite t = Some x"
  then show "goodNumber x" by (auto simp: readFinite_def ParseFloat_isFloat split: option.splits if_splits)
qed

lemma text_trimmed:
  assumes "list_all (geoChar seps) s" "set seps \<subseteq> set ''/|;,''" "c = CHR ''P'' \<or> c = CHR ''M''"
  shows "TrimSpace (c # s) = c # s"
proof -
  have g: "of_char d < (0x80 :: nat) \<and> \<not> isSpace (of_char d)" if "geoChar seps d" for d
  proof -
    from that assms(2) consider "isDigit d" | "d \<in> set ''.e+-/|;,''" unfolding geoChar_def numberChar_def by fastforce
    then show ?thesis
    proof cases
      case 1
      then show ?thesis by (simp add: isDigit_def isSpace_def)
    next
      case 2
      then have "d = CHR ''.'' \<or> d = CHR ''e'' \<or> d = CHR ''+'' \<or> d = CHR ''-'' \<or> d = CHR ''/'' \<or> d = CHR ''|'' \<or>
        d = CHR '';'' \<or> d = CHR '',''" by simp
      then show ?thesis by (elim disjE) (simp_all add: isSpace_def)
    qed
  qed
  have "ascii (c # s)" "\<forall>d \<in> set (c # s). \<not> isSpace (of_char d)"
    using assms(1,3) g by (auto simp: ascii_def list_all_iff isSpace_def)
  then show ?thesis by (intro TrimSpace_id) (auto simp: runes_ascii)
qed

lemma sampleCodec_good: "goodCodec sampleCodec"
proof -
  have p: "list_all (list_all (list_all goodNumber)) (map (map (\<lambda>(x, y). [x, y])) rs)" if "list_all (list_all floatPair) rs" for rs
    using that by (simp add: list.pred_map comp_def floatPair_def [abs_def] case_prod_beta)
  have m: "list_all (list_all (list_all (list_all goodNumber))) (map (map (map (\<lambda>(x, y). [x, y]))) ps)"
    if "list_all (list_all (list_all floatPair)) ps" for ps
    using that by (simp add: list.pred_map comp_def floatPair_def [abs_def] case_prod_beta)
  show ?thesis
    unfolding goodCodec_def
  proof (intro conjI allI impI)
    fix s cs assume "gj_polygon sampleCodec s = Some cs"
    then show "list_all (list_all (list_all goodNumber)) cs" by (simp add: sampleCodec_def readRings_good)
  next
    fix s cs assume "gj_multi sampleCodec s = Some cs"
    then have "readList (CHR ''/'') readRings (tl s) = Some cs" by (simp add: sampleCodec_def)
    then show "list_all (list_all (list_all (list_all goodNumber))) cs" by (rule readList_all) (rule readRings_good)
  next
    fix rs assume "list_all (list_all floatPair) rs"
    note g = p [OF this]
    show "gj_type sampleCodec (gj_textPolygon sampleCodec rs) = Some ''Polygon''"
      "gj_textPolygon sampleCodec rs \<noteq> []"
      "gj_polygon sampleCodec (gj_textPolygon sampleCodec rs) = Some (map (map (\<lambda>(x, y). [x, y])) rs)"
      using read_text(4) [OF g] by (simp_all add: sampleCodec_def)
    show "TrimSpace (gj_textPolygon sampleCodec rs) = gj_textPolygon sampleCodec rs"
      using text_trimmed [OF text_chars(3) [OF g]] by (simp add: sampleCodec_def)
  next
    fix ps assume "list_all (list_all (list_all floatPair)) ps"
    note g = m [OF this]
    show "gj_type sampleCodec (gj_textMulti sampleCodec ps) = Some ''MultiPolygon''"
      "gj_textMulti sampleCodec ps \<noteq> []"
      "gj_multi sampleCodec (gj_textMulti sampleCodec ps) = Some (map (map (map (\<lambda>(x, y). [x, y]))) ps)"
      using read_text(5) [OF g] by (simp_all add: sampleCodec_def)
    show "TrimSpace (gj_textMulti sampleCodec ps) = gj_textMulti sampleCodec ps"
      using text_trimmed [OF text_chars(4) [OF g]] by (simp add: sampleCodec_def)
  qed
qed


section \<open>Small integers are binary64 numbers\<close>

lemma isFloat_int:
  assumes "\<bar>m\<bar> < 2 ^ 53"
  shows "isFloat (Finite (of_int m))"
proof (cases "m = 0")
  case False
  define q where "q = \<bar>of_int m :: rat\<bar>"
  have q: "q = of_int \<bar>m\<bar> * 2 powi 0" "0 < q" using False by (simp_all add: q_def)
  have "binaryExponent q \<le> 0 + 52" unfolding q(1) by (rule binaryExponent_int(1)) (use False assms in simp_all)
  then have s: "scale q \<le> 0" by (simp add: scale_def)
  then obtain k where k: "scale q = - int k" by (metis minus_minus nonneg_int_cases neg_0_le_iff_le)
  have "q / 2 powi (- int k) = of_int (\<bar>m\<bar> * 2 ^ k)"
    by (simp add: q_def power_int_minus divide_inverse)
  then have "nearest q = of_int (\<bar>m\<bar> * 2 ^ k) * 2 powi (- int k)" unfolding nearest_def k by (simp only: roundEven_int)
  also have "\<dots> = q" by (simp add: q_def power_int_minus)
  finally have n: "nearest q = q" .
  have "of_int \<bar>m\<bar> < (of_int (2 ^ 53) :: rat)" using assms by (simp only: of_int_less_iff)
  then have "q < 2 ^ 53" by (simp add: q_def)
  also have "(2::rat) ^ 53 \<le> 2 ^ 1024" by (rule power_increasing) simp_all
  finally have "\<not> 2 ^ 1024 \<le> q" by simp
  then show ?thesis using False n by (simp add: isFloat_def round64_alt q_def sgn_mult_abs)
qed simp

lemma isFloat_numeral [simp]:
  "numeral n < (2 ^ 53 :: int) \<Longrightarrow> isFloat (Finite (numeral n))"
  "numeral n < (2 ^ 53 :: int) \<Longrightarrow> isFloat (Finite (- numeral n))"
  "isFloat (Finite 1)" "isFloat (Finite (- 1))"
  using isFloat_int [of "numeral n"] isFloat_int [of "- numeral n"] isFloat_int [of 1] isFloat_int [of "- 1"] by simp_all

definition square :: "rat \<Rightarrow> rat \<Rightarrow> rat \<Rightarrow> (float64 \<times> float64) list" where
  "square x y d = [(Finite x, Finite y), (Finite (x + d), Finite y), (Finite (x + d), Finite (y + d)), (Finite x, Finite (y + d))]"

definition squareText :: "rat \<Rightarrow> rat \<Rightarrow> rat \<Rightarrow> string" where
  "squareText x y d = gj_textPolygon sampleCodec [square x y d]"

definition squareRing :: "rat \<Rightarrow> rat \<Rightarrow> rat \<Rightarrow> Ring" where
  "squareRing x y d = map (\<lambda>(x, y). \<lparr>Lon = x, Lat = y\<rparr>) (square x y d @ [hd (square x y d)])"

lemma ParseGeometry_square:
  assumes "list_all (\<lambda>c. isFloat (Finite c)) [x, y, x + d, y + d]" "0 < d"
    and "- 180 \<le> x" "x + d \<le> 180" "- 90 \<le> y" "y + d \<le> 90"
  shows "ParseGeometry sampleCodec (squareText x y d) = Inr \<lparr>geo_Type = ''Polygon'', geo_Polygons = [[squareRing x y d]]\<rparr>"
proof -
  have "list_all (list_all floatPair) [square x y d]" using assms(1) by (simp add: square_def floatPair_def finite64_def)
  then have c: "gj_type sampleCodec (squareText x y d) = Some ''Polygon''"
    "gj_polygon sampleCodec (squareText x y d) = Some (map (map (\<lambda>(x, y). [x, y])) [square x y d])"
    using sampleCodec_good unfolding goodCodec_def squareText_def by blast+
  have r: "- 180 \<le> x + d" "x \<le> 180" "- 90 \<le> y + d" "y \<le> 90" using assms by simp_all
  have "buildRings (map (map (\<lambda>(x, y). [x, y])) [square x y d]) = Inr [squareRing x y d]"
    using assms r
    by (simp add: buildRings_def buildRing_def buildPosition_def outside_def square_def squareRing_def closeRing_def
        samePoint_def feq_def not_less)
  then show ?thesis by (simp add: ParseGeometry_def c)
qed

section \<open>Properties\<close>

lemma coverage_lemma:
  assumes "goodCodec gj" "ValidateCoverageGeoJSON gj raw = Inr (canon, b)"
  shows "\<exists>g. ParseGeometry gj raw = Inr g \<and> okGeometry g \<and> floatGeometry g \<and> isBox b (geometryPoints g) \<and>
    ParseGeometry gj canon = Inr g \<and> b = BoundsOf g \<and> canon \<noteq> [] \<and> TrimSpace canon = canon \<and>
    ValidateCoverageGeoJSON gj canon = Inr (canon, b)"
proof -
  obtain g where g: "ParseGeometry gj raw = Inr g" "MarshalCanonical gj g = Inr canon" "b = BoundsOf g"
    using assms by (auto simp: ValidateCoverage_iff)
  have ok: "okGeometry g" by (rule ParseGeometry_ok [OF g(1)])
  have fl: "floatGeometry g" by (rule ParseGeometry_floats [OF assms(1) g(1)])
  note c = ParseGeometry_canonical [OF assms(1) ok fl g(2)]
  have "isBox b (geometryPoints g)"
    unfolding g(3) by (rule BoundsOf_box [OF okGeometry_points [OF ok] floatGeometry_finite [OF fl]])
  then show ?thesis using g ok fl c by (auto simp: ValidateCoverage_iff [OF assms(1)])
qed


definition squareGeometry :: "rat \<Rightarrow> rat \<Rightarrow> rat \<Rightarrow> Geometry" where
  "squareGeometry x y d = \<lparr>geo_Type = ''Polygon'', geo_Polygons = [[squareRing x y d]]\<rparr>"

lemma ValidateCoverage_square:
  assumes "list_all (\<lambda>c. isFloat (Finite c)) [x, y, x + d, y + d]" "0 < d"
    and "- 180 \<le> x" "x + d \<le> 180" "- 90 \<le> y" "y + d \<le> 90"
  shows "ValidateCoverageGeoJSON sampleCodec (squareText x y d) =
    Inr (gj_textPolygon sampleCodec (ringsToCoords [squareRing x y d]), BoundsOf (squareGeometry x y d))"
  using assms
  by (auto simp: ValidateCoverage_iff [OF sampleCodec_good] ParseGeometry_square squareGeometry_def MarshalCanonical_def
      squareRing_def square_def finitePoint_def finite64_def)


text \<open>Whether two areas intersect does not depend on their order, also with rounding: a request
  area selects a cell's coverage exactly when the coverage intersects the request area.\<close>

theorem intersects_symmetric: "Intersects a b = Intersects b a"
  by (rule Intersects_sym)

end
