(* ===== verification/Cap_Polygon.thy ===== *)
theory Cap_Polygon
  imports Inventory_Coverage
begin

text \<open>
  \<open>internal/cap/polygon.go\<close>: the shapes of a CAP area as GeoJSON polygons, the text form in which the
  preparer hands them to the cell selection. Arithmetic is binary64 with one rounding per operation;
  \<open>math.Cos\<close> and \<open>math.Sin\<close> are not rounded exactly and are a parameter. The GeoJSON text is made by
  \<open>encoding/json\<close>, as in \<open>Inventory_Geometry\<close>, which refuses numbers that are not finite.
\<close>

section \<open>Polygons\<close>

datatype shape_error =
    FewPairs nat
  | MalformedPair string
  | InvalidLatitude string
  | InvalidLongitude string
  | NotCenterRadius
  | InvalidRadius string
  | RadiusNotPositive
  | MarshalNumber

text \<open>One pair \<open>lat,lon\<close> of the text, as the GeoJSON position \<open>[lon, lat]\<close>.\<close>

definition parsePair :: "string \<Rightarrow> shape_error + (float64 \<times> float64)" where
  "parsePair pair =
     (let parts = SplitN2 pair (CHR '','') in
      failIf (length parts \<noteq> 2) (MalformedPair pair) (
      case ParseFloat (TrimSpace (parts ! 0)) of
        None \<Rightarrow> Inl (InvalidLatitude pair)
      | Some lat \<Rightarrow>
          (case ParseFloat (TrimSpace (parts ! 1)) of
             None \<Rightarrow> Inl (InvalidLongitude pair)
           | Some lon \<Rightarrow> Inr (lon, lat))))"

definition samePair :: "float64 \<times> float64 \<Rightarrow> float64 \<times> float64 \<Rightarrow> bool" where
  "samePair p q \<longleftrightarrow> feq (fst p) (fst q) \<and> feq (snd p) (snd q)"

definition closePairs :: "(float64 \<times> float64) list \<Rightarrow> (float64 \<times> float64) list" where
  "closePairs coords =
     (if \<not> samePair (coords ! 0) (coords ! (length coords - 1)) then coords @ [coords ! 0] else coords)"

definition marshalRing :: "GeoCodec \<Rightarrow> (float64 \<times> float64) list \<Rightarrow> shape_error + string" where
  "marshalRing gj coords =
     failIf (\<not> list_all (\<lambda>(x, y). finite64 x \<and> finite64 y) coords) MarshalNumber (
     Inr (gj_textPolygon gj [coords]))"

definition PolygonToGeoJSON :: "GeoCodec \<Rightarrow> string \<Rightarrow> shape_error + string" where
  "PolygonToGeoJSON gj polygon =
     (let fields = Fields polygon in
      failIf (length fields < 3) (FewPairs (length fields)) (
      andThen (mapE parsePair fields) (\<lambda>coords.
      marshalRing gj (closePairs coords))))"

section \<open>Circles\<close>

definition circleSegments :: nat where "circleSegments = 64"

definition kmPerDegreeLatitude :: float64 where "kmPerDegreeLatitude = round64 (11132 / 100)"

text \<open>The constant \<open>math.Pi\<close>, exact; each constant expression is rounded when it meets a \<open>float64\<close>.\<close>

definition mathPi :: rat where
  "mathPi = 314159265358979323846264338327950288419716939937510582097494459 / 10 ^ 62"

record Trig =
  tr_Cos :: "float64 \<Rightarrow> float64"
  tr_Sin :: "float64 \<Rightarrow> float64"

definition circleVertex :: "Trig \<Rightarrow> float64 \<Rightarrow> float64 \<Rightarrow> float64 \<Rightarrow> nat \<Rightarrow> float64 \<times> float64" where
  "circleVertex tr lat lon radiusKm i =
     (let deltaLat = fdiv radiusKm kmPerDegreeLatitude;
          deltaLon = fdiv radiusKm (fmul kmPerDegreeLatitude (tr_Cos tr (fdiv (fmul lat (round64 mathPi)) (Finite 180))));
          theta = fdiv (fmul (round64 (2 * mathPi)) (Finite (of_nat i))) (Finite (of_nat circleSegments))
      in (fadd lon (fmul deltaLon (tr_Cos tr theta)), fadd lat (fmul deltaLat (tr_Sin tr theta))))"

definition circleRing :: "Trig \<Rightarrow> float64 \<Rightarrow> float64 \<Rightarrow> float64 \<Rightarrow> (float64 \<times> float64) list" where
  "circleRing tr lat lon radiusKm =
     (let coords = map (circleVertex tr lat lon radiusKm) [0..<circleSegments] in coords @ [coords ! 0])"

definition CircleToGeoJSON :: "Trig \<Rightarrow> GeoCodec \<Rightarrow> string \<Rightarrow> shape_error + string" where
  "CircleToGeoJSON tr gj circle =
     (let fields = Fields circle in
      failIf (length fields \<noteq> 2) NotCenterRadius (
      andThen (parsePair (fields ! 0)) (\<lambda>(lon, lat).
      case ParseFloat (TrimSpace (fields ! 1)) of
        None \<Rightarrow> Inl (InvalidRadius (fields ! 1))
      | Some radiusKm \<Rightarrow>
          failIf (fle radiusKm (Finite 0)) RadiusNotPositive (
          marshalRing gj (circleRing tr lat lon radiusKm)))))"

section \<open>Reading a ring back\<close>

definition toRing :: "(float64 \<times> float64) list \<Rightarrow> Ring" where
  "toRing = map (\<lambda>(x, y). \<lparr>Lon = x, Lat = y\<rparr>)"

lemma toRing_simps [simp]: "length (toRing cs) = length cs" "toRing cs = [] \<longleftrightarrow> cs = []"
  "cs \<noteq> [] \<Longrightarrow> hd (toRing cs) = (\<lambda>(x, y). \<lparr>Lon = x, Lat = y\<rparr>) (hd cs)"
  "cs \<noteq> [] \<Longrightarrow> last (toRing cs) = (\<lambda>(x, y). \<lparr>Lon = x, Lat = y\<rparr>) (last cs)"
  by (auto simp: toRing_def hd_map last_map)

lemma ringsToCoords_toRing: "ringsToCoords [toRing cs] = [cs]"
  by (simp add: ringsToCoords_def toRing_def comp_def split_beta)

lemma buildPositions_toRing:
  "mapE (\<lambda>(i, pos). buildPosition ri i pos) (List.enumerate n (map (\<lambda>(x, y). [x, y]) cs)) = Inr ring \<Longrightarrow> ring = toRing cs"
  by (induction cs arbitrary: n ring) (auto simp: toRing_def andThen_eq_Inr buildPosition_def Let_def)

lemma closeRing_id:
  assumes "cs \<noteq> []" "hd cs = last cs" "list_all floatPair cs"
  shows "closeRing (toRing cs) = toRing cs"
proof -
  have "floatPair (hd cs)" using assms(1,3) by (cases cs) auto
  then have "samePoint (hd (toRing cs)) (last (toRing cs))"
    using assms(1,2) by (auto simp: samePoint_def feq_def floatPair_def finite64_def split: prod.splits)
  then show ?thesis using assms(1) by (simp add: closeRing_def hd_conv_nth last_conv_nth)
qed

lemma ParseGeometry_ring:
  assumes gj: "goodCodec gj" and cs: "list_all floatPair cs" "cs \<noteq> []" "hd cs = last cs"
  shows "ParseGeometry gj (gj_textPolygon gj [cs]) = Inr g \<longleftrightarrow>
    okRing (toRing cs) \<and> g = \<lparr>geo_Type = ''Polygon'', geo_Polygons = [[toRing cs]]\<rparr>"
proof
  let ?g = "\<lparr>geo_Type = ''Polygon'', geo_Polygons = [[toRing cs]]\<rparr>"
  have c: "gj_type gj (gj_textPolygon gj [cs]) = Some ''Polygon''"
    "gj_polygon gj (gj_textPolygon gj [cs]) = Some [map (\<lambda>(x, y). [x, y]) cs]"
  proof -
    have "list_all (list_all floatPair) [cs]" using cs(1) by simp
    with gj have "gj_type gj (gj_textPolygon gj [cs]) = Some ''Polygon'' \<and>
      gj_polygon gj (gj_textPolygon gj [cs]) = Some (map (map (\<lambda>(x, y). [x, y])) [cs])" unfolding goodCodec_def by blast
    then show "gj_type gj (gj_textPolygon gj [cs]) = Some ''Polygon''"
      "gj_polygon gj (gj_textPolygon gj [cs]) = Some [map (\<lambda>(x, y). [x, y]) cs]" by simp_all
  qed
  {
    assume "ParseGeometry gj (gj_textPolygon gj [cs]) = Inr g"
    then obtain r where r: "buildRing 0 (map (\<lambda>(x, y). [x, y]) cs) = Inr r" "g = \<lparr>geo_Type = ''Polygon'', geo_Polygons = [[r]]\<rparr>"
      by (auto simp: ParseGeometry_def c buildRings_def andThen_eq_Inr)
    from r(1) have "r = closeRing (toRing cs)" using buildPositions_toRing [of 0 0 cs]
      by (auto simp: buildRing_def andThen_eq_Inr Let_def)
    then have "r = toRing cs" by (simp add: closeRing_id [OF cs(2,3,1)])
    then show "okRing (toRing cs) \<and> g = ?g" using buildRing_ok [OF r(1)] r(2) by simp
  next
    assume a: "okRing (toRing cs) \<and> g = ?g"
    have "list_all (\<lambda>p. floatPair (Lon p, Lat p)) (toRing cs)" using cs(1) by (auto simp: toRing_def list_all_iff)
    then have fl: "floatGeometry ?g" by (simp add: floatGeometry_def geometryPoints_def)
    have ok: "okGeometry ?g" using a by (simp add: okGeometry_def)
    have fin: "list_all finitePoint (toRing cs)" using cs(1) by (auto simp: toRing_def list_all_iff finitePoint_def floatPair_def)
    have "MarshalCanonical gj ?g = Inr (gj_textPolygon gj [cs])"
      by (simp add: MarshalCanonical_def fin ringsToCoords_toRing)
    from ParseGeometry_canonical(1) [OF gj ok fl this] a show "ParseGeometry gj (gj_textPolygon gj [cs]) = Inr g" by simp
  }
qed

section \<open>The area of a polygon\<close>

text \<open>A pair of the text denotes a position: latitude, comma, longitude.\<close>

definition denotes :: "string \<Rightarrow> geoPoint \<Rightarrow> bool" where
  "denotes pair q \<longleftrightarrow> (\<exists>lat lon. pair = lat @ CHR '','' # lon \<and> CHR '','' \<notin> set lat \<and>
     ParseFloat (TrimSpace lat) = Some (Lat q) \<and> ParseFloat (TrimSpace lon) = Some (Lon q))"

definition onEarth :: "geoPoint \<Rightarrow> bool" where
  "onEarth q \<longleftrightarrow> (\<exists>x y. Lon q = Finite x \<and> Lat q = Finite y \<and> - 180 \<le> x \<and> x \<le> 180 \<and> - 90 \<le> y \<and> y \<le> 90)"

definition closedRing :: "Ring \<Rightarrow> Ring" where
  "closedRing r = (if hd r = last r then r else r @ [hd r])"

lemma SplitN2_two: "SplitN2 s c = [a, b] \<longleftrightarrow> s = a @ c # b \<and> c \<notin> set a"
proof (cases "c \<in> set s")
  case True
  then obtain xs ys where s: "s = xs @ c # ys" "c \<notin> set xs" by (auto dest: split_list_first)
  have "takeWhile (\<lambda>x. x \<noteq> c) s = xs" "dropWhile (\<lambda>x. x \<noteq> c) s = c # ys"
    unfolding s(1) using s(2) by (induction xs) auto
  moreover have "a = xs \<and> b = ys" if "xs @ c # ys = a @ c # b" "c \<notin> set a"
    using that s(2) by (auto simp: append_eq_append_conv2 append_eq_Cons_conv Cons_eq_append_conv)
  ultimately show ?thesis using s by (auto simp: SplitN2_def)
qed (auto simp: SplitN2_def)

lemma parsePair_denotes: "parsePair pair = Inr (x, y) \<longleftrightarrow> denotes pair \<lparr>Lon = x, Lat = y\<rparr>"
proof -
  have l: "length (SplitN2 pair (CHR '','')) = 2 \<longleftrightarrow> (\<exists>a b. SplitN2 pair (CHR '','') = [a, b])"
    by (auto simp: numeral_2_eq_2 length_Suc_conv)
  have "parsePair pair = Inr (x, y) \<longleftrightarrow> (\<exists>a b. SplitN2 pair (CHR '','') = [a, b] \<and>
      ParseFloat (TrimSpace a) = Some y \<and> ParseFloat (TrimSpace b) = Some x)"
    by (auto simp: parsePair_def Let_def l split: option.splits)
  then show ?thesis by (auto simp: SplitN2_two denotes_def)
qed

lemma denotes_float: "denotes pair q \<Longrightarrow> isFloat (Lon q) \<and> isFloat (Lat q)"
  by (auto simp: denotes_def dest: ParseFloat_isFloat)

lemma mapE_list_all2: "mapE f xs = Inr ys \<longleftrightarrow> list_all2 (\<lambda>x y. f x = Inr y) xs ys"
  by (induction xs arbitrary: ys) (auto simp: andThen_eq_Inr list_all2_Cons1)

lemma mapE_parsePair: "mapE parsePair ss = Inr cs \<longleftrightarrow> list_all2 denotes ss (toRing cs)"
proof -
  have p: "(parsePair f = Inr c) = denotes f (case c of (x, y) \<Rightarrow> \<lparr>Lon = x, Lat = y\<rparr>)" for f c
    by (cases c) (simp add: parsePair_denotes)
  show ?thesis by (simp add: mapE_list_all2 p toRing_def list_all2_map2)
qed

lemma closePairs_ring:
  assumes "list_all (\<lambda>(x, y). finite64 x \<and> finite64 y) cs" "cs \<noteq> []"
  shows "toRing (closePairs cs) = closedRing (toRing cs)" "hd (closePairs cs) = last (closePairs cs)"
proof -
  have "samePair (hd cs) (last cs) \<longleftrightarrow> hd cs = last cs"
    using assms by (cases cs) (auto simp: samePair_def feq_def finite64_def prod_eq_iff split: prod.splits)
  moreover have "hd cs = last cs \<longleftrightarrow> hd (toRing cs) = last (toRing cs)"
    using assms(2) by (auto split: prod.splits)
  moreover have c: "closePairs cs = (if samePair (hd cs) (last cs) then cs else cs @ [hd cs])"
    using assms(2) by (simp add: closePairs_def hd_conv_nth last_conv_nth)
  moreover have "toRing (cs @ [hd cs]) = toRing cs @ [hd (toRing cs)]" using assms(2) by (simp add: toRing_def hd_map)
  ultimately show "toRing (closePairs cs) = closedRing (toRing cs)" "hd (closePairs cs) = last (closePairs cs)"
    using assms(2) by (auto simp: closedRing_def)
qed

lemma okRing_closed: "r \<noteq> [] \<Longrightarrow> list_all finitePoint r \<Longrightarrow>
    okRing (closedRing r) \<longleftrightarrow> list_all onEarth r \<and> 4 \<le> length (closedRing r)"
proof -
  assume r: "r \<noteq> []" "list_all finitePoint r"
  have e: "\<not> outside (- 180) 180 (Lon p) \<and> \<not> outside (- 90) 90 (Lat p) \<longleftrightarrow> onEarth p" if "finitePoint p" for p
    using that by (auto simp: finitePoint_def finite64_cases outside_def onEarth_def not_less)
  have "set (closedRing r) = set r" using r(1) by (auto simp: closedRing_def)
  moreover have "hd (closedRing r) = last (closedRing r)" using r(1) by (simp add: closedRing_def)
  ultimately show ?thesis using r(2) e by (auto simp: okRing_def list_all_iff)
qed

lemma polygon_area:
  assumes gj: "goodCodec gj"
  shows "(\<exists>text. PolygonToGeoJSON gj polygon = Inr text \<and> ParseGeometry gj text = Inr g) \<longleftrightarrow>
    (\<exists>r. list_all2 denotes (Fields polygon) r \<and> list_all onEarth r \<and> 3 \<le> length r \<and> 4 \<le> length (closedRing r) \<and>
       g = \<lparr>geo_Type = ''Polygon'', geo_Polygons = [[closedRing r]]\<rparr>)" (is "?L \<longleftrightarrow> ?R")
proof -
  have float: "list_all floatPair (closePairs cs)" if "list_all2 denotes (Fields polygon) (toRing cs)" "list_all finitePoint (toRing cs)" "cs \<noteq> []" for cs
  proof -
    have "isFloat (Lon p) \<and> isFloat (Lat p)" if "p \<in> set (toRing cs)" for p
      using \<open>list_all2 denotes (Fields polygon) (toRing cs)\<close> that denotes_float by (auto simp: list_all2_conv_all_nth in_set_conv_nth)
    moreover have "\<lparr>Lon = x, Lat = y\<rparr> \<in> set (toRing cs)" if "(x, y) \<in> set cs" for x y
      using imageI [OF that, of "\<lambda>(x, y). \<lparr>Lon = x, Lat = y\<rparr>"] by (simp add: toRing_def)
    ultimately have "floatPair c" if "c \<in> set cs" for c
      using that \<open>list_all finitePoint (toRing cs)\<close> by (cases c) (force simp: floatPair_def finitePoint_def list_all_iff)
    then have "list_all floatPair cs" by (simp add: list_all_iff)
    then show ?thesis using that(3) by (auto simp: closePairs_def list_all_iff)
  qed
  have fin2: "list_all (\<lambda>(x, y). finite64 x \<and> finite64 y) cs \<longleftrightarrow> list_all finitePoint (toRing cs)" for cs
    by (auto simp: toRing_def finitePoint_def list_all_iff)
  have fin: "list_all (\<lambda>(x, y). finite64 x \<and> finite64 y) (closePairs cs) \<longleftrightarrow> list_all finitePoint (toRing cs)" if "cs \<noteq> []" for cs
  proof -
    have "set (closePairs cs) = set cs" using that by (auto simp: closePairs_def)
    then show ?thesis unfolding fin2 [symmetric] by (simp add: list_all_iff)
  qed
  have L: "?L \<longleftrightarrow> (\<exists>cs. 3 \<le> length cs \<and> list_all2 denotes (Fields polygon) (toRing cs) \<and> list_all finitePoint (toRing cs) \<and>
      okRing (closedRing (toRing cs)) \<and> g = \<lparr>geo_Type = ''Polygon'', geo_Polygons = [[closedRing (toRing cs)]]\<rparr>)"
  proof -
    have s: "(\<exists>text. PolygonToGeoJSON gj polygon = Inr text \<and> ParseGeometry gj text = Inr g) \<longleftrightarrow>
      (\<exists>cs. 3 \<le> length (Fields polygon) \<and> list_all2 denotes (Fields polygon) (toRing cs) \<and>
        list_all (\<lambda>(x, y). finite64 x \<and> finite64 y) (closePairs cs) \<and> ParseGeometry gj (gj_textPolygon gj [closePairs cs]) = Inr g)"
      by (auto simp: PolygonToGeoJSON_def Let_def andThen_eq_Inr mapE_parsePair marshalRing_def not_less)
    have len: "length (Fields polygon) = length cs" if "list_all2 denotes (Fields polygon) (toRing cs)" for cs
      using list_all2_lengthD [OF that] by simp
    have "(3 \<le> length (Fields polygon) \<and> list_all2 denotes (Fields polygon) (toRing cs) \<and>
        list_all (\<lambda>(x, y). finite64 x \<and> finite64 y) (closePairs cs) \<and> ParseGeometry gj (gj_textPolygon gj [closePairs cs]) = Inr g) \<longleftrightarrow>
      (3 \<le> length cs \<and> list_all2 denotes (Fields polygon) (toRing cs) \<and> list_all finitePoint (toRing cs) \<and>
        okRing (closedRing (toRing cs)) \<and> g = \<lparr>geo_Type = ''Polygon'', geo_Polygons = [[closedRing (toRing cs)]]\<rparr>)" for cs
    proof (cases "3 \<le> length cs \<and> list_all2 denotes (Fields polygon) (toRing cs) \<and> list_all finitePoint (toRing cs)")
      case True
      then have ne: "cs \<noteq> []" by auto
      have f: "list_all floatPair (closePairs cs)" using float True ne by blast
      have n: "closePairs cs \<noteq> []" using ne by (simp add: closePairs_def)
      have c: "toRing (closePairs cs) = closedRing (toRing cs)" "hd (closePairs cs) = last (closePairs cs)"
        using closePairs_ring [of cs] True ne fin2 by blast+
      show ?thesis using True len fin [OF ne] ParseGeometry_ring [OF gj f n c(2), of g] c(1) by auto
    next
      case False
      then show ?thesis using len fin [of cs] by (cases "cs = []") auto
    qed
    then show ?thesis unfolding s by blast
  qed
  have surj: "\<exists>cs. r = toRing cs" for r
    by (rule exI [of _ "map (\<lambda>p. (Lon p, Lat p)) r"]) (simp add: toRing_def comp_def map_idI)
  have earth: "list_all onEarth r \<Longrightarrow> list_all finitePoint r" for r
    by (auto simp: list_all_iff onEarth_def finitePoint_def finite64_def)
  show ?thesis
  proof
    assume ?L
    then obtain cs where cs: "3 \<le> length cs" "list_all2 denotes (Fields polygon) (toRing cs)" "list_all finitePoint (toRing cs)"
      "okRing (closedRing (toRing cs))" "g = \<lparr>geo_Type = ''Polygon'', geo_Polygons = [[closedRing (toRing cs)]]\<rparr>" using L by blast
    have "toRing cs \<noteq> []" using cs(1) by auto
    from okRing_closed [OF this cs(3)] cs show ?R by (intro exI [of _ "toRing cs"]) simp
  next
    assume ?R
    then obtain r cs where r: "list_all2 denotes (Fields polygon) r" "list_all onEarth r" "3 \<le> length r" "4 \<le> length (closedRing r)"
      "g = \<lparr>geo_Type = ''Polygon'', geo_Polygons = [[closedRing r]]\<rparr>" "r = toRing cs" using surj by blast
    have "r \<noteq> []" using r(3) by auto
    from okRing_closed [OF this earth [OF r(2)]] r have ok: "okRing (closedRing r)" by simp
    show ?L unfolding L using r ok earth [OF r(2)] by (intro exI [of _ cs]) simp
  qed
qed

section \<open>The area of a circle\<close>

lemma isFloat_fadd: "isFloat (fadd x y)"
  by (cases x; cases y) (auto simp: round64_float)

lemma circleRing_props:
  "length (circleRing tr lat lon r) = 65" "circleRing tr lat lon r \<noteq> []" "hd (circleRing tr lat lon r) = last (circleRing tr lat lon r)"
  "\<forall>c \<in> set (circleRing tr lat lon r). isFloat (fst c) \<and> isFloat (snd c)"
proof -
  have v: "isFloat (fst (circleVertex tr lat lon r i)) \<and> isFloat (snd (circleVertex tr lat lon r i))" for i
    by (simp add: circleVertex_def Let_def isFloat_fadd)
  show "length (circleRing tr lat lon r) = 65" "circleRing tr lat lon r \<noteq> []" by (simp_all add: circleRing_def circleSegments_def Let_def)
  show "hd (circleRing tr lat lon r) = last (circleRing tr lat lon r)"
    by (simp add: circleRing_def circleSegments_def Let_def hd_append hd_map nth_map del: upt_rec_numeral)
  show "\<forall>c \<in> set (circleRing tr lat lon r). isFloat (fst c) \<and> isFloat (snd c)"
    using v by (auto simp: circleRing_def circleSegments_def Let_def simp del: upt_rec_numeral)
qed

lemma circle_area:
  assumes gj: "goodCodec gj"
  shows "(\<exists>text. CircleToGeoJSON tr gj circle = Inr text \<and> ParseGeometry gj text = Inr g) \<longleftrightarrow>
    (\<exists>pair radius q r. Fields circle = [pair, radius] \<and> denotes pair q \<and> ParseFloat (TrimSpace radius) = Some r \<and> \<not> fle r (Finite 0) \<and>
       list_all onEarth (toRing (circleRing tr (Lat q) (Lon q) r)) \<and>
       g = \<lparr>geo_Type = ''Polygon'', geo_Polygons = [[toRing (circleRing tr (Lat q) (Lon q) r)]]\<rparr>)" (is "?L \<longleftrightarrow> ?R")
proof -
  have two: "length (Fields circle) = 2 \<longleftrightarrow> (\<exists>a b. Fields circle = [a, b])" by (auto simp: numeral_2_eq_2 length_Suc_conv)
  have fin: "list_all (\<lambda>(x, y). finite64 x \<and> finite64 y) cs \<longleftrightarrow> list_all finitePoint (toRing cs)" for cs
    by (auto simp: toRing_def finitePoint_def list_all_iff)
  have earth: "list_all onEarth ps \<Longrightarrow> list_all finitePoint ps" for ps
    by (auto simp: list_all_iff onEarth_def finitePoint_def finite64_def)
  have ring: "(list_all (\<lambda>(x, y). finite64 x \<and> finite64 y) cs \<and> ParseGeometry gj (gj_textPolygon gj [cs]) = Inr g) \<longleftrightarrow>
      (list_all onEarth (toRing cs) \<and> g = \<lparr>geo_Type = ''Polygon'', geo_Polygons = [[toRing cs]]\<rparr>)"
    if cs: "cs = circleRing tr lat lon r" for cs lat lon r
  proof (cases "list_all finitePoint (toRing cs)")
    case True
    note c = circleRing_props [of tr lat lon r, folded cs]
    have "list_all floatPair cs" using c(4) True unfolding fin [symmetric] by (auto simp: list_all_iff floatPair_def)
    from ParseGeometry_ring [OF gj this c(2,3), of g] True
    have "(list_all (\<lambda>(x, y). finite64 x \<and> finite64 y) cs \<and> ParseGeometry gj (gj_textPolygon gj [cs]) = Inr g) \<longleftrightarrow>
      okRing (toRing cs) \<and> g = \<lparr>geo_Type = ''Polygon'', geo_Polygons = [[toRing cs]]\<rparr>" unfolding fin by simp
    moreover have "closedRing (toRing cs) = toRing cs" using c(2,3) by (simp add: closedRing_def)
    ultimately show ?thesis using okRing_closed [of "toRing cs"] c(1,2) True by simp
  next
    case False
    then show ?thesis using earth [of "toRing cs"] by (auto simp: fin)
  qed
  show ?thesis
  proof
    assume ?L
    then obtain pair radius x y r where f: "Fields circle = [pair, radius]" "parsePair pair = Inr (x, y)" "ParseFloat (TrimSpace radius) = Some r"
      "\<not> fle r (Finite 0)" and m: "list_all (\<lambda>(x, y). finite64 x \<and> finite64 y) (circleRing tr y x r)"
      "ParseGeometry gj (gj_textPolygon gj [circleRing tr y x r]) = Inr g"
      by (auto simp: CircleToGeoJSON_def Let_def two andThen_eq_Inr marshalRing_def split: option.splits)
    from ring [OF refl, of y x r] m
    have "list_all onEarth (toRing (circleRing tr y x r)) \<and> g = \<lparr>geo_Type = ''Polygon'', geo_Polygons = [[toRing (circleRing tr y x r)]]\<rparr>" by blast
    then show ?R using f by (auto simp: parsePair_denotes intro!: exI [of _ "\<lparr>Lon = x, Lat = y\<rparr>"])
  next
    assume ?R
    then obtain pair radius q r where f: "Fields circle = [pair, radius]" "denotes pair q" "ParseFloat (TrimSpace radius) = Some r"
      "\<not> fle r (Finite 0)" and m: "list_all onEarth (toRing (circleRing tr (Lat q) (Lon q) r)) \<and>
       g = \<lparr>geo_Type = ''Polygon'', geo_Polygons = [[toRing (circleRing tr (Lat q) (Lon q) r)]]\<rparr>" by blast
    from m have "list_all (\<lambda>(x, y). finite64 x \<and> finite64 y) (circleRing tr (Lat q) (Lon q) r) \<and>
      ParseGeometry gj (gj_textPolygon gj [circleRing tr (Lat q) (Lon q) r]) = Inr g" using ring [OF refl] by blast
    moreover have "parsePair pair = Inr (Lon q, Lat q)" using f(2) by (simp add: parsePair_denotes denotes_def)
    ultimately show ?L using f by (simp add: CircleToGeoJSON_def Let_def marshalRing_def)
  qed
qed

section \<open>Property\<close>

text \<open>A CAP polygon reaches the cell selection as itself. Its text is accepted exactly when it lists at
  least three pairs of latitude and longitude, all within the ranges of the globe, that make a ring of
  at least four positions once closed; and the geometry that the selection then reads has exactly
  these positions, in this order, with longitude and latitude in their places, and the first position
  again at the end unless the text repeats it.\<close>

theorem polygon_area_exact:
  assumes "goodCodec gj"
  shows "(\<exists>text. PolygonToGeoJSON gj polygon = Inr text \<and> ParseGeometry gj text = Inr g) \<longleftrightarrow>
    (\<exists>r. list_all2 denotes (Fields polygon) r \<and> list_all onEarth r \<and> 3 \<le> length r \<and> 4 \<le> length (closedRing r) \<and>
       g = \<lparr>geo_Type = ''Polygon'', geo_Polygons = [[closedRing r]]\<rparr>)"
  by (rule polygon_area [OF assms])

definition samplePolygon :: string where "samplePolygon = ''20,10 20,15 25,15 25,10''"

lemma samplePolygon_fields: "Fields samplePolygon = [''20,10'', ''20,15'', ''25,15'', ''25,10'']"
  by (simp add: samplePolygon_def Fields_def segments_ascii ascii_def isSpace_def)

lemma sample_numbers: "ParseFloat ''10'' = Some (Finite 10)" "ParseFloat ''15'' = Some (Finite 15)"
  "ParseFloat ''20'' = Some (Finite 20)" "ParseFloat ''25'' = Some (Finite 25)"
proof -
  have r: "round64 10 = Finite 10" "round64 15 = Finite 15" "round64 20 = Finite 20" "round64 25 = Finite 25"
    using isFloat_numeral(1) by (simp_all add: isFloat_def)
  show "ParseFloat ''10'' = Some (Finite 10)" "ParseFloat ''15'' = Some (Finite 15)"
    "ParseFloat ''20'' = Some (Finite 20)" "ParseFloat ''25'' = Some (Finite 25)"
    using ParseFloat_text(1) [of "''10''" "[]" None 10 10] ParseFloat_text(1) [of "''15''" "[]" None 15 15]
      ParseFloat_text(1) [of "''20''" "[]" None 20 20] ParseFloat_text(1) [of "''25''" "[]" None 25 25] r
    by (simp_all add: isDigit_def numberText_def digitVal_def)
qed

lemma samplePolygon_denotes: "list_all2 denotes (Fields samplePolygon) (toRing (square 10 20 5))"
proof -
  have t: "TrimSpace ''10'' = ''10''" "TrimSpace ''15'' = ''15''" "TrimSpace ''20'' = ''20''" "TrimSpace ''25'' = ''25''"
    by (simp_all add: TrimSpace_def trimEnds_def segments_ascii ascii_def isSpace_def)
  have d: "denotes (a @ CHR '','' # b) \<lparr>Lon = Finite x, Lat = Finite y\<rparr>"
    if "CHR '','' \<notin> set a" "TrimSpace a = a" "TrimSpace b = b" "ParseFloat a = Some (Finite y)" "ParseFloat b = Some (Finite x)" for a b x y
    unfolding denotes_def geoPoint.simps using that by (intro exI [of _ a] exI [of _ b]) (simp only: that simp_thms)
  have "denotes ''20,10'' \<lparr>Lon = Finite 10, Lat = Finite 20\<rparr>" "denotes ''20,15'' \<lparr>Lon = Finite 15, Lat = Finite 20\<rparr>"
    "denotes ''25,15'' \<lparr>Lon = Finite 15, Lat = Finite 25\<rparr>" "denotes ''25,10'' \<lparr>Lon = Finite 10, Lat = Finite 25\<rparr>"
    using d [of "''20''" "''10''"] d [of "''20''" "''15''"] d [of "''25''" "''15''"] d [of "''25''" "''10''"] t sample_numbers
    by simp_all
  then show ?thesis by (simp add: samplePolygon_fields toRing_def square_def)
qed

theorem polygon_area_exact_witness:
  "\<exists>text. PolygonToGeoJSON sampleCodec samplePolygon = Inr text \<and> ParseGeometry sampleCodec text = Inr (squareGeometry 10 20 5)"
proof -
  let ?r = "toRing (square 10 20 5)"
  have "list_all onEarth ?r" by (simp add: toRing_def square_def onEarth_def)
  moreover have "closedRing ?r = squareRing 10 20 5" by (simp add: closedRing_def toRing_def square_def squareRing_def)
  ultimately show ?thesis
    unfolding polygon_area_exact [OF sampleCodec_good] using samplePolygon_denotes
    by (intro exI [of _ ?r]) (simp add: squareGeometry_def square_def squareRing_def)
qed

end
