(* ===== verification/Inventory_Model.thy ===== *)
theory Inventory_Model
  imports Inventory_Plmn Inventory_Geometry Go_Clock
begin

text \<open>
  \<open>internal/inventory/model.go\<close>: cells, imports, versions and filters. \<open>NewID\<close> is random, so an
  identifier is an argument where the code draws one. Modes and states are the strings the code
  stores. A pointer that may be nil is an option.
\<close>

record LTECell =
  c_ID :: int
  c_PLMN :: InventoryPLMN
  c_ECI :: u32
  c_ENBID :: u32
  c_LocalCellID :: byte
  c_TAC :: u16
  c_CellName :: string
  c_MMEName :: string
  c_Latitude :: "float64 option"
  c_Longitude :: "float64 option"
  c_NominalRadiusM :: "float64 option"
  c_AzimuthDeg :: "float64 option"
  c_BeamwidthDeg :: "float64 option"
  c_CoverageGeoJSON :: string
  c_Bounds :: "GeoBounds option"
  c_GeometryQuality :: string
  c_Source :: string
  c_SourceRecordID :: string
  c_SourceVersion :: string
  c_Active :: bool
  c_CreatedAt :: gotime
  c_UpdatedAt :: gotime

type_synonym ImportMode = string

definition ValidateOnly :: ImportMode where "ValidateOnly = ''validate-only''"
definition Merge :: ImportMode where "Merge = ''merge''"
definition Replace :: ImportMode where "Replace = ''replace''"

record ApplyResult =
  ar_Inserted :: int
  ar_Updated :: int
  ar_Deactivated :: int

record InventoryImport =
  im_ID :: string
  im_InventoryVersionID :: string
  im_SourceFilename :: string
  im_SourceSHA256 :: string
  im_Mode :: ImportMode
  im_Status :: string
  im_RowsReceived :: int
  im_RowsValid :: int
  im_RowsRejected :: int
  im_InsertedCount :: int
  im_UpdatedCount :: int
  im_DeactivatedCount :: int
  im_WarningCount :: int
  im_CreatedAt :: gotime
  im_CompletedAt :: "gotime option"

record InventoryVersion =
  v_ID :: string
  v_VersionName :: string
  v_SourceFilename :: string
  v_SourceSHA256 :: string
  v_ImportMode :: ImportMode
  v_RecordCount :: int
  v_Status :: string
  v_CreatedAt :: gotime

record CellFilter =
  f_Active :: "bool option"
  f_MCC :: string
  f_MNC :: string
  f_TAC :: "u16 option"
  f_MMEName :: string
  f_ENBID :: "u32 option"
  f_ECI :: "u32 option"
  f_Limit :: int
  f_Offset :: int

record ApplyImportInput =
  ai_ImportID :: string
  ai_Mode :: ImportMode
  ai_Cells :: "LTECell list"
  ai_VersionName :: string
  ai_SourceFilename :: string
  ai_SourceSHA256 :: string

record ExportMeta =
  xm_VersionName :: string
  xm_ExportedAt :: gotime
  xm_RecordCount :: int

text \<open>The zero value of a cell.\<close>

definition zeroCell :: LTECell where
  "zeroCell = \<lparr>c_ID = 0, c_PLMN = \<lparr>plmn_MCC = [], plmn_MNC = [], plmn_MNCLength = 0\<rparr>, c_ECI = 0, c_ENBID = 0,
     c_LocalCellID = 0, c_TAC = 0, c_CellName = [], c_MMEName = [], c_Latitude = None, c_Longitude = None,
     c_NominalRadiusM = None, c_AzimuthDeg = None, c_BeamwidthDeg = None, c_CoverageGeoJSON = [], c_Bounds = None,
     c_GeometryQuality = [], c_Source = [], c_SourceRecordID = [], c_SourceVersion = [], c_Active = False,
     c_CreatedAt = zeroTime, c_UpdatedAt = zeroTime\<rparr>"

text \<open>The E-UTRAN cell global identity that an operator knows a cell by.\<close>

definition ecgi :: "LTECell \<Rightarrow> string \<times> string \<times> int \<times> u32" where
  "ecgi c = (plmn_MCC (c_PLMN c), plmn_MNC (c_PLMN c), plmn_MNCLength (c_PLMN c), c_ECI c)"

end
