(* ===== verification/Csv_Table.thy ===== *)
theory Csv_Table
  imports Go_Strings
begin

text \<open>
  The reading of an interchange file that \<open>internal/inventory/csv.go\<close> and \<open>internal/geocode/csv.go\<close>
  have in common: the checks of the header line and the loop over the rows. The file itself is read
  by \<open>encoding/csv\<close>: its result is a list of rows, or an error. A field error has its column and code;
  the text of messages is left out. \<open>strings.ToLower\<close> outside ASCII is an argument.
\<close>

section \<open>Fields\<close>

text \<open>\<open>strconv.Atoi\<close>.\<close>

definition Atoi :: "string \<Rightarrow> int option" where
  "Atoi s =
     (let neg = s \<noteq> [] \<and> hd s = CHR ''-'';
          t = (if s \<noteq> [] \<and> (hd s = CHR ''+'' \<or> hd s = CHR ''-'') then tl s else s)
      in case parseUint10 64 t of
           None \<Rightarrow> None
         | Some n \<Rightarrow>
             if neg then (if n > 2 ^ 63 then None else Some (- int n))
             else if n \<ge> 2 ^ 63 then None else Some (int n))"

definition atoi :: "string \<Rightarrow> int \<Rightarrow> int \<Rightarrow> int option" where
  "atoi s lo hi = (case Atoi s of None \<Rightarrow> None | Some v \<Rightarrow> if v < lo \<or> v > hi then None else Some v)"

definition digits :: "string \<Rightarrow> bool" where
  "digits s \<longleftrightarrow> list_all (\<lambda>r. 48 \<le> r \<and> r \<le> 57) (runes s)"

text \<open>\<open>strconv.Itoa\<close>.\<close>

definition Itoa :: "int \<Rightarrow> string" where
  "Itoa n = (if n < 0 then CHR ''-'' # decimal (nat (- n)) else decimal (nat n))"

text \<open>\<open>strconv.ParseBool\<close> and \<open>strconv.FormatBool\<close>.\<close>

definition ParseBool :: "string \<Rightarrow> bool option" where
  "ParseBool s =
     (if s \<in> {''1'', ''t'', ''T'', ''true'', ''TRUE'', ''True''} then Some True
      else if s \<in> {''0'', ''f'', ''F'', ''false'', ''FALSE'', ''False''} then Some False
      else None)"

definition FormatBool :: "bool \<Rightarrow> string" where
  "FormatBool b = (if b then ''true'' else ''false'')"

definition ToLower :: "(string \<Rightarrow> string) \<Rightarrow> string \<Rightarrow> string" where
  "ToLower unicode s =
     (if ascii s then map (\<lambda>c. case lowerASCII (of_char c) of Some d \<Rightarrow> d | None \<Rightarrow> c) s else unicode s)"

section \<open>Errors and results\<close>

record FieldError =
  fe_Column :: string
  fe_Code :: string

record ValidationError =
  ve_Row :: int
  ve_Column :: string
  ve_Code :: string

record 'a ParseResult =
  pr_Items :: "'a list"
  pr_Rows :: nat
  pr_Errors :: "ValidationError list"

definition maxCSVErrors :: nat where "maxCSVErrors = 1000"

definition rowError :: "int \<Rightarrow> string \<Rightarrow> string \<Rightarrow> ValidationError" where
  "rowError row column code = \<lparr>ve_Row = row, ve_Column = column, ve_Code = code\<rparr>"

section \<open>Header\<close>

definition headerKeys :: "(string \<Rightarrow> string) \<Rightarrow> string list \<Rightarrow> string list" where
  "headerKeys unicode header = map (\<lambda>v. ToLower unicode (TrimSpace v)) header"

fun duplicateHeaders :: "string list \<Rightarrow> string list \<Rightarrow> string list" where
  "duplicateHeaders seen [] = []"
| "duplicateHeaders seen (k # ks) = (if k \<in> set seen then [k] else []) @ duplicateHeaders (k # seen) ks"

text \<open>The unknown headers come in an unspecified order in Go.\<close>

definition headerErrors :: "string list \<Rightarrow> string list \<Rightarrow> ValidationError list" where
  "headerErrors columns keys =
     map (\<lambda>k. rowError 1 k ''duplicate_header'') (duplicateHeaders [] keys) @
     map (\<lambda>k. rowError 1 k ''missing_header'') (filter (\<lambda>k. k \<notin> set keys) columns) @
     map (\<lambda>k. rowError 1 k ''unknown_header'') (filter (\<lambda>k. k \<notin> set columns) (remdups keys))"

text \<open>\<open>idx[k]\<close>: the last column with the key.\<close>

definition columnOf :: "string list \<Rightarrow> string \<Rightarrow> nat" where
  "columnOf keys k = (case map_of (rev (zip keys [0..<length keys])) k of Some i \<Rightarrow> i | None \<Rightarrow> 0)"

definition getField :: "string list \<Rightarrow> string list \<Rightarrow> string \<Rightarrow> string" where
  "getField keys row k = TrimSpace (row ! columnOf keys k)"

section \<open>Rows\<close>

text \<open>
  One data row; \<open>n\<close> is its line number in the file, \<open>seen\<close> the keys of the rows accepted so far.
\<close>

definition parseRow ::
    "((string \<Rightarrow> string) \<Rightarrow> 'a \<times> FieldError list) \<Rightarrow> ('a \<Rightarrow> string) \<Rightarrow> string \<Rightarrow> string \<Rightarrow> string list \<Rightarrow>
     int \<Rightarrow> string list \<Rightarrow> string list \<Rightarrow> 'a option \<times> ValidationError list" where
  "parseRow from key dupColumn dupCode keys n row seen =
     (if length row \<noteq> length keys then (None, [rowError n [] ''field_count''])
      else case from (getField keys row) of (item, errs) \<Rightarrow>
        if errs \<noteq> [] then (None, map (\<lambda>fe. rowError n (fe_Column fe) (fe_Code fe)) errs)
        else if key item \<in> set seen then (None, [rowError n dupColumn dupCode])
        else (Some item, []))"

fun parseRows ::
    "(int \<Rightarrow> string list \<Rightarrow> string list \<Rightarrow> 'a option \<times> ValidationError list) \<Rightarrow> ('a \<Rightarrow> string) \<Rightarrow> int \<Rightarrow>
     string list \<Rightarrow> string list list \<Rightarrow> 'a ParseResult \<Rightarrow> 'a ParseResult" where
  "parseRows row key n seen [] out = out"
| "parseRows row key n seen (r # rs) out =
     (if length (pr_Errors out) \<ge> maxCSVErrors then
        out\<lparr>pr_Errors := pr_Errors out @ [rowError 0 [] ''too_many_errors'']\<rparr>
      else case row n r seen of
        (None, errs) \<Rightarrow>
          parseRows row key (n + 1) seen rs
            (out\<lparr>pr_Rows := pr_Rows out + 1, pr_Errors := pr_Errors out @ errs\<rparr>)
      | (Some item, _) \<Rightarrow>
          parseRows row key (n + 1) (key item # seen) rs
            (out\<lparr>pr_Rows := pr_Rows out + 1, pr_Items := pr_Items out @ [item]\<rparr>))"

definition parseTable ::
    "((string \<Rightarrow> string) \<Rightarrow> 'a \<times> FieldError list) \<Rightarrow> ('a \<Rightarrow> string) \<Rightarrow> string \<Rightarrow> string \<Rightarrow> (string \<Rightarrow> string) \<Rightarrow>
     string list \<Rightarrow> string + string list list \<Rightarrow> 'a ParseResult" where
  "parseTable from key dupColumn dupCode unicode columns rows =
     (case rows of
        Inl _ \<Rightarrow> \<lparr>pr_Items = [], pr_Rows = 0, pr_Errors = [rowError 1 [] ''malformed_csv'']\<rparr>
      | Inr [] \<Rightarrow> \<lparr>pr_Items = [], pr_Rows = 0, pr_Errors = [rowError 1 [] ''empty_file'']\<rparr>
      | Inr (header # body) \<Rightarrow>
          (let keys = headerKeys unicode header; errs = headerErrors columns keys in
           if errs \<noteq> [] then \<lparr>pr_Items = [], pr_Rows = 0, pr_Errors = errs\<rparr>
           else parseRows (parseRow from key dupColumn dupCode keys) key 2 [] body
                  \<lparr>pr_Items = [], pr_Rows = 0, pr_Errors = []\<rparr>))"

section \<open>What a parsed table holds\<close>

lemma parseRow_Some:
  "parseRow from key dc dd keys n row seen = (Some item, errs) \<Longrightarrow>
   length row = length keys \<and> from (getField keys row) = (item, []) \<and> key item \<notin> set seen \<and> errs = []"
  by (auto simp: parseRow_def split: prod.splits if_splits)

lemma parseRow_None:
  "parseRow from key dc dd keys n row seen = (None, errs) \<Longrightarrow> errs \<noteq> []"
  by (auto simp: parseRow_def split: prod.splits if_splits)

lemma parseRows_sound:
  assumes "parseRows (parseRow from key dc dd keys) key n seen rows out = res"
    and "\<forall>x \<in> set (pr_Items out). \<exists>row. from (getField keys row) = (x, [])"
    and "distinct (map key (pr_Items out))" "set seen = key ` set (pr_Items out)"
    and "pr_Errors out = [] \<longrightarrow> length (pr_Items out) = pr_Rows out"
  shows "(\<forall>x \<in> set (pr_Items res). \<exists>row. from (getField keys row) = (x, [])) \<and> distinct (map key (pr_Items res)) \<and>
    (pr_Errors res = [] \<longrightarrow> pr_Errors out = [] \<and> length (pr_Items res) = pr_Rows res \<and> pr_Rows res = pr_Rows out + length rows)"
  using assms
proof (induction rows arbitrary: n seen out)
  case (Cons r rs)
  show ?case
  proof (cases "length (pr_Errors out) \<ge> maxCSVErrors")
    case True
    then show ?thesis using Cons.prems by auto
  next
    case False
    show ?thesis
    proof (cases "parseRow from key dc dd keys n r seen")
      case (Pair x errs)
      show ?thesis
      proof (cases x)
        case None
        then have "errs \<noteq> []" using parseRow_None [of "from" key dc dd keys n r seen errs] Pair by simp
        with Cons.IH [of "n + 1" seen "out\<lparr>pr_Rows := pr_Rows out + 1, pr_Errors := pr_Errors out @ errs\<rparr>"] Cons.prems False Pair None
        show ?thesis by simp
      next
        case (Some item)
        have p: "from (getField keys r) = (item, [])" "key item \<notin> set seen"
          using parseRow_Some [of "from" key dc dd keys n r seen item errs] Pair Some by simp_all
        let ?out = "out\<lparr>pr_Rows := pr_Rows out + 1, pr_Items := pr_Items out @ [item]\<rparr>"
        have "parseRows (parseRow from key dc dd keys) key (n + 1) (key item # seen) rs ?out = res"
          using Cons.prems(1) False Pair Some by simp
        moreover have "\<forall>x \<in> set (pr_Items ?out). \<exists>row. from (getField keys row) = (x, [])"
        proof
          fix x assume "x \<in> set (pr_Items ?out)"
          then consider "x \<in> set (pr_Items out)" | "x = item" by auto
          then show "\<exists>row. from (getField keys row) = (x, [])" using Cons.prems(2) p(1) by cases blast+
        qed
        moreover have "distinct (map key (pr_Items ?out))" "set (key item # seen) = key ` set (pr_Items ?out)"
          using Cons.prems(3,4) p(2) by simp_all
        moreover have "pr_Errors ?out = [] \<longrightarrow> length (pr_Items ?out) = pr_Rows ?out" using Cons.prems(5) by simp
        ultimately have "(\<forall>x \<in> set (pr_Items res). \<exists>row. from (getField keys row) = (x, [])) \<and> distinct (map key (pr_Items res)) \<and>
          (pr_Errors res = [] \<longrightarrow> pr_Errors ?out = [] \<and> length (pr_Items res) = pr_Rows res \<and> pr_Rows res = pr_Rows ?out + length rs)"
          by (rule Cons.IH)
        then show ?thesis by simp
      qed
    qed
  qed
qed simp

lemma parseTable_sound:
  assumes "parseTable from key dc dd unicode columns rows = res"
  shows "\<forall>x \<in> set (pr_Items res). \<exists>get. from get = (x, []) \<and> (\<exists>keys row. get = getField keys row)"
    and "distinct (map key (pr_Items res))"
    and "pr_Errors res = [] \<Longrightarrow> \<exists>header body. rows = Inr (header # body) \<and> length (pr_Items res) = length body \<and> pr_Rows res = length body"
proof -
  have "(\<forall>x \<in> set (pr_Items res). \<exists>get. from get = (x, []) \<and> (\<exists>keys row. get = getField keys row)) \<and>
    distinct (map key (pr_Items res)) \<and>
    (pr_Errors res = [] \<longrightarrow> (\<exists>header body. rows = Inr (header # body) \<and> length (pr_Items res) = length body \<and> pr_Rows res = length body))"
  proof (cases "\<exists>header body. rows = Inr (header # body) \<and> headerErrors columns (headerKeys unicode header) = []")
    case True
    then obtain header body where r: "rows = Inr (header # body)" "headerErrors columns (headerKeys unicode header) = []" by blast
    from parseRows_sound [OF refl, where out = "\<lparr>pr_Items = [], pr_Rows = 0, pr_Errors = []\<rparr>" and seen = "[]" and rows = body]
      assms r show ?thesis by (fastforce simp: parseTable_def Let_def)
  next
    case False
    then show ?thesis using assms by (auto simp: parseTable_def Let_def split: sum.splits list.splits)
  qed
  then show "\<forall>x \<in> set (pr_Items res). \<exists>get. from get = (x, []) \<and> (\<exists>keys row. get = getField keys row)"
    "distinct (map key (pr_Items res))"
    "pr_Errors res = [] \<Longrightarrow> \<exists>header body. rows = Inr (header # body) \<and> length (pr_Items res) = length body \<and> pr_Rows res = length body"
    by auto
qed

text \<open>A table with the canonical header whose rows are all accepted.\<close>

lemma parseRows_total:
  assumes "\<And>row x. (row, x) \<in> set (zip rows items) \<Longrightarrow> length row = length keys \<and> from (getField keys row) = (x, [])"
    and "length rows = length items" "distinct (map key items)" "set seen \<inter> key ` set items = {}" "pr_Errors out = []"
  shows "parseRows (parseRow from key dc dd keys) key n seen rows out =
    out\<lparr>pr_Items := pr_Items out @ items, pr_Rows := pr_Rows out + length rows\<rparr>"
  using assms
proof (induction rows arbitrary: n seen out items)
  case (Cons r rs)
  then obtain x xs where items: "items = x # xs" by (cases items) auto
  have r: "length r = length keys" "from (getField keys r) = (x, [])" using Cons.prems(1) [of r x] by (auto simp: items)
  have p: "parseRow from key dc dd keys n r seen = (Some x, [])" using r Cons.prems(4) by (auto simp: parseRow_def items)
  have e: "\<not> length (pr_Errors out) \<ge> maxCSVErrors" using Cons.prems(5) by (simp add: maxCSVErrors_def)
  have "parseRows (parseRow from key dc dd keys) key (n + 1) (key x # seen) rs
      (out\<lparr>pr_Rows := pr_Rows out + 1, pr_Items := pr_Items out @ [x]\<rparr>) =
    (out\<lparr>pr_Rows := pr_Rows out + 1, pr_Items := pr_Items out @ [x]\<rparr>)
      \<lparr>pr_Items := (pr_Items out @ [x]) @ xs, pr_Rows := (pr_Rows out + 1) + length rs\<rparr>"
    using Cons.IH [of xs "key x # seen" "out\<lparr>pr_Rows := pr_Rows out + 1, pr_Items := pr_Items out @ [x]\<rparr>" "n + 1"] Cons.prems
    by (auto simp: items)
  then show ?case using p e by (simp add: items)
qed simp

lemma parseTable_total:
  assumes "headerErrors columns (headerKeys unicode header) = []"
    and "\<And>row x. (row, x) \<in> set (zip rows items) \<Longrightarrow> length row = length header \<and> from (getField (headerKeys unicode header) row) = (x, [])"
    and "length rows = length items" "distinct (map key items)"
  shows "parseTable from key dc dd unicode columns (Inr (header # rows)) =
    \<lparr>pr_Items = items, pr_Rows = length rows, pr_Errors = []\<rparr>"
  using assms parseRows_total [of rows items "headerKeys unicode header" "from" key "[]" "\<lparr>pr_Items = [], pr_Rows = 0, pr_Errors = []\<rparr>" dc dd 2]
  by (simp add: parseTable_def headerKeys_def)

section \<open>Numbers in fields\<close>

lemma skipSign_decimal: "hd (decimal n) \<noteq> CHR ''-''" "hd (decimal n) \<noteq> CHR ''+''"
proof -
  have "isDigit (hd (decimal n))" using decimal_digits [of n] decimal_ne [of n] by (cases "decimal n") auto
  then show "hd (decimal n) \<noteq> CHR ''-''" "hd (decimal n) \<noteq> CHR ''+''" by (auto simp: isDigit_def)
qed

lemma Atoi_decimal: "n < 2 ^ 63 \<Longrightarrow> Atoi (decimal n) = Some (int n)"
  using skipSign_decimal [of n] parseUint10_decimal [of n 64] by (simp add: Atoi_def)

lemma atoi_decimal: "n < 2 ^ 63 \<Longrightarrow> lo \<le> int n \<Longrightarrow> int n \<le> hi \<Longrightarrow> atoi (decimal n) lo hi = Some (int n)"
  by (simp add: atoi_def Atoi_decimal)

lemma atoi_bounds: "atoi s lo hi = Some v \<Longrightarrow> lo \<le> v \<and> v \<le> hi"
  by (auto simp: atoi_def split: option.splits if_splits)

lemma ParseBool_FormatBool [simp]: "ParseBool (FormatBool b) = Some b"
  by (simp add: ParseBool_def FormatBool_def)

lemma digits_isDigit: "list_all isDigit s \<Longrightarrow> digits s"
proof -
  assume a: "list_all isDigit s"
  then have "ascii s" by (auto simp: ascii_def list_all_iff isDigit_def)
  with a show ?thesis by (auto simp: digits_def runes_ascii list_all_iff isDigit_def)
qed

end
