(* ===== verification/Inventory_Csv.thy ===== *)
theory Inventory_Csv
  imports Inventory_Model Inventory_Coverage Csv_Table
begin

text \<open>
  \<open>internal/inventory/csv.go\<close> (reading an inventory file), the validation of \<open>create.go\<close>, and
  \<open>cellToRow\<close> of \<open>internal/storage/sqlite/inventory.go\<close> (a row of an exported file). The SHA-256 of
  the file is the argument of the import.
\<close>

section \<open>Columns\<close>

definition CSVColumns :: "string list" where
  "CSVColumns = [''mcc'', ''mnc'', ''mnc_length'', ''eci'', ''enb_id'', ''local_cell_id'', ''tac'', ''cell_name'',
     ''mme_name'', ''latitude'', ''longitude'', ''nominal_radius_m'', ''azimuth_deg'', ''beamwidth_deg'',
     ''geometry_quality'', ''source'', ''source_record_id'', ''source_version'', ''active'', ''coverage_geojson'']"

definition geometryQualities :: "string list" where
  "geometryQualities = [''engineered_polygon'', ''propagation_model'', ''sector_estimate'', ''point_radius'',
     ''site_point'', ''unknown'']"

section \<open>One cell\<close>

definition fieldIf :: "bool \<Rightarrow> string \<Rightarrow> string \<Rightarrow> FieldError list" where
  "fieldIf bad column code = (if bad then [\<lparr>fe_Column = column, fe_Code = code\<rparr>] else [])"

text \<open>An optional number: nothing when the text is empty, an error when it does not parse or is \<open>bad\<close>.\<close>

definition floatField :: "(float64 \<Rightarrow> bool) \<Rightarrow> string \<Rightarrow> float64 option option" where
  "floatField bad v =
     (if v = [] then Some None
      else case ParseFloat v of None \<Rightarrow> None | Some f \<Rightarrow> if bad f then None else Some (Some f))"

definition floatValue :: "float64 option option \<Rightarrow> float64 option" where
  "floatValue r = (case r of None \<Rightarrow> None | Some v \<Rightarrow> v)"

definition badLatitude :: "float64 \<Rightarrow> bool" where "badLatitude f \<longleftrightarrow> fless f (Finite (- 90)) \<or> fless (Finite 90) f"
definition badLongitude :: "float64 \<Rightarrow> bool" where "badLongitude f \<longleftrightarrow> fless f (Finite (- 180)) \<or> fless (Finite 180) f"
definition badRadius :: "float64 \<Rightarrow> bool" where "badRadius f \<longleftrightarrow> fle f (Finite 0)"
definition badAzimuth :: "float64 \<Rightarrow> bool" where "badAzimuth f \<longleftrightarrow> fless f (Finite 0) \<or> fle (Finite 360) f"
definition badBeamwidth :: "float64 \<Rightarrow> bool" where "badBeamwidth f \<longleftrightarrow> fle f (Finite 0) \<or> fless (Finite 360) f"

definition needsPolygon :: "string \<Rightarrow> bool" where
  "needsPolygon q \<longleftrightarrow> q = ''engineered_polygon'' \<or> q = ''propagation_model''"

definition cellFrom :: "GeoCodec \<Rightarrow> (string \<Rightarrow> string) \<Rightarrow> LTECell \<times> FieldError list" where
  "cellFrom gj get =
     (let mcc = get ''mcc''; mnc = get ''mnc'';
          badMCC = (length mcc \<noteq> 3 \<or> \<not> digits mcc);
          badMNC = (length mnc \<noteq> 2 \<and> length mnc \<noteq> 3 \<or> \<not> digits mnc);
          mncLen = atoi (get ''mnc_length'') 2 3;
          eci = atoi (get ''eci'') 0 268435455;
          enb = atoi (get ''enb_id'') 0 1048575;
          loc = atoi (get ''local_cell_id'') 0 255;
          tac = atoi (get ''tac'') 0 65535;
          active = ParseBool (get ''active'');
          quality = get ''geometry_quality'';
          lat = floatField badLatitude (get ''latitude'');
          lon = floatField badLongitude (get ''longitude'');
          radius = floatField badRadius (get ''nominal_radius_m'');
          azimuth = floatField badAzimuth (get ''azimuth_deg'');
          beam = floatField badBeamwidth (get ''beamwidth_deg'');
          geo = get ''coverage_geojson'';
          cov = (if geo = [] then None else Some (ValidateCoverageGeoJSON gj geo));
          word = (\<lambda>v. case v of None \<Rightarrow> 0 | Some n \<Rightarrow> n);
          ECI = (word_of_int (word eci) :: u32); ENBID = (word_of_int (word enb) :: u32);
          local = (word_of_int (word loc) :: byte);
          cell = \<lparr>c_ID = 0,
            c_PLMN = \<lparr>plmn_MCC = (if badMCC then [] else mcc), plmn_MNC = (if badMNC then [] else mnc),
              plmn_MNCLength = word mncLen\<rparr>,
            c_ECI = ECI, c_ENBID = ENBID, c_LocalCellID = local, c_TAC = word_of_int (word tac),
            c_CellName = get ''cell_name'', c_MMEName = get ''mme_name'',
            c_Latitude = floatValue lat, c_Longitude = floatValue lon, c_NominalRadiusM = floatValue radius,
            c_AzimuthDeg = floatValue azimuth, c_BeamwidthDeg = floatValue beam,
            c_CoverageGeoJSON = (case cov of Some (Inr (canon, _)) \<Rightarrow> canon | _ \<Rightarrow> []),
            c_Bounds = (case cov of Some (Inr (_, b)) \<Rightarrow> Some b | _ \<Rightarrow> None),
            c_GeometryQuality = quality, c_Source = get ''source'', c_SourceRecordID = get ''source_record_id'',
            c_SourceVersion = get ''source_version'', c_Active = (active = Some True),
            c_CreatedAt = zeroTime, c_UpdatedAt = zeroTime\<rparr>
      in (cell,
          fieldIf badMCC ''mcc'' ''invalid_mcc'' @
          fieldIf badMNC ''mnc'' ''invalid_mnc'' @
          fieldIf (mncLen = None) ''mnc_length'' ''invalid_mnc_length'' @
          fieldIf (mncLen \<noteq> None \<and> 0 < length mnc \<and> mncLen \<noteq> Some (int (length mnc)))
            ''mnc_length'' ''mnc_length_mismatch'' @
          fieldIf (eci = None) ''eci'' ''invalid_eci'' @
          fieldIf (enb = None) ''enb_id'' ''invalid_enb_id'' @
          fieldIf (loc = None) ''local_cell_id'' ''invalid_local_cell_id'' @
          fieldIf (eci \<noteq> None \<and> enb \<noteq> None \<and> loc \<noteq> None \<and> ECI \<noteq> or (push_bit 8 ENBID) (ucast local))
            ''eci'' ''eci_identity_mismatch'' @
          fieldIf (tac = None) ''tac'' ''invalid_tac'' @
          fieldIf (active = None) ''active'' ''invalid_active'' @
          (if quality = [] then fieldIf True ''geometry_quality'' ''missing_geometry_quality''
           else fieldIf (quality \<notin> set geometryQualities) ''geometry_quality'' ''invalid_geometry_quality'') @
          fieldIf (lat = None) ''latitude'' ''invalid_latitude'' @
          fieldIf (lon = None) ''longitude'' ''invalid_longitude'' @
          fieldIf (radius = None) ''nominal_radius_m'' ''invalid_radius'' @
          fieldIf (azimuth = None) ''azimuth_deg'' ''invalid_azimuth'' @
          fieldIf (beam = None) ''beamwidth_deg'' ''invalid_beamwidth'' @
          (case cov of
             Some (Inl _) \<Rightarrow> fieldIf True ''coverage_geojson'' ''invalid_geometry''
           | Some (Inr _) \<Rightarrow> []
           | None \<Rightarrow> fieldIf (needsPolygon quality) ''coverage_geojson'' ''geometry_quality_requires_polygon'')))"

section \<open>The file\<close>

definition csvKey :: "LTECell \<Rightarrow> string" where
  "csvKey c = plmn_MCC (c_PLMN c) @ ''-'' @ plmn_MNC (c_PLMN c) @ ''-'' @ Itoa (plmn_MNCLength (c_PLMN c)) @ ''-'' @
     decimal (unat (c_ECI c))"

definition ParseCSV :: "GeoCodec \<Rightarrow> (string \<Rightarrow> string) \<Rightarrow> string + string list list \<Rightarrow> LTECell ParseResult" where
  "ParseCSV gj unicode rows = parseTable (cellFrom gj) csvKey ''eci'' ''duplicate_ecgi'' unicode CSVColumns rows"

section \<open>Entering one cell\<close>

record CreateCellInput =
  in_PLMN :: InventoryPLMN
  in_ENBID :: u32
  in_LocalCellID :: byte
  in_TAC :: u16
  in_CellName :: string
  in_MMEName :: string
  in_Latitude :: "float64 option"
  in_Longitude :: "float64 option"
  in_NominalRadiusM :: "float64 option"
  in_AzimuthDeg :: "float64 option"
  in_BeamwidthDeg :: "float64 option"
  in_CoverageGeoJSON :: string
  in_GeometryQuality :: string
  in_Source :: string
  in_SourceRecordID :: string
  in_SourceVersion :: string
  in_Active :: bool

definition floatOrEmpty :: "float64 option \<Rightarrow> string" where
  "floatOrEmpty p = (case p of None \<Rightarrow> [] | Some x \<Rightarrow> FormatFloat x)"

definition newCellField :: "CreateCellInput \<Rightarrow> string \<Rightarrow> string" where
  "newCellField i k =
     (let eci = or (push_bit 8 (in_ENBID i)) (ucast (in_LocalCellID i)) in
      if k = ''mcc'' then plmn_MCC (in_PLMN i)
      else if k = ''mnc'' then plmn_MNC (in_PLMN i)
      else if k = ''mnc_length'' then Itoa (plmn_MNCLength (in_PLMN i))
      else if k = ''eci'' then decimal (unat eci)
      else if k = ''enb_id'' then decimal (unat (in_ENBID i))
      else if k = ''local_cell_id'' then Itoa (uint (in_LocalCellID i))
      else if k = ''tac'' then Itoa (uint (in_TAC i))
      else if k = ''cell_name'' then in_CellName i
      else if k = ''mme_name'' then in_MMEName i
      else if k = ''latitude'' then floatOrEmpty (in_Latitude i)
      else if k = ''longitude'' then floatOrEmpty (in_Longitude i)
      else if k = ''nominal_radius_m'' then floatOrEmpty (in_NominalRadiusM i)
      else if k = ''azimuth_deg'' then floatOrEmpty (in_AzimuthDeg i)
      else if k = ''beamwidth_deg'' then floatOrEmpty (in_BeamwidthDeg i)
      else if k = ''geometry_quality'' then in_GeometryQuality i
      else if k = ''source'' then in_Source i
      else if k = ''source_record_id'' then in_SourceRecordID i
      else if k = ''source_version'' then in_SourceVersion i
      else if k = ''active'' then FormatBool (in_Active i)
      else if k = ''coverage_geojson'' then in_CoverageGeoJSON i
      else [])"

definition validateNewCell :: "GeoCodec \<Rightarrow> CreateCellInput \<Rightarrow> LTECell \<times> FieldError list" where
  "validateNewCell gj i = cellFrom gj (newCellField i)"

section \<open>An exported row\<close>

definition cellToRow :: "LTECell \<Rightarrow> string list" where
  "cellToRow c =
     [plmn_MCC (c_PLMN c), plmn_MNC (c_PLMN c), Itoa (plmn_MNCLength (c_PLMN c)),
      decimal (unat (c_ECI c)), decimal (unat (c_ENBID c)), Itoa (uint (c_LocalCellID c)), Itoa (uint (c_TAC c)),
      c_CellName c, c_MMEName c,
      floatOrEmpty (c_Latitude c), floatOrEmpty (c_Longitude c), floatOrEmpty (c_NominalRadiusM c),
      floatOrEmpty (c_AzimuthDeg c), floatOrEmpty (c_BeamwidthDeg c),
      c_GeometryQuality c, c_Source c, c_SourceRecordID c, c_SourceVersion c,
      FormatBool (c_Active c), c_CoverageGeoJSON c]"

section \<open>Valid cells\<close>

definition goodField :: "(float64 \<Rightarrow> bool) \<Rightarrow> float64 option \<Rightarrow> bool" where
  "goodField bad v \<longleftrightarrow> (case v of None \<Rightarrow> True | Some f \<Rightarrow> isFloat f \<and> \<not> bad f)"

definition validCell :: "GeoCodec \<Rightarrow> LTECell \<Rightarrow> bool" where
  "validCell gj c \<longleftrightarrow>
     length (plmn_MCC (c_PLMN c)) = 3 \<and> digits (plmn_MCC (c_PLMN c)) \<and>
     length (plmn_MNC (c_PLMN c)) \<in> {2, 3} \<and> digits (plmn_MNC (c_PLMN c)) \<and>
     plmn_MNCLength (c_PLMN c) = int (length (plmn_MNC (c_PLMN c))) \<and>
     unat (c_ECI c) \<le> 268435455 \<and> unat (c_ENBID c) \<le> 1048575 \<and>
     c_ECI c = or (push_bit 8 (c_ENBID c)) (ucast (c_LocalCellID c)) \<and>
     c_GeometryQuality c \<in> set geometryQualities \<and>
     goodField badLatitude (c_Latitude c) \<and> goodField badLongitude (c_Longitude c) \<and>
     goodField badRadius (c_NominalRadiusM c) \<and> goodField badAzimuth (c_AzimuthDeg c) \<and>
     goodField badBeamwidth (c_BeamwidthDeg c) \<and>
     (if c_CoverageGeoJSON c = [] then c_Bounds c = None \<and> \<not> needsPolygon (c_GeometryQuality c)
      else \<exists>b. c_Bounds c = Some b \<and> ValidateCoverageGeoJSON gj (c_CoverageGeoJSON c) = Inr (c_CoverageGeoJSON c, b))"

lemma fieldIf_Nil [simp]: "fieldIf b c e = [] \<longleftrightarrow> \<not> b"
  by (simp add: fieldIf_def)

lemma floatField_good: "floatField bad v = Some x \<Longrightarrow> goodField bad (floatValue (floatField bad v))"
  by (auto simp: floatField_def floatValue_def goodField_def ParseFloat_isFloat split: if_splits option.splits)

lemma uint_of_int: "0 \<le> v \<Longrightarrow> v < 2 ^ LENGTH('a::len) \<Longrightarrow> unat (word_of_int v :: 'a word) = nat v"
  by (simp add: unat_eq_nat_uint uint_word_of_int_eq take_bit_int_eq_self)

lemma cellFrom_valid:
  assumes gj: "goodCodec gj" and c: "cellFrom gj get = (c, [])"
  shows "validCell gj c"
proof -
  define cov where "cov = (if get ''coverage_geojson'' = [] then None else Some (ValidateCoverageGeoJSON gj (get ''coverage_geojson'')))"
  note d = c [unfolded cellFrom_def Let_def prod.inject, folded cov_def]
  from d have e: "length (get ''mcc'') = 3" "digits (get ''mcc'')" "length (get ''mnc'') = 2 \<or> length (get ''mnc'') = 3" "digits (get ''mnc'')"
    "get ''geometry_quality'' \<in> set geometryQualities" by (auto simp: fieldIf_def split: if_splits)
  from d obtain l where l: "atoi (get ''mnc_length'') 2 3 = Some l" by (auto split: if_splits)
  from d e l have l2: "l = int (length (get ''mnc''))" by (auto split: if_splits)
  from d obtain eci enb loc where n: "atoi (get ''eci'') 0 268435455 = Some eci"
    "atoi (get ''enb_id'') 0 1048575 = Some enb" "atoi (get ''local_cell_id'') 0 255 = Some loc" by (auto split: if_splits)
  from d n have i: "(word_of_int eci :: u32) = or (push_bit 8 (word_of_int enb)) (ucast (word_of_int loc :: byte))"
    by (auto split: if_splits)
  from d have f: "floatField badLatitude (get ''latitude'') \<noteq> None" "floatField badLongitude (get ''longitude'') \<noteq> None"
    "floatField badRadius (get ''nominal_radius_m'') \<noteq> None" "floatField badAzimuth (get ''azimuth_deg'') \<noteq> None"
    "floatField badBeamwidth (get ''beamwidth_deg'') \<noteq> None" by (auto split: if_splits)
  from d have v: "case cov of Some (Inl _) \<Rightarrow> False | Some (Inr _) \<Rightarrow> True | None \<Rightarrow> \<not> needsPolygon (get ''geometry_quality'')"
    by (auto split: if_splits option.splits sum.splits)
  have w: "unat (word_of_int eci :: u32) \<le> 268435455" "unat (word_of_int enb :: u32) \<le> 1048575"
    using atoi_bounds [OF n(1)] atoi_bounds [OF n(2)] by (simp_all add: uint_of_int nat_le_iff)
  have covOK: "if (case cov of Some (Inr (canon, _)) \<Rightarrow> canon | _ \<Rightarrow> []) = [] then
      (case cov of Some (Inr (_, b)) \<Rightarrow> Some b | _ \<Rightarrow> None) = None \<and> \<not> needsPolygon (get ''geometry_quality'')
      else \<exists>b. (case cov of Some (Inr (_, b)) \<Rightarrow> Some b | _ \<Rightarrow> None) = Some b \<and>
        ValidateCoverageGeoJSON gj (case cov of Some (Inr (canon, _)) \<Rightarrow> canon | _ \<Rightarrow> []) =
          Inr (case cov of Some (Inr (canon, _)) \<Rightarrow> canon | _ \<Rightarrow> [], b)"
  proof (cases cov)
    case None
    then show ?thesis using v by simp
  next
    case (Some r)
    then obtain canon b where r: "r = Inr (canon, b)" using v by (cases r) auto
    with Some have "ValidateCoverageGeoJSON gj (get ''coverage_geojson'') = Inr (canon, b)" by (simp add: cov_def split: if_splits)
    from coverage_lemma [OF gj this] Some r show ?thesis by auto
  qed
  note good = f [THEN not_None_eq [THEN iffD1], THEN exE]
  have g: "goodField badLatitude (floatValue (floatField badLatitude (get ''latitude'')))"
    "goodField badLongitude (floatValue (floatField badLongitude (get ''longitude'')))"
    "goodField badRadius (floatValue (floatField badRadius (get ''nominal_radius_m'')))"
    "goodField badAzimuth (floatValue (floatField badAzimuth (get ''azimuth_deg'')))"
    "goodField badBeamwidth (floatValue (floatField badBeamwidth (get ''beamwidth_deg'')))"
    using f floatField_good by blast+
  from d [THEN conjunct1, symmetric] show ?thesis
    unfolding validCell_def using e l l2 n i w g covOK by (simp add: disj_commute)
qed

lemma cellFrom_zero: "cellFrom gj get = (c, errs) \<Longrightarrow> c_ID c = 0 \<and> c_CreatedAt c = zeroTime \<and> c_UpdatedAt c = zeroTime"
  by (auto simp: cellFrom_def Let_def)

section \<open>Writing a cell and reading it\<close>

text \<open>The text of a column of a cell.\<close>

definition cellField :: "LTECell \<Rightarrow> string \<Rightarrow> string" where
  "cellField c k = (case map_of (zip CSVColumns (cellToRow c)) k of Some v \<Rightarrow> v | None \<Rightarrow> [])"

lemma cellField_simps:
  "cellField c ''mcc'' = plmn_MCC (c_PLMN c)" "cellField c ''mnc'' = plmn_MNC (c_PLMN c)"
  "cellField c ''mnc_length'' = Itoa (plmn_MNCLength (c_PLMN c))"
  "cellField c ''eci'' = decimal (unat (c_ECI c))" "cellField c ''enb_id'' = decimal (unat (c_ENBID c))"
  "cellField c ''local_cell_id'' = Itoa (uint (c_LocalCellID c))" "cellField c ''tac'' = Itoa (uint (c_TAC c))"
  "cellField c ''cell_name'' = c_CellName c" "cellField c ''mme_name'' = c_MMEName c"
  "cellField c ''latitude'' = floatOrEmpty (c_Latitude c)" "cellField c ''longitude'' = floatOrEmpty (c_Longitude c)"
  "cellField c ''nominal_radius_m'' = floatOrEmpty (c_NominalRadiusM c)"
  "cellField c ''azimuth_deg'' = floatOrEmpty (c_AzimuthDeg c)"
  "cellField c ''beamwidth_deg'' = floatOrEmpty (c_BeamwidthDeg c)"
  "cellField c ''geometry_quality'' = c_GeometryQuality c" "cellField c ''source'' = c_Source c"
  "cellField c ''source_record_id'' = c_SourceRecordID c" "cellField c ''source_version'' = c_SourceVersion c"
  "cellField c ''active'' = FormatBool (c_Active c)" "cellField c ''coverage_geojson'' = c_CoverageGeoJSON c"
  by (simp_all add: cellField_def CSVColumns_def cellToRow_def)

lemma cellFrom_cong:
  assumes "\<And>k. k \<in> set CSVColumns \<Longrightarrow> g k = h k"
  shows "cellFrom gj g = cellFrom gj h"
proof -
  have eqs: "g ''mcc'' = h ''mcc''" "g ''mnc'' = h ''mnc''" "g ''mnc_length'' = h ''mnc_length''"
    "g ''eci'' = h ''eci''" "g ''enb_id'' = h ''enb_id''" "g ''local_cell_id'' = h ''local_cell_id''"
    "g ''tac'' = h ''tac''" "g ''cell_name'' = h ''cell_name''" "g ''mme_name'' = h ''mme_name''"
    "g ''latitude'' = h ''latitude''" "g ''longitude'' = h ''longitude''"
    "g ''nominal_radius_m'' = h ''nominal_radius_m''" "g ''azimuth_deg'' = h ''azimuth_deg''"
    "g ''beamwidth_deg'' = h ''beamwidth_deg''" "g ''geometry_quality'' = h ''geometry_quality''"
    "g ''source'' = h ''source''" "g ''source_record_id'' = h ''source_record_id''"
    "g ''source_version'' = h ''source_version''" "g ''active'' = h ''active''"
    "g ''coverage_geojson'' = h ''coverage_geojson''"
    by (rule assms, simp add: CSVColumns_def)+
  show ?thesis unfolding cellFrom_def eqs ..
qed

lemma Itoa_nat: "0 \<le> n \<Longrightarrow> Itoa n = decimal (nat n)"
  by (simp add: Itoa_def)

lemma FormatFloat_ne: "FormatFloat x \<noteq> []"
proof -
  have "formatPositive q \<noteq> []" for q
    by (auto simp: formatPositive_def formatE_def formatF_def exponentText_def Let_def zeros_def split: prod.split)
  then show ?thesis by (cases x) auto
qed

lemma ParseFloat_FormatFloat_all: "isFloat x \<Longrightarrow> ParseFloat (FormatFloat x) = Some x"
  using ParseFloat_FormatFloat [of x]
  by (cases x) (auto simp: finite64_def ParseFloat_def skipSign_def isNegative_def lowerText_def char_eval)

lemma floatField_row: "goodField bad v \<Longrightarrow> floatField bad (floatOrEmpty v) = Some v"
  by (auto simp: floatField_def floatOrEmpty_def goodField_def FormatFloat_ne ParseFloat_FormatFloat_all split: option.splits)

lemma cellFrom_cellField:
  assumes "validCell gj c"
  shows "cellFrom gj (cellField c) = (c\<lparr>c_ID := 0, c_CreatedAt := zeroTime, c_UpdatedAt := zeroTime\<rparr>, [])"
proof -
  have v: "length (plmn_MCC (c_PLMN c)) = 3" "digits (plmn_MCC (c_PLMN c))"
    "length (plmn_MNC (c_PLMN c)) = 2 \<or> length (plmn_MNC (c_PLMN c)) = 3" "digits (plmn_MNC (c_PLMN c))"
    "plmn_MNCLength (c_PLMN c) = int (length (plmn_MNC (c_PLMN c)))"
    "c_ECI c = or (push_bit 8 (c_ENBID c)) (ucast (c_LocalCellID c))"
    "c_GeometryQuality c \<in> set geometryQualities"
    using assms by (auto simp: validCell_def)
  have n: "atoi (Itoa (plmn_MNCLength (c_PLMN c))) 2 3 = Some (plmn_MNCLength (c_PLMN c))"
    using v(3,5) by (auto simp: Itoa_nat intro!: atoi_decimal)
  have e: "atoi (decimal (unat (c_ECI c))) 0 268435455 = Some (int (unat (c_ECI c)))"
    "atoi (decimal (unat (c_ENBID c))) 0 1048575 = Some (int (unat (c_ENBID c)))"
  proof -
    have u: "unat (c_ECI c) \<le> 268435455" "unat (c_ENBID c) \<le> 1048575" using assms unfolding validCell_def by blast+
    show "atoi (decimal (unat (c_ECI c))) 0 268435455 = Some (int (unat (c_ECI c)))"
      by (rule atoi_decimal, rule le_less_trans [OF u(1)]) (use u(1) in \<open>simp, simp, linarith\<close>)
    show "atoi (decimal (unat (c_ENBID c))) 0 1048575 = Some (int (unat (c_ENBID c)))"
      by (rule atoi_decimal, rule le_less_trans [OF u(2)]) (use u(2) in \<open>simp, simp, linarith\<close>)
  qed
  have small: "unat (c_LocalCellID c) < 2 ^ 63" "unat (c_TAC c) < 2 ^ 63"
    by (rule less_trans [OF unsigned_less], simp)+
  have l: "atoi (Itoa (uint (c_LocalCellID c))) 0 255 = Some (uint (c_LocalCellID c))"
    "atoi (Itoa (uint (c_TAC c))) 0 65535 = Some (uint (c_TAC c))"
    using atoi_decimal [of "nat (uint (c_LocalCellID c))" 0 255] atoi_decimal [of "nat (uint (c_TAC c))" 0 65535]
      uint_lt2p [of "c_LocalCellID c"] uint_lt2p [of "c_TAC c"] small by (simp_all add: Itoa_nat)
  have f: "floatField badLatitude (floatOrEmpty (c_Latitude c)) = Some (c_Latitude c)"
    "floatField badLongitude (floatOrEmpty (c_Longitude c)) = Some (c_Longitude c)"
    "floatField badRadius (floatOrEmpty (c_NominalRadiusM c)) = Some (c_NominalRadiusM c)"
    "floatField badAzimuth (floatOrEmpty (c_AzimuthDeg c)) = Some (c_AzimuthDeg c)"
    "floatField badBeamwidth (floatOrEmpty (c_BeamwidthDeg c)) = Some (c_BeamwidthDeg c)"
    using assms by (simp_all add: validCell_def floatField_row)
  have q: "c_GeometryQuality c \<noteq> []" using v(7) by (auto simp: geometryQualities_def)
  have p: "\<lparr>plmn_MCC = plmn_MCC (c_PLMN c), plmn_MNC = plmn_MNC (c_PLMN c), plmn_MNCLength = int (length (plmn_MNC (c_PLMN c)))\<rparr> = c_PLMN c"
    unfolding v(5) [symmetric] by simp
  have nb: "(length (plmn_MNC (c_PLMN c)) \<noteq> 2 \<and> length (plmn_MNC (c_PLMN c)) \<noteq> 3 \<or> \<not> digits (plmn_MNC (c_PLMN c))) = False"
    using v(3,4) by auto
  consider (no) "c_CoverageGeoJSON c = []" "c_Bounds c = None" "\<not> needsPolygon (c_GeometryQuality c)"
    | (some) b where "c_CoverageGeoJSON c \<noteq> []" "c_Bounds c = Some b"
        "ValidateCoverageGeoJSON gj (c_CoverageGeoJSON c) = Inr (c_CoverageGeoJSON c, b)"
    using assms by (auto simp: validCell_def split: if_splits)
  then show ?thesis
  proof cases
    case no
    then show ?thesis using v(1-4) q
      unfolding cellFrom_def Let_def cellField_simps n e l f nb
      by (simp add: v(5-7) p fieldIf_def floatValue_def)
  next
    case some
    then show ?thesis using v(1-4) q
      unfolding cellFrom_def Let_def cellField_simps n e l f nb
      by (simp add: v(5-7) p fieldIf_def floatValue_def)
  qed
qed

section \<open>Header and rows of an exported file\<close>

lemma TrimSpace_chars: "list_all (\<lambda>c. 33 \<le> (of_char c :: nat) \<and> of_char c < (128 :: nat)) s \<Longrightarrow> TrimSpace s = s"
proof (rule TrimSpace_id)
  fix r assume a: "list_all (\<lambda>c. 33 \<le> (of_char c :: nat) \<and> of_char c < (128 :: nat)) s" "r \<in> set (runes s)"
  then have "ascii s" by (auto simp: ascii_def list_all_iff)
  with a show "\<not> isSpace r" by (auto simp: runes_ascii list_all_iff isSpace_def)
qed

lemma lowerName_ToLower:
  assumes "list_all (\<lambda>c. 97 \<le> (of_char c :: nat) \<and> of_char c < (128 :: nat) \<or> c = CHR ''_'') s"
  shows "ToLower unicode (TrimSpace s) = s"
proof -
  have c: "97 \<le> (of_char c :: nat) \<and> of_char c < (128 :: nat) \<or> c = CHR ''_''" if "c \<in> set s" for c
    using assms that by (simp add: list_all_iff)
  have t: "TrimSpace s = s"
    by (rule TrimSpace_chars) (use c in \<open>fastforce simp: list_all_iff\<close>)
  have "ascii s" unfolding ascii_def
  proof
    fix d assume "d \<in> set s"
    from c [OF this] show "of_char d < (0x80 :: nat)" by (elim disjE) simp_all
  qed
  moreover have "map (\<lambda>c. case lowerASCII (of_char c) of Some d \<Rightarrow> d | None \<Rightarrow> c) s = s"
  proof (rule map_idI)
    fix c assume "c \<in> set s"
    from c [OF this] show "(case lowerASCII (of_char c) of Some d \<Rightarrow> d | None \<Rightarrow> c) = c"
    proof
      assume "97 \<le> (of_char c :: nat) \<and> of_char c < (128 :: nat)"
      then show ?thesis by (simp add: lowerASCII_def)
    qed (simp add: lowerASCII_def char_eval)
  qed
  ultimately show ?thesis by (simp add: t ToLower_def)
qed

lemma headerKeys_lower:
  "list_all (list_all (\<lambda>c. 97 \<le> (of_char c :: nat) \<and> of_char c < (128 :: nat) \<or> c = CHR ''_'')) cols \<Longrightarrow> headerKeys unicode cols = cols"
  unfolding headerKeys_def by (rule map_idI) (auto simp: list_all_iff intro!: lowerName_ToLower)

lemma duplicateHeaders_distinct: "distinct ks \<Longrightarrow> set seen \<inter> set ks = {} \<Longrightarrow> duplicateHeaders seen ks = []"
  by (induction ks arbitrary: seen) auto

lemma headerErrors_canonical: "distinct cols \<Longrightarrow> headerErrors cols cols = []"
  by (simp add: headerErrors_def duplicateHeaders_distinct)

lemma getField_column:
  assumes "distinct keys" "length row = length keys" "k \<in> set keys"
  shows "getField keys row k = TrimSpace (the (map_of (zip keys row) k))"
proof -
  obtain i where i: "i < length keys" "k = keys ! i" using assms(3) by (auto simp: in_set_conv_nth)
  have d: "distinct (map fst (rev (zip keys [0..<length keys])))" using assms(1) by (simp add: rev_map [symmetric])
  have "(k, i) \<in> set (rev (zip keys [0..<length keys]))" using i by (auto simp: in_set_zip)
  then have "columnOf keys k = i" using d by (simp add: columnOf_def)
  moreover have "map_of (zip keys row) k = Some (row ! i)"
    using assms(1,2) i by (simp add: map_of_zip_nth)
  ultimately show ?thesis by (simp add: getField_def)
qed

lemma canonicalHeader: "headerKeys unicode CSVColumns = CSVColumns" "distinct CSVColumns" "length CSVColumns = 20"
  by (rule headerKeys_lower) (simp_all add: CSVColumns_def)

definition trimmedCell :: "LTECell \<Rightarrow> bool" where
  "trimmedCell c \<longleftrightarrow> list_all (\<lambda>s. TrimSpace s = s) [c_CellName c, c_MMEName c, c_Source c, c_SourceRecordID c, c_SourceVersion c]"

lemma digits_trimmed: "digits s \<Longrightarrow> TrimSpace s = s"
  by (rule TrimSpace_id) (auto simp: digits_def list_all_iff isSpace_def)

lemma FormatFloat_trimmed: "TrimSpace (FormatFloat x) = FormatFloat x"
proof (cases "finite64 x")
  case True
  then have c: "list_all numberChar (FormatFloat x)" by (rule FormatFloat_chars)
  show ?thesis by (rule TrimSpace_chars) (use c in \<open>auto simp: list_all_iff numberChar_def isDigit_def\<close>)
next
  case False
  then show ?thesis by (intro TrimSpace_chars) (cases x, auto simp: finite64_def)
qed

lemma TrimSpace_Empty [simp]: "TrimSpace [] = []"
  by (simp add: TrimSpace_def trimEnds_def)

lemma floatOrEmpty_trimmed: "TrimSpace (floatOrEmpty v) = floatOrEmpty v"
  by (simp add: floatOrEmpty_def FormatFloat_trimmed split: option.split)

lemma cellToRow_trimmed:
  assumes "goodCodec gj" "validCell gj c" "trimmedCell c"
  shows "list_all (\<lambda>s. TrimSpace s = s) (cellToRow c)"
proof -
  have g: "TrimSpace (c_CoverageGeoJSON c) = c_CoverageGeoJSON c"
  proof (cases "c_CoverageGeoJSON c = []")
    case False
    then obtain b where "ValidateCoverageGeoJSON gj (c_CoverageGeoJSON c) = Inr (c_CoverageGeoJSON c, b)"
      using assms(2) by (auto simp: validCell_def)
    from coverage_lemma [OF assms(1) this] show ?thesis by auto
  qed simp
  have q: "TrimSpace (c_GeometryQuality c) = c_GeometryQuality c"
  proof -
    have "\<forall>s \<in> set geometryQualities. list_all (\<lambda>c. 33 \<le> (of_char c :: nat) \<and> of_char c < (128 :: nat)) s"
      by (simp add: geometryQualities_def)
    then show ?thesis using assms(2) TrimSpace_chars by (auto simp: validCell_def)
  qed
  have b: "TrimSpace (FormatBool (c_Active c)) = FormatBool (c_Active c)"
    by (rule TrimSpace_chars) (simp add: FormatBool_def)
  have "0 \<le> plmn_MNCLength (c_PLMN c)" using assms(2) by (simp add: validCell_def)
  then show ?thesis using assms(2,3) g q b
    by (simp add: cellToRow_def Itoa_nat floatOrEmpty_trimmed digits_trimmed validCell_def trimmedCell_def)
qed

lemma getField_cellToRow:
  assumes "goodCodec gj" "validCell gj c" "trimmedCell c" "k \<in> set CSVColumns"
  shows "getField CSVColumns (cellToRow c) k = cellField c k"
proof -
  have l: "length (cellToRow c) = length CSVColumns" by (simp add: cellToRow_def CSVColumns_def)
  obtain i where i: "i < length CSVColumns" "k = CSVColumns ! i" using assms(4) by (auto simp: in_set_conv_nth)
  have m: "map_of (zip CSVColumns (cellToRow c)) k = Some (cellToRow c ! i)"
    unfolding i(2) by (rule map_of_zip_nth) (use l i canonicalHeader in simp_all)
  have "TrimSpace (cellToRow c ! i) = cellToRow c ! i"
    using cellToRow_trimmed [OF assms(1-3)] i(1) l by (simp add: list_all_length)
  then show ?thesis by (simp add: getField_column [OF canonicalHeader(2) l assms(4)] cellField_def m)
qed

definition withoutIdentity :: "LTECell \<Rightarrow> LTECell" where
  "withoutIdentity c = c\<lparr>c_ID := 0, c_CreatedAt := zeroTime, c_UpdatedAt := zeroTime\<rparr>"

lemma export_import_lemma:
  assumes "goodCodec gj" "list_all (validCell gj) cells" "list_all trimmedCell cells" "distinct (map csvKey cells)"
  shows "ParseCSV gj unicode (Inr (CSVColumns # map cellToRow cells)) =
    \<lparr>pr_Items = map withoutIdentity cells, pr_Rows = length cells, pr_Errors = []\<rparr>"
proof -
  have "cellFrom gj (getField CSVColumns (cellToRow c)) = (withoutIdentity c, [])" if "c \<in> set cells" for c
  proof -
    have "cellFrom gj (getField CSVColumns (cellToRow c)) = cellFrom gj (cellField c)"
      by (rule cellFrom_cong) (use that assms getField_cellToRow in \<open>auto simp: list_all_iff\<close>)
    also have "\<dots> = (withoutIdentity c, [])"
      using cellFrom_cellField that assms(2) by (auto simp: list_all_iff withoutIdentity_def)
    finally show ?thesis .
  qed
  note c = this
  have "length (cellToRow c) = length CSVColumns" for c by (simp add: cellToRow_def CSVColumns_def)
  moreover have "(row, x) \<in> set (zip (map cellToRow cells) (map withoutIdentity cells)) \<Longrightarrow>
      \<exists>c \<in> set cells. row = cellToRow c \<and> x = withoutIdentity c" for row x
    by (auto simp: set_zip)
  ultimately have rows: "length row = length CSVColumns \<and> cellFrom gj (getField (headerKeys unicode CSVColumns) row) = (x, [])"
    if "(row, x) \<in> set (zip (map cellToRow cells) (map withoutIdentity cells))" for row x
    unfolding canonicalHeader(1) using c that by blast
  have k: "distinct (map csvKey (map withoutIdentity cells))"
    using assms(4) by (simp add: csvKey_def [abs_def] withoutIdentity_def comp_def)
  have h: "headerErrors CSVColumns (headerKeys unicode CSVColumns) = []"
    unfolding canonicalHeader(1) by (rule headerErrors_canonical [OF canonicalHeader(2)])
  have "length (map cellToRow cells) = length (map withoutIdentity cells)" by simp
  from parseTable_total [OF h rows this k] show ?thesis by (simp add: ParseCSV_def)
qed

section \<open>Entering a cell\<close>

definition floatInput :: "CreateCellInput \<Rightarrow> bool" where
  "floatInput i \<longleftrightarrow> list_all (\<lambda>v. case v of None \<Rightarrow> True | Some x \<Rightarrow> isFloat x)
     [in_Latitude i, in_Longitude i, in_NominalRadiusM i, in_AzimuthDeg i, in_BeamwidthDeg i]"

definition enteredECI :: "CreateCellInput \<Rightarrow> u32" where
  "enteredECI i = or (push_bit 8 (in_ENBID i)) (ucast (in_LocalCellID i))"

lemma newCellField_simps:
  "newCellField i ''mcc'' = plmn_MCC (in_PLMN i)" "newCellField i ''mnc'' = plmn_MNC (in_PLMN i)"
  "newCellField i ''mnc_length'' = Itoa (plmn_MNCLength (in_PLMN i))"
  "newCellField i ''eci'' = decimal (unat (enteredECI i))" "newCellField i ''enb_id'' = decimal (unat (in_ENBID i))"
  "newCellField i ''local_cell_id'' = Itoa (uint (in_LocalCellID i))" "newCellField i ''tac'' = Itoa (uint (in_TAC i))"
  "newCellField i ''cell_name'' = in_CellName i" "newCellField i ''mme_name'' = in_MMEName i"
  "newCellField i ''latitude'' = floatOrEmpty (in_Latitude i)" "newCellField i ''longitude'' = floatOrEmpty (in_Longitude i)"
  "newCellField i ''nominal_radius_m'' = floatOrEmpty (in_NominalRadiusM i)"
  "newCellField i ''azimuth_deg'' = floatOrEmpty (in_AzimuthDeg i)"
  "newCellField i ''beamwidth_deg'' = floatOrEmpty (in_BeamwidthDeg i)"
  "newCellField i ''geometry_quality'' = in_GeometryQuality i" "newCellField i ''source'' = in_Source i"
  "newCellField i ''source_record_id'' = in_SourceRecordID i" "newCellField i ''source_version'' = in_SourceVersion i"
  "newCellField i ''active'' = FormatBool (in_Active i)" "newCellField i ''coverage_geojson'' = in_CoverageGeoJSON i"
  by (simp_all add: newCellField_def enteredECI_def)

lemma Atoi_Itoa_nat: "n < 2 ^ 63 \<Longrightarrow> Atoi (Itoa (int n)) = Some (int n)"
  by (simp add: Itoa_nat Atoi_decimal)

lemma Atoi_negative: "atoi (CHR ''-'' # decimal n) 2 3 = None"
  by (auto simp: atoi_def Atoi_def split: option.splits if_splits)

lemma atoi_Itoa: "atoi (Itoa n) 2 3 = Some v \<Longrightarrow> v = n"
proof (cases "n < 0")
  case True
  then have "atoi (Itoa n) 2 3 = None" unfolding Itoa_def by (simp add: Atoi_negative)
  then show "atoi (Itoa n) 2 3 = Some v \<Longrightarrow> v = n" by simp
next
  case False
  have p: "parseUint10 64 (decimal m) = Some k \<Longrightarrow> k = m" for m k
  proof -
    have big: "parseDigits b0 10 mx 0 (decimal m) = Some k \<Longrightarrow> k = m" for b0 mx
    proof (induction m arbitrary: k rule: less_induct)
      case (less m)
      have d: "digitOf (char_of (48 + m mod 10)) = Some (m mod 10)" by (rule digitOf_char_of) simp
      have u: "(char_of (48 + m mod 10) :: char) \<noteq> CHR ''_''" by (rule isDigit_neq [OF isDigit_char_of]) simp
      show ?case
      proof (cases "m < 10")
        case True
        then have e: "decimal m = [char_of (48 + m mod 10)]" by (subst decimal_rec) simp
        show ?thesis using less.prems True unfolding e by (simp only: parseDigits.simps u d) (simp split: if_splits)
      next
        case False
        then have e: "decimal m = decimal (m div 10) @ [char_of (48 + m mod 10)]" by (subst decimal_rec) simp
        from less.prems obtain j where j: "parseDigits b0 10 mx 0 (decimal (m div 10)) = Some j"
          "parseDigits b0 10 mx j [char_of (48 + m mod 10)] = Some k"
          unfolding e parseDigits_append by (auto split: option.splits)
        have "k = j * 10 + m mod 10" using j(2) unfolding parseDigits.simps d using u by (simp split: if_splits)
        moreover have "j = m div 10" using less.IH [of "m div 10" j] j(1) False by simp
        ultimately show ?thesis by simp
      qed
    qed
    then show "parseUint10 64 (decimal m) = Some k \<Longrightarrow> k = m" by (auto simp: parseUint10_def split: if_splits)
  qed
  assume "atoi (Itoa n) 2 3 = Some v"
  then obtain k where "parseUint10 64 (decimal (nat n)) = Some k" "v = int k"
    using False skipSign_decimal [of "nat n"]
    by (auto simp: Itoa_nat atoi_def Atoi_def Let_def split: option.splits if_splits)
  with p [of "nat n" k] False show "v = n" by simp
qed

lemma floatField_input:
  "(case v of None \<Rightarrow> True | Some x \<Rightarrow> isFloat x) \<Longrightarrow>
   floatField bad (floatOrEmpty v) \<noteq> None \<Longrightarrow> floatValue (floatField bad (floatOrEmpty v)) = v"
  by (auto simp: floatField_def floatOrEmpty_def floatValue_def FormatFloat_ne ParseFloat_FormatFloat_all split: option.splits if_splits)

lemma atoi_word: "atoi (decimal (unat w)) lo hi = Some v \<Longrightarrow> v = int (unat (w :: u32))"
proof -
  have "unat w < 2 ^ 63" by (rule less_trans [OF unsigned_less]) simp
  then show "atoi (decimal (unat w)) lo hi = Some v \<Longrightarrow> v = int (unat w)"
    by (simp add: atoi_def Atoi_decimal split: if_splits)
qed

lemma fieldIf_mem: "x \<in> set (fieldIf b c e) \<longleftrightarrow> b \<and> x = \<lparr>fe_Column = c, fe_Code = e\<rparr>"
  by (auto simp: fieldIf_def)

lemma mismatch_condition:
  assumes "cellFrom gj get = (c, errs)" "\<lparr>fe_Column = ''eci'', fe_Code = ''eci_identity_mismatch''\<rparr> \<in> set errs"
  shows "\<exists>eci enb loc. atoi (get ''eci'') 0 268435455 = Some eci \<and> atoi (get ''enb_id'') 0 1048575 = Some enb \<and>
    atoi (get ''local_cell_id'') 0 255 = Some loc \<and>
    (word_of_int eci :: u32) \<noteq> or (push_bit 8 (word_of_int enb)) (ucast (word_of_int loc :: byte))"
proof -
  have q: "x \<in> set (if quality = [] then fieldIf True a b else fieldIf d a' b') \<Longrightarrow> x = \<lparr>fe_Column = a, fe_Code = b\<rparr> \<or>
    x = \<lparr>fe_Column = a', fe_Code = b'\<rparr>" for x a b a' b' d and quality :: string
    by (simp add: fieldIf_def split: if_splits)
  have k: "x \<in> set (case cov of Some (Inl _) \<Rightarrow> fieldIf True a b | Some (Inr _) \<Rightarrow> [] | None \<Rightarrow> fieldIf d a b') \<Longrightarrow>
    x = \<lparr>fe_Column = a, fe_Code = b\<rparr> \<or> x = \<lparr>fe_Column = a, fe_Code = b'\<rparr>" for x a b b' d and cov :: "('x + 'y) option"
    by (auto simp: fieldIf_def split: option.splits sum.splits if_splits)
  note d = assms(1) [unfolded cellFrom_def Let_def prod.inject, THEN conjunct2, symmetric]
  have "atoi (get ''eci'') 0 268435455 \<noteq> None \<and> atoi (get ''enb_id'') 0 1048575 \<noteq> None \<and>
    atoi (get ''local_cell_id'') 0 255 \<noteq> None \<and>
    (word_of_int (case atoi (get ''eci'') 0 268435455 of None \<Rightarrow> 0 | Some n \<Rightarrow> n) :: u32) \<noteq>
      or (push_bit 8 (word_of_int (case atoi (get ''enb_id'') 0 1048575 of None \<Rightarrow> 0 | Some n \<Rightarrow> n)))
        (ucast (word_of_int (case atoi (get ''local_cell_id'') 0 255 of None \<Rightarrow> 0 | Some n \<Rightarrow> n) :: byte))"
    using assms(2) unfolding d set_append Un_iff fieldIf_mem
    by (elim disjE) (simp_all, (drule q k, simp)+)
  then show ?thesis by auto
qed

lemma entered_no_mismatch:
  assumes "validateNewCell gj i = (c, errs)"
  shows "\<lparr>fe_Column = ''eci'', fe_Code = ''eci_identity_mismatch''\<rparr> \<notin> set errs"
proof -
  have "word_of_int v = w" if "atoi (decimal (unat w)) lo hi = Some v" for v lo hi and w :: u32
    using atoi_word [OF that] by simp
  moreover have "(word_of_int v :: byte) = in_LocalCellID i" if "atoi (Itoa (uint (in_LocalCellID i))) 0 255 = Some v" for v
  proof -
    have "unat (in_LocalCellID i) < 2 ^ 63" by (rule less_trans [OF unsigned_less]) simp
    then have "Atoi (Itoa (int (unat (in_LocalCellID i)))) = Some (int (unat (in_LocalCellID i)))" by (rule Atoi_Itoa_nat)
    with that have "v = uint (in_LocalCellID i)" by (auto simp: atoi_def split: if_splits option.splits)
    then show ?thesis by simp
  qed
  ultimately show ?thesis
    using mismatch_condition [of gj "newCellField i" c errs] assms
    by (auto simp: validateNewCell_def newCellField_simps) (metis enteredECI_def)
qed

lemma created_lemma:
  assumes "goodCodec gj" "floatInput i" "validateNewCell gj i = (c, [])"
  shows "validCell gj c \<and> c_PLMN c = in_PLMN i \<and> c_ECI c = enteredECI i \<and> c_ENBID c = in_ENBID i \<and>
    c_LocalCellID c = in_LocalCellID i \<and> c_TAC c = in_TAC i \<and> c_CellName c = in_CellName i \<and> c_MMEName c = in_MMEName i \<and>
    c_Latitude c = in_Latitude i \<and> c_Longitude c = in_Longitude i \<and> c_NominalRadiusM c = in_NominalRadiusM i \<and>
    c_AzimuthDeg c = in_AzimuthDeg i \<and> c_BeamwidthDeg c = in_BeamwidthDeg i \<and>
    c_GeometryQuality c = in_GeometryQuality i \<and> c_Active c = in_Active i \<and> c_ID c = 0"
proof -
  note c = assms(3) [unfolded validateNewCell_def]
  have v: "validCell gj c" by (rule cellFrom_valid [OF assms(1) c])
  note z = cellFrom_zero [OF c]
  note d = c [unfolded cellFrom_def Let_def prod.inject newCellField_simps]
  from d have nb: "length (plmn_MCC (in_PLMN i)) = 3" "digits (plmn_MCC (in_PLMN i))"
    "length (plmn_MNC (in_PLMN i)) = 2 \<or> length (plmn_MNC (in_PLMN i)) = 3" "digits (plmn_MNC (in_PLMN i))"
    by (auto split: if_splits)
  from d obtain l eci enb loc tac where n: "atoi (Itoa (plmn_MNCLength (in_PLMN i))) 2 3 = Some l"
    "atoi (decimal (unat (enteredECI i))) 0 268435455 = Some eci" "atoi (decimal (unat (in_ENBID i))) 0 1048575 = Some enb"
    "atoi (Itoa (uint (in_LocalCellID i))) 0 255 = Some loc" "atoi (Itoa (uint (in_TAC i))) 0 65535 = Some tac"
    by (auto split: if_splits)
  have loc: "loc = uint (in_LocalCellID i)" "tac = uint (in_TAC i)"
  proof -
    have "unat (in_LocalCellID i) < 2 ^ 63" "unat (in_TAC i) < 2 ^ 63" by (rule less_trans [OF unsigned_less], simp)+
    then have "Atoi (Itoa (int (unat (in_LocalCellID i)))) = Some (int (unat (in_LocalCellID i)))"
      "Atoi (Itoa (int (unat (in_TAC i)))) = Some (int (unat (in_TAC i)))" by (blast intro: Atoi_Itoa_nat)+
    with n(4,5) show "loc = uint (in_LocalCellID i)" "tac = uint (in_TAC i)"
      by (auto simp: atoi_def split: if_splits option.splits)
  qed
  from d have f: "floatField badLatitude (floatOrEmpty (in_Latitude i)) \<noteq> None" "floatField badLongitude (floatOrEmpty (in_Longitude i)) \<noteq> None"
    "floatField badRadius (floatOrEmpty (in_NominalRadiusM i)) \<noteq> None" "floatField badAzimuth (floatOrEmpty (in_AzimuthDeg i)) \<noteq> None"
    "floatField badBeamwidth (floatOrEmpty (in_BeamwidthDeg i)) \<noteq> None" by (auto split: if_splits)
  have g: "floatValue (floatField badLatitude (floatOrEmpty (in_Latitude i))) = in_Latitude i"
    "floatValue (floatField badLongitude (floatOrEmpty (in_Longitude i))) = in_Longitude i"
    "floatValue (floatField badRadius (floatOrEmpty (in_NominalRadiusM i))) = in_NominalRadiusM i"
    "floatValue (floatField badAzimuth (floatOrEmpty (in_AzimuthDeg i))) = in_AzimuthDeg i"
    "floatValue (floatField badBeamwidth (floatOrEmpty (in_BeamwidthDeg i))) = in_BeamwidthDeg i"
    using assms(2) f by (auto simp: floatInput_def intro!: floatField_input)
  have w: "l = plmn_MNCLength (in_PLMN i)" "word_of_int eci = enteredECI i" "word_of_int enb = in_ENBID i"
    using atoi_Itoa [OF n(1)] atoi_word [OF n(2)] atoi_word [OF n(3)] by simp_all
  have p: "c_PLMN c = in_PLMN i \<and> c_ECI c = enteredECI i \<and> c_ENBID c = in_ENBID i \<and>
    c_LocalCellID c = in_LocalCellID i \<and> c_TAC c = in_TAC i \<and> c_CellName c = in_CellName i \<and> c_MMEName c = in_MMEName i \<and>
    c_Latitude c = in_Latitude i \<and> c_Longitude c = in_Longitude i \<and> c_NominalRadiusM c = in_NominalRadiusM i \<and>
    c_AzimuthDeg c = in_AzimuthDeg i \<and> c_BeamwidthDeg c = in_BeamwidthDeg i \<and>
    c_GeometryQuality c = in_GeometryQuality i \<and> c_Active c = in_Active i"
    unfolding d [THEN conjunct1, symmetric] using n nb loc w g by auto
  then show ?thesis using v z by blast
qed

section \<open>Properties\<close>



text \<open>A cell entered by hand goes through the text of the columns and comes out as it was entered:
  it is never refused because the ECI does not match its eNB and local cell identities, and when it
  is accepted it is a valid cell with exactly the entered values and the ECI made of them.\<close>

theorem entered_cell_exact:
  assumes "goodCodec gj" "floatInput i" "validateNewCell gj i = (c, errs)"
  shows "\<lparr>fe_Column = ''eci'', fe_Code = ''eci_identity_mismatch''\<rparr> \<notin> set errs \<and>
    (errs = [] \<longrightarrow> validCell gj c \<and> c_PLMN c = in_PLMN i \<and> c_ECI c = enteredECI i \<and> c_ENBID c = in_ENBID i \<and>
      c_LocalCellID c = in_LocalCellID i \<and> c_TAC c = in_TAC i \<and> c_MMEName c = in_MMEName i \<and>
      c_Latitude c = in_Latitude i \<and> c_Longitude c = in_Longitude i \<and> c_NominalRadiusM c = in_NominalRadiusM i \<and>
      c_AzimuthDeg c = in_AzimuthDeg i \<and> c_BeamwidthDeg c = in_BeamwidthDeg i \<and> c_Active c = in_Active i)"
  using entered_no_mismatch [OF assms(3)] created_lemma [OF assms(1,2)] assms(3) by blast

section \<open>Witnesses\<close>

definition siteCell :: "u32 \<Rightarrow> byte \<Rightarrow> rat \<Rightarrow> rat \<Rightarrow> string \<Rightarrow> LTECell" where
  "siteCell enb loc lon lat mme = zeroCell\<lparr>c_PLMN := \<lparr>plmn_MCC = ''311'', plmn_MNC = ''435'', plmn_MNCLength = 3\<rparr>,
     c_ECI := or (push_bit 8 enb) (ucast loc), c_ENBID := enb, c_LocalCellID := loc, c_TAC := 7, c_MMEName := mme,
     c_Latitude := Some (Finite lat), c_Longitude := Some (Finite lon), c_GeometryQuality := ''site_point'', c_Active := True\<rparr>"

definition areaCell :: "u32 \<Rightarrow> byte \<Rightarrow> rat \<Rightarrow> rat \<Rightarrow> rat \<Rightarrow> string \<Rightarrow> LTECell" where
  "areaCell enb loc lon lat d mme = (siteCell enb loc lon lat mme)\<lparr>c_GeometryQuality := ''engineered_polygon'',
     c_CoverageGeoJSON := gj_textPolygon sampleCodec (ringsToCoords [squareRing lon lat d]),
     c_Bounds := Some (BoundsOf (squareGeometry lon lat d))\<rparr>"

lemma sampleDigits: "digits ''311''" "digits ''435''"
  by (simp_all add: digits_isDigit isDigit_def)

lemma siteCell_valid:
  assumes "isFloat (Finite lat)" "isFloat (Finite lon)" "- 90 \<le> lat" "lat \<le> 90" "- 180 \<le> lon" "lon \<le> 180"
    and "unat (or (push_bit 8 enb) (ucast loc) :: u32) \<le> 268435455" "unat enb \<le> 1048575"
  shows "validCell gj (siteCell enb loc lon lat mme)"
  using assms by (simp add: validCell_def siteCell_def zeroCell_def sampleDigits geometryQualities_def goodField_def
      badLatitude_def badLongitude_def needsPolygon_def not_less)

lemma areaCell_valid:
  assumes "validCell sampleCodec (siteCell enb loc lon lat mme)"
    and "list_all (\<lambda>c. isFloat (Finite c)) [lon, lat, lon + d, lat + d]" "0 < d"
    and "- 180 \<le> lon" "lon + d \<le> 180" "- 90 \<le> lat" "lat + d \<le> 90"
  shows "validCell sampleCodec (areaCell enb loc lon lat d mme)"
proof -
  from coverage_lemma [OF sampleCodec_good ValidateCoverage_square [OF assms(2-7)]]
  show ?thesis using assms(1) by (auto simp: validCell_def areaCell_def siteCell_def zeroCell_def geometryQualities_def)
qed

definition sampleCells :: "LTECell list" where
  "sampleCells = [areaCell 1 2 10 20 5 ''mme1'', siteCell 1 3 11 21 ''mme2'', siteCell 2 1 100 20 ''mme1'']"

lemma sampleCells_valid: "list_all (validCell sampleCodec) sampleCells"
  unfolding sampleCells_def list.pred_inject
  by (intro conjI areaCell_valid siteCell_valid) simp_all

lemma sampleCells_trimmed: "list_all trimmedCell sampleCells"
proof -
  have "TrimSpace ''mme1'' = ''mme1''" "TrimSpace ''mme2'' = ''mme2''" by (rule TrimSpace_chars, simp)+
  then show ?thesis by (simp add: sampleCells_def trimmedCell_def areaCell_def siteCell_def zeroCell_def)
qed

lemma sampleCells_keys: "distinct (map csvKey sampleCells)"
proof -
  have "distinct (map (\<lambda>c. unat (c_ECI c)) sampleCells)"
    by (simp add: sampleCells_def areaCell_def siteCell_def zeroCell_def)
  moreover have "inj_on (\<lambda>n. ''311'' @ ''-'' @ ''435'' @ ''-'' @ Itoa 3 @ ''-'' @ decimal n) UNIV"
    using digitsVal_decimal by (intro injI) (metis same_append_eq)
  moreover have "map csvKey sampleCells = map (\<lambda>n. ''311'' @ ''-'' @ ''435'' @ ''-'' @ Itoa 3 @ ''-'' @ decimal n) (map (\<lambda>c. unat (c_ECI c)) sampleCells)"
    by (simp add: sampleCells_def csvKey_def areaCell_def siteCell_def zeroCell_def)
  ultimately show ?thesis by (metis (no_types, lifting) distinct_map inj_on_subset subset_UNIV)
qed



definition sampleInput :: CreateCellInput where
  "sampleInput = \<lparr>in_PLMN = \<lparr>plmn_MCC = ''311'', plmn_MNC = ''435'', plmn_MNCLength = 3\<rparr>, in_ENBID = 1, in_LocalCellID = 3,
     in_TAC = 7, in_CellName = [], in_MMEName = ''mme2'', in_Latitude = Some (Finite 21), in_Longitude = Some (Finite 11),
     in_NominalRadiusM = None, in_AzimuthDeg = None, in_BeamwidthDeg = None, in_CoverageGeoJSON = [],
     in_GeometryQuality = ''site_point'', in_Source = [], in_SourceRecordID = [], in_SourceVersion = [], in_Active = True\<rparr>"

lemma sampleInput_valid: "validateNewCell gj sampleInput = (siteCell 1 3 11 21 ''mme2'', [])"
proof -
  have "validCell gj (siteCell 1 3 11 21 ''mme2'')" by (rule siteCell_valid) simp_all
  from cellFrom_cellField [OF this] have "cellFrom gj (cellField (siteCell 1 3 11 21 ''mme2'')) = (siteCell 1 3 11 21 ''mme2'', [])"
    by (simp add: siteCell_def zeroCell_def)
  moreover have "cellFrom gj (newCellField sampleInput) = cellFrom gj (cellField (siteCell 1 3 11 21 ''mme2''))"
    by (rule cellFrom_cong) (auto simp: CSVColumns_def cellField_simps newCellField_simps sampleInput_def siteCell_def zeroCell_def enteredECI_def)
  ultimately show ?thesis by (simp add: validateNewCell_def)
qed

theorem entered_cell_exact_witness:
  "\<exists>c. validateNewCell sampleCodec sampleInput = (c, []) \<and> validCell sampleCodec c \<and> c_ECI c = 259"
proof -
  have "floatInput sampleInput" by (simp add: floatInput_def sampleInput_def)
  from entered_cell_exact [OF sampleCodec_good this sampleInput_valid] sampleInput_valid show ?thesis
    by (auto simp: siteCell_def)
qed

end
