(* ===== verification/Inventory_Store.thy ===== *)
theory Inventory_Store
  imports Store_Sqlite Inventory_Csv
begin

text \<open>
  \<open>internal/storage/sqlite/inventory.go\<close>: the tables of the cell inventory. As in \<open>Store_Sqlite\<close>, a
  table is the list of its rows in insertion order, a statement is a function on it, a NULL is
  \<open>None\<close>, and each statement outside a transaction takes the failure the driver may report. A
  REAL column cannot hold NaN: SQLite stores NULL instead. The identifiers that \<open>NewID\<close> draws are
  arguments. Foreign keys are declared but not enforced: the connection string sets
  \<open>_foreign_keys\<close>, which the driver in use does not know.
\<close>

section \<open>Tables\<close>

record CellRow =
  cl_id :: int
  cl_plmn :: InventoryPLMN   \<comment> \<open>the columns mcc, mnc and mnc_length\<close>
  cl_eci :: u32
  cl_enb :: u32
  cl_local :: byte
  cl_tac :: u16
  cl_name :: string
  cl_mme :: string
  cl_lat :: "float64 option"
  cl_lon :: "float64 option"
  cl_radius :: "float64 option"
  cl_azimuth :: "float64 option"
  cl_beam :: "float64 option"
  cl_geojson :: "string option"
  cl_minlat :: "float64 option"
  cl_minlon :: "float64 option"
  cl_maxlat :: "float64 option"
  cl_maxlon :: "float64 option"
  cl_quality :: string
  cl_source :: string
  cl_srcid :: string
  cl_srcver :: string
  cl_active :: bool
  cl_created :: string
  cl_updated :: string

record ImportRow =
  ir_id :: string
  ir_version :: "string option"
  ir_filename :: string
  ir_sha :: string
  ir_mode :: string
  ir_status :: string
  ir_received :: int
  ir_valid :: int
  ir_rejected :: int
  ir_inserted :: int
  ir_updated :: int
  ir_deactivated :: int
  ir_warnings :: int
  ir_created :: string
  ir_completed :: "string option"

record ErrorRow =
  er_import :: string
  er_row :: "int option"
  er_column :: "string option"
  er_code :: string

record VersionRow =
  vr_id :: string
  vr_name :: string
  vr_filename :: string
  vr_sha :: string
  vr_mode :: string
  vr_count :: int
  vr_status :: string
  vr_created :: string

record GeocodeRow =
  gr_id :: int
  gr_cell :: int
  gr_type :: string
  gr_code :: string
  gr_created :: string

record CodeRow =
  cr_id :: int
  cr_type :: string
  cr_code :: string
  cr_description :: string
  cr_created :: string

text \<open>The \<open>Seq\<close> fields are the AUTOINCREMENT counters.\<close>

record InventoryDB =
  iv_cells :: "CellRow list"
  iv_cellSeq :: int
  iv_imports :: "ImportRow list"
  iv_errors :: "ErrorRow list"
  iv_versions :: "VersionRow list"
  iv_geocodes :: "GeocodeRow list"
  iv_geoSeq :: int
  iv_codes :: "CodeRow list"
  iv_codeSeq :: int

definition emptyInventory :: InventoryDB where
  "emptyInventory = \<lparr>iv_cells = [], iv_cellSeq = 0, iv_imports = [], iv_errors = [], iv_versions = [], iv_geocodes = [],
     iv_geoSeq = 0, iv_codes = [], iv_codeSeq = 0\<rparr>"

datatype inventory_error =
    InvStore store_error
  | UniqueViolation
  | InvalidApplyMode string
  | CellAlreadyExists
  | CellNotFound
  | CellHasGeocodes

definition driver :: "fault \<Rightarrow> inventory_error + 'a \<Rightarrow> inventory_error + 'a" where
  "driver f m = (case f of Some e \<Rightarrow> Inl (InvStore (SqlError e)) | None \<Rightarrow> m)"

lemma driver_simps [simp]: "driver None m = m" "driver (Some e) m = Inl (InvStore (SqlError e))"
  by (simp_all add: driver_def)

lemma driver_Inr: "driver f m = Inr v \<longleftrightarrow> f = None \<and> m = Inr v"
  by (cases f) auto

section \<open>Rows and cells\<close>

definition cellKey :: "InventoryPLMN \<Rightarrow> u32 \<Rightarrow> string" where
  "cellKey p eci = plmn_MCC p @ ''/'' @ plmn_MNC p @ ''/'' @ Itoa (plmn_MNCLength p) @ ''/'' @ decimal (unat eci)"

text \<open>The columns of the UNIQUE constraint.\<close>

definition rowKey :: "CellRow \<Rightarrow> InventoryPLMN \<times> u32" where
  "rowKey r = (cl_plmn r, cl_eci r)"

definition bindReal :: "float64 option \<Rightarrow> float64 option" where
  "bindReal v = (if v = Some NaN then None else v)"

text \<open>The values of an INSERT; both time stamps are the time of the statement.\<close>

definition cellRow :: "int \<Rightarrow> string \<Rightarrow> LTECell \<Rightarrow> CellRow" where
  "cellRow i now c =
     \<lparr>cl_id = i, cl_plmn = c_PLMN c, cl_eci = c_ECI c, cl_enb = c_ENBID c, cl_local = c_LocalCellID c, cl_tac = c_TAC c,
      cl_name = c_CellName c, cl_mme = c_MMEName c,
      cl_lat = bindReal (c_Latitude c), cl_lon = bindReal (c_Longitude c), cl_radius = bindReal (c_NominalRadiusM c),
      cl_azimuth = bindReal (c_AzimuthDeg c), cl_beam = bindReal (c_BeamwidthDeg c),
      cl_geojson = (if c_CoverageGeoJSON c = [] then None else Some (c_CoverageGeoJSON c)),
      cl_minlat = bindReal (map_option MinLatitude (c_Bounds c)), cl_minlon = bindReal (map_option MinLongitude (c_Bounds c)),
      cl_maxlat = bindReal (map_option MaxLatitude (c_Bounds c)), cl_maxlon = bindReal (map_option MaxLongitude (c_Bounds c)),
      cl_quality = c_GeometryQuality c, cl_source = c_Source c, cl_srcid = c_SourceRecordID c, cl_srcver = c_SourceVersion c,
      cl_active = c_Active c, cl_created = now, cl_updated = now\<rparr>"

definition scanCell :: "CellRow \<Rightarrow> inventory_error + LTECell" where
  "scanCell r =
     (case parseRFC3339 (cl_created r) of
        None \<Rightarrow> Inl (InvStore (BadStoredTime (cl_created r)))
      | Some created \<Rightarrow>
        (case parseRFC3339 (cl_updated r) of
           None \<Rightarrow> Inl (InvStore (BadStoredTime (cl_updated r)))
         | Some updated \<Rightarrow> Inr
             \<lparr>c_ID = cl_id r, c_PLMN = cl_plmn r, c_ECI = cl_eci r, c_ENBID = cl_enb r, c_LocalCellID = cl_local r,
              c_TAC = cl_tac r, c_CellName = cl_name r, c_MMEName = cl_mme r, c_Latitude = cl_lat r, c_Longitude = cl_lon r,
              c_NominalRadiusM = cl_radius r, c_AzimuthDeg = cl_azimuth r, c_BeamwidthDeg = cl_beam r,
              c_CoverageGeoJSON = (case cl_geojson r of None \<Rightarrow> [] | Some s \<Rightarrow> s),
              c_Bounds = (case (cl_minlat r, cl_minlon r, cl_maxlat r, cl_maxlon r) of
                 (Some a, Some b, Some c, Some d) \<Rightarrow>
                   Some \<lparr>MinLatitude = a, MinLongitude = b, MaxLatitude = c, MaxLongitude = d\<rparr>
               | _ \<Rightarrow> None),
              c_GeometryQuality = cl_quality r, c_Source = cl_source r, c_SourceRecordID = cl_srcid r,
              c_SourceVersion = cl_srcver r, c_Active = cl_active r, c_CreatedAt = created, c_UpdatedAt = updated\<rparr>))"

definition cellMatches :: "CellFilter \<Rightarrow> CellRow \<Rightarrow> bool" where
  "cellMatches f r \<longleftrightarrow>
     (case f_Active f of None \<Rightarrow> True | Some b \<Rightarrow> cl_active r = b) \<and>
     (f_MCC f = [] \<or> plmn_MCC (cl_plmn r) = f_MCC f) \<and>
     (f_MNC f = [] \<or> plmn_MNC (cl_plmn r) = f_MNC f) \<and>
     (case f_TAC f of None \<Rightarrow> True | Some t \<Rightarrow> cl_tac r = t) \<and>
     (f_MMEName f = [] \<or> cl_mme r = f_MMEName f) \<and>
     (case f_ENBID f of None \<Rightarrow> True | Some e \<Rightarrow> cl_enb r = e) \<and>
     (case f_ECI f of None \<Rightarrow> True | Some e \<Rightarrow> cl_eci r = e)"

section \<open>Imports\<close>

definition CreateImport :: "fault \<Rightarrow> InventoryImport \<Rightarrow> InventoryDB \<Rightarrow> inventory_error + InventoryDB" where
  "CreateImport f imp db =
     driver f (failIf (im_ID imp \<in> set (map ir_id (iv_imports db))) UniqueViolation (
     Inr (db\<lparr>iv_imports := iv_imports db @
       [\<lparr>ir_id = im_ID imp,
         ir_version = (if im_InventoryVersionID imp = [] then None else Some (im_InventoryVersionID imp)),
         ir_filename = im_SourceFilename imp, ir_sha = im_SourceSHA256 imp, ir_mode = im_Mode imp, ir_status = im_Status imp,
         ir_received = im_RowsReceived imp, ir_valid = im_RowsValid imp, ir_rejected = im_RowsRejected imp,
         ir_inserted = im_InsertedCount imp, ir_updated = im_UpdatedCount imp, ir_deactivated = im_DeactivatedCount imp,
         ir_warnings = im_WarningCount imp, ir_created = formatRFC3339Nano (UTC (im_CreatedAt imp)),
         ir_completed = map_option (\<lambda>t. formatRFC3339Nano (UTC t)) (im_CompletedAt imp)\<rparr>]\<rparr>)))"

definition MarkImportFailed :: "fault \<Rightarrow> string \<Rightarrow> gotime \<Rightarrow> InventoryDB \<Rightarrow> inventory_error + InventoryDB" where
  "MarkImportFailed f importID completedAt db =
     driver f (Inr (db\<lparr>iv_imports := map (\<lambda>r. if ir_id r = importID then
       r\<lparr>ir_status := ''failed'', ir_completed := Some (formatRFC3339Nano (UTC completedAt))\<rparr> else r) (iv_imports db)\<rparr>))"

definition errorRow :: "string \<Rightarrow> ValidationError \<Rightarrow> ErrorRow" where
  "errorRow importID e =
     \<lparr>er_import = importID, er_row = (if 0 < ve_Row e then Some (ve_Row e) else None),
      er_column = (if ve_Column e = [] then None else Some (ve_Column e)), er_code = ve_Code e\<rparr>"

definition StoreImportErrors :: "fault \<Rightarrow> string \<Rightarrow> ValidationError list \<Rightarrow> InventoryDB \<Rightarrow> inventory_error + InventoryDB" where
  "StoreImportErrors f importID errs db =
     (if errs = [] then Inr db
      else driver f (Inr (db\<lparr>iv_errors := iv_errors db @ map (errorRow importID) errs\<rparr>)))"

text \<open>
  One cell of an import: an upsert that keeps the identity and the creation time of the row. The
  counter of identities advances in both cases, as the statement draws one before the conflict.
\<close>

definition applyCell :: "string \<Rightarrow> InventoryDB \<times> int \<times> int \<Rightarrow> LTECell \<Rightarrow> InventoryDB \<times> int \<times> int" where
  "applyCell now st c =
     (case st of (db, inserted, updated) \<Rightarrow>
       if (c_PLMN c, c_ECI c) \<in> set (map rowKey (iv_cells db)) then
         (db\<lparr>iv_cells := map (\<lambda>r. if rowKey r = (c_PLMN c, c_ECI c) then
            (cellRow (cl_id r) now c)\<lparr>cl_created := cl_created r\<rparr> else r) (iv_cells db), iv_cellSeq := iv_cellSeq db + 1\<rparr>,
          inserted, updated + 1)
       else (db\<lparr>iv_cells := iv_cells db @ [cellRow (iv_cellSeq db + 1) now c], iv_cellSeq := iv_cellSeq db + 1\<rparr>,
             inserted + 1, updated))"

definition deactivateRow :: "string \<Rightarrow> CellRow list \<Rightarrow> InventoryPLMN \<times> u32 \<Rightarrow> CellRow list" where
  "deactivateRow now rows k = map (\<lambda>r. if rowKey r = k then r\<lparr>cl_active := False, cl_updated := now\<rparr> else r) rows"

definition ApplyImport ::
    "fault \<Rightarrow> gotime \<Rightarrow> string \<Rightarrow> ApplyImportInput \<Rightarrow> InventoryDB \<Rightarrow> inventory_error + (ApplyResult \<times> InventoryDB)" where
  "ApplyImport f time versionID i db =
     failIf (ai_Mode i \<noteq> Merge \<and> ai_Mode i \<noteq> Replace) (InvalidApplyMode (ai_Mode i)) (
     driver f (
       let now = formatRFC3339Nano (UTC time);
           seen = map (\<lambda>c. cellKey (c_PLMN c) (c_ECI c)) (ai_Cells i)
       in case foldl (applyCell now) (db, 0, 0) (ai_Cells i) of (db, inserted, updated) \<Rightarrow>
       let toDeactivate = (if ai_Mode i = Replace then
             map rowKey (filter (\<lambda>r. cl_active r \<and> cellKey (cl_plmn r) (cl_eci r) \<notin> set seen) (iv_cells db)) else []);
           db = db\<lparr>iv_cells := foldl (deactivateRow now) (iv_cells db) toDeactivate\<rparr>;
           out = \<lparr>ar_Inserted = inserted, ar_Updated = updated, ar_Deactivated = int (length toDeactivate)\<rparr>
       in failIf (versionID \<in> set (map vr_id (iv_versions db)) \<or> ai_VersionName i \<in> set (map vr_name (iv_versions db)))
            UniqueViolation (
          Inr (out, db\<lparr>iv_versions := iv_versions db @
              [\<lparr>vr_id = versionID, vr_name = ai_VersionName i, vr_filename = ai_SourceFilename i, vr_sha = ai_SourceSHA256 i,
                vr_mode = ai_Mode i, vr_count = int (length (ai_Cells i)), vr_status = ''active'', vr_created = now\<rparr>],
            iv_imports := map (\<lambda>r. if ir_id r = ai_ImportID i then
              r\<lparr>ir_status := ''completed'', ir_version := Some versionID, ir_inserted := ar_Inserted out,
                ir_updated := ar_Updated out, ir_deactivated := ar_Deactivated out, ir_completed := Some now\<rparr>
              else r) (iv_imports db)\<rparr>))))"

definition storedTime :: "string \<Rightarrow> inventory_error + gotime" where
  "storedTime s = (case parseRFC3339 s of None \<Rightarrow> Inl (InvStore (BadStoredTime s)) | Some t \<Rightarrow> Inr t)"

definition loadImport :: "ImportRow \<Rightarrow> inventory_error + InventoryImport" where
  "loadImport r =
     andThen (storedTime (ir_created r)) (\<lambda>created.
     andThen (case ir_completed r of None \<Rightarrow> Inr None | Some s \<Rightarrow> andThen (storedTime s) (\<lambda>t. Inr (Some t))) (\<lambda>completed.
     Inr \<lparr>im_ID = ir_id r, im_InventoryVersionID = (case ir_version r of None \<Rightarrow> [] | Some v \<Rightarrow> v),
       im_SourceFilename = ir_filename r, im_SourceSHA256 = ir_sha r, im_Mode = ir_mode r, im_Status = ir_status r,
       im_RowsReceived = ir_received r, im_RowsValid = ir_valid r, im_RowsRejected = ir_rejected r,
       im_InsertedCount = ir_inserted r, im_UpdatedCount = ir_updated r, im_DeactivatedCount = ir_deactivated r,
       im_WarningCount = ir_warnings r, im_CreatedAt = created, im_CompletedAt = completed\<rparr>))"

definition GetImport :: "fault \<Rightarrow> string \<Rightarrow> InventoryDB \<Rightarrow> inventory_error + InventoryImport option" where
  "GetImport f importID db =
     driver f (case find (\<lambda>r. ir_id r = importID) (iv_imports db) of
       None \<Rightarrow> Inr None
     | Some r \<Rightarrow> andThen (loadImport r) (\<lambda>imp. Inr (Some imp)))"

definition ListImportErrors :: "fault \<Rightarrow> string \<Rightarrow> InventoryDB \<Rightarrow> inventory_error + ValidationError list" where
  "ListImportErrors f importID db =
     driver f (Inr (map (\<lambda>r. \<lparr>ve_Row = (case er_row r of None \<Rightarrow> 0 | Some n \<Rightarrow> n),
         ve_Column = (case er_column r of None \<Rightarrow> [] | Some c \<Rightarrow> c), ve_Code = er_code r\<rparr>)
       (filter (\<lambda>r. er_import r = importID) (iv_errors db))))"

section \<open>Cells\<close>

definition pageOf :: "int \<Rightarrow> int \<Rightarrow> 'a list \<Rightarrow> 'a list" where
  "pageOf limit offset rows =
     (let limit = (if limit \<le> 0 \<or> limit > 500 then 50 else limit); offset = (if offset < 0 then 0 else offset)
      in take (nat limit) (drop (nat offset) rows))"

definition ListCells :: "fault \<Rightarrow> CellFilter \<Rightarrow> InventoryDB \<Rightarrow> inventory_error + (LTECell list \<times> int)" where
  "ListCells f filt db =
     driver f (
       let rows = sort_key cl_id (filter (cellMatches filt) (iv_cells db))
       in andThen (mapE scanCell (pageOf (f_Limit filt) (f_Offset filt) rows)) (\<lambda>cells. Inr (cells, int (length rows))))"

definition GetCell :: "fault \<Rightarrow> int \<Rightarrow> InventoryDB \<Rightarrow> inventory_error + LTECell option" where
  "GetCell f i db =
     driver f (case find (\<lambda>r. cl_id r = i) (iv_cells db) of
       None \<Rightarrow> Inr None
     | Some r \<Rightarrow> andThen (scanCell r) (\<lambda>c. Inr (Some c)))"

definition loadVersion :: "VersionRow \<Rightarrow> inventory_error + InventoryVersion" where
  "loadVersion r =
     andThen (storedTime (vr_created r)) (\<lambda>t.
     Inr \<lparr>v_ID = vr_id r, v_VersionName = vr_name r, v_SourceFilename = vr_filename r, v_SourceSHA256 = vr_sha r,
       v_ImportMode = vr_mode r, v_RecordCount = vr_count r, v_Status = vr_status r, v_CreatedAt = t\<rparr>)"

text \<open>\<open>ORDER BY created_at DESC, id DESC LIMIT 1\<close>.\<close>

definition CurrentInventoryVersion :: "fault \<Rightarrow> InventoryDB \<Rightarrow> inventory_error + InventoryVersion option" where
  "CurrentInventoryVersion f db =
     driver f (case rev (sort_key vr_created (sort_key vr_id (iv_versions db))) of
       [] \<Rightarrow> Inr None
     | r # _ \<Rightarrow> andThen (loadVersion r) (\<lambda>v. Inr (Some v)))"

definition ExportCells :: "fault \<Rightarrow> fault \<Rightarrow> gotime \<Rightarrow> CellFilter \<Rightarrow> InventoryDB \<Rightarrow> inventory_error + (string list list \<times> ExportMeta)" where
  "ExportCells f versionFault time filt db =
     driver f (
       andThen (mapE scanCell (sort_key cl_id (filter (cellMatches filt) (iv_cells db)))) (\<lambda>cells.
       Inr (CSVColumns # map cellToRow cells,
            \<lparr>xm_VersionName = (case CurrentInventoryVersion versionFault db of
               Inr (Some v) \<Rightarrow> v_VersionName v | _ \<Rightarrow> ''unversioned''),
             xm_ExportedAt = UTC time, xm_RecordCount = int (length cells)\<rparr>)))"

text \<open>A comparison with NULL is not true.\<close>

definition sqlLE :: "float64 option \<Rightarrow> float64 option \<Rightarrow> bool" where
  "sqlLE a b = (case (a, b) of (Some x, Some y) \<Rightarrow> fle x y | _ \<Rightarrow> False)"

definition isCandidate :: "GeoBounds \<Rightarrow> InventoryPLMN option \<Rightarrow> CellRow \<Rightarrow> bool" where
  "isCandidate b plmn r \<longleftrightarrow>
     cl_active r \<and>
     (case plmn of None \<Rightarrow> True
      | Some p \<Rightarrow> plmn_MCC (cl_plmn r) = plmn_MCC p \<and> plmn_MNC (cl_plmn r) = plmn_MNC p) \<and>
     (cl_minlon r \<noteq> None \<and> sqlLE (cl_minlon r) (Some (MaxLongitude b)) \<and> sqlLE (Some (MinLongitude b)) (cl_maxlon r) \<and>
        sqlLE (cl_minlat r) (Some (MaxLatitude b)) \<and> sqlLE (Some (MinLatitude b)) (cl_maxlat r) \<or>
      cl_minlon r = None \<and> cl_lat r \<noteq> None \<and> cl_lon r \<noteq> None \<and>
        sqlLE (Some (MinLongitude b)) (cl_lon r) \<and> sqlLE (cl_lon r) (Some (MaxLongitude b)) \<and>
        sqlLE (Some (MinLatitude b)) (cl_lat r) \<and> sqlLE (cl_lat r) (Some (MaxLatitude b)))"

definition FindBoundingBoxCandidates ::
    "fault \<Rightarrow> GeoBounds \<Rightarrow> InventoryPLMN option \<Rightarrow> InventoryDB \<Rightarrow> inventory_error + LTECell list" where
  "FindBoundingBoxCandidates f b plmn db = driver f (mapE scanCell (filter (isCandidate b plmn) (iv_cells db)))"

text \<open>The INSERT may succeed and the SELECT of the new row fail.\<close>

definition CreateCell ::
    "fault \<Rightarrow> fault \<Rightarrow> gotime \<Rightarrow> LTECell \<Rightarrow> InventoryDB \<Rightarrow> (inventory_error + LTECell option) \<times> InventoryDB" where
  "CreateCell f g time c db =
     (case driver f (failIf ((c_PLMN c, c_ECI c) \<in> set (map rowKey (iv_cells db))) CellAlreadyExists (
          Inr (iv_cellSeq db + 1))) of
        Inl e \<Rightarrow> (Inl e, db)
      | Inr i \<Rightarrow>
          (let db = db\<lparr>iv_cells := iv_cells db @ [cellRow i (formatRFC3339Nano (UTC time)) c], iv_cellSeq := i\<rparr>
           in (GetCell g i db, db)))"

definition countGeocodes :: "fault \<Rightarrow> int \<Rightarrow> InventoryDB \<Rightarrow> inventory_error + nat" where
  "countGeocodes f i db = driver f (Inr (length (filter (\<lambda>g. gr_cell g = i) (iv_geocodes db))))"

definition deleteCellRow :: "fault \<Rightarrow> int \<Rightarrow> InventoryDB \<Rightarrow> inventory_error + (nat \<times> InventoryDB)" where
  "deleteCellRow f i db =
     driver f (Inr (length (filter (\<lambda>r. cl_id r = i) (iv_cells db)),
                    db\<lparr>iv_cells := filter (\<lambda>r. cl_id r \<noteq> i) (iv_cells db)\<rparr>))"

definition DeleteCell :: "fault \<Rightarrow> fault \<Rightarrow> int \<Rightarrow> InventoryDB \<Rightarrow> (inventory_error + unit) \<times> InventoryDB" where
  "DeleteCell f g i db =
     (case countGeocodes f i db of
        Inl e \<Rightarrow> (Inl e, db)
      | Inr refs \<Rightarrow>
          if refs > 0 then (Inl CellHasGeocodes, db)
          else case deleteCellRow g i db of
              Inl e \<Rightarrow> (Inl e, db)
            | Inr (n, db) \<Rightarrow> (if n = 0 then Inl CellNotFound else Inr (), db))"

section \<open>Tables with a counter and a unique key\<close>

text \<open>
  What SQLite keeps of a table with an AUTOINCREMENT identity and a UNIQUE constraint.
\<close>

definition tableOK :: "('r \<Rightarrow> int) \<Rightarrow> ('r \<Rightarrow> 'k) \<Rightarrow> int \<Rightarrow> 'r list \<Rightarrow> bool" where
  "tableOK ident key n rows \<longleftrightarrow>
     distinct (map ident rows) \<and> (\<forall>r \<in> set rows. 0 < ident r \<and> ident r \<le> n) \<and> distinct (map key rows) \<and> 0 \<le> n"

lemma tableOK_Nil [simp]: "tableOK ident key n [] \<longleftrightarrow> 0 \<le> n"
  by (simp add: tableOK_def)

lemma tableOK_insert:
  assumes "tableOK ident key n rows" "n < ident r" "ident r \<le> m" "key r \<notin> key ` set rows"
  shows "tableOK ident key m (rows @ [r])"
  using assms by (force simp: tableOK_def)

lemma tableOK_filter: "tableOK ident key n rows \<Longrightarrow> tableOK ident key n (filter P rows)"
  by (auto simp: tableOK_def distinct_map_filter)

lemma tableOK_map:
  assumes "tableOK ident key n rows" "\<And>r. ident (f r) = ident r" "\<And>r. key (f r) = key r" "n \<le> m"
  shows "tableOK ident key m (map f rows)"
  using assms by (force simp: tableOK_def comp_def)

lemma key_image: "(\<And>r. key (f r) = key r) \<Longrightarrow> key ` set (map f xs) = key ` set xs"
  by (simp add: image_image)

lemma tableOK_key: "tableOK ident key n rows \<Longrightarrow> r \<in> set rows \<Longrightarrow> s \<in> set rows \<Longrightarrow> key r = key s \<Longrightarrow> r = s"
  by (auto simp: tableOK_def distinct_map dest: inj_onD)

lemma tableOK_ident: "tableOK ident key n rows \<Longrightarrow> r \<in> set rows \<Longrightarrow> s \<in> set rows \<Longrightarrow> ident r = ident s \<Longrightarrow> r = s"
  by (auto simp: tableOK_def distinct_map dest: inj_onD)

lemma find_key:
  assumes "tableOK ident key n rows"
  shows "find (\<lambda>r. key r = k) rows = Some r \<longleftrightarrow> r \<in> set rows \<and> key r = k"
proof
  assume "find (\<lambda>r. key r = k) rows = Some r"
  then show "r \<in> set rows \<and> key r = k" by (auto simp: find_Some_iff)
next
  assume r: "r \<in> set rows \<and> key r = k"
  then obtain s where s: "find (\<lambda>r. key r = k) rows = Some s" by (cases "find (\<lambda>r. key r = k) rows") (auto simp: find_None_iff)
  then have "s \<in> set rows" "key s = k" by (auto simp: find_Some_iff)
  with tableOK_key [OF assms] r s show "find (\<lambda>r. key r = k) rows = Some r" by auto
qed

section \<open>Applying an import\<close>

abbreviation ecgiOf :: "LTECell \<Rightarrow> InventoryPLMN \<times> u32" where
  "ecgiOf c \<equiv> (c_PLMN c, c_ECI c)"

definition refreshed :: "string \<Rightarrow> CellRow \<Rightarrow> LTECell \<Rightarrow> CellRow" where
  "refreshed now r c = (cellRow (cl_id r) now c)\<lparr>cl_created := cl_created r\<rparr>"

definition importedCell :: "LTECell list \<Rightarrow> InventoryPLMN \<times> u32 \<Rightarrow> LTECell option" where
  "importedCell cells k = find (\<lambda>c. ecgiOf c = k) cells"

definition importRow :: "string \<Rightarrow> LTECell list \<Rightarrow> CellRow \<Rightarrow> CellRow" where
  "importRow now cells r = (case importedCell cells (rowKey r) of None \<Rightarrow> r | Some c \<Rightarrow> refreshed now r c)"

fun newRows :: "string \<Rightarrow> (InventoryPLMN \<times> u32) set \<Rightarrow> int \<Rightarrow> LTECell list \<Rightarrow> CellRow list" where
  "newRows now K n [] = []"
| "newRows now K n (c # cs) = (if ecgiOf c \<in> K then [] else [cellRow (n + 1) now c]) @ newRows now K (n + 1) cs"

lemma importedCell_simps [simp]:
  "importedCell [] k = None"
  "importedCell (c # cs) k = (if ecgiOf c = k then Some c else importedCell cs k)"
  by (simp_all add: importedCell_def)

lemma importedCell_None: "importedCell cells k = None \<longleftrightarrow> k \<notin> ecgiOf ` set cells"
  by (auto simp: importedCell_def find_None_iff)

lemma importedCell_Some: "importedCell cells k = Some c \<Longrightarrow> c \<in> set cells \<and> ecgiOf c = k"
  by (auto simp: importedCell_def find_Some_iff)

lemma rowKey_cellRow [simp]: "rowKey (cellRow i now c) = ecgiOf c"
  by (simp add: rowKey_def cellRow_def)

lemma refreshed_simps [simp]: "rowKey (refreshed now r c) = ecgiOf c" "cl_id (refreshed now r c) = cl_id r"
  "cl_created (refreshed now r c) = cl_created r" "cl_active (refreshed now r c) = c_Active c"
  by (simp_all add: refreshed_def rowKey_def cellRow_def)

lemma cl_id_cellRow [simp]: "cl_id (cellRow i now c) = i" "cl_active (cellRow i now c) = c_Active c"
  by (simp_all add: cellRow_def)

lemma importRow_simps [simp]: "rowKey (importRow now cells r) = rowKey r" "cl_id (importRow now cells r) = cl_id r"
  by (auto simp: importRow_def dest: importedCell_Some split: option.split)

lemma newRows_insert: "k \<notin> ecgiOf ` set cells \<Longrightarrow> newRows now (insert k K) n cells = newRows now K n cells"
  by (induction cells arbitrary: n) auto

lemma foldl_applyCell:
  assumes "distinct (map ecgiOf cells)"
  shows "foldl (applyCell now) (db, a, b) cells =
    (db\<lparr>iv_cells := map (importRow now cells) (iv_cells db) @ newRows now (rowKey ` set (iv_cells db)) (iv_cellSeq db) cells,
        iv_cellSeq := iv_cellSeq db + int (length cells)\<rparr>,
     a + int (length (filter (\<lambda>c. ecgiOf c \<notin> rowKey ` set (iv_cells db)) cells)),
     b + int (length (filter (\<lambda>c. ecgiOf c \<in> rowKey ` set (iv_cells db)) cells)))"
  using assms
proof (induction cells arbitrary: db a b)
  case Nil
  have "map (importRow now []) (iv_cells db) = iv_cells db" by (simp add: importRow_def map_idI)
  then show ?case by simp
next
  case (Cons c cs)
  let ?K = "rowKey ` set (iv_cells db)"
  have d: "distinct (map ecgiOf cs)" "ecgiOf c \<notin> ecgiOf ` set cs" using Cons.prems by auto
  show ?case
  proof (cases "ecgiOf c \<in> ?K")
    case True
    define db' where "db' = db\<lparr>iv_cells := map (\<lambda>r. if rowKey r = ecgiOf c then refreshed now r c else r) (iv_cells db),
      iv_cellSeq := iv_cellSeq db + 1\<rparr>"
    have s: "applyCell now (db, a, b) c = (db', a, b + 1)"
      using True by (simp add: applyCell_def db'_def refreshed_def)
    have "map rowKey (iv_cells db') = map rowKey (iv_cells db)" by (auto simp: db'_def)
    then have K: "rowKey ` set (iv_cells db') = ?K" by (metis list.set_map)
    have n: "importedCell cs (ecgiOf c) = None" using d(2) by (simp add: importedCell_None)
    have m: "map (importRow now cs) (iv_cells db') = map (importRow now (c # cs)) (iv_cells db)"
      using n by (auto simp: db'_def importRow_def)
    show ?thesis using True
      unfolding foldl.simps s Cons.IH [OF d(1)] K m by (simp add: db'_def)
  next
    case False
    define db' where "db' = db\<lparr>iv_cells := iv_cells db @ [cellRow (iv_cellSeq db + 1) now c], iv_cellSeq := iv_cellSeq db + 1\<rparr>"
    have s: "applyCell now (db, a, b) c = (db', a + 1, b)" using False by (simp add: applyCell_def db'_def)
    have K: "rowKey ` set (iv_cells db') = insert (ecgiOf c) ?K" by (auto simp: db'_def)
    have n: "importedCell cs (ecgiOf c) = None" using d(2) by (simp add: importedCell_None)
    have ne: "rowKey r \<noteq> ecgiOf c" if "r \<in> set (iv_cells db)" for r using False that by (metis image_eqI)
    have u: "importRow now cs r = importRow now (c # cs) r" if "r \<in> set (iv_cells db)" for r
      using ne [OF that] by (auto simp: importRow_def)
    have w: "importRow now cs (cellRow (iv_cellSeq db + 1) now c) = cellRow (iv_cellSeq db + 1) now c"
      unfolding importRow_def rowKey_cellRow n by simp
    have c': "iv_cells db' = iv_cells db @ [cellRow (iv_cellSeq db + 1) now c]" by (simp add: db'_def)
    have A: "map (importRow now cs) (iv_cells db) = map (importRow now (c # cs)) (iv_cells db)"
      by (rule map_cong [OF refl u])
    have m: "map (importRow now cs) (iv_cells db') =
        map (importRow now (c # cs)) (iv_cells db) @ [cellRow (iv_cellSeq db + 1) now c]"
      unfolding c' map_append list.map w A ..
    have e: "ecgiOf x \<noteq> ecgiOf c" if "x \<in> set cs" for x using imageI [OF that, of ecgiOf] d(2) by auto
    have f: "filter (\<lambda>x. ecgiOf x \<notin> insert (ecgiOf c) ?K) cs = filter (\<lambda>x. ecgiOf x \<notin> ?K) cs"
      "filter (\<lambda>x. ecgiOf x \<in> insert (ecgiOf c) ?K) cs = filter (\<lambda>x. ecgiOf x \<in> ?K) cs"
      by (rule filter_cong [OF refl], use e in blast)+
    show ?thesis using False d(2)
      unfolding foldl.simps s Cons.IH [OF d(1)] K m f newRows_insert [OF d(2)] by (simp add: db'_def)
  qed
qed

section \<open>The key text\<close>

lemma split_at:
  assumes "a @ c # s = b @ c # t" "c \<notin> set a" "c \<notin> set b"
  shows "a = b \<and> s = t"
  using assms by (induction a arbitrary: b) (case_tac b; auto)+

definition plainPLMN :: "InventoryPLMN \<Rightarrow> bool" where
  "plainPLMN p \<longleftrightarrow> CHR ''/'' \<notin> set (plmn_MCC p) \<and> CHR ''/'' \<notin> set (plmn_MNC p) \<and> 0 \<le> plmn_MNCLength p"

lemma slash_not_digit: "CHR ''/'' \<notin> set (decimal n)"
  using decimal_digits [of n] by (auto simp: isDigit_def)

lemma Itoa_nonneg: "0 \<le> n \<Longrightarrow> Itoa n = decimal (nat n)"
  by (simp add: Itoa_def)

lemma cellKey_inj:
  assumes "plainPLMN p" "plainPLMN q" "cellKey p e = cellKey q f"
  shows "p = q \<and> e = f"
proof -
  have s: "CHR ''/'' \<notin> set (Itoa (plmn_MNCLength p))" "CHR ''/'' \<notin> set (Itoa (plmn_MNCLength q))"
    using assms(1,2) by (simp_all add: plainPLMN_def Itoa_nonneg slash_not_digit)
  note p = assms(1,2) [unfolded plainPLMN_def]
  from assms(3) have k: "plmn_MCC p @ CHR ''/'' # (plmn_MNC p @ CHR ''/'' # (Itoa (plmn_MNCLength p) @ CHR ''/'' # decimal (unat e))) =
      plmn_MCC q @ CHR ''/'' # (plmn_MNC q @ CHR ''/'' # (Itoa (plmn_MNCLength q) @ CHR ''/'' # decimal (unat f)))"
    by (simp add: cellKey_def)
  note m = split_at [OF k p(1) [THEN conjunct1] p(2) [THEN conjunct1]]
  note n = split_at [OF m [THEN conjunct2] p(1) [THEN conjunct2, THEN conjunct1] p(2) [THEN conjunct2, THEN conjunct1]]
  note l = split_at [OF n [THEN conjunct2] s]
  have "nat (plmn_MNCLength p) = nat (plmn_MNCLength q)" "unat e = unat f"
    using l p by (simp_all add: Itoa_nonneg decimal_inj)
  then show ?thesis using m n assms(1,2) by (auto simp: plainPLMN_def word_unat_eq_iff)
qed

lemma digits_iff: "digits s \<longleftrightarrow> list_all isDigit s"
  using runes_digits [of s] by (simp add: digits_def list_all_iff)

lemma digits_no_slash: "digits s \<Longrightarrow> CHR ''/'' \<notin> set s"
  by (auto simp: digits_iff list_all_iff isDigit_def)

lemma validCell_plain: "validCell gj c \<Longrightarrow> plainPLMN (c_PLMN c)"
  by (auto simp: validCell_def plainPLMN_def digits_no_slash)

section \<open>Deactivation\<close>

definition deactivated :: "string \<Rightarrow> CellRow \<Rightarrow> CellRow" where
  "deactivated now r = (if cl_active r then r\<lparr>cl_active := False, cl_updated := now\<rparr> else r)"

lemma deactivated_simps [simp]: "rowKey (deactivated now r) = rowKey r" "cl_id (deactivated now r) = cl_id r"
  "cl_plmn (deactivated now r) = cl_plmn r"
  by (simp_all add: deactivated_def rowKey_def)

lemma foldl_deactivateRow:
  "foldl (deactivateRow now) rows ks =
   map (\<lambda>r. if rowKey r \<in> set ks then r\<lparr>cl_active := False, cl_updated := now\<rparr> else r) rows"
proof (induction ks arbitrary: rows)
  case Nil
  then show ?case by simp
next
  case (Cons k ks)
  show ?case unfolding foldl.simps Cons.IH
    by (auto simp: deactivateRow_def rowKey_def)
qed

definition inventoryCells :: "InventoryDB \<Rightarrow> bool" where
  "inventoryCells db \<longleftrightarrow> tableOK cl_id rowKey (iv_cellSeq db) (iv_cells db) \<and> list_all (\<lambda>r. plainPLMN (cl_plmn r)) (iv_cells db)"

lemma seen_iff:
  assumes "list_all (\<lambda>c. plainPLMN (c_PLMN c)) cells" "plainPLMN (cl_plmn r)"
  shows "cellKey (cl_plmn r) (cl_eci r) \<in> set (map (\<lambda>c. cellKey (c_PLMN c) (c_ECI c)) cells) \<longleftrightarrow> rowKey r \<in> ecgiOf ` set cells"
  using assms cellKey_inj by (fastforce simp: rowKey_def list_all_iff image_iff)

lemma newRows_keys: "rowKey ` set (newRows now K n cells) = ecgiOf ` set cells - K"
  by (induction cells arbitrary: n) auto

lemma newRows_plain: "list_all (\<lambda>c. plainPLMN (c_PLMN c)) cells \<Longrightarrow> list_all (\<lambda>r. plainPLMN (cl_plmn r)) (newRows now K n cells)"
  by (induction cells arbitrary: n) (auto simp: cellRow_def)

lemma newRows_table:
  assumes "tableOK cl_id rowKey n rows" "distinct (map ecgiOf cells)" "rowKey ` set rows \<inter> (ecgiOf ` set cells - K) = {}"
  shows "tableOK cl_id rowKey (n + int (length cells)) (rows @ newRows now K n cells)"
  using assms
proof (induction cells arbitrary: n rows)
  case Nil
  then show ?case by simp
next
  case (Cons c cs)
  show ?case
  proof (cases "ecgiOf c \<in> K")
    case True
    have "tableOK cl_id rowKey (n + 1) rows" using Cons.prems(1) by (force simp: tableOK_def)
    then show ?thesis using Cons.IH [of "n + 1" rows] Cons.prems True by (auto simp: algebra_simps)
  next
    case False
    have "tableOK cl_id rowKey (n + 1) (rows @ [cellRow (n + 1) now c])"
      by (rule tableOK_insert [OF Cons.prems(1)]) (use Cons.prems(3) False in auto)
    moreover have "rowKey ` set (rows @ [cellRow (n + 1) now c]) \<inter> (ecgiOf ` set cs - K) = {}" using Cons.prems(2,3) by auto
    ultimately show ?thesis using Cons.IH [of "n + 1" "rows @ [cellRow (n + 1) now c]"] Cons.prems(2) False
      by (simp add: algebra_simps)
  qed
qed

text \<open>The cells after an import.\<close>

definition importedRows :: "string \<Rightarrow> ImportMode \<Rightarrow> LTECell list \<Rightarrow> InventoryDB \<Rightarrow> CellRow list" where
  "importedRows now mode cells db =
     map (\<lambda>r. if rowKey r \<in> ecgiOf ` set cells then importRow now cells r
              else if mode = Replace then deactivated now r else r) (iv_cells db) @
     newRows now (rowKey ` set (iv_cells db)) (iv_cellSeq db) cells"

definition absentActive :: "LTECell list \<Rightarrow> InventoryDB \<Rightarrow> CellRow list" where
  "absentActive cells db = filter (\<lambda>r. cl_active r \<and> rowKey r \<notin> ecgiOf ` set cells) (iv_cells db)"

lemma importRow_other: "rowKey r \<notin> ecgiOf ` set cells \<Longrightarrow> importRow now cells r = r"
  by (simp add: importRow_def importedCell_None [symmetric])

lemma importedRows_ok:
  assumes "inventoryCells db" "list_all (\<lambda>c. plainPLMN (c_PLMN c)) cells" "distinct (map ecgiOf cells)"
  shows "tableOK cl_id rowKey (iv_cellSeq db + int (length cells)) (importedRows now mode cells db) \<and>
    list_all (\<lambda>r. plainPLMN (cl_plmn r)) (importedRows now mode cells db)"
proof -
  let ?f = "\<lambda>r. if rowKey r \<in> ecgiOf ` set cells then importRow now cells r else if mode = Replace then deactivated now r else r"
  have k: "rowKey (?f r) = rowKey r" "cl_id (?f r) = cl_id r" for r by simp_all
  have p: "cl_plmn (?f r) = cl_plmn r" for r using k(1) [of r] unfolding rowKey_def by simp
  have t: "tableOK cl_id rowKey (iv_cellSeq db) (map ?f (iv_cells db))"
    by (rule tableOK_map [OF assms(1) [unfolded inventoryCells_def, THEN conjunct1]]) simp_all
  have s: "rowKey ` set (map ?f (iv_cells db)) = rowKey ` set (iv_cells db)" by (rule key_image) (rule k)
  have "list_all (\<lambda>r. plainPLMN (cl_plmn r)) (map ?f (iv_cells db))"
    unfolding list.pred_map comp_def p using assms(1) by (simp add: inventoryCells_def)
  moreover have "tableOK cl_id rowKey (iv_cellSeq db + int (length cells)) (importedRows now mode cells db)"
    unfolding importedRows_def by (rule newRows_table [OF t assms(3)]) (use s in blast)
  ultimately show ?thesis using newRows_plain [OF assms(2)] by (simp add: importedRows_def)
qed

lemma ApplyImport_result:
  assumes "inventoryCells db" "list_all (\<lambda>c. plainPLMN (c_PLMN c)) (ai_Cells i)" "distinct (map ecgiOf (ai_Cells i))"
    and "ApplyImport f time versionID i db = Inr (res, db')"
  defines "now \<equiv> formatRFC3339Nano (UTC time)"
  shows "f = None" "ai_Mode i \<in> {Merge, Replace}" "versionID \<notin> set (map vr_id (iv_versions db))"
    "ai_VersionName i \<notin> set (map vr_name (iv_versions db))"
    "res = \<lparr>ar_Inserted = int (length (filter (\<lambda>c. ecgiOf c \<notin> rowKey ` set (iv_cells db)) (ai_Cells i))),
            ar_Updated = int (length (filter (\<lambda>c. ecgiOf c \<in> rowKey ` set (iv_cells db)) (ai_Cells i))),
            ar_Deactivated = (if ai_Mode i = Replace then int (length (absentActive (ai_Cells i) db)) else 0)\<rparr>"
    "db' = db\<lparr>iv_cells := importedRows now (ai_Mode i) (ai_Cells i) db,
              iv_cellSeq := iv_cellSeq db + int (length (ai_Cells i)),
              iv_versions := iv_versions db @
                [\<lparr>vr_id = versionID, vr_name = ai_VersionName i, vr_filename = ai_SourceFilename i, vr_sha = ai_SourceSHA256 i,
                  vr_mode = ai_Mode i, vr_count = int (length (ai_Cells i)), vr_status = ''active'', vr_created = now\<rparr>],
              iv_imports := map (\<lambda>r. if ir_id r = ai_ImportID i then
                r\<lparr>ir_status := ''completed'', ir_version := Some versionID, ir_inserted := ar_Inserted res,
                  ir_updated := ar_Updated res, ir_deactivated := ar_Deactivated res, ir_completed := Some now\<rparr>
                else r) (iv_imports db)\<rparr>"
proof -
  let ?c = "ai_Cells i" and ?K = "rowKey ` set (iv_cells db)"
  define rows where "rows = map (importRow now ?c) (iv_cells db) @ newRows now ?K (iv_cellSeq db) ?c"
  define gone where "gone = filter (\<lambda>r. cl_active r \<and> cellKey (cl_plmn r) (cl_eci r) \<notin> set (map (\<lambda>c. cellKey (c_PLMN c) (c_ECI c)) ?c)) rows"
  have p: "list_all (\<lambda>r. plainPLMN (cl_plmn r)) (iv_cells db)" using assms(1) by (simp add: inventoryCells_def)
  have up: "cl_plmn (importRow now ?c r) = cl_plmn r" for r
    using importRow_simps(1) [of now ?c r] by (simp add: rowKey_def)
  have pr: "list_all (\<lambda>r. plainPLMN (cl_plmn r)) rows"
    using p newRows_plain [OF assms(2)] by (simp add: rows_def list_all_iff ball_Un up)
  have "gone = filter (\<lambda>r. cl_active r \<and> rowKey r \<notin> ecgiOf ` set ?c) rows"
    unfolding gone_def using pr seen_iff [OF assms(2)] by (intro filter_cong) (auto simp: list_all_iff)
  also have "\<dots> = absentActive ?c db"
  proof -
    have n: "filter (\<lambda>r. cl_active r \<and> rowKey r \<notin> ecgiOf ` set ?c) (newRows now ?K (iv_cellSeq db) ?c) = []"
      using newRows_keys [of now ?K "iv_cellSeq db" ?c] by (auto simp: filter_empty_conv)
    have "filter (\<lambda>r. cl_active r \<and> rowKey r \<notin> ecgiOf ` set ?c) (map (importRow now ?c) xs) =
        filter (\<lambda>r. cl_active r \<and> rowKey r \<notin> ecgiOf ` set ?c) xs" for xs
      by (induction xs) (auto simp: importRow_other)
    with n show ?thesis by (simp add: rows_def absentActive_def)
  qed
  finally have gone: "gone = absentActive ?c db" .
  have R: "foldl (deactivateRow now) rows (map rowKey gone) = importedRows now Replace ?c db"
  proof -
    have k: "rowKey r \<in> set (map rowKey gone) \<longleftrightarrow> cl_active r \<and> rowKey r \<notin> ecgiOf ` set ?c" if "r \<in> set (iv_cells db)" for r
      using that assms(1) tableOK_key unfolding gone absentActive_def inventoryCells_def by (fastforce simp: image_iff)
    have n: "rowKey r \<notin> set (map rowKey gone)" if "r \<in> set (newRows now ?K (iv_cellSeq db) ?c)" for r
      using that newRows_keys [of now ?K "iv_cellSeq db" ?c] unfolding gone absentActive_def by auto
    have "map (\<lambda>r. if rowKey r \<in> set (map rowKey gone) then r\<lparr>cl_active := False, cl_updated := now\<rparr> else r)
        (newRows now ?K (iv_cellSeq db) ?c) = newRows now ?K (iv_cellSeq db) ?c"
      by (rule map_idI) (use n in simp)
    moreover have "map (\<lambda>r. if rowKey r \<in> set (map rowKey gone) then r\<lparr>cl_active := False, cl_updated := now\<rparr> else r)
        (map (importRow now ?c) (iv_cells db)) =
        map (\<lambda>r. if rowKey r \<in> ecgiOf ` set ?c then importRow now ?c r else deactivated now r) (iv_cells db)"
      using k by (auto simp: importRow_other deactivated_def simp del: set_map)
    ultimately show ?thesis
      unfolding foldl_deactivateRow rows_def map_append importedRows_def by simp
  qed
  have M: "rows = importedRows now Merge ?c db"
    by (auto simp: rows_def importedRows_def importRow_other Merge_def Replace_def)
  note a = assms(4) [unfolded ApplyImport_def Let_def foldl_applyCell [OF assms(3)] prod.case, folded now_def]
  have c: "iv_cells (db\<lparr>iv_cells := map (importRow now ?c) (iv_cells db) @ newRows now ?K (iv_cellSeq db) ?c,
      iv_cellSeq := iv_cellSeq db + int (length ?c)\<rparr>) = rows" by (simp add: rows_def)
  note a = a [unfolded c, folded gone_def]
  show "f = None" "ai_Mode i \<in> {Merge, Replace}" "versionID \<notin> set (map vr_id (iv_versions db))"
    "ai_VersionName i \<notin> set (map vr_name (iv_versions db))"
    using a by (auto simp: driver_Inr)
  then show res: "res = \<lparr>ar_Inserted = int (length (filter (\<lambda>c. ecgiOf c \<notin> rowKey ` set (iv_cells db)) ?c)),
            ar_Updated = int (length (filter (\<lambda>c. ecgiOf c \<in> rowKey ` set (iv_cells db)) ?c)),
            ar_Deactivated = (if ai_Mode i = Replace then int (length (absentActive ?c db)) else 0)\<rparr>"
    using a by (auto simp: driver_Inr gone)
  show "db' = db\<lparr>iv_cells := importedRows now (ai_Mode i) ?c db,
              iv_cellSeq := iv_cellSeq db + int (length ?c),
              iv_versions := iv_versions db @
                [\<lparr>vr_id = versionID, vr_name = ai_VersionName i, vr_filename = ai_SourceFilename i, vr_sha = ai_SourceSHA256 i,
                  vr_mode = ai_Mode i, vr_count = int (length ?c), vr_status = ''active'', vr_created = now\<rparr>],
              iv_imports := map (\<lambda>r. if ir_id r = ai_ImportID i then
                r\<lparr>ir_status := ''completed'', ir_version := Some versionID, ir_inserted := ar_Inserted res,
                  ir_updated := ar_Updated res, ir_deactivated := ar_Deactivated res, ir_completed := Some now\<rparr>
                else r) (iv_imports db)\<rparr>"
  proof (cases "ai_Mode i = Replace")
    case True
    then show ?thesis using a R by (auto simp: driver_Inr)
  next
    case False
    with \<open>ai_Mode i \<in> {Merge, Replace}\<close> have "ai_Mode i = Merge" by auto
    then show ?thesis using a False M by (auto simp: driver_Inr)
  qed
qed

section \<open>Looking up cells after an import\<close>

definition cellAt :: "InventoryDB \<Rightarrow> InventoryPLMN \<times> u32 \<Rightarrow> CellRow option" where
  "cellAt db k = find (\<lambda>r. rowKey r = k) (iv_cells db)"

lemma find_append: "find P (xs @ ys) = (case find P xs of None \<Rightarrow> find P ys | Some x \<Rightarrow> Some x)"
  by (induction xs) auto

lemma find_map: "(\<And>x. P (f x) = P x) \<Longrightarrow> find P (map f xs) = map_option f (find P xs)"
  by (induction xs) auto

lemma find_newRows:
  assumes "distinct (map ecgiOf cells)" "c \<in> set cells" "ecgiOf c \<notin> K"
  shows "\<exists>i. n < i \<and> find (\<lambda>r. rowKey r = ecgiOf c) (newRows now K n cells) = Some (cellRow i now c)"
  using assms
proof (induction cells arbitrary: n)
  case Nil
  then show ?case by simp
next
  case (Cons d cs)
  show ?case
  proof (cases "c = d")
    case True
    then show ?thesis using Cons.prems(3) by (intro exI [of _ "n + 1"]) simp
  next
    case False
    then have c: "c \<in> set cs" using Cons.prems(2) by simp
    with Cons.prems(1) have ne: "ecgiOf d \<noteq> ecgiOf c" using imageI [OF c, of ecgiOf] by auto
    from Cons.IH [of "n + 1"] Cons.prems(1,3) c obtain i where
      "n + 1 < i" "find (\<lambda>r. rowKey r = ecgiOf c) (newRows now K (n + 1) cs) = Some (cellRow i now c)" by auto
    then show ?thesis using ne by (intro exI [of _ i]) auto
  qed
qed

lemma cellAt_keys: "cellAt db k = None \<longleftrightarrow> k \<notin> rowKey ` set (iv_cells db)"
  by (auto simp: cellAt_def find_None_iff)

lemma cellAt_Some: "cellAt db k = Some r \<Longrightarrow> r \<in> set (iv_cells db) \<and> rowKey r = k"
  by (auto simp: cellAt_def find_Some_iff)

lemma importedCell_member:
  assumes "distinct (map ecgiOf cells)" "c \<in> set cells"
  shows "importedCell cells (ecgiOf c) = Some c"
  using assms
proof (induction cells)
  case (Cons d cs)
  then show ?case
  proof (cases "c = d")
    case False
    then have "c \<in> set cs" using Cons.prems(2) by simp
    with Cons show ?thesis using imageI [of c "set cs" ecgiOf] by auto
  qed simp
qed simp

lemma cellAt_imported:
  assumes "distinct (map ecgiOf cells)" "c \<in> set cells" "iv_cells db' = importedRows now mode cells db"
  shows "case cellAt db (ecgiOf c) of
      Some old \<Rightarrow> cellAt db' (ecgiOf c) = Some (refreshed now old c)
    | None \<Rightarrow> \<exists>i > iv_cellSeq db. cellAt db' (ecgiOf c) = Some (cellRow i now c)"
proof -
  let ?f = "\<lambda>r. if rowKey r \<in> ecgiOf ` set cells then importRow now cells r else if mode = Replace then deactivated now r else r"
  have k: "rowKey (?f r) = rowKey r" for r by simp
  have m: "find (\<lambda>r. rowKey r = ecgiOf c) (map ?f (iv_cells db)) = map_option ?f (cellAt db (ecgiOf c))"
    unfolding cellAt_def by (rule find_map) (simp only: k)
  have at: "cellAt db' (ecgiOf c) = (case map_option ?f (cellAt db (ecgiOf c)) of
      None \<Rightarrow> find (\<lambda>r. rowKey r = ecgiOf c) (newRows now (rowKey ` set (iv_cells db)) (iv_cellSeq db) cells)
    | Some r \<Rightarrow> Some r)"
    unfolding cellAt_def [of db'] assms(3) importedRows_def find_append m by simp
  show ?thesis
  proof (cases "cellAt db (ecgiOf c)")
    case None
    then have "ecgiOf c \<notin> rowKey ` set (iv_cells db)" by (simp add: cellAt_keys)
    from find_newRows [OF assms(1,2) this] at None show ?thesis by simp
  next
    case (Some old)
    then have "rowKey old = ecgiOf c" by (simp add: cellAt_Some)
    then have "?f old = refreshed now old c"
      using assms(2) importedCell_member [OF assms(1,2)] by (simp add: importRow_def)
    then show ?thesis using Some at by simp
  qed
qed

lemma cellAt_other:
  assumes "k \<notin> ecgiOf ` set cells" "iv_cells db' = importedRows now mode cells db"
  shows "cellAt db' k = (if mode = Replace then map_option (deactivated now) (cellAt db k) else cellAt db k)"
proof -
  let ?f = "\<lambda>r. if rowKey r \<in> ecgiOf ` set cells then importRow now cells r else if mode = Replace then deactivated now r else r"
  have k: "rowKey (?f r) = rowKey r" for r by simp
  have m: "find (\<lambda>r. rowKey r = k) (map ?f (iv_cells db)) = map_option ?f (cellAt db k)"
    unfolding cellAt_def by (rule find_map) (simp only: k)
  have n: "find (\<lambda>r. rowKey r = k) (newRows now (rowKey ` set (iv_cells db)) (iv_cellSeq db) cells) = None"
    using newRows_keys [of now "rowKey ` set (iv_cells db)" "iv_cellSeq db" cells] assms(1) by (auto simp: find_None_iff)
  have "cellAt db' k = map_option ?f (cellAt db k)"
    unfolding cellAt_def [of db'] assms(2) importedRows_def find_append m n by (simp split: option.split)
  also have "\<dots> = (if mode = Replace then map_option (deactivated now) (cellAt db k) else cellAt db k)"
    using assms(1) by (cases "cellAt db k") (auto dest: cellAt_Some)
  finally show ?thesis .
qed

lemma csvKey_ecgiOf: "distinct (map csvKey cells) \<Longrightarrow> distinct (map ecgiOf cells)"
proof -
  assume d: "distinct (map csvKey cells)"
  have "csvKey c = csvKey c'" if "ecgiOf c = ecgiOf c'" for c c' using that by (simp add: csvKey_def)
  with d show ?thesis unfolding distinct_map inj_on_def by blast
qed

lemma length_filter_card: "distinct (map f xs) \<Longrightarrow> length (filter (\<lambda>x. P (f x)) xs) = card {k \<in> f ` set xs. P k}"
proof -
  assume d: "distinct (map f xs)"
  have "length (filter (\<lambda>x. P (f x)) xs) = card (set (map f (filter (\<lambda>x. P (f x)) xs)))"
    using distinct_card [OF distinct_map_filter [OF d, of "\<lambda>x. P (f x)"]] by simp
  also have "set (map f (filter (\<lambda>x. P (f x)) xs)) = {k \<in> f ` set xs. P k}" by auto
  finally show ?thesis .
qed

text \<open>The values of a row apart from its identity and its time stamps.\<close>

definition rowValues :: "CellRow \<Rightarrow> CellRow" where
  "rowValues r = r\<lparr>cl_id := 0, cl_created := [], cl_updated := []\<rparr>"

lemma rowValues_simps [simp]: "rowValues (cellRow i now c) = cellRow 0 [] c\<lparr>cl_created := [], cl_updated := []\<rparr>"
  "rowValues (refreshed now r c) = cellRow 0 [] c\<lparr>cl_created := [], cl_updated := []\<rparr>"
  by (simp_all add: rowValues_def refreshed_def cellRow_def)

lemma cl_updated_simps [simp]: "cl_updated (cellRow i now c) = now" "cl_updated (refreshed now r c) = now"
  "cl_created (cellRow i now c) = now"
  by (simp_all add: cellRow_def refreshed_def)


section \<open>Witnesses\<close>

definition sampleStamp :: string where "sampleStamp = formatRFC3339Nano (sampleTime 12 0)"

definition sampleInventory :: InventoryDB where
  "sampleInventory = emptyInventory\<lparr>iv_cells := [cellRow 1 sampleStamp (areaCell 1 2 10 20 5 ''mme1''),
     cellRow 2 sampleStamp (siteCell 2 1 100 20 ''mme1'')], iv_cellSeq := 2\<rparr>"

lemma cl_plmn_cellRow [simp]: "cl_plmn (cellRow i now c) = c_PLMN c"
  by (simp add: cellRow_def)

lemma sampleInventory_cells: "inventoryCells sampleInventory"
proof -
  have "c_PLMN (areaCell 1 2 10 20 5 ''mme1'') = \<lparr>plmn_MCC = ''311'', plmn_MNC = ''435'', plmn_MNCLength = 3\<rparr>"
    "c_ECI (areaCell 1 2 10 20 5 ''mme1'') = 258" "c_ECI (siteCell 2 1 100 20 ''mme1'') = 513"
    "c_PLMN (siteCell 2 1 100 20 ''mme1'') = \<lparr>plmn_MCC = ''311'', plmn_MNC = ''435'', plmn_MNCLength = 3\<rparr>"
    by (simp_all add: areaCell_def siteCell_def)
  then show ?thesis by (simp add: sampleInventory_def inventoryCells_def tableOK_def plainPLMN_def)
qed

lemma sampleInventory_keys: "rowKey ` set (iv_cells sampleInventory) =
    {(\<lparr>plmn_MCC = ''311'', plmn_MNC = ''435'', plmn_MNCLength = 3\<rparr>, 258), (\<lparr>plmn_MCC = ''311'', plmn_MNC = ''435'', plmn_MNCLength = 3\<rparr>, 513)}"
  by (auto simp: sampleInventory_def areaCell_def siteCell_def)

definition sampleImport :: ApplyImportInput where
  "sampleImport = \<lparr>ai_ImportID = ''imp-1'', ai_Mode = Replace, ai_Cells = take 2 sampleCells, ai_VersionName = ''import-imp-1'',
     ai_SourceFilename = ''cells.csv'', ai_SourceSHA256 = []\<rparr>"

lemma ApplyImport_total:
  assumes "ai_Mode i \<in> {Merge, Replace}" "versionID \<notin> set (map vr_id (iv_versions db))" "ai_VersionName i \<notin> set (map vr_name (iv_versions db))"
    and "distinct (map ecgiOf (ai_Cells i))"
  shows "\<exists>res db'. ApplyImport None time versionID i db = Inr (res, db')"
  using assms(1-3) unfolding ApplyImport_def Let_def foldl_applyCell [OF assms(4)] by auto


end
