(* ===== verification/Inventory_Selection.thy ===== *)
theory Inventory_Selection
  imports Inventory_Store
begin

text \<open>
  \<open>internal/inventory/selection.go\<close> and \<open>SelectionPreview\<close> of \<open>internal/inventory/service.go\<close>: from a
  warning area to the cells that cover it, by the bounding boxes in the database first and the stored
  geometry then, and the grouping of the selected cells by MME.
\<close>

section \<open>Requests and results\<close>

definition PolicyConservativeIntersection :: string where
  "PolicyConservativeIntersection = ''conservative-intersection''"

definition ReasonCoverageIntersection :: string where "ReasonCoverageIntersection = ''coverage_intersection''"
definition ReasonCenterInside :: string where "ReasonCenterInside = ''center_inside''"

record SelectionRequest =
  sq_PLMN :: InventoryPLMN
  sq_Policy :: string
  sq_Area :: string

record SelectedCell =
  sc_ID :: int
  sc_ECI :: u32
  sc_TAC :: u16
  sc_ENBID :: u32
  sc_MMEName :: string
  sc_GeometryQuality :: string
  sc_SelectionReason :: string

record InventoryTAI =
  tai_MCC :: string
  tai_MNC :: string
  tai_TAC :: u16

record MMEPlan =
  mp_MMEName :: string
  mp_TAIs :: "InventoryTAI list"
  mp_ECIs :: "u32 list"

record SelectionResult =
  sr_InventoryVersion :: string
  sr_Policy :: string
  sr_CandidateCount :: nat
  sr_SelectedCount :: nat
  sr_Cells :: "SelectedCell list"
  sr_MMEPlans :: "MMEPlan list"
  sr_Warnings :: "string list"

datatype selection_error =
    UnsupportedPolicy string
  | InvalidArea geometry_error
  | FindCandidates inventory_error

section \<open>One cell\<close>

definition Evaluate :: "GeoCodec \<Rightarrow> Geometry \<Rightarrow> LTECell \<Rightarrow> bool \<times> string" where
  "Evaluate gj area cell =
     (if c_CoverageGeoJSON cell \<noteq> [] then
        (case ParseGeometry gj (c_CoverageGeoJSON cell) of
           Inl _ \<Rightarrow> (False, [])
         | Inr g \<Rightarrow> if Intersects area g then (True, ReasonCoverageIntersection) else (False, []))
      else case (c_Latitude cell, c_Longitude cell) of
          (Some lat, Some lon) \<Rightarrow> if ContainsPoint area lon lat then (True, ReasonCenterInside) else (False, [])
        | _ \<Rightarrow> (False, []))"

section \<open>Plans by MME\<close>

text \<open>The sets of TACs and ECIs of an MME are maps to \<open>true\<close> in Go, read in an arbitrary order and sorted.\<close>

type_synonym accum = "u16 set \<times> u32 set"

definition addCell :: "(string \<Rightarrow> accum option) \<times> string list \<Rightarrow> SelectedCell \<Rightarrow> (string \<Rightarrow> accum option) \<times> string list" where
  "addCell st c =
     (case st of (plans, order) \<Rightarrow>
       let name = sc_MMEName c;
           (a, order) = (case plans name of None \<Rightarrow> (({}, {}), order @ [name]) | Some a \<Rightarrow> (a, order))
       in (plans(name \<mapsto> (insert (sc_TAC c) (fst a), insert (sc_ECI c) (snd a))), order))"

definition mmePlan :: "InventoryPLMN \<Rightarrow> (string \<Rightarrow> accum option) \<Rightarrow> string \<Rightarrow> MMEPlan" where
  "mmePlan plmn plans name =
     (let a = (case plans name of None \<Rightarrow> ({}, {}) | Some a \<Rightarrow> a) in
      \<lparr>mp_MMEName = name,
       mp_TAIs = map (\<lambda>t. \<lparr>tai_MCC = plmn_MCC plmn, tai_MNC = plmn_MNC plmn, tai_TAC = t\<rparr>) (sorted_list_of_set (fst a)),
       mp_ECIs = sorted_list_of_set (snd a)\<rparr>)"

definition BuildMMEPlans :: "InventoryPLMN \<Rightarrow> SelectedCell list \<Rightarrow> MMEPlan list" where
  "BuildMMEPlans plmn cells =
     (case foldl addCell (Map.empty, []) cells of (plans, order) \<Rightarrow> map (mmePlan plmn plans) (sort order))"

section \<open>Selection\<close>

definition selectCell :: "GeoCodec \<Rightarrow> Geometry \<Rightarrow> LTECell \<Rightarrow> SelectedCell option" where
  "selectCell gj area c =
     (case Evaluate gj area c of (ok, reason) \<Rightarrow>
       if \<not> ok then None
       else Some \<lparr>sc_ID = c_ID c, sc_ECI = c_ECI c, sc_TAC = c_TAC c, sc_ENBID = c_ENBID c, sc_MMEName = c_MMEName c,
              sc_GeometryQuality = c_GeometryQuality c, sc_SelectionReason = reason\<rparr>)"

definition versionOf :: "inventory_error + InventoryVersion option \<Rightarrow> string \<times> string list" where
  "versionOf v =
     (case v of
        Inl _ \<Rightarrow> (''unversioned'', [''unable to determine current inventory version''])
      | Inr None \<Rightarrow> (''unversioned'', [''no inventory version has been applied yet''])
      | Inr (Some v) \<Rightarrow> (v_VersionName v, []))"

definition plmnFilter :: "InventoryPLMN \<Rightarrow> InventoryPLMN option" where
  "plmnFilter p = (if plmn_MCC p \<noteq> [] \<or> plmn_MNC p \<noteq> [] then Some p else None)"

definition SelectionPreview ::
    "GeoCodec \<Rightarrow> fault \<Rightarrow> fault \<Rightarrow> SelectionRequest \<Rightarrow> InventoryDB \<Rightarrow> selection_error + SelectionResult" where
  "SelectionPreview gj f g req db =
     (let policy = (if sq_Policy req = [] then PolicyConservativeIntersection else sq_Policy req) in
      failIf (policy \<noteq> PolicyConservativeIntersection) (UnsupportedPolicy policy) (
      andThen (wrapErr InvalidArea (ParseGeometry gj (sq_Area req))) (\<lambda>area.
      andThen (wrapErr FindCandidates (FindBoundingBoxCandidates f (BoundsOf area) (plmnFilter (sq_PLMN req)) db)) (\<lambda>candidates.
      let selected = List.map_filter (selectCell gj area) candidates;
          (versionName, warnings) = versionOf (CurrentInventoryVersion g db)
      in Inr \<lparr>sr_InventoryVersion = versionName, sr_Policy = policy, sr_CandidateCount = length candidates,
           sr_SelectedCount = length selected, sr_Cells = selected, sr_MMEPlans = BuildMMEPlans (sq_PLMN req) selected,
           sr_Warnings = warnings\<rparr>))))"

section \<open>Sound rows\<close>

text \<open>
  A stored row that was made from a valid cell: its times can be read, and the box columns are the
  bounding box of the stored geometry, or NULL without one.
\<close>

definition rowBounds :: "CellRow \<Rightarrow> GeoBounds option" where
  "rowBounds r =
     (case (cl_minlat r, cl_minlon r, cl_maxlat r, cl_maxlon r) of
        (Some a, Some b, Some c, Some d) \<Rightarrow> Some \<lparr>MinLatitude = a, MinLongitude = b, MaxLatitude = c, MaxLongitude = d\<rparr>
      | _ \<Rightarrow> None)"

definition soundRow :: "GeoCodec \<Rightarrow> CellRow \<Rightarrow> bool" where
  "soundRow gj r \<longleftrightarrow>
     parseRFC3339 (cl_created r) \<noteq> None \<and> parseRFC3339 (cl_updated r) \<noteq> None \<and>
     (case cl_geojson r of
        None \<Rightarrow> cl_minlon r = None
      | Some s \<Rightarrow> s \<noteq> [] \<and> (\<exists>g. ParseGeometry gj s = Inr g \<and> rowBounds r = Some (BoundsOf g)))"

lemma bindReal_finite: "finite64 x \<Longrightarrow> bindReal (Some x) = Some x"
  by (auto simp: bindReal_def finite64_def)

lemma isBox_finite:
  assumes "isBox b ps" "list_all finitePoint ps"
  shows "finite64 (MinLatitude b)" "finite64 (MinLongitude b)" "finite64 (MaxLatitude b)" "finite64 (MaxLongitude b)"
  using assms by (auto simp: isBox_def list_all_iff finitePoint_def)

lemma cellRow_sound:
  assumes "goodCodec gj" "validCell gj c" "parseRFC3339 now \<noteq> None"
  shows "soundRow gj (cellRow i now c)"
proof (cases "c_CoverageGeoJSON c = []")
  case True
  then show ?thesis using assms by (simp add: soundRow_def cellRow_def validCell_def bindReal_def)
next
  case False
  then obtain b where b: "c_Bounds c = Some b" "ValidateCoverageGeoJSON gj (c_CoverageGeoJSON c) = Inr (c_CoverageGeoJSON c, b)"
    using assms(2) by (auto simp: validCell_def)
  then obtain g where g: "ParseGeometry gj (c_CoverageGeoJSON c) = Inr g" "b = BoundsOf g"
    by (auto simp: ValidateCoverage_iff [OF assms(1)])
  have fp: "list_all finitePoint (geometryPoints g)"
    by (rule floatGeometry_finite [OF ParseGeometry_floats [OF assms(1) g(1)]])
  have box: "isBox b (geometryPoints g)"
    unfolding g(2) by (rule BoundsOf_box [OF okGeometry_points [OF ParseGeometry_ok [OF g(1)]] fp])
  show ?thesis using False assms(3) b(1) g isBox_finite [OF box fp]
    by (simp add: soundRow_def cellRow_def rowBounds_def bindReal_finite)
qed

lemma soundRow_same: "soundRow gj r \<Longrightarrow> parseRFC3339 (cl_created s) \<noteq> None \<Longrightarrow> parseRFC3339 (cl_updated s) \<noteq> None \<Longrightarrow>
    cl_geojson s = cl_geojson r \<Longrightarrow> rowBounds s = rowBounds r \<Longrightarrow> cl_minlon s = cl_minlon r \<Longrightarrow> soundRow gj s"
  by (auto simp: soundRow_def split: option.splits)

section \<open>Which cells are selected\<close>

definition inNetwork :: "InventoryPLMN \<Rightarrow> CellRow \<Rightarrow> bool" where
  "inNetwork p r \<longleftrightarrow> (plmn_MCC p = [] \<and> plmn_MNC p = []) \<or> (plmn_MCC (cl_plmn r) = plmn_MCC p \<and> plmn_MNC (cl_plmn r) = plmn_MNC p)"

text \<open>A cell covers an area with its geometry, or, without one, with its position.\<close>

definition covers :: "GeoCodec \<Rightarrow> Geometry \<Rightarrow> CellRow \<Rightarrow> bool" where
  "covers gj area r \<longleftrightarrow>
     (case cl_geojson r of
        Some s \<Rightarrow> (\<exists>g. ParseGeometry gj s = Inr g \<and> Intersects area g)
      | None \<Rightarrow> (\<exists>lat lon. cl_lat r = Some lat \<and> cl_lon r = Some lon \<and>
                 inBounds (BoundsOf area) \<lparr>Lon = lon, Lat = lat\<rparr> \<and> ContainsPoint area lon lat))"

definition scanned :: "CellRow \<Rightarrow> LTECell" where
  "scanned r = (case scanCell r of Inl _ \<Rightarrow> zeroCell | Inr c \<Rightarrow> c)"

lemma scanCell_sound: "soundRow gj r \<Longrightarrow> scanCell r = Inr (scanned r)"
  by (auto simp: soundRow_def scanned_def scanCell_def)

lemma scanned_fields:
  assumes "soundRow gj r"
  shows "c_ID (scanned r) = cl_id r" "c_ECI (scanned r) = cl_eci r" "c_TAC (scanned r) = cl_tac r"
    "c_ENBID (scanned r) = cl_enb r" "c_MMEName (scanned r) = cl_mme r" "c_GeometryQuality (scanned r) = cl_quality r"
    "c_Latitude (scanned r) = cl_lat r" "c_Longitude (scanned r) = cl_lon r"
    "c_CoverageGeoJSON (scanned r) = (case cl_geojson r of None \<Rightarrow> [] | Some s \<Rightarrow> s)"
proof -
  from assms obtain t u where t: "parseRFC3339 (cl_created r) = Some t" "parseRFC3339 (cl_updated r) = Some u"
    by (auto simp: soundRow_def)
  show "c_ID (scanned r) = cl_id r" "c_ECI (scanned r) = cl_eci r" "c_TAC (scanned r) = cl_tac r"
    "c_ENBID (scanned r) = cl_enb r" "c_MMEName (scanned r) = cl_mme r" "c_GeometryQuality (scanned r) = cl_quality r"
    "c_Latitude (scanned r) = cl_lat r" "c_Longitude (scanned r) = cl_lon r"
    "c_CoverageGeoJSON (scanned r) = (case cl_geojson r of None \<Rightarrow> [] | Some s \<Rightarrow> s)"
    by (simp_all add: scanned_def scanCell_def t)
qed

definition reasonOf :: "CellRow \<Rightarrow> string" where
  "reasonOf r = (if cl_geojson r = None then ReasonCenterInside else ReasonCoverageIntersection)"

definition selectedOf :: "CellRow \<Rightarrow> SelectedCell" where
  "selectedOf r = \<lparr>sc_ID = cl_id r, sc_ECI = cl_eci r, sc_TAC = cl_tac r, sc_ENBID = cl_enb r, sc_MMEName = cl_mme r,
     sc_GeometryQuality = cl_quality r, sc_SelectionReason = reasonOf r\<rparr>"

lemma rowBounds_Some: "rowBounds r = Some b \<Longrightarrow> cl_minlat r = Some (MinLatitude b) \<and> cl_minlon r = Some (MinLongitude b) \<and>
    cl_maxlat r = Some (MaxLatitude b) \<and> cl_maxlon r = Some (MaxLongitude b)"
  by (auto simp: rowBounds_def split: option.splits)

text \<open>The candidates of the database contain every covering cell, so that the exact test decides.\<close>

lemma selectCell_candidate:
  assumes "soundRow gj r"
  shows "(if isCandidate (BoundsOf area) (plmnFilter p) r then selectCell gj area (scanned r) else None) =
    (if cl_active r \<and> inNetwork p r \<and> covers gj area r then Some (selectedOf r) else None)"
proof (cases "cl_geojson r")
  case None
  then have m: "cl_minlon r = None" using assms by (simp add: soundRow_def)
  show ?thesis using None m scanned_fields [OF assms]
    by (auto simp: isCandidate_def plmnFilter_def inNetwork_def covers_def selectCell_def Evaluate_def selectedOf_def reasonOf_def
        sqlLE_def inBounds_def split: option.splits if_splits)
next
  case (Some s)
  then obtain g where g: "s \<noteq> []" "ParseGeometry gj s = Inr g" "rowBounds r = Some (BoundsOf g)"
    using assms by (auto simp: soundRow_def)
  note b = rowBounds_Some [OF g(3)]
  have c: "isCandidate (BoundsOf area) (plmnFilter p) r \<longleftrightarrow>
      cl_active r \<and> inNetwork p r \<and> boundsOverlap (BoundsOf area) (BoundsOf g)"
    using b by (auto simp: isCandidate_def plmnFilter_def inNetwork_def boundsOverlap_def sqlLE_def)
  have e: "Evaluate gj area (scanned r) = (if Intersects area g then (True, ReasonCoverageIntersection) else (False, []))"
    using g scanned_fields(9) [OF assms] Some by (simp add: Evaluate_def)
  have s: "selectCell gj area (scanned r) = (if Intersects area g then Some (selectedOf r) else None)"
    using scanned_fields [OF assms] Some by (simp add: selectCell_def e selectedOf_def reasonOf_def)
  have v: "covers gj area r = Intersects area g" using Some g by (simp add: covers_def)
  have "Intersects area g \<Longrightarrow> boundsOverlap (BoundsOf area) (BoundsOf g)" by (simp add: Intersects_def split: if_splits)
  then show ?thesis by (auto simp: c s v)
qed

lemma map_filter_filter: "List.map_filter f (filter P xs) = List.map_filter (\<lambda>x. if P x then f x else None) xs"
  by (induction xs) (auto simp: List.map_filter_simps split: option.splits)

lemma map_filter_if: "List.map_filter (\<lambda>x. if P x then Some (f x) else None) xs = map f (filter P xs)"
  by (induction xs) (auto simp: List.map_filter_simps)

lemma map_filter_map: "List.map_filter f (map g xs) = List.map_filter (\<lambda>x. f (g x)) xs"
  by (induction xs) (auto simp: List.map_filter_simps split: option.splits)

lemma map_filter_cong: "(\<And>x. x \<in> set xs \<Longrightarrow> f x = g x) \<Longrightarrow> List.map_filter f xs = List.map_filter g xs"
  by (induction xs) (auto simp: List.map_filter_simps split: option.splits)

lemma SelectionPreview_cells:
  assumes "list_all (soundRow gj) (iv_cells db)" "SelectionPreview gj f g req db = Inr res"
  shows "\<exists>area. ParseGeometry gj (sq_Area req) = Inr area \<and>
    sr_Cells res = map selectedOf (filter (\<lambda>r. cl_active r \<and> inNetwork (sq_PLMN req) r \<and> covers gj area r) (iv_cells db)) \<and>
    sr_MMEPlans res = BuildMMEPlans (sq_PLMN req) (sr_Cells res)"
proof -
  obtain vn w where v: "versionOf (CurrentInventoryVersion g db) = (vn, w)" by fastforce
  from assms(2) obtain area cands where a: "ParseGeometry gj (sq_Area req) = Inr area"
    and c: "FindBoundingBoxCandidates f (BoundsOf area) (plmnFilter (sq_PLMN req)) db = Inr cands"
    and r: "sr_Cells res = List.map_filter (selectCell gj area) cands" "sr_MMEPlans res = BuildMMEPlans (sq_PLMN req) (sr_Cells res)"
    by (auto simp: SelectionPreview_def Let_def andThen_eq_Inr v)
  let ?P = "isCandidate (BoundsOf area) (plmnFilter (sq_PLMN req))"
  have s: "soundRow gj x" if "x \<in> set (iv_cells db)" for x using assms(1) that by (simp add: list_all_iff)
  have "mapE scanCell (filter ?P (iv_cells db)) = Inr (map scanned (filter ?P (iv_cells db)))"
    by (rule mapE_total) (use s scanCell_sound in auto)
  with c have "cands = map scanned (filter ?P (iv_cells db))" by (simp add: FindBoundingBoxCandidates_def driver_Inr)
  then have "sr_Cells res = List.map_filter (\<lambda>x. if ?P x then selectCell gj area (scanned x) else None) (iv_cells db)"
    by (simp add: r(1) map_filter_map map_filter_filter)
  also have "\<dots> = map selectedOf (filter (\<lambda>x. cl_active x \<and> inNetwork (sq_PLMN req) x \<and> covers gj area x) (iv_cells db))"
    unfolding map_filter_if [symmetric] by (rule map_filter_cong) (rule selectCell_candidate [OF s])
  finally show ?thesis using a r(2) by blast
qed

lemma SelectionPreview_total:
  assumes "list_all (soundRow gj) (iv_cells db)" "sq_Policy req \<in> {[], PolicyConservativeIntersection}"
    and "ParseGeometry gj (sq_Area req) = Inr area"
  shows "\<exists>res. SelectionPreview gj None g req db = Inr res"
proof -
  let ?P = "isCandidate (BoundsOf area) (plmnFilter (sq_PLMN req))"
  have "mapE scanCell (filter ?P (iv_cells db)) = Inr (map scanned (filter ?P (iv_cells db)))"
    by (rule mapE_total) (use assms(1) scanCell_sound in \<open>auto simp: list_all_iff\<close>)
  then have c: "FindBoundingBoxCandidates None (BoundsOf area) (plmnFilter (sq_PLMN req)) db = Inr (map scanned (filter ?P (iv_cells db)))"
    by (simp add: FindBoundingBoxCandidates_def)
  obtain vn w where v: "versionOf (CurrentInventoryVersion g db) = (vn, w)" by fastforce
  show ?thesis using assms(2) by (auto simp: SelectionPreview_def Let_def assms(3) c v)
qed

section \<open>Plans by MME\<close>

lemma foldl_addCell:
  assumes "foldl addCell (Map.empty, []) cells = (plans, order)"
  shows "distinct order \<and> set order = sc_MMEName ` set cells \<and>
    plans = (\<lambda>n. if n \<in> sc_MMEName ` set cells then
      Some (sc_TAC ` {c \<in> set cells. sc_MMEName c = n}, sc_ECI ` {c \<in> set cells. sc_MMEName c = n}) else None)"
  using assms
proof (induction cells arbitrary: plans order rule: rev_induct)
  case Nil
  then show ?case by auto
next
  case (snoc c cs)
  obtain p o' where f: "foldl addCell (Map.empty, []) cs = (p, o')" by fastforce
  note ih = snoc.IH [OF f]
  have step: "addCell (p, o') c = (plans, order)" using snoc.prems f by simp
  show ?case
  proof (cases "sc_MMEName c \<in> sc_MMEName ` set cs")
    case True
    then have "order = o'" "plans = p(sc_MMEName c \<mapsto>
        (insert (sc_TAC c) (sc_TAC ` {x \<in> set cs. sc_MMEName x = sc_MMEName c}),
         insert (sc_ECI c) (sc_ECI ` {x \<in> set cs. sc_MMEName x = sc_MMEName c})))"
      using step ih by (simp_all add: addCell_def Let_def)
    then show ?thesis using ih True by (auto simp: fun_eq_iff)
  next
    case False
    then have e: "{x \<in> set cs. sc_MMEName x = sc_MMEName c} = {}"
      using imageI [of _ "set cs" sc_MMEName] by (metis (mono_tags, lifting) Collect_empty_eq)
    from False have "order = o' @ [sc_MMEName c]" "plans = p(sc_MMEName c \<mapsto> ({sc_TAC c}, {sc_ECI c}))"
      using step ih by (simp_all add: addCell_def Let_def)
    then show ?thesis using ih False e by (auto simp: fun_eq_iff)
  qed
qed

lemma BuildMMEPlans_exact:
  "sorted_wrt (<) (map mp_MMEName (BuildMMEPlans plmn cells)) \<and>
   mp_MMEName ` set (BuildMMEPlans plmn cells) = sc_MMEName ` set cells \<and>
   (\<forall>p \<in> set (BuildMMEPlans plmn cells).
     mp_TAIs p = map (\<lambda>t. \<lparr>tai_MCC = plmn_MCC plmn, tai_MNC = plmn_MNC plmn, tai_TAC = t\<rparr>)
       (sorted_list_of_set (sc_TAC ` {c \<in> set cells. sc_MMEName c = mp_MMEName p})) \<and>
     mp_ECIs p = sorted_list_of_set (sc_ECI ` {c \<in> set cells. sc_MMEName c = mp_MMEName p}))"
proof -
  obtain plans order where f: "foldl addCell (Map.empty, []) cells = (plans, order)" by fastforce
  note h = foldl_addCell [OF f]
  have b: "BuildMMEPlans plmn cells = map (mmePlan plmn plans) (sort order)" by (simp add: BuildMMEPlans_def f)
  have n: "mp_MMEName (mmePlan plmn plans x) = x" for x by (simp add: mmePlan_def Let_def)
  have "map mp_MMEName (BuildMMEPlans plmn cells) = sort order" by (simp add: b n comp_def)
  moreover have "sorted_wrt (<) (sort order)" using h by (simp add: strict_sorted_iff)
  moreover have "mp_MMEName ` set (BuildMMEPlans plmn cells) = sc_MMEName ` set cells"
    unfolding b set_map image_image n using h by simp
  ultimately show ?thesis using h by (auto simp: b n) (auto simp: mmePlan_def Let_def)
qed

section \<open>Properties\<close>

text \<open>C21: the cells selected for a warning area are exactly the active cells of the network asked for whose
  stored coverage intersects the area, or, for a cell without coverage, whose position lies in the
  area; each is selected once, with its own identities. The test on bounding boxes that the database
  makes first loses no cell, because the box stored with a coverage is the box of that coverage, and
  a stored coverage can always be read.\<close>

theorem selection_exact:
  assumes "list_all (soundRow gj) (iv_cells db)" "inventoryCells db" "SelectionPreview gj f g req db = Inr res"
  shows "\<exists>area. ParseGeometry gj (sq_Area req) = Inr area \<and> distinct (map sc_ID (sr_Cells res)) \<and>
    set (sr_Cells res) = selectedOf ` {r \<in> set (iv_cells db). cl_active r \<and> inNetwork (sq_PLMN req) r \<and> covers gj area r}"
proof -
  obtain area where a: "ParseGeometry gj (sq_Area req) = Inr area"
    "sr_Cells res = map selectedOf (filter (\<lambda>r. cl_active r \<and> inNetwork (sq_PLMN req) r \<and> covers gj area r) (iv_cells db))"
    using SelectionPreview_cells [OF assms(1,3)] by blast
  have "map sc_ID (sr_Cells res) = map cl_id (filter (\<lambda>r. cl_active r \<and> inNetwork (sq_PLMN req) r \<and> covers gj area r) (iv_cells db))"
    by (simp add: a(2) selectedOf_def comp_def)
  moreover have "distinct (map cl_id (iv_cells db))" using assms(2) by (simp add: inventoryCells_def tableOK_def)
  ultimately have "distinct (map sc_ID (sr_Cells res))" by (simp add: distinct_map_filter)
  moreover have "set (sr_Cells res) = selectedOf ` {r \<in> set (iv_cells db). cl_active r \<and> inNetwork (sq_PLMN req) r \<and> covers gj area r}"
    by (simp add: a(2))
  ultimately show ?thesis using a(1) by blast
qed

text \<open>The plans made of a selection list every MME of a selected cell once, in increasing order of
  names, and with each MME exactly the tracking areas and the cell identities of its selected cells,
  in increasing order and without repetition.\<close>

theorem mme_plans_exact:
  assumes "plans = BuildMMEPlans plmn cells"
  shows "sorted_wrt (<) (map mp_MMEName plans) \<and> mp_MMEName ` set plans = sc_MMEName ` set cells \<and>
    (\<forall>p \<in> set plans. sorted_wrt (<) (mp_ECIs p) \<and> sorted_wrt (<) (map tai_TAC (mp_TAIs p)) \<and>
      set (mp_ECIs p) = sc_ECI ` {c \<in> set cells. sc_MMEName c = mp_MMEName p} \<and>
      set (mp_TAIs p) = (\<lambda>c. \<lparr>tai_MCC = plmn_MCC plmn, tai_MNC = plmn_MNC plmn, tai_TAC = sc_TAC c\<rparr>) `
        {c \<in> set cells. sc_MMEName c = mp_MMEName p})"
proof -
  have fin: "finite (f ` {c \<in> set cells. sc_MMEName c = n})" for f :: "SelectedCell \<Rightarrow> 'a" and n by simp
  have t: "map tai_TAC (map (\<lambda>t. \<lparr>tai_MCC = a, tai_MNC = b, tai_TAC = t\<rparr>) ts) = ts" for a b ts by (simp add: comp_def)
  have p: "sorted_wrt (<) (mp_ECIs p) \<and> sorted_wrt (<) (map tai_TAC (mp_TAIs p)) \<and>
      set (mp_ECIs p) = sc_ECI ` {c \<in> set cells. sc_MMEName c = mp_MMEName p} \<and>
      set (mp_TAIs p) = (\<lambda>c. \<lparr>tai_MCC = plmn_MCC plmn, tai_MNC = plmn_MNC plmn, tai_TAC = sc_TAC c\<rparr>) `
        {c \<in> set cells. sc_MMEName c = mp_MMEName p}" if "p \<in> set plans" for p
  proof -
    have e: "mp_TAIs p = map (\<lambda>t. \<lparr>tai_MCC = plmn_MCC plmn, tai_MNC = plmn_MNC plmn, tai_TAC = t\<rparr>)
        (sorted_list_of_set (sc_TAC ` {c \<in> set cells. sc_MMEName c = mp_MMEName p}))"
      "mp_ECIs p = sorted_list_of_set (sc_ECI ` {c \<in> set cells. sc_MMEName c = mp_MMEName p})"
      using BuildMMEPlans_exact [of plmn cells] that assms by blast+
    show ?thesis unfolding e t by (simp add: fin image_image)
  qed
  then show ?thesis using BuildMMEPlans_exact [of plmn cells] assms by blast
qed

section \<open>Witnesses\<close>

lemma sampleStamp_ok: "parseRFC3339 sampleStamp \<noteq> None"
proof -
  have "textTime (sampleTime 12 0)" by (rule sampleTime_ok) simp_all
  then show ?thesis by (simp add: sampleStamp_def parse_format)
qed

lemma sampleInventory_sound: "list_all (soundRow sampleCodec) (iv_cells sampleInventory)"
proof -
  have a: "validCell sampleCodec (areaCell 1 2 10 20 5 ''mme1'')" by (intro areaCell_valid siteCell_valid) simp_all
  have b: "validCell sampleCodec (siteCell 2 1 100 20 ''mme1'')" by (rule siteCell_valid) simp_all
  show ?thesis using cellRow_sound [OF sampleCodec_good a sampleStamp_ok] cellRow_sound [OF sampleCodec_good b sampleStamp_ok]
    by (simp add: sampleInventory_def)
qed

definition sampleRequest :: SelectionRequest where
  "sampleRequest = \<lparr>sq_PLMN = \<lparr>plmn_MCC = ''311'', plmn_MNC = ''435'', plmn_MNCLength = 3\<rparr>, sq_Policy = [], sq_Area = squareText 10 20 5\<rparr>"

lemma Intersects_sample: "Intersects (squareGeometry 10 20 5) (squareGeometry 10 20 5)"
proof -
  have "boundsOverlap (BoundsOf (squareGeometry 10 20 5)) (BoundsOf (squareGeometry 10 20 5))"
    by (simp add: boundsOverlap_def BoundsOf_def geometryPoints_def squareGeometry_def squareRing_def square_def extendBounds_def Let_def)
  moreover have z: "round64 0 = Finite 0" by (simp add: round64_def)
  have "segmentsIntersect \<lparr>Lon = Finite 10, Lat = Finite 20\<rparr> \<lparr>Lon = Finite 15, Lat = Finite 20\<rparr> \<lparr>Lon = Finite 10, Lat = Finite 20\<rparr> \<lparr>Lon = Finite 15, Lat = Finite 20\<rparr>"
  proof -
    have f: "round64 5 = Finite 5" using isFloat_numeral(1) [of "num.Bit1 (num.Bit0 num.One)"] by (simp add: isFloat_def)
    have "orientation \<lparr>Lon = Finite 10, Lat = Finite 20\<rparr> \<lparr>Lon = Finite 15, Lat = Finite 20\<rparr> \<lparr>Lon = Finite 10, Lat = Finite 20\<rparr> = 0"
      by (simp add: orientation_def Let_def fsub_def f z)
    then show ?thesis by (simp add: segmentsIntersect_def Let_def onSegment_def fmax_def fmin_def)
  qed
  ultimately show ?thesis
    by (simp add: Intersects_def squareGeometry_def polygonsIntersect_def edges_def squareRing_def square_def)
qed

lemma areaCell_covers: "covers sampleCodec (squareGeometry 10 20 5) (cellRow i now (areaCell 1 2 10 20 5 mme))"
proof -
  let ?a = "cellRow i now (areaCell 1 2 10 20 5 mme)"
  have p: "ParseGeometry sampleCodec (squareText 10 20 5) = Inr (squareGeometry 10 20 5)"
    unfolding squareGeometry_def by (rule ParseGeometry_square) simp_all
  have v: "ValidateCoverageGeoJSON sampleCodec (squareText 10 20 5) =
      Inr (gj_textPolygon sampleCodec (ringsToCoords [squareRing 10 20 5]), BoundsOf (squareGeometry 10 20 5))"
    by (rule ValidateCoverage_square) simp_all
  from coverage_lemma [OF sampleCodec_good v] p
  have c: "ParseGeometry sampleCodec (gj_textPolygon sampleCodec (ringsToCoords [squareRing 10 20 5])) = Inr (squareGeometry 10 20 5)"
    and ne: "gj_textPolygon sampleCodec (ringsToCoords [squareRing 10 20 5]) \<noteq> []"
    by auto
  have "cl_geojson ?a = Some (gj_textPolygon sampleCodec (ringsToCoords [squareRing 10 20 5]))"
    using ne by (simp add: cellRow_def areaCell_def)
  then show "covers sampleCodec (squareGeometry 10 20 5) ?a" using c Intersects_sample by (simp add: covers_def)
qed

theorem selection_exact_witness:
  "\<exists>res. SelectionPreview sampleCodec None None sampleRequest sampleInventory = Inr res \<and> sc_ID ` set (sr_Cells res) = {1}"
proof -
  let ?a = "cellRow 1 sampleStamp (areaCell 1 2 10 20 5 ''mme1'')" and ?b = "cellRow 2 sampleStamp (siteCell 2 1 100 20 ''mme1'')"
  have p: "ParseGeometry sampleCodec (sq_Area sampleRequest) = Inr (squareGeometry 10 20 5)"
    unfolding sampleRequest_def squareGeometry_def SelectionRequest.select_convs by (rule ParseGeometry_square) simp_all
  obtain res where r: "SelectionPreview sampleCodec None None sampleRequest sampleInventory = Inr res"
    using SelectionPreview_total [OF sampleInventory_sound _ p, of None] by (auto simp: sampleRequest_def)
  have a: "covers sampleCodec (squareGeometry 10 20 5) ?a" by (rule areaCell_covers)
  have "cl_geojson ?b = None" "cl_lon ?b = Some (Finite 100)" by (simp_all add: cellRow_def siteCell_def zeroCell_def bindReal_def)
  moreover have "\<not> inBounds (BoundsOf (squareGeometry 10 20 5)) \<lparr>Lon = Finite 100, Lat = lat\<rparr>" for lat
    by (simp add: inBounds_def BoundsOf_def geometryPoints_def squareGeometry_def squareRing_def square_def extendBounds_def Let_def)
  ultimately have b: "\<not> covers sampleCodec (squareGeometry 10 20 5) ?b" by (auto simp: covers_def)
  have n: "inNetwork (sq_PLMN sampleRequest) ?a" "cl_active ?a"
    by (simp_all add: inNetwork_def sampleRequest_def areaCell_def siteCell_def)
  have "{x \<in> set (iv_cells sampleInventory). cl_active x \<and> inNetwork (sq_PLMN sampleRequest) x \<and>
      covers sampleCodec (squareGeometry 10 20 5) x} = {?a}"
    using a b n by (auto simp: sampleInventory_def)
  then have "sc_ID ` set (sr_Cells res) = {1}"
    using selection_exact [OF sampleInventory_sound sampleInventory_cells r] p by (auto simp: selectedOf_def)
  then show ?thesis using r by blast
qed

theorem mme_plans_exact_witness:
  "\<exists>p. BuildMMEPlans (sq_PLMN sampleRequest) (map selectedOf (iv_cells sampleInventory)) = [p] \<and> mp_MMEName p = ''mme1'' \<and>
    set (mp_ECIs p) = {258, 513}"
proof -
  let ?s = "map selectedOf (iv_cells sampleInventory)" and ?plans = "BuildMMEPlans (sq_PLMN sampleRequest) (map selectedOf (iv_cells sampleInventory))"
  note h = mme_plans_exact [OF refl, of "sq_PLMN sampleRequest" ?s]
  have names: "sc_MMEName ` set ?s = {''mme1''}"
    by (simp add: sampleInventory_def selectedOf_def cellRow_def areaCell_def siteCell_def)
  then have "set (map mp_MMEName ?plans) = {''mme1''}" using h by simp
  moreover have "distinct (map mp_MMEName ?plans)" using h by (simp add: strict_sorted_iff)
  ultimately have "length ?plans = 1" using distinct_card [of "map mp_MMEName ?plans"] by simp
  then obtain p where p: "?plans = [p]" by (auto simp: length_Suc_conv)
  have m: "mp_MMEName p = ''mme1''" using h names p by simp
  have "set (mp_ECIs p) = sc_ECI ` {c \<in> set ?s. sc_MMEName c = mp_MMEName p}" using h p by simp
  also have "{c \<in> set ?s. sc_MMEName c = mp_MMEName p} = set ?s" 
  proof -
    have "sc_MMEName c = mp_MMEName p" if "c \<in> set ?s" for c using imageI [OF that, of sc_MMEName] unfolding names m by simp
    then show ?thesis by blast
  qed
  also have "sc_ECI ` set ?s = {258, 513}"
    by (simp add: sampleInventory_def selectedOf_def cellRow_def areaCell_def siteCell_def)
  finally show ?thesis using p m by blast
qed

end
