(* ===== verification/Inventory_Service.thy ===== *)
theory Inventory_Service
  imports Inventory_Selection
begin

text \<open>
  \<open>internal/inventory/service.go\<close> and the service part of \<open>create.go\<close>: the upload of an inventory file,
  and the creation and deletion of single cells. The selection is in \<open>Inventory_Selection\<close>. The
  functions \<open>GetImport\<close>, \<open>ListImportErrors\<close>, \<open>ListCells\<close>, \<open>GetCell\<close> and \<open>Export\<close> of the service call
  the repository function of that name and nothing else.
\<close>

section \<open>The service\<close>

record InventoryService =
  svc_maxImportSize :: int

definition defaultMaxImportSizeBytes :: int where "defaultMaxImportSizeBytes = 10 * 1024 * 1024"

definition NewInventoryService :: "int \<Rightarrow> InventoryService" where
  "NewInventoryService maxImportSize =
     \<lparr>svc_maxImportSize = (if maxImportSize \<le> 0 then defaultMaxImportSizeBytes else maxImportSize)\<rparr>"

text \<open>
  \<open>encoding/csv\<close> over a reader: the rows, or an error, and how many bytes it has consumed; the hash
  of the consumed bytes; and \<open>strings.ToLower\<close> outside ASCII.
\<close>

record CsvCodec =
  cc_rows :: "string \<Rightarrow> string + string list list"
  cc_used :: "string \<Rightarrow> nat"
  cc_sha :: "string \<Rightarrow> string"
  cc_lower :: "string \<Rightarrow> string"

text \<open>\<open>ReadAll\<close> succeeds only at the end of its input.\<close>

definition goodReader :: "CsvCodec \<Rightarrow> bool" where
  "goodReader cc \<longleftrightarrow> (\<forall>s rows. cc_rows cc s = Inr rows \<longrightarrow> cc_used cc s = length s)"

text \<open>\<open>filepath.Base\<close> on a system whose separator is the slash.\<close>

definition Base :: "string \<Rightarrow> string" where
  "Base path =
     (let p = rev (dropWhile (\<lambda>c. c = CHR ''/'') (rev path)) in
      if path = [] then ''.'' else if p = [] then ''/'' else rev (takeWhile (\<lambda>c. c \<noteq> CHR ''/'') (rev p)))"

definition safeName :: "string \<Rightarrow> string" where
  "safeName filename =
     (let n = Base (TrimSpace filename) in if n = [] \<or> n = ''.'' \<or> n = ''/'' then ''upload.csv'' else n)"

text \<open>What happens around one import: the drawn identifiers, the clock, and the failures of the database.\<close>

record ImportEnv =
  ie_ID :: string
  ie_Version :: string
  ie_Now :: gotime
  ie_Applied :: gotime
  ie_Failed :: gotime
  ie_Create :: fault
  ie_Errors :: fault
  ie_Apply :: fault
  ie_FailureErrors :: fault
  ie_FailureMark :: fault
  ie_Get :: fault

datatype import_error =
    InvalidImportMode string
  | UploadTooLarge
  | RecordImport inventory_error
  | RecordErrors inventory_error
  | ApplyFailed inventory_error
  | ReadImport inventory_error

section \<open>Import\<close>

text \<open>The bytes that the limited reader lets through; the limit is an \<open>int64\<close>.\<close>

definition limited :: "InventoryService \<Rightarrow> string \<Rightarrow> string" where
  "limited svc data = take (nat (sint (word_of_int (svc_maxImportSize svc + 1) :: u64))) data"

definition importResult :: "GeoCodec \<Rightarrow> CsvCodec \<Rightarrow> string \<Rightarrow> LTECell ParseResult" where
  "importResult gj cc input = ParseCSV gj (cc_lower cc) (cc_rows cc input)"

definition importRecord :: "CsvCodec \<Rightarrow> ImportEnv \<Rightarrow> string \<Rightarrow> string \<Rightarrow> ImportMode \<Rightarrow> LTECell ParseResult \<Rightarrow> InventoryImport" where
  "importRecord cc env filename input mode result =
     (let now = UTC (ie_Now env); fatal = (pr_Errors result \<noteq> []) in
      \<lparr>im_ID = ie_ID env, im_InventoryVersionID = [], im_SourceFilename = safeName filename,
       im_SourceSHA256 = cc_sha cc (take (cc_used cc input) input), im_Mode = mode,
       im_Status = (if mode = ValidateOnly then ''validated'' else if fatal then ''failed'' else ''pending''),
       im_RowsReceived = int (pr_Rows result), im_RowsValid = int (length (pr_Items result)),
       im_RowsRejected = int (pr_Rows result) - int (length (pr_Items result)),
       im_InsertedCount = 0, im_UpdatedCount = 0, im_DeactivatedCount = 0, im_WarningCount = 0,
       im_CreatedAt = now, im_CompletedAt = (if mode = ValidateOnly \<or> fatal then Some now else None)\<rparr>)"

definition applyInput :: "CsvCodec \<Rightarrow> ImportEnv \<Rightarrow> string \<Rightarrow> string \<Rightarrow> ImportMode \<Rightarrow> LTECell ParseResult \<Rightarrow> ApplyImportInput" where
  "applyInput cc env filename input mode result =
     \<lparr>ai_ImportID = ie_ID env, ai_Mode = mode, ai_Cells = pr_Items result, ai_VersionName = ''import-'' @ ie_ID env,
      ai_SourceFilename = safeName filename, ai_SourceSHA256 = cc_sha cc (take (cc_used cc input) input)\<rparr>"

definition orElse :: "InventoryDB \<Rightarrow> inventory_error + InventoryDB \<Rightarrow> InventoryDB" where
  "orElse db m = (case m of Inl _ \<Rightarrow> db | Inr db' \<Rightarrow> db')"

text \<open>After a failed application: the errors of these two statements are only logged.\<close>

definition recordFailure :: "ImportEnv \<Rightarrow> InventoryDB \<Rightarrow> InventoryDB" where
  "recordFailure env db =
     (let db = orElse db (StoreImportErrors (ie_FailureErrors env) (ie_ID env) [rowError 0 [] ''apply_failed''] db)
      in orElse db (MarkImportFailed (ie_FailureMark env) (ie_ID env) (UTC (ie_Failed env)) db))"

definition Import ::
    "GeoCodec \<Rightarrow> CsvCodec \<Rightarrow> InventoryService \<Rightarrow> ImportEnv \<Rightarrow> string \<Rightarrow> string \<Rightarrow> ImportMode \<Rightarrow> InventoryDB \<Rightarrow>
     (import_error + InventoryImport option) \<times> InventoryDB" where
  "Import gj cc svc env filename data mode db =
     (if mode \<noteq> ValidateOnly \<and> mode \<noteq> Merge \<and> mode \<noteq> Replace then (Inl (InvalidImportMode mode), db)
      else
        let input = limited svc data; result = importResult gj cc input; fatal = (pr_Errors result \<noteq> []);
            get = (\<lambda>db. (wrapErr ReadImport (GetImport (ie_Get env) (ie_ID env) db), db))
        in if int (cc_used cc input) > svc_maxImportSize svc then (Inl UploadTooLarge, db)
        else case CreateImport (ie_Create env) (importRecord cc env filename input mode result) db of
            Inl e \<Rightarrow> (Inl (RecordImport e), db)
          | Inr db \<Rightarrow>
              (case (if fatal then StoreImportErrors (ie_Errors env) (ie_ID env) (pr_Errors result) db else Inr db) of
                 Inl e \<Rightarrow> (Inl (RecordErrors e), db)
               | Inr db \<Rightarrow>
                   if mode = ValidateOnly \<or> fatal then get db
                   else case ApplyImport (ie_Apply env) (ie_Applied env) (ie_Version env)
                          (applyInput cc env filename input mode result) db of
                       Inl e \<Rightarrow> (Inl (ApplyFailed e), recordFailure env db)
                     | Inr (_, db) \<Rightarrow> get db))"

section \<open>Single cells\<close>

datatype create_error =
    InvalidCell "FieldError list"
  | CreateStore inventory_error

definition CreateCellService ::
    "GeoCodec \<Rightarrow> fault \<Rightarrow> fault \<Rightarrow> gotime \<Rightarrow> CreateCellInput \<Rightarrow> InventoryDB \<Rightarrow> (create_error + LTECell option) \<times> InventoryDB" where
  "CreateCellService gj f g time i db =
     (case validateNewCell gj i of (c, fieldErrs) \<Rightarrow>
       if fieldErrs \<noteq> [] then (Inl (InvalidCell fieldErrs), db)
       else case CreateCell f g time c db of (r, db) \<Rightarrow> (wrapErr CreateStore r, db))"

section \<open>All or nothing\<close>

lemma find_last: "P r \<Longrightarrow> \<forall>x \<in> set xs. \<not> P x \<Longrightarrow> find P (xs @ [r]) = Some r"
  by (induction xs) auto

lemma limited_all:
  assumes "0 < svc_maxImportSize svc" "svc_maxImportSize svc < 2 ^ 63 - 1" "int (length (limited svc data)) \<le> svc_maxImportSize svc"
  shows "limited svc data = data"
proof -
  have "sint (word_of_int n :: u64) = n" if "0 < n" "n < 2 ^ 63" for n
    using that by (simp add: signed_of_int signed_take_bit_int_eq_self)
  from this [of "svc_maxImportSize svc + 1"]
  have "sint (word_of_int (svc_maxImportSize svc + 1) :: u64) = svc_maxImportSize svc + 1" using assms(1,2) by simp
  then have l: "limited svc data = take (nat (svc_maxImportSize svc + 1)) data" by (simp add: limited_def)
  then have "length data \<le> nat (svc_maxImportSize svc)" using assms(1,3) by simp
  then show ?thesis using l by simp
qed

lemma CreateImport_result:
  "CreateImport f imp db = Inr db' \<Longrightarrow> \<exists>r. db' = db\<lparr>iv_imports := iv_imports db @ [r]\<rparr> \<and> ir_id r = im_ID imp \<and>
    ir_status r = im_Status imp \<and> im_ID imp \<notin> ir_id ` set (iv_imports db) \<and>
    (im_InventoryVersionID imp = [] \<longrightarrow> ir_version r = None)"
  by (auto simp: CreateImport_def driver_Inr)

lemma StoreImportErrors_result:
  "StoreImportErrors f i errs db = Inr db' \<Longrightarrow> \<exists>new. db' = db\<lparr>iv_errors := iv_errors db @ new\<rparr> \<and> (\<forall>e \<in> set new. er_import e = i)"
proof (cases "errs = []")
  case True
  then show "StoreImportErrors f i errs db = Inr db' \<Longrightarrow> ?thesis"
    by (intro exI [of _ "[]"]) (simp add: StoreImportErrors_def)
next
  case False
  then show "StoreImportErrors f i errs db = Inr db' \<Longrightarrow> ?thesis"
    by (intro exI [of _ "map (errorRow i) errs"]) (auto simp: StoreImportErrors_def driver_Inr errorRow_def)
qed

lemma MarkImportFailed_result:
  "MarkImportFailed f i t db = Inr db' \<Longrightarrow> \<exists>g. db' = db\<lparr>iv_imports := map g (iv_imports db)\<rparr> \<and> (\<forall>r. ir_id (g r) = ir_id r \<and> ir_version (g r) = ir_version r)"
  by (auto simp: MarkImportFailed_def driver_Inr)

lemma recordFailure_same: "iv_cells (recordFailure env db) = iv_cells db \<and> iv_versions (recordFailure env db) = iv_versions db \<and>
    iv_geocodes (recordFailure env db) = iv_geocodes db"
  by (auto simp: recordFailure_def orElse_def Let_def split: sum.split dest!: StoreImportErrors_result MarkImportFailed_result)

lemma loadImport_status: "loadImport r = Inr imp \<Longrightarrow> im_Status imp = ir_status r \<and> im_ID imp = ir_id r \<and>
    im_InsertedCount imp = ir_inserted r \<and> im_UpdatedCount imp = ir_updated r \<and> im_DeactivatedCount imp = ir_deactivated r"
  by (auto simp: loadImport_def andThen_eq_Inr)

lemma GetImport_find: "GetImport f i db = Inr (Some imp) \<Longrightarrow> \<exists>r. find (\<lambda>r. ir_id r = i) (iv_imports db) = Some r \<and> loadImport r = Inr imp"
  by (auto simp: GetImport_def driver_Inr andThen_eq_Inr split: option.splits)

lemma ApplyImport_untouched:
  assumes "ApplyImport f time versionID i db = Inr (res, db')" "distinct (map ecgiOf (ai_Cells i))"
  shows "iv_imports db' = map (\<lambda>r. if ir_id r = ai_ImportID i then
      r\<lparr>ir_status := ''completed'', ir_version := Some versionID, ir_inserted := ar_Inserted res,
        ir_updated := ar_Updated res, ir_deactivated := ar_Deactivated res, ir_completed := Some (formatRFC3339Nano (UTC time))\<rparr>
      else r) (iv_imports db)"
  using assms(1) unfolding ApplyImport_def Let_def foldl_applyCell [OF assms(2)] by (auto simp: driver_Inr)

text \<open>The row of the import that was just recorded.\<close>

lemma Import_stages:
  assumes "Import gj cc svc env filename data mode db = (res, db')"
  defines "input \<equiv> limited svc data"
  defines "result \<equiv> importResult gj cc input"
  shows "(iv_cells db' = iv_cells db \<and> iv_versions db' = iv_versions db \<and> iv_geocodes db' = iv_geocodes db \<and>
      (\<forall>imp. res = Inr (Some imp) \<longrightarrow> im_Status imp \<in> {''validated'', ''failed''})) \<or>
    (\<exists>db0 out r. iv_cells db0 = iv_cells db \<and> iv_cellSeq db0 = iv_cellSeq db \<and> iv_versions db0 = iv_versions db \<and> iv_geocodes db0 = iv_geocodes db \<and>
      mode \<in> {Merge, Replace} \<and> int (cc_used cc input) \<le> svc_maxImportSize svc \<and> pr_Errors result = [] \<and>
      ApplyImport None (ie_Applied env) (ie_Version env) (applyInput cc env filename input mode result) db0 = Inr (out, db') \<and>
      iv_imports db0 = iv_imports db @ [r] \<and> ir_id r = ie_ID env \<and> ie_ID env \<notin> ir_id ` set (iv_imports db) \<and>
      res = wrapErr ReadImport (GetImport (ie_Get env) (ie_ID env) db'))"
proof -
  let ?imp = "importRecord cc env filename input mode result"
  let ?fatal = "pr_Errors result \<noteq> []"
  note d = assms(1) [unfolded Import_def Let_def, folded input_def, folded result_def]
  consider "mode \<notin> {ValidateOnly, Merge, Replace} \<or> int (cc_used cc input) > svc_maxImportSize svc"
    | e where "mode \<in> {ValidateOnly, Merge, Replace}" "int (cc_used cc input) \<le> svc_maxImportSize svc" "CreateImport (ie_Create env) ?imp db = Inl e"
    | db1 where "mode \<in> {ValidateOnly, Merge, Replace}" "int (cc_used cc input) \<le> svc_maxImportSize svc" "CreateImport (ie_Create env) ?imp db = Inr db1"
    by (cases "CreateImport (ie_Create env) ?imp db") force+
  then show ?thesis
  proof cases
    case 1
    then have "db' = db \<and> (\<exists>e. res = Inl e)" using d by (auto split: if_splits)
    then show ?thesis by auto
  next
    case 2
    then have "db' = db \<and> (\<exists>e. res = Inl e)" using d by (auto split: if_splits)
    then show ?thesis by auto
  next
    case 3
    from CreateImport_result [OF 3(3)] obtain r where r: "db1 = db\<lparr>iv_imports := iv_imports db @ [r]\<rparr>" "ir_id r = ie_ID env"
      "ir_status r = im_Status ?imp" "ie_ID env \<notin> ir_id ` set (iv_imports db)" by (auto simp: importRecord_def Let_def)
    have m: "\<not> (mode \<noteq> ValidateOnly \<and> mode \<noteq> Merge \<and> mode \<noteq> Replace)" "\<not> svc_maxImportSize svc < int (cc_used cc input)"
      using 3(1,2) by auto
    note d = d [unfolded if_not_P [OF m(1)] if_not_P [OF m(2)] 3(3) sum.case]
    have f: "find (\<lambda>x. ir_id x = ie_ID env) (iv_imports db @ [r]) = Some r"
      by (rule find_last) (use r in \<open>auto simp: image_iff\<close>)
    show ?thesis
    proof (cases "if ?fatal then StoreImportErrors (ie_Errors env) (ie_ID env) (pr_Errors result) db1 else Inr db1")
      case (Inl e)
      then have "db' = db1 \<and> res = Inl (RecordErrors e)" using d by simp
      then show ?thesis using r(1) by auto
    next
      case (Inr db2)
      then obtain new where n: "db2 = db1\<lparr>iv_errors := iv_errors db1 @ new\<rparr>" "\<not> ?fatal \<longrightarrow> db2 = db1"
        by (auto split: if_splits dest: StoreImportErrors_result intro: that [of "[]"])
      note d = d [unfolded Inr sum.case]
      show ?thesis
      proof (cases "mode = ValidateOnly \<or> ?fatal")
        case True
        then have e: "db' = db2" "res = wrapErr ReadImport (GetImport (ie_Get env) (ie_ID env) db2)" using d by auto
        have i: "iv_imports db2 = iv_imports db @ [r]" by (simp add: n(1) r(1))
        have "im_Status imp \<in> {''validated'', ''failed''}" if "res = Inr (Some imp)" for imp
          using GetImport_find [of "ie_Get env" "ie_ID env" db2 imp] that e(2) loadImport_status True r(3) f
          by (auto simp: i importRecord_def Let_def)
        then show ?thesis using e(1) n(1) r(1) by auto
      next
        case False
        then have db2: "db2 = db1" and mode: "mode \<in> {Merge, Replace}" using n(2) 3(1) by auto
        note d = d [unfolded if_not_P [OF False] db2]
        show ?thesis
        proof (cases "ApplyImport (ie_Apply env) (ie_Applied env) (ie_Version env) (applyInput cc env filename input mode result) db1")
          case (Inl e)
          then have "db' = recordFailure env db1 \<and> res = Inl (ApplyFailed e)" using d by simp
          then show ?thesis using recordFailure_same [of env db1] r(1) by auto
        next
          case (Inr out)
          obtain o1 o2 where o: "out = (o1, o2)" by fastforce
          have "ie_Apply env = None"
            using Inr mode by (auto simp: ApplyImport_def driver_Inr applyInput_def)
          then show ?thesis using Inr d o r False mode 3(2)
            by (intro disjI2 exI [of _ db1] exI [of _ o1] exI [of _ r]) (auto simp: image_iff)
        qed
      qed
    qed
  qed
qed


section \<open>Witness\<close>

definition sampleCsv :: CsvCodec where
  "sampleCsv = \<lparr>cc_rows = (\<lambda>s. Inr (CSVColumns # map cellToRow sampleCells)), cc_used = length, cc_sha = (\<lambda>s. []), cc_lower = (\<lambda>s. s)\<rparr>"

definition sampleEnv :: ImportEnv where
  "sampleEnv = \<lparr>ie_ID = ''imp-1'', ie_Version = ''ver-1'', ie_Now = sampleTime 12 0, ie_Applied = sampleTime 12 0,
     ie_Failed = sampleTime 12 0, ie_Create = None, ie_Errors = None, ie_Apply = None, ie_FailureErrors = None,
     ie_FailureMark = None, ie_Get = None\<rparr>"


end
