(* ===== verification/Geocode_Csv.thy ===== *)
theory Geocode_Csv
  imports Inventory_Csv
begin

text \<open>
  \<open>internal/geocode/model.go\<close> and \<open>internal/geocode/csv.go\<close>: the records of the geocodes and the reading
  of a geocode file, whose loop over header and rows is the one of \<open>Csv_Table\<close>.
\<close>

section \<open>Records\<close>

type_synonym CodeType = string

record Code =
  code_ID :: int
  code_Type :: string
  code_Code :: string
  code_Description :: string
  code_CreatedAt :: gotime

record Entry =
  e_ID :: int
  e_CellID :: int
  e_ECI :: u32
  e_CellName :: string
  e_CodeType :: CodeType
  e_Code :: string
  e_CreatedAt :: gotime

record GeoFilter =
  gf_CodeType :: string
  gf_Code :: string
  gf_CellID :: "int option"
  gf_Limit :: int
  gf_Offset :: int

record PendingRow =
  pd_MCC :: string
  pd_MNC :: string
  pd_MNCLength :: int
  pd_ECI :: u32
  pd_CodeType :: CodeType
  pd_Code :: string

record GeoImportResult =
  gi_RowsReceived :: int
  gi_RowsValid :: int
  gi_RowsRejected :: int
  gi_Inserted :: int
  gi_Deleted :: int
  gi_Errors :: "ValidationError list"

section \<open>The file\<close>

definition geoColumns :: "string list" where
  "geoColumns = [''mcc'', ''mnc'', ''mnc_length'', ''eci'', ''code_type'', ''code'']"

text \<open>The first argument is \<open>strings.ToUpper\<close> outside ASCII.\<close>

definition rowFrom :: "(string \<Rightarrow> string) \<Rightarrow> (string \<Rightarrow> string) \<Rightarrow> PendingRow \<times> FieldError list" where
  "rowFrom upper get =
     (let mcc = get ''mcc''; mnc = get ''mnc'';
          badMCC = (length mcc \<noteq> 3 \<or> \<not> digits mcc);
          badMNC = (length mnc \<noteq> 2 \<and> length mnc \<noteq> 3 \<or> \<not> digits mnc);
          mncLen = atoi (get ''mnc_length'') 2 3;
          eci = atoi (get ''eci'') 0 268435455;
          codeType = ToUpper upper (TrimSpace (get ''code_type''));
          code = get ''code''
      in (\<lparr>pd_MCC = (if badMCC then [] else mcc), pd_MNC = (if badMNC then [] else mnc),
           pd_MNCLength = (case mncLen of None \<Rightarrow> 0 | Some n \<Rightarrow> n),
           pd_ECI = word_of_int (case eci of None \<Rightarrow> 0 | Some n \<Rightarrow> n),
           pd_CodeType = codeType, pd_Code = code\<rparr>,
          fieldIf badMCC ''mcc'' ''invalid_mcc'' @
          fieldIf badMNC ''mnc'' ''invalid_mnc'' @
          fieldIf (mncLen = None) ''mnc_length'' ''invalid_mnc_length'' @
          fieldIf (mncLen \<noteq> None \<and> 0 < length mnc \<and> mncLen \<noteq> Some (int (length mnc)))
            ''mnc_length'' ''mnc_length_mismatch'' @
          fieldIf (eci = None) ''eci'' ''invalid_eci'' @
          fieldIf (codeType = []) ''code_type'' ''invalid_code_type'' @
          fieldIf (code = []) ''code'' ''missing_code''))"

text \<open>The key under which a row counts as a repetition.\<close>

definition geoKey :: "PendingRow \<Rightarrow> string" where
  "geoKey r = pd_MCC r @ ''-'' @ pd_MNC r @ ''-'' @ Itoa (pd_MNCLength r) @ ''-'' @ decimal (unat (pd_ECI r)) @ ''-'' @
     pd_CodeType r @ ''-'' @ pd_Code r"

definition ParseGeocodes ::
    "(string \<Rightarrow> string) \<Rightarrow> (string \<Rightarrow> string) \<Rightarrow> string + string list list \<Rightarrow> PendingRow ParseResult" where
  "ParseGeocodes upper lower rows = parseTable (rowFrom upper) geoKey [] ''duplicate_row'' lower geoColumns rows"

section \<open>What an accepted row is\<close>

definition validRow :: "PendingRow \<Rightarrow> bool" where
  "validRow r \<longleftrightarrow>
     length (pd_MCC r) = 3 \<and> digits (pd_MCC r) \<and> length (pd_MNC r) \<in> {2, 3} \<and> digits (pd_MNC r) \<and>
     pd_MNCLength r = int (length (pd_MNC r)) \<and> unat (pd_ECI r) \<le> 268435455 \<and> pd_CodeType r \<noteq> [] \<and> pd_Code r \<noteq> []"

lemma rowFrom_valid: "rowFrom upper get = (r, []) \<Longrightarrow> validRow r"
proof -
  assume r: "rowFrom upper get = (r, [])"
  note d = r [unfolded rowFrom_def Let_def prod.inject]
  from d have e: "length (get ''mcc'') = 3" "digits (get ''mcc'')" "length (get ''mnc'') = 2 \<or> length (get ''mnc'') = 3" "digits (get ''mnc'')"
    "ToUpper upper (TrimSpace (get ''code_type'')) \<noteq> []" "get ''code'' \<noteq> []"
    by (auto simp: fieldIf_def split: if_splits)
  from d obtain l eci where l: "atoi (get ''mnc_length'') 2 3 = Some l" "atoi (get ''eci'') 0 268435455 = Some eci" by (auto split: if_splits)
  from d e l have l2: "l = int (length (get ''mnc''))" by (auto split: if_splits)
  have w: "unat (word_of_int eci :: u32) \<le> 268435455"
    using atoi_bounds [OF l(2)] by (simp add: uint_of_int nat_le_iff)
  from d [THEN conjunct1, symmetric] show ?thesis
    unfolding validRow_def using e l l2 w by auto
qed

end
