(* ===== verification/Geocode_Store.thy ===== *)
theory Geocode_Store
  imports Geocode_Csv Inventory_Store
begin

text \<open>
  \<open>internal/storage/sqlite/geocode.go\<close>: the statements on the geocode tables. A join keeps the geocode
  rows whose cell exists; like \<open>Inventory_Store\<close>, a query without ORDER BY lists rows in insertion
  order here, and nothing depends on that order.
\<close>

section \<open>Entries\<close>

datatype geocode_error =
    GeoStore inventory_error
  | GeoCellNotFound
  | GeoEntryNotFound
  | GeoCodeNotFound
  | GeoUnique
  | GeoMode string
  | GeoCodeRequired

definition geoDriver :: "fault \<Rightarrow> geocode_error + 'a \<Rightarrow> geocode_error + 'a" where
  "geoDriver f m = (case f of Some e \<Rightarrow> Inl (GeoStore (InvStore (SqlError e))) | None \<Rightarrow> m)"

lemma geoDriver_simps [simp]: "geoDriver None m = m"
  by (simp add: geoDriver_def)

lemma geoDriver_Inr: "geoDriver f m = Inr v \<longleftrightarrow> f = None \<and> m = Inr v"
  by (cases f) (auto simp: geoDriver_def)

definition lookupCellID :: "fault \<Rightarrow> InventoryPLMN \<Rightarrow> u32 \<Rightarrow> InventoryDB \<Rightarrow> geocode_error + int" where
  "lookupCellID f plmn eci db =
     geoDriver f (case find (\<lambda>r. rowKey r = (plmn, eci)) (iv_cells db) of
       None \<Rightarrow> Inl GeoCellNotFound | Some r \<Rightarrow> Inr (cl_id r))"

definition geoTriple :: "GeocodeRow \<Rightarrow> int \<times> string \<times> string" where
  "geoTriple g = (gr_cell g, gr_type g, gr_code g)"

text \<open>The lookup and the INSERT are two statements.\<close>

definition insertEntry :: "fault \<Rightarrow> gotime \<Rightarrow> int \<Rightarrow> CodeType \<Rightarrow> string \<Rightarrow> InventoryDB \<Rightarrow> geocode_error + (int \<times> InventoryDB)" where
  "insertEntry f now cellID codeType code db =
     geoDriver f (failIf ((cellID, codeType, code) \<in> set (map geoTriple (iv_geocodes db))) GeoUnique (
     let i = iv_geoSeq db + 1 in
     Inr (i, db\<lparr>iv_geocodes := iv_geocodes db @ [\<lparr>gr_id = i, gr_cell = cellID, gr_type = codeType, gr_code = code,
                 gr_created = formatRFC3339Nano now\<rparr>], iv_geoSeq := i\<rparr>)))"

definition CreateEntry ::
    "fault \<Rightarrow> fault \<Rightarrow> gotime \<Rightarrow> InventoryPLMN \<Rightarrow> u32 \<Rightarrow> CodeType \<Rightarrow> string \<Rightarrow> InventoryDB \<Rightarrow> geocode_error + (Entry \<times> InventoryDB)" where
  "CreateEntry f g time plmn eci codeType code db =
     andThen (lookupCellID f plmn eci db) (\<lambda>cellID.
     let now = UTC time in
     andThen (insertEntry g now cellID codeType code db) (\<lambda>(i, db).
     Inr (\<lparr>e_ID = i, e_CellID = cellID, e_ECI = eci, e_CellName = [], e_CodeType = codeType, e_Code = code,
           e_CreatedAt = now\<rparr>, db)))"

definition DeleteEntry :: "fault \<Rightarrow> int \<Rightarrow> InventoryDB \<Rightarrow> (geocode_error + unit) \<times> InventoryDB" where
  "DeleteEntry f i db =
     (case geoDriver f (Inr (length (filter (\<lambda>g. gr_id g = i) (iv_geocodes db)))) of
        Inl e \<Rightarrow> (Inl e, db)
      | Inr n \<Rightarrow> (if n = 0 then Inl GeoEntryNotFound else Inr (),
                  db\<lparr>iv_geocodes := filter (\<lambda>g. gr_id g \<noteq> i) (iv_geocodes db)\<rparr>))"

text \<open>\<open>cell_geocodes cg JOIN lte_cells lc ON lc.id=cg.cell_id\<close>.\<close>

definition joined :: "InventoryDB \<Rightarrow> (GeocodeRow \<times> CellRow) list" where
  "joined db = concat (map (\<lambda>g. map (\<lambda>c. (g, c)) (filter (\<lambda>c. cl_id c = gr_cell g) (iv_cells db))) (iv_geocodes db))"

definition geoMatches :: "GeoFilter \<Rightarrow> GeocodeRow \<Rightarrow> bool" where
  "geoMatches f g \<longleftrightarrow>
     (gf_CodeType f = [] \<or> gr_type g = gf_CodeType f) \<and> (gf_Code f = [] \<or> gr_code g = gf_Code f) \<and>
     (case gf_CellID f of None \<Rightarrow> True | Some i \<Rightarrow> gr_cell g = i)"

definition scanGeocodeEntry :: "GeocodeRow \<times> CellRow \<Rightarrow> geocode_error + Entry" where
  "scanGeocodeEntry r =
     (case r of (g, c) \<Rightarrow>
       (case parseRFC3339 (gr_created g) of
          None \<Rightarrow> Inl (GeoStore (InvStore (BadStoredTime (gr_created g))))
        | Some t \<Rightarrow> Inr \<lparr>e_ID = gr_id g, e_CellID = gr_cell g, e_ECI = cl_eci c, e_CellName = cl_name c,
                      e_CodeType = gr_type g, e_Code = gr_code g, e_CreatedAt = t\<rparr>))"

definition matching :: "GeoFilter \<Rightarrow> InventoryDB \<Rightarrow> (GeocodeRow \<times> CellRow) list" where
  "matching filt db = filter (\<lambda>(g, c). geoMatches filt g) (joined db)"

definition ListEntries :: "fault \<Rightarrow> GeoFilter \<Rightarrow> InventoryDB \<Rightarrow> geocode_error + (Entry list \<times> int)" where
  "ListEntries f filt db =
     geoDriver f (
       andThen (mapE scanGeocodeEntry
           (pageOf (gf_Limit filt) (gf_Offset filt) (sort_key (\<lambda>(g, c). gr_id g) (matching filt db)))) (\<lambda>out.
       Inr (out, int (length (matching filt db)))))"

definition ResolveCells :: "fault \<Rightarrow> string \<Rightarrow> string \<Rightarrow> InventoryDB \<Rightarrow> geocode_error + u32 list" where
  "ResolveCells f codeType code db =
     geoDriver f (Inr (map (\<lambda>(g, c). cl_eci c)
       (filter (\<lambda>(g, c). gr_type g = codeType \<and> gr_code g = code \<and> cl_active c) (joined db))))"

section \<open>Import and export\<close>

text \<open>One row of a geocode import: \<open>ON CONFLICT DO NOTHING\<close>, and an unknown cell is reported.\<close>

definition applyRow :: "string \<Rightarrow> InventoryDB \<times> int \<times> ValidationError list \<Rightarrow> nat \<times> PendingRow \<Rightarrow>
    InventoryDB \<times> int \<times> ValidationError list" where
  "applyRow now st row =
     (case (st, row) of ((db, inserted, errs), (n, r)) \<Rightarrow>
       (case find (\<lambda>c. rowKey c = (\<lparr>plmn_MCC = pd_MCC r, plmn_MNC = pd_MNC r, plmn_MNCLength = pd_MNCLength r\<rparr>, pd_ECI r))
               (iv_cells db) of
          None \<Rightarrow> (db, inserted, errs @ [rowError (int n + 2) ''eci'' ''cell_not_found''])
        | Some c \<Rightarrow>
            if (cl_id c, pd_CodeType r, pd_Code r) \<in> set (map geoTriple (iv_geocodes db)) then
              (db\<lparr>iv_geoSeq := iv_geoSeq db + 1\<rparr>, inserted, errs)
            else (db\<lparr>iv_geocodes := iv_geocodes db @ [\<lparr>gr_id = iv_geoSeq db + 1, gr_cell = cl_id c,
                       gr_type = pd_CodeType r, gr_code = pd_Code r, gr_created = now\<rparr>],
                     iv_geoSeq := iv_geoSeq db + 1\<rparr>, inserted + 1, errs)))"

definition ApplyGeocodeImport ::
    "fault \<Rightarrow> gotime \<Rightarrow> PendingRow list \<Rightarrow> ImportMode \<Rightarrow> InventoryDB \<Rightarrow>
     geocode_error + (int \<times> int \<times> ValidationError list \<times> InventoryDB)" where
  "ApplyGeocodeImport f time rows mode db =
     failIf (mode \<noteq> Merge \<and> mode \<noteq> Replace) (GeoMode mode) (
     geoDriver f (
       let deleted = (if mode = Replace then int (length (iv_geocodes db)) else 0);
           db = (if mode = Replace then db\<lparr>iv_geocodes := []\<rparr> else db)
       in case foldl (applyRow (formatRFC3339Nano (UTC time))) (db, 0, []) (List.enumerate 0 rows) of
            (db, inserted, errs) \<Rightarrow> Inr (inserted, deleted, errs, db)))"

definition geoToRow :: "GeocodeRow \<times> CellRow \<Rightarrow> string list" where
  "geoToRow r =
     (case r of (g, c) \<Rightarrow>
       [plmn_MCC (cl_plmn c), plmn_MNC (cl_plmn c), Itoa (plmn_MNCLength (cl_plmn c)), decimal (unat (cl_eci c)),
        gr_type g, gr_code g])"

definition ExportEntries :: "fault \<Rightarrow> GeoFilter \<Rightarrow> InventoryDB \<Rightarrow> geocode_error + string list list" where
  "ExportEntries f filt db =
     geoDriver f (Inr (geoColumns # map geoToRow (sort_key (\<lambda>(g, c). gr_id g) (matching filt db))))"

section \<open>The registry\<close>

definition codeKey :: "CodeRow \<Rightarrow> string \<times> string" where
  "codeKey r = (cr_type r, cr_code r)"

definition CreateCodeRow :: "fault \<Rightarrow> gotime \<Rightarrow> string \<Rightarrow> string \<Rightarrow> string \<Rightarrow> InventoryDB \<Rightarrow> geocode_error + (Code \<times> InventoryDB)" where
  "CreateCodeRow f time codeType code description db =
     geoDriver f (failIf ((codeType, code) \<in> set (map codeKey (iv_codes db))) GeoUnique (
     let now = UTC time; i = iv_codeSeq db + 1 in
     Inr (\<lparr>code_ID = i, code_Type = codeType, code_Code = code, code_Description = description, code_CreatedAt = now\<rparr>,
          db\<lparr>iv_codes := iv_codes db @ [\<lparr>cr_id = i, cr_type = codeType, cr_code = code, cr_description = description,
                cr_created = formatRFC3339Nano now\<rparr>], iv_codeSeq := i\<rparr>)))"

definition DeleteCode :: "fault \<Rightarrow> int \<Rightarrow> InventoryDB \<Rightarrow> (geocode_error + unit) \<times> InventoryDB" where
  "DeleteCode f i db =
     (case geoDriver f (Inr (length (filter (\<lambda>c. cr_id c = i) (iv_codes db)))) of
        Inl e \<Rightarrow> (Inl e, db)
      | Inr n \<Rightarrow> (if n = 0 then Inl GeoCodeNotFound else Inr (),
                  db\<lparr>iv_codes := filter (\<lambda>c. cr_id c \<noteq> i) (iv_codes db)\<rparr>))"

definition scanCode :: "CodeRow \<Rightarrow> geocode_error + Code" where
  "scanCode r =
     (case parseRFC3339 (cr_created r) of
        None \<Rightarrow> Inl (GeoStore (InvStore (BadStoredTime (cr_created r))))
      | Some t \<Rightarrow> Inr \<lparr>code_ID = cr_id r, code_Type = cr_type r, code_Code = cr_code r,
                    code_Description = cr_description r, code_CreatedAt = t\<rparr>)"

text \<open>\<open>ORDER BY type,code\<close>: by type, and by code among equal types.\<close>

definition ListCodes :: "fault \<Rightarrow> InventoryDB \<Rightarrow> geocode_error + Code list" where
  "ListCodes f db = geoDriver f (mapE scanCode (sort_key cr_type (sort_key cr_code (iv_codes db))))"

text \<open>
  The last statement of \<open>Migrate\<close>: every pair used by an entry gets a row in the registry. The rows
  are inserted in an order that SQLite chooses.
\<close>

definition backfillCode :: "string \<Rightarrow> InventoryDB \<Rightarrow> string \<times> string \<Rightarrow> InventoryDB" where
  "backfillCode now db k =
     db\<lparr>iv_codes := iv_codes db @ [\<lparr>cr_id = iv_codeSeq db + 1, cr_type = fst k, cr_code = snd k, cr_description = [],
           cr_created = now\<rparr>], iv_codeSeq := iv_codeSeq db + 1\<rparr>"

definition backfill :: "fault \<Rightarrow> gotime \<Rightarrow> InventoryDB \<Rightarrow> geocode_error + InventoryDB" where
  "backfill f time db =
     geoDriver f (Inr (foldl (backfillCode (formatRFC3339Nano (UTC time))) db
       (remdups (filter (\<lambda>k. k \<notin> set (map codeKey (iv_codes db))) (map (\<lambda>g. (gr_type g, gr_code g)) (iv_geocodes db))))))"

section \<open>A geocode import\<close>

definition rowCell :: "InventoryDB \<Rightarrow> PendingRow \<Rightarrow> CellRow option" where
  "rowCell db r = cellAt db (\<lparr>plmn_MCC = pd_MCC r, plmn_MNC = pd_MNC r, plmn_MNCLength = pd_MNCLength r\<rparr>, pd_ECI r)"

text \<open>The tag that a row asks for.\<close>

definition tagOf :: "InventoryDB \<Rightarrow> PendingRow \<Rightarrow> (int \<times> string \<times> string) option" where
  "tagOf db r = map_option (\<lambda>c. (cl_id c, pd_CodeType r, pd_Code r)) (rowCell db r)"

definition tags :: "InventoryDB \<Rightarrow> (int \<times> string \<times> string) set" where
  "tags db = geoTriple ` set (iv_geocodes db)"

definition unknownCells :: "InventoryDB \<Rightarrow> (nat \<times> PendingRow) list \<Rightarrow> ValidationError list" where
  "unknownCells db rows = map (\<lambda>(n, r). rowError (int n + 2) ''eci'' ''cell_not_found'')
     (filter (\<lambda>(n, r). rowCell db r = None) rows)"

definition geocodesOK :: "InventoryDB \<Rightarrow> bool" where
  "geocodesOK db \<longleftrightarrow> tableOK gr_id geoTriple (iv_geoSeq db) (iv_geocodes db) \<and>
     gr_cell ` set (iv_geocodes db) \<subseteq> cl_id ` set (iv_cells db)"

text \<open>Only the geocode table and its counter differ.\<close>

definition sameButGeocodes :: "InventoryDB \<Rightarrow> InventoryDB \<Rightarrow> bool" where
  "sameButGeocodes db db' \<longleftrightarrow>
     iv_cells db' = iv_cells db \<and> iv_cellSeq db' = iv_cellSeq db \<and> iv_imports db' = iv_imports db \<and>
     iv_errors db' = iv_errors db \<and> iv_versions db' = iv_versions db \<and> iv_codes db' = iv_codes db \<and>
     iv_codeSeq db' = iv_codeSeq db"

lemma sameButGeocodes_trans: "sameButGeocodes a b \<Longrightarrow> sameButGeocodes b c \<Longrightarrow> sameButGeocodes a c"
  by (simp add: sameButGeocodes_def)

lemma sameButGeocodes_cells: "sameButGeocodes db db' \<Longrightarrow> rowCell db' = rowCell db \<and> tagOf db' = tagOf db"
  by (auto simp: sameButGeocodes_def rowCell_def cellAt_def tagOf_def fun_eq_iff)

text \<open>What one row does.\<close>

lemma applyRow_step:
  assumes "applyRow now (db, a, errs) (n, r) = (db', b, errs')" "geocodesOK db"
  shows "sameButGeocodes db db' \<and> geocodesOK db' \<and>
    tags db' = tags db \<union> set_option (tagOf db r) \<and> errs' = errs @ unknownCells db [(n, r)] \<and>
    b - a = int (length (iv_geocodes db')) - int (length (iv_geocodes db))"
proof (cases "rowCell db r")
  case None
  then have "find (\<lambda>c. rowKey c = (\<lparr>plmn_MCC = pd_MCC r, plmn_MNC = pd_MNC r, plmn_MNCLength = pd_MNCLength r\<rparr>, pd_ECI r)) (iv_cells db) = None"
    by (simp add: rowCell_def cellAt_def)
  then show ?thesis using assms None
    by (auto simp: applyRow_def sameButGeocodes_def tagOf_def unknownCells_def)
next
  case (Some c)
  then have f: "find (\<lambda>c. rowKey c = (\<lparr>plmn_MCC = pd_MCC r, plmn_MNC = pd_MNC r, plmn_MNCLength = pd_MNCLength r\<rparr>, pd_ECI r)) (iv_cells db) = Some c"
    by (simp add: rowCell_def cellAt_def)
  have c: "cl_id c \<in> cl_id ` set (iv_cells db)" using cellAt_Some [of db _ c] Some by (auto simp: rowCell_def)
  show ?thesis
  proof (cases "(cl_id c, pd_CodeType r, pd_Code r) \<in> tags db")
    case True
    then have d: "db' = db\<lparr>iv_geoSeq := iv_geoSeq db + 1\<rparr>" "b = a" "errs' = errs"
      using assms(1) f by (simp_all add: applyRow_def tags_def)
    have "tableOK gr_id geoTriple (iv_geoSeq db + 1) (iv_geocodes db)"
      using assms(2) by (force simp: geocodesOK_def tableOK_def)
    then show ?thesis using d assms(2) True Some
      by (auto simp: sameButGeocodes_def geocodesOK_def tags_def tagOf_def unknownCells_def)
  next
    case False
    let ?g = "\<lparr>gr_id = iv_geoSeq db + 1, gr_cell = cl_id c, gr_type = pd_CodeType r, gr_code = pd_Code r, gr_created = now\<rparr>"
    have d: "db' = db\<lparr>iv_geocodes := iv_geocodes db @ [?g], iv_geoSeq := iv_geoSeq db + 1\<rparr>" "b = a + 1" "errs' = errs"
      using assms(1) f False by (simp_all add: applyRow_def tags_def)
    have "tableOK gr_id geoTriple (iv_geoSeq db + 1) (iv_geocodes db @ [?g])"
      by (rule tableOK_insert [of _ _ "iv_geoSeq db"]) (use assms(2) False in \<open>simp_all add: geocodesOK_def tags_def geoTriple_def\<close>)
    then have "geocodesOK db'" using assms(2) c by (simp add: d(1) geocodesOK_def)
    moreover have "tags db' = tags db \<union> set_option (tagOf db r)"
      using Some by (auto simp: d(1) tags_def tagOf_def geoTriple_def)
    ultimately show ?thesis using d(2,3) Some by (simp add: d(1) sameButGeocodes_def unknownCells_def)
  qed
qed

lemma unknownCells_append: "unknownCells db (xs @ ys) = unknownCells db xs @ unknownCells db ys"
  by (simp add: unknownCells_def)

lemma foldl_applyRow:
  assumes "foldl (applyRow now) (db, a, errs) rows = (db', b, errs')" "geocodesOK db"
  shows "sameButGeocodes db db' \<and> geocodesOK db' \<and>
    tags db' = tags db \<union> {t. \<exists>r \<in> snd ` set rows. tagOf db r = Some t} \<and> errs' = errs @ unknownCells db rows \<and>
    b - a = int (length (iv_geocodes db')) - int (length (iv_geocodes db))"
  using assms
proof (induction rows arbitrary: db a errs)
  case Nil
  then show ?case by (auto simp: sameButGeocodes_def unknownCells_def)
next
  case (Cons row rows)
  obtain n r where row: "row = (n, r)" by fastforce
  obtain db1 a1 errs1 where s: "applyRow now (db, a, errs) (n, r) = (db1, a1, errs1)" by (metis prod_cases3)
  note h = applyRow_step [OF s Cons.prems(2)]
  from Cons.prems(1) have f: "foldl (applyRow now) (db1, a1, errs1) rows = (db', b, errs')" by (simp add: row s)
  note ih = Cons.IH [OF f] h
  have e: "rowCell db1 = rowCell db" "tagOf db1 = tagOf db" using sameButGeocodes_cells h by blast+
  have u: "unknownCells db1 rows = unknownCells db rows" by (simp add: unknownCells_def e)
  have "unknownCells db (row # rows) = unknownCells db [(n, r)] @ unknownCells db rows"
    using unknownCells_append [of db "[row]" rows] row by simp
  moreover have "set_option (tagOf db r) \<union> {t. \<exists>r \<in> snd ` set rows. tagOf db r = Some t} =
      {t. \<exists>r \<in> snd ` set (row # rows). tagOf db r = Some t}" by (auto simp: row)
  ultimately show ?case using ih e u sameButGeocodes_trans [of db db1 db'] by (auto simp: Un_assoc [symmetric])
qed

lemma snd_enumerate: "snd ` set (List.enumerate n xs) = set xs"
  by (metis list.set_map map_snd_enumerate)

lemma geocode_import_lemma:
  assumes "geocodesOK db" "ApplyGeocodeImport f time rows mode db = Inr (inserted, deleted, errs, db')"
  shows "mode \<in> {Merge, Replace} \<and> sameButGeocodes db db' \<and> geocodesOK db' \<and>
    tags db' = (if mode = Replace then {} else tags db) \<union> {t. \<exists>r \<in> set rows. tagOf db r = Some t} \<and>
    errs = unknownCells db (List.enumerate 0 rows) \<and>
    inserted = int (card (tags db' - (if mode = Replace then {} else tags db))) \<and>
    deleted = (if mode = Replace then int (card (tags db)) else 0)"
proof -
  define db0 where "db0 = (if mode = Replace then db\<lparr>iv_geocodes := []\<rparr> else db)"
  from assms(2) have m: "mode \<in> {Merge, Replace}" and del: "deleted = (if mode = Replace then int (length (iv_geocodes db)) else 0)"
    and f: "foldl (applyRow (formatRFC3339Nano (UTC time))) (db0, 0, []) (List.enumerate 0 rows) = (db', inserted, errs)"
    by (auto simp: ApplyGeocodeImport_def geoDriver_Inr db0_def Let_def split: prod.splits)
  have ok: "geocodesOK db0" using assms(1) by (auto simp: db0_def geocodesOK_def tableOK_def)
  have t0: "tags db0 = (if mode = Replace then {} else tags db)" by (simp add: db0_def tags_def)
  have c0: "rowCell db0 = rowCell db" "tagOf db0 = tagOf db"
    by (auto simp: db0_def rowCell_def cellAt_def tagOf_def fun_eq_iff)
  have s0: "sameButGeocodes db db0" by (auto simp: db0_def sameButGeocodes_def)
  note h = foldl_applyRow [OF f ok, unfolded snd_enumerate c0]
  have card: "card (tags x) = length (iv_geocodes x)" if "geocodesOK x" for x
    using that distinct_card [of "map geoTriple (iv_geocodes x)"] by (simp add: tags_def geocodesOK_def tableOK_def)
  have fin: "finite (tags x)" for x by (simp add: tags_def)
  have sub: "tags db0 \<subseteq> tags db'" using h by blast
  have "inserted = int (card (tags db')) - int (card (tags db0))" using h card [OF ok] card [of db'] by simp
  also have "\<dots> = int (card (tags db' - tags db0))"
    using card_Diff_subset [OF fin sub] card_mono [OF fin sub] by (simp add: of_nat_diff)
  finally have ins: "inserted = int (card (tags db' - (if mode = Replace then {} else tags db)))" by (simp add: t0)
  have u: "unknownCells db0 = unknownCells db" by (simp add: unknownCells_def fun_eq_iff c0)
  show ?thesis
    using m del card [OF assms(1)] ins h t0 sameButGeocodes_trans [OF s0] by (simp add: u)
qed

text \<open>C25: a geocode import is exact. A merge adds, and a replacement leaves, exactly the tags
  (cell, type, code) that the rows of the file ask for and whose cell the inventory has; the rows with an
  unknown cell are reported, each under its line, and no tag is ever stored twice or for a cell that
  does not exist. The number of inserted tags is the number of tags that were not there.\<close>

theorem geocode_import_exact:
  assumes "geocodesOK db" "ApplyGeocodeImport f time rows mode db = Inr (inserted, deleted, errs, db')"
  shows "mode \<in> {Merge, Replace} \<and> sameButGeocodes db db' \<and> geocodesOK db' \<and>
    tags db' = (if mode = Replace then {} else tags db) \<union> {t. \<exists>r \<in> set rows. tagOf db r = Some t} \<and>
    errs = unknownCells db (List.enumerate 0 rows) \<and>
    inserted = int (card (tags db' - (if mode = Replace then {} else tags db))) \<and>
    deleted = (if mode = Replace then int (card (tags db)) else 0)"
  by (rule geocode_import_lemma [OF assms])

lemma ApplyGeocodeImport_ok:
  assumes "geocodesOK db" "ApplyGeocodeImport f time rows mode db = Inr (inserted, deleted, errs, db')"
  shows "sameButGeocodes db db' \<and> geocodesOK db'"
  using geocode_import_lemma [OF assms] by blast

section \<open>Resolving\<close>

lemma joined_iff: "(g, c) \<in> set (joined db) \<longleftrightarrow> g \<in> set (iv_geocodes db) \<and> c \<in> set (iv_cells db) \<and> cl_id c = gr_cell g"
  by (auto simp: joined_def)

lemma ResolveCells_set:
  "ResolveCells f codeType code db = Inr ecis \<Longrightarrow>
   set ecis = {cl_eci c |c. c \<in> set (iv_cells db) \<and> cl_active c \<and> (cl_id c, codeType, code) \<in> tags db}"
proof -
  assume "ResolveCells f codeType code db = Inr ecis"
  then have e: "ecis = map (\<lambda>(g, c). cl_eci c)
      (filter (\<lambda>(g, c). gr_type g = codeType \<and> gr_code g = code \<and> cl_active c) (joined db))"
    by (simp add: ResolveCells_def geoDriver_Inr)
  show ?thesis unfolding e by (force simp: joined_iff tags_def geoTriple_def image_iff)
qed

text \<open>Every active tagged cell is listed once.\<close>

lemma ResolveCells_length:
  assumes "ResolveCells None codeType code db = Inr ecis" "geocodesOK db" "inventoryCells db"
  shows "length ecis = card {c \<in> set (iv_cells db). cl_active c \<and> (cl_id c, codeType, code) \<in> tags db}"
proof -
  let ?S = "filter (\<lambda>(g, c). gr_type g = codeType \<and> gr_code g = code \<and> cl_active c) (joined db)"
  have l: "length ecis = length ?S" using assms(1) by (auto simp: ResolveCells_def)
  have dc: "distinct (map cl_id (iv_cells db))" using assms(3) by (simp add: inventoryCells_def tableOK_def)
  have dg: "distinct (map geoTriple (iv_geocodes db))" using assms(2) by (simp add: geocodesOK_def tableOK_def)
  have "distinct (joined db)"
  proof -
    have "distinct (concat (map (\<lambda>g. map (Pair g) (filter (\<lambda>c. cl_id c = gr_cell g) (iv_cells db))) gs))"
      if "distinct gs" for gs
      using that dc by (induction gs) (auto simp: distinct_map inj_on_def)
    moreover have "distinct (iv_geocodes db)" using dg by (simp add: distinct_map)
    ultimately show ?thesis by (simp add: joined_def)
  qed
  then have dS: "distinct ?S" by simp
  have inj: "inj_on snd (set ?S)"
  proof (rule inj_onI)
    fix x y assume x: "x \<in> set ?S" "y \<in> set ?S" "snd x = snd y"
    then obtain g h c where gh: "x = (g, c)" "y = (h, c)" by (metis prod.collapse)
    with x have "g \<in> set (iv_geocodes db)" "h \<in> set (iv_geocodes db)" "geoTriple g = geoTriple h"
      by (auto simp: joined_iff geoTriple_def)
    with dg have "g = h" by (auto simp: distinct_map dest: inj_onD)
    with gh show "x = y" by simp
  qed
  have "length ?S = card (snd ` set ?S)" using distinct_card [OF dS] card_image [OF inj] by simp
  also have "snd ` set ?S = {c \<in> set (iv_cells db). cl_active c \<and> (cl_id c, codeType, code) \<in> tags db}"
    by (force simp: joined_iff tags_def geoTriple_def image_iff)
  finally show ?thesis using l by simp
qed

section \<open>The registry\<close>

definition registry :: "InventoryDB \<Rightarrow> (string \<times> string) set" where
  "registry db = codeKey ` set (iv_codes db)"

definition codesOK :: "InventoryDB \<Rightarrow> bool" where
  "codesOK db \<longleftrightarrow> tableOK cr_id codeKey (iv_codeSeq db) (iv_codes db)"

lemma foldl_backfill:
  assumes "codesOK db" "distinct ks" "set ks \<inter> registry db = {}"
  shows "\<exists>new. foldl (backfillCode now) db ks = db\<lparr>iv_codes := iv_codes db @ new, iv_codeSeq := iv_codeSeq db + int (length ks)\<rparr> \<and>
    map codeKey new = ks \<and> codesOK (foldl (backfillCode now) db ks)"
  using assms
proof (induction ks arbitrary: db)
  case Nil
  then show ?case by (intro exI [of _ "[]"]) simp
next
  case (Cons k ks)
  let ?r = "\<lparr>cr_id = iv_codeSeq db + 1, cr_type = fst k, cr_code = snd k, cr_description = [], cr_created = now\<rparr>"
  define db1 where "db1 = backfillCode now db k"
  have d: "db1 = db\<lparr>iv_codes := iv_codes db @ [?r], iv_codeSeq := iv_codeSeq db + 1\<rparr>" by (simp add: db1_def backfillCode_def)
  have key: "codeKey ?r = k" by (simp add: codeKey_def)
  have "tableOK cr_id codeKey (iv_codeSeq db + 1) (iv_codes db @ [?r])"
    by (rule tableOK_insert [of _ _ "iv_codeSeq db"]) (use Cons.prems key in \<open>auto simp: codesOK_def registry_def\<close>)
  then have ok: "codesOK db1" by (simp add: d codesOK_def)
  have "registry db1 = insert k (registry db)" by (simp add: d registry_def key)
  with Cons.prems have "set ks \<inter> registry db1 = {}" by auto
  from Cons.IH [OF ok _ this] Cons.prems obtain new where
    n: "foldl (backfillCode now) db1 ks = db1\<lparr>iv_codes := iv_codes db1 @ new, iv_codeSeq := iv_codeSeq db1 + int (length ks)\<rparr>"
      "map codeKey new = ks" "codesOK (foldl (backfillCode now) db1 ks)" by auto
  have f: "foldl (backfillCode now) db (k # ks) = foldl (backfillCode now) db1 ks" by (simp add: db1_def)
  have u: "db1\<lparr>iv_codes := iv_codes db1 @ new, iv_codeSeq := iv_codeSeq db1 + int (length ks)\<rparr> =
      db\<lparr>iv_codes := iv_codes db @ (?r # new), iv_codeSeq := iv_codeSeq db + int (length (k # ks))\<rparr>" by (simp add: d)
  have "map codeKey (?r # new) = k # ks" using n(2) key by simp
  then show ?case unfolding f by (intro exI [of _ "?r # new"]) (use n u in simp)
qed

text \<open>At every start, each pair that an entry uses gets a row in the registry, once, and no row that was
  there changes.\<close>

lemma backfill_complete:
  assumes "codesOK db" "backfill None time db = Inr db'"
  shows "registry db' = registry db \<union> (\<lambda>(c, t, k). (t, k)) ` tags db \<and> codesOK db' \<and>
    (\<exists>new. iv_codes db' = iv_codes db @ new) \<and> iv_cells db' = iv_cells db \<and> iv_geocodes db' = iv_geocodes db"
proof -
  define ks where "ks = remdups (filter (\<lambda>k. k \<notin> set (map codeKey (iv_codes db))) (map (\<lambda>g. (gr_type g, gr_code g)) (iv_geocodes db)))"
  have db': "db' = foldl (backfillCode (formatRFC3339Nano (UTC time))) db ks" using assms(2) by (simp add: backfill_def ks_def)
  have k: "distinct ks" "set ks \<inter> registry db = {}" by (auto simp: ks_def registry_def)
  from foldl_backfill [OF assms(1) k, of "formatRFC3339Nano (UTC time)"] obtain new where
    n: "db' = db\<lparr>iv_codes := iv_codes db @ new, iv_codeSeq := iv_codeSeq db + int (length ks)\<rparr>" "map codeKey new = ks" "codesOK db'"
    by (auto simp: db')
  have "registry db' = registry db \<union> set ks" unfolding n(2) [symmetric] by (auto simp: n(1) registry_def)
  also have "\<dots> = registry db \<union> (\<lambda>(c, t, k). (t, k)) ` tags db"
    by (auto simp: ks_def tags_def registry_def geoTriple_def image_iff)
  finally show ?thesis using n by simp
qed

section \<open>A deletion between two statements\<close>

text \<open>
  \<open>DeleteCell\<close> counts the entries of the cell and deletes it in two statements. An entry that is
  created in between is left without a cell: no listing, resolution or export shows it again.
\<close>

lemma delete_race:
  assumes "countGeocodes None i db = Inr 0" "insertEntry None now i t k db = Inr (n, db1)"
    and "deleteCellRow None i db1 = Inr (m, db2)"
  shows "\<exists>g \<in> set (iv_geocodes db2). gr_id g = n \<and> gr_cell g = i \<and> (\<forall>c. (g, c) \<notin> set (joined db2))"
  using assms by (auto simp: insertEntry_def deleteCellRow_def Let_def joined_iff)

text \<open>Two different tags with one key: the second row of such a file is refused as a repetition.\<close>

lemma geocode_key_collision:
  "\<exists>r s. validRow r \<and> validRow s \<and> pd_CodeType r \<noteq> pd_CodeType s \<and> geoKey r = geoKey s"
proof -
  let ?r = "\<lambda>t k. \<lparr>pd_MCC = ''311'', pd_MNC = ''435'', pd_MNCLength = 3, pd_ECI = 1, pd_CodeType = t, pd_Code = k\<rparr>"
  have "validRow (?r ''A-B'' ''C'')" "validRow (?r ''A'' ''B-C'')" by (simp_all add: validRow_def sampleDigits)
  moreover have "geoKey (?r ''A-B'' ''C'') = geoKey (?r ''A'' ''B-C'')" by (simp add: geoKey_def)
  ultimately show ?thesis by (intro exI [of _ "?r ''A-B'' ''C''"] exI [of _ "?r ''A'' ''B-C''"]) simp
qed

section \<open>Witnesses\<close>

definition sampleRows :: "PendingRow list" where
  "sampleRows = [\<lparr>pd_MCC = ''311'', pd_MNC = ''435'', pd_MNCLength = 3, pd_ECI = 258, pd_CodeType = ''SAME'', pd_Code = ''048453''\<rparr>,
     \<lparr>pd_MCC = ''311'', pd_MNC = ''435'', pd_MNCLength = 3, pd_ECI = 999, pd_CodeType = ''SAME'', pd_Code = ''048453''\<rparr>]"

lemma ApplyGeocodeImport_total:
  "mode \<in> {Merge, Replace} \<Longrightarrow> \<exists>i d e db'. ApplyGeocodeImport None time rows mode db = Inr (i, d, e, db')"
  by (auto simp: ApplyGeocodeImport_def Let_def split: prod.split)

lemma sampleInventory_geocodes: "geocodesOK sampleInventory"
  by (simp add: geocodesOK_def sampleInventory_def emptyInventory_def)

theorem geocode_import_exact_witness:
  "\<exists>db'. ApplyGeocodeImport None (sampleTime 13 0) sampleRows Replace sampleInventory =
      Inr (1, 0, [rowError 3 ''eci'' ''cell_not_found''], db') \<and> tags db' = {(1, ''SAME'', ''048453'')}"
proof -
  obtain i d e db' where r: "ApplyGeocodeImport None (sampleTime 13 0) sampleRows Replace sampleInventory = Inr (i, d, e, db')"
    using ApplyGeocodeImport_total [of Replace] by blast
  note h = geocode_import_exact [OF sampleInventory_geocodes r]
  have t: "tagOf sampleInventory (sampleRows ! 0) = Some (1, ''SAME'', ''048453'')" "rowCell sampleInventory (sampleRows ! 1) = None"
    by (simp_all add: tagOf_def rowCell_def cellAt_def sampleRows_def sampleInventory_def areaCell_def siteCell_def)
  then have u: "tagOf sampleInventory (sampleRows ! 1) = None" "rowCell sampleInventory (sampleRows ! 0) \<noteq> None" by (auto simp: tagOf_def)
  have s: "sampleRows = [sampleRows ! 0, sampleRows ! 1]" by (simp add: sampleRows_def)
  have T: "{t. \<exists>r \<in> set sampleRows. tagOf sampleInventory r = Some t} = {(1, ''SAME'', ''048453'')}"
    by (subst s) (use t(1) u(1) in auto)
  have E: "unknownCells sampleInventory (List.enumerate 0 sampleRows) = [rowError 3 ''eci'' ''cell_not_found'']"
    by (subst s) (use t(2) u(2) in \<open>simp add: unknownCells_def\<close>)
  have "tags sampleInventory = {}" by (simp add: tags_def sampleInventory_def emptyInventory_def)
  then show ?thesis using h r unfolding T E by simp
qed

end
