(* ===== verification/Geocode_Service.thy ===== *)
theory Geocode_Service
  imports Geocode_Store
begin

text \<open>
  \<open>internal/geocode/service.go\<close>: the upload of a geocode file and the registry. The functions
  \<open>Create\<close>, \<open>Delete\<close>, \<open>List\<close>, \<open>ResolveCells\<close>, \<open>Export\<close>, \<open>DeleteCode\<close> and \<open>ListCodes\<close> of the service call
  the repository function and nothing else.
\<close>

definition ImportGeocodes ::
    "(string \<Rightarrow> string) \<Rightarrow> (string \<Rightarrow> string) \<Rightarrow> fault \<Rightarrow> gotime \<Rightarrow> string + string list list \<Rightarrow> ImportMode \<Rightarrow> InventoryDB \<Rightarrow>
     (geocode_error + GeoImportResult) \<times> InventoryDB" where
  "ImportGeocodes upper lower f time rows mode db =
     (if mode \<noteq> ValidateOnly \<and> mode \<noteq> Merge \<and> mode \<noteq> Replace then (Inl (GeoMode mode), db)
      else
        let parsed = ParseGeocodes upper lower rows;
            result = \<lparr>gi_RowsReceived = int (pr_Rows parsed), gi_RowsValid = int (length (pr_Items parsed)),
              gi_RowsRejected = int (pr_Rows parsed) - int (length (pr_Items parsed)), gi_Inserted = 0, gi_Deleted = 0,
              gi_Errors = pr_Errors parsed\<rparr>
        in if mode = ValidateOnly \<or> pr_Errors parsed \<noteq> [] then (Inr result, db)
        else case ApplyGeocodeImport f time (pr_Items parsed) mode db of
            Inl e \<Rightarrow> (Inl e, db)
          | Inr (inserted, deleted, rowErrors, db) \<Rightarrow>
              (Inr (result\<lparr>gi_Inserted := inserted, gi_Deleted := deleted, gi_Errors := gi_Errors result @ rowErrors,
                 gi_RowsRejected := gi_RowsRejected result + int (length rowErrors),
                 gi_RowsValid := gi_RowsValid result - int (length rowErrors)\<rparr>), db))"

definition CreateCode ::
    "(string \<Rightarrow> string) \<Rightarrow> fault \<Rightarrow> gotime \<Rightarrow> string \<Rightarrow> string \<Rightarrow> string \<Rightarrow> InventoryDB \<Rightarrow> (geocode_error + Code) \<times> InventoryDB" where
  "CreateCode upper f time codeType code description db =
     (let codeType = ToUpper upper (TrimSpace codeType); code = TrimSpace code in
      if codeType = [] \<or> code = [] then (Inl GeoCodeRequired, db)
      else case CreateCodeRow f time codeType code (TrimSpace description) db of
          Inl e \<Rightarrow> (Inl e, db)
        | Inr (c, db) \<Rightarrow> (Inr c, db))"

end
