(* ===== verification/Inventory_Steps.thy ===== *)
theory Inventory_Steps
  imports Inventory_Service Geocode_Service
begin

text \<open>
  What holds of the inventory tables at all times. A step is one operation of the repository with the
  arguments that the services give it; the services are runs of such steps, so that steps of several
  requests may interleave in any order.
\<close>

section \<open>Steps\<close>

definition stampable :: "gotime \<Rightarrow> bool" where
  "stampable t \<longleftrightarrow> parseRFC3339 (formatRFC3339Nano (UTC t)) \<noteq> None"

inductive inventoryStep :: "GeoCodec \<Rightarrow> InventoryDB \<Rightarrow> InventoryDB \<Rightarrow> bool" for gj where
  import_created: "im_InventoryVersionID imp = [] \<Longrightarrow> CreateImport f imp db = Inr db' \<Longrightarrow> inventoryStep gj db db'"
| errors_stored: "i \<in> ir_id ` set (iv_imports db) \<Longrightarrow> StoreImportErrors f i errs db = Inr db' \<Longrightarrow> inventoryStep gj db db'"
| import_failed: "MarkImportFailed f i t db = Inr db' \<Longrightarrow> inventoryStep gj db db'"
| import_applied: "list_all (validCell gj) (ai_Cells i) \<Longrightarrow> distinct (map csvKey (ai_Cells i)) \<Longrightarrow> stampable t \<Longrightarrow>
    ApplyImport f t v i db = Inr (res, db') \<Longrightarrow> inventoryStep gj db db'"
| cell_created: "validCell gj c \<Longrightarrow> stampable t \<Longrightarrow> CreateCell f g t c db = (r, db') \<Longrightarrow> inventoryStep gj db db'"
| cell_deleted: "DeleteCell f g i db = (r, db') \<Longrightarrow> inventoryStep gj db db'"
| entry_created: "CreateEntry f g t plmn eci ct code db = Inr (e, db') \<Longrightarrow> inventoryStep gj db db'"
| entry_deleted: "DeleteEntry f i db = (r, db') \<Longrightarrow> inventoryStep gj db db'"
| geocodes_imported: "ApplyGeocodeImport f t rows mode db = Inr (n, d, errs, db') \<Longrightarrow> inventoryStep gj db db'"
| code_created: "CreateCodeRow f t ct code desc db = Inr (c, db') \<Longrightarrow> inventoryStep gj db db'"
| code_deleted: "DeleteCode f i db = (r, db') \<Longrightarrow> inventoryStep gj db db'"
| backfilled: "backfill f t db = Inr db' \<Longrightarrow> inventoryStep gj db db'"

section \<open>Invariant\<close>

definition auditOK :: "InventoryDB \<Rightarrow> bool" where
  "auditOK db \<longleftrightarrow>
     distinct (map ir_id (iv_imports db)) \<and> distinct (map vr_id (iv_versions db)) \<and> distinct (map vr_name (iv_versions db)) \<and>
     (\<forall>r \<in> set (iv_imports db). \<forall>v. ir_version r = Some v \<longrightarrow> v \<in> vr_id ` set (iv_versions db)) \<and>
     er_import ` set (iv_errors db) \<subseteq> ir_id ` set (iv_imports db)"

definition inventoryOK :: "GeoCodec \<Rightarrow> InventoryDB \<Rightarrow> bool" where
  "inventoryOK gj db \<longleftrightarrow>
     inventoryCells db \<and> list_all (soundRow gj) (iv_cells db) \<and> geocodesOK db \<and> codesOK db \<and> auditOK db"

lemma inventoryOK_empty: "inventoryOK gj emptyInventory"
  by (simp add: inventoryOK_def inventoryCells_def geocodesOK_def codesOK_def auditOK_def emptyInventory_def)

lemma map_same: "(\<And>r. f (g r) = f r) \<Longrightarrow> map f (map g xs) = map f xs"
  by simp

text \<open>Operations on the tables of imports and versions.\<close>

lemma auditOK_created:
  assumes "CreateImport f imp db = Inr db'" "im_InventoryVersionID imp = []" "auditOK db"
  shows "auditOK db'"
proof -
  obtain r where r: "db' = db\<lparr>iv_imports := iv_imports db @ [r]\<rparr>" "ir_id r = im_ID imp"
    "im_ID imp \<notin> ir_id ` set (iv_imports db)" "ir_version r = None"
    using CreateImport_result [OF assms(1)] assms(2) by blast
  have "ir_id ` set (iv_imports db) \<subseteq> ir_id ` set (iv_imports db')" by (auto simp: r(1))
  then have "er_import ` set (iv_errors db') \<subseteq> ir_id ` set (iv_imports db')"
    using assms(3) by (auto simp: auditOK_def r(1))
  moreover have "distinct (map ir_id (iv_imports db'))" using assms(3) r by (simp add: auditOK_def)
  ultimately show ?thesis using assms(3) r(4) unfolding auditOK_def by (auto simp: r(1))
qed

lemma auditOK_errors:
  assumes "StoreImportErrors f i errs db = Inr db'" "i \<in> ir_id ` set (iv_imports db)" "auditOK db"
  shows "auditOK db'"
proof -
  obtain new where n: "db' = db\<lparr>iv_errors := iv_errors db @ new\<rparr>" "\<forall>e \<in> set new. er_import e = i"
    using StoreImportErrors_result [OF assms(1)] by blast
  then have "er_import ` set (iv_errors db') \<subseteq> insert i (er_import ` set (iv_errors db))" by auto
  moreover have "er_import ` set (iv_errors db) \<subseteq> ir_id ` set (iv_imports db)" using assms(3) by (simp add: auditOK_def)
  ultimately have "er_import ` set (iv_errors db') \<subseteq> ir_id ` set (iv_imports db)" using assms(2) by blast
  then show ?thesis using assms(3) unfolding auditOK_def by (simp add: n(1))
qed

lemma auditOK_update:
  assumes "auditOK db" "iv_imports db' = map g (iv_imports db)" "\<And>r. ir_id (g r) = ir_id r" "iv_errors db' = iv_errors db"
    and "distinct (map vr_id (iv_versions db'))" "distinct (map vr_name (iv_versions db'))"
    and "vr_id ` set (iv_versions db) \<subseteq> vr_id ` set (iv_versions db')"
    and "\<And>r v. ir_version (g r) = Some v \<Longrightarrow> ir_version r = Some v \<or> v \<in> vr_id ` set (iv_versions db')"
  shows "auditOK db'"
proof -
  have m: "map ir_id (iv_imports db') = map ir_id (iv_imports db)" unfolding assms(2) by (rule map_same) (rule assms(3))
  have k: "ir_id ` set (iv_imports db') = ir_id ` set (iv_imports db)" unfolding assms(2) by (rule key_image) (rule assms(3))
  have "v \<in> vr_id ` set (iv_versions db')" if "r \<in> set (iv_imports db)" "ir_version (g r) = Some v" for r v
    using assms(8) [OF that(2)] assms(1,7) that(1) unfolding auditOK_def by blast
  then have "\<forall>r \<in> set (iv_imports db'). \<forall>v. ir_version r = Some v \<longrightarrow> v \<in> vr_id ` set (iv_versions db')"
    by (simp add: assms(2))
  then show ?thesis using assms(1,5,6) unfolding auditOK_def m k assms(4) by blast
qed

lemma auditOK_failed:
  assumes "MarkImportFailed f i t db = Inr db'" "auditOK db"
  shows "auditOK db'"
proof -
  obtain g where g: "db' = db\<lparr>iv_imports := map g (iv_imports db)\<rparr>"
    "\<And>r. ir_id (g r) = ir_id r" "\<And>r. ir_version (g r) = ir_version r" using MarkImportFailed_result [OF assms(1)] by blast
  show ?thesis
    by (rule auditOK_update [of db db' g]) (use assms(2) g in \<open>simp_all add: auditOK_def\<close>)
qed

text \<open>The entries stay valid as long as no cell is lost.\<close>

lemma geocodesOK_cells:
  assumes "geocodesOK db" "iv_geocodes db' = iv_geocodes db" "iv_geoSeq db' = iv_geoSeq db"
    and "cl_id ` set (iv_cells db) \<subseteq> cl_id ` set (iv_cells db')"
  shows "geocodesOK db'"
  using assms unfolding geocodesOK_def by (metis subset_trans)

text \<open>Rows of an import are sound.\<close>

lemma importedRows_sound:
  assumes "goodCodec gj" "list_all (validCell gj) cells" "list_all (soundRow gj) (iv_cells db)" "parseRFC3339 now \<noteq> None"
  shows "list_all (soundRow gj) (importedRows now mode cells db)"
proof -
  have new: "list_all (soundRow gj) (newRows now K n cs)" if "list_all (validCell gj) cs" for K n cs
    using that by (induction cs arbitrary: n) (auto simp: cellRow_sound [OF assms(1) _ assms(4)])
  have up: "soundRow gj (importRow now cells r)" if "soundRow gj r" for r
  proof (cases "importedCell cells (rowKey r)")
    case None
    then show ?thesis using that by (simp add: importRow_def)
  next
    case (Some c)
    then have "validCell gj c" using importedCell_Some [OF Some] assms(2) by (auto simp: list_all_iff)
    from cellRow_sound [OF assms(1) this assms(4), of "cl_id r"] have s: "soundRow gj (cellRow (cl_id r) now c)" .
    have "soundRow gj (refreshed now r c)"
      by (rule soundRow_same [OF s]) (use that assms(4) in \<open>simp_all add: refreshed_def rowBounds_def soundRow_def\<close>)
    then show ?thesis using Some by (simp add: importRow_def)
  qed
  have de: "soundRow gj (deactivated now r)" if "soundRow gj r" for r
    by (cases "cl_active r", rule soundRow_same [OF that])
      (use that assms(4) in \<open>simp_all add: deactivated_def rowBounds_def soundRow_def\<close>)
  show ?thesis using assms(3) new [OF assms(2)] up de by (auto simp: importedRows_def list_all_iff)
qed

lemma inventoryOK_applied:
  assumes "goodCodec gj" "list_all (validCell gj) (ai_Cells i)" "distinct (map csvKey (ai_Cells i))" "stampable t"
    and "ApplyImport f t v i db = Inr (res, db')" "inventoryOK gj db"
  shows "inventoryOK gj db'"
proof -
  have p: "list_all (\<lambda>c. plainPLMN (c_PLMN c)) (ai_Cells i)" using assms(2) validCell_plain by (auto simp: list_all_iff)
  note d = csvKey_ecgiOf [OF assms(3)]
  have ic: "inventoryCells db" using assms(6) by (simp add: inventoryOK_def)
  note R = ApplyImport_result [OF ic p d assms(5)]
  let ?now = "formatRFC3339Nano (UTC t)"
  have n: "parseRFC3339 ?now \<noteq> None" using assms(4) by (simp add: stampable_def)
  have c: "iv_cells db' = importedRows ?now (ai_Mode i) (ai_Cells i) db" using R(6) by simp
  have s: "list_all (soundRow gj) (iv_cells db')"
    unfolding c by (rule importedRows_sound [OF assms(1,2) _ n]) (use assms(6) in \<open>simp add: inventoryOK_def\<close>)
  have ids: "cl_id ` set (iv_cells db) \<subseteq> cl_id ` set (iv_cells db')"
    unfolding c importedRows_def set_append image_Un by (subst key_image) auto
  have cells: "inventoryCells db'"
    using importedRows_ok [OF ic p d, of ?now "ai_Mode i"] R(6) by (simp add: inventoryCells_def)
  have g: "geocodesOK db" using assms(6) by (simp add: inventoryOK_def)
  have geo: "geocodesOK db'" by (rule geocodesOK_cells [OF g _ _ ids]) (simp_all add: R(6))
  have aud: "auditOK db'"
    by (rule auditOK_update [of db db' "\<lambda>r. if ir_id r = ai_ImportID i then
        r\<lparr>ir_status := ''completed'', ir_version := Some v, ir_inserted := ar_Inserted res, ir_updated := ar_Updated res,
          ir_deactivated := ar_Deactivated res, ir_completed := Some ?now\<rparr> else r"])
      (use assms(6) R(3,4,6) in \<open>auto simp: inventoryOK_def auditOK_def split: if_splits\<close>)
  show ?thesis using s cells geo aud assms(6) R(6) by (simp add: inventoryOK_def codesOK_def)
qed

section \<open>Single cells\<close>

lemma inventoryOK_cell_created:
  assumes "goodCodec gj" "validCell gj c" "stampable t" "CreateCell f g t c db = (r, db')" "inventoryOK gj db"
  shows "inventoryOK gj db'"
proof (cases "db' = db")
  case False
  let ?row = "cellRow (iv_cellSeq db + 1) (formatRFC3339Nano (UTC t)) c"
  have d: "db' = db\<lparr>iv_cells := iv_cells db @ [?row], iv_cellSeq := iv_cellSeq db + 1\<rparr>"
    and n: "ecgiOf c \<notin> set (map rowKey (iv_cells db))"
    using assms(4) False by (auto simp: CreateCell_def Let_def driver_def failIf_def split: sum.splits option.splits if_splits)
  have "tableOK cl_id rowKey (iv_cellSeq db + 1) (iv_cells db @ [?row])"
    by (rule tableOK_insert [of _ _ "iv_cellSeq db"]) (use assms(5) n in \<open>auto simp: inventoryOK_def inventoryCells_def\<close>)
  then have cells: "inventoryCells db'"
    using assms(5) validCell_plain [OF assms(2)] by (simp add: d inventoryOK_def inventoryCells_def)
  have "soundRow gj ?row" by (rule cellRow_sound [OF assms(1,2)]) (use assms(3) in \<open>simp add: stampable_def\<close>)
  then have "list_all (soundRow gj) (iv_cells db')" using assms(5) by (simp add: d inventoryOK_def)
  moreover have geo: "geocodesOK db'"
    by (rule geocodesOK_cells [of db]) (use assms(5) in \<open>auto simp: d inventoryOK_def\<close>)
  ultimately show ?thesis using cells assms(5) by (simp add: d inventoryOK_def codesOK_def auditOK_def)
qed (use assms(5) in simp)

lemma inventoryOK_cell_deleted:
  assumes "DeleteCell f g i db = (r, db')" "inventoryOK gj db"
  shows "inventoryOK gj db'"
proof (cases "db' = db")
  case False
  then have d: "db' = db\<lparr>iv_cells := filter (\<lambda>r. cl_id r \<noteq> i) (iv_cells db)\<rparr>" and n: "filter (\<lambda>g. gr_cell g = i) (iv_geocodes db) = []"
    using assms(1) by (auto simp: DeleteCell_def countGeocodes_def deleteCellRow_def driver_def split: sum.splits option.splits if_splits)
  have cells: "inventoryCells db'"
    using assms(2) tableOK_filter by (auto simp: d inventoryOK_def inventoryCells_def list_all_iff)
  have "list_all (soundRow gj) (iv_cells db')" using assms(2) by (auto simp: d inventoryOK_def list_all_iff)
  moreover have "geocodesOK db'"
  proof -
    have "gr_cell x \<in> cl_id ` set (iv_cells db')" if "x \<in> set (iv_geocodes db)" for x
    proof -
      have "gr_cell x \<noteq> i" using n that by (auto simp: filter_empty_conv)
      moreover have "gr_cell x \<in> cl_id ` set (iv_cells db)" using assms(2) that by (auto simp: inventoryOK_def geocodesOK_def)
      ultimately show ?thesis by (auto simp: d)
    qed
    then show ?thesis using assms(2) by (auto simp: d inventoryOK_def geocodesOK_def)
  qed
  ultimately show ?thesis using cells assms(2) by (simp add: d inventoryOK_def codesOK_def auditOK_def)
qed (use assms(2) in simp)

section \<open>Geocodes\<close>

lemma inventoryOK_geocodes: "sameButGeocodes db db' \<Longrightarrow> geocodesOK db' \<Longrightarrow> inventoryOK gj db \<Longrightarrow> inventoryOK gj db'"
  by (simp add: inventoryOK_def sameButGeocodes_def inventoryCells_def codesOK_def auditOK_def)

lemma CreateEntry_ok:
  assumes "CreateEntry f g t plmn eci ct code db = Inr (e, db')" "geocodesOK db"
  shows "sameButGeocodes db db' \<and> geocodesOK db'"
proof -
  from assms(1) obtain i where l: "lookupCellID f plmn eci db = Inr i" and n: "(i, ct, code) \<notin> set (map geoTriple (iv_geocodes db))"
    and d: "db' = db\<lparr>iv_geocodes := iv_geocodes db @ [\<lparr>gr_id = iv_geoSeq db + 1, gr_cell = i, gr_type = ct, gr_code = code,
      gr_created = formatRFC3339Nano (UTC t)\<rparr>], iv_geoSeq := iv_geoSeq db + 1\<rparr>"
    by (auto simp: CreateEntry_def insertEntry_def andThen_eq_Inr geoDriver_Inr Let_def)
  from l have "i \<in> cl_id ` set (iv_cells db)"
    by (auto simp: lookupCellID_def geoDriver_Inr find_Some_iff split: option.splits)
  moreover have "tableOK gr_id geoTriple (iv_geoSeq db + 1) (iv_geocodes db @ [\<lparr>gr_id = iv_geoSeq db + 1, gr_cell = i, gr_type = ct,
      gr_code = code, gr_created = formatRFC3339Nano (UTC t)\<rparr>])"
    by (rule tableOK_insert [of _ _ "iv_geoSeq db"]) (use assms(2) n in \<open>auto simp: geocodesOK_def geoTriple_def\<close>)
  ultimately show ?thesis using assms(2) by (simp add: d sameButGeocodes_def geocodesOK_def)
qed

lemma DeleteEntry_ok:
  assumes "DeleteEntry f i db = (r, db')" "geocodesOK db"
  shows "sameButGeocodes db db' \<and> geocodesOK db'"
proof (cases "db' = db")
  case False
  then have d: "db' = db\<lparr>iv_geocodes := filter (\<lambda>g. gr_id g \<noteq> i) (iv_geocodes db)\<rparr>"
    using assms(1) by (auto simp: DeleteEntry_def geoDriver_def split: sum.splits option.splits if_splits)
  have t: "tableOK gr_id geoTriple (iv_geoSeq db) (filter (\<lambda>g. gr_id g \<noteq> i) (iv_geocodes db))"
    and c: "gr_cell ` set (iv_geocodes db) \<subseteq> cl_id ` set (iv_cells db)"
    using assms(2) by (simp_all add: geocodesOK_def tableOK_filter)
  have "gr_cell ` set (filter (\<lambda>g. gr_id g \<noteq> i) (iv_geocodes db)) \<subseteq> gr_cell ` set (iv_geocodes db)"
    by (rule image_mono) simp
  then have "gr_cell ` set (filter (\<lambda>g. gr_id g \<noteq> i) (iv_geocodes db)) \<subseteq> cl_id ` set (iv_cells db)"
    using c by (rule subset_trans)
  moreover have "iv_geocodes db' = filter (\<lambda>g. gr_id g \<noteq> i) (iv_geocodes db)" "iv_geoSeq db' = iv_geoSeq db"
    and same: "sameButGeocodes db db'"
    by (simp_all add: d sameButGeocodes_def)
  moreover have "iv_cells db' = iv_cells db" using same by (simp add: sameButGeocodes_def)
  ultimately show ?thesis using t unfolding geocodesOK_def by presburger
qed (use assms(2) in \<open>simp add: sameButGeocodes_def\<close>)

lemma inventoryOK_codes:
  assumes "inventoryOK gj db" "codesOK (db\<lparr>iv_codes := cs, iv_codeSeq := n\<rparr>)"
  shows "inventoryOK gj (db\<lparr>iv_codes := cs, iv_codeSeq := n\<rparr>)"
  using assms by (simp add: inventoryOK_def inventoryCells_def geocodesOK_def auditOK_def)

lemma CreateCodeRow_ok:
  assumes "CreateCodeRow f t ct code desc db = Inr (c, db')" "inventoryOK gj db"
  shows "inventoryOK gj db'"
proof -
  let ?row = "\<lparr>cr_id = iv_codeSeq db + 1, cr_type = ct, cr_code = code, cr_description = desc, cr_created = formatRFC3339Nano (UTC t)\<rparr>"
  have d: "db' = db\<lparr>iv_codes := iv_codes db @ [?row], iv_codeSeq := iv_codeSeq db + 1\<rparr>" and n: "(ct, code) \<notin> set (map codeKey (iv_codes db))"
    using assms(1) by (auto simp: CreateCodeRow_def geoDriver_Inr Let_def)
  have "tableOK cr_id codeKey (iv_codeSeq db + 1) (iv_codes db @ [?row])"
    by (rule tableOK_insert [of _ _ "iv_codeSeq db"]) (use assms(2) n in \<open>auto simp: inventoryOK_def codesOK_def codeKey_def\<close>)
  then show ?thesis unfolding d by (intro inventoryOK_codes assms(2)) (simp add: codesOK_def)
qed

lemma DeleteCode_ok:
  assumes "DeleteCode f i db = (r, db')" "inventoryOK gj db"
  shows "inventoryOK gj db'"
proof (cases "db' = db")
  case False
  have d: "db' = db\<lparr>iv_codes := filter (\<lambda>c. cr_id c \<noteq> i) (iv_codes db), iv_codeSeq := iv_codeSeq db\<rparr>"
    using assms(1) False by (auto simp: DeleteCode_def geoDriver_def split: sum.splits option.splits if_splits)
  show ?thesis unfolding d
    by (intro inventoryOK_codes assms(2)) (use assms(2) in \<open>simp add: codesOK_def inventoryOK_def tableOK_filter\<close>)
qed (use assms(2) in simp)

lemma backfill_ok:
  assumes "backfill f t db = Inr db'" "inventoryOK gj db"
  shows "inventoryOK gj db'"
proof -
  define ks where "ks = remdups (filter (\<lambda>k. k \<notin> set (map codeKey (iv_codes db))) (map (\<lambda>g. (gr_type g, gr_code g)) (iv_geocodes db)))"
  have d: "db' = foldl (backfillCode (formatRFC3339Nano (UTC t))) db ks" using assms(1) by (simp add: backfill_def geoDriver_Inr ks_def)
  have c: "codesOK db" "distinct ks" "set ks \<inter> registry db = {}" using assms(2) by (auto simp: inventoryOK_def ks_def registry_def)
  from foldl_backfill [OF c, of "formatRFC3339Nano (UTC t)"] obtain new where
    n: "db' = db\<lparr>iv_codes := iv_codes db @ new, iv_codeSeq := iv_codeSeq db + int (length ks)\<rparr>" "codesOK db'" by (auto simp: d)
  show ?thesis using n(2) unfolding n(1) by (rule inventoryOK_codes [OF assms(2)])
qed

section \<open>All steps\<close>

lemma step_inventoryOK:
  assumes "inventoryStep gj db db'" "goodCodec gj" "inventoryOK gj db"
  shows "inventoryOK gj db'"
  using assms(1)
proof cases
  case (import_created imp f)
  then obtain r where "db' = db\<lparr>iv_imports := iv_imports db @ [r]\<rparr>" using CreateImport_result by blast
  then show ?thesis using auditOK_created [OF import_created(2,1)] assms(3)
    by (simp add: inventoryOK_def inventoryCells_def geocodesOK_def codesOK_def)
next
  case (errors_stored i f errs)
  then obtain new where "db' = db\<lparr>iv_errors := iv_errors db @ new\<rparr>" using StoreImportErrors_result by blast
  then show ?thesis using auditOK_errors [OF errors_stored(2,1)] assms(3)
    by (simp add: inventoryOK_def inventoryCells_def geocodesOK_def codesOK_def)
next
  case (import_failed f i t)
  then obtain g where "db' = db\<lparr>iv_imports := map g (iv_imports db)\<rparr>" using MarkImportFailed_result by blast
  then show ?thesis using auditOK_failed [OF import_failed] assms(3)
    by (simp add: inventoryOK_def inventoryCells_def geocodesOK_def codesOK_def)
next
  case (import_applied i t f v res)
  then show ?thesis using inventoryOK_applied [OF assms(2)] assms(3) by blast
next
  case (cell_created c t f g r)
  then show ?thesis using inventoryOK_cell_created [OF assms(2)] assms(3) by blast
next
  case (cell_deleted f g i r)
  then show ?thesis using inventoryOK_cell_deleted assms(3) by blast
next
  case (entry_created f g t plmn eci ct code e)
  have "geocodesOK db" using assms(3) by (simp add: inventoryOK_def)
  from CreateEntry_ok [OF entry_created this] show ?thesis using inventoryOK_geocodes assms(3) by blast
next
  case (entry_deleted f i r)
  have "geocodesOK db" using assms(3) by (simp add: inventoryOK_def)
  from DeleteEntry_ok [OF entry_deleted this] show ?thesis using inventoryOK_geocodes assms(3) by blast
next
  case (geocodes_imported f t rows mode n d errs)
  have "geocodesOK db" using assms(3) by (simp add: inventoryOK_def)
  from ApplyGeocodeImport_ok [OF this geocodes_imported] show ?thesis using inventoryOK_geocodes assms(3) by blast
next
  case (code_created f t ct code desc c)
  then show ?thesis using CreateCodeRow_ok assms(3) by blast
next
  case (code_deleted f i r)
  then show ?thesis using DeleteCode_ok assms(3) by blast
next
  case (backfilled f t)
  then show ?thesis using backfill_ok assms(3) by blast
qed

lemma steps_inventoryOK: "(inventoryStep gj)\<^sup>*\<^sup>* db db' \<Longrightarrow> goodCodec gj \<Longrightarrow> inventoryOK gj db \<Longrightarrow> inventoryOK gj db'"
  by (induction rule: rtranclp_induct) (auto intro: step_inventoryOK)

section \<open>Requests\<close>

text \<open>The requests of the services, each with the failures and the times it may meet.\<close>

inductive inventoryRequest :: "GeoCodec \<Rightarrow> InventoryDB \<Rightarrow> InventoryDB \<Rightarrow> bool" for gj where
  upload: "stampable (ie_Applied env) \<Longrightarrow> Import gj cc svc env filename data mode db = (res, db') \<Longrightarrow> inventoryRequest gj db db'"
| create: "stampable t \<Longrightarrow> CreateCellService gj f g t i db = (res, db') \<Longrightarrow> inventoryRequest gj db db'"
| delete: "DeleteCell f g n db = (r, db') \<Longrightarrow> inventoryRequest gj db db'"
| tag: "CreateEntry f g t plmn eci ct code db = Inr (e, db') \<Longrightarrow> inventoryRequest gj db db'"
| untag: "DeleteEntry f n db = (r, db') \<Longrightarrow> inventoryRequest gj db db'"
| upload_geocodes: "ImportGeocodes upper lower f t rows mode db = (res, db') \<Longrightarrow> inventoryRequest gj db db'"
| register: "CreateCode upper f t ct code desc db = (res, db') \<Longrightarrow> inventoryRequest gj db db'"
| unregister: "DeleteCode f n db = (r, db') \<Longrightarrow> inventoryRequest gj db db'"
| start: "backfill f t db = Inr db' \<Longrightarrow> inventoryRequest gj db db'"

lemma result_valid:
  assumes "goodCodec gj" "result = importResult gj cc input"
  shows "list_all (validCell gj) (pr_Items result) \<and> distinct (map csvKey (pr_Items result))"
proof -
  have p: "parseTable (cellFrom gj) csvKey ''eci'' ''duplicate_ecgi'' (cc_lower cc) CSVColumns (cc_rows cc input) = result"
    by (simp add: assms(2) importResult_def ParseCSV_def)
  show ?thesis using parseTable_sound(1,2) [OF p] cellFrom_valid [OF assms(1)] by (auto simp: list_all_iff)
qed

lemma recordFailure_steps:
  assumes "ie_ID env \<in> ir_id ` set (iv_imports db)"
  shows "(inventoryStep gj)\<^sup>*\<^sup>* db (recordFailure env db)"
proof -
  define db1 where "db1 = orElse db (StoreImportErrors (ie_FailureErrors env) (ie_ID env) [rowError 0 [] ''apply_failed''] db)"
  have a: "(inventoryStep gj)\<^sup>*\<^sup>* db db1"
    unfolding db1_def orElse_def by (auto split: sum.split intro: inventoryStep.errors_stored [OF assms])
  have "(inventoryStep gj)\<^sup>*\<^sup>* db1 (recordFailure env db)"
    unfolding recordFailure_def Let_def db1_def [symmetric] orElse_def [of db1]
    by (auto split: sum.split intro: inventoryStep.import_failed)
  with a show ?thesis by (rule rtranclp_trans)
qed

text \<open>A request is a run of steps.\<close>

lemma Import_steps:
  assumes "goodCodec gj" "stampable (ie_Applied env)" "Import gj cc svc env filename data mode db = (res, db')"
  shows "(inventoryStep gj)\<^sup>*\<^sup>* db db'"
proof -
  define input where "input = limited svc data"
  define result where "result = importResult gj cc input"
  let ?imp = "importRecord cc env filename input mode result"
  let ?fatal = "pr_Errors result \<noteq> []"
  note d = assms(3) [unfolded Import_def Let_def, folded input_def, folded result_def]
  show ?thesis
  proof (cases "mode \<noteq> ValidateOnly \<and> mode \<noteq> Merge \<and> mode \<noteq> Replace \<or> int (cc_used cc input) > svc_maxImportSize svc")
    case True
    then have "db' = db" using d by (auto split: if_splits)
    then show ?thesis by simp
  next
    case False
    then have m: "\<not> (mode \<noteq> ValidateOnly \<and> mode \<noteq> Merge \<and> mode \<noteq> Replace)" "\<not> svc_maxImportSize svc < int (cc_used cc input)" by auto
    note d = d [unfolded if_not_P [OF m(1)] if_not_P [OF m(2)]]
    show ?thesis
    proof (cases "CreateImport (ie_Create env) ?imp db")
      case (Inl e)
      then show ?thesis using d by simp
    next
      case (Inr db1)
      have s1: "inventoryStep gj db db1"
        by (rule inventoryStep.import_created [OF _ Inr]) (simp add: importRecord_def Let_def)
      from CreateImport_result [OF Inr] have i1: "ie_ID env \<in> ir_id ` set (iv_imports db1)"
        by (auto simp: importRecord_def Let_def)
      note d = d [unfolded Inr sum.case]
      let ?m = "if ?fatal then StoreImportErrors (ie_Errors env) (ie_ID env) (pr_Errors result) db1 else Inr db1"
      show ?thesis
      proof (cases ?m)
        case (Inl e)
        then show ?thesis using d s1 by auto
      next
        case (Inr db2)
        have s2: "(inventoryStep gj)\<^sup>*\<^sup>* db1 db2"
          using Inr inventoryStep.errors_stored [OF i1] by (auto split: if_splits)
        have s12: "(inventoryStep gj)\<^sup>*\<^sup>* db db2" using s1 s2 by (rule converse_rtranclp_into_rtranclp)
        note d = d [unfolded Inr sum.case]
        show ?thesis
        proof (cases "mode = ValidateOnly \<or> ?fatal")
          case True
          then have "db' = db2" using d by auto
          then show ?thesis using s12 by simp
        next
          case False
          then have i2: "ie_ID env \<in> ir_id ` set (iv_imports db2)" using Inr i1 by (auto split: if_splits)
          note d = d [unfolded if_not_P [OF False]]
          show ?thesis
          proof (cases "ApplyImport (ie_Apply env) (ie_Applied env) (ie_Version env) (applyInput cc env filename input mode result) db2")
            case (Inl e)
            then have "db' = recordFailure env db2" using d by simp
            then show ?thesis using s12 recordFailure_steps [OF i2, of gj] by (simp add: rtranclp_trans)
          next
            case (Inr out)
            obtain o1 o2 where o: "out = (o1, o2)" by fastforce
            have v: "list_all (validCell gj) (ai_Cells (applyInput cc env filename input mode result))"
              "distinct (map csvKey (ai_Cells (applyInput cc env filename input mode result)))"
              using result_valid [OF assms(1) result_def] by (simp_all add: applyInput_def)
            have "inventoryStep gj db2 o2"
              by (rule inventoryStep.import_applied [OF v assms(2) Inr [unfolded o]])
            moreover have "db' = o2" using d Inr o by simp
            ultimately show ?thesis using s12 by (simp add: rtranclp.rtrancl_into_rtrancl)
          qed
        qed
      qed
    qed
  qed
qed

lemma request_steps:
  assumes "inventoryRequest gj db db'" "goodCodec gj"
  shows "(inventoryStep gj)\<^sup>*\<^sup>* db db'"
  using assms(1)
proof cases
  case (upload env cc svc filename data mode res)
  then show ?thesis using Import_steps [OF assms(2)] by blast
next
  case (create t f g i res)
  obtain c errs where c: "validateNewCell gj i = (c, errs)" by fastforce
  show ?thesis
  proof (cases "errs = []")
    case True
    have "cellFrom gj (newCellField i) = (c, [])" using c True by (simp add: validateNewCell_def)
    then have v: "validCell gj c" by (rule cellFrom_valid [OF assms(2)])
    obtain r where "CreateCell f g t c db = (r, db')" using create(2) c True by (auto simp: CreateCellService_def split: prod.splits)
    from inventoryStep.cell_created [OF v create(1) this] show ?thesis by blast
  next
    case False
    then show ?thesis using create(2) c by (simp add: CreateCellService_def)
  qed
next
  case (delete f g n r)
  then show ?thesis by (blast intro: inventoryStep.cell_deleted)
next
  case (tag f g t plmn eci ct code e)
  then show ?thesis by (blast intro: inventoryStep.entry_created)
next
  case (untag f n r)
  then show ?thesis by (blast intro: inventoryStep.entry_deleted)
next
  case (upload_geocodes upper lower f t rows mode res)
  show ?thesis
  proof (cases "db' = db")
    case False
    then obtain n d errs where "ApplyGeocodeImport f t (pr_Items (ParseGeocodes upper lower rows)) mode db = Inr (n, d, errs, db')"
      using upload_geocodes by (auto simp: ImportGeocodes_def Let_def split: if_splits sum.splits prod.splits)
    then show ?thesis by (blast intro: inventoryStep.geocodes_imported)
  qed simp
next
  case (register upper f t ct code desc res)
  show ?thesis
  proof (cases "db' = db")
    case False
    then obtain c where "CreateCodeRow f t (ToUpper upper (TrimSpace ct)) (TrimSpace code) (TrimSpace desc) db = Inr (c, db')"
      using register by (auto simp: CreateCode_def Let_def split: if_splits sum.splits prod.splits)
    then show ?thesis by (blast intro: inventoryStep.code_created)
  qed simp
next
  case (unregister f n r)
  then show ?thesis by (blast intro: inventoryStep.code_deleted)
next
  case (start f t)
  then show ?thesis by (blast intro: inventoryStep.backfilled)
qed

lemma reachable_inventoryOK:
  assumes "(\<lambda>a b. inventoryRequest gj a b \<or> inventoryStep gj a b)\<^sup>*\<^sup>* emptyInventory db" "goodCodec gj"
  shows "inventoryOK gj db"
  using assms(1)
proof (induction rule: rtranclp_induct)
  case base
  show ?case by (rule inventoryOK_empty)
next
  case (step a b)
  then show ?case using steps_inventoryOK [OF request_steps] step_inventoryOK assms(2) by blast
qed



end
