(* ===== verification/Cbs_Targeting.thy ===== *)
theory Cbs_Targeting
  imports Cbs_Preparer Cap_Polygon Inventory_Steps
begin

text \<open>
  The preparer as \<open>cmd/cbc/main.go\<close> wires it: the cell selector is the inventory service, the geocode
  resolver the geocode service, both over the same database, and both only when the cell inventory is
  enabled. The lemmas follow a warning area from the text of the alert to rows of the database. The
  queries of one alert see one state of the inventory here; an import between two of them would show
  each query its own state.
\<close>

section \<open>Wiring\<close>

definition wiredSelector :: "GeoCodec \<Rightarrow> (string \<Rightarrow> fault) \<Rightarrow> InventoryDB \<Rightarrow> InventoryPLMN \<Rightarrow> string \<Rightarrow> string + u32 list" where
  "wiredSelector gj f db plmn area =
     (case SelectionPreview gj (f area) (f area)
             \<lparr>sq_PLMN = plmn, sq_Policy = PolicyConservativeIntersection, sq_Area = area\<rparr> db of
        Inl _ \<Rightarrow> Inl []
      | Inr res \<Rightarrow> Inr (map sc_ECI (sr_Cells res)))"

definition wiredResolver :: "(string \<Rightarrow> fault) \<Rightarrow> InventoryDB \<Rightarrow> string \<Rightarrow> string \<Rightarrow> string + u32 list" where
  "wiredResolver f db codeType code =
     (case ResolveCells (f code) codeType code db of Inl _ \<Rightarrow> Inl [] | Inr ecis \<Rightarrow> Inr ecis)"

text \<open>The texts of errors are left out.\<close>

definition noText :: "'e + 'a \<Rightarrow> string + 'a" where
  "noText = wrapErr (\<lambda>_. [])"

definition wiredPreparer :: "GeoCodec \<Rightarrow> Trig \<Rightarrow> (string \<Rightarrow> string) \<Rightarrow> (string \<Rightarrow> fault) \<Rightarrow> Config \<Rightarrow> InventoryDB \<Rightarrow> Preparer" where
  "wiredPreparer gj tr upper f cfg db =
     (let enabled = InventoryEnabled (cfgCellInventory cfg) in
      \<lparr>p_cfg = cfgCBS cfg,
       p_plmn = (if enabled then PLMN (cfgSBcAP cfg) else []),
       p_selector = (if enabled then Some (wiredSelector gj f db) else None),
       p_geocodes = (if enabled then Some (wiredResolver f db) else None),
       p_polygonGeoJSON = (\<lambda>s. noText (PolygonToGeoJSON gj s)),
       p_circleGeoJSON = (\<lambda>s. noText (CircleToGeoJSON tr gj s)),
       p_upperUnicode = upper\<rparr>)"

section \<open>Every query of a prepared target succeeded\<close>

lemma foldE_all:
  assumes "foldE step acc xs = Inr out" "\<And>acc x acc'. step acc x = Inr acc' \<Longrightarrow> P x"
  shows "\<forall>x \<in> set xs. P x"
  using assms(1)
proof (induction xs arbitrary: acc)
  case (Cons x xs)
  then obtain a where a: "step acc x = Inr a" "foldE step a xs = Inr out" by (auto simp: andThen_eq_Inr)
  from Cons.IH [OF a(2)] assms(2) [OF a(1)] show ?case by simp
qed simp

lemma shapeCells_queries:
  assumes "shapeCells p areas label shapesOf toGeoJSON = Inr out"
  shows "\<forall>s \<in> set (concat (map shapesOf areas)). \<exists>ecis. shapeQuery p toGeoJSON s = Inr ecis"
proof (cases "p_selector p")
  case (Some select)
  then have f: "foldE (addShape p select label toGeoJSON) [] (concat (map shapesOf areas)) = Inr out"
    using assms by (simp add: shapeCells_def)
  show ?thesis
    by (rule foldE_all [OF f]) (auto simp: addShape_def andThen_eq_Inr shapeQuery_def Some)
qed (simp add: shapeQuery_def)

lemma namedGeocodeCells_queries:
  assumes "namedGeocodeCells p areas = Inr out"
  shows "\<forall>g \<in> set (concat (map Geocodes areas)). \<exists>ecis. namedQuery p g = Inr ecis"
proof (cases "p_geocodes p")
  case (Some resolve)
  then have f: "foldE (addNamed p resolve) [] (concat (map Geocodes areas)) = Inr out"
    using assms by (simp add: namedGeocodeCells_def)
  show ?thesis
    by (rule foldE_all [OF f]) (auto simp: addNamed_def Let_def andThen_eq_Inr namedQuery_def Some split: if_splits)
qed (simp add: namedQuery_def)

lemma target_queries:
  assumes "target p areas = Inr t"
  shows "\<forall>s \<in> set (concat (map Polygons areas)). \<exists>ecis. shapeQuery p (p_polygonGeoJSON p) s = Inr ecis"
    "\<forall>s \<in> set (concat (map Circles areas)). \<exists>ecis. shapeQuery p (p_circleGeoJSON p) s = Inr ecis"
    "\<forall>g \<in> set (concat (map Geocodes areas)). \<exists>ecis. namedQuery p g = Inr ecis"
proof -
  obtain gc tais where g: "uniqueGeocodes areas = (gc, tais)" by fastforce
  from assms obtain pc cc nc where c: "polygonCells p areas = Inr pc" "circleCells p areas = Inr cc"
      "namedGeocodeCells p areas = Inr nc"
    by (auto simp: target_def g andThen_eq_Inr)
  show "\<forall>s \<in> set (concat (map Polygons areas)). \<exists>ecis. shapeQuery p (p_polygonGeoJSON p) s = Inr ecis"
    by (rule shapeCells_queries [OF c(1) [unfolded polygonCells_def]])
  show "\<forall>s \<in> set (concat (map Circles areas)). \<exists>ecis. shapeQuery p (p_circleGeoJSON p) s = Inr ecis"
    by (rule shapeCells_queries [OF c(2) [unfolded circleCells_def]])
  show "\<forall>g \<in> set (concat (map Geocodes areas)). \<exists>ecis. namedQuery p g = Inr ecis"
    by (rule namedGeocodeCells_queries [OF c(3)])
qed

lemma target_cells: "target p areas = Inr t \<Longrightarrow> set (Cells t) = namedCells p areas"
  using target_lemma [of p areas] by (auto split: if_splits)

section \<open>What the queries find\<close>

text \<open>The area that the text of a polygon or of a circle denotes.\<close>

definition polygonText :: "string \<Rightarrow> Geometry \<Rightarrow> bool" where
  "polygonText s g \<longleftrightarrow> (\<exists>r. list_all2 denotes (Fields s) r \<and> list_all onEarth r \<and>
     g = \<lparr>geo_Type = ''Polygon'', geo_Polygons = [[closedRing r]]\<rparr>)"

definition circleText :: "Trig \<Rightarrow> string \<Rightarrow> Geometry \<Rightarrow> bool" where
  "circleText tr s g \<longleftrightarrow> (\<exists>pair radius q r. Fields s = [pair, radius] \<and> denotes pair q \<and> ParseFloat (TrimSpace radius) = Some r \<and>
     g = \<lparr>geo_Type = ''Polygon'', geo_Polygons = [[toRing (circleRing tr (Lat q) (Lon q) r)]]\<rparr>)"

lemma denotes_unique:
  assumes "denotes s p" "denotes s q"
  shows "p = q"
proof -
  obtain x y where p: "p = \<lparr>Lon = x, Lat = y\<rparr>" by (cases p) auto
  obtain u v where q: "q = \<lparr>Lon = u, Lat = v\<rparr>" by (cases q) auto
  from assms show ?thesis by (simp add: p q parsePair_denotes [symmetric])
qed

lemma list_all2_unique:
  assumes "list_all2 P xs ys" "list_all2 P xs zs" "\<And>x y z. P x y \<Longrightarrow> P x z \<Longrightarrow> y = z"
  shows "ys = zs"
  using assms(1,2)
proof (induction xs arbitrary: ys zs)
  case (Cons x xs)
  then show ?case using assms(3) by (auto simp: list_all2_Cons1)
qed simp

lemma polygonText_unique: "polygonText s g \<Longrightarrow> polygonText s h \<Longrightarrow> g = h"
  using list_all2_unique [of denotes "Fields s"] denotes_unique by (auto simp: polygonText_def)

lemma circleText_unique:
  assumes "circleText tr s g" "circleText tr s h"
  shows "g = h"
proof -
  from assms(1) obtain a b q r where g: "Fields s = [a, b]" "denotes a q" "ParseFloat (TrimSpace b) = Some r"
    "g = \<lparr>geo_Type = ''Polygon'', geo_Polygons = [[toRing (circleRing tr (Lat q) (Lon q) r)]]\<rparr>" by (auto simp: circleText_def)
  from assms(2) g(1,3) obtain q' where h: "denotes a q'"
    "h = \<lparr>geo_Type = ''Polygon'', geo_Polygons = [[toRing (circleRing tr (Lat q') (Lon q') r)]]\<rparr>" by (auto simp: circleText_def)
  from denotes_unique [OF g(2) h(1)] show ?thesis by (simp add: g(4) h(2))
qed

lemma shapeQuery_wired:
  assumes sound: "list_all (soundRow gj) (iv_cells db)" and enabled: "InventoryEnabled (cfgCellInventory cfg)"
    and plmn: "parsePLMN (PLMN (cfgSBcAP cfg)) = Inr plmn"
    and q: "shapeQuery (wiredPreparer gj tr upper f cfg db) (\<lambda>s. noText (conv s)) s = Inr ecis"
  shows "\<exists>text g. conv s = Inr text \<and> ParseGeometry gj text = Inr g \<and>
    set ecis = cl_eci ` {r \<in> set (iv_cells db). cl_active r \<and> inNetwork plmn r \<and> covers gj g r}"
proof -
  from q obtain doc where t: "conv s = Inr doc" "wiredSelector gj f db plmn doc = Inr ecis"
    by (auto simp: shapeQuery_def wiredPreparer_def enabled plmn andThen_eq_Inr noText_def Let_def)
  then obtain res where r: "SelectionPreview gj (f doc) (f doc)
      \<lparr>sq_PLMN = plmn, sq_Policy = PolicyConservativeIntersection, sq_Area = doc\<rparr> db = Inr res" "ecis = map sc_ECI (sr_Cells res)"
    by (auto simp: wiredSelector_def split: sum.splits)
  from SelectionPreview_cells [OF sound r(1)] obtain g where g: "ParseGeometry gj doc = Inr g"
    "sr_Cells res = map selectedOf (filter (\<lambda>r. cl_active r \<and> inNetwork plmn r \<and> covers gj g r) (iv_cells db))" by auto
  have "set ecis = cl_eci ` {r \<in> set (iv_cells db). cl_active r \<and> inNetwork plmn r \<and> covers gj g r}"
    by (simp add: r(2) g(2) selectedOf_def image_image)
  then show ?thesis using t(1) g(1) by blast
qed

lemma namedQuery_wired:
  assumes enabled: "InventoryEnabled (cfgCellInventory cfg)"
    and q: "namedQuery (wiredPreparer gj tr upper f cfg db) g = Inr ecis"
  shows "set ecis = cl_eci ` {r \<in> set (iv_cells db). cl_active r \<and> TrimSpace (g_Value g) \<noteq> [] \<and>
    ToUpper upper (TrimSpace (g_ValueName g)) \<noteq> [] \<and>
    (cl_id r, ToUpper upper (TrimSpace (g_ValueName g)), TrimSpace (g_Value g)) \<in> tags db}"
proof (cases "ToUpper upper (TrimSpace (g_ValueName g)) = [] \<or> TrimSpace (g_Value g) = []")
  case True
  then show ?thesis using q enabled by (auto simp: namedQuery_def wiredPreparer_def Let_def)
next
  case False
  then have "ResolveCells (f (TrimSpace (g_Value g))) (ToUpper upper (TrimSpace (g_ValueName g))) (TrimSpace (g_Value g)) db = Inr ecis"
    using q enabled by (auto simp: namedQuery_def wiredPreparer_def Let_def wiredResolver_def split: sum.splits)
  from ResolveCells_set [OF this] False show ?thesis by auto
qed

section \<open>The cells of a target\<close>

definition decimalECI :: "CellRow \<Rightarrow> string" where
  "decimalECI r = decimal (unat (cl_eci r))"

lemma resolved_shapes:
  assumes sound: "list_all (soundRow gj) (iv_cells db)" and enabled: "InventoryEnabled (cfgCellInventory cfg)"
    and plmn: "parsePLMN (PLMN (cfgSBcAP cfg)) = Inr plmn"
    and q: "\<forall>s \<in> set shapes. \<exists>ecis. shapeQuery (wiredPreparer gj tr upper f cfg db) (\<lambda>s. noText (conv s)) s = Inr ecis"
    and area: "\<And>s doc g. conv s = Inr doc \<Longrightarrow> ParseGeometry gj doc = Inr g \<Longrightarrow> T s g"
    and unique: "\<And>s g h. T s g \<Longrightarrow> T s h \<Longrightarrow> g = h"
  shows "resolvedCells (shapeQuery (wiredPreparer gj tr upper f cfg db) (\<lambda>s. noText (conv s))) shapes =
    decimalECI ` {r \<in> set (iv_cells db). cl_active r \<and> inNetwork plmn r \<and> (\<exists>s \<in> set shapes. \<exists>g. T s g \<and> covers gj g r)}"
proof -
  let ?q = "shapeQuery (wiredPreparer gj tr upper f cfg db) (\<lambda>s. noText (conv s))"
  have one: "(case ?q s of Inl _ \<Rightarrow> {} | Inr ecis \<Rightarrow> (\<lambda>eci. decimal (unat eci)) ` set ecis) =
      decimalECI ` {r \<in> set (iv_cells db). cl_active r \<and> inNetwork plmn r \<and> (\<exists>g. T s g \<and> covers gj g r)}" if "s \<in> set shapes" for s
  proof -
    from q that obtain ecis where e: "?q s = Inr ecis" by blast
    from shapeQuery_wired [OF sound enabled plmn e] obtain doc g where g: "conv s = Inr doc" "ParseGeometry gj doc = Inr g"
      "set ecis = cl_eci ` {r \<in> set (iv_cells db). cl_active r \<and> inNetwork plmn r \<and> covers gj g r}" by blast
    have "(\<exists>h. T s h \<and> covers gj h r) \<longleftrightarrow> covers gj g r" for r using area [OF g(1,2)] unique by blast
    then show ?thesis by (simp add: e g(3) image_image decimalECI_def)
  qed
  have "resolvedCells ?q shapes = (\<Union>s \<in> set shapes. decimalECI ` {r \<in> set (iv_cells db). cl_active r \<and> inNetwork plmn r \<and>
      (\<exists>g. T s g \<and> covers gj g r)})"
    unfolding resolvedCells_def by (rule SUP_cong [OF refl one])
  then show ?thesis by auto
qed

lemma resolved_names:
  assumes enabled: "InventoryEnabled (cfgCellInventory cfg)"
    and q: "\<forall>g \<in> set gs. \<exists>ecis. namedQuery (wiredPreparer gj tr upper f cfg db) g = Inr ecis"
  shows "resolvedCells (namedQuery (wiredPreparer gj tr upper f cfg db)) gs =
    decimalECI ` {r \<in> set (iv_cells db). cl_active r \<and> (\<exists>g \<in> set gs. TrimSpace (g_Value g) \<noteq> [] \<and>
      ToUpper upper (TrimSpace (g_ValueName g)) \<noteq> [] \<and>
      (cl_id r, ToUpper upper (TrimSpace (g_ValueName g)), TrimSpace (g_Value g)) \<in> tags db)}"
proof -
  let ?q = "namedQuery (wiredPreparer gj tr upper f cfg db)"
  let ?P = "\<lambda>g r. TrimSpace (g_Value g) \<noteq> [] \<and> ToUpper upper (TrimSpace (g_ValueName g)) \<noteq> [] \<and>
      (cl_id r, ToUpper upper (TrimSpace (g_ValueName g)), TrimSpace (g_Value g)) \<in> tags db"
  have one: "(case ?q g of Inl _ \<Rightarrow> {} | Inr ecis \<Rightarrow> (\<lambda>eci. decimal (unat eci)) ` set ecis) =
      decimalECI ` {r \<in> set (iv_cells db). cl_active r \<and> ?P g r}" if "g \<in> set gs" for g
  proof -
    from q that obtain ecis where e: "?q g = Inr ecis" by blast
    show ?thesis unfolding e sum.case namedQuery_wired [OF enabled e] image_image decimalECI_def ..
  qed
  have "resolvedCells ?q gs = (\<Union>g \<in> set gs. decimalECI ` {r \<in> set (iv_cells db). cl_active r \<and> ?P g r})"
    unfolding resolvedCells_def by (rule SUP_cong [OF refl one])
  then show ?thesis by auto
qed

text \<open>A row of the inventory that an area list warns.\<close>

definition warned :: "GeoCodec \<Rightarrow> Trig \<Rightarrow> (string \<Rightarrow> string) \<Rightarrow> InventoryPLMN \<Rightarrow> Area list \<Rightarrow> InventoryDB \<Rightarrow> CellRow \<Rightarrow> bool" where
  "warned gj tr upper plmn areas db r \<longleftrightarrow>
     inNetwork plmn r \<and> (\<exists>s \<in> set (concat (map Polygons areas)). \<exists>g. polygonText s g \<and> covers gj g r) \<or>
     inNetwork plmn r \<and> (\<exists>s \<in> set (concat (map Circles areas)). \<exists>g. circleText tr s g \<and> covers gj g r) \<or>
     (\<exists>g \<in> set (concat (map Geocodes areas)). TrimSpace (g_Value g) \<noteq> [] \<and>
        ToUpper upper (TrimSpace (g_ValueName g)) \<noteq> [] \<and>
        (cl_id r, ToUpper upper (TrimSpace (g_ValueName g)), TrimSpace (g_Value g)) \<in> tags db)"

lemma warning_cells:
  assumes gj: "goodCodec gj" and sound: "list_all (soundRow gj) (iv_cells db)"
    and enabled: "InventoryEnabled (cfgCellInventory cfg)" and plmn: "parsePLMN (PLMN (cfgSBcAP cfg)) = Inr plmn"
    and t: "target (wiredPreparer gj tr upper f cfg db) areas = Inr t"
  shows "set (Cells t) = geocodeValues isCellName areas \<union>
    decimalECI ` {r \<in> set (iv_cells db). cl_active r \<and> warned gj tr upper plmn areas db r}"
proof -
  let ?p = "wiredPreparer gj tr upper f cfg db"
  have c: "p_polygonGeoJSON ?p = (\<lambda>s. noText (PolygonToGeoJSON gj s))" "p_circleGeoJSON ?p = (\<lambda>s. noText (CircleToGeoJSON tr gj s))"
    by (simp_all add: wiredPreparer_def Let_def)
  note q = target_queries [OF t, unfolded c]
  have poly: "PolygonToGeoJSON gj s = Inr doc \<Longrightarrow> ParseGeometry gj doc = Inr g \<Longrightarrow> polygonText s g" for s doc g
    using polygon_area [OF gj, of s g] by (auto simp: polygonText_def)
  have circ: "CircleToGeoJSON tr gj s = Inr doc \<Longrightarrow> ParseGeometry gj doc = Inr g \<Longrightarrow> circleText tr s g" for s doc g
    using circle_area [OF gj, of tr s g] by (auto simp: circleText_def)
  let ?A = "\<lambda>r. inNetwork plmn r \<and> (\<exists>s \<in> set (concat (map Polygons areas)). \<exists>g. polygonText s g \<and> covers gj g r)"
  let ?B = "\<lambda>r. inNetwork plmn r \<and> (\<exists>s \<in> set (concat (map Circles areas)). \<exists>g. circleText tr s g \<and> covers gj g r)"
  let ?C = "\<lambda>r. \<exists>g \<in> set (concat (map Geocodes areas)). TrimSpace (g_Value g) \<noteq> [] \<and>
        ToUpper upper (TrimSpace (g_ValueName g)) \<noteq> [] \<and>
        (cl_id r, ToUpper upper (TrimSpace (g_ValueName g)), TrimSpace (g_Value g)) \<in> tags db"
  have A: "resolvedCells (shapeQuery ?p (\<lambda>s. noText (PolygonToGeoJSON gj s))) (concat (map Polygons areas)) =
      decimalECI ` {r \<in> set (iv_cells db). cl_active r \<and> ?A r}"
    by (rule resolved_shapes [OF sound enabled plmn q(1) poly polygonText_unique])
  have B: "resolvedCells (shapeQuery ?p (\<lambda>s. noText (CircleToGeoJSON tr gj s))) (concat (map Circles areas)) =
      decimalECI ` {r \<in> set (iv_cells db). cl_active r \<and> ?B r}"
    by (rule resolved_shapes [OF sound enabled plmn q(2) circ circleText_unique])
  have C: "resolvedCells (namedQuery ?p) (concat (map Geocodes areas)) = decimalECI ` {r \<in> set (iv_cells db). cl_active r \<and> ?C r}"
    by (rule resolved_names [OF enabled q(3)])
  have u: "decimalECI ` {r \<in> S. P r \<and> X r} \<union> decimalECI ` {r \<in> S. P r \<and> Y r} \<union> decimalECI ` {r \<in> S. P r \<and> Z r} =
      decimalECI ` {r \<in> S. P r \<and> (X r \<or> Y r \<or> Z r)}" for S P X Y Z by blast
  show ?thesis
    unfolding target_cells [OF t] namedCells_def c A B C warned_def u [symmetric] by (simp only: Un_assoc)
qed

section \<open>Property\<close>


section \<open>Witness\<close>

definition wiredConfig :: Config where
  "wiredConfig = sampleConfig\<lparr>cfgCBS := (cfgCBS sampleConfig)\<lparr>AllowPLMNWide := True\<rparr>,
     cfgSBcAP := (cfgSBcAP sampleConfig)\<lparr>PLMN := ''311-435''\<rparr>,
     cfgCellInventory := (cfgCellInventory sampleConfig)\<lparr>InventoryEnabled := True\<rparr>\<rparr>"

definition samplePLMN :: InventoryPLMN where
  "samplePLMN = \<lparr>plmn_MCC = ''311'', plmn_MNC = ''435'', plmn_MNCLength = 3\<rparr>"

definition polygonAreas :: "Area list" where
  "polygonAreas = [\<lparr>areaDescription = [], Polygons = [samplePolygon], Circles = [], Geocodes = []\<rparr>]"

lemma wiredConfig_simps: "InventoryEnabled (cfgCellInventory wiredConfig)" "AllowPLMNWide (cfgCBS wiredConfig)"
  "parsePLMN (PLMN (cfgSBcAP wiredConfig)) = Inr samplePLMN"
  by (simp_all add: wiredConfig_def samplePLMN_def parsePLMN_def SplitN2_def Let_def)

lemma sampleInventory_reachable:
  "(\<lambda>a b. inventoryRequest sampleCodec a b \<or> inventoryStep sampleCodec a b)\<^sup>*\<^sup>* emptyInventory sampleInventory"
proof -
  let ?a = "areaCell 1 2 10 20 5 ''mme1''" and ?b = "siteCell 2 1 100 20 ''mme1''"
  let ?t = "sampleTime 12 0"
  let ?one = "emptyInventory\<lparr>iv_cells := [cellRow 1 sampleStamp ?a], iv_cellSeq := 1\<rparr>"
  have u: "utcTime ?t" by (rule sampleTime_utc) simp
  then have st: "stampable ?t" using utc_textTime [of ?t] by (simp add: stampable_def parse_format UTC_id)
  have now: "formatRFC3339Nano (UTC ?t) = sampleStamp" by (simp add: sampleStamp_def UTC_id [OF u])
  have va: "validCell sampleCodec ?a" by (intro areaCell_valid siteCell_valid) simp_all
  have vb: "validCell sampleCodec ?b" by (rule siteCell_valid) simp_all
  have k: "c_ECI ?b \<noteq> c_ECI ?a" by (simp add: areaCell_def siteCell_def)
  obtain r1 where "CreateCell None None ?t ?a emptyInventory = (r1, ?one)"
    by (simp add: CreateCell_def now emptyInventory_def Let_def)
  from cell_created [OF va st this] have s1: "inventoryStep sampleCodec emptyInventory ?one" .
  obtain r2 where "CreateCell None None ?t ?b ?one = (r2, sampleInventory)"
    using k by (simp add: CreateCell_def now sampleInventory_def emptyInventory_def Let_def)
  from cell_created [OF vb st this] have s2: "inventoryStep sampleCodec ?one sampleInventory" .
  let ?step = "\<lambda>a b. inventoryRequest sampleCodec a b \<or> inventoryStep sampleCodec a b"
  have "?step\<^sup>*\<^sup>* emptyInventory ?one" using s1 by (intro r_into_rtranclp) simp
  then show ?thesis by (rule rtranclp.rtrancl_into_rtrancl) (use s2 in simp)
qed


end
