(* ===== verification/Xmpp_Client.thy ===== *)
theory Xmpp_Client
  imports Config Cap_Alert "HOL-Library.Sublist"
begin

text \<open>
  \<open>internal/xmpp/client.go\<close>: a session with the cell broadcast entity (CBE), from the TCP connection over
  TLS and SASL to the alerts, and the waits between sessions. The network is the environment of a
  session: which operations fail, and the tokens that \<open>encoding/xml\<close> delivers before and after TLS is
  started (the end of a list is the error of the decoder, when the connection breaks or the text is
  not XML). What the client writes, tells and hands over is the trace of the session. The base64 and
  XML text of the written stanzas is left out.
\<close>

section \<open>Sessions\<close>

record element =
  el_Local :: string
  el_Space :: string
  el_Attrs :: "(string \<times> string) list"

datatype token =
    StartElement element
  | EndElement string string
  | OtherToken

definition nsStream :: string where "nsStream = ''http://etherx.jabber.org/streams''"
definition nsClient :: string where "nsClient = ''jabber:client''"
definition nsTLS :: string where "nsTLS = ''urn:ietf:params:xml:ns:xmpp-tls''"
definition nsSASL :: string where "nsSASL = ''urn:ietf:params:xml:ns:xmpp-sasl''"

datatype stanza =
    OpenStream string
  | StartTLS
  | AuthPlain string string
  | BindResource string

text \<open>\<open>Wrote True\<close>: over TLS. A write that fails may have reached the network and is in the trace too.\<close>

datatype sessionEvent =
    Wrote bool stanza
  | Connected
  | Delivered Alert

datatype xmpp_error =
    DialCBE string
  | HandshakeFailed string
  | WriteFailed string
  | ReadFailed
  | Unexpected element
  | NotOffered string
  | MessageUndecodable string
  | InvalidAlert cap_error
  | AlertRefused string

record 'w Session =
  ss_secure :: bool
  ss_tokens :: "token list"
  ss_writes :: nat
  ss_trace :: "sessionEvent list"
  ss_world :: 'w

type_synonym ('w, 'a) action = "'w Session \<Rightarrow> (xmpp_error + 'a) \<times> 'w Session"

definition bindS :: "('w, 'a) action \<Rightarrow> ('a \<Rightarrow> ('w, 'b) action) \<Rightarrow> ('w, 'b) action" where
  "bindS m k s = (case m s of (Inl e, s) \<Rightarrow> (Inl e, s) | (Inr v, s) \<Rightarrow> k v s)"

definition thenS :: "('w, 'a) action \<Rightarrow> ('w, 'b) action \<Rightarrow> ('w, 'b) action" where
  "thenS m k = bindS m (\<lambda>_. k)"

text \<open>What happens to one session: failures, the tokens of the two decoders, and the content of messages.\<close>

record CBENetwork =
  nw_dial :: "string option"
  nw_handshake :: "string option"
  nw_write :: "nat \<Rightarrow> string option"
  nw_first :: "token list"
  nw_second :: "token list"
  nw_message :: "element \<Rightarrow> token list \<Rightarrow> string + Alert option"

section \<open>Reading and writing\<close>

definition send :: "CBENetwork \<Rightarrow> stanza \<Rightarrow> ('w, unit) action" where
  "send nw x s =
     (let s' = s\<lparr>ss_writes := ss_writes s + 1, ss_trace := ss_trace s @ [Wrote (ss_secure s) x]\<rparr> in
      case nw_write nw (ss_writes s) of Some e \<Rightarrow> (Inl (WriteFailed e), s') | None \<Rightarrow> (Inr (), s'))"

fun isStart :: "token \<Rightarrow> bool" where
  "isStart (StartElement e) = True"
| "isStart _ = False"

definition nextStart :: "('w, element) action" where
  "nextStart s =
     (case dropWhile (\<lambda>t. \<not> isStart t) (ss_tokens s) of
        StartElement e # ts \<Rightarrow> (Inr e, s\<lparr>ss_tokens := ts\<rparr>)
      | _ \<Rightarrow> (Inl ReadFailed, s\<lparr>ss_tokens := []\<rparr>))"

text \<open>The tokens up to the end of the element that was started last, and the rest.\<close>

fun takeElement :: "nat \<Rightarrow> token list \<Rightarrow> (token list \<times> token list) option" where
  "takeElement depth [] = None"
| "takeElement depth (StartElement e # ts) = map_option (\<lambda>(b, r). (StartElement e # b, r)) (takeElement (Suc depth) ts)"
| "takeElement 0 (EndElement l n # ts) = Some ([], ts)"
| "takeElement (Suc depth) (EndElement l n # ts) = map_option (\<lambda>(b, r). (EndElement l n # b, r)) (takeElement depth ts)"
| "takeElement depth (OtherToken # ts) = map_option (\<lambda>(b, r). (OtherToken # b, r)) (takeElement depth ts)"

definition Skip :: "('w, unit) action" where
  "Skip s =
     (case takeElement 0 (ss_tokens s) of
        None \<Rightarrow> (Inl ReadFailed, s\<lparr>ss_tokens := []\<rparr>)
      | Some (_, ts) \<Rightarrow> (Inr (), s\<lparr>ss_tokens := ts\<rparr>))"

definition expectStart :: "string \<Rightarrow> string \<Rightarrow> ('w, unit) action" where
  "expectStart local space = bindS nextStart (\<lambda>e s.
     if el_Local e \<noteq> local \<or> el_Space e \<noteq> space then (Inl (Unexpected e), s) else (Inr (), s))"

definition skipFeatures :: "('w, unit) action" where
  "skipFeatures = thenS (expectStart ''features'' nsStream) Skip"

definition openStream :: "CBENetwork \<Rightarrow> CBEConfig \<Rightarrow> ('w, unit) action" where
  "openStream nw cfg = thenS (send nw (OpenStream (Domain cfg))) (expectStart ''stream'' nsStream)"

text \<open>One token of the loop of \<open>requireFeature\<close>: the loop returns, or goes on.\<close>

definition featureStep :: "string \<Rightarrow> string \<Rightarrow> bool \<Rightarrow> token list \<Rightarrow> (xmpp_error + token list) + (bool \<times> token list)" where
  "featureStep local space found ts =
     (case ts of
        [] \<Rightarrow> Inl (Inl ReadFailed)
      | OtherToken # ts \<Rightarrow> Inr (found, ts)
      | StartElement e # ts \<Rightarrow>
          (case takeElement 0 ts of
             None \<Rightarrow> Inl (Inl ReadFailed)
           | Some (_, ts) \<Rightarrow> Inr (found \<or> el_Local e = local \<and> el_Space e = space, ts))
      | EndElement l n # ts \<Rightarrow>
          if l = ''features'' \<and> n = nsStream then Inl (if found then Inr ts else Inl (NotOffered local))
          else Inr (found, ts))"

text \<open>The loops over the tokens are partial: \<open>None\<close> would be a loop that does not end.\<close>

partial_function (option) featureLoop :: "string \<Rightarrow> string \<Rightarrow> bool \<Rightarrow> token list \<Rightarrow> (xmpp_error + token list) option" where
  "featureLoop local space found ts =
     (case featureStep local space found ts of Inl r \<Rightarrow> Some r | Inr p \<Rightarrow> featureLoop local space (fst p) (snd p))"

text \<open>Messages until an error ends the session.\<close>

type_synonym 'w handler = "Alert \<Rightarrow> 'w \<Rightarrow> string option \<times> 'w"

definition decodeMessage :: "CBENetwork \<Rightarrow> element \<Rightarrow> ('w, Alert option) action" where
  "decodeMessage nw e s =
     (case takeElement 0 (ss_tokens s) of
        None \<Rightarrow> (Inl ReadFailed, s\<lparr>ss_tokens := []\<rparr>)
      | Some (body, ts) \<Rightarrow>
          (case nw_message nw e body of
             Inl x \<Rightarrow> (Inl (MessageUndecodable x), s\<lparr>ss_tokens := ts\<rparr>)
           | Inr a \<Rightarrow> (Inr a, s\<lparr>ss_tokens := ts\<rparr>)))"

definition handOver :: "'w handler \<Rightarrow> Alert option \<Rightarrow> ('w, unit) action" where
  "handOver onAlert raw s =
     (case raw of
        None \<Rightarrow> (Inr (), s)
      | Some a \<Rightarrow>
          (case Validate a of
             Inl e \<Rightarrow> (Inl (InvalidAlert e), s)
           | Inr _ \<Rightarrow>
               (case onAlert a (ss_world s) of
                  (r, w) \<Rightarrow>
                    let s' = s\<lparr>ss_world := w, ss_trace := ss_trace s @ [Delivered a]\<rparr> in
                    case r of Some e \<Rightarrow> (Inl (AlertRefused e), s') | None \<Rightarrow> (Inr (), s'))))"

definition messageRound :: "CBENetwork \<Rightarrow> 'w handler \<Rightarrow> ('w, unit) action" where
  "messageRound nw onAlert = bindS nextStart (\<lambda>e.
     if el_Local e \<noteq> ''message'' then Skip else bindS (decodeMessage nw e) (handOver onAlert))"

partial_function (option) messageLoop :: "CBENetwork \<Rightarrow> 'w handler \<Rightarrow> 'w Session \<Rightarrow> (xmpp_error \<times> 'w Session) option" where
  "messageLoop nw onAlert s =
     (case messageRound nw onAlert s of
        (Inl e, s) \<Rightarrow> Some (e, s)
      | (Inr _, s) \<Rightarrow> messageLoop nw onAlert s)"

section \<open>A session\<close>

definition requireFeature :: "string \<Rightarrow> string \<Rightarrow> 'w Session \<Rightarrow> ((xmpp_error + unit) \<times> 'w Session) option" where
  "requireFeature local space s =
     (case expectStart ''features'' nsStream s of
        (Inl e, s) \<Rightarrow> Some (Inl e, s)
      | (Inr _, s) \<Rightarrow>
          (case featureLoop local space False (ss_tokens s) of
             None \<Rightarrow> None
           | Some (Inl e) \<Rightarrow> Some (Inl e, s\<lparr>ss_tokens := []\<rparr>)
           | Some (Inr ts) \<Rightarrow> Some (Inr (), s\<lparr>ss_tokens := ts\<rparr>)))"

definition handshake :: "CBENetwork \<Rightarrow> ('w, unit) action" where
  "handshake nw s =
     (case nw_handshake nw of Some e \<Rightarrow> (Inl (HandshakeFailed e), s) | None \<Rightarrow> (Inr (), s\<lparr>ss_secure := True\<rparr>))"

text \<open>The part of the plain mode: TLS is started on the open stream and a new stream is opened over it.\<close>

definition startTLS :: "CBENetwork \<Rightarrow> CBEConfig \<Rightarrow> 'w Session \<Rightarrow> ((xmpp_error + unit) \<times> 'w Session) option" where
  "startTLS nw cfg s =
     (case requireFeature ''starttls'' nsTLS s of
        None \<Rightarrow> None
      | Some (Inl e, s) \<Rightarrow> Some (Inl e, s)
      | Some (Inr _, s) \<Rightarrow> Some
          (thenS (send nw StartTLS) (
           thenS (expectStart ''proceed'' nsTLS) (
           thenS (handshake nw) (
           thenS (\<lambda>s. (Inr (), s\<lparr>ss_tokens := nw_second nw\<rparr>)) (openStream nw cfg)))) s))"

definition authenticate :: "CBENetwork \<Rightarrow> CBEConfig \<Rightarrow> ('w, unit) action" where
  "authenticate nw cfg =
     thenS skipFeatures (
     thenS (send nw (AuthPlain (Username cfg) (Password cfg))) (
     thenS (expectStart ''success'' nsSASL) (
     thenS Skip (
     thenS (openStream nw cfg) (
     thenS skipFeatures (
     thenS (send nw (BindResource (Resource cfg))) (
     thenS (expectStart ''iq'' nsClient) Skip)))))))"

text \<open>\<open>onConnected\<close> is what the report \<open>onState(true, nil)\<close> does.\<close>

definition runOnce :: "CBENetwork \<Rightarrow> CBEConfig \<Rightarrow> 'w handler \<Rightarrow> ('w \<Rightarrow> 'w) \<Rightarrow> 'w \<Rightarrow> (xmpp_error \<times> 'w Session) option" where
  "runOnce nw cfg onAlert onConnected w =
     (let s = \<lparr>ss_secure = False, ss_tokens = nw_first nw, ss_writes = 0, ss_trace = [], ss_world = w\<rparr> in
      case nw_dial nw of
        Some e \<Rightarrow> Some (DialCBE e, s)
      | None \<Rightarrow>
     (case thenS (if TLSMode cfg = ''direct_tls'' then handshake nw else (\<lambda>s. (Inr (), s))) (openStream nw cfg) s of
        (Inl e, s) \<Rightarrow> Some (e, s)
      | (Inr _, s) \<Rightarrow>
     (case (if TLSMode cfg = ''plain'' then startTLS nw cfg s else Some (Inr (), s)) of
        None \<Rightarrow> None
      | Some (Inl e, s) \<Rightarrow> Some (e, s)
      | Some (Inr _, s) \<Rightarrow>
     (case authenticate nw cfg s of
        (Inl e, s) \<Rightarrow> Some (e, s)
      | (Inr _, s) \<Rightarrow> messageLoop nw onAlert
          (s\<lparr>ss_world := onConnected (ss_world s), ss_trace := ss_trace s @ [Connected]\<rparr>)))))"

section \<open>Reconnecting\<close>

definition nextWait :: "CBEConfig \<Rightarrow> duration \<Rightarrow> duration" where
  "nextWait cfg backoff =
     (let backoff = signed_take_bit 63 (backoff * 2)
      in if backoff > CBEReconnectMax cfg then CBEReconnectMax cfg else backoff)"

text \<open>The wait after each session of \<open>Run\<close>, while the context lives: the outcome of a session plays no role.\<close>

definition waits :: "CBEConfig \<Rightarrow> nat \<Rightarrow> duration" where
  "waits cfg n = (nextWait cfg ^^ n) (CBEReconnectMin cfg)"

text \<open>
  \<open>Run\<close>: one session after the other, each with its network, until the context ends; \<open>onState\<close> is the report
  that is given for the end of a session.
\<close>

fun Run :: "CBEConfig \<Rightarrow> 'w handler \<Rightarrow> ('w \<Rightarrow> 'w) \<Rightarrow> (xmpp_error \<Rightarrow> 'w \<Rightarrow> 'w) \<Rightarrow> CBENetwork list \<Rightarrow> 'w \<Rightarrow> 'w option" where
  "Run cfg onAlert onConnected onEnded [] w = Some w"
| "Run cfg onAlert onConnected onEnded (nw # nws) w =
     (case runOnce nw cfg onAlert onConnected w of
        None \<Rightarrow> None
      | Some (e, s) \<Rightarrow> Run cfg onAlert onConnected onEnded nws (onEnded e (ss_world s)))"

section \<open>Every loop consumes tokens\<close>

lemma takeElement_shorter: "takeElement d ts = Some (b, r) \<Longrightarrow> length b + length r < length ts"
  by (induction d ts arbitrary: b r rule: takeElement.induct) auto

lemma dropWhile_length: "length (dropWhile P xs) \<le> length xs"
  by (induction xs) auto

lemma nextStart_shorter: "nextStart s = (Inr e, s') \<Longrightarrow> length (ss_tokens s') < length (ss_tokens s)"
  using dropWhile_length [of "\<lambda>t. \<not> isStart t" "ss_tokens s"]
  by (auto simp: nextStart_def split: list.splits token.splits)

lemma Skip_shorter: "Skip s = (Inr u, s') \<Longrightarrow> length (ss_tokens s') < length (ss_tokens s)"
  by (auto simp: Skip_def dest: takeElement_shorter split: option.splits)

lemma decodeMessage_shorter: "decodeMessage nw e s = (Inr a, s') \<Longrightarrow> length (ss_tokens s') < length (ss_tokens s)"
  by (auto simp: decodeMessage_def dest!: takeElement_shorter split: option.splits sum.splits)

lemma handOver_tokens: "handOver h raw s = (r, s') \<Longrightarrow> ss_tokens s' = ss_tokens s"
  by (auto simp: handOver_def Let_def split: option.splits sum.splits prod.splits)

lemma messageRound_shorter:
  assumes "messageRound nw h s = (Inr u, s')"
  shows "length (ss_tokens s') < length (ss_tokens s)"
proof -
  from assms obtain e s1 where n: "nextStart s = (Inr e, s1)"
    and r: "(if el_Local e \<noteq> ''message'' then Skip else bindS (decodeMessage nw e) (handOver h)) s1 = (Inr u, s')"
    by (auto simp: messageRound_def bindS_def split: prod.splits sum.splits)
  have "length (ss_tokens s') < length (ss_tokens s1)"
  proof (cases "el_Local e = ''message''")
    case True
    with r obtain a s2 where "decodeMessage nw e s1 = (Inr a, s2)" "handOver h a s2 = (Inr u, s')"
      by (auto simp: bindS_def split: prod.splits sum.splits)
    then show ?thesis using decodeMessage_shorter handOver_tokens by metis
  next
    case False
    then show ?thesis using r Skip_shorter by simp
  qed
  then show ?thesis using nextStart_shorter [OF n] by simp
qed

lemma messageLoop_returns: "\<exists>e s'. messageLoop nw h s = Some (e, s')"
proof (induction "length (ss_tokens s)" arbitrary: s rule: less_induct)
  case less
  obtain r s1 where r: "messageRound nw h s = (r, s1)" by fastforce
  show ?case
  proof (cases r)
    case (Inl e)
    then show ?thesis using r by (subst messageLoop.simps) simp
  next
    case (Inr u)
    from less [OF messageRound_shorter [OF r [unfolded Inr]]] show ?thesis using r Inr by (subst messageLoop.simps) simp
  qed
qed

lemma featureStep_shorter: "featureStep l n f ts = Inr (f', ts') \<Longrightarrow> length ts' < length ts"
  by (auto simp: featureStep_def dest!: takeElement_shorter split: list.splits token.splits option.splits if_splits)

lemma featureLoop_returns: "\<exists>r. featureLoop l n f ts = Some r"
proof (induction "length ts" arbitrary: f ts rule: less_induct)
  case less
  show ?case
  proof (cases "featureStep l n f ts")
    case (Inl r)
    then show ?thesis by (subst featureLoop.simps) simp
  next
    case (Inr p)
    obtain f' ts' where p: "p = (f', ts')" by fastforce
    from less [OF featureStep_shorter [OF Inr [unfolded p]], of f'] show ?thesis
      using Inr by (subst featureLoop.simps) (simp add: p)
  qed
qed

lemma requireFeature_returns: "\<exists>q t. requireFeature l n s = Some (q, t)"
proof -
  obtain r t where e: "expectStart ''features'' nsStream s = (r, t)" by fastforce
  obtain q where "featureLoop l n False (ss_tokens t) = Some q" using featureLoop_returns by blast
  then show ?thesis using e by (cases r; cases q) (simp_all add: requireFeature_def)
qed

lemma startTLS_returns: "\<exists>q t. startTLS nw cfg s = Some (q, t)"
proof -
  obtain q t where "requireFeature ''starttls'' nsTLS s = Some (q, t)" using requireFeature_returns by blast
  then show ?thesis by (cases q) (simp_all add: startTLS_def)
qed

lemma runOnce_returns: "\<exists>e s. runOnce nw cfg h up w = Some (e, s)"
proof -
  let ?s = "\<lparr>ss_secure = False, ss_tokens = nw_first nw, ss_writes = 0, ss_trace = [], ss_world = w\<rparr>"
  obtain q t where q: "thenS (if TLSMode cfg = ''direct_tls'' then handshake nw else (\<lambda>s. (Inr (), s))) (openStream nw cfg) ?s = (q, t)"
    by fastforce
  obtain q1 t1 where q1: "(if TLSMode cfg = ''plain'' then startTLS nw cfg t else Some (Inr (), t)) = Some (q1, t1)"
    using startTLS_returns [of nw cfg t] by (cases "TLSMode cfg = ''plain''") auto
  obtain q2 t2 where q2: "authenticate nw cfg t1 = (q2, t2)" by fastforce
  show ?thesis
    using q q1 q2 messageLoop_returns [of nw h "t2\<lparr>ss_world := up (ss_world t2), ss_trace := ss_trace t2 @ [Connected]\<rparr>"]
    by (cases "nw_dial nw"; cases q; cases q1; cases q2) (simp_all add: runOnce_def)
qed

section \<open>What a session writes\<close>

text \<open>
  An action that writes \<open>xs\<close>, and a part of them when it fails, and takes the connection from one
  security to another; the world of the handler stays as it is.
\<close>

definition writesOnly :: "bool \<Rightarrow> bool \<Rightarrow> sessionEvent list \<Rightarrow> ('w, 'a) action \<Rightarrow> bool" where
  "writesOnly b c xs m \<longleftrightarrow> (\<forall>s r s'. ss_secure s = b \<longrightarrow> m s = (r, s') \<longrightarrow> ss_world s' = ss_world s \<and>
     (case r of Inl _ \<Rightarrow> \<exists>ys. prefix ys xs \<and> ss_trace s' = ss_trace s @ ys
      | Inr _ \<Rightarrow> ss_secure s' = c \<and> ss_trace s' = ss_trace s @ xs))"

named_theorems writes_intros \<open>what an action of the session writes\<close>

lemma writesOnly_bind [writes_intros]:
  assumes "writesOnly b c xs m" "\<And>v. writesOnly c d ys (k v)"
  shows "writesOnly b d (xs @ ys) (bindS m k)"
  unfolding writesOnly_def
proof (intro allI impI)
  fix s r s'
  assume s: "ss_secure s = b" "bindS m k s = (r, s')"
  obtain q t where q: "m s = (q, t)" by fastforce
  note m = assms(1) [unfolded writesOnly_def, rule_format, OF s(1) q]
  show "ss_world s' = ss_world s \<and> (case r of Inl _ \<Rightarrow> \<exists>zs. prefix zs (xs @ ys) \<and> ss_trace s' = ss_trace s @ zs
      | Inr _ \<Rightarrow> ss_secure s' = d \<and> ss_trace s' = ss_trace s @ xs @ ys)"
  proof (cases q)
    case (Inl e)
    then have "r = Inl e" "s' = t" using s(2) q by (simp_all add: bindS_def)
    then show ?thesis using m Inl by (auto intro: prefix_prefix)
  next
    case (Inr v)
    then have t: "ss_secure t = c" "ss_trace t = ss_trace s @ xs" "ss_world t = ss_world s" and k: "k v t = (r, s')"
      using m s(2) q by (simp_all add: bindS_def)
    from assms(2) [unfolded writesOnly_def, rule_format, OF t(1) k] t(2,3) show ?thesis
      by (cases r) (auto simp: prefix_def)
  qed
qed

lemma writesOnly_then [writes_intros]:
  "writesOnly b c xs m \<Longrightarrow> writesOnly c d ys k \<Longrightarrow> writesOnly b d (xs @ ys) (thenS m k)"
  unfolding thenS_def by (rule writesOnly_bind)

lemma writesOnly_send [writes_intros]: "writesOnly b b [Wrote b x] (send nw x)"
  by (auto simp: writesOnly_def send_def Let_def split: option.splits)

lemma writesOnly_nextStart [writes_intros]: "writesOnly b b [] nextStart"
  by (auto simp: writesOnly_def nextStart_def split: list.splits token.splits)

lemma writesOnly_Skip [writes_intros]: "writesOnly b b [] Skip"
  by (auto simp: writesOnly_def Skip_def split: option.splits)

lemma writesOnly_expectStart [writes_intros]: "writesOnly b b [] (expectStart l n)"
proof -
  have "writesOnly b b [] (\<lambda>s. if el_Local e \<noteq> l \<or> el_Space e \<noteq> n then (Inl (Unexpected e), s) else (Inr (), s))" for e
    by (auto simp: writesOnly_def split: if_splits)
  from writesOnly_bind [OF writesOnly_nextStart this] show ?thesis by (simp add: expectStart_def)
qed

lemma writesOnly_skipFeatures [writes_intros]: "writesOnly b b [] skipFeatures"
  using writesOnly_then [OF writesOnly_expectStart writesOnly_Skip] by (simp add: skipFeatures_def)

lemma writesOnly_openStream [writes_intros]: "writesOnly b b [Wrote b (OpenStream (Domain cfg))] (openStream nw cfg)"
  using writesOnly_then [OF writesOnly_send writesOnly_expectStart] by (simp add: openStream_def)

lemma writesOnly_handshake [writes_intros]: "writesOnly b True [] (handshake nw)"
  by (auto simp: writesOnly_def handshake_def split: option.splits)

lemma writesOnly_pure [writes_intros]: "writesOnly b b [] (\<lambda>s. (Inr (), s))" "writesOnly b b [] (\<lambda>s. (Inr (), s\<lparr>ss_tokens := ts\<rparr>))"
  by (auto simp: writesOnly_def)

text \<open>The writes of a login, in the order of the protocol, from its two possible starts.\<close>

definition authTrace :: "CBEConfig \<Rightarrow> sessionEvent list" where
  "authTrace cfg = [Wrote True (AuthPlain (Username cfg) (Password cfg)), Wrote True (OpenStream (Domain cfg)),
     Wrote True (BindResource (Resource cfg))]"

definition loginTrace :: "CBEConfig \<Rightarrow> sessionEvent list" where
  "loginTrace cfg =
     (if TLSMode cfg = ''direct_tls'' then Wrote True (OpenStream (Domain cfg)) # authTrace cfg
      else [Wrote False (OpenStream (Domain cfg)), Wrote False StartTLS, Wrote True (OpenStream (Domain cfg))] @ authTrace cfg)"

lemma writesOnly_authenticate: "writesOnly True True (authTrace cfg) (authenticate nw cfg)"
proof -
  have "writesOnly True True ([] @ [Wrote True (AuthPlain (Username cfg) (Password cfg))] @ [] @ [] @ [Wrote True (OpenStream (Domain cfg))] @ [] @
      [Wrote True (BindResource (Resource cfg))] @ [] @ []) (authenticate nw cfg)"
    unfolding authenticate_def by (rule writes_intros)+
  then show ?thesis by (simp add: authTrace_def)
qed

lemma startTLS_writes:
  assumes "startTLS nw cfg s = Some (r, s')" "\<not> ss_secure s"
  shows "ss_world s' = ss_world s \<and>
    (case r of Inl _ \<Rightarrow> \<exists>ys. prefix ys [Wrote False StartTLS, Wrote True (OpenStream (Domain cfg))] \<and> ss_trace s' = ss_trace s @ ys
     | Inr _ \<Rightarrow> ss_secure s' \<and> ss_trace s' = ss_trace s @ [Wrote False StartTLS, Wrote True (OpenStream (Domain cfg))])"
proof -
  let ?m = "thenS (send nw StartTLS) (thenS (expectStart ''proceed'' nsTLS) (thenS (handshake nw)
      (thenS (\<lambda>s. (Inr (), s\<lparr>ss_tokens := nw_second nw\<rparr>)) (openStream nw cfg))))"
  have m: "writesOnly False True [Wrote False StartTLS, Wrote True (OpenStream (Domain cfg))] ?m"
  proof -
    have "writesOnly False True ([Wrote False StartTLS] @ [] @ [] @ [] @ [Wrote True (OpenStream (Domain cfg))]) ?m"
      by (rule writes_intros)+
    then show ?thesis by simp
  qed
  have q: "ss_world t = ss_world s \<and> ss_trace t = ss_trace s \<and> (case q of Inl _ \<Rightarrow> True | Inr _ \<Rightarrow> \<not> ss_secure t)"
    if "requireFeature l n s = Some (q, t)" for l n q t
  proof -
    obtain r1 s1 where e: "expectStart ''features'' nsStream s = (r1, s1)" by fastforce
    from writesOnly_expectStart [of False, unfolded writesOnly_def, rule_format, OF _ e] assms(2)
    have "ss_world s1 = ss_world s" "ss_trace s1 = ss_trace s" "r1 = Inr u \<Longrightarrow> \<not> ss_secure s1" for u by (cases r1; auto)+
    then show ?thesis using that e by (auto simp: requireFeature_def split: sum.splits option.splits)
  qed
  from assms(1) obtain q t where t: "requireFeature ''starttls'' nsTLS s = Some (q, t)"
    by (auto simp: startTLS_def split: option.splits prod.splits)
  show ?thesis
  proof (cases q)
    case (Inl e)
    then have "r = Inl e" "s' = t" using assms(1) t by (simp_all add: startTLS_def)
    then show ?thesis using q [OF t] by auto
  next
    case (Inr u)
    then have "?m t = (r, s')" using assms(1) t by (simp add: startTLS_def)
    from m [unfolded writesOnly_def, rule_format, OF _ this] q [OF t] Inr show ?thesis by (cases r) auto
  qed
qed

section \<open>What a session hands over\<close>

definition handled :: "'w handler \<Rightarrow> Alert list \<Rightarrow> 'w \<Rightarrow> 'w" where
  "handled h as w = foldl (\<lambda>w a. snd (h a w)) w as"

lemma writesOnly_same: "m s = (q, t) \<Longrightarrow> writesOnly (ss_secure s) (ss_secure s) [] m \<Longrightarrow> ss_trace t = ss_trace s \<and> ss_world t = ss_world s"
  by (cases q) (auto simp: writesOnly_def)

text \<open>An alert that some message of the network carries, and that is valid.\<close>

definition received :: "CBENetwork \<Rightarrow> Alert \<Rightarrow> bool" where
  "received nw a \<longleftrightarrow> wellFormedAlert a \<and> (\<exists>e body. nw_message nw e body = Inr (Some a))"

lemma messageRound_trace:
  assumes "messageRound nw h s = (r, s')"
  shows "\<exists>as. ss_trace s' = ss_trace s @ map Delivered as \<and> list_all (received nw) as \<and> ss_world s' = handled h as (ss_world s)"
proof -
  obtain q s1 where n: "nextStart s = (q, s1)" by fastforce
  note s1 = writesOnly_same [OF n writesOnly_nextStart]
  show ?thesis
  proof (cases q)
    case (Inl e)
    then have "s' = s1" using assms n by (simp add: messageRound_def bindS_def)
    then show ?thesis using s1 by (intro exI [of _ "[]"]) (simp add: handled_def)
  next
    case (Inr e)
    show ?thesis
    proof (cases "el_Local e = ''message''")
      case False
      then have "Skip s1 = (r, s')" using assms n Inr by (simp add: messageRound_def bindS_def)
      from writesOnly_same [OF this writesOnly_Skip] s1 show ?thesis by (intro exI [of _ "[]"]) (simp add: handled_def)
    next
      case True
      then have b: "bindS (decodeMessage nw e) (handOver h) s1 = (r, s')" using assms n Inr by (simp add: messageRound_def bindS_def)
      obtain d s2 where d: "decodeMessage nw e s1 = (d, s2)" by fastforce
      then have s2: "ss_trace s2 = ss_trace s \<and> ss_world s2 = ss_world s"
        using s1 by (auto simp: decodeMessage_def split: option.splits sum.splits)
      show ?thesis
      proof (cases "\<exists>a. d = Inr (Some a) \<and> Validate a = Inr ()")
        case True
        then obtain a where a: "d = Inr (Some a)" "Validate a = Inr ()" by blast
        then have "ss_trace s' = ss_trace s @ [Delivered a]" "ss_world s' = snd (h a (ss_world s))"
          using b d s2 by (auto simp: bindS_def handOver_def Let_def split: prod.splits option.splits)
        moreover have "\<exists>body. nw_message nw e body = Inr (Some a)"
          using d a(1) by (auto simp: decodeMessage_def split: option.splits sum.splits)
        then have "received nw a" using a(2) validate_iff unfolding received_def by blast
        ultimately show ?thesis by (intro exI [of _ "[a]"]) (simp add: handled_def)
      next
        case False
        then have "s' = s2" using b d by (auto simp: bindS_def handOver_def split: sum.splits option.splits)
        then show ?thesis using s2 by (intro exI [of _ "[]"]) (simp add: handled_def)
      qed
    qed
  qed
qed

lemma messageLoop_trace:
  "messageLoop nw h s = Some (e, s') \<Longrightarrow>
   \<exists>as. ss_trace s' = ss_trace s @ map Delivered as \<and> list_all (received nw) as \<and> ss_world s' = handled h as (ss_world s)"
proof (induction "length (ss_tokens s)" arbitrary: s rule: less_induct)
  case less
  obtain r s1 where r: "messageRound nw h s = (r, s1)" by fastforce
  from messageRound_trace [OF r] obtain as where as: "ss_trace s1 = ss_trace s @ map Delivered as" "list_all (received nw) as"
    "ss_world s1 = handled h as (ss_world s)" by blast
  show ?case
  proof (cases r)
    case (Inl x)
    then have "s' = s1" using less.prems r by (subst (asm) messageLoop.simps) simp
    then show ?thesis using as by blast
  next
    case (Inr u)
    then have l: "messageLoop nw h s1 = Some (e, s')" using less.prems r by (subst (asm) messageLoop.simps) simp
    from less.hyps [OF messageRound_shorter [OF r [unfolded Inr]] l] obtain bs where bs: "ss_trace s' = ss_trace s1 @ map Delivered bs"
      "list_all (received nw) bs" "ss_world s' = handled h bs (ss_world s1)" by blast
    show ?thesis using as bs by (intro exI [of _ "as @ bs"]) (simp add: handled_def)
  qed
qed

text \<open>A session is a login that was broken off, or a login and the alerts after it.\<close>

definition sessionTrace ::
    "CBENetwork \<Rightarrow> CBEConfig \<Rightarrow> 'w handler \<Rightarrow> ('w \<Rightarrow> 'w) \<Rightarrow> 'w \<Rightarrow> sessionEvent list \<Rightarrow> 'w \<Rightarrow> bool" where
  "sessionTrace nw cfg h up w trace w' \<longleftrightarrow>
     prefix trace (loginTrace cfg) \<and> w' = w \<or>
     (\<exists>as. trace = loginTrace cfg @ Connected # map Delivered as \<and> list_all (received nw) as \<and> w' = handled h as (up w))"

lemma runOnce_trace:
  assumes mode: "TLSMode cfg \<in> {''plain'', ''direct_tls''}" and run: "runOnce nw cfg h up w = Some (e, s)"
  shows "sessionTrace nw cfg h up w (ss_trace s) (ss_world s)"
proof (cases "nw_dial nw")
  case (Some x)
  then show ?thesis using run by (auto simp: runOnce_def sessionTrace_def)
next
  case None
  let ?s = "\<lparr>ss_secure = False, ss_tokens = nw_first nw, ss_writes = 0, ss_trace = [], ss_world = w\<rparr>"
  let ?d = "TLSMode cfg = ''direct_tls''"
  let ?open = "[Wrote ?d (OpenStream (Domain cfg))]"
  let ?tls = "if ?d then [] else [Wrote False StartTLS, Wrote True (OpenStream (Domain cfg))]"
  have login: "loginTrace cfg = ?open @ ?tls @ authTrace cfg" by (simp add: loginTrace_def)
  obtain q t where q: "thenS (if ?d then handshake nw else (\<lambda>s. (Inr (), s))) (openStream nw cfg) ?s = (q, t)" by fastforce
  have "writesOnly False ?d ([] @ ?open) (thenS (if ?d then handshake nw else (\<lambda>s. (Inr (), s))) (openStream nw cfg))"
  proof (rule writesOnly_then)
    show "writesOnly False ?d [] (if ?d then handshake nw else (\<lambda>s. (Inr (), s)))"
      by (cases ?d) (auto intro: writes_intros)
  qed (rule writesOnly_openStream)
  note first = this [unfolded writesOnly_def, rule_format, OF _ q, simplified]
  show ?thesis
  proof (cases q)
    case (Inl x)
    then have "s = t" using run None q by (simp add: runOnce_def)
    moreover obtain ys where "prefix ys ?open" "ss_trace t = ys" "ss_world t = w" using first Inl by auto
    moreover from this have "prefix ys (loginTrace cfg)" unfolding login by (meson prefix_prefix)
    ultimately show ?thesis unfolding sessionTrace_def by simp
  next
    case (Inr u)
    then have t: "ss_secure t = ?d" "ss_trace t = ?open" "ss_world t = w" using first by auto
    obtain q1 t1 where q1: "(if TLSMode cfg = ''plain'' then startTLS nw cfg t else Some (Inr (), t)) = Some (q1, t1)"
      using startTLS_returns [of nw cfg t] by (cases "TLSMode cfg = ''plain''") auto
    have second: "ss_world t1 = w \<and> (case q1 of Inl _ \<Rightarrow> \<exists>ys. prefix ys ?tls \<and> ss_trace t1 = ?open @ ys
        | Inr _ \<Rightarrow> ss_secure t1 \<and> ss_trace t1 = ?open @ ?tls)"
    proof (cases ?d)
      case True
      then show ?thesis using q1 t by auto
    next
      case False
      then have "TLSMode cfg = ''plain''" using mode by blast
      then show ?thesis using startTLS_writes [of nw cfg t q1 t1] q1 t False by (cases q1) auto
    qed
    show ?thesis
    proof (cases q1)
      case (Inl x)
      then have "s = t1" using run None q Inr q1 by (simp add: runOnce_def)
      moreover obtain ys where "prefix ys ?tls" "ss_trace t1 = ?open @ ys" "ss_world t1 = w" using second Inl by auto
      moreover from this have "prefix (?open @ ys) (loginTrace cfg)" unfolding login by (meson prefix_prefix same_prefix_prefix)
      ultimately show ?thesis unfolding sessionTrace_def by simp
    next
      case q1': (Inr v)
      then have t1: "ss_secure t1" "ss_trace t1 = ?open @ ?tls" "ss_world t1 = w" using second by auto
      obtain q2 t2 where q2: "authenticate nw cfg t1 = (q2, t2)" by fastforce
      note third = writesOnly_authenticate [of cfg nw, unfolded writesOnly_def, rule_format, OF _ q2]
      show ?thesis
      proof (cases q2)
        case (Inl x)
        then have "s = t2" using run None q Inr q1 q1' q2 by (simp add: runOnce_def)
        moreover obtain ys where "prefix ys (authTrace cfg)" "ss_trace t2 = ?open @ ?tls @ ys" "ss_world t2 = w"
          using third t1 Inl by auto
        moreover from this have "prefix (?open @ ?tls @ ys) (loginTrace cfg)" unfolding login by simp
        ultimately show ?thesis unfolding sessionTrace_def by simp
      next
        case q2': (Inr x)
        then have t2: "ss_trace t2 = loginTrace cfg" "ss_world t2 = w" using third t1 unfolding login by auto
        have "messageLoop nw h (t2\<lparr>ss_world := up (ss_world t2), ss_trace := ss_trace t2 @ [Connected]\<rparr>) = Some (e, s)"
          using run None q Inr q1 q1' q2 q2' by (simp add: runOnce_def)
        from messageLoop_trace [OF this] t2 show ?thesis unfolding sessionTrace_def by auto
      qed
    qed
  qed
qed

section \<open>The contract of a handler\<close>

text \<open>
  What the client relies on: the handler and the reports of the session state keep an invariant of the
  world, for the alerts that the handler accepts.
\<close>

locale alert_handler =
  fixes onAlert :: "'w handler"
    and onConnected :: "'w \<Rightarrow> 'w"
    and onEnded :: "xmpp_error \<Rightarrow> 'w \<Rightarrow> 'w"
    and worldOK :: "'w \<Rightarrow> bool"
    and accepts :: "Alert \<Rightarrow> bool"
  assumes handed_over: "accepts a \<Longrightarrow> worldOK w \<Longrightarrow> worldOK (snd (onAlert a w))"
    and connected: "worldOK w \<Longrightarrow> worldOK (onConnected w)"
    and ended: "worldOK w \<Longrightarrow> worldOK (onEnded e w)"
begin

lemma handled_ok: "list_all (received nw) as \<Longrightarrow> (\<And>a. received nw a \<Longrightarrow> accepts a) \<Longrightarrow> worldOK w \<Longrightarrow> worldOK (handled onAlert as w)"
  by (induction as arbitrary: w) (simp_all add: handled_def handed_over)

lemma runOnce_ok:
  assumes "TLSMode cfg \<in> {''plain'', ''direct_tls''}" "runOnce nw cfg onAlert onConnected w = Some (e, s)" "worldOK w"
    and "\<And>a. received nw a \<Longrightarrow> accepts a"
  shows "worldOK (ss_world s)"
  using runOnce_trace [OF assms(1,2)] handled_ok [OF _ assms(4)] assms(3) connected
  unfolding sessionTrace_def by auto

lemma Run_ok:
  assumes "TLSMode cfg \<in> {''plain'', ''direct_tls''}" "worldOK w" "\<And>nw a. nw \<in> set nws \<Longrightarrow> received nw a \<Longrightarrow> accepts a"
  shows "\<exists>w'. Run cfg onAlert onConnected onEnded nws w = Some w' \<and> worldOK w'"
  using assms(2,3)
proof (induction nws arbitrary: w)
  case (Cons nw nws)
  obtain e s where r: "runOnce nw cfg onAlert onConnected w = Some (e, s)"
    using runOnce_returns [of nw cfg onAlert onConnected w] by blast
  have "worldOK (ss_world s)" by (rule runOnce_ok [OF assms(1) r Cons.prems(1)]) (use Cons.prems(2) in auto)
  then have "\<exists>w'. Run cfg onAlert onConnected onEnded nws (onEnded e (ss_world s)) = Some w' \<and> worldOK w'"
    using Cons.prems(2) by (intro Cons.IH ended) auto
  then show ?case using r by simp
qed simp

end

section \<open>Every alert costs a token\<close>

definition deliveries :: "sessionEvent list \<Rightarrow> nat" where
  "deliveries es = length (filter (\<lambda>x. case x of Delivered _ \<Rightarrow> True | _ \<Rightarrow> False) es)"

lemma deliveries_append [simp]: "deliveries (xs @ ys) = deliveries xs + deliveries ys"
  by (simp add: deliveries_def)

lemma deliveries_eval [simp]: "deliveries [] = 0" "deliveries (Wrote b x # es) = deliveries es"
  "deliveries (Connected # es) = deliveries es" "deliveries (Delivered a # es) = Suc (deliveries es)"
  by (simp_all add: deliveries_def)

definition cost :: "'w Session \<Rightarrow> nat" where
  "cost s = deliveries (ss_trace s) + length (ss_tokens s)"

text \<open>An action whose cost stays within a bound: what is handed over comes out of the tokens.\<close>

definition frugal :: "('w, 'a) action \<Rightarrow> bool" where
  "frugal m \<longleftrightarrow> (\<forall>s. cost (snd (m s)) \<le> cost s)"

named_theorems frugal_intros \<open>actions that hand over no more than they read\<close>

lemma frugal_bind [frugal_intros]:
  assumes "frugal m" "\<And>v. frugal (k v)"
  shows "frugal (bindS m k)"
  unfolding frugal_def
proof
  fix s
  obtain q t where q: "m s = (q, t)" by fastforce
  have "cost t \<le> cost s" using assms(1) q unfolding frugal_def by (metis snd_conv)
  moreover have "cost (snd (k v t)) \<le> cost t" for v using assms(2) unfolding frugal_def by blast
  ultimately show "cost (snd (bindS m k s)) \<le> cost s"
    using q by (cases q) (auto simp: bindS_def intro: order_trans)
qed

lemma frugal_then [frugal_intros]: "frugal m \<Longrightarrow> frugal k \<Longrightarrow> frugal (thenS m k)"
  unfolding thenS_def by (rule frugal_bind)

lemma frugal_send [frugal_intros]: "frugal (send nw x)"
  by (auto simp: frugal_def send_def cost_def Let_def split: option.splits)

lemma frugal_nextStart [frugal_intros]: "frugal nextStart"
  unfolding frugal_def
proof
  fix s
  show "cost (snd (nextStart s)) \<le> cost s"
    using dropWhile_length [of "\<lambda>t. \<not> isStart t" "ss_tokens s"]
    by (auto simp: nextStart_def cost_def split: list.splits token.splits)
qed

lemma frugal_Skip [frugal_intros]: "frugal Skip"
  by (auto simp: frugal_def Skip_def cost_def dest!: takeElement_shorter split: option.splits)

lemma frugal_expectStart [frugal_intros]: "frugal (expectStart l n)"
proof -
  have "frugal (\<lambda>s. if el_Local e \<noteq> l \<or> el_Space e \<noteq> n then (Inl (Unexpected e), s) else (Inr (), s))" for e
    by (simp add: frugal_def)
  from frugal_bind [OF frugal_nextStart this] show ?thesis by (simp add: expectStart_def)
qed

lemma frugal_skipFeatures [frugal_intros]: "frugal skipFeatures"
  unfolding skipFeatures_def by (rule frugal_intros)+

lemma frugal_openStream [frugal_intros]: "frugal (openStream nw cfg)"
  unfolding openStream_def by (rule frugal_intros)+

lemma frugal_handshake [frugal_intros]: "frugal (handshake nw)"
  by (auto simp: frugal_def handshake_def cost_def split: option.splits)

lemma frugal_authenticate: "frugal (authenticate nw cfg)"
  unfolding authenticate_def by (rule frugal_intros)+

lemma decodeMessage_cost: "cost (snd (decodeMessage nw e s)) \<le> cost s"
  by (auto simp: decodeMessage_def cost_def dest!: takeElement_shorter split: option.splits sum.splits)

lemma handOver_cost: "cost (snd (handOver h raw s)) \<le> Suc (cost s)"
  by (auto simp: handOver_def cost_def Let_def split: option.splits sum.splits prod.splits)

lemma nextStart_cost: "nextStart s = (Inr e, t) \<Longrightarrow> cost t < cost s"
  using nextStart_shorter [of s e t] by (auto simp: nextStart_def cost_def split: list.splits token.splits)

lemma frugal_messageRound: "frugal (messageRound nw h)"
  unfolding frugal_def
proof
  fix s :: "'a Session"
  obtain q t where q: "nextStart s = (q, t)" by fastforce
  show "cost (snd (messageRound nw h s)) \<le> cost s"
  proof (cases q)
    case (Inl x)
    have "cost t \<le> cost s" using frugal_nextStart q unfolding frugal_def by (metis snd_conv)
    then show ?thesis using q Inl by (simp add: messageRound_def bindS_def)
  next
    case (Inr e)
    have less: "cost t < cost s" by (rule nextStart_cost [OF q [unfolded Inr]])
    have skip: "cost (snd (Skip t)) \<le> cost t" using frugal_Skip unfolding frugal_def by blast
    obtain d u where d: "decodeMessage nw e t = (d, u)" by fastforce
    have u: "cost u \<le> cost t" using decodeMessage_cost [of nw e t] d by simp
    have "cost (snd (handOver h raw u)) \<le> cost s" for raw using handOver_cost [of h raw u] u less by linarith
    then have "cost (snd (bindS (decodeMessage nw e) (handOver h) t)) \<le> cost s"
      using d u less by (cases d) (auto simp: bindS_def)
    then show ?thesis using q Inr less skip by (auto simp: messageRound_def bindS_def)
  qed
qed

lemma messageLoop_cost: "messageLoop nw h s = Some (e, s') \<Longrightarrow> cost s' \<le> cost s"
proof (induction "length (ss_tokens s)" arbitrary: s rule: less_induct)
  case less
  obtain r s1 where r: "messageRound nw h s = (r, s1)" by fastforce
  have c: "cost s1 \<le> cost s" using frugal_messageRound r unfolding frugal_def by (metis snd_conv)
  show ?case
  proof (cases r)
    case (Inl x)
    then show ?thesis using less.prems r c by (subst (asm) messageLoop.simps) simp
  next
    case (Inr u)
    then have "messageLoop nw h s1 = Some (e, s')" using less.prems r by (subst (asm) messageLoop.simps) simp
    from less.hyps [OF messageRound_shorter [OF r [unfolded Inr]] this] c show ?thesis by simp
  qed
qed

lemma featureLoop_shorter: "featureLoop l n f ts = Some (Inr ts') \<Longrightarrow> length ts' \<le> length ts"
proof (induction "length ts" arbitrary: f ts rule: less_induct)
  case less
  show ?case
  proof (cases "featureStep l n f ts")
    case (Inl r)
    then have "r = Inr ts'" using less.prems by (subst (asm) featureLoop.simps) simp
    then show ?thesis using Inl by (auto simp: featureStep_def split: list.splits token.splits option.splits if_splits)
  next
    case (Inr p)
    obtain f' us where p: "p = (f', us)" by fastforce
    from featureStep_shorter [OF Inr [unfolded p]] have "length us < length ts" .
    moreover have "featureLoop l n f' us = Some (Inr ts')" using less.prems Inr p by (subst (asm) featureLoop.simps) simp
    ultimately show ?thesis using less.hyps [of us f'] by simp
  qed
qed

lemma requireFeature_cost: "requireFeature l n s = Some (q, t) \<Longrightarrow> cost t \<le> cost s"
proof -
  assume a: "requireFeature l n s = Some (q, t)"
  obtain r u where e: "expectStart ''features'' nsStream s = (r, u)" by fastforce
  have "cost u \<le> cost s" using frugal_expectStart e unfolding frugal_def by (metis snd_conv)
  then show ?thesis
    using a e by (auto simp: requireFeature_def cost_def dest!: featureLoop_shorter split: sum.splits option.splits)
qed

text \<open>STARTTLS replaces the decoder: only here tokens are added.\<close>

lemma startTLS_cost:
  assumes "startTLS nw cfg s = Some (q, t)"
  shows "cost t \<le> cost s + length (nw_second nw)"
proof -
  obtain r u where u: "requireFeature ''starttls'' nsTLS s = Some (r, u)" using requireFeature_returns by blast
  note cu = requireFeature_cost [OF u]
  let ?fresh = "\<lambda>s. thenS (\<lambda>s. (Inr (), s\<lparr>ss_tokens := nw_second nw\<rparr>)) (openStream nw cfg) s"
  let ?first = "thenS (send nw StartTLS) (thenS (expectStart ''proceed'' nsTLS) (handshake nw))"
  have assoc: "thenS (send nw StartTLS) (thenS (expectStart ''proceed'' nsTLS) (thenS (handshake nw) k)) = thenS ?first k" for k
    by (rule ext) (simp add: thenS_def bindS_def split: prod.splits sum.splits)
  have fresh: "cost (snd (?fresh v)) \<le> cost v + length (nw_second nw)" for v
  proof -
    have "cost (snd (openStream nw cfg (v\<lparr>ss_tokens := nw_second nw\<rparr>))) \<le> cost (v\<lparr>ss_tokens := nw_second nw\<rparr>)"
      using frugal_openStream unfolding frugal_def by blast
    then show ?thesis by (simp add: thenS_def bindS_def cost_def)
  qed
  obtain p v where p: "?first u = (p, v)" by fastforce
  have "frugal ?first" by (rule frugal_intros)+
  then have "cost v \<le> cost u" using p unfolding frugal_def by (metis snd_conv)
  then have "cost (snd (thenS ?first ?fresh u)) \<le> cost s + length (nw_second nw)"
    using fresh [of v] cu p by (cases p) (auto simp: thenS_def bindS_def)
  then show ?thesis using assms u cu by (cases r) (auto simp: startTLS_def assoc)
qed

lemma runOnce_bounded:
  assumes run: "runOnce nw cfg h up w = Some (e, s)"
  shows "deliveries (ss_trace s) \<le> length (nw_first nw) + length (nw_second nw)"
proof -
  let ?s = "\<lparr>ss_secure = False, ss_tokens = nw_first nw, ss_writes = 0, ss_trace = [], ss_world = w\<rparr>"
  have c0: "cost ?s = length (nw_first nw)" by (simp add: cost_def)
  obtain q t where q: "thenS (if TLSMode cfg = ''direct_tls'' then handshake nw else (\<lambda>s. (Inr (), s))) (openStream nw cfg) ?s = (q, t)"
    by fastforce
  have "frugal (if TLSMode cfg = ''direct_tls'' then handshake nw else (\<lambda>s. (Inr (), s)))"
    using frugal_handshake [of nw] by (cases "TLSMode cfg = ''direct_tls''") (simp_all add: frugal_def)
  from frugal_then [OF this frugal_openStream [of nw cfg]] q have ct: "cost t \<le> length (nw_first nw)"
    unfolding frugal_def c0 [symmetric] by (metis snd_conv)
  obtain q1 t1 where q1: "(if TLSMode cfg = ''plain'' then startTLS nw cfg t else Some (Inr (), t)) = Some (q1, t1)"
    using startTLS_returns [of nw cfg t] by (cases "TLSMode cfg = ''plain''") auto
  have c1: "cost t1 \<le> length (nw_first nw) + length (nw_second nw)"
    using q1 ct startTLS_cost [of nw cfg t q1 t1] by (cases "TLSMode cfg = ''plain''") auto
  obtain q2 t2 where q2: "authenticate nw cfg t1 = (q2, t2)" by fastforce
  have c2: "cost t2 \<le> cost t1" using frugal_authenticate q2 unfolding frugal_def by (metis snd_conv)
  have c3: "cost s' \<le> cost t2" if "messageLoop nw h (t2\<lparr>ss_world := up (ss_world t2), ss_trace := ss_trace t2 @ [Connected]\<rparr>) = Some (e, s')" for s'
    using messageLoop_cost [OF that] by (simp add: cost_def)
  have "cost s \<le> length (nw_first nw) + length (nw_second nw)"
    using run q q1 q2 c0 ct c1 c2 c3 by (cases "nw_dial nw"; cases q; cases q1; cases q2) (auto simp: runOnce_def dest!: c3)
  then show ?thesis by (simp add: cost_def)
qed

section \<open>Waits\<close>

lemma waits_exact:
  assumes "0 < CBEReconnectMin cfg" "CBEReconnectMin cfg \<le> CBEReconnectMax cfg" "CBEReconnectMax cfg < 2 ^ 62"
  shows "waits cfg n = min (CBEReconnectMin cfg * 2 ^ n) (CBEReconnectMax cfg) \<and> 0 < waits cfg n"
proof (induction n)
  case 0
  then show ?case using assms by (simp add: waits_def)
next
  case (Suc n)
  then have w: "0 < waits cfg n" "waits cfg n \<le> CBEReconnectMax cfg" by (blast, linarith)
  then have "signed_take_bit 63 (waits cfg n * 2) = waits cfg n * 2"
    using assms(3) by (intro signed_take_bit_int_eq_self) simp_all
  then have step: "waits cfg (Suc n) = min (waits cfg n * 2) (CBEReconnectMax cfg)"
    by (simp add: waits_def nextWait_def Let_def min_def)
  have "(waits cfg n * 2 = CBEReconnectMin cfg * 2 ^ Suc n) \<or>
      (waits cfg n = CBEReconnectMax cfg \<and> CBEReconnectMax cfg \<le> CBEReconnectMin cfg * 2 ^ n)"
    using Suc by (auto simp: min_def)
  then show ?case
  proof
    assume "waits cfg n * 2 = CBEReconnectMin cfg * 2 ^ Suc n"
    then show ?thesis using step w by simp
  next
    assume m: "waits cfg n = CBEReconnectMax cfg \<and> CBEReconnectMax cfg \<le> CBEReconnectMin cfg * 2 ^ n"
    then have "CBEReconnectMax cfg \<le> CBEReconnectMin cfg * 2 ^ Suc n" using assms by simp
    then show ?thesis using step m w by simp
  qed
qed

section \<open>Properties\<close>

text \<open>No attribute of the answer is read: an \<open>iq\<close> of type error is taken for a bound resource.\<close>

lemma iq_error_accepted:
  "expectStart ''iq'' nsClient (s\<lparr>ss_tokens := StartElement \<lparr>el_Local = ''iq'', el_Space = nsClient, el_Attrs = [(''type'', ''error'')]\<rparr> # ts\<rparr>) =
     (Inr (), s\<lparr>ss_tokens := ts\<rparr>)"
  by (simp add: expectStart_def bindS_def nextStart_def)

lemma Load_mode: "Load decode b = Inr c \<Longrightarrow> TLSMode (cfgCBE c) \<in> {''plain'', ''direct_tls''}"
  by (auto simp: Load_def Let_def andThen_eq_Inr ValidateConfig_def validateCBE_def)

lemma loginTrace_encrypted: "Wrote tls (AuthPlain u p) \<in> set (loginTrace cfg) \<Longrightarrow> tls"
  by (auto simp: loginTrace_def authTrace_def split: if_splits)

lemma sessionTrace_encrypted:
  assumes "sessionTrace nw cfg h up w trace w'" "Wrote tls (AuthPlain u p) \<in> set trace"
  shows "tls"
proof -
  have "Wrote tls (AuthPlain u p) \<in> set (loginTrace cfg)"
    using assms unfolding sessionTrace_def by (auto dest: set_mono_prefix)
  then show ?thesis by (rule loginTrace_encrypted)
qed

text \<open>A session with a sample configuration: direct TLS, a login that succeeds, one message without an alert.\<close>

definition sampleCBE :: CBEConfig where
  "sampleCBE = (cfgCBE (applyDefaults sampleConfig))\<lparr>TLSMode := ''direct_tls''\<rparr>"

definition sampleElement :: "string \<Rightarrow> string \<Rightarrow> token list" where
  "sampleElement l n = [StartElement \<lparr>el_Local = l, el_Space = n, el_Attrs = []\<rparr>, EndElement l n]"

definition sampleStream :: token where
  "sampleStream = StartElement \<lparr>el_Local = ''stream'', el_Space = nsStream, el_Attrs = []\<rparr>"

definition sampleServer :: CBENetwork where
  "sampleServer =
     \<lparr>nw_dial = None, nw_handshake = None, nw_write = (\<lambda>_. None),
      nw_first = sampleStream # sampleElement ''features'' nsStream @ sampleElement ''success'' nsSASL @
        sampleStream # sampleElement ''features'' nsStream @ sampleElement ''iq'' nsClient @ sampleElement ''message'' nsClient,
      nw_second = [], nw_message = (\<lambda>_ _. Inr None)\<rparr>"


lemma sampleSession:
  "\<exists>e s. runOnce sampleServer sampleCBE h up w = Some (e, s) \<and> Connected \<in> set (ss_trace s) \<and>
     Wrote True (AuthPlain ''u'' ''p'') \<in> set (ss_trace s)"
proof -
  have stop: "messageLoop nw h s = Some (ReadFailed, s\<lparr>ss_tokens := []\<rparr>)" if "ss_tokens s = []" for nw s
    using that by (subst messageLoop.simps) (simp add: messageRound_def bindS_def nextStart_def)
  have one: "messageLoop sampleServer h s = Some (ReadFailed, s\<lparr>ss_tokens := []\<rparr>)"
    if "ss_tokens s = [StartElement \<lparr>el_Local = ''message'', el_Space = nsClient, el_Attrs = []\<rparr>, EndElement ''message'' nsClient]" for s
    using that by (subst messageLoop.simps)
      (simp add: messageRound_def bindS_def nextStart_def decodeMessage_def handOver_def sampleServer_def stop)
  have login: "Username sampleCBE = ''u''" "Password sampleCBE = ''p''" "TLSMode sampleCBE = ''direct_tls''"
    by (simp_all add: sampleCBE_def applyDefaults_def sampleConfig_def Let_def)
  have server: "nw_dial sampleServer = None" "nw_handshake sampleServer = None" "nw_write sampleServer n = None"
    "nw_first sampleServer = sampleStream # sampleElement ''features'' nsStream @ sampleElement ''success'' nsSASL @
        sampleStream # sampleElement ''features'' nsStream @ sampleElement ''iq'' nsClient @ sampleElement ''message'' nsClient" for n
    by (simp_all add: sampleServer_def)
  show ?thesis
    by (simp add: runOnce_def authenticate_def skipFeatures_def openStream_def thenS_def bindS_def send_def expectStart_def
        nextStart_def Skip_def handshake_def server login sampleElement_def sampleStream_def one)
qed

definition sampleFile :: Config where
  "sampleFile = sampleConfig\<lparr>cfgCBE := (cfgCBE sampleConfig)\<lparr>TLSMode := ''direct_tls''\<rparr>\<rparr>"

lemma sampleFile_loads:
  "Load (\<lambda>_. Inr sampleFile) b = Inr (applyDefaults sampleFile)" "cfgCBE (applyDefaults sampleFile) = sampleCBE"
  by (simp_all add: Load_def ValidateConfig_def validateSBcAP_def validateCBE_def validateInventory_def sampleFile_def sampleCBE_def
      applyDefaults_def orDefault_def sampleConfig_def Second_def Minute_def RemoveAll_def string_eval char_eval)

text \<open>C28: The order of a session: what the client does is a prefix of the login of its TLS mode (for the plain
  mode the stream and STARTTLS in clear, then over TLS the stream, the credentials, the restarted stream and
  the bind; for direct TLS the same from the stream over TLS on) and then the handler was never called; or
  the whole login, the report of the connection, and alerts, all of which have passed the validation, were handed to
  the handler one after the other, whose state at the end is the fold of it over exactly these alerts.\<close>

theorem session_order:
  assumes "Load decode b = Inr c" and "runOnce nw (cfgCBE c) h up w = Some (e, s)"
  shows "sessionTrace nw (cfgCBE c) h up w (ss_trace s) (ss_world s)"
  by (rule runOnce_trace [OF Load_mode [OF assms(1)] assms(2)])

theorem session_order_witness:
  "\<exists>e s. runOnce sampleServer sampleCBE (\<lambda>_ n. (None, Suc n)) id 0 = Some (e, s) \<and> Connected \<in> set (ss_trace s) \<and>
     sessionTrace sampleServer sampleCBE (\<lambda>_ n. (None :: string option, Suc n)) id 0 (ss_trace s) (ss_world s)"
proof -
  obtain e s where run: "runOnce sampleServer sampleCBE (\<lambda>_ n. (None, Suc n)) id 0 = Some (e, s)" "Connected \<in> set (ss_trace s)"
    using sampleSession [of "\<lambda>_ n. (None, Suc n)" id 0] by blast
  from session_order [OF sampleFile_loads(1), unfolded sampleFile_loads(2), OF run(1)] run show ?thesis by blast
qed

text \<open>C29: For a configuration that loads, the credentials of the CBE are only ever written over TLS, whatever
  the server answers: a server that does not offer STARTTLS, refuses it or fails the handshake never sees them.\<close>

theorem credentials_encrypted:
  assumes "Load decode b = Inr c" and "runOnce nw (cfgCBE c) h up w = Some (e, s)"
    and "Wrote tls (AuthPlain u p) \<in> set (ss_trace s)"
  shows "tls"
  by (rule sessionTrace_encrypted [OF runOnce_trace [OF Load_mode [OF assms(1)] assms(2)] assms(3)])

theorem credentials_encrypted_witness:
  "\<exists>e s tls. runOnce sampleServer sampleCBE (\<lambda>_ n. (None :: string option, Suc n)) id 0 = Some (e, s) \<and>
     Wrote tls (AuthPlain ''u'' ''p'') \<in> set (ss_trace s) \<and> tls"
proof -
  obtain e s where run: "runOnce sampleServer sampleCBE (\<lambda>_ n. (None, Suc n)) id 0 = Some (e, s)"
      "Wrote True (AuthPlain ''u'' ''p'') \<in> set (ss_trace s)"
    using sampleSession [of "\<lambda>_ n. (None, Suc n)" id 0] by blast
  from credentials_encrypted [OF sampleFile_loads(1), unfolded sampleFile_loads(2), OF run] run show ?thesis by blast
qed

text \<open>The waits between sessions: for a configuration that loads, with a maximum below 2^62 ns (beyond it the
  doubled wait overflows and the client retries without pause), the wait after the n-th session is the minimum
  doubled n times, at most the maximum, and positive. It never returns to the minimum, however
  long a session lasted.\<close>

theorem reconnect_waits:
  assumes "Load decode b = Inr c" and "CBEReconnectMax (cfgCBE c) < 2 ^ 62"
  shows "waits (cfgCBE c) n = min (CBEReconnectMin (cfgCBE c) * 2 ^ n) (CBEReconnectMax (cfgCBE c)) \<and> 0 < waits (cfgCBE c) n"
  using waits_exact [of "cfgCBE c" n] Load_usable [OF assms(1)] assms(2) by (simp add: usableConfig_def)

theorem reconnect_waits_witness: "waits sampleCBE 3 = 8 * Second \<and> waits sampleCBE 9 = 30 * Second"
proof -
  have c: "CBEReconnectMin sampleCBE = 1000000000" "CBEReconnectMax sampleCBE = 30000000000"
    by (simp_all add: sampleCBE_def applyDefaults_def sampleConfig_def orDefault_def Let_def Second_def)
  note w = reconnect_waits [OF sampleFile_loads(1), unfolded sampleFile_loads(2)]
  show ?thesis using w [of 3] w [of 9] by (simp add: c Second_def)
qed

end
