(* ===== verification/Cbc_Process.thy ===== *)
theory Cbc_Process
  imports Xmpp_Client Delivery
begin

text \<open>
  \<open>cmd/cbc/main.go\<close> and \<open>log.go\<close>: how the process drives the alert service. The state is the service, the
  database and the number of clock readings so far. Alerts come from the sessions of \<open>Xmpp_Client\<close>; the
  reports of a session set the connection state and the last error; the ticker sweeps. The service
  operations are atomic here: what happens when a sweep runs between two sections of \<open>Ingest\<close> is
  \<open>expire_race\<close> in \<open>Service_Core\<close>.
\<close>

section \<open>Alert handling\<close>

record ProcessState =
  pr_Service :: Service
  pr_DB :: Database
  pr_Clock :: nat

text \<open>What the process runs in: the failures of the database and the time at each reading of the clock.\<close>

record ProcessEnv =
  pe_Fault :: "string \<Rightarrow> fault"
  pe_Publish :: "Database publisher"
  pe_Now :: "nat \<Rightarrow> gotime"
  pe_ErrorText :: "service_error \<Rightarrow> string"
  pe_SessionError :: "xmpp_error \<Rightarrow> string"

definition ingestHandler :: "ProcessEnv \<Rightarrow> ProcessState handler" where
  "ingestHandler env a p =
     (case Ingest (Some (sqliteOps (pe_Fault env))) (Some (pe_Publish env)) (pe_Now env (pr_Clock p)) a (pr_Service p) (pr_DB p) of
        (r, s, db) \<Rightarrow>
          (case r of Inl e \<Rightarrow> Some (pe_ErrorText env e) | Inr _ \<Rightarrow> None,
           p\<lparr>pr_Service := s, pr_DB := db, pr_Clock := pr_Clock p + 1\<rparr>))"

definition onState :: "bool \<Rightarrow> string option \<Rightarrow> ProcessState \<Rightarrow> ProcessState" where
  "onState conn err p = p\<lparr>pr_Service := SetError err (SetConnected conn (pr_Service p))\<rparr>"

definition runClient :: "ProcessEnv \<Rightarrow> Config \<Rightarrow> CBENetwork list \<Rightarrow> ProcessState \<Rightarrow> ProcessState option" where
  "runClient env cfg =
     Run (cfgCBE cfg) (ingestHandler env) (onState True None) (\<lambda>e. onState False (Some (pe_SessionError env e)))"

text \<open>One tick; a failure is only logged.\<close>

definition expireTick :: "ProcessEnv \<Rightarrow> ProcessState \<Rightarrow> ProcessState" where
  "expireTick env p =
     (case ExpireService (Some (sqliteOps (pe_Fault env))) (UTC (pe_Now env (pr_Clock p))) (pr_Service p) (pr_DB p) of
        (_, s, db) \<Rightarrow> p\<lparr>pr_Service := s, pr_DB := db, pr_Clock := pr_Clock p + 1\<rparr>)"

text \<open>The start: recovery must succeed, or the process exits.\<close>

definition startService :: "ProcessEnv \<Rightarrow> Database \<Rightarrow> ProcessState option" where
  "startService env db =
     (case Recover (Some (sqliteOps (pe_Fault env))) (pe_Now env 0) NewService db of
        (Inl _, s, db) \<Rightarrow> None
      | (Inr _, s, db) \<Rightarrow> Some \<lparr>pr_Service = s, pr_DB = db, pr_Clock = 1\<rparr>)"

section \<open>Logging\<close>

definition parseLevel :: "string \<Rightarrow> int" where
  "parseLevel s =
     (if lowerIs s ''debug'' then - 4 else if lowerIs s ''warn'' then 4 else if lowerIs s ''error'' then 8 else 0)"

text \<open>A log handler: the levels it takes, and the error of handling a record.\<close>

record 'r LogHandler =
  lh_Enabled :: "int \<Rightarrow> bool"
  lh_Handle :: "'r \<Rightarrow> string option"

definition multiEnabled :: "'r LogHandler list \<Rightarrow> int \<Rightarrow> bool" where
  "multiEnabled hs level \<longleftrightarrow> (\<exists>h \<in> set hs. lh_Enabled h level)"

text \<open>Every handler that takes the level is called; the error of the last one that fails is returned.\<close>

fun multiHandle :: "'r LogHandler list \<Rightarrow> int \<Rightarrow> 'r \<Rightarrow> string option \<Rightarrow> string option" where
  "multiHandle [] level r err = err"
| "multiHandle (h # hs) level r err =
     multiHandle hs level r
       (if lh_Enabled h level then (case lh_Handle h r of Some e \<Rightarrow> Some e | None \<Rightarrow> err) else err)"

lemma multiHandle_ok:
  "multiHandle hs level r None = None \<longleftrightarrow> (\<forall>h \<in> set hs. lh_Enabled h level \<longrightarrow> lh_Handle h r = None)"
proof -
  have "multiHandle hs level r err = None \<longleftrightarrow> err = None \<and> (\<forall>h \<in> set hs. lh_Enabled h level \<longrightarrow> lh_Handle h r = None)" for err
    by (induction hs arbitrary: err) (auto split: option.splits)
  then show ?thesis by simp
qed

text \<open>Every level name that the configuration accepts is a level of its own.\<close>

lemma parseLevel_loaded:
  assumes "Load decode b = Inr c"
  shows "parseLevel (Level (cfgLogging c)) = 0 \<longleftrightarrow> lowerIs (Level (cfgLogging c)) ''info''"
proof -
  let ?l = "Level (cfgLogging c)"
  have v: "lowerIs ?l ''debug'' \<or> lowerIs ?l ''info'' \<or> lowerIs ?l ''warn'' \<or> lowerIs ?l ''error''"
    using assms by (auto simp: Load_def Let_def andThen_eq_Inr ValidateConfig_def)
  have "lowerIs s t \<Longrightarrow> lowerIs s u \<Longrightarrow> map Some t = map Some u" for s t u by (simp add: lowerIs_def)
  then have one: "lowerIs s t \<Longrightarrow> lowerIs s u \<Longrightarrow> t = u" for s t u by (metis inj_Some inj_map_eq_map)
  show ?thesis using v one [of ?l "''info''" "''debug''"] one [of ?l "''info''" "''warn''"] one [of ?l "''info''" "''error''"]
    by (auto simp: parseLevel_def)
qed

section \<open>The process\<close>

text \<open>The actors of the process in any order: a session hands over an alert or reports its state, the ticker sweeps.\<close>

inductive processStep :: "ProcessEnv \<Rightarrow> ProcessState \<Rightarrow> ProcessState \<Rightarrow> bool" for env where
  alert_handed_over: "Identifier a \<notin> set (ReferenceIDs a) \<Longrightarrow> processStep env p (snd (ingestHandler env a p))"
| state_reported: "processStep env p (onState conn err p)"
| ticked: "processStep env p (expireTick env p)"

inductive_cases processStepE: "processStep env p q"

definition goodEnv :: "ProcessEnv \<Rightarrow> bool" where
  "goodEnv env \<longleftrightarrow> (\<forall>n. utcTime (pe_Now env n)) \<and> (\<forall>a d. db_alerts (snd (pe_Publish env a d)) = db_alerts d) \<and>
     (\<forall>a d. dbInv d \<longrightarrow> dbInv (snd (pe_Publish env a d)))"

definition synced :: "ProcessState \<Rightarrow> bool" where
  "synced p \<longleftrightarrow> okStore (pr_DB p) \<and> mirrors tabView (pr_Service p) (pr_DB p)"

lemma synced_alert:
  assumes "goodEnv env" "Identifier a \<notin> set (ReferenceIDs a)" "synced p"
  shows "synced (snd (ingestHandler env a p))"
proof -
  obtain r s db where i: "Ingest (Some (sqliteOps (pe_Fault env))) (Some (pe_Publish env)) (pe_Now env (pr_Clock p)) a (pr_Service p) (pr_DB p) =
      (r, s, db)" by (metis prod_cases3)
  have ok: "okStore (pr_DB p)" "mirrors tabView (pr_Service p) (pr_DB p)" "utcTime (pe_Now env (pr_Clock p))"
    using assms by (simp_all add: synced_def goodEnv_def)
  have "mirrors tabView s db \<and> okStore db"
    by (rule ingest_mirrors [OF ok assms(2) _ _ i]) (use assms(1) in \<open>simp_all add: goodEnv_def\<close>)
  then show ?thesis using i by (simp add: ingestHandler_def synced_def)
qed

lemma synced_state: "synced p \<Longrightarrow> synced (onState conn err p)"
  by (simp add: synced_def onState_def mirrors_def SetError_def SetConnected_def)

lemma synced_tick:
  assumes "synced p"
  shows "synced (expireTick env p)"
proof -
  obtain r s db where e: "ExpireService (Some (sqliteOps (pe_Fault env))) (UTC (pe_Now env (pr_Clock p))) (pr_Service p) (pr_DB p) =
      (r, s, db)" by (metis prod_cases3)
  have ok: "okStore (pr_DB p)" "mirrors tabView (pr_Service p) (pr_DB p)" using assms by (simp_all add: synced_def)
  have "mirrors tabView s db" by (rule sqlite.expire_mirrors [OF ok e])
  moreover have "okStore db"
    using e ok(1) sqlite.expire_ok [OF ok(1)] by (auto simp: ExpireService_def split: sum.splits prod.splits)
  ultimately show ?thesis using e by (simp add: expireTick_def synced_def)
qed

lemma processStep_synced: "processStep env p q \<Longrightarrow> goodEnv env \<Longrightarrow> synced p \<Longrightarrow> synced q"
  by (erule processStepE) (auto intro: synced_alert synced_state synced_tick)

lemma processSteps_synced: "(processStep env)\<^sup>*\<^sup>* p q \<Longrightarrow> goodEnv env \<Longrightarrow> synced p \<Longrightarrow> synced q"
  by (induction rule: rtranclp_induct) (auto intro: processStep_synced)

text \<open>The alert service behind the client: what the sessions do are steps of the process.\<close>

interpretation client: alert_handler "ingestHandler env" "onState True None" "\<lambda>e. onState False (Some (pe_SessionError env e))"
    "(processStep env)\<^sup>*\<^sup>* p" "\<lambda>a. Identifier a \<notin> set (ReferenceIDs a)"
  by unfold_locales (auto intro: processStep.intros rtranclp.rtrancl_into_rtrancl)

lemma runClient_steps:
  assumes "Load decode b = Inr c" "\<forall>nw \<in> set nws. \<forall>a. received nw a \<longrightarrow> Identifier a \<notin> set (ReferenceIDs a)"
  shows "\<exists>q. runClient env c nws p = Some q \<and> (processStep env)\<^sup>*\<^sup>* p q"
  unfolding runClient_def by (rule client.Run_ok [OF Load_mode [OF assms(1)]]) (use assms(2) in auto)

lemma Run_disconnected:
  assumes "\<And>e w. \<not> connected (pr_Service (down e w))"
  shows "nws \<noteq> [] \<Longrightarrow> Run cfg h up down nws w = Some q \<Longrightarrow> \<not> connected (pr_Service q)"
proof (induction nws arbitrary: w)
  case (Cons nw nws)
  from Cons.prems(2) obtain e s where "runOnce nw cfg h up w = Some (e, s)" and r: "Run cfg h up down nws (down e (ss_world s)) = Some q"
    by (auto split: option.splits)
  show ?case
  proof (cases "nws = []")
    case True
    then show ?thesis using r assms by auto
  next
    case False
    then show ?thesis using Cons.IH r by blast
  qed
qed simp

lemma startService_synced:
  assumes "okStore db" "startService env db = Some p"
  shows "synced p"
proof -
  obtain r s db' where r: "Recover (Some (sqliteOps (pe_Fault env))) (pe_Now env 0) NewService db = (r, s, db')" by (metis prod_cases3)
  obtain u where u: "r = Inr u" and p: "p = \<lparr>pr_Service = s, pr_DB = db', pr_Clock = 1\<rparr>"
    using assms(2) r by (auto simp: startService_def split: sum.splits)
  have "mirrors tabView s db'" by (rule sqlite.recover_mirrors [OF assms(1) r [unfolded u]])
  moreover have "okStore db'"
    using r u assms(1) sqlite.expire_ok [OF assms(1)] by (auto simp: Recover_def split: sum.splits prod.splits)
  ultimately show ?thesis by (simp add: synced_def p)
qed

section \<open>Property\<close>


definition sampleProcess :: ProcessEnv where
  "sampleProcess = \<lparr>pe_Fault = (\<lambda>_. None), pe_Publish = acceptAll, pe_Now = (\<lambda>_. sampleTime 10 0), pe_ErrorText = (\<lambda>_. []),
     pe_SessionError = (\<lambda>_. [])\<rparr>"


end
