(* ===== verification/Http_Api.thy ===== *)
theory Http_Api
  imports Service_Core
begin

text \<open>
  \<open>internal/httpapi/api.go\<close> and \<open>web.go\<close>: the answers of the operator API over the alert service, the
  limit on upload bodies, and the pages of the user interface. A handler is a function from the bound
  input to an error or an output; the binding of requests and the JSON text of the answers are the
  library's (\<open>huma\<close>). An error carries its status and its text, where the text of an underlying error
  is left out.
\<close>

section \<open>Errors\<close>

datatype detail = Message string | ErrorText

datatype http_error =
    Http nat detail
  | HandlerPanic

text \<open>The connection of a handler that panics is closed, as if the server had failed.\<close>

fun statusOf :: "http_error \<Rightarrow> nat" where
  "statusOf (Http n _) = n"
| "statusOf HandlerPanic = 500"

definition Error400 :: "string \<Rightarrow> http_error" where "Error400 m = Http 400 (Message m)"
definition Error404 :: "string \<Rightarrow> http_error" where "Error404 m = Http 404 (Message m)"
definition Error413 :: "string \<Rightarrow> http_error" where "Error413 m = Http 413 (Message m)"
definition Error500 :: "string \<Rightarrow> http_error" where "Error500 m = Http 500 (Message m)"
definition Error503 :: "string \<Rightarrow> http_error" where "Error503 m = Http 503 (Message m)"

lemma statusOf_simps [simp]:
  "statusOf (Error400 m) = 400" "statusOf (Error404 m) = 404" "statusOf (Error413 m) = 413"
  "statusOf (Error500 m) = 500" "statusOf (Error503 m) = 503"
  by (simp_all add: Error400_def Error404_def Error413_def Error500_def Error503_def)

section \<open>Alerts\<close>

definition versionHandler :: "string \<Rightarrow> http_error + string" where
  "versionHandler version = Inr version"

definition healthHandler :: "http_error + unit" where
  "healthHandler = Inr ()"

definition readyHandler :: "Service \<Rightarrow> http_error + unit" where
  "readyHandler s = (if \<not> Ready s then Inl (Error503 ''CBE XMPP session is not established'') else Inr ())"

definition metricsHandler :: "Service \<Rightarrow> http_error + MetricsRecord" where
  "metricsHandler s = Inr (Metrics s)"

definition listAlertsHandler :: "Service \<Rightarrow> http_error + Record list" where
  "listAlertsHandler s = Inr (Alerts s)"

definition getAlertHandler :: "Service \<Rightarrow> string \<Rightarrow> http_error + Record" where
  "getAlertHandler s i = (case AlertByID i s of None \<Rightarrow> Inl (Error404 ''alert not found'') | Some r \<Rightarrow> Inr r)"

definition getPlanHandler :: "'db StoreOps option \<Rightarrow> string \<Rightarrow> 'db \<Rightarrow> http_error + Plan blob" where
  "getPlanHandler store i db =
     (case CBSPlanService store i db of
        Inl _ \<Rightarrow> Inl (Error500 ''CBS plan unavailable'')
      | Inr None \<Rightarrow> Inl (Error404 ''CBS plan not found'')
      | Inr (Some raw) \<Rightarrow> Inr raw)"

definition listAuditHandler :: "'db StoreOps option \<Rightarrow> 'db \<Rightarrow> http_error + AuditEvent list" where
  "listAuditHandler store db =
     (case AuditService store 100 db of
        Inl _ \<Rightarrow> Inl (Error500 ''audit unavailable'')
      | Inr events \<Rightarrow> Inr events)"

section \<open>The server\<close>

text \<open>How many bytes of a request body are read, where there is a limit.\<close>

definition limitImportBody :: "int \<Rightarrow> string \<Rightarrow> string \<Rightarrow> int option" where
  "limitImportBody maxBytes httpMethod path =
     (if httpMethod = ''POST'' \<and> (prefixOf ''/v1/cell-inventory/imports'' path \<or> prefixOf ''/v1/geocodes/import'' path)
      then Some maxBytes else None)"

datatype webResponse =
    RedirectTo nat string
  | ServeFile string
  | ServeIndex
  | NotFound
  | NotBuilt

definition rootHandler :: "string \<Rightarrow> webResponse" where
  "rootHandler path = (if path = ''/'' then RedirectTo 302 ''/ui/'' else NotFound)"

text \<open>The embedded files: which paths can be opened, and the page of the application.\<close>

record WebFiles =
  wf_Open :: "string \<Rightarrow> bool"
  wf_Index :: bool

definition TrimPrefix :: "string \<Rightarrow> string \<Rightarrow> string" where
  "TrimPrefix s p = (if prefixOf p s then drop (length p) s else s)"

definition serveIndex :: "WebFiles \<Rightarrow> webResponse" where
  "serveIndex sub = (if wf_Index sub then ServeIndex else NotFound)"

text \<open>\<open>None\<close>: \<open>fs.Sub\<close> reports an error.\<close>

definition uiHandler :: "WebFiles option \<Rightarrow> string \<Rightarrow> webResponse" where
  "uiHandler files path =
     (case files of
        None \<Rightarrow> NotBuilt
      | Some sub \<Rightarrow>
          (let path = TrimPrefix (TrimPrefix path ''/ui'') ''/'' in
           if path = [] then serveIndex sub
           else if wf_Open sub path then ServeFile path
           else serveIndex sub))"

text \<open>The page of the application is handed to the file server when it is asked for by name.\<close>

lemma index_by_name: "wf_Open sub ''index.html'' \<Longrightarrow> uiHandler (Some sub) ''/ui/index.html'' = ServeFile ''index.html''"
  by (simp add: uiHandler_def TrimPrefix_def)

section \<open>What an operator sees\<close>

text \<open>An alert is served as it is listed; the list holds each alert once.\<close>

lemma listed_is_served:
  assumes "distinct (map fst (alerts s))" "\<forall>(i, r) \<in> set (alerts s). Identifier (rec_Alert r) = i"
  shows "listAlertsHandler s = Inr rs \<Longrightarrow> getAlertHandler s i = Inr r \<longleftrightarrow> r \<in> set rs \<and> Identifier (rec_Alert r) = i"
proof -
  assume a: "listAlertsHandler s = Inr rs"
  have rs: "set rs = snd ` set (alerts s)" using a by (simp add: listAlertsHandler_def Alerts_def) (metis list.set_map set_rev set_sort)
  have "getAlertHandler s i = Inr r \<longleftrightarrow> map_of (alerts s) i = Some r"
    by (simp add: getAlertHandler_def AlertByID_def split: option.splits)
  also have "\<dots> \<longleftrightarrow> (i, r) \<in> set (alerts s)" by (rule map_of_eq_Some_iff [OF assms(1)])
  also have "\<dots> \<longleftrightarrow> r \<in> snd ` set (alerts s) \<and> Identifier (rec_Alert r) = i"
    using assms(2) by force
  finally show ?thesis by (simp add: rs)
qed

end
