(* ===== verification/Http_Inventory.thy ===== *)
theory Http_Inventory
  imports Http_Api Inventory_Steps
begin

text \<open>
  \<open>internal/httpapi/inventory.go\<close>: the cell inventory endpoints over \<open>Inventory_Service\<close> and
  \<open>Inventory_Store\<close>. A nil slice and an empty one are the same list here; the code turns the first into
  the second.
\<close>

section \<open>Input and output\<close>

record inventoryImportView =
  iiv_ImportID :: string
  iiv_Mode :: string
  iiv_Status :: string
  iiv_SourceFilename :: string
  iiv_SourceSHA256 :: string
  iiv_RowsReceived :: int
  iiv_RowsValid :: int
  iiv_RowsRejected :: int
  iiv_Inserted :: int
  iiv_Updated :: int
  iiv_Deactivated :: int
  iiv_Warnings :: int

definition toImportView :: "InventoryImport \<Rightarrow> inventoryImportView" where
  "toImportView imp =
     \<lparr>iiv_ImportID = im_ID imp, iiv_Mode = im_Mode imp, iiv_Status = im_Status imp,
      iiv_SourceFilename = im_SourceFilename imp, iiv_SourceSHA256 = im_SourceSHA256 imp,
      iiv_RowsReceived = im_RowsReceived imp, iiv_RowsValid = im_RowsValid imp, iiv_RowsRejected = im_RowsRejected imp,
      iiv_Inserted = im_InsertedCount imp, iiv_Updated = im_UpdatedCount imp, iiv_Deactivated = im_DeactivatedCount imp,
      iiv_Warnings = im_WarningCount imp\<rparr>"

record listCellsInput =
  lci_Active :: string
  lci_MCC :: string
  lci_MNC :: string
  lci_TAC :: string
  lci_MMEName :: string
  lci_ENBID :: string
  lci_ECI :: string
  lci_Limit :: int
  lci_Offset :: int

record createCellBody =
  ccb_MCC :: string
  ccb_MNC :: string
  ccb_MNCLength :: int
  ccb_ENBID :: u32
  ccb_LocalCellID :: byte
  ccb_TAC :: u16
  ccb_CellName :: string
  ccb_MMEName :: string
  ccb_Latitude :: "float64 option"
  ccb_Longitude :: "float64 option"
  ccb_NominalRadiusM :: "float64 option"
  ccb_AzimuthDeg :: "float64 option"
  ccb_BeamwidthDeg :: "float64 option"
  ccb_CoverageGeoJSON :: string
  ccb_GeometryQuality :: string
  ccb_Source :: string
  ccb_SourceRecordID :: string
  ccb_SourceVersion :: string
  ccb_Active :: bool

record exportOutput =
  xo_ContentType :: string
  xo_ContentDisposition :: string
  xo_InventoryVersion :: string
  xo_ExportedAt :: string
  xo_RecordCount :: int
  xo_Body :: "string list list"

text \<open>An absent parameter is the empty string; a number must be decimal and fit its width.\<close>

definition optionalValue :: "(string \<Rightarrow> 'a option) \<Rightarrow> string \<Rightarrow> string \<Rightarrow> string + 'a option" where
  "optionalValue parse message s =
     (if s = [] then Inr None else case parse s of None \<Rightarrow> Inl message | Some v \<Rightarrow> Inr (Some v))"

definition parseWord :: "nat \<Rightarrow> string \<Rightarrow> 'a::len word option" where
  "parseWord bits s = map_option of_nat (parseUint10 bits s)"

definition parseCellFilter ::
    "string \<Rightarrow> string \<Rightarrow> string \<Rightarrow> string \<Rightarrow> string \<Rightarrow> string \<Rightarrow> string \<Rightarrow> int \<Rightarrow> int \<Rightarrow> string + CellFilter" where
  "parseCellFilter active mcc mnc tac mmeName enbID eci limit offset =
     andThen (optionalValue ParseBool ''active must be a boolean value'' active) (\<lambda>active.
     andThen (optionalValue (parseWord 16) ''tac must be a valid 16-bit TAC value'' tac) (\<lambda>tac.
     andThen (optionalValue (parseWord 32) ''enbId must be a valid eNB ID value'' enbID) (\<lambda>enbID.
     andThen (optionalValue (parseWord 32) ''eci must be a valid ECI value'' eci) (\<lambda>eci.
     Inr \<lparr>f_Active = active, f_MCC = mcc, f_MNC = mnc, f_TAC = tac, f_MMEName = mmeName, f_ENBID = enbID, f_ECI = eci,
          f_Limit = limit, f_Offset = offset\<rparr>))))"

definition formatRFC3339 :: "gotime \<Rightarrow> string" where
  "formatRFC3339 t = formatRFC3339Nano (t\<lparr>t_nsec := 0\<rparr>)"

section \<open>Handlers\<close>

text \<open>The file of a form is its name and content, or not set. \<open>toImportView\<close> of a nil import panics.\<close>

definition importCells ::
    "GeoCodec \<Rightarrow> CsvCodec \<Rightarrow> InventoryService \<Rightarrow> ImportMode \<Rightarrow> ImportEnv \<Rightarrow> string \<Rightarrow> (string \<times> string) option \<Rightarrow> InventoryDB \<Rightarrow>
     (http_error + inventoryImportView) \<times> InventoryDB" where
  "importCells gj cc svc defaultMode env inMode file db =
     (let mode = (if inMode = [] then defaultMode else inMode) in
      case file of
        None \<Rightarrow> (Inl (Error400 (''multipart field '' @ [CHR 0x27] @ ''file'' @ [CHR 0x27] @ '' is required'')), db)
      | Some (filename, data) \<Rightarrow>
          (case Import gj cc svc env filename data mode db of
             (Inl UploadTooLarge, db) \<Rightarrow> (Inl (Error413 ''uploaded file exceeds the configured maximum import size''), db)
           | (Inl (InvalidImportMode _), db) \<Rightarrow> (Inl (Http 400 ErrorText), db)
           | (Inl _, db) \<Rightarrow> (Inl (Error500 ''cell inventory import failed''), db)
           | (Inr None, db) \<Rightarrow> (Inl HandlerPanic, db)
           | (Inr (Some imp), db) \<Rightarrow> (Inr (toImportView imp), db)))"

definition getImportHandler :: "fault \<Rightarrow> string \<Rightarrow> InventoryDB \<Rightarrow> http_error + inventoryImportView" where
  "getImportHandler f importID db =
     (case GetImport f importID db of
        Inl _ \<Rightarrow> Inl (Error500 ''import lookup failed'')
      | Inr None \<Rightarrow> Inl (Error404 ''import not found'')
      | Inr (Some imp) \<Rightarrow> Inr (toImportView imp))"

definition getImportErrors :: "fault \<Rightarrow> fault \<Rightarrow> string \<Rightarrow> InventoryDB \<Rightarrow> http_error + ValidationError list" where
  "getImportErrors f g importID db =
     (case GetImport f importID db of
        Inl _ \<Rightarrow> Inl (Error500 ''import lookup failed'')
      | Inr None \<Rightarrow> Inl (Error404 ''import not found'')
      | Inr (Some _) \<Rightarrow>
          (case ListImportErrors g importID db of
             Inl _ \<Rightarrow> Inl (Error500 ''import error lookup failed'')
           | Inr errs \<Rightarrow> Inr errs))"

definition listCells :: "fault \<Rightarrow> listCellsInput \<Rightarrow> InventoryDB \<Rightarrow> http_error + (LTECell list \<times> int)" where
  "listCells f i db =
     (case parseCellFilter (lci_Active i) (lci_MCC i) (lci_MNC i) (lci_TAC i) (lci_MMEName i) (lci_ENBID i) (lci_ECI i)
          (lci_Limit i) (lci_Offset i) of
        Inl e \<Rightarrow> Inl (Error400 e)
      | Inr filt \<Rightarrow>
          (case ListCells f filt db of
             Inl _ \<Rightarrow> Inl (Error500 ''list cells failed'')
           | Inr out \<Rightarrow> Inr out))"

definition getCellHandler :: "fault \<Rightarrow> int \<Rightarrow> InventoryDB \<Rightarrow> http_error + LTECell" where
  "getCellHandler f cellID db =
     (case GetCell f cellID db of
        Inl _ \<Rightarrow> Inl (Error500 ''get cell failed'')
      | Inr None \<Rightarrow> Inl (Error404 ''cell not found'')
      | Inr (Some c) \<Rightarrow> Inr c)"

definition exportCells :: "fault \<Rightarrow> fault \<Rightarrow> gotime \<Rightarrow> string \<Rightarrow> string \<Rightarrow> InventoryDB \<Rightarrow> http_error + exportOutput" where
  "exportCells f g time format active db =
     (if format \<noteq> [] \<and> format \<noteq> ''csv'' then Inl (Error400 ''only format=csv is supported'')
      else case parseCellFilter active [] [] [] [] [] [] 0 0 of
          Inl e \<Rightarrow> Inl (Error400 e)
        | Inr filt \<Rightarrow>
            (case ExportCells f g time filt db of
               Inl _ \<Rightarrow> Inl (Error500 ''export failed'')
             | Inr (rows, meta) \<Rightarrow> Inr
                 \<lparr>xo_ContentType = ''text/csv'', xo_ContentDisposition = ''attachment; filename='' @ [CHR 0x22] @ ''lte-cell-inventory.csv'' @ [CHR 0x22],
                  xo_InventoryVersion = xm_VersionName meta, xo_ExportedAt = formatRFC3339 (UTC (xm_ExportedAt meta)),
                  xo_RecordCount = xm_RecordCount meta, xo_Body = rows\<rparr>))"

definition createInput :: "createCellBody \<Rightarrow> CreateCellInput" where
  "createInput b =
     \<lparr>in_PLMN = \<lparr>plmn_MCC = ccb_MCC b, plmn_MNC = ccb_MNC b, plmn_MNCLength = ccb_MNCLength b\<rparr>, in_ENBID = ccb_ENBID b,
      in_LocalCellID = ccb_LocalCellID b, in_TAC = ccb_TAC b, in_CellName = ccb_CellName b, in_MMEName = ccb_MMEName b,
      in_Latitude = ccb_Latitude b, in_Longitude = ccb_Longitude b, in_NominalRadiusM = ccb_NominalRadiusM b,
      in_AzimuthDeg = ccb_AzimuthDeg b, in_BeamwidthDeg = ccb_BeamwidthDeg b, in_CoverageGeoJSON = ccb_CoverageGeoJSON b,
      in_GeometryQuality = ccb_GeometryQuality b, in_Source = ccb_Source b, in_SourceRecordID = ccb_SourceRecordID b,
      in_SourceVersion = ccb_SourceVersion b, in_Active = ccb_Active b\<rparr>"

definition createCell ::
    "GeoCodec \<Rightarrow> fault \<Rightarrow> fault \<Rightarrow> gotime \<Rightarrow> createCellBody \<Rightarrow> InventoryDB \<Rightarrow> (http_error + LTECell) \<times> InventoryDB" where
  "createCell gj f g time b db =
     (case CreateCellService gj f g time (createInput b) db of
        (Inl (InvalidCell _), db) \<Rightarrow> (Inl (Http 400 ErrorText), db)
      | (Inl (CreateStore CellAlreadyExists), db) \<Rightarrow> (Inl (Http 409 ErrorText), db)
      | (Inl _, db) \<Rightarrow> (Inl (Error500 ''create cell failed''), db)
      | (Inr None, db) \<Rightarrow> (Inl HandlerPanic, db)
      | (Inr (Some c), db) \<Rightarrow> (Inr c, db))"

definition deleteCell :: "fault \<Rightarrow> fault \<Rightarrow> int \<Rightarrow> InventoryDB \<Rightarrow> (http_error + unit) \<times> InventoryDB" where
  "deleteCell f g cellID db =
     (case DeleteCell f g cellID db of
        (Inl CellNotFound, db) \<Rightarrow> (Inl (Error404 ''cell not found''), db)
      | (Inl CellHasGeocodes, db) \<Rightarrow> (Inl (Http 409 ErrorText), db)
      | (Inl _, db) \<Rightarrow> (Inl (Error500 ''delete cell failed''), db)
      | (Inr _, db) \<Rightarrow> (Inr (), db))"

definition selectionPreview :: "GeoCodec \<Rightarrow> fault \<Rightarrow> fault \<Rightarrow> SelectionRequest \<Rightarrow> InventoryDB \<Rightarrow> http_error + SelectionResult" where
  "selectionPreview gj f g req db =
     (case SelectionPreview gj f g req db of
        Inl _ \<Rightarrow> Inl (Http 400 ErrorText)
      | Inr r \<Rightarrow> Inr r)"

end
