(* ===== verification/Http_Geocode.thy ===== *)
theory Http_Geocode
  imports Http_Inventory
begin

text \<open>
  \<open>internal/httpapi/geocode.go\<close>: the endpoints of the geocode mappings and of the code registry.
\<close>

section \<open>Input\<close>

text \<open>\<open>strconv.ParseInt(s, 10, 64)\<close>.\<close>

definition parseInt64 :: "string \<Rightarrow> int option" where
  "parseInt64 s =
     (let neg = (s \<noteq> [] \<and> hd s = CHR ''-''); rest = (if s \<noteq> [] \<and> hd s \<in> {CHR ''-'', CHR ''+''} then tl s else s) in
      case parseUint10 64 rest of
        None \<Rightarrow> None
      | Some n \<Rightarrow>
          if \<not> neg \<and> n \<ge> 2 ^ 63 \<or> neg \<and> n > 2 ^ 63 then None
          else Some (if neg then - int n else int n))"

definition parseGeocodeFilter :: "string \<Rightarrow> string \<Rightarrow> string \<Rightarrow> int \<Rightarrow> int \<Rightarrow> string + GeoFilter" where
  "parseGeocodeFilter codeType code cellID limit offset =
     andThen (optionalValue parseInt64 ''cellId must be a valid cell ID'' cellID) (\<lambda>cellID.
     Inr \<lparr>gf_CodeType = codeType, gf_Code = code, gf_CellID = cellID, gf_Limit = limit, gf_Offset = offset\<rparr>)"

record listGeocodesInput =
  lgi_CodeType :: string
  lgi_Code :: string
  lgi_CellID :: string
  lgi_Limit :: int
  lgi_Offset :: int

record createGeocodeBody =
  cgb_MCC :: string
  cgb_MNC :: string
  cgb_MNCLength :: int
  cgb_ECI :: u32
  cgb_CodeType :: string
  cgb_Code :: string

record geocodeExportOutput =
  gxo_ContentType :: string
  gxo_ContentDisposition :: string
  gxo_Body :: "string list list"

record createGeoCodeBody =
  cgc_Type :: string
  cgc_Code :: string
  cgc_Description :: string

section \<open>Handlers\<close>

definition listGeocodes :: "fault \<Rightarrow> listGeocodesInput \<Rightarrow> InventoryDB \<Rightarrow> http_error + (Entry list \<times> int)" where
  "listGeocodes f i db =
     (case parseGeocodeFilter (lgi_CodeType i) (lgi_Code i) (lgi_CellID i) (lgi_Limit i) (lgi_Offset i) of
        Inl e \<Rightarrow> Inl (Error400 e)
      | Inr filt \<Rightarrow>
          (case ListEntries f filt db of
             Inl _ \<Rightarrow> Inl (Error500 ''list geocodes failed'')
           | Inr out \<Rightarrow> Inr out))"

definition createGeocode :: "fault \<Rightarrow> fault \<Rightarrow> gotime \<Rightarrow> createGeocodeBody \<Rightarrow> InventoryDB \<Rightarrow> (http_error + Entry) \<times> InventoryDB" where
  "createGeocode f g time b db =
     (case CreateEntry f g time \<lparr>plmn_MCC = cgb_MCC b, plmn_MNC = cgb_MNC b, plmn_MNCLength = cgb_MNCLength b\<rparr> (cgb_ECI b)
          (cgb_CodeType b) (cgb_Code b) db of
        Inl GeoCellNotFound \<Rightarrow> (Inl (Error400 ''no cell matches the given mcc/mnc/mncLength/eci''), db)
      | Inl _ \<Rightarrow> (Inl (Error500 ''create geocode failed''), db)
      | Inr (entry, db) \<Rightarrow> (Inr entry, db))"

definition deleteGeocode :: "fault \<Rightarrow> int \<Rightarrow> InventoryDB \<Rightarrow> (http_error + unit) \<times> InventoryDB" where
  "deleteGeocode f i db =
     (case DeleteEntry f i db of
        (Inl e, db) \<Rightarrow>
          (Inl (if e = GeoEntryNotFound then Error404 ''geocode entry not found'' else Error500 ''delete geocode failed''), db)
      | (Inr _, db) \<Rightarrow> (Inr (), db))"

text \<open>The rows of the uploaded file are those that \<open>encoding/csv\<close> reads from its content.\<close>

definition importGeocodes ::
    "(string \<Rightarrow> string) \<Rightarrow> (string \<Rightarrow> string) \<Rightarrow> (string \<Rightarrow> string + string list list) \<Rightarrow> ImportMode \<Rightarrow> fault \<Rightarrow> gotime \<Rightarrow>
     string \<Rightarrow> string option \<Rightarrow> InventoryDB \<Rightarrow> (http_error + GeoImportResult) \<times> InventoryDB" where
  "importGeocodes upper lower csvRows defaultMode f time inMode file db =
     (let mode = (if inMode = [] then defaultMode else inMode) in
      case file of
        None \<Rightarrow> (Inl (Error400 (''multipart field '' @ [CHR 0x27] @ ''file'' @ [CHR 0x27] @ '' is required'')), db)
      | Some data \<Rightarrow>
          (case ImportGeocodes upper lower f time (csvRows data) mode db of
             (Inl (GeoMode _), db) \<Rightarrow> (Inl (Http 400 ErrorText), db)
           | (Inl _, db) \<Rightarrow> (Inl (Error500 ''geocode import failed''), db)
           | (Inr result, db) \<Rightarrow> (Inr result, db)))"

definition exportGeocodes :: "fault \<Rightarrow> string \<Rightarrow> string \<Rightarrow> string \<Rightarrow> InventoryDB \<Rightarrow> http_error + geocodeExportOutput" where
  "exportGeocodes f format codeType code db =
     (if format \<noteq> [] \<and> format \<noteq> ''csv'' then Inl (Error400 ''only format=csv is supported'')
      else case ExportEntries f \<lparr>gf_CodeType = codeType, gf_Code = code, gf_CellID = None, gf_Limit = 0, gf_Offset = 0\<rparr> db of
          Inl _ \<Rightarrow> Inl (Error500 ''export failed'')
        | Inr rows \<Rightarrow> Inr \<lparr>gxo_ContentType = ''text/csv'',
            gxo_ContentDisposition = ''attachment; filename='' @ [CHR 0x22] @ ''cell-geocodes.csv'' @ [CHR 0x22], gxo_Body = rows\<rparr>)"

definition resolveGeocode :: "fault \<Rightarrow> string \<Rightarrow> string \<Rightarrow> InventoryDB \<Rightarrow> http_error + u32 list" where
  "resolveGeocode f codeType code db =
     (case ResolveCells f codeType code db of
        Inl _ \<Rightarrow> Inl (Error500 ''resolve failed'')
      | Inr cells \<Rightarrow> Inr cells)"

definition listGeoCodes :: "fault \<Rightarrow> InventoryDB \<Rightarrow> http_error + Code list" where
  "listGeoCodes f db =
     (case ListCodes f db of
        Inl _ \<Rightarrow> Inl (Error500 ''list geo codes failed'')
      | Inr codes \<Rightarrow> Inr codes)"

definition createGeoCode ::
    "(string \<Rightarrow> string) \<Rightarrow> fault \<Rightarrow> gotime \<Rightarrow> createGeoCodeBody \<Rightarrow> InventoryDB \<Rightarrow> (http_error + Code) \<times> InventoryDB" where
  "createGeoCode upper f time b db =
     (case CreateCode upper f time (cgc_Type b) (cgc_Code b) (cgc_Description b) db of
        (Inl GeoCodeRequired, db) \<Rightarrow> (Inl (Http 400 ErrorText), db)
      | (Inl _, db) \<Rightarrow> (Inl (Error500 ''create geo code failed''), db)
      | (Inr code, db) \<Rightarrow> (Inr code, db))"

definition deleteGeoCode :: "fault \<Rightarrow> int \<Rightarrow> InventoryDB \<Rightarrow> (http_error + unit) \<times> InventoryDB" where
  "deleteGeoCode f i db =
     (case DeleteCode f i db of
        (Inl e, db) \<Rightarrow> (Inl (if e = GeoCodeNotFound then Error404 ''geo code not found'' else Error500 ''delete geo code failed''), db)
      | (Inr _, db) \<Rightarrow> (Inr (), db))"

end
