(* ===== verification/Http_Requests.thy ===== *)
theory Http_Requests
  imports Http_Geocode
begin

text \<open>
  The cell inventory and geocode endpoints as one server: every request with what it may meet (the
  failures of the database, the clock, the drawn identifiers), its answer, and what it leaves in the
  tables.
\<close>

section \<open>Requests\<close>

record ApiEnv =
  ae_Geo :: GeoCodec
  ae_Csv :: CsvCodec
  ae_GeoRows :: "string \<Rightarrow> string + string list list"
  ae_Upper :: "string \<Rightarrow> string"
  ae_Lower :: "string \<Rightarrow> string"
  ae_Service :: InventoryService
  ae_DefaultMode :: ImportMode

datatype ApiRequest =
    ImportInventory ImportEnv string "(string \<times> string) option"
  | GetInventoryImport fault string
  | GetInventoryErrors fault fault string
  | ListInventory fault listCellsInput
  | GetInventoryCell fault int
  | ExportInventory fault fault gotime string string
  | CreateInventoryCell fault fault gotime createCellBody
  | DeleteInventoryCell fault fault int
  | PreviewSelection fault fault SelectionRequest
  | ListTags fault listGeocodesInput
  | CreateTag fault fault gotime createGeocodeBody
  | DeleteTag fault int
  | ImportTags fault gotime string "string option"
  | ExportTags fault string string string
  | ResolveTag fault string string
  | ListRegistry fault
  | CreateRegistered fault gotime createGeoCodeBody
  | DeleteRegistered fault int

datatype ApiReply =
    ImportReply inventoryImportView
  | ErrorsReply "ValidationError list"
  | CellsReply "LTECell list" int
  | CellReply LTECell
  | ExportReply exportOutput
  | SelectionReply SelectionResult
  | EntriesReply "Entry list" int
  | EntryReply Entry
  | GeoImportReply GeoImportResult
  | GeoExportReply geocodeExportOutput
  | EciReply "u32 list"
  | CodesReply "Code list"
  | CodeReply Code
  | NoContentReply

definition reply :: "('o \<Rightarrow> ApiReply) \<Rightarrow> http_error + 'o \<Rightarrow> http_error + ApiReply" where
  "reply k r = (case r of Inl e \<Rightarrow> Inl e | Inr v \<Rightarrow> Inr (k v))"

definition replyRead :: "('o \<Rightarrow> ApiReply) \<Rightarrow> InventoryDB \<Rightarrow> http_error + 'o \<Rightarrow> (http_error + ApiReply) \<times> InventoryDB" where
  "replyRead k db r = (reply k r, db)"

definition replyWrite :: "('o \<Rightarrow> ApiReply) \<Rightarrow> (http_error + 'o) \<times> InventoryDB \<Rightarrow> (http_error + ApiReply) \<times> InventoryDB" where
  "replyWrite k r = (reply k (fst r), snd r)"

fun serve :: "ApiEnv \<Rightarrow> ApiRequest \<Rightarrow> InventoryDB \<Rightarrow> (http_error + ApiReply) \<times> InventoryDB" where
  "serve env (ImportInventory ie mode file) db =
     replyWrite ImportReply (importCells (ae_Geo env) (ae_Csv env) (ae_Service env) (ae_DefaultMode env) ie mode file db)"
| "serve env (GetInventoryImport f i) db = replyRead ImportReply db (getImportHandler f i db)"
| "serve env (GetInventoryErrors f g i) db = replyRead ErrorsReply db (getImportErrors f g i db)"
| "serve env (ListInventory f i) db = replyRead (case_prod CellsReply) db (listCells f i db)"
| "serve env (GetInventoryCell f i) db = replyRead CellReply db (getCellHandler f i db)"
| "serve env (ExportInventory f g t format active) db = replyRead ExportReply db (exportCells f g t format active db)"
| "serve env (CreateInventoryCell f g t b) db = replyWrite CellReply (createCell (ae_Geo env) f g t b db)"
| "serve env (DeleteInventoryCell f g i) db = replyWrite (\<lambda>_. NoContentReply) (deleteCell f g i db)"
| "serve env (PreviewSelection f g q) db = replyRead SelectionReply db (selectionPreview (ae_Geo env) f g q db)"
| "serve env (ListTags f i) db = replyRead (case_prod EntriesReply) db (listGeocodes f i db)"
| "serve env (CreateTag f g t b) db = replyWrite EntryReply (createGeocode f g t b db)"
| "serve env (DeleteTag f i) db = replyWrite (\<lambda>_. NoContentReply) (deleteGeocode f i db)"
| "serve env (ImportTags f t mode file) db =
     replyWrite GeoImportReply (importGeocodes (ae_Upper env) (ae_Lower env) (ae_GeoRows env) (ae_DefaultMode env) f t mode file db)"
| "serve env (ExportTags f format ct code) db = replyRead GeoExportReply db (exportGeocodes f format ct code db)"
| "serve env (ResolveTag f ct code) db = replyRead EciReply db (resolveGeocode f ct code db)"
| "serve env (ListRegistry f) db = replyRead CodesReply db (listGeoCodes f db)"
| "serve env (CreateRegistered f t b) db = replyWrite CodeReply (createGeoCode (ae_Upper env) f t b db)"
| "serve env (DeleteRegistered f i) db = replyWrite (\<lambda>_. NoContentReply) (deleteGeoCode f i db)"

lemma reply_Inl: "reply k r = Inl e \<longleftrightarrow> r = Inl e"
  by (auto simp: reply_def split: sum.splits)

lemma replyWrite_Inl: "replyWrite k r = (Inl e, db) \<longleftrightarrow> r = (Inl e, db)"
  by (cases r) (auto simp: replyWrite_def reply_Inl)

lemma replyWrite_db: "snd (replyWrite k r) = snd r"
  by (simp add: replyWrite_def)

lemma replyRead_db: "snd (replyRead k db r) = db"
  by (simp add: replyRead_def)

section \<open>Errors of the client\<close>

lemma Import_early:
  assumes "Import gj cc svc env filename data mode db = (Inl e, db')" "(\<exists>m. e = InvalidImportMode m) \<or> e = UploadTooLarge"
  shows "db' = db"
proof (rule ccontr)
  assume "db' \<noteq> db"
  then show False
    using assms by (auto simp: Import_def Let_def wrapErr_def split: if_splits sum.splits prod.splits)
qed

lemma importCells_client:
  assumes "importCells gj cc svc dm env mode file db = (Inl e, db')" "statusOf e < 500"
  shows "db' = db"
proof (cases "file")
  case None
  then show ?thesis using assms(1) by (simp add: importCells_def)
next
  case (Some p)
  obtain n d where p: "p = (n, d)" by fastforce
  obtain r db1 where r: "Import gj cc svc env n d (if mode = [] then dm else mode) db = (r, db1)" by fastforce
  have "db' = db1" and "\<exists>x. r = Inl x \<and> ((\<exists>m. x = InvalidImportMode m) \<or> x = UploadTooLarge)"
    using assms Some p r by (auto simp: importCells_def Let_def split: sum.splits import_error.splits option.splits)
  then show ?thesis using Import_early r by blast
qed

lemma filter_all: "length (filter P xs) = 0 \<Longrightarrow> filter (\<lambda>x. \<not> P x) xs = xs"
  by (auto simp: filter_empty_conv filter_id_conv)

lemma deleteCell_client: "deleteCell f g i db = (Inl e, db') \<Longrightarrow> db' = db"
  using filter_all [of "\<lambda>r. cl_id r = i" "iv_cells db"]
  by (auto simp: deleteCell_def DeleteCell_def deleteCellRow_def countGeocodes_def driver_def
      split: sum.splits inventory_error.splits prod.splits if_splits option.splits)

lemma deleteGeocode_client: "deleteGeocode f i db = (Inl e, db') \<Longrightarrow> db' = db"
  using filter_all [of "\<lambda>r. gr_id r = i" "iv_geocodes db"]
  by (auto simp: deleteGeocode_def DeleteEntry_def geoDriver_def split: sum.splits prod.splits if_splits option.splits)

lemma deleteGeoCode_client: "deleteGeoCode f i db = (Inl e, db') \<Longrightarrow> db' = db"
  using filter_all [of "\<lambda>r. cr_id r = i" "iv_codes db"]
  by (auto simp: deleteGeoCode_def DeleteCode_def geoDriver_def split: sum.splits prod.splits if_splits option.splits)

lemma createCell_client:
  assumes "createCell gj f g t b db = (Inl e, db')" "statusOf e < 500"
  shows "db' = db"
proof -
  have get: "GetCell g i db1 = Inl x \<Longrightarrow> x \<noteq> CellAlreadyExists" for i db1 x
    by (auto simp: GetCell_def scanCell_def driver_def andThen_def split: option.splits sum.splits)
  obtain c errs where v: "validateNewCell gj (createInput b) = (c, errs)" by fastforce
  show ?thesis
  proof (cases "errs = []")
    case False
    then show ?thesis using assms(1) v by (simp add: createCell_def CreateCellService_def)
  next
    case True
    obtain r db1 where r: "CreateCell f g t c db = (r, db1)" by fastforce
    have "r = Inl CellAlreadyExists" "db' = db1"
      using assms v True r by (auto simp: createCell_def CreateCellService_def wrapErr_def
          split: sum.splits create_error.splits inventory_error.splits option.splits)
    then show ?thesis using r get
      by (auto simp: CreateCell_def Let_def driver_def failIf_def split: sum.splits option.splits if_splits)
  qed
qed

lemma createGeocode_client: "createGeocode f g t b db = (Inl e, db') \<Longrightarrow> db' = db"
  by (auto simp: createGeocode_def split: sum.splits geocode_error.splits prod.splits)

lemma importGeocodes_client: "importGeocodes up lo rows dm f t mode file db = (Inl e, db') \<Longrightarrow> db' = db"
  by (auto simp: importGeocodes_def ImportGeocodes_def Let_def split: option.splits sum.splits geocode_error.splits prod.splits if_splits)

lemma createGeoCode_client: "createGeoCode up f t b db = (Inl e, db') \<Longrightarrow> db' = db"
  by (auto simp: createGeoCode_def CreateCode_def Let_def split: sum.splits geocode_error.splits prod.splits if_splits)

lemmas client_facts = importCells_client deleteCell_client deleteGeocode_client deleteGeoCode_client createCell_client
  createGeocode_client importGeocodes_client createGeoCode_client

lemma serve_client:
  assumes "serve env q db = (Inl e, db')" "statusOf e < 500"
  shows "db' = db"
  using assms client_facts
  by (cases q) (auto simp: replyWrite_Inl replyRead_def reply_Inl)

text \<open>The requests that read.\<close>

fun reads :: "ApiRequest \<Rightarrow> bool" where
  "reads (ImportInventory _ _ _) = False"
| "reads (CreateInventoryCell _ _ _ _) = False"
| "reads (DeleteInventoryCell _ _ _) = False"
| "reads (CreateTag _ _ _ _) = False"
| "reads (DeleteTag _ _) = False"
| "reads (ImportTags _ _ _ _) = False"
| "reads (CreateRegistered _ _ _) = False"
| "reads (DeleteRegistered _ _) = False"
| "reads _ = True"

lemma serve_reads: "reads q \<Longrightarrow> snd (serve env q db) = db"
  by (cases q) (simp_all add: replyRead_db)

section \<open>The invariant of the server\<close>

text \<open>Clocks whose time stamps can be read back.\<close>

fun timely :: "ApiRequest \<Rightarrow> bool" where
  "timely (ImportInventory ie _ _) = stampable (ie_Applied ie)"
| "timely (CreateInventoryCell _ _ t _) = stampable t"
| "timely _ = True"

lemma serve_request:
  assumes "timely q"
  shows "snd (serve env q db) = db \<or> inventoryRequest (ae_Geo env) db (snd (serve env q db))"
proof (cases q)
  case (ImportInventory ie mode upload)
  show ?thesis
  proof (cases upload)
    case None
    then show ?thesis by (simp add: ImportInventory replyWrite_db importCells_def)
  next
    case (Some p)
    obtain n d where p: "p = (n, d)" by fastforce
    obtain r db1 where r: "Import (ae_Geo env) (ae_Csv env) (ae_Service env) ie n d (if mode = [] then ae_DefaultMode env else mode) db = (r, db1)"
      by fastforce
    then have "snd (serve env q db) = db1"
      using Some p by (auto simp: ImportInventory replyWrite_db importCells_def Let_def split: sum.splits import_error.splits option.splits)
    moreover have "inventoryRequest (ae_Geo env) db db1"
      using assms r by (auto simp: ImportInventory intro: inventoryRequest.upload)
    ultimately show ?thesis by simp
  qed
next
  case (CreateInventoryCell f g t b)
  obtain r db1 where r: "CreateCellService (ae_Geo env) f g t (createInput b) db = (r, db1)" by fastforce
  then have "snd (serve env q db) = db1"
    by (auto simp: CreateInventoryCell replyWrite_db createCell_def split: sum.splits create_error.splits inventory_error.splits option.splits)
  moreover have "inventoryRequest (ae_Geo env) db db1"
    using assms r by (auto simp: CreateInventoryCell intro: inventoryRequest.create)
  ultimately show ?thesis by simp
next
  case (DeleteInventoryCell f g i)
  obtain r db1 where r: "DeleteCell f g i db = (r, db1)" by fastforce
  then have "snd (serve env q db) = db1"
    by (auto simp: DeleteInventoryCell replyWrite_db deleteCell_def split: sum.splits inventory_error.splits)
  then show ?thesis using inventoryRequest.delete [OF r] by simp
next
  case (CreateTag f g t b)
  let ?plmn = "\<lparr>plmn_MCC = cgb_MCC b, plmn_MNC = cgb_MNC b, plmn_MNCLength = cgb_MNCLength b\<rparr>"
  show ?thesis
  proof (cases "CreateEntry f g t ?plmn (cgb_ECI b) (cgb_CodeType b) (cgb_Code b) db")
    case (Inl e)
    then show ?thesis by (cases e) (simp_all add: CreateTag replyWrite_db createGeocode_def)
  next
    case (Inr p)
    obtain e db1 where p: "p = (e, db1)" by fastforce
    then have "snd (serve env q db) = db1" using Inr by (simp add: CreateTag replyWrite_db createGeocode_def)
    then show ?thesis using inventoryRequest.tag [OF Inr [unfolded p]] by simp
  qed
next
  case (DeleteTag f i)
  obtain r db1 where r: "DeleteEntry f i db = (r, db1)" by fastforce
  then have "snd (serve env q db) = db1" by (cases r) (simp_all add: DeleteTag replyWrite_db deleteGeocode_def)
  then show ?thesis using inventoryRequest.untag [OF r] by simp
next
  case (ImportTags f t mode upload)
  show ?thesis
  proof (cases upload)
    case None
    then show ?thesis by (simp add: ImportTags replyWrite_db importGeocodes_def)
  next
    case (Some d)
    obtain r db1 where r: "ImportGeocodes (ae_Upper env) (ae_Lower env) f t (ae_GeoRows env d)
        (if mode = [] then ae_DefaultMode env else mode) db = (r, db1)" by fastforce
    then have "snd (serve env q db) = db1"
      using Some by (auto simp: ImportTags replyWrite_db importGeocodes_def Let_def split: sum.splits geocode_error.splits)
    then show ?thesis using inventoryRequest.upload_geocodes [OF r] by simp
  qed
next
  case (CreateRegistered f t b)
  obtain r db1 where r: "CreateCode (ae_Upper env) f t (cgc_Type b) (cgc_Code b) (cgc_Description b) db = (r, db1)" by fastforce
  then have "snd (serve env q db) = db1"
    by (auto simp: CreateRegistered replyWrite_db createGeoCode_def split: sum.splits geocode_error.splits)
  then show ?thesis using inventoryRequest.register [OF r] by simp
next
  case (DeleteRegistered f i)
  obtain r db1 where r: "DeleteCode f i db = (r, db1)" by fastforce
  then have "snd (serve env q db) = db1" by (cases r) (simp_all add: DeleteRegistered replyWrite_db deleteGeoCode_def)
  then show ?thesis using inventoryRequest.unregister [OF r] by simp
qed (simp_all add: replyRead_db)

definition serveAll :: "ApiEnv \<Rightarrow> ApiRequest list \<Rightarrow> InventoryDB \<Rightarrow> InventoryDB" where
  "serveAll env qs db = foldl (\<lambda>db q. snd (serve env q db)) db qs"

lemma serveAll_reachable:
  assumes "list_all timely qs"
  shows "(\<lambda>a b. inventoryRequest (ae_Geo env) a b \<or> inventoryStep (ae_Geo env) a b)\<^sup>*\<^sup>* db (serveAll env qs db)"
  using assms
proof (induction qs arbitrary: db)
  case (Cons q qs)
  let ?R = "\<lambda>a b. inventoryRequest (ae_Geo env) a b \<or> inventoryStep (ae_Geo env) a b"
  have "?R\<^sup>*\<^sup>* db (snd (serve env q db))" using serve_request [of q env db] Cons.prems by auto
  moreover have "?R\<^sup>*\<^sup>* (snd (serve env q db)) (serveAll env qs (snd (serve env q db)))" using Cons by simp
  ultimately show ?case by (simp add: serveAll_def)
qed (simp add: serveAll_def)

section \<open>No handler panics\<close>

lemma GetImport_None: "GetImport f i db = Inr None \<Longrightarrow> i \<notin> ir_id ` set (iv_imports db)"
  by (auto simp: GetImport_def driver_Inr andThen_def find_None_iff split: option.splits sum.splits)

lemma Import_found:
  assumes "goodCodec gj" "Import gj cc svc env filename data mode db = (Inr r, db')"
  shows "r \<noteq> None"
proof -
  define input where "input = limited svc data"
  define result where "result = importResult gj cc input"
  let ?imp = "importRecord cc env filename input mode result"
  let ?fatal = "pr_Errors result \<noteq> []"
  note d = assms(2) [unfolded Import_def Let_def, folded input_def, folded result_def]
  obtain db1 where db1: "CreateImport (ie_Create env) ?imp db = Inr db1"
    using d by (auto split: if_splits sum.splits)
  then have i1: "ie_ID env \<in> ir_id ` set (iv_imports db1)"
    using CreateImport_result [OF db1] by (auto simp: importRecord_def Let_def)
  let ?m = "if ?fatal then StoreImportErrors (ie_Errors env) (ie_ID env) (pr_Errors result) db1 else Inr db1"
  obtain db2 where db2: "?m = Inr db2" using d db1 by (auto split: if_splits sum.splits)
  then have i2: "ie_ID env \<in> ir_id ` set (iv_imports db2)"
    using i1 by (auto split: if_splits dest!: StoreImportErrors_result)
  have "GetImport (ie_Get env) (ie_ID env) db' = Inr r" and i3: "ie_ID env \<in> ir_id ` set (iv_imports db')"
  proof -
    note d = d [unfolded db1 sum.case db2]
    have "GetImport (ie_Get env) (ie_ID env) db' = Inr r \<and> ie_ID env \<in> ir_id ` set (iv_imports db')"
    proof (cases "mode = ValidateOnly \<or> ?fatal")
      case True
      then show ?thesis using d i2 by (auto simp: wrapErr_def split: if_splits sum.splits)
    next
      case False
      note d = d [unfolded if_not_P [OF False]]
      obtain out db3 where a: "ApplyImport (ie_Apply env) (ie_Applied env) (ie_Version env)
          (applyInput cc env filename input mode result) db2 = Inr (out, db3)"
        using d by (auto split: if_splits sum.splits)
      have "distinct (map ecgiOf (ai_Cells (applyInput cc env filename input mode result)))"
        using csvKey_ecgiOf result_valid [OF assms(1) result_def] by (simp add: applyInput_def)
      note u = ApplyImport_untouched [OF a this]
      have "ir_id ` set (iv_imports db3) = ir_id ` set (iv_imports db2)" unfolding u by (rule key_image) simp
      then have "ie_ID env \<in> ir_id ` set (iv_imports db3)" using i2 by simp
      then show ?thesis using d a by (auto simp: wrapErr_def split: if_splits sum.splits)
    qed
    then show "GetImport (ie_Get env) (ie_ID env) db' = Inr r" "ie_ID env \<in> ir_id ` set (iv_imports db')" by blast+
  qed
  then show ?thesis using GetImport_None [of "ie_Get env" "ie_ID env" db'] by (cases r) auto
qed

lemma CreateCell_found: "CreateCell f g t c db = (Inr r, db') \<Longrightarrow> r \<noteq> None"
  by (auto simp: CreateCell_def GetCell_def driver_def failIf_def andThen_def find_None_iff Let_def cellRow_def
      split: sum.splits option.splits if_splits)

lemma CreateCellService_found: "CreateCellService gj f g t i db = (Inr r, db') \<Longrightarrow> r \<noteq> None"
  by (auto simp: CreateCellService_def wrapErr_def dest: CreateCell_found split: prod.splits sum.splits if_splits)

lemma serve_no_panic:
  assumes "goodCodec (ae_Geo env)"
  shows "fst (serve env q db) \<noteq> Inl HandlerPanic"
proof
  assume "fst (serve env q db) = Inl HandlerPanic"
  then obtain db' where p: "serve env q db = (Inl HandlerPanic, db')" by (cases "serve env q db") simp
  show False
  proof (cases q)
    case (ImportInventory ie mode upload)
    then have i: "importCells (ae_Geo env) (ae_Csv env) (ae_Service env) (ae_DefaultMode env) ie mode upload db = (Inl HandlerPanic, db')"
      using p by (simp add: replyWrite_Inl)
    then obtain n d where u: "upload = Some (n, d)" by (cases upload) (auto simp: importCells_def Error400_def)
    obtain r db1 where r: "Import (ae_Geo env) (ae_Csv env) (ae_Service env) ie n d (if mode = [] then ae_DefaultMode env else mode) db = (r, db1)"
      by fastforce
    then have "r = Inr None"
      using i u by (auto simp: importCells_def Let_def Error413_def Error500_def split: sum.splits import_error.splits option.splits)
    then show ?thesis using Import_found [OF assms] r by blast
  next
    case (CreateInventoryCell f g t b)
    then have i: "createCell (ae_Geo env) f g t b db = (Inl HandlerPanic, db')" using p by (simp add: replyWrite_Inl)
    obtain r db1 where r: "CreateCellService (ae_Geo env) f g t (createInput b) db = (r, db1)" by fastforce
    then have "r = Inr None"
      using i by (auto simp: createCell_def Error500_def split: sum.splits create_error.splits inventory_error.splits option.splits)
    then show ?thesis using CreateCellService_found r by blast
  qed (use p in \<open>auto simp: replyWrite_Inl replyRead_def reply_Inl getImportHandler_def getImportErrors_def listCells_def
      getCellHandler_def exportCells_def deleteCell_def selectionPreview_def listGeocodes_def createGeocode_def
      deleteGeocode_def importGeocodes_def exportGeocodes_def resolveGeocode_def listGeoCodes_def createGeoCode_def deleteGeoCode_def
      Error400_def Error404_def Error413_def Error500_def Let_def
      split: sum.splits option.splits prod.splits if_splits inventory_error.splits geocode_error.splits\<close>)
qed

section \<open>The life of a cell and of a tag\<close>

lemma createCell_stored:
  assumes "goodCodec gj" "inventoryOK gj db" "stampable t" "createCell gj f g t b db = (Inr c, db')"
  defines "now \<equiv> formatRFC3339Nano (UTC t)"
  obtains c0 where "validateNewCell gj (createInput b) = (c0, [])" "ecgiOf c0 \<notin> rowKey ` set (iv_cells db)"
    "db' = db\<lparr>iv_cells := iv_cells db @ [cellRow (iv_cellSeq db + 1) now c0], iv_cellSeq := iv_cellSeq db + 1\<rparr>"
    "find (\<lambda>r. cl_id r = iv_cellSeq db + 1) (iv_cells db') = Some (cellRow (iv_cellSeq db + 1) now c0)"
    "scanCell (cellRow (iv_cellSeq db + 1) now c0) = Inr c"
proof -
  obtain c0 errs where v: "validateNewCell gj (createInput b) = (c0, errs)" by fastforce
  obtain r db1 where r: "CreateCell f g t c0 db = (r, db1)" by fastforce
  have e: "errs = []" and k: "r = Inr (Some c)" "db1 = db'"
    using assms(4) v r by (auto simp: createCell_def CreateCellService_def wrapErr_def
        split: if_splits sum.splits create_error.splits inventory_error.splits option.splits)
  let ?row = "cellRow (iv_cellSeq db + 1) now c0"
  have d: "db' = db\<lparr>iv_cells := iv_cells db @ [?row], iv_cellSeq := iv_cellSeq db + 1\<rparr>"
    and n: "ecgiOf c0 \<notin> rowKey ` set (iv_cells db)" and get: "GetCell g (iv_cellSeq db + 1) db' = Inr (Some c)"
    using r k by (auto simp: CreateCell_def Let_def driver_def failIf_def now_def split: sum.splits option.splits if_splits)
  have "\<forall>x \<in> set (iv_cells db). cl_id x \<noteq> iv_cellSeq db + 1"
    using assms(2) by (auto simp: inventoryOK_def inventoryCells_def tableOK_def)
  then have f: "find (\<lambda>r. cl_id r = iv_cellSeq db + 1) (iv_cells db') = Some ?row"
    unfolding d by (simp add: find_last cellRow_def)
  moreover have "scanCell ?row = Inr c"
    using get f by (auto simp: GetCell_def driver_Inr andThen_eq_Inr)
  ultimately show thesis using that v e d n by blast
qed

lemma scanCell_fields: "scanCell (cellRow i now c0) = Inr c \<Longrightarrow> c_ID c = i \<and> c_PLMN c = c_PLMN c0 \<and> c_ECI c = c_ECI c0 \<and>
    c_TAC c = c_TAC c0 \<and> c_Active c = c_Active c0 \<and> c_MMEName c = c_MMEName c0"
  by (auto simp: scanCell_def cellRow_def split: option.splits)

lemma cell_life:
  assumes "goodCodec gj" "inventoryOK gj db" "stampable t" "floatInput (createInput b)" "createCell gj f g t b db = (Inr c, db')"
  shows "c_ID c \<notin> cl_id ` set (iv_cells db) \<and> getCellHandler None (c_ID c) db' = Inr c \<and>
    c_PLMN c = in_PLMN (createInput b) \<and> c_ECI c = enteredECI (createInput b) \<and> c_TAC c = ccb_TAC b \<and>
    c_MMEName c = ccb_MMEName b \<and> c_Active c = ccb_Active b \<and>
    createCell gj None g' t' b db' = (Inl (Http 409 ErrorText), db') \<and>
    deleteCell None None (c_ID c) db' = (Inr (), db\<lparr>iv_cellSeq := iv_cellSeq db + 1\<rparr>)"
proof -
  obtain c0 where c0: "validateNewCell gj (createInput b) = (c0, [])" "ecgiOf c0 \<notin> rowKey ` set (iv_cells db)"
    "db' = db\<lparr>iv_cells := iv_cells db @ [cellRow (iv_cellSeq db + 1) (formatRFC3339Nano (UTC t)) c0], iv_cellSeq := iv_cellSeq db + 1\<rparr>"
    "find (\<lambda>r. cl_id r = iv_cellSeq db + 1) (iv_cells db') = Some (cellRow (iv_cellSeq db + 1) (formatRFC3339Nano (UTC t)) c0)"
    "scanCell (cellRow (iv_cellSeq db + 1) (formatRFC3339Nano (UTC t)) c0) = Inr c"
    by (rule createCell_stored [OF assms(1-3,5)])
  note sf = scanCell_fields [OF c0(5)]
  have cl: "c_PLMN c0 = in_PLMN (createInput b) \<and> c_ECI c0 = enteredECI (createInput b) \<and> c_TAC c0 = in_TAC (createInput b) \<and>
      c_MMEName c0 = in_MMEName (createInput b) \<and> c_Active c0 = in_Active (createInput b)"
    using created_lemma [OF assms(1,4) c0(1)] by blast
  have ids: "\<forall>x \<in> set (iv_cells db). cl_id x \<noteq> iv_cellSeq db + 1"
    using assms(2) by (auto simp: inventoryOK_def inventoryCells_def tableOK_def)
  have geo: "\<forall>x \<in> set (iv_geocodes db). gr_cell x \<noteq> iv_cellSeq db + 1"
    using assms(2) ids by (force simp: inventoryOK_def geocodesOK_def)
  have A: "c_ID c \<notin> cl_id ` set (iv_cells db)" using ids sf by auto
  have B: "getCellHandler None (c_ID c) db' = Inr c"
    using c0(4,5) sf by (simp add: getCellHandler_def GetCell_def andThen_def)
  have "ecgiOf c0 \<in> rowKey ` set (iv_cells db')" by (simp add: c0(3) rowKey_def cellRow_def)
  then have C: "createCell gj None g' t' b db' = (Inl (Http 409 ErrorText), db')"
    using c0(1) by (simp add: createCell_def CreateCellService_def CreateCell_def wrapErr_def failIf_def)
  have "filter (\<lambda>g. gr_cell g = c_ID c) (iv_geocodes db') = []" using geo sf by (simp add: c0(3) filter_empty_conv)
  moreover have "filter (\<lambda>r. cl_id r \<noteq> c_ID c) (iv_cells db') = iv_cells db"
    using ids sf by (simp add: c0(3) cellRow_def filter_id_conv)
  moreover have "filter (\<lambda>r. cl_id r = c_ID c) (iv_cells db') \<noteq> []"
    using sf by (auto simp: c0(3) cellRow_def filter_empty_conv)
  ultimately have D: "deleteCell None None (c_ID c) db' = (Inr (), db\<lparr>iv_cellSeq := iv_cellSeq db + 1\<rparr>)"
    by (simp add: deleteCell_def DeleteCell_def countGeocodes_def deleteCellRow_def) (simp add: c0(3))
  show ?thesis using A B C D cl sf by (simp add: createInput_def)
qed

lemma filter_ident: "distinct (map ident rows) \<Longrightarrow> r \<in> set rows \<Longrightarrow> filter (\<lambda>x. ident x = ident r) rows = [r]"
  by (induction rows) (auto simp: filter_empty_conv image_iff)

text \<open>Tagging a cell: the new tag is the last row of its table.\<close>

lemma tag_life:
  assumes "inventoryOK gj db" "createGeocode f g t b db = (Inr e, db')"
  shows "\<exists>r \<in> set (iv_cells db). rowKey r = (\<lparr>plmn_MCC = cgb_MCC b, plmn_MNC = cgb_MNC b, plmn_MNCLength = cgb_MNCLength b\<rparr>, cgb_ECI b) \<and>
    e_CellID e = cl_id r \<and>
    resolveGeocode None (cgb_CodeType b) (cgb_Code b) db' =
      Inr (projr (resolveGeocode None (cgb_CodeType b) (cgb_Code b) db) @ (if cl_active r then [cgb_ECI b] else [])) \<and>
    createGeocode None None t' b db' = (Inl (Error500 ''create geocode failed''), db') \<and>
    deleteGeocode None (e_ID e) db' = (Inr (), db\<lparr>iv_geoSeq := iv_geoSeq db + 1\<rparr>)"
proof -
  let ?plmn = "\<lparr>plmn_MCC = cgb_MCC b, plmn_MNC = cgb_MNC b, plmn_MNCLength = cgb_MNCLength b\<rparr>"
  have c: "CreateEntry f g t ?plmn (cgb_ECI b) (cgb_CodeType b) (cgb_Code b) db = Inr (e, db')"
    using assms(2) by (auto simp: createGeocode_def split: sum.splits geocode_error.splits prod.splits)
  then obtain i where l: "lookupCellID f ?plmn (cgb_ECI b) db = Inr i"
    and n: "(i, cgb_CodeType b, cgb_Code b) \<notin> set (map geoTriple (iv_geocodes db))"
    and d: "db' = db\<lparr>iv_geocodes := iv_geocodes db @ [\<lparr>gr_id = iv_geoSeq db + 1, gr_cell = i, gr_type = cgb_CodeType b,
        gr_code = cgb_Code b, gr_created = formatRFC3339Nano (UTC t)\<rparr>], iv_geoSeq := iv_geoSeq db + 1\<rparr>"
    and e: "e_ID e = iv_geoSeq db + 1" "e_CellID e = i"
    by (auto simp: CreateEntry_def insertEntry_def andThen_eq_Inr geoDriver_Inr Let_def)
  from l obtain r where r: "find (\<lambda>r. rowKey r = (?plmn, cgb_ECI b)) (iv_cells db) = Some r" "i = cl_id r"
    by (auto simp: lookupCellID_def geoDriver_Inr split: option.splits)
  then have r': "r \<in> set (iv_cells db)" "rowKey r = (?plmn, cgb_ECI b)" by (auto simp: find_Some_iff)
  have cells: "inventoryCells db" using assms(1) by (simp add: inventoryOK_def)
  have one: "filter (\<lambda>c. cl_id c = i) (iv_cells db) = [r]"
    unfolding r(2) by (rule filter_ident [OF _ r'(1)]) (use cells in \<open>simp add: inventoryCells_def tableOK_def\<close>)
  let ?g = "\<lparr>gr_id = iv_geoSeq db + 1, gr_cell = i, gr_type = cgb_CodeType b, gr_code = cgb_Code b, gr_created = formatRFC3339Nano (UTC t)\<rparr>"
  have j: "joined db' = joined db @ [(?g, r)]" by (simp add: joined_def d one)
  have eci: "cl_eci r = cgb_ECI b" using r'(2) by (simp add: rowKey_def)
  have R: "resolveGeocode None (cgb_CodeType b) (cgb_Code b) db' =
      Inr (projr (resolveGeocode None (cgb_CodeType b) (cgb_Code b) db) @ (if cl_active r then [cgb_ECI b] else []))"
    by (simp add: resolveGeocode_def ResolveCells_def j eci)
  have l': "lookupCellID None ?plmn (cgb_ECI b) db' = Inr i"
    using r by (simp add: lookupCellID_def d)
  have D: "createGeocode None None t' b db' = (Inl (Error500 ''create geocode failed''), db')"
    by (simp add: createGeocode_def CreateEntry_def l' insertEntry_def failIf_def andThen_def Let_def) (simp add: d geoTriple_def)
  have ids: "\<forall>x \<in> set (iv_geocodes db). gr_id x \<noteq> iv_geoSeq db + 1"
    using assms(1) by (auto simp: inventoryOK_def geocodesOK_def tableOK_def)
  have "filter (\<lambda>x. gr_id x \<noteq> iv_geoSeq db + 1) (iv_geocodes db') = iv_geocodes db" using ids by (simp add: d filter_id_conv)
  moreover have "filter (\<lambda>x. gr_id x = iv_geoSeq db + 1) (iv_geocodes db') \<noteq> []" by (simp add: d)
  ultimately have E: "deleteGeocode None (e_ID e) db' = (Inr (), db\<lparr>iv_geoSeq := iv_geoSeq db + 1\<rparr>)"
    by (simp add: deleteGeocode_def DeleteEntry_def e) (simp add: d)
  show ?thesis using r' r(2) e R D E by blast
qed

section \<open>The limit on uploads\<close>

text \<open>
  The file of a form is part of the body, and the body is cut off at the limit that \<open>Import\<close> compares the
  file with: the answer 413 is never given.
\<close>

lemma upload_never_413:
  assumes "\<And>s. cc_used cc s \<le> length s"
    and "limitImportBody (svc_maxImportSize svc) ''POST'' ''/v1/cell-inventory/imports'' = Some m" "int (length data) \<le> m"
  shows "importCells gj cc svc dm env mode (Some (filename, data)) db \<noteq> (Inl (Error413 x), db')"
proof
  assume i: "importCells gj cc svc dm env mode (Some (filename, data)) db = (Inl (Error413 x), db')"
  have m: "m = svc_maxImportSize svc" using assms(2) by (simp add: limitImportBody_def split: if_splits)
  obtain r db1 where r: "Import gj cc svc env filename data (if mode = [] then dm else mode) db = (r, db1)" by fastforce
  then have "r = Inl UploadTooLarge"
    using i by (auto simp: importCells_def Let_def Error413_def Error500_def split: sum.splits import_error.splits option.splits)
  then have "int (cc_used cc (limited svc data)) > svc_maxImportSize svc"
    using r by (auto simp: Import_def Let_def wrapErr_def split: if_splits sum.splits prod.splits)
  moreover have "cc_used cc (limited svc data) \<le> length data"
    using assms(1) [of "limited svc data"] by (simp add: limited_def)
  ultimately show False using assms(3) m by simp
qed

section \<open>Properties\<close>

definition sampleApi :: ApiEnv where
  "sampleApi = \<lparr>ae_Geo = sampleCodec, ae_Csv = sampleCsv, ae_GeoRows = (\<lambda>_. Inl []), ae_Upper = id, ae_Lower = id,
     ae_Service = NewInventoryService 0, ae_DefaultMode = Merge\<rparr>"

definition sampleBody :: createCellBody where
  "sampleBody = \<lparr>ccb_MCC = ''311'', ccb_MNC = ''435'', ccb_MNCLength = 3, ccb_ENBID = 1, ccb_LocalCellID = 3, ccb_TAC = 7,
     ccb_CellName = [], ccb_MMEName = ''mme2'', ccb_Latitude = Some (Finite 21), ccb_Longitude = Some (Finite 11),
     ccb_NominalRadiusM = None, ccb_AzimuthDeg = None, ccb_BeamwidthDeg = None, ccb_CoverageGeoJSON = [],
     ccb_GeometryQuality = ''site_point'', ccb_Source = [], ccb_SourceRecordID = [], ccb_SourceVersion = [], ccb_Active = True\<rparr>"

definition sampleTag :: createGeocodeBody where
  "sampleTag = \<lparr>cgb_MCC = ''311'', cgb_MNC = ''435'', cgb_MNCLength = 3, cgb_ECI = 259, cgb_CodeType = ''SAME'', cgb_Code = ''006037''\<rparr>"

lemma sampleBody_input: "createInput sampleBody = sampleInput"
  by (simp add: createInput_def sampleBody_def sampleInput_def)

lemma sample_stampable: "stampable (sampleTime 12 0)"
proof -
  have "utcTime (sampleTime 12 0)" by (rule sampleTime_utc) simp
  then show ?thesis using utc_textTime [of "sampleTime 12 0"] by (simp add: stampable_def parse_format UTC_id)
qed

lemma sampleCell_created:
  "\<exists>c db. createCell sampleCodec None None (sampleTime 12 0) sampleBody emptyInventory = (Inr c, db) \<and>
     iv_cells db = [cellRow 1 (formatRFC3339Nano (UTC (sampleTime 12 0))) (siteCell 1 3 11 21 ''mme2'')] \<and> iv_geocodes db = []"
proof -
  let ?row = "cellRow 1 (formatRFC3339Nano (UTC (sampleTime 12 0))) (siteCell 1 3 11 21 ''mme2'')"
  obtain u where u: "parseRFC3339 (formatRFC3339Nano (UTC (sampleTime 12 0))) = Some u" using sample_stampable by (auto simp: stampable_def)
  then obtain c where c: "scanCell ?row = Inr c" by (auto simp: scanCell_def cellRow_def)
  have i: "cl_id ?row = 1" by (simp add: cellRow_def)
  have "createCell sampleCodec None None (sampleTime 12 0) sampleBody emptyInventory =
      (Inr c, emptyInventory\<lparr>iv_cells := [?row], iv_cellSeq := 1\<rparr>)"
    by (simp add: createCell_def CreateCellService_def sampleBody_input sampleInput_valid CreateCell_def GetCell_def wrapErr_def
        failIf_def Let_def andThen_def emptyInventory_def i c)
  then show ?thesis by (simp add: emptyInventory_def)
qed

lemma sampleCell_ok:
  assumes "createCell sampleCodec None None (sampleTime 12 0) sampleBody emptyInventory = (r, db)"
  shows "inventoryOK sampleCodec db"
proof -
  have "snd (serve sampleApi (CreateInventoryCell None None (sampleTime 12 0) sampleBody) emptyInventory) = db"
    using assms by (simp add: replyWrite_db sampleApi_def)
  then have "serveAll sampleApi [CreateInventoryCell None None (sampleTime 12 0) sampleBody] emptyInventory = db"
    by (simp add: serveAll_def)
  moreover have "list_all timely [CreateInventoryCell None None (sampleTime 12 0) sampleBody]" by (simp add: sample_stampable)
  ultimately show ?thesis
    using reachable_inventoryOK [OF serveAll_reachable [of _ sampleApi emptyInventory]] sampleCodec_good by (auto simp: sampleApi_def)
qed

text \<open>C30: A request that the operator API refuses (any answer below 500: a bad parameter, an unknown or taken
  name, a cell that is still tagged, a file that is too large or of an unknown mode) leaves every table
  as it was, and so does every request that only reads, whatever it is answered. An error of the
  client never has an effect.\<close>

theorem refused_request_changes_nothing:
  assumes "serve env q db = (r, db')" "reads q \<or> (\<exists>e. r = Inl e \<and> statusOf e < 500)"
  shows "db' = db"
  using assms serve_client [of env q db _ db'] serve_reads [of q env db] by auto

theorem refused_request_changes_nothing_witness:
  "\<exists>e db'. serve sampleApi (DeleteInventoryCell None None 7) emptyInventory = (Inl e, db') \<and> statusOf e = 404 \<and> db' = emptyInventory"
proof -
  let ?r = "serve sampleApi (DeleteInventoryCell None None 7) emptyInventory"
  have e: "fst ?r = Inl (Error404 ''cell not found'')"
    by (simp add: replyWrite_def reply_def deleteCell_def DeleteCell_def countGeocodes_def deleteCellRow_def emptyInventory_def)
  then have r: "?r = (Inl (Error404 ''cell not found''), snd ?r)" by (metis prod.collapse)
  have "snd ?r = emptyInventory" by (rule refused_request_changes_nothing [OF r]) simp
  then show ?thesis using r statusOf_simps(2) by metis
qed



text \<open>C32: The life of a cell over the API. A cell that was created has a new identity and is served under it
  with the PLMN, ECI (eNB and local cell id), tracking area, MME and state that were asked for; creating
  it again is refused with 409 and changes nothing; and deleting it succeeds and gives back the
  inventory before it, except for the counter of identities, so no identity is used twice.\<close>

theorem cell_lifecycle:
  assumes "goodCodec gj" "inventoryOK gj db" "stampable t" "floatInput (createInput b)" "createCell gj f g t b db = (Inr c, db')"
  shows "c_ID c \<notin> cl_id ` set (iv_cells db) \<and> getCellHandler None (c_ID c) db' = Inr c \<and>
    c_PLMN c = in_PLMN (createInput b) \<and> c_ECI c = enteredECI (createInput b) \<and> c_TAC c = ccb_TAC b \<and>
    c_MMEName c = ccb_MMEName b \<and> c_Active c = ccb_Active b \<and>
    createCell gj None g' t' b db' = (Inl (Http 409 ErrorText), db') \<and>
    deleteCell None None (c_ID c) db' = (Inr (), db\<lparr>iv_cellSeq := iv_cellSeq db + 1\<rparr>)"
  by (rule cell_life [OF assms])

theorem cell_lifecycle_witness:
  "\<exists>c db. createCell sampleCodec None None (sampleTime 12 0) sampleBody emptyInventory = (Inr c, db) \<and>
     getCellHandler None (c_ID c) db = Inr c \<and> c_ECI c = 259"
proof -
  obtain c db where c: "createCell sampleCodec None None (sampleTime 12 0) sampleBody emptyInventory = (Inr c, db)"
    using sampleCell_created by blast
  have f: "floatInput (createInput sampleBody)" by (simp add: sampleBody_input floatInput_def sampleInput_def)
  from cell_lifecycle [OF sampleCodec_good inventoryOK_empty sample_stampable f c]
  show ?thesis using c by (auto simp: sampleBody_input enteredECI_def sampleInput_def)
qed

text \<open>C33: The life of a tag over the API. Tagging names a cell of the inventory by its PLMN and ECI; afterwards
  the code resolves to the cells it resolved to before and that cell, if it is active; tagging again
  changes nothing (though it is answered as a failure of the server, not as a conflict); and deleting
  the tag gives back the tables before it, except for the counter of identities.\<close>

theorem tag_lifecycle:
  assumes "inventoryOK gj db" "createGeocode f g t b db = (Inr e, db')"
  shows "\<exists>r \<in> set (iv_cells db). rowKey r = (\<lparr>plmn_MCC = cgb_MCC b, plmn_MNC = cgb_MNC b, plmn_MNCLength = cgb_MNCLength b\<rparr>, cgb_ECI b) \<and>
    e_CellID e = cl_id r \<and>
    resolveGeocode None (cgb_CodeType b) (cgb_Code b) db' =
      Inr (projr (resolveGeocode None (cgb_CodeType b) (cgb_Code b) db) @ (if cl_active r then [cgb_ECI b] else [])) \<and>
    createGeocode None None t' b db' = (Inl (Error500 ''create geocode failed''), db') \<and>
    deleteGeocode None (e_ID e) db' = (Inr (), db\<lparr>iv_geoSeq := iv_geoSeq db + 1\<rparr>)"
  by (rule tag_life [OF assms])

theorem tag_lifecycle_witness:
  "\<exists>c db e db'. createCell sampleCodec None None (sampleTime 12 0) sampleBody emptyInventory = (Inr c, db) \<and>
     createGeocode None None (sampleTime 12 0) sampleTag db = (Inr e, db') \<and>
     resolveGeocode None ''SAME'' ''006037'' db' = Inr [259]"
proof -
  obtain c db where c: "createCell sampleCodec None None (sampleTime 12 0) sampleBody emptyInventory = (Inr c, db)"
    and rows: "iv_cells db = [cellRow 1 (formatRFC3339Nano (UTC (sampleTime 12 0))) (siteCell 1 3 11 21 ''mme2'')]" "iv_geocodes db = []"
    using sampleCell_created by blast
  obtain e db' where e: "createGeocode None None (sampleTime 12 0) sampleTag db = (Inr e, db')"
    by (simp add: createGeocode_def sampleTag_def CreateEntry_def lookupCellID_def insertEntry_def andThen_def failIf_def Let_def
        rows rowKey_def cellRow_def siteCell_def zeroCell_def)
  have "cl_active r" if "r \<in> set (iv_cells db)" for r using that by (simp add: rows cellRow_def siteCell_def)
  moreover have "resolveGeocode None ''SAME'' ''006037'' db = Inr []"
    by (simp add: resolveGeocode_def ResolveCells_def joined_def rows)
  ultimately have "resolveGeocode None ''SAME'' ''006037'' db' = Inr [259]"
    using tag_lifecycle [OF sampleCell_ok [OF c] e] by (auto simp: sampleTag_def)
  then show ?thesis using c e by blast
qed

end
