(* ===== verification/Sbcap_Peer.thy ===== *)
theory Sbcap_Peer
  imports Delivery_Assoc
begin

text \<open>
  \<open>internal/sbcap/peer.go\<close>: one request and its answer on a connection, and how an association is dialled.
  The connection is what it does in this exchange: the errors of its deadlines, what a write and a read
  give. A read fills at most the buffer. The address resolution and the dialling of the SCTP library, and
  whether the context ends first, are arguments.
\<close>

section \<open>Exchange\<close>

record Conn =
  cn_WriteDeadline :: "string option"
  cn_Write :: "byte list \<Rightarrow> string + nat"
  cn_ReadDeadline :: "string option"
  cn_Read :: "nat \<Rightarrow> string + byte list"

datatype exchange_error =
    DeadlineFailed string
  | SendFailed int string
  | ShortWrite int nat nat
  | ReadResponse int string
  | BadResponse sbcap_error
  | WrongResponse int int int
  | CorrelationMismatch u16 u16 u16 u16

definition bufferSize :: nat where "bufferSize = 16 * 1024"

definition ExchangeFor :: "Conn \<Rightarrow> byte list \<Rightarrow> int \<Rightarrow> u16 \<Rightarrow> u16 \<Rightarrow> exchange_error + unit" where
  "ExchangeFor conn request procedure messageID serial =
     (case cn_WriteDeadline conn of Some e \<Rightarrow> Inl (DeadlineFailed e) | None \<Rightarrow>
     andThen (wrapErr (SendFailed procedure) (cn_Write conn request)) (\<lambda>n.
     failIf (n \<noteq> length request) (ShortWrite procedure n (length request)) (
     case cn_ReadDeadline conn of Some e \<Rightarrow> Inl (DeadlineFailed e) | None \<Rightarrow>
     andThen (wrapErr (ReadResponse procedure) (cn_Read conn bufferSize)) (\<lambda>buf.
     andThen (wrapErr BadResponse (Header buf)) (\<lambda>(outcome, gotProcedure).
     failIf (gotProcedure \<noteq> procedure \<or> outcome \<noteq> OutcomeSuccessful) (WrongResponse procedure outcome gotProcedure) (
     if messageID \<noteq> 0 \<or> serial \<noteq> 0 then
       andThen (wrapErr BadResponse (ResponseIDs buf procedure)) (\<lambda>(gotID, gotSerial).
       failIf (gotID \<noteq> messageID \<or> gotSerial \<noteq> serial) (CorrelationMismatch gotID messageID gotSerial serial) (Inr ()))
     else Inr ()))))))"

definition Exchange :: "Conn \<Rightarrow> byte list \<Rightarrow> int \<Rightarrow> exchange_error + unit" where
  "Exchange conn request procedure = ExchangeFor conn request procedure 0 0"

section \<open>Dialling\<close>

datatype dial_error =
    ResolvePeer string string
  | ResolveLocal string string
  | DialFailed string string
  | ContextEnded string

text \<open>\<open>net.JoinHostPort\<close>: a host with a colon is an IPv6 literal.\<close>

definition JoinHostPort :: "string \<Rightarrow> string \<Rightarrow> string" where
  "JoinHostPort host port = (if CHR '':'' \<in> set host then ''['' @ host @ '']:'' @ port else host @ '':'' @ port)"

text \<open>What \<open>select\<close> takes first: the result of the dialling goroutine, or the end of the context.\<close>

datatype 'c dialled = Done "string + 'c" | ContextDone string

fun dialResult :: "string \<Rightarrow> 'c dialled \<Rightarrow> dial_error + 'c" where
  "dialResult address (Done (Inl e)) = Inl (DialFailed address e)"
| "dialResult address (Done (Inr c)) = Inr c"
| "dialResult address (ContextDone e) = Inl (ContextEnded e)"

definition DialSCTP ::
    "(string \<Rightarrow> string + 'a) \<Rightarrow> ('a option \<Rightarrow> 'a \<Rightarrow> 'c dialled) \<Rightarrow> string \<Rightarrow> string \<Rightarrow> dial_error + 'c" where
  "DialSCTP resolve dial localAddress address =
     andThen (wrapErr (ResolvePeer address) (resolve address)) (\<lambda>raddr.
     andThen (if localAddress \<noteq> [] then
         andThen (wrapErr (ResolveLocal localAddress) (resolve (JoinHostPort localAddress ''0''))) (\<lambda>a. Inr (Some a))
       else Inr None) (\<lambda>laddr.
     dialResult address (dial laddr raddr)))"

section \<open>What a successful exchange means\<close>

text \<open>An exchange for a request succeeds exactly when an association would have accepted the answer.\<close>

lemma ExchangeFor_success:
  assumes "messageID \<noteq> 0 \<or> serial \<noteq> 0"
  shows "ExchangeFor conn request procedure messageID serial = Inr () \<longleftrightarrow>
    cn_WriteDeadline conn = None \<and> cn_Write conn request = Inr (length request) \<and> cn_ReadDeadline conn = None \<and>
    (\<exists>answer. cn_Read conn bufferSize = Inr answer \<and> ResponseIDs answer procedure = Inr (messageID, serial))"
  using assms ResponseIDs_Header
  by (auto simp: ExchangeFor_def andThen_eq_Inr failIf_def split: option.splits if_splits)

lemma dialResult_Inr: "dialResult address d = Inr c \<longleftrightarrow> d = Done (Inr c)"
  by (cases "(address, d)" rule: dialResult.cases) auto

lemma DialSCTP_success:
  "DialSCTP resolve dial loc address = Inr c \<longleftrightarrow>
     (\<exists>r l. resolve address = Inr r \<and> dial l r = Done (Inr c) \<and>
        (if loc = [] then l = None else \<exists>a. resolve (JoinHostPort loc ''0'') = Inr a \<and> l = Some a))"
  by (auto simp: DialSCTP_def andThen_eq_Inr dialResult_Inr)

end
