(* ===== verification/Spec2Isabelle.thy ===== *)
theory Spec2Isabelle
  imports Sbcap_Restart Delivery Cbs_Targeting Cbc_Process Http_Requests Sbcap_Peer
begin

text \<open>
  Verification of the VectorCore cell broadcast centre (CBC).

  The program takes CAP 1.2 alerts from an XMPP entity, prepares a cell broadcast plan for each
  (identifier, serial number, pages, warning area), sends it to the mobility management entities
  (MMEs) of an LTE network as SBc-AP requests in aligned PER, waits for their answers, and keeps the
  alerts and the plans in an SQLite database. Indications from the MMEs (a restarted eNB has lost
  its warnings) lead to a rebroadcast. The model follows the Go code file by file.

  Parts, from the bottom up; each theory names the source file and functions it translates.

  \<^item> \<open>CBC_Prelude\<close>: the result type (\<open>Inl\<close> error, \<open>Inr\<close> value), \<open>andThen\<close>, \<open>failIf\<close>, the loops that
    stop at the first error, the named collections of hints.
  \<^item> \<open>Go_Strings\<close>, \<open>Go_Time\<close>, \<open>Go_Clock\<close>: what the code uses of Go's strings (UTF-8 bytes), number
    parsing, RFC 3339 times and UTC conversion.
  \<^item> \<open>Sbcap_Bits\<close>, \<open>Sbcap_Aper\<close>, \<open>Sbcap_Pdu\<close>, \<open>Sbcap_Ies\<close>, \<open>Sbcap_Layout\<close>, \<open>Sbcap_Messages\<close>,
    \<open>Sbcap_Restart\<close> (\<open>internal/sbcap\<close>): bit writer and reader, constrained integers and open types,
    PDU and information elements, requests, responses, indications. The lemmas show that each
    encoder keeps the writer invariant, that every decoder reads back what its encoder wrote, which
    arguments are accepted, and the errors.
  \<^item> \<open>Cap_Alert\<close> (\<open>internal/cap/cap.go\<close>), \<open>Config\<close> (\<open>internal/config\<close>): validation of alerts and
    of the configuration.
  \<^item> \<open>Cbs_Encoding\<close>, \<open>Cbs_Classify\<close>, \<open>Cbs_Wire\<close>, \<open>Cbs_Preparer\<close> (\<open>internal/cbs\<close>): the text in GSM
    7-bit or UCS-2 pages, the message identifier, the requests of a message, the target and the
    plan. \<open>Cbs_Preparer\<close> states what it needs of a serial number repository as the locale
    \<open>serial_repository\<close>, interpreted on the SQLite tables.
  \<^item> \<open>Store_Sqlite\<close> (\<open>internal/storage/sqlite/sqlite.go\<close>): the tables as lists of rows in row order
    and each statement as a function on them; a transaction either gives its result or leaves the
    tables alone, and a \<open>fault\<close> argument stands for an error of the driver.
  \<^item> \<open>Service_Core\<close> (\<open>internal/service\<close>): the index of alerts in memory, which the lemmas show to
    mirror the database (locale \<open>alert_store\<close>, interpreted on the SQLite operations).
  \<^item> \<open>Delivery_Assoc\<close>, \<open>Delivery\<close> (\<open>internal/delivery\<close>): one association as a step relation of the
    reading and the sending goroutine with the mutex and the response channel as state; publishing,
    cancelling, indications, restart handling and the reconnect loop over it (locale \<open>mme_network\<close>,
    interpreted on the exchange of an association).
  \<^item> \<open>Go_Float\<close>, \<open>Go_Float_Text\<close>: IEEE 754 binary64 values, rounding to nearest even, comparison,
    and the text of numbers as \<open>strconv\<close> reads and writes it. \<open>Csv_Table\<close>: the loop over the rows
    of a CSV file that both interchange formats share.
  \<^item> \<open>Inventory_Plmn\<close>, \<open>Inventory_Model\<close>, \<open>Inventory_Geometry\<close>, \<open>Inventory_Coverage\<close>,
    \<open>Inventory_Csv\<close> (\<open>internal/inventory\<close>): PLMNs, cells, polygons in floating point (containment,
    intersection, bounding boxes), the canonical GeoJSON of a coverage, and the cell file.
  \<^item> \<open>Inventory_Store\<close> (\<open>internal/storage/sqlite/inventory.go\<close>), \<open>Inventory_Selection\<close>,
    \<open>Inventory_Service\<close> (\<open>selection.go\<close>, \<open>service.go\<close>), \<open>Geocode_Csv\<close>, \<open>Geocode_Store\<close>,
    \<open>Geocode_Service\<close> (\<open>internal/geocode\<close> and its tables), \<open>Inventory_Steps\<close>: the tables of the
    inventory, the selection of cells by area, uploads, the tags of cells, and the relation of all
    requests on these tables with the invariant of its reachable states.
  \<^item> \<open>Cap_Polygon\<close> (\<open>internal/cap/polygon.go\<close>): the areas of an alert as GeoJSON. \<open>Cbs_Targeting\<close>: the
    preparer as \<open>cmd/cbc/main.go\<close> wires it, with the inventory and the geocodes in place of its
    parameters, and what its targets mean in the rows of the inventory.
  \<^item> \<open>Xmpp_Client\<close> (\<open>internal/xmpp\<close>): a session with the cell broadcast entity over the tokens of its
    XML streams, as actions on a session state with a trace of what is written and handed over, and
    the waits between sessions. \<open>Sbcap_Peer\<close> (\<open>internal/sbcap/peer.go\<close>): one exchange on a connection, and
    dialling.
  \<^item> \<open>Cbc_Process\<close> (\<open>cmd/cbc\<close>): recovery at the start, the sessions of the client with the alert service
    as their handler, the expiry ticker, and the log levels.
  \<^item> \<open>Http_Api\<close>, \<open>Http_Inventory\<close>, \<open>Http_Geocode\<close>, \<open>Http_Requests\<close> (\<open>internal/httpapi\<close>): every handler
    of the operator API with its errors, and the inventory and geocode endpoints as one server over the
    tables.

  Shape of the properties. \<open>C1\<close> to \<open>C3\<close> follow an alert from its arrival to the answer of the MMEs;
  the round trips of the codec and of the text encoding say that what the network decodes is the
  alert; the store properties say that serial numbers identify alerts; the mirror properties say
  that memory and database agree; the inventory properties follow a cell from the file to the warning
  areas that select it; the remaining ones cover restarts, sessions, errors and bounds.

  Bounds and recursion. Machine integers keep their width (\<open>8\<close>, \<open>16\<close>, \<open>32\<close>, \<open>64 word\<close>). All loops of
  the code are structural recursion or have a measure; the reader and the sender of an association
  have no bound on their steps, so they are a relation and the properties are invariants of its
  reachable states, with a lemma that a waiting sender can always finish. The loops of an XMPP session
  are partial functions, where \<open>None\<close> is a loop that does not end, and are proved to return.

  Parameters. Code that is not in the repository is an argument: the XML, YAML, JSON and CSV
  decoders, sha256, sine and cosine, the text order of the database driver is that of bytes, the network's answers and the goroutine
  schedule are the choice of the environment. Each property that needs documented behaviour of such
  code names it as a hypothesis and has a witness.

  Not modelled: the rest of \<open>cmd/cbc\<close> (flags, signals, log files), \<open>internal/sbcap/osmo.go\<close> (calls a C
  library and is not built), the routing, binding and JSON of the HTTP libraries, and the text of errors.
\<close>

end
